(* ===== verification/Prelude.thy ===== *)
theory Prelude
  imports Main "HOL-Library.Word"
begin

text \<open>
  Shared vocabulary of the development: the parts of Go's language and standard library
  that the plaxt sources use.  Strings are byte lists (\<^typ>\<open>string\<close>), as Go strings are;
  \<open>TrimSpace\<close> removes the UTF-8 encodings of exactly the runes of \<open>unicode.IsSpace\<close>;
  \<open>ToLower\<close> is the ASCII case mapping (Go's own fast path: on strings with bytes above
  127 Go also maps the case of non-ASCII letters, which is not modelled).  An instant of
  \<open>time.Time\<close> is the number of nanoseconds since Go's zero time, so that \<open>IsZero\<close> is
  equality with 0.  Errors are values: the sentinel errors of the store package, plain
  messages, and wrapped errors (\<open>fmt.Errorf\<close> with the w verb).  The collection \<open>go_str\<close>
  holds the string lemmas the component proofs use.
\<close>

named_theorems go_str

section \<open>Option and list helpers\<close>

lemma find_SomeD: "find P xs = Some x \<Longrightarrow> x \<in> set xs \<and> P x"
  by (auto simp: find_Some_iff)

lemma find_unique:
  assumes "x \<in> set xs" "P x" "\<And>y. y \<in> set xs \<Longrightarrow> P y \<Longrightarrow> y = x"
  shows "find P xs = Some x"
proof (cases "find P xs")
  case None
  then show ?thesis using assms(1,2) by (auto simp: find_None_iff)
next
  case (Some y)
  then have "y \<in> set xs" "P y" by (simp_all add: find_SomeD)
  then show ?thesis using Some assms(3) by blast
qed

section \<open>Strings\<close>

subsection \<open>Trimming\<close>

text \<open>\<open>strip ps s\<close> removes from the front of \<open>s\<close>, as often as possible, a member of \<open>ps\<close>.\<close>

definition starts :: "string \<Rightarrow> string \<Rightarrow> bool" where
  "starts p s \<longleftrightarrow> p \<noteq> [] \<and> take (length p) s = p"

lemma starts_length: "starts p s \<Longrightarrow> 0 < length p \<and> length p \<le> length s"
proof -
  assume "starts p s"
  then have ne: "p \<noteq> []" and "length (take (length p) s) = length p"
    by (simp_all add: starts_def)
  then have "length p \<le> length s" by simp
  with ne show ?thesis by simp
qed

function strip :: "string list \<Rightarrow> string \<Rightarrow> string" where
  "strip ps s = (case find (\<lambda>p. starts p s) ps of
      None \<Rightarrow> s
    | Some p \<Rightarrow> strip ps (drop (length p) s))"
  by pat_completeness auto
termination
proof (relation "measure (\<lambda>(ps, s). length s)", goal_cases)
  case 1
  show ?case by simp
next
  case (2 ps s p)
  then have "starts p s" by (auto dest: find_SomeD)
  then have "0 < length p" and "length p \<le> length s"
    using starts_length [of p s] by simp_all
  then have "length (drop (length p) s) < length s"
    unfolding length_drop by linarith
  then show ?case by simp
qed

declare strip.simps [simp del]

definition no_lead :: "string list \<Rightarrow> string \<Rightarrow> bool" where
  "no_lead ps s \<longleftrightarrow> (\<forall>p \<in> set ps. \<not> starts p s)"

lemma strip_None: "find (\<lambda>p. starts p s) ps = None \<Longrightarrow> strip ps s = s"
  by (simp add: strip.simps [of ps s])

lemma strip_Some: "find (\<lambda>p. starts p s) ps = Some p \<Longrightarrow> strip ps s = strip ps (drop (length p) s)"
  by (simp add: strip.simps [of ps s])

lemma no_lead_find: "no_lead ps s \<longleftrightarrow> find (\<lambda>p. starts p s) ps = None"
  by (auto simp: no_lead_def find_None_iff)

lemma strip_fixed: "no_lead ps s \<Longrightarrow> strip ps s = s"
  by (simp add: no_lead_find strip_None)

lemma no_lead_strip: "no_lead ps (strip ps s)"
proof (induction ps s rule: strip.induct)
  case (1 ps s)
  then show ?case
    by (cases "find (\<lambda>p. starts p s) ps") (simp_all add: strip_None strip_Some no_lead_find)
qed

lemma strip_idem [simp]: "strip ps (strip ps s) = strip ps s"
  by (rule strip_fixed) (rule no_lead_strip)

lemma strip_suffix: "\<exists>pre. s = pre @ strip ps s"
proof (induction ps s rule: strip.induct)
  case (1 ps s)
  show ?case
  proof (cases "find (\<lambda>p. starts p s) ps")
    case None
    then show ?thesis by (simp add: strip_None)
  next
    case (Some p)
    with "1.IH" obtain pre where "drop (length p) s = pre @ strip ps (drop (length p) s)"
      by blast
    then have "s = (take (length p) s @ pre) @ strip ps (drop (length p) s)"
      by (metis append_assoc append_take_drop_id)
    with Some show ?thesis by (metis strip_Some)
  qed
qed

lemma length_strip: "length (strip ps s) \<le> length s"
  using strip_suffix [of s ps] by (metis length_append le_add2)

lemma no_lead_prefix: "no_lead ps (t @ u) \<Longrightarrow> no_lead ps t"
  by (fastforce simp: no_lead_def starts_def dest: starts_length)

text \<open>The UTF-8 encodings of the white space runes.\<close>

definition space_runes :: "string list" where
  "space_runes =
     [[CHR 0x09], [CHR 0x0A], [CHR 0x0B], [CHR 0x0C], [CHR 0x0D], [CHR 0x20],
      [CHR 0xC2, CHR 0x85], [CHR 0xC2, CHR 0xA0], [CHR 0xE1, CHR 0x9A, CHR 0x80],
      [CHR 0xE2, CHR 0x80, CHR 0x80], [CHR 0xE2, CHR 0x80, CHR 0x81],
      [CHR 0xE2, CHR 0x80, CHR 0x82], [CHR 0xE2, CHR 0x80, CHR 0x83],
      [CHR 0xE2, CHR 0x80, CHR 0x84], [CHR 0xE2, CHR 0x80, CHR 0x85],
      [CHR 0xE2, CHR 0x80, CHR 0x86], [CHR 0xE2, CHR 0x80, CHR 0x87],
      [CHR 0xE2, CHR 0x80, CHR 0x88], [CHR 0xE2, CHR 0x80, CHR 0x89],
      [CHR 0xE2, CHR 0x80, CHR 0x8A], [CHR 0xE2, CHR 0x80, CHR 0xA8],
      [CHR 0xE2, CHR 0x80, CHR 0xA9], [CHR 0xE2, CHR 0x80, CHR 0xAF],
      [CHR 0xE2, CHR 0x81, CHR 0x9F], [CHR 0xE3, CHR 0x80, CHR 0x80]]"

definition TrimLeftSpace :: "string \<Rightarrow> string" where
  "TrimLeftSpace s = strip space_runes s"

definition TrimRightSpace :: "string \<Rightarrow> string" where
  "TrimRightSpace s = rev (strip (map rev space_runes) (rev s))"

definition TrimSpace :: "string \<Rightarrow> string" where
  "TrimSpace s = TrimRightSpace (TrimLeftSpace s)"

lemma TrimRightSpace_prefix: "\<exists>suf. s = TrimRightSpace s @ suf"
proof -
  obtain pre where "rev s = pre @ strip (map rev space_runes) (rev s)"
    using strip_suffix by blast
  then have "s = TrimRightSpace s @ rev pre"
    by (metis TrimRightSpace_def rev_append rev_rev_ident)
  then show ?thesis ..
qed

lemma TrimRightSpace_idem [simp]: "TrimRightSpace (TrimRightSpace s) = TrimRightSpace s"
  by (simp add: TrimRightSpace_def)

lemma no_lead_TrimSpace: "no_lead space_runes (TrimSpace s)"
proof -
  obtain suf where "TrimLeftSpace s = TrimSpace s @ suf"
    using TrimRightSpace_prefix unfolding TrimSpace_def by blast
  then show ?thesis
    by (metis TrimLeftSpace_def no_lead_prefix no_lead_strip)
qed

lemma TrimSpace_idem [simp, go_str]: "TrimSpace (TrimSpace s) = TrimSpace s"
proof -
  have "TrimLeftSpace (TrimSpace s) = TrimSpace s"
    unfolding TrimLeftSpace_def by (rule strip_fixed [OF no_lead_TrimSpace])
  then show ?thesis
    by (metis TrimRightSpace_idem TrimSpace_def)
qed

lemma length_TrimSpace [go_str]: "length (TrimSpace s) \<le> length s"
  by (metis TrimLeftSpace_def TrimRightSpace_def TrimSpace_def le_trans length_rev length_strip)

lemma TrimSpace_Nil [simp]: "TrimSpace [] = []"
  using length_TrimSpace [of "[]"] by simp

text \<open>
  Evaluation: a string whose first and last bytes are printable ASCII is its own trim, and
  a leading or trailing ASCII space goes.
\<close>

definition plain :: "char \<Rightarrow> bool" where
  "plain c \<longleftrightarrow> 33 \<le> (of_char c :: nat) \<and> (of_char c :: nat) < 127"

lemma space_runes_not_plain:
  "\<forall>p \<in> set space_runes. p \<noteq> [] \<and> \<not> plain (hd p) \<and> \<not> plain (last p)"
  by (simp add: space_runes_def plain_def)

lemma starts_hd: "starts p s \<Longrightarrow> hd s = hd p \<and> s \<noteq> []"
  by (cases p; cases s) (auto simp: starts_def)

lemma no_lead_plain: "s = [] \<or> plain (hd s) \<Longrightarrow> no_lead space_runes s"
  using space_runes_not_plain by (auto simp: no_lead_def dest!: starts_hd)

lemma no_lead_plain_rev: "s = [] \<or> plain (last s) \<Longrightarrow> no_lead (map rev space_runes) (rev s)"
  using space_runes_not_plain by (auto simp: no_lead_def hd_rev dest!: starts_hd)

lemma TrimSpace_plain [go_str]:
  "plain (hd s) \<Longrightarrow> plain (last s) \<Longrightarrow> TrimSpace s = s"
  by (simp add: TrimSpace_def TrimLeftSpace_def TrimRightSpace_def strip_fixed
      no_lead_plain no_lead_plain_rev)

lemma strip_space: "strip space_runes (CHR '' '' # s) = strip space_runes s"
proof -
  have "find (\<lambda>p. starts p (CHR '' '' # s)) space_runes = Some ('' '')"
    by (simp add: space_runes_def starts_def)
  then show ?thesis by (simp add: strip_Some)
qed

lemma TrimSpace_leading [go_str]: "TrimSpace (CHR '' '' # s) = TrimSpace s"
  by (simp add: TrimSpace_def TrimLeftSpace_def strip_space)

subsection \<open>Case mapping\<close>

definition lower_byte :: "char \<Rightarrow> char" where
  "lower_byte c = (let n = of_char c :: nat in if 65 \<le> n \<and> n \<le> 90 then char_of (n + 32) else c)"

definition ToLower :: "string \<Rightarrow> string" where
  "ToLower s = map lower_byte s"

lemma lower_byte_code: "of_char (lower_byte c) = (let n = of_char c :: nat in if 65 \<le> n \<and> n \<le> 90 then n + 32 else n)"
  by (auto simp: lower_byte_def Let_def)

lemma lower_byte_idem [simp]: "lower_byte (lower_byte c) = lower_byte c"
  by (auto simp: lower_byte_def Let_def)

lemma ToLower_idem [simp, go_str]: "ToLower (ToLower s) = ToLower s"
  by (simp add: ToLower_def)

lemma ToLower_eq_Nil [simp]: "ToLower s = [] \<longleftrightarrow> s = []" "[] = ToLower s \<longleftrightarrow> s = []"
  by (auto simp: ToLower_def)

lemma length_ToLower [simp]: "length (ToLower s) = length s"
  by (simp add: ToLower_def)

text \<open>A byte that is no ASCII letter is produced by lowering exactly itself.\<close>

definition caseless :: "char \<Rightarrow> bool" where
  "caseless c \<longleftrightarrow> \<not> (65 \<le> (of_char c :: nat) \<and> (of_char c :: nat) \<le> 90) \<and>
                   \<not> (97 \<le> (of_char c :: nat) \<and> (of_char c :: nat) \<le> 122)"

lemma lower_byte_caseless: "caseless b \<Longrightarrow> lower_byte c = b \<longleftrightarrow> c = b"
  by (auto simp: lower_byte_def caseless_def Let_def)

lemma map_lower_caseless: "list_all caseless p \<Longrightarrow> map lower_byte s = p \<longleftrightarrow> s = p"
  by (induction p arbitrary: s) (auto simp: lower_byte_caseless map_eq_Cons_conv)

lemma starts_lower: "list_all caseless p \<Longrightarrow> starts p (map lower_byte s) \<longleftrightarrow> starts p s"
  by (simp add: starts_def take_map map_lower_caseless)

lemma strip_lower:
  assumes "\<forall>p \<in> set ps. list_all caseless p"
  shows "strip ps (map lower_byte s) = map lower_byte (strip ps s)"
  using assms
proof (induction ps s rule: strip.induct)
  case (1 ps s)
  have eq: "find (\<lambda>p. starts p (map lower_byte s)) ps = find (\<lambda>p. starts p s) ps"
    using "1.prems" by (intro find_cong) (simp_all add: starts_lower)
  show ?case
  proof (cases "find (\<lambda>p. starts p s) ps")
    case None
    with eq show ?thesis by (simp add: strip_None)
  next
    case (Some p)
    with eq have "strip ps (map lower_byte s) = strip ps (map lower_byte (drop (length p) s))"
      by (simp add: strip_Some drop_map)
    with "1.IH" [OF Some] "1.prems" Some show ?thesis by (simp add: strip_Some)
  qed
qed

lemma space_runes_caseless: "\<forall>p \<in> set space_runes. list_all caseless p"
  by (simp add: space_runes_def caseless_def)

lemma TrimSpace_ToLower [go_str]: "TrimSpace (ToLower s) = ToLower (TrimSpace s)"
proof -
  have "\<forall>p \<in> set (map rev space_runes). list_all caseless p"
    using space_runes_caseless by (auto simp: list_all_iff)
  then show ?thesis
    by (simp add: TrimSpace_def TrimLeftSpace_def TrimRightSpace_def ToLower_def
        strip_lower space_runes_caseless rev_map)
qed

text \<open>\<open>strings.EqualFold\<close>, on ASCII.\<close>

definition EqualFold :: "string \<Rightarrow> string \<Rightarrow> bool" where
  "EqualFold s t \<longleftrightarrow> ToLower s = ToLower t"

subsection \<open>Searching, cutting and joining\<close>

definition HasPrefix :: "string \<Rightarrow> string \<Rightarrow> bool" where
  "HasPrefix s p \<longleftrightarrow> take (length p) s = p"

definition HasSuffix :: "string \<Rightarrow> string \<Rightarrow> bool" where
  "HasSuffix s p \<longleftrightarrow> take (length p) (rev s) = rev p"

fun Contains :: "string \<Rightarrow> string \<Rightarrow> bool" where
  "Contains [] p = (p = [])"
| "Contains (c # s) p = (HasPrefix (c # s) p \<or> Contains s p)"

definition TrimPrefix :: "string \<Rightarrow> string \<Rightarrow> string" where
  "TrimPrefix s p = (if HasPrefix s p then drop (length p) s else s)"

lemma HasPrefix_iff: "HasPrefix s p \<longleftrightarrow> (\<exists>u. s = p @ u)"
  by (auto simp: HasPrefix_def) (metis append_take_drop_id)

lemma Contains_iff: "Contains s p \<longleftrightarrow> (\<exists>u v. s = u @ p @ v)"
proof (induction s)
  case Nil
  then show ?case by auto
next
  case (Cons c s)
  have "(\<exists>u v. c # s = u @ p @ v) \<longleftrightarrow> (\<exists>v. c # s = p @ v) \<or> (\<exists>u v. s = u @ p @ v)"
    by (metis append_Cons append_Nil list.inject list.exhaust)
  with Cons show ?case by (simp add: HasPrefix_iff)
qed

section \<open>Decimal printing\<close>

fun digits :: "nat \<Rightarrow> string" where
  "digits n = (if n < 10 then [char_of (48 + n)] else digits (n div 10) @ [char_of (48 + n mod 10)])"

declare digits.simps [simp del]

text \<open>The d verb, and the 02d verb (a sign counts towards the width).\<close>

definition itoa :: "int \<Rightarrow> string" where
  "itoa n = (if n < 0 then ''-'' @ digits (nat (- n)) else digits (nat n))"

definition pad2 :: "int \<Rightarrow> string" where
  "pad2 n = (if 0 \<le> n \<and> n < 10 then ''0'' @ itoa n else itoa n)"

lemma digits_nonempty [simp]: "digits n \<noteq> []"
  by (subst digits.simps) simp

lemma digits_bytes: "c \<in> set (digits n) \<Longrightarrow> 48 \<le> (of_char c :: nat) \<and> (of_char c :: nat) \<le> 57"
proof (induction n rule: digits.induct)
  case (1 n)
  then show ?case
    by (subst (asm) (2) digits.simps) (auto split: if_splits)
qed

definition undigits :: "string \<Rightarrow> nat" where
  "undigits s = foldl (\<lambda>a c. 10 * a + (of_char c - 48)) 0 s"

lemma undigits_digits [simp]: "undigits (digits n) = n"
proof (induction n rule: digits.induct)
  case (1 n)
  then show ?case
    by (subst digits.simps) (auto simp: undigits_def)
qed

lemma digits_inject: "digits m = digits n \<longleftrightarrow> m = n"
  by (metis undigits_digits)

lemma hd_digits_neq_minus: "hd (digits n) \<noteq> CHR ''-''"
  using digits_bytes [of "hd (digits n)" n] by (auto simp: hd_in_set)

lemma itoa_inject [simp]: "itoa m = itoa n \<longleftrightarrow> m = n"
proof -
  have neq: "digits a \<noteq> CHR ''-'' # xs" for a xs
    using hd_digits_neq_minus [of a] by auto
  then show ?thesis
    using neq [THEN not_sym] by (auto simp: itoa_def digits_inject eq_nat_nat_iff)
qed

section \<open>Time\<close>

text \<open>Instants and durations in nanoseconds; instants relative to Go's zero time.\<close>

type_synonym gotime = int
type_synonym duration = int

abbreviation IsZero :: "gotime \<Rightarrow> bool" where
  "IsZero t \<equiv> t = 0"

definition Second :: duration where
  "Second = 1000000000"

definition Minute :: duration where
  "Minute = 60 * Second"

definition Hour :: duration where
  "Hour = 60 * Minute"

lemmas time_defs = Second_def Minute_def Hour_def

section \<open>Errors\<close>

text \<open>
  \<open>Err m\<close> is \<open>errors.New(m)\<close> or \<open>fmt.Errorf\<close> without a wrapped error, \<open>Wrap m e\<close> is
  \<open>fmt.Errorf(m + ": %w", e)\<close>, \<open>SqlError c\<close> an error the database driver reports
  with its SQLSTATE code; the other constructors are the sentinels of
  \<open>lib/store\<close>, compared by identity in the code.
\<close>

datatype err =
    Err string
  | Wrap string err
  | SqlError string
  | ErrNotSupported
  | ErrFamilyGroupNotFound
  | ErrGroupMemberNotFound
  | ErrDuplicateFamilyGroup
  | ErrDuplicateGroupMember
  | ErrRetryItemNotFound
  | ErrInvalidNotification
  | ErrNotificationNotFound
  | ErrInvalidFamilyGroup
  | ErrEmptyPlexUsername
  | ErrInvalidGroupMember string
  | ErrInvalidMemberStatus
  | ErrEmptyMemberLabel
  | ErrInvalidRetryItem string
  | ErrRetryAttemptsExceeded

type_synonym 'a result = "err + 'a"

fun is_ok :: "'a result \<Rightarrow> bool" where
  "is_ok (Inr _) = True"
| "is_ok (Inl _) = False"

text \<open>
  The message of an error, as \<open>err.Error()\<close> gives it (for a database error its code stands
  for the driver's text).
\<close>

fun err_text :: "err \<Rightarrow> string" where
  "err_text (Err m) = m"
| "err_text (Wrap m e) = m @ '': '' @ err_text e"
| "err_text (SqlError c) = ''pq: '' @ c"
| "err_text ErrNotSupported = ''store: operation not supported''"
| "err_text ErrFamilyGroupNotFound = ''store: family group not found''"
| "err_text ErrGroupMemberNotFound = ''store: group member not found''"
| "err_text ErrDuplicateFamilyGroup = ''store: family group already exists''"
| "err_text ErrDuplicateGroupMember = ''store: group member already exists''"
| "err_text ErrRetryItemNotFound = ''store: retry queue item not found''"
| "err_text ErrInvalidNotification = ''store: invalid notification''"
| "err_text ErrNotificationNotFound = ''store: notification not found''"
| "err_text ErrInvalidFamilyGroup = ''store: family group is invalid''"
| "err_text ErrEmptyPlexUsername = ''store: plex username cannot be empty''"
| "err_text (ErrInvalidGroupMember m) = ''store: group member is invalid'' @ (if m = [] then [] else '': '' @ m)"
| "err_text ErrInvalidMemberStatus = ''store: group member status is invalid''"
| "err_text ErrEmptyMemberLabel = ''store: member label cannot be empty''"
| "err_text (ErrInvalidRetryItem m) = ''store: retry queue item is invalid'' @ (if m = [] then [] else '': '' @ m)"
| "err_text ErrRetryAttemptsExceeded = ''store: retry attempts exceeded''"

end
