(* ===== verification/Float64.thy ===== *)
theory Float64
  imports Complex_Main "HOL-Library.Log_Nat"
begin

text \<open>
  Go's \<open>float64\<close>, as far as the sources use it: conversion from an integer, division and
  multiplication, each rounded to the nearest 53-bit value with ties to even, and
  \<open>math.Round\<close> (half away from zero).  Values are rationals; exponents are unbounded, which
  is exact on the ranges that occur (quotients of 64-bit integers, decoded JSON numbers of
  ordinary size).  The lemmas the components use are monotonicity of \<open>rnd\<close> and exactness
  on integers up to 2 to the 53.
\<close>

section \<open>Rounding to an integer\<close>

definition round_even :: "rat \<Rightarrow> int" where
  "round_even r = (let n = \<lfloor>r\<rfloor>; f = r - of_int n in
     if f < 1 / 2 then n else if 1 / 2 < f then n + 1 else if even n then n else n + 1)"

lemma round_even_of_int [simp]: "round_even (of_int n) = n"
  by (simp add: round_even_def)

lemma round_even_floor: "round_even r = \<lfloor>r\<rfloor> \<or> round_even r = \<lfloor>r\<rfloor> + 1"
  by (simp add: round_even_def Let_def)

lemma round_even_mono: "r \<le> s \<Longrightarrow> round_even r \<le> round_even s"
proof (cases "\<lfloor>r\<rfloor> = \<lfloor>s\<rfloor>")
  case True
  assume "r \<le> s"
  with True show ?thesis by (auto simp: round_even_def Let_def)
next
  case False
  assume "r \<le> s"
  then have "\<lfloor>r\<rfloor> \<le> \<lfloor>s\<rfloor>" by (rule floor_mono)
  with False have "\<lfloor>r\<rfloor> + 1 \<le> \<lfloor>s\<rfloor>" by simp
  then show ?thesis using round_even_floor [of r] round_even_floor [of s] by auto
qed

section \<open>The exponent\<close>

lemma powi2_lessD: "(2::rat) powi a < 2 powi b \<Longrightarrow> a < b"
  using power_int_increasing [of b a "2::rat"] by (cases "b \<le> a") auto

lemma powi2_leD: "(2::rat) powi a \<le> 2 powi b \<Longrightarrow> a \<le> b"
  using power_int_strict_increasing [of b a "2::rat"] by (cases "b < a") auto

definition expo :: "rat \<Rightarrow> int" where
  "expo r = (let (p, q) = quotient_of r; k = bitlen p - bitlen q in
     if 2 powi k \<le> r then k else k - 1)"

lemma bitlen_powi: "0 < x \<Longrightarrow> (2::rat) powi (bitlen x - 1) \<le> of_int x \<and> of_int x < (2::rat) powi (bitlen x)"
proof -
  assume x: "0 < x"
  then have b: "2 ^ nat (bitlen x - 1) \<le> x \<and> x < 2 ^ nat (bitlen x)"
    by (rule bitlen_bounds)
  have pos: "0 < bitlen x" using x by (metis bitlen_eq_zero_iff bitlen_nonneg less_le not_less)
  have "(2::rat) powi (bitlen x - 1) = of_int (2 ^ nat (bitlen x - 1))"
    using pos by (simp add: power_int_def)
  moreover have "(2::rat) powi (bitlen x) = of_int (2 ^ nat (bitlen x))"
    using pos by (simp add: power_int_def)
  ultimately show ?thesis using b by (metis of_int_le_iff of_int_less_iff)
qed

lemma expo_bounds:
  assumes "0 < r"
  shows "2 powi expo r \<le> r" and "r < 2 powi (expo r + 1)"
proof -
  obtain p q where pq: "quotient_of r = (p, q)" by fastforce
  then have q: "0 < q" by (rule quotient_of_denom_pos)
  from pq have r: "r = of_int p / of_int q" by (rule quotient_of_div)
  with assms q have p: "0 < p" by (simp add: zero_less_divide_iff)
  let ?k = "bitlen p - bitlen q"
  have P: "(2::rat) powi (bitlen p - 1) \<le> of_int p" "of_int p < (2::rat) powi (bitlen p)"
    and Q: "(2::rat) powi (bitlen q - 1) \<le> of_int q" "of_int q < (2::rat) powi (bitlen q)"
    using bitlen_powi p q by blast+
  have qpos: "(0::rat) < of_int q" using q by simp
  have hi: "r < 2 powi (?k + 1)"
  proof -
    have "of_int p < (2::rat) powi (?k + 1) * 2 powi (bitlen q - 1)"
      using P(2) by (simp flip: power_int_add)
    also have "\<dots> \<le> 2 powi (?k + 1) * of_int q"
      using Q(1) by (intro mult_left_mono) simp_all
    finally show ?thesis using qpos by (simp add: r pos_divide_less_eq)
  qed
  have lo: "2 powi (?k - 1) \<le> r"
  proof -
    have "(2::rat) powi (?k - 1) * of_int q \<le> 2 powi (?k - 1) * 2 powi (bitlen q)"
      using Q(2) by (intro mult_left_mono) simp_all
    also have "\<dots> = 2 powi (bitlen p - 1)" by (simp flip: power_int_add)
    also have "\<dots> \<le> of_int p" by (rule P(1))
    finally show ?thesis using qpos by (simp add: r pos_le_divide_eq)
  qed
  show "2 powi expo r \<le> r" and "r < 2 powi (expo r + 1)"
    using lo hi by (auto simp: expo_def pq Let_def)
qed

lemma expo_mono: "0 < r \<Longrightarrow> r \<le> s \<Longrightarrow> expo r \<le> expo s"
proof (rule ccontr)
  assume r: "0 < r" "r \<le> s" and "\<not> expo r \<le> expo s"
  then have "(2::rat) powi (expo s + 1) \<le> 2 powi expo r"
    by (intro power_int_increasing) auto
  with expo_bounds [of r] expo_bounds [of s] r show False by linarith
qed

section \<open>Rounding to 53 bits\<close>

definition rnd_at :: "int \<Rightarrow> rat \<Rightarrow> rat" where
  "rnd_at e r = of_int (round_even (r / 2 powi e)) * 2 powi e"

definition rnd :: "rat \<Rightarrow> rat" where
  "rnd r = (if r = 0 then 0
     else if 0 < r then rnd_at (expo r - 52) r
     else - rnd_at (expo (- r) - 52) (- r))"

lemma rnd_at_mono: "r \<le> s \<Longrightarrow> rnd_at e r \<le> rnd_at e s"
  by (auto simp: rnd_at_def intro!: mult_right_mono round_even_mono divide_right_mono)

lemma rnd_at_exact: "r / 2 powi e = of_int m \<Longrightarrow> rnd_at e r = r"
  by (simp add: rnd_at_def) (simp add: field_simps)

lemma rnd_at_powi: "e \<le> k \<Longrightarrow> rnd_at e (2 powi k) = 2 powi k"
proof -
  assume "e \<le> k"
  then have "(2::rat) powi k / 2 powi e = of_int (2 ^ nat (k - e))"
    by (subst power_int_diff [symmetric]) (simp_all add: power_int_def)
  then show ?thesis by (rule rnd_at_exact)
qed

lemma rnd_pos_bounds:
  assumes "0 < r"
  shows "2 powi expo r \<le> rnd r" and "rnd r \<le> 2 powi (expo r + 1)"
proof -
  have "rnd_at (expo r - 52) (2 powi expo r) \<le> rnd_at (expo r - 52) r"
    and "rnd_at (expo r - 52) r \<le> rnd_at (expo r - 52) (2 powi (expo r + 1))"
    using expo_bounds [OF assms] by (auto intro: rnd_at_mono)
  then show "2 powi expo r \<le> rnd r" and "rnd r \<le> 2 powi (expo r + 1)"
    using assms by (simp_all add: rnd_def rnd_at_powi)
qed

lemma rnd_minus: "rnd (- r) = - rnd r"
  by (simp add: rnd_def)

lemma rnd_0 [simp]: "rnd 0 = 0"
  by (simp add: rnd_def)

lemma rnd_pos: "0 < r \<Longrightarrow> 0 < rnd r"
  by (rule less_le_trans [OF zero_less_power_int rnd_pos_bounds(1)]) simp_all

lemma rnd_mono_pos:
  assumes "0 < r" and "r \<le> s"
  shows "rnd r \<le> rnd s"
proof (cases "expo r = expo s")
  case True
  with assms show ?thesis by (simp add: rnd_def rnd_at_mono)
next
  case False
  with expo_mono [OF assms] have "expo r + 1 \<le> expo s" by simp
  then have "(2::rat) powi (expo r + 1) \<le> 2 powi expo s"
    by (intro power_int_increasing) auto
  moreover have "0 < s" using assms by simp
  ultimately show ?thesis
    using rnd_pos_bounds(2) [OF assms(1)] rnd_pos_bounds(1) [of s] by linarith
qed

theorem rnd_mono: "r \<le> s \<Longrightarrow> rnd r \<le> rnd s"
proof -
  assume le: "r \<le> s"
  consider "0 < r" | "r \<le> 0" "0 \<le> s" | "s < 0" by linarith
  then show ?thesis
  proof cases
    case 1
    then show ?thesis using le by (rule rnd_mono_pos)
  next
    case 2
    have "rnd r \<le> 0"
      using 2(1) rnd_pos [of "- r"] by (cases "r = 0") (auto simp: rnd_minus)
    moreover have "0 \<le> rnd s"
      using 2(2) rnd_pos [of s] by (cases "s = 0") auto
    ultimately show ?thesis by simp
  next
    case 3
    then have "rnd (- s) \<le> rnd (- r)" using le by (intro rnd_mono_pos) auto
    then show ?thesis by (simp add: rnd_minus)
  qed
qed

lemma rnd_int_pos:
  assumes "0 < n" and "n \<le> 2 ^ 53"
  shows "rnd (of_int n) = of_int n"
proof (cases "n = 2 ^ 53")
  case True
  then have eq: "(of_int n :: rat) = 2 powi 53" by (simp add: power_int_def)
  have "2 powi expo (2 powi 53) \<le> (2::rat) powi 53"
    by (rule expo_bounds(1)) simp
  then have "expo (2 powi 53) \<le> 53" by (rule powi2_leD)
  then have "rnd_at (expo (2 powi 53) - 52) (2 powi 53) = 2 powi 53"
    by (intro rnd_at_powi) simp
  then have "rnd (2 powi 53) = 2 powi 53"
    by (simp only: rnd_def) simp
  then show ?thesis by (simp only: eq)
next
  case False
  with assms have "n < 2 ^ 53" by simp
  then have "(of_int n :: rat) < 2 powi 53" by (simp add: power_int_def)
  then have "(2::rat) powi expo (of_int n) < 2 powi 53"
    using expo_bounds(1) [of "of_int n"] assms by linarith
  then have e: "expo (of_int n) - 52 \<le> 0" using powi2_lessD by fastforce
  let ?e = "expo (of_int n) - 52"
  have "(of_int n :: rat) / 2 powi ?e = of_int (n * 2 ^ nat (- ?e))"
    using e by (simp add: power_int_def field_simps)
  then have "rnd_at ?e (of_int n) = of_int n" by (rule rnd_at_exact)
  then show ?thesis using assms by (simp add: rnd_def)
qed

theorem rnd_of_int: "\<bar>n\<bar> \<le> 2 ^ 53 \<Longrightarrow> rnd (of_int n) = of_int n"
proof -
  assume n: "\<bar>n\<bar> \<le> 2 ^ 53"
  consider "n = 0" | "0 < n" | "n < 0" by linarith
  then show ?thesis
  proof cases
    case 2
    with n show ?thesis by (intro rnd_int_pos) auto
  next
    case 3
    with n have "rnd (of_int (- n)) = of_int (- n)" by (intro rnd_int_pos) auto
    then show ?thesis by (simp add: rnd_minus)
  qed simp
qed

section \<open>Arithmetic\<close>

definition f64 :: "int \<Rightarrow> rat" where
  "f64 n = rnd (of_int n)"

definition f64_div :: "rat \<Rightarrow> rat \<Rightarrow> rat" where
  "f64_div x y = rnd (x / y)"

definition f64_mult :: "rat \<Rightarrow> rat \<Rightarrow> rat" where
  "f64_mult x y = rnd (x * y)"

text \<open>\<open>math.Round\<close> and the conversion \<open>int(v)\<close>, which truncates towards zero.\<close>

definition math_Round :: "rat \<Rightarrow> int" where
  "math_Round r = (if 0 \<le> r then \<lfloor>r + 1 / 2\<rfloor> else \<lceil>r - 1 / 2\<rceil>)"

definition f64_int :: "rat \<Rightarrow> int" where
  "f64_int r = (if 0 \<le> r then \<lfloor>r\<rfloor> else \<lceil>r\<rceil>)"

lemma math_Round_of_int [simp]: "math_Round (of_int n) = n"
  by (auto simp: math_Round_def floor_eq_iff ceiling_eq_iff)

lemma math_Round_mono: "r \<le> s \<Longrightarrow> math_Round r \<le> math_Round s"
proof -
  assume le: "r \<le> s"
  have neg: "\<lceil>r - 1 / 2\<rceil> \<le> \<lfloor>s + 1 / 2\<rfloor>" if "r < 0" "0 \<le> s"
  proof -
    have "\<lceil>r - 1 / 2\<rceil> \<le> 0" using that by (simp add: ceiling_le_iff)
    also have "0 \<le> \<lfloor>s + 1 / 2\<rfloor>" using that by (simp add: le_floor_iff)
    finally show ?thesis .
  qed
  show ?thesis
    using le neg by (auto simp: math_Round_def intro: floor_mono ceiling_mono)
qed

lemma f64_int_of_int [simp]: "f64_int (of_int n) = n"
  by (simp add: f64_int_def)

end
