(* ===== verification/Common.thy ===== *)
theory Common
  imports Prelude Float64
begin

text \<open>
  Package \<open>lib/common\<close>: the media records exchanged with Trakt and the stores, display name
  normalisation, and the JSON encoding of a scrobble body with its custom decoder.  A nil
  pointer is \<^const>\<open>None\<close>; a method that would dereference one returns \<^const>\<open>None\<close>
  (a panic).  JSON documents are a datatype; \<open>JInt\<close> is a number literal without fraction
  or exponent, \<open>JFrac\<close> one with.  Decoding follows \<open>encoding/json\<close>: keys match ignoring
  case, unknown keys are skipped, a key that occurs twice is applied twice, and values are
  merged into the struct that is decoded into.
\<close>

section \<open>Data (lib/common/structs.go)\<close>

record Ids =
  Trakt :: "int option"
  Tvdb :: "int option"
  Imdb :: "string option"
  Tmdb :: "int option"
  Slug :: "string option"

record Show =
  ShowTitle :: "string option"
  ShowYear :: "int option"
  ShowIds :: Ids

record Episode =
  Season :: "int option"
  Number :: "int option"
  EpTitle :: "string option"
  EpIds :: "Ids option"

record Movie =
  MovieTitle :: "string option"
  MovieYear :: "int option"
  MovieIds :: Ids

record ScrobbleBody =
  Progress :: int
  BMovie :: "Movie option"
  BShow :: "Show option"
  BEpisode :: "Episode option"

record CacheItem =
  PlayerUuid :: string
  ServerUuid :: string
  CRatingKey :: string
  Trigger :: string
  Body :: ScrobbleBody
  LastAction :: string

record QueueStatus =
  QSUserID :: string
  QSQueueSize :: int
  OldestEventAge :: duration
  Mode :: string
  LastHealthCheck :: gotime
  LastSuccessfulSync :: gotime
  DrainActive :: bool
  EventsProcessed :: int
  EventsFailed :: int

definition zero_Ids :: Ids where
  "zero_Ids = \<lparr>Trakt = None, Tvdb = None, Imdb = None, Tmdb = None, Slug = None\<rparr>"

definition zero_Show :: Show where
  "zero_Show = \<lparr>ShowTitle = None, ShowYear = None, ShowIds = zero_Ids\<rparr>"

definition zero_Episode :: Episode where
  "zero_Episode = \<lparr>Season = None, Number = None, EpTitle = None, EpIds = None\<rparr>"

definition zero_Movie :: Movie where
  "zero_Movie = \<lparr>MovieTitle = None, MovieYear = None, MovieIds = zero_Ids\<rparr>"

definition zero_Body :: ScrobbleBody where
  "zero_Body = \<lparr>Progress = 0, BMovie = None, BShow = None, BEpisode = None\<rparr>"

definition zero_CacheItem :: CacheItem where
  "zero_CacheItem = \<lparr>PlayerUuid = [], ServerUuid = [], CRatingKey = [], Trigger = [],
     Body = zero_Body, LastAction = []\<rparr>"

lemmas zero_defs = zero_Ids_def zero_Show_def zero_Episode_def zero_Movie_def zero_Body_def
  zero_CacheItem_def

section \<open>Display names (lib/common/displayname.go)\<close>

definition MaxTraktDisplayNameLength :: nat where
  "MaxTraktDisplayNameLength = 50"

definition NormalizeDisplayName :: "string \<Rightarrow> string \<times> bool" where
  "NormalizeDisplayName name =
     (let normalized = TrimSpace name in
      if length normalized > MaxTraktDisplayNameLength
      then (take MaxTraktDisplayNameLength normalized, True)
      else (normalized, False))"

section \<open>Description of a body (lib/common/main.go)\<close>

definition ScrobbleBody_String :: "ScrobbleBody \<Rightarrow> string option" where
  "ScrobbleBody_String body =
     map_option (\<lambda>title. title @ '' '' @ itoa (Progress body) @ ''%'')
      (case BMovie body of
         Some m \<Rightarrow> (case (MovieTitle m, MovieYear m) of
             (Some t, Some y) \<Rightarrow> Some (t @ '' ('' @ itoa y @ '')'')
           | _ \<Rightarrow> None)
       | None \<Rightarrow> (case BShow body of
             Some s \<Rightarrow> (case (ShowTitle s, BEpisode body) of
                 (Some t, Some e) \<Rightarrow> (case (Season e, Number e) of
                     (Some sn, Some nr) \<Rightarrow> Some (t @ '' - S'' @ pad2 sn @ ''E'' @ pad2 nr)
                   | _ \<Rightarrow> None)
               | _ \<Rightarrow> None)
           | None \<Rightarrow> Some []))"

section \<open>JSON\<close>

datatype json =
    JNull
  | JBool bool
  | JInt int
  | JFrac rat
  | JStr string
  | JArr "json list"
  | JObj "(string \<times> json) list"

datatype 'a decoded = DecOk 'a | DecErr | DecPanic

definition in_int64 :: "int \<Rightarrow> bool" where
  "in_int64 n \<longleftrightarrow> - (2 ^ 63) \<le> n \<and> n < 2 ^ 63"

subsection \<open>Encoding\<close>

definition omitempty :: "string \<Rightarrow> ('a \<Rightarrow> json) \<Rightarrow> 'a option \<Rightarrow> (string \<times> json) list" where
  "omitempty k f v = (case v of None \<Rightarrow> [] | Some x \<Rightarrow> [(k, f x)])"

definition enc_Ids :: "Ids \<Rightarrow> json" where
  "enc_Ids i = JObj (omitempty ''trakt'' JInt (Trakt i) @ omitempty ''tvdb'' JInt (Tvdb i) @
     omitempty ''imdb'' JStr (Imdb i) @ omitempty ''tmdb'' JInt (Tmdb i) @
     omitempty ''slug'' JStr (Slug i))"

definition enc_Show :: "Show \<Rightarrow> json" where
  "enc_Show s = JObj (omitempty ''title'' JStr (ShowTitle s) @ omitempty ''year'' JInt (ShowYear s) @
     [(''ids'', enc_Ids (ShowIds s))])"

definition enc_Episode :: "Episode \<Rightarrow> json" where
  "enc_Episode e = JObj (omitempty ''season'' JInt (Season e) @ omitempty ''number'' JInt (Number e) @
     omitempty ''title'' JStr (EpTitle e) @ omitempty ''ids'' enc_Ids (EpIds e))"

definition enc_Movie :: "Movie \<Rightarrow> json" where
  "enc_Movie m = JObj (omitempty ''title'' JStr (MovieTitle m) @ omitempty ''year'' JInt (MovieYear m) @
     [(''ids'', enc_Ids (MovieIds m))])"

definition ScrobbleBody_MarshalJSON :: "ScrobbleBody \<Rightarrow> json" where
  "ScrobbleBody_MarshalJSON s = JObj ([(''progress'', JInt (Progress s))] @
     omitempty ''movie'' enc_Movie (BMovie s) @ omitempty ''show'' enc_Show (BShow s) @
     omitempty ''episode'' enc_Episode (BEpisode s))"

subsection \<open>Decoding\<close>

type_synonym 'a field = "string \<times> (json \<Rightarrow> 'a \<Rightarrow> 'a option)"

fun set_fields :: "'a field list \<Rightarrow> (string \<times> json) list \<Rightarrow> 'a \<Rightarrow> 'a option" where
  "set_fields fs [] a = Some a"
| "set_fields fs ((k, v) # kvs) a =
     (case find (\<lambda>(n, _). EqualFold n k) fs of
        None \<Rightarrow> set_fields fs kvs a
      | Some (_, f) \<Rightarrow> (case f v a of None \<Rightarrow> None | Some a' \<Rightarrow> set_fields fs kvs a'))"

fun dec_struct :: "'a field list \<Rightarrow> json \<Rightarrow> 'a \<Rightarrow> 'a option" where
  "dec_struct fs (JObj kvs) a = set_fields fs kvs a"
| "dec_struct fs JNull a = Some a"
| "dec_struct fs _ a = None"

fun dec_int :: "json \<Rightarrow> int option option" where
  "dec_int JNull = Some None"
| "dec_int (JInt n) = (if in_int64 n then Some (Some n) else None)"
| "dec_int _ = None"

fun dec_str :: "json \<Rightarrow> string option option" where
  "dec_str JNull = Some None"
| "dec_str (JStr s) = Some (Some s)"
| "dec_str _ = None"

definition dec_ptr :: "'a \<Rightarrow> (json \<Rightarrow> 'a \<Rightarrow> 'a option) \<Rightarrow> json \<Rightarrow> 'a option \<Rightarrow> 'a option option" where
  "dec_ptr z dec v cur = (if v = JNull then Some None
     else map_option Some (dec v (case cur of None \<Rightarrow> z | Some x \<Rightarrow> x)))"

text \<open>A string field that is no pointer keeps its value when the document says null.\<close>

fun set_string :: "json \<Rightarrow> string \<Rightarrow> string option" where
  "set_string (JStr s) old = Some s"
| "set_string JNull old = Some old"
| "set_string _ old = None"

text \<open>
  Decoding a list: each element starts from the element the field already has at its place, if an
  earlier value of the same key left one there.
\<close>

fun dec_elems :: "'a \<Rightarrow> (json \<Rightarrow> 'a \<Rightarrow> 'a option) \<Rightarrow> json list \<Rightarrow> 'a list \<Rightarrow> 'a list option" where
  "dec_elems z dec [] old = Some []"
| "dec_elems z dec (v # vs) old = (case dec v (case old of [] \<Rightarrow> z | x # _ \<Rightarrow> x) of
     None \<Rightarrow> None
   | Some x \<Rightarrow> map_option (Cons x) (dec_elems z dec vs (tl old)))"

fun dec_slice :: "'a \<Rightarrow> (json \<Rightarrow> 'a \<Rightarrow> 'a option) \<Rightarrow> json \<Rightarrow> 'a list \<Rightarrow> 'a list option" where
  "dec_slice z dec JNull old = Some []"
| "dec_slice z dec (JArr vs) old = dec_elems z dec vs old"
| "dec_slice z dec _ old = None"

definition dec_Ids :: "json \<Rightarrow> Ids \<Rightarrow> Ids option" where
  "dec_Ids = dec_struct
     [(''trakt'', \<lambda>v a. map_option (\<lambda>x. a\<lparr>Trakt := x\<rparr>) (dec_int v)),
      (''tvdb'', \<lambda>v a. map_option (\<lambda>x. a\<lparr>Tvdb := x\<rparr>) (dec_int v)),
      (''imdb'', \<lambda>v a. map_option (\<lambda>x. a\<lparr>Imdb := x\<rparr>) (dec_str v)),
      (''tmdb'', \<lambda>v a. map_option (\<lambda>x. a\<lparr>Tmdb := x\<rparr>) (dec_int v)),
      (''slug'', \<lambda>v a. map_option (\<lambda>x. a\<lparr>Slug := x\<rparr>) (dec_str v))]"

definition dec_Show :: "json \<Rightarrow> Show \<Rightarrow> Show option" where
  "dec_Show = dec_struct
     [(''title'', \<lambda>v a. map_option (\<lambda>x. a\<lparr>ShowTitle := x\<rparr>) (dec_str v)),
      (''year'', \<lambda>v a. map_option (\<lambda>x. a\<lparr>ShowYear := x\<rparr>) (dec_int v)),
      (''ids'', \<lambda>v a. map_option (\<lambda>x. a\<lparr>ShowIds := x\<rparr>) (dec_Ids v (ShowIds a)))]"

definition dec_Episode :: "json \<Rightarrow> Episode \<Rightarrow> Episode option" where
  "dec_Episode = dec_struct
     [(''season'', \<lambda>v a. map_option (\<lambda>x. a\<lparr>Season := x\<rparr>) (dec_int v)),
      (''number'', \<lambda>v a. map_option (\<lambda>x. a\<lparr>Number := x\<rparr>) (dec_int v)),
      (''title'', \<lambda>v a. map_option (\<lambda>x. a\<lparr>EpTitle := x\<rparr>) (dec_str v)),
      (''ids'', \<lambda>v a. map_option (\<lambda>x. a\<lparr>EpIds := x\<rparr>) (dec_ptr zero_Ids dec_Ids v (EpIds a)))]"

definition dec_Movie :: "json \<Rightarrow> Movie \<Rightarrow> Movie option" where
  "dec_Movie = dec_struct
     [(''title'', \<lambda>v a. map_option (\<lambda>x. a\<lparr>MovieTitle := x\<rparr>) (dec_str v)),
      (''year'', \<lambda>v a. map_option (\<lambda>x. a\<lparr>MovieYear := x\<rparr>) (dec_int v)),
      (''ids'', \<lambda>v a. map_option (\<lambda>x. a\<lparr>MovieIds := x\<rparr>) (dec_Ids v (MovieIds a)))]"

text \<open>
  The auxiliary struct of \<open>UnmarshalJSON\<close>: the progress value as any JSON value (null when
  absent) next to the body that the alias points at.
\<close>

definition dec_aux :: "json \<Rightarrow> json \<times> ScrobbleBody \<Rightarrow> (json \<times> ScrobbleBody) option" where
  "dec_aux = dec_struct
     [(''progress'', \<lambda>v (p, b). Some (v, b)),
      (''movie'', \<lambda>v (p, b). map_option (\<lambda>x. (p, b\<lparr>BMovie := x\<rparr>)) (dec_ptr zero_Movie dec_Movie v (BMovie b))),
      (''show'', \<lambda>v (p, b). map_option (\<lambda>x. (p, b\<lparr>BShow := x\<rparr>)) (dec_ptr zero_Show dec_Show v (BShow b))),
      (''episode'', \<lambda>v (p, b). map_option (\<lambda>x. (p, b\<lparr>BEpisode := x\<rparr>)) (dec_ptr zero_Episode dec_Episode v (BEpisode b)))]"

text \<open>
  Decoding the document null sets the pointer to the auxiliary struct to nil, and the type
  switch on its progress then dereferences it: a panic.
\<close>

definition ScrobbleBody_UnmarshalJSON :: "json \<Rightarrow> ScrobbleBody \<Rightarrow> ScrobbleBody decoded" where
  "ScrobbleBody_UnmarshalJSON data s =
     (if data = JNull then DecPanic
      else case dec_aux data (JNull, s) of
        None \<Rightarrow> DecErr
      | Some (p, b) \<Rightarrow> DecOk (case p of
            JInt n \<Rightarrow> b\<lparr>Progress := f64_int (f64 n)\<rparr>
          | JFrac r \<Rightarrow> b\<lparr>Progress := f64_int (rnd r)\<rparr>
          | JNull \<Rightarrow> b\<lparr>Progress := 0\<rparr>
          | _ \<Rightarrow> b))"

subsection \<open>Round trip\<close>

text \<open>The integers of a body fit the types they are decoded into.\<close>

abbreviation int_ok :: "int option \<Rightarrow> bool" where
  "int_ok \<equiv> pred_option in_int64"

definition Ids_ok :: "Ids \<Rightarrow> bool" where
  "Ids_ok i \<longleftrightarrow> int_ok (Trakt i) \<and> int_ok (Tvdb i) \<and> int_ok (Tmdb i)"

definition Show_ok :: "Show \<Rightarrow> bool" where
  "Show_ok s \<longleftrightarrow> int_ok (ShowYear s) \<and> Ids_ok (ShowIds s)"

definition Movie_ok :: "Movie \<Rightarrow> bool" where
  "Movie_ok m \<longleftrightarrow> int_ok (MovieYear m) \<and> Ids_ok (MovieIds m)"

definition Episode_ok :: "Episode \<Rightarrow> bool" where
  "Episode_ok e \<longleftrightarrow> int_ok (Season e) \<and> int_ok (Number e) \<and> pred_option Ids_ok (EpIds e)"

definition Body_ok :: "ScrobbleBody \<Rightarrow> bool" where
  "Body_ok b \<longleftrightarrow> \<bar>Progress b\<bar> \<le> 2 ^ 53 \<and> pred_option Movie_ok (BMovie b) \<and>
     pred_option Show_ok (BShow b) \<and> pred_option Episode_ok (BEpisode b)"

lemma set_fields_append:
  "set_fields fs (xs @ ys) a = Option.bind (set_fields fs xs a) (set_fields fs ys)"
  by (induction fs xs a rule: set_fields.induct) (auto split: option.splits)

lemmas fold_simps = EqualFold_def ToLower_def lower_byte_def

lemma dec_enc_Ids: "Ids_ok i \<Longrightarrow> dec_Ids (enc_Ids i) zero_Ids = Some i"
  by (cases i)
     (auto simp: dec_Ids_def enc_Ids_def set_fields_append omitempty_def fold_simps
       Ids_ok_def zero_Ids_def split: option.splits)

lemma enc_not_null [simp]:
  "enc_Ids i \<noteq> JNull" "enc_Show s \<noteq> JNull" "enc_Movie m \<noteq> JNull" "enc_Episode e \<noteq> JNull"
  by (simp_all add: enc_Ids_def enc_Show_def enc_Movie_def enc_Episode_def)

lemma dec_enc_Show: "Show_ok s \<Longrightarrow> dec_Show (enc_Show s) zero_Show = Some s"
  by (cases s)
     (auto simp: dec_Show_def enc_Show_def set_fields_append omitempty_def fold_simps
       Show_ok_def zero_Show_def dec_enc_Ids split: option.splits)

lemma dec_enc_Movie: "Movie_ok m \<Longrightarrow> dec_Movie (enc_Movie m) zero_Movie = Some m"
  by (cases m)
     (auto simp: dec_Movie_def enc_Movie_def set_fields_append omitempty_def fold_simps
       Movie_ok_def zero_Movie_def dec_enc_Ids split: option.splits)

lemma dec_enc_Episode: "Episode_ok e \<Longrightarrow> dec_Episode (enc_Episode e) zero_Episode = Some e"
  by (cases e)
     (auto simp: dec_Episode_def enc_Episode_def set_fields_append omitempty_def fold_simps
       Episode_ok_def zero_Episode_def dec_ptr_def dec_enc_Ids split: option.splits)

lemma body_roundtrip:
  "Body_ok b \<Longrightarrow> ScrobbleBody_UnmarshalJSON (ScrobbleBody_MarshalJSON b) zero_Body = DecOk b"
  by (cases b)
     (auto simp: ScrobbleBody_UnmarshalJSON_def ScrobbleBody_MarshalJSON_def dec_aux_def
       set_fields_append omitempty_def fold_simps zero_Body_def Body_ok_def dec_ptr_def f64_def rnd_of_int
       dec_enc_Show dec_enc_Movie dec_enc_Episode split: option.splits)

text \<open>
  Encoding a scrobble body and decoding the document into a fresh body gives the body
  back, for every combination of present and absent media fields, provided integers fit 64
  bits and the progress, which the decoder reads through \<open>float64\<close>, is at most 2 to the 53.
\<close>

theorem ScrobbleBody_json_roundtrip:
  "Body_ok b \<Longrightarrow> ScrobbleBody_UnmarshalJSON (ScrobbleBody_MarshalJSON b) zero_Body = DecOk b"
  by (rule body_roundtrip)

theorem ScrobbleBody_json_roundtrip_witness:
  "ScrobbleBody_UnmarshalJSON (ScrobbleBody_MarshalJSON
     (zero_Body\<lparr>Progress := 42, BMovie := Some (zero_Movie\<lparr>MovieTitle := Some ''Heat'', MovieYear := Some 1995\<rparr>)\<rparr>)) zero_Body
   = DecOk (zero_Body\<lparr>Progress := 42, BMovie := Some (zero_Movie\<lparr>MovieTitle := Some ''Heat'', MovieYear := Some 1995\<rparr>)\<rparr>)"
  by (rule ScrobbleBody_json_roundtrip) (simp add: Body_ok_def Movie_ok_def Ids_ok_def zero_defs in_int64_def)

lemma ScrobbleBody_panic_iff: "ScrobbleBody_UnmarshalJSON d b = DecPanic \<longleftrightarrow> d = JNull"
  by (auto simp: ScrobbleBody_UnmarshalJSON_def split: option.splits json.splits)

text \<open>
  Display name normalisation never returns more than 50 bytes, returns a prefix of the
  trimmed input, and reports truncation exactly when it cut something off.
\<close>

lemma NormalizeDisplayName_spec:
  "length (fst (NormalizeDisplayName name)) \<le> 50 \<and>
   (\<exists>rest. TrimSpace name = fst (NormalizeDisplayName name) @ rest \<and>
     (snd (NormalizeDisplayName name) \<longleftrightarrow> rest \<noteq> []))"
  by (auto simp: NormalizeDisplayName_def Let_def MaxTraktDisplayNameLength_def)
     (metis append_take_drop_id drop_eq_Nil leD)

text \<open>
  Normalisation is not idempotent: cutting at byte 50 can leave trailing white space,
  which a second pass removes, so a name stored once differs from the name re-normalised.
\<close>

lemma NormalizeDisplayName_not_idempotent:
  "\<exists>name. fst (NormalizeDisplayName (fst (NormalizeDisplayName name))) \<noteq> fst (NormalizeDisplayName name)"
proof
  show "fst (NormalizeDisplayName (fst (NormalizeDisplayName (replicate 49 CHR ''a'' @ '' b''))))
        \<noteq> fst (NormalizeDisplayName (replicate 49 CHR ''a'' @ '' b''))"
    by code_simp
qed

end
