(* ===== verification/Plex.thy ===== *)
theory Plex
  imports Common
begin

text \<open>
  Package \<open>plexhooks\<close>: the webhook Plex sends.  Of the metadata the record has the fields the
  server reads.  The decoder of the parser is pluggable in the code and an argument here.
\<close>

record Account =
  acc_ID :: int
  acc_Thumb :: string
  acc_Title :: string

record Server =
  srv_Title :: string
  srv_UUID :: string

record Player =
  Local :: bool
  PublicAddress :: string
  pl_Title :: string
  pl_UUID :: string

record Metadata =
  LibrarySectionType :: string
  md_RatingKey :: string
  ExternalGUIDs :: "string list"
  GUID :: string
  md_Type :: string
  md_Title :: string
  GrandparentTitle :: string
  Index :: int
  ParentIndex :: int
  ViewOffset :: int
  Year :: int
  Duration :: int

record Webhook =
  Event :: string
  wh_User :: bool
  Owner :: bool
  wh_Account :: Account
  wh_Metadata :: Metadata
  wh_Server :: Server
  wh_Player :: Player

definition ErrEmptyPayload :: err where
  "ErrEmptyPayload = Err ''plexhooks: empty webhook payload''"

definition Parser_Parse :: "(string \<Rightarrow> Webhook result) \<Rightarrow> string \<Rightarrow> Webhook result" where
  "Parser_Parse decoder payload =
     (if TrimSpace payload = [] then Inl ErrEmptyPayload
      else case decoder payload of
        Inl x \<Rightarrow> Inl (Wrap ''plexhooks: decode webhook'' x)
      | Inr hook \<Rightarrow> Inr hook)"

end
