(* ===== verification/Users.thy ===== *)
theory Users
  imports Common "HOL-Library.Monad_Syntax"
begin

unbundle bit_operations_syntax

text \<open>
  \<open>lib/store/user.go\<close>: the user object, its identifier and its update methods.  A user
  carries the store that saves it as an interface value; \<open>has_store\<close> says whether that
  value is non-nil.  \<open>WriteUser\<close> is the store's operation, a parameter here: it maps a user
  and a store state to the new state, or to \<^const>\<open>None\<close> when it panics.  Calling \<open>save\<close> on a
  user with a nil store is a nil dereference, again \<^const>\<open>None\<close>.  Random bytes and clock
  readings are arguments.
\<close>

section \<open>Hexadecimal encoding and version 4 identifiers\<close>

type_synonym bytes = "8 word list"

definition hexdigit :: "nat \<Rightarrow> char" where
  "hexdigit n = ''0123456789abcdef'' ! n"

definition hex_byte :: "8 word \<Rightarrow> string" where
  "hex_byte b = [hexdigit (unat b div 16), hexdigit (unat b mod 16)]"

definition hex_encode :: "bytes \<Rightarrow> string" where
  "hex_encode bs = concat (map hex_byte bs)"

text \<open>The version and variant bits set by \<open>uuid\<close>, \<open>generateEventID\<close> and \<open>generateCorrelationID\<close>.\<close>

definition v4_bits :: "bytes \<Rightarrow> bytes" where
  "v4_bits b = b[6 := ((b ! 6) AND 0x0f) OR 0x40, 8 := ((b ! 8) AND 0x3f) OR 0x80]"

text \<open>
  \<open>rand.Read\<close> fills 16 bytes or fails; \<open>stamp\<close> is the formatted clock of the fallback.
\<close>

definition uuid :: "bytes option \<Rightarrow> bytes \<Rightarrow> string" where
  "uuid rand stamp = (case rand of None \<Rightarrow> hex_encode stamp | Some b \<Rightarrow> hex_encode (v4_bits b))"

lemma length_hex_encode [simp]: "length (hex_encode bs) = 2 * length bs"
  by (induction bs) (simp_all add: hex_encode_def hex_byte_def)

lemma length_v4_bits [simp]: "length (v4_bits b) = length b"
  by (simp add: v4_bits_def)

lemma hexdigit_inject: "m < 16 \<Longrightarrow> n < 16 \<Longrightarrow> hexdigit m = hexdigit n \<longleftrightarrow> m = n"
proof -
  have "distinct ''0123456789abcdef''" by simp
  then show "m < 16 \<Longrightarrow> n < 16 \<Longrightarrow> hexdigit m = hexdigit n \<longleftrightarrow> m = n"
    by (simp add: hexdigit_def nth_eq_iff_index_eq)
qed

lemma unat_byte_less: "unat (b :: 8 word) < 256"
  using unsigned_less [of b, where 'a = nat] by simp

lemma hex_byte_inject: "hex_byte a = hex_byte b \<longleftrightarrow> a = b"
proof
  assume eq: "hex_byte a = hex_byte b"
  have "unat a div 16 < 16" "unat b div 16 < 16"
    using unat_byte_less [of a] unat_byte_less [of b] by linarith+
  then have "unat a div 16 = unat b div 16 \<and> unat a mod 16 = unat b mod 16"
    using eq by (simp add: hex_byte_def hexdigit_inject)
  then have "unat a = unat b" by (metis div_mult_mod_eq)
  then show "a = b" by (rule unsigned_word_eqI)
qed simp

lemma hex_encode_inject: "hex_encode a = hex_encode b \<longleftrightarrow> a = b"
proof (induction a arbitrary: b)
  case Nil
  then show ?case by (cases b) (simp_all add: hex_encode_def hex_byte_def)
next
  case (Cons x a)
  then show ?case
    by (cases b) (auto simp: hex_encode_def hex_byte_inject [symmetric] hex_byte_def)
qed

section \<open>The user object\<close>

record User =
  usr_ID :: string
  Username :: string
  AccessToken :: string
  RefreshToken :: string
  TraktDisplayName :: string
  Updated :: gotime
  TokenExpiry :: gotime
  has_store :: bool

type_synonym 's write_user = "User \<Rightarrow> 's \<Rightarrow> 's option"

definition save :: "'s write_user \<Rightarrow> User \<Rightarrow> 's \<Rightarrow> 's option" where
  "save WriteUser user s = (if has_store user then WriteUser user s else None)"

definition NewUser :: "'s write_user \<Rightarrow> string \<Rightarrow> gotime \<Rightarrow> string \<Rightarrow> string \<Rightarrow> string \<Rightarrow>
    string option \<Rightarrow> gotime \<Rightarrow> bool \<Rightarrow> 's \<Rightarrow> (User \<times> 's) option" where
  "NewUser WriteUser uid now username accessToken refreshToken displayName tokenExpiry store s =
     (let normalizedName = (case displayName of None \<Rightarrow> [] | Some n \<Rightarrow> fst (NormalizeDisplayName n));
          user = \<lparr>usr_ID = uid, Username = username, AccessToken = accessToken,
                  RefreshToken = refreshToken, TraktDisplayName = normalizedName, Updated = now,
                  TokenExpiry = tokenExpiry, has_store = store\<rparr>
      in do { s' \<leftarrow> save WriteUser user s; Some (user, s') })"

definition UpdateUser :: "'s write_user \<Rightarrow> gotime \<Rightarrow> string \<Rightarrow> string \<Rightarrow> string option \<Rightarrow> gotime \<Rightarrow>
    User \<Rightarrow> 's \<Rightarrow> (User \<times> 's) option" where
  "UpdateUser WriteUser now accessToken refreshToken displayName tokenExpiry user s =
     (let user = user\<lparr>AccessToken := accessToken, RefreshToken := refreshToken, Updated := now,
                      TokenExpiry := tokenExpiry\<rparr>;
          user = (case displayName of
                    None \<Rightarrow> user
                  | Some n \<Rightarrow> user\<lparr>TraktDisplayName := fst (NormalizeDisplayName n)\<rparr>)
      in do { s' \<leftarrow> save WriteUser user s; Some (user, s') })"

definition UpdateDisplayName :: "'s write_user \<Rightarrow> string option \<Rightarrow> User \<Rightarrow> 's \<Rightarrow> (bool \<times> User \<times> 's) option" where
  "UpdateDisplayName WriteUser displayName user s =
     (let (user, truncated) = (case displayName of
            Some n \<Rightarrow> (let (normalizedName, wasTruncated) = NormalizeDisplayName n
                       in (user\<lparr>TraktDisplayName := normalizedName\<rparr>, wasTruncated))
          | None \<Rightarrow> (user\<lparr>TraktDisplayName := []\<rparr>, False))
      in do { s' \<leftarrow> save WriteUser user s; Some (truncated, user, s') })"

definition UpdateUsername :: "'s write_user \<Rightarrow> string \<Rightarrow> User \<Rightarrow> 's \<Rightarrow> (User \<times> 's) option" where
  "UpdateUsername WriteUser newUsername user s =
     (let user = user\<lparr>Username := ToLower (TrimSpace newUsername)\<rparr>
      in do { s' \<leftarrow> save WriteUser user s; Some (user, s') })"

section \<open>Lemmas\<close>

lemma UpdateUser_Some:
  "UpdateUser W now a r dn e u s = Some (u', s') \<Longrightarrow>
     has_store u \<and> W u' s = Some s' \<and> usr_ID u' = usr_ID u \<and> Username u' = Username u \<and>
     AccessToken u' = a \<and> RefreshToken u' = r \<and> Updated u' = now \<and> TokenExpiry u' = e \<and>
     has_store u' \<and>
     TraktDisplayName u' = (case dn of None \<Rightarrow> TraktDisplayName u | Some n \<Rightarrow> fst (NormalizeDisplayName n))"
  by (cases dn) (auto simp: UpdateUser_def save_def Let_def split: if_splits bind_splits)

lemma UpdateUser_nil_store: "\<not> has_store u \<Longrightarrow> UpdateUser W now a r dn e u s = None"
  by (cases dn) (simp_all add: UpdateUser_def save_def)

lemma UpdateUser_ok:
  "has_store u \<Longrightarrow> (\<And>x. usr_ID x = usr_ID u \<Longrightarrow> \<exists>s'. W x s = Some s') \<Longrightarrow> \<exists>u' s'. UpdateUser W now a r dn e u s = Some (u', s')"
proof -
  assume h: "has_store u" and W: "\<And>x. usr_ID x = usr_ID u \<Longrightarrow> \<exists>s'. W x s = Some s'"
  then show ?thesis
    by (cases dn) (auto simp: UpdateUser_def save_def Let_def bind_eq_Some_conv)
qed

lemma NewUser_ok:
  "(\<And>x. usr_ID x = i \<Longrightarrow> \<exists>s'. W x s = Some s') \<Longrightarrow> \<exists>u s'. NewUser W i now n a r dn e True s = Some (u, s')"
proof -
  assume W: "\<And>x. usr_ID x = i \<Longrightarrow> \<exists>s'. W x s = Some s'"
  then show ?thesis by (cases dn) (auto simp: NewUser_def save_def Let_def bind_eq_Some_conv)
qed

lemma NewUser_Some:
  "NewUser W i now n a r dn e st s = Some (u, s') \<Longrightarrow>
     st \<and> W u s = Some s' \<and> usr_ID u = i \<and> Username u = n \<and> AccessToken u = a \<and> RefreshToken u = r \<and>
     Updated u = now \<and> TokenExpiry u = e \<and> has_store u"
  by (auto simp: NewUser_def save_def Let_def split: if_splits bind_splits)

end
