(* ===== verification/Ring.thy ===== *)
theory Ring
  imports Prelude
begin

text \<open>
  The \<open>container/ring\<close> of Go as both bounded buffers of \<open>lib/store\<close> use it, and the
  contract they share.  A ring is the list of its cells in the order \<open>Do\<close> visits them, the
  cell the pointer stands at first; the nil ring, which \<open>New\<close> returns for a capacity below
  one, is the empty list, and storing a value through it is a panic.
\<close>

type_synonym 'a ring = "'a option list"

definition ring_New :: "int \<Rightarrow> 'a ring" where
  "ring_New n = replicate (nat n) None"

text \<open>\<open>r.Value = v; r = r.Next()\<close>: the written cell becomes the last one visited.\<close>

fun ring_put :: "'a \<Rightarrow> 'a ring \<Rightarrow> 'a ring option" where
  "ring_put v [] = None"
| "ring_put v (_ # cells) = Some (cells @ [Some v])"

text \<open>The values a \<open>Do\<close> over the non-nil cells collects, and their number.\<close>

fun ring_values :: "'a ring \<Rightarrow> 'a list" where
  "ring_values [] = []"
| "ring_values (None # cells) = ring_values cells"
| "ring_values (Some v # cells) = v # ring_values cells"

definition ring_count :: "'a ring \<Rightarrow> int" where
  "ring_count r = int (length (filter (\<lambda>c. c \<noteq> None) r))"

lemma ring_values_append [simp]: "ring_values (r @ r') = ring_values r @ ring_values r'"
  by (induction r rule: ring_values.induct) simp_all

lemma ring_count_values: "ring_count r = int (length (ring_values r))"
  by (induction r rule: ring_values.induct) (simp_all add: ring_count_def)

lemma length_ring_values: "length (ring_values r) \<le> length r"
  by (induction r rule: ring_values.induct) simp_all

text \<open>Unused cells come first, so the values form a suffix of the ring.\<close>

definition ring_packed :: "'a ring \<Rightarrow> bool" where
  "ring_packed r \<longleftrightarrow> (\<exists>k vs. r = replicate k None @ map Some vs)"

lemma ring_values_None [simp]: "ring_values (replicate k None) = []"
  by (induction k) simp_all

lemma ring_values_Some [simp]: "ring_values (map Some vs) = vs"
  by (induction vs) simp_all

lemma ring_packed_New: "ring_packed (ring_New n)"
  unfolding ring_packed_def ring_New_def by (rule exI [of _ "nat n"], rule exI [of _ "[]"]) simp

lemma ring_put_packed:
  assumes "ring_packed r" "r \<noteq> []"
  obtains r' where "ring_put v r = Some r'" "ring_packed r'" "length r' = length r"
    "ring_values r' = drop (Suc (length (ring_values r)) - length r) (ring_values r @ [v])"
proof -
  from assms(1) obtain k vs where r: "r = replicate k None @ map Some vs"
    by (auto simp: ring_packed_def)
  show thesis
  proof (cases k)
    case (Suc m)
    have "ring_put v r = Some (replicate m None @ map Some (vs @ [v]))"
      using r Suc by simp
    then show thesis
      by (rule that) (use r Suc in \<open>auto simp: ring_packed_def simp del: map_append\<close>)
  next
    case 0
    with r assms(2) obtain w ws where vs: "vs = w # ws" by (cases vs) auto
    then have put: "ring_put v r = Some (replicate 0 None @ map Some (ws @ [v]))"
      using r 0 by simp
    show thesis
      using put
    proof (rule that)
      show "ring_packed (replicate 0 None @ map Some (ws @ [v]))"
        unfolding ring_packed_def by blast
      show "ring_values (replicate 0 None @ map Some (ws @ [v])) =
          drop (Suc (length (ring_values r)) - length r) (ring_values r @ [v])"
        using r 0 vs by (simp add: ring_values_Some [of "ws @ [v]"] del: map_append)
    qed (use r 0 vs in simp)
  qed
qed

section \<open>The contract of a bounded log\<close>

primrec put_all :: "('a \<Rightarrow> 's \<Rightarrow> 's option) \<Rightarrow> 'a list \<Rightarrow> 's \<Rightarrow> 's option" where
  "put_all put [] s = Some s"
| "put_all put (v # vs) s = Option.bind (put v s) (put_all put vs)"

lemma put_all_append: "put_all put (us @ vs) s = Option.bind (put_all put us s) (put_all put vs)"
  by (induction us arbitrary: s) (auto split: bind_splits)

text \<open>
  What a client of a bounded log may rely on: an insertion succeeds, and the contents are
  then the newest \<open>cap\<close> of what was inserted, oldest first.
\<close>

locale bounded_log =
  fixes cap :: nat
    and fresh :: 's
    and put :: "'a \<Rightarrow> 's \<Rightarrow> 's option"
    and contents :: "'s \<Rightarrow> 'a list"
    and inv :: "'s \<Rightarrow> bool"
  assumes fresh_inv: "inv fresh"
    and fresh_contents: "contents fresh = []"
    and put_law: "inv s \<Longrightarrow> \<exists>s'. put v s = Some s' \<and> inv s' \<and>
      contents s' = drop (Suc (length (contents s)) - cap) (contents s @ [v])"
begin

lemma put_all_contents:
  "\<exists>s. put_all put vs fresh = Some s \<and> inv s \<and> contents s = drop (length vs - cap) vs"
proof (induction vs rule: rev_induct)
  case Nil
  then show ?case by (simp add: fresh_inv fresh_contents)
next
  case (snoc v vs)
  then obtain s where s: "put_all put vs fresh = Some s" "inv s" "contents s = drop (length vs - cap) vs"
    by blast
  from put_law [OF s(2), of v] obtain s' where s': "put v s = Some s'" "inv s'"
    "contents s' = drop (Suc (length (contents s)) - cap) (contents s @ [v])"
    by blast
  have "contents s' = drop (length (vs @ [v]) - cap) (vs @ [v])"
    using s(3) s'(3) by (simp add: Suc_diff_le split: nat_diff_split)
  with s s' show ?case by (simp add: put_all_append)
qed

lemma contents_bounded:
  "put_all put vs fresh = Some s \<Longrightarrow> length (contents s) \<le> cap"
  using put_all_contents [of vs] by auto

end

end
