(* ===== verification/Queue_Event.thy ===== *)
theory Queue_Event
  imports Users Ring
begin

text \<open>
  \<open>lib/store/queue.go\<close>: the queued scrobble event, its validation and identifier, and the
  in-memory buffer the stores fall back to while their backend is down.  The buffer's mutex
  makes each method atomic; a method is a function of the buffer.
\<close>

section \<open>Events\<close>

record QueuedScrobbleEvent =
  ev_ID :: string
  ev_UserID :: string
  ev_ScrobbleBody :: ScrobbleBody
  Action :: string
  ev_Progress :: int
  ev_CreatedAt :: gotime
  RetryCount :: int
  LastAttempt :: gotime
  PlayerUUID :: string
  ev_RatingKey :: string

definition validateEvent :: "QueuedScrobbleEvent \<Rightarrow> err option" where
  "validateEvent event =
     (if ev_UserID event = [] then Some (Err ''user_id is required'')
      else if Action event \<noteq> ''start'' \<and> Action event \<noteq> ''pause'' \<and> Action event \<noteq> ''stop''
      then Some (Err (''invalid action: '' @ Action event @ '' (must be start, pause, or stop)''))
      else if ev_Progress event < 0 \<or> ev_Progress event > 100
      then Some (Err (''invalid progress: '' @ itoa (ev_Progress event) @ '' (must be 0-100)''))
      else if PlayerUUID event = [] then Some (Err ''player_uuid is required'')
      else if ev_RatingKey event = [] then Some (Err ''rating_key is required'')
      else None)"

definition event_wf :: "QueuedScrobbleEvent \<Rightarrow> bool" where
  "event_wf event \<longleftrightarrow> ev_UserID event \<noteq> [] \<and> Action event \<in> {''start'', ''pause'', ''stop''} \<and>
     0 \<le> ev_Progress event \<and> ev_Progress event \<le> 100 \<and> PlayerUUID event \<noteq> [] \<and> ev_RatingKey event \<noteq> []"

lemma validateEvent_ok: "validateEvent event = None \<longleftrightarrow> event_wf event"
  by (auto simp: validateEvent_def event_wf_def)

section \<open>Identifiers\<close>

text \<open>\<open>rand.Read\<close> delivers 16 bytes or an error.\<close>

definition slice :: "nat \<Rightarrow> nat \<Rightarrow> 'a list \<Rightarrow> 'a list" where
  "slice i j xs = take (j - i) (drop i xs)"

lemma slice_append [simp]:
  "i \<le> j \<Longrightarrow> j \<le> k \<Longrightarrow> slice i j u @ slice j k u = slice i k u"
  by (simp add: slice_def) (metis Nat.add_diff_assoc2 drop_drop le_add_diff_inverse le_add_diff_inverse2 take_add)

lemma slice_append3 [simp]:
  "i \<le> j \<Longrightarrow> j \<le> k \<Longrightarrow> slice i j u @ slice j k u @ v = slice i k u @ v"
  by (metis append_assoc slice_append)

lemma slice_all: "slice 0 (length u) u = u"
  by (simp add: slice_def)

definition generateEventID :: "err + bytes \<Rightarrow> string result" where
  "generateEventID rand = (case rand of
     Inl e \<Rightarrow> Inl (Wrap ''failed to generate UUID'' e)
   | Inr b \<Rightarrow> (let u = v4_bits b in
       Inr (hex_encode (slice 0 4 u) @ ''-'' @ hex_encode (slice 4 6 u) @ ''-'' @
            hex_encode (slice 6 8 u) @ ''-'' @ hex_encode (slice 8 10 u) @ ''-'' @
            hex_encode (slice 10 16 u))))"

lemma generateEventID_length:
  "length b = 16 \<Longrightarrow> generateEventID (Inr b) = Inr s \<Longrightarrow> length s = 36"
  by (auto simp: generateEventID_def slice_def Let_def)

text \<open>
  Two identifiers agree only when the random bytes agree outside the six version and variant
  bits.
\<close>

lemma generateEventID_inject:
  assumes "length a = 16" "length b = 16" "generateEventID (Inr a) = generateEventID (Inr b)"
  shows "v4_bits a = v4_bits b"
proof -
  let ?s = "\<lambda>i j x. slice i j (v4_bits x)"
  have "hex_encode (?s 0 4 a) = hex_encode (?s 0 4 b) \<and> hex_encode (?s 4 6 a) = hex_encode (?s 4 6 b) \<and>
      hex_encode (?s 6 8 a) = hex_encode (?s 6 8 b) \<and> hex_encode (?s 8 10 a) = hex_encode (?s 8 10 b) \<and>
      hex_encode (?s 10 16 a) = hex_encode (?s 10 16 b)"
    using assms by (auto simp: generateEventID_def Let_def slice_def append_eq_append_conv)
  then have eqs: "?s 0 4 a = ?s 0 4 b \<and> ?s 4 6 a = ?s 4 6 b \<and> ?s 6 8 a = ?s 6 8 b \<and>
      ?s 8 10 a = ?s 8 10 b \<and> ?s 10 16 a = ?s 10 16 b"
    by (simp add: hex_encode_inject)
  have split: "u = slice 0 4 u @ slice 4 6 u @ slice 6 8 u @ slice 8 10 u @ slice 10 16 u"
    if "length u = 16" for u :: bytes
    using that slice_all [of u] by simp
  have "v4_bits a = slice 0 4 (v4_bits a) @ slice 4 6 (v4_bits a) @ slice 6 8 (v4_bits a) @
      slice 8 10 (v4_bits a) @ slice 10 16 (v4_bits a)"
    by (rule split) (simp add: assms)
  also have "\<dots> = v4_bits b"
    using eqs split [of "v4_bits b"] assms by simp
  finally show ?thesis .
qed

section \<open>The fallback buffer\<close>

record InMemoryBuffer =
  buf_ring :: "QueuedScrobbleEvent ring"
  buf_capacity :: int

definition NewInMemoryBuffer :: "int \<Rightarrow> InMemoryBuffer" where
  "NewInMemoryBuffer capacity = \<lparr>buf_ring = ring_New capacity, buf_capacity = capacity\<rparr>"

definition InMemoryBuffer_Push :: "QueuedScrobbleEvent \<Rightarrow> InMemoryBuffer \<Rightarrow> InMemoryBuffer option" where
  "InMemoryBuffer_Push event b = map_option (\<lambda>r. b\<lparr>buf_ring := r\<rparr>) (ring_put event (buf_ring b))"

definition InMemoryBuffer_GetAll :: "InMemoryBuffer \<Rightarrow> QueuedScrobbleEvent list" where
  "InMemoryBuffer_GetAll b = ring_values (buf_ring b)"

text \<open>\<open>Clear\<close> assigns nil to the callback's own parameter for every cell; no cell changes.\<close>

definition InMemoryBuffer_Clear :: "InMemoryBuffer \<Rightarrow> InMemoryBuffer" where
  "InMemoryBuffer_Clear b = b\<lparr>buf_ring := map (\<lambda>cell. let v = cell; v' = (if v \<noteq> None then None else v) in cell) (buf_ring b)\<rparr>"

definition InMemoryBuffer_Size :: "InMemoryBuffer \<Rightarrow> int" where
  "InMemoryBuffer_Size b = ring_count (buf_ring b)"

definition buffer_inv :: "int \<Rightarrow> InMemoryBuffer \<Rightarrow> bool" where
  "buffer_inv cap b \<longleftrightarrow> ring_packed (buf_ring b) \<and> length (buf_ring b) = nat cap \<and> buf_capacity b = cap"

lemma buffer_put_law:
  assumes "0 < cap" "buffer_inv cap b"
  shows "\<exists>b'. InMemoryBuffer_Push e b = Some b' \<and> buffer_inv cap b' \<and>
    InMemoryBuffer_GetAll b' =
      drop (Suc (length (InMemoryBuffer_GetAll b)) - nat cap) (InMemoryBuffer_GetAll b @ [e])"
proof -
  from assms have "buf_ring b \<noteq> []" by (auto simp: buffer_inv_def)
  from ring_put_packed [OF _ this, of e] assms(2) obtain r where "ring_put e (buf_ring b) = Some r" "ring_packed r"
    "length r = length (buf_ring b)"
    "ring_values r = drop (Suc (length (ring_values (buf_ring b))) - length (buf_ring b)) (ring_values (buf_ring b) @ [e])"
    unfolding buffer_inv_def by blast
  with assms(2) show ?thesis
    by (simp add: InMemoryBuffer_Push_def InMemoryBuffer_GetAll_def buffer_inv_def)
qed

lemma buffer_bounded_log:
  "0 < cap \<Longrightarrow> bounded_log (nat cap) (NewInMemoryBuffer cap) InMemoryBuffer_Push InMemoryBuffer_GetAll (buffer_inv cap)"
  by unfold_locales
    (simp_all only: buffer_put_law, simp_all add: buffer_inv_def NewInMemoryBuffer_def ring_packed_New
      InMemoryBuffer_GetAll_def, simp_all add: ring_New_def)

text \<open>The stores create every fallback buffer with capacity 100.\<close>

interpretation fallback_log: bounded_log "nat 100" "NewInMemoryBuffer 100" InMemoryBuffer_Push
    InMemoryBuffer_GetAll "buffer_inv 100"
  by (rule buffer_bounded_log) simp

text \<open>
  A fallback buffer holds the newest hundred of the events pushed into it, oldest first,
  whatever is pushed: pushing never panics, older events are evicted, \<open>Size\<close> is the number
  held, and \<open>Clear\<close> leaves every one of them in place.
\<close>

theorem fallback_buffer_spec:
  "\<exists>b. put_all InMemoryBuffer_Push events (NewInMemoryBuffer 100) = Some b \<and>
     InMemoryBuffer_GetAll b = drop (length events - 100) events \<and>
     InMemoryBuffer_Size b = int (min (length events) 100) \<and>
     InMemoryBuffer_GetAll (InMemoryBuffer_Clear b) = InMemoryBuffer_GetAll b"
  using fallback_log.put_all_contents [of events]
  by (auto simp: InMemoryBuffer_Size_def ring_count_values InMemoryBuffer_GetAll_def InMemoryBuffer_Clear_def)

end
