(* ===== verification/Family.thy ===== *)
theory Family
  imports Users
begin

text \<open>
  The family account records of \<open>lib/store\<close> with their normalisation and validation:
  \<open>family_group.go\<close>, \<open>group_member.go\<close>, \<open>notification.go\<close>.  \<open>Validate\<close> normalises its
  receiver in place before it checks it, so the model returns the normalised record next to
  the error, if any.  A nil receiver is the argument \<^const>\<open>None\<close>.
\<close>

section \<open>Family groups (lib/store/family_group.go)\<close>

record FamilyGroup =
  fg_ID :: string
  PlexUsername :: string
  fg_CreatedAt :: gotime
  fg_UpdatedAt :: gotime

definition FamilyGroup_Normalize :: "FamilyGroup \<Rightarrow> FamilyGroup" where
  "FamilyGroup_Normalize fg = fg\<lparr>PlexUsername := ToLower (TrimSpace (PlexUsername fg))\<rparr>"

definition FamilyGroup_Validate :: "FamilyGroup option \<Rightarrow> err option \<times> FamilyGroup option" where
  "FamilyGroup_Validate p = (case p of
     None \<Rightarrow> (Some ErrInvalidFamilyGroup, None)
   | Some fg0 \<Rightarrow> (let fg = FamilyGroup_Normalize fg0 in
       if PlexUsername fg = [] then (Some ErrEmptyPlexUsername, Some fg) else (None, Some fg)))"

section \<open>Group members (lib/store/group_member.go)\<close>

definition GroupMemberStatusPending :: string where
  "GroupMemberStatusPending = ''pending''"

definition GroupMemberStatusAuthorized :: string where
  "GroupMemberStatusAuthorized = ''authorized''"

definition GroupMemberStatusExpired :: string where
  "GroupMemberStatusExpired = ''expired''"

definition GroupMemberStatusFailed :: string where
  "GroupMemberStatusFailed = ''failed''"

lemmas member_status_defs = GroupMemberStatusPending_def GroupMemberStatusAuthorized_def
  GroupMemberStatusExpired_def GroupMemberStatusFailed_def

record GroupMember =
  gm_ID :: string
  gm_FamilyGroupID :: string
  TempLabel :: string
  TraktUsername :: string
  gm_AccessToken :: string
  gm_RefreshToken :: string
  gm_TokenExpiry :: "gotime option"
  AuthorizationStatus :: string
  gm_CreatedAt :: gotime

definition GroupMember_Normalize :: "GroupMember \<Rightarrow> GroupMember" where
  "GroupMember_Normalize gm = gm\<lparr>
     gm_FamilyGroupID := TrimSpace (gm_FamilyGroupID gm),
     TempLabel := TrimSpace (TempLabel gm),
     TraktUsername := TrimSpace (TraktUsername gm),
     AuthorizationStatus := TrimSpace (ToLower (AuthorizationStatus gm))\<rparr>"

definition isValidGroupMemberStatus :: "string \<Rightarrow> bool" where
  "isValidGroupMemberStatus status \<longleftrightarrow>
     status = GroupMemberStatusPending \<or> status = GroupMemberStatusAuthorized \<or>
     status = GroupMemberStatusExpired \<or> status = GroupMemberStatusFailed"

definition GroupMember_Validate :: "GroupMember option \<Rightarrow> err option \<times> GroupMember option" where
  "GroupMember_Validate p = (case p of
     None \<Rightarrow> (Some (ErrInvalidGroupMember []), None)
   | Some gm0 \<Rightarrow> (let gm = GroupMember_Normalize gm0 in
       (if gm_FamilyGroupID gm = [] then Some (ErrInvalidGroupMember ''family group id is required'')
        else if TempLabel gm = [] then Some ErrEmptyMemberLabel
        else if length (TempLabel gm) > 100 then Some (ErrInvalidGroupMember ''temp label exceeds 100 characters'')
        else if \<not> isValidGroupMemberStatus (AuthorizationStatus gm) then Some ErrInvalidMemberStatus
        else if AuthorizationStatus gm = GroupMemberStatusAuthorized \<and> TraktUsername gm = []
        then Some (ErrInvalidGroupMember ''authorized members require trakt username'')
        else None, Some gm)))"

section \<open>Notifications (lib/store/notification.go)\<close>

record Notification =
  nt_ID :: string
  nt_FamilyGroupID :: string
  nt_GroupMemberID :: "string option"
  nt_Type :: string
  nt_Message :: string
  nt_Metadata :: string
  Dismissed :: bool
  nt_CreatedAt :: gotime

definition NotificationTypes :: "string list" where
  "NotificationTypes = [''permanent_failure'', ''authorization_expired'', ''member_added'', ''member_removed'']"

definition Notification_Validate :: "Notification \<Rightarrow> err option" where
  "Notification_Validate n =
     (if nt_ID n = [] then Some ErrInvalidNotification
      else if nt_FamilyGroupID n = [] then Some ErrInvalidNotification
      else if nt_Message n = [] then Some ErrInvalidNotification
      else if nt_Type n \<in> set NotificationTypes then None
      else Some ErrInvalidNotification)"

section \<open>Normal forms\<close>

lemma FamilyGroup_Normalize_idem [simp]:
  "FamilyGroup_Normalize (FamilyGroup_Normalize fg) = FamilyGroup_Normalize fg"
  by (simp add: FamilyGroup_Normalize_def TrimSpace_ToLower)

lemma GroupMember_Normalize_idem [simp]:
  "GroupMember_Normalize (GroupMember_Normalize gm) = GroupMember_Normalize gm"
  by (simp add: GroupMember_Normalize_def TrimSpace_ToLower)

lemma GroupMember_Normalize_frame [simp]:
  "gm_ID (GroupMember_Normalize gm) = gm_ID gm"
  "gm_AccessToken (GroupMember_Normalize gm) = gm_AccessToken gm"
  "gm_RefreshToken (GroupMember_Normalize gm) = gm_RefreshToken gm"
  "gm_TokenExpiry (GroupMember_Normalize gm) = gm_TokenExpiry gm"
  "gm_CreatedAt (GroupMember_Normalize gm) = gm_CreatedAt gm"
  by (simp_all add: GroupMember_Normalize_def)

text \<open>What an accepted member satisfies.\<close>

definition member_wf :: "GroupMember \<Rightarrow> bool" where
  "member_wf gm \<longleftrightarrow> GroupMember_Normalize gm = gm \<and> gm_FamilyGroupID gm \<noteq> [] \<and> TempLabel gm \<noteq> [] \<and>
     length (TempLabel gm) \<le> 100 \<and> isValidGroupMemberStatus (AuthorizationStatus gm) \<and>
     (AuthorizationStatus gm = GroupMemberStatusAuthorized \<longrightarrow> TraktUsername gm \<noteq> [])"

lemma GroupMember_Validate_ok:
  "fst (GroupMember_Validate (Some gm)) = None \<longleftrightarrow> member_wf (GroupMember_Normalize gm)"
  by (auto simp: GroupMember_Validate_def member_wf_def Let_def)

lemma GroupMember_Validate_snd [simp]:
  "snd (GroupMember_Validate (Some gm)) = Some (GroupMember_Normalize gm)"
  by (simp add: GroupMember_Validate_def Let_def)

text \<open>
  Validation of a group member accepts exactly the records whose normal form is well
  formed, hands back the normal form, and validating the accepted record again accepts it
  unchanged.
\<close>

theorem GroupMember_Validate_spec:
  "(fst (GroupMember_Validate (Some gm)) = None \<longleftrightarrow> member_wf (GroupMember_Normalize gm)) \<and>
   snd (GroupMember_Validate (Some gm)) = Some (GroupMember_Normalize gm) \<and>
   GroupMember_Validate (snd (GroupMember_Validate (Some gm))) = GroupMember_Validate (Some gm)"
  by (simp add: GroupMember_Validate_ok) (simp add: GroupMember_Validate_def)

end
