(* ===== verification/Event_Log.thy ===== *)
theory Event_Log
  imports Ring "HOL-Library.Multiset"
begin

text \<open>
  \<open>lib/store/queue_event_log.go\<close>: the circular log of queue operations shown to the
  administrator.  \<open>GetRecent\<close> collects the ring and sorts it in place with two nested index
  loops; the loops are modelled as they stand and shown to sort.
\<close>

record QueueLogEvent =
  Timestamp :: gotime
  Operation :: string
  ql_UserID :: string
  ql_Username :: string
  EventID :: string
  ql_QueueSize :: int
  ql_RetryCount :: int
  ql_Error :: string
  Details :: string

record QueueEventLog =
  log_events :: "QueueLogEvent ring"
  log_capacity :: int

definition NewQueueEventLog :: "int \<Rightarrow> QueueEventLog" where
  "NewQueueEventLog capacity = \<lparr>log_events = ring_New capacity, log_capacity = capacity\<rparr>"

definition QueueEventLog_Append :: "QueueLogEvent \<Rightarrow> QueueEventLog \<Rightarrow> QueueEventLog option" where
  "QueueEventLog_Append event l = map_option (\<lambda>r. l\<lparr>log_events := r\<rparr>) (ring_put event (log_events l))"

text \<open>The inner loop, \<open>j\<close> from \<open>i + 1\<close>, and the outer loop.\<close>

function sort_inner :: "nat \<Rightarrow> nat \<Rightarrow> QueueLogEvent list \<Rightarrow> QueueLogEvent list" where
  "sort_inner i j es =
     (if j < length es
      then sort_inner i (Suc j)
             (if Timestamp (es ! i) < Timestamp (es ! j) then es[i := es ! j, j := es ! i] else es)
      else es)"
  by pat_completeness auto
termination
  by (relation "measure (\<lambda>(i, j, es). length es - j)") auto

declare sort_inner.simps [simp del]

lemma length_sort_inner [simp]: "length (sort_inner i j es) = length es"
proof (induction i j es rule: sort_inner.induct)
  case (1 i j es)
  then show ?case by (subst sort_inner.simps) auto
qed

function sort_outer :: "nat \<Rightarrow> QueueLogEvent list \<Rightarrow> QueueLogEvent list" where
  "sort_outer i es = (if i + 1 < length es then sort_outer (Suc i) (sort_inner i (i + 1) es) else es)"
  by pat_completeness auto
termination
  by (relation "measure (\<lambda>(i, es). length es - i)") auto

declare sort_outer.simps [simp del]

text \<open>A negative \<open>n\<close> makes the allocation of the slice panic.\<close>

definition QueueEventLog_GetRecent :: "int \<Rightarrow> QueueEventLog \<Rightarrow> QueueLogEvent list option" where
  "QueueEventLog_GetRecent n l =
     (let n = (if n > log_capacity l then log_capacity l else n) in
      if n < 0 then None
      else (let events = sort_outer 0 (ring_values (log_events l)) in
        Some (if int (length events) > n then take (nat n) events else events)))"

definition QueueEventLog_Clear :: "QueueEventLog \<Rightarrow> QueueEventLog" where
  "QueueEventLog_Clear l = l\<lparr>log_events := map (\<lambda>cell. let v = cell; v' = (if v \<noteq> None then None else v) in cell) (log_events l)\<rparr>"

definition QueueEventLog_Size :: "QueueEventLog \<Rightarrow> int" where
  "QueueEventLog_Size l = ring_count (log_events l)"

section \<open>The loops sort\<close>

lemma sort_inner_mset: "i < j \<Longrightarrow> i < length es \<Longrightarrow> mset (sort_inner i j es) = mset es"
proof (induction i j es rule: sort_inner.induct)
  case (1 i j es)
  then show ?case by (subst sort_inner.simps) (auto simp: mset_swap)
qed

text \<open>Positions before \<open>i\<close> are untouched, and whatever holds of all later elements still does.\<close>

lemma sort_inner_frame: "i < j \<Longrightarrow> k < i \<Longrightarrow> sort_inner i j es ! k = es ! k"
proof (induction i j es rule: sort_inner.induct)
  case (1 i j es)
  then show ?case by (subst sort_inner.simps) auto
qed

lemma sort_inner_all:
  "i < j \<Longrightarrow> \<forall>b. i \<le> b \<and> b < length es \<longrightarrow> Q (es ! b) \<Longrightarrow>
     \<forall>b. i \<le> b \<and> b < length es \<longrightarrow> Q (sort_inner i j es ! b)"
proof (induction i j es rule: sort_inner.induct)
  case (1 i j es)
  show ?case
  proof (cases "j < length es")
    case True
    let ?es = "if Timestamp (es ! i) < Timestamp (es ! j) then es[i := es ! j, j := es ! i] else es"
    have "\<forall>b. i \<le> b \<and> b < length ?es \<longrightarrow> Q (?es ! b)"
      using "1.prems" True by (auto simp: nth_list_update)
    from "1.IH" [OF True _ this] "1.prems" True show ?thesis
      by (subst sort_inner.simps) simp
  next
    case False
    with "1.prems" show ?thesis by (subst sort_inner.simps) simp
  qed
qed

lemma sort_inner_max:
  "i < j \<Longrightarrow> i < length es \<Longrightarrow> \<forall>b. i \<le> b \<and> b < j \<and> b < length es \<longrightarrow> Timestamp (es ! b) \<le> Timestamp (es ! i) \<Longrightarrow>
     \<forall>b. i \<le> b \<and> b < length es \<longrightarrow> Timestamp (sort_inner i j es ! b) \<le> Timestamp (sort_inner i j es ! i)"
proof (induction i j es rule: sort_inner.induct)
  case (1 i j es)
  show ?case
  proof (cases "j < length es")
    case True
    let ?es = "if Timestamp (es ! i) < Timestamp (es ! j) then es[i := es ! j, j := es ! i] else es"
    have "\<forall>b. i \<le> b \<and> b < Suc j \<and> b < length ?es \<longrightarrow> Timestamp (?es ! b) \<le> Timestamp (?es ! i)"
      using "1.prems" True by (fastforce simp: nth_list_update less_Suc_eq)
    from "1.IH" [OF True _ _ this] "1.prems" True show ?thesis
      by (subst (1 2) sort_inner.simps) simp
  next
    case False
    with "1.prems" show ?thesis by (subst (1 2) sort_inner.simps) simp
  qed
qed

definition settled :: "nat \<Rightarrow> QueueLogEvent list \<Rightarrow> bool" where
  "settled i es \<longleftrightarrow> (\<forall>a b. a < i \<and> a < b \<and> b < length es \<longrightarrow> Timestamp (es ! b) \<le> Timestamp (es ! a))"

lemma settled_step: "settled i es \<Longrightarrow> i < length es \<Longrightarrow> settled (Suc i) (sort_inner i (i + 1) es)"
  unfolding settled_def
proof (intro allI impI)
  fix a b
  assume s: "\<forall>a b. a < i \<and> a < b \<and> b < length es \<longrightarrow> Timestamp (es ! b) \<le> Timestamp (es ! a)"
    and i: "i < length es" and ab: "a < Suc i \<and> a < b \<and> b < length (sort_inner i (i + 1) es)"
  let ?es = "sort_inner i (i + 1) es"
  show "Timestamp (?es ! b) \<le> Timestamp (?es ! a)"
  proof (cases "a = i")
    case True
    have "\<forall>b. i \<le> b \<and> b < i + 1 \<and> b < length es \<longrightarrow> Timestamp (es ! b) \<le> Timestamp (es ! i)"
      by (auto simp: le_less_Suc_eq)
    from sort_inner_max [OF _ i this] True ab show ?thesis by simp
  next
    case False
    with ab have "a < i" by simp
    with s have "\<forall>b. i \<le> b \<and> b < length es \<longrightarrow> Timestamp (es ! b) \<le> Timestamp (es ! a)"
      by simp
    from sort_inner_all [OF _ this, of "i + 1"]
    have "b \<ge> i \<longrightarrow> Timestamp (?es ! b) \<le> Timestamp (es ! a)" using ab by simp
    moreover have "?es ! a = es ! a" and "b < i \<longrightarrow> ?es ! b = es ! b"
      using \<open>a < i\<close> by (simp_all add: sort_inner_frame)
    moreover have "b < i \<longrightarrow> Timestamp (es ! b) \<le> Timestamp (es ! a)"
      using s \<open>a < i\<close> ab i by simp
    ultimately show ?thesis by (cases "i \<le> b") simp_all
  qed
qed

lemma sort_outer_correct:
  "settled i es \<Longrightarrow> mset (sort_outer i es) = mset es \<and> settled (length es) (sort_outer i es)"
proof (induction i es rule: sort_outer.induct)
  case (1 i es)
  show ?case
  proof (cases "i + 1 < length es")
    case True
    with "1.IH" [OF True settled_step [OF "1.prems"]] show ?thesis
      by (subst (1 2) sort_outer.simps) (simp add: sort_inner_mset)
  next
    case False
    with "1.prems" show ?thesis
      by (subst (1 2) sort_outer.simps) (auto simp: settled_def)
  qed
qed

lemma sort_outer_mset [simp]: "mset (sort_outer 0 es) = mset es"
  and sort_outer_sorted: "sorted_wrt (\<lambda>a b. Timestamp b \<le> Timestamp a) (sort_outer 0 es)"
proof -
  have *: "mset (sort_outer 0 es) = mset es \<and> settled (length es) (sort_outer 0 es)"
    by (rule sort_outer_correct) (simp add: settled_def)
  then show "mset (sort_outer 0 es) = mset es" by simp
  then have "length (sort_outer 0 es) = length es" by (metis size_mset)
  with * show "sorted_wrt (\<lambda>a b. Timestamp b \<le> Timestamp a) (sort_outer 0 es)"
    by (simp add: sorted_wrt_iff_nth_less settled_def)
qed

section \<open>The log as a bounded log\<close>

definition log_inv :: "int \<Rightarrow> QueueEventLog \<Rightarrow> bool" where
  "log_inv cap l \<longleftrightarrow> ring_packed (log_events l) \<and> length (log_events l) = nat cap \<and> log_capacity l = cap"

abbreviation log_contents :: "QueueEventLog \<Rightarrow> QueueLogEvent list" where
  "log_contents l \<equiv> ring_values (log_events l)"

lemma log_put_law:
  assumes "0 < cap" "log_inv cap l"
  shows "\<exists>l'. QueueEventLog_Append e l = Some l' \<and> log_inv cap l' \<and>
    log_contents l' = drop (Suc (length (log_contents l)) - nat cap) (log_contents l @ [e])"
proof -
  from assms have "log_events l \<noteq> []" by (auto simp: log_inv_def)
  from ring_put_packed [OF _ this, of e] assms(2) obtain r where "ring_put e (log_events l) = Some r"
    "ring_packed r" "length r = length (log_events l)"
    "ring_values r = drop (Suc (length (log_contents l)) - length (log_events l)) (log_contents l @ [e])"
    unfolding log_inv_def by blast
  with assms(2) show ?thesis by (simp add: QueueEventLog_Append_def log_inv_def)
qed

text \<open>The server creates the log with capacity 100.\<close>

interpretation event_log: bounded_log "nat 100" "NewQueueEventLog 100" QueueEventLog_Append
    "\<lambda>l. ring_values (log_events l)" "log_inv 100"
proof (unfold_locales, goal_cases)
  case 1
  show ?case by (simp add: log_inv_def NewQueueEventLog_def ring_packed_New) (simp add: ring_New_def)
next
  case 2
  show ?case by (simp add: NewQueueEventLog_def ring_New_def)
next
  case (3 s v)
  then show ?case by (rule log_put_law [rotated]) simp
qed

text \<open>
  C35. Asking the event log for its \<open>n\<close> most recent entries returns the first \<open>n\<close> of a
  rearrangement of the newest hundred appended entries that is in descending order of time;
  with \<open>n\<close> at least 100 it returns all of them.  When no two of these entries have the same
  time, the hand-written selection sort does the same as the stable library sort.
\<close>

theorem GetRecent_spec:
  assumes "0 \<le> n" and "put_all QueueEventLog_Append events (NewQueueEventLog 100) = Some l" and "newest = drop (length events - 100) events"
  shows "\<exists>sorted. mset sorted = mset newest \<and> sorted_wrt (\<lambda>a b. Timestamp b \<le> Timestamp a) sorted \<and>
    QueueEventLog_GetRecent n l = Some (take (nat n) sorted) \<and>
    (distinct (map Timestamp newest) \<longrightarrow> sorted = sort_key (\<lambda>e. - Timestamp e) newest)"
proof -
  have inv: "log_inv 100 l" and c: "log_contents l = newest"
    using event_log.put_all_contents [of events] assms(2,3) by auto
  have cap: "log_capacity l = 100" using inv by (simp add: log_inv_def)
  let ?s = "sort_outer 0 newest"
  have len: "length ?s \<le> 100"
  proof -
    have "length ?s = length newest" by (metis size_mset sort_outer_mset)
    then show ?thesis using assms(3) by simp
  qed
  have "QueueEventLog_GetRecent n l = Some (take (nat n) ?s)"
    using assms(1) cap len by (auto simp: QueueEventLog_GetRecent_def Let_def c)
  moreover have "sort_key (\<lambda>e. - Timestamp e) newest = ?s" if "distinct (map Timestamp newest)"
  proof (rule sort_key_inj_key_eq)
    show "inj_on (\<lambda>e. - Timestamp e) (set newest)" using that by (simp add: distinct_map inj_on_def)
    show "sorted (map (\<lambda>e. - Timestamp e) ?s)" using sort_outer_sorted [of newest] by (simp add: sorted_map)
  qed simp
  ultimately show ?thesis using sort_outer_sorted [of newest] sort_outer_mset [of newest] by metis
qed

definition sample_entry :: "gotime \<Rightarrow> QueueLogEvent" where
  "sample_entry t = \<lparr>Timestamp = t, Operation = ''queue_enqueue'', ql_UserID = ''u'', ql_Username = [],
     EventID = [], ql_QueueSize = 1, ql_RetryCount = 0, ql_Error = [], Details = []\<rparr>"

theorem GetRecent_spec_witness:
  "\<exists>l. put_all QueueEventLog_Append [sample_entry 5, sample_entry 9] (NewQueueEventLog 100) = Some l \<and>
     QueueEventLog_GetRecent 1 l = Some [sample_entry 9]"
proof -
  obtain l where l: "put_all QueueEventLog_Append [sample_entry 5, sample_entry 9] (NewQueueEventLog 100) = Some l"
    using event_log.put_all_contents by blast
  from GetRecent_spec [OF _ l refl, of 1] obtain es where es: "mset es = {#sample_entry 5, sample_entry 9#}"
    "sorted_wrt (\<lambda>a b. Timestamp b \<le> Timestamp a) es" "QueueEventLog_GetRecent 1 l = Some (take 1 es)"
    by auto
  have "length es = 2" using es(1) by (metis size_mset size_add_mset size_empty Suc_1 One_nat_def)
  then obtain a b where ab: "es = [a, b]" by (auto simp: numeral_2_eq_2 length_Suc_conv)
  with es(1) have "a = sample_entry 5 \<and> b = sample_entry 9 \<or> a = sample_entry 9 \<and> b = sample_entry 5"
    by (auto simp: add_eq_conv_diff split: if_splits)
  with es(2,3) ab l show ?thesis by (auto simp: sample_entry_def)
qed

end
