(* ===== verification/Trakt.thy ===== *)
theory Trakt
  imports Plex Queue_Event Family Event_Log
begin

text \<open>
  \<open>lib/trakt/main.go\<close> and \<open>structs.go\<close>: the Trakt client.  The world \<open>'w\<close> is whatever the
  client acts on; a record of operations gives the HTTP exchange, the store's operations, the
  event log and the clock, and the two library parsers whose verdict the code uses
  (\<open>encoding/json\<close> on raw bytes and \<open>net/url\<close>: scheme and host, or an error).  An exchange
  yields an error or a response; a response carries what reading or decoding its body gives.
  \<^const>\<open>None\<close> is a panic or an operation that does not return.
\<close>

record http_request =
  req_Method :: string
  req_URL :: string
  req_Authorization :: "string option"
  req_APIKey :: "string option"
  req_Body :: "json option"

record http_response =
  StatusCode :: int
  StatusText :: string
  body_bytes :: string
  body_read_err :: bool
  body_json :: "json option"

record 'w TraktEnv =
  ClientId :: string
  clientSecret :: string
  te_http :: "http_request \<Rightarrow> 'w \<Rightarrow> http_response result \<times> 'w"
  te_parse :: "string \<Rightarrow> json option"
  te_url :: "string \<Rightarrow> (string \<times> string) option"
  te_now :: "'w \<Rightarrow> gotime"
  te_GetScrobbleBody :: "string \<Rightarrow> string \<Rightarrow> 'w \<Rightarrow> CacheItem \<times> 'w"
  te_WriteScrobbleBody :: "CacheItem \<Rightarrow> 'w \<Rightarrow> 'w option"
  te_EnqueueScrobble :: "QueuedScrobbleEvent \<Rightarrow> 'w \<Rightarrow> (err option \<times> 'w) option"
  te_GetQueueSize :: "string \<Rightarrow> 'w \<Rightarrow> int result \<times> 'w"
  te_queueEventLog :: "(QueueLogEvent \<Rightarrow> 'w \<Rightarrow> 'w option) option"

definition TheTVDBService :: string where
  "TheTVDBService = ''tvdb''"

definition TheMovieDbService :: string where
  "TheMovieDbService = ''tmdb''"

definition IMDBService :: string where
  "IMDBService = ''imdb''"

definition ProgressThreshold :: int where
  "ProgressThreshold = 90"

definition actionStart :: string where
  "actionStart = ''start''"

definition actionPause :: string where
  "actionPause = ''pause''"

definition actionStop :: string where
  "actionStop = ''stop''"

lemmas action_defs = actionStart_def actionPause_def actionStop_def
lemmas service_defs = TheTVDBService_def TheMovieDbService_def IMDBService_def

section \<open>Numbers in strings (strconv.Atoi)\<close>

definition is_digit :: "char \<Rightarrow> bool" where
  "is_digit c \<longleftrightarrow> 48 \<le> (of_char c :: nat) \<and> (of_char c :: nat) \<le> 57"

text \<open>The value and whether it is free of error: 0 on a syntax error, the nearest bound on overflow.\<close>

definition Atoi :: "string \<Rightarrow> int \<times> bool" where
  "Atoi s =
     (let neg = (s \<noteq> [] \<and> hd s = CHR ''-'');
          ds = (if s \<noteq> [] \<and> (hd s = CHR ''-'' \<or> hd s = CHR ''+'') then tl s else s)
      in if ds = [] \<or> \<not> list_all is_digit ds then (0, False)
         else let n = (if neg then - int (undigits ds) else int (undigits ds)) in
              if n < - (2 ^ 63) then (- (2 ^ 63), False)
              else if n \<ge> 2 ^ 63 then (2 ^ 63 - 1, False)
              else (n, True))"

section \<open>Identifying the media\<close>

text \<open>The loop over the external GUIDs: the identifiers found and whether there was one.\<close>

definition guid_step :: "string \<Rightarrow> Ids \<times> bool \<Rightarrow> Ids \<times> bool" where
  "guid_step guid acc = (let (ids, isValid) = acc in
     if length guid < 8 then acc
     else let svc = take 4 guid; rest = drop 7 guid in
       if svc = TheMovieDbService
       then (case Atoi rest of (n, True) \<Rightarrow> (ids\<lparr>Tmdb := Some n\<rparr>, True) | (_, False) \<Rightarrow> acc)
       else if svc = TheTVDBService
       then (case Atoi rest of (n, True) \<Rightarrow> (ids\<lparr>Tvdb := Some n\<rparr>, True) | (_, False) \<Rightarrow> acc)
       else if svc = IMDBService then (ids\<lparr>Imdb := Some rest\<rparr>, True)
       else acc)"

definition guid_ids :: "string list \<Rightarrow> Ids \<times> bool" where
  "guid_ids guids = fold guid_step guids (zero_Ids, False)"

text \<open>\<open>([0-9]+)/([0-9]+)/([0-9]+)\<close>: the leftmost match, each group as long as possible.\<close>

definition match_groups :: "string \<Rightarrow> (string \<times> string \<times> string) option" where
  "match_groups s =
     (let a = takeWhile is_digit s; r1 = dropWhile is_digit s;
          b = takeWhile is_digit (tl r1); r2 = dropWhile is_digit (tl r1);
          c = takeWhile is_digit (tl r2)
      in if a \<noteq> [] \<and> r1 \<noteq> [] \<and> hd r1 = CHR ''/'' \<and> b \<noteq> [] \<and> r2 \<noteq> [] \<and> hd r2 = CHR ''/'' \<and> c \<noteq> []
         then Some (a, b, c) else None)"

fun episodeRegex_FindStringSubmatch :: "string \<Rightarrow> (string \<times> string \<times> string) option" where
  "episodeRegex_FindStringSubmatch [] = None"
| "episodeRegex_FindStringSubmatch (ch # s) = (case match_groups (ch # s) of
     Some g \<Rightarrow> Some g
   | None \<Rightarrow> episodeRegex_FindStringSubmatch s)"

definition findEpisode :: "'w TraktEnv \<Rightarrow> Webhook \<Rightarrow> ScrobbleBody option" where
  "findEpisode te hook =
     (let guid = GUID (wh_Metadata hook) in
      case te_url te guid of
        None \<Rightarrow> None
      | Some (scheme, host) \<Rightarrow>
          (let srv = (if HasSuffix scheme ''tvdb'' then TheTVDBService
                      else if HasSuffix scheme ''themoviedb'' then TheMovieDbService
                      else if HasSuffix scheme ''hama''
                      then (if HasPrefix host ''tvdb-'' \<or> HasPrefix host ''tvdb2-'' then TheTVDBService else [])
                      else [])
           in if srv = [] then None
              else case episodeRegex_FindStringSubmatch guid of
                None \<Rightarrow> None
              | Some (a, b, c) \<Rightarrow>
                  (let n = fst (Atoi a);
                       ids = (if srv = TheTVDBService then zero_Ids\<lparr>Tvdb := Some n\<rparr> else zero_Ids\<lparr>Tmdb := Some n\<rparr>)
                   in Some (zero_Body\<lparr>BShow := Some (zero_Show\<lparr>ShowIds := ids\<rparr>),
                        BEpisode := Some (zero_Episode\<lparr>Season := Some (fst (Atoi b)), Number := Some (fst (Atoi c))\<rparr>)\<rparr>))))"

definition findMovie :: "Webhook \<Rightarrow> ScrobbleBody option" where
  "findMovie hook =
     (if md_Title (wh_Metadata hook) = [] \<or> Year (wh_Metadata hook) = 0 then None
      else Some (zero_Body\<lparr>BMovie := Some (zero_Movie\<lparr>MovieTitle := Some (md_Title (wh_Metadata hook)),
             MovieYear := Some (Year (wh_Metadata hook))\<rparr>)\<rparr>))"

definition handleShow :: "'w TraktEnv \<Rightarrow> Webhook \<Rightarrow> ScrobbleBody option" where
  "handleShow te hook =
     (let (ids, isValid) = guid_ids (ExternalGUIDs (wh_Metadata hook)) in
      if isValid then Some (zero_Body\<lparr>BEpisode := Some (zero_Episode\<lparr>EpIds := Some ids\<rparr>)\<rparr>)
      else findEpisode te hook)"

definition handleMovie :: "'w TraktEnv \<Rightarrow> Webhook \<Rightarrow> ScrobbleBody option" where
  "handleMovie te hook =
     (let (ids, isValid) = guid_ids (ExternalGUIDs (wh_Metadata hook)) in
      if isValid then Some (zero_Body\<lparr>BMovie := Some (zero_Movie\<lparr>MovieIds := ids\<rparr>)\<rparr>)
      else findMovie hook)"

section \<open>The action\<close>

definition getAction :: "'w TraktEnv \<Rightarrow> Webhook \<Rightarrow> 'w \<Rightarrow> (string \<times> CacheItem \<times> int) \<times> 'w" where
  "getAction te hook w =
     (let (item, w') = te_GetScrobbleBody te (pl_UUID (wh_Player hook)) (md_RatingKey (wh_Metadata hook)) w;
          progress = (if Duration (wh_Metadata hook) > 0
            then math_Round (f64_mult (f64_div (f64 (ViewOffset (wh_Metadata hook))) (f64 (Duration (wh_Metadata hook)))) 100)
            else Progress (Body item))
      in ((if Event hook \<in> {''media.play'', ''media.resume'', ''playback.started''} then (actionStart, item, progress)
           else if Event hook \<in> {''media.pause'', ''media.stop''}
           then (if progress \<ge> ProgressThreshold then actionStop else actionPause, item, progress)
           else if Event hook = ''media.scrobble''
           then (actionStop, item, if progress < ProgressThreshold then ProgressThreshold else progress)
           else ([], item, progress)), w'))"

section \<open>Requests\<close>

definition scrobble_URL :: "string \<Rightarrow> string" where
  "scrobble_URL action = ''https://api.trakt.tv/scrobble/'' @ action"

definition scrobble_req :: "'w TraktEnv \<Rightarrow> string \<Rightarrow> ScrobbleBody \<Rightarrow> string \<Rightarrow> http_request" where
  "scrobble_req te action body token = \<lparr>req_Method = ''POST'', req_URL = scrobble_URL action,
     req_Authorization = Some (''Bearer '' @ token), req_APIKey = Some (ClientId te),
     req_Body = Some (ScrobbleBody_MarshalJSON body)\<rparr>"

definition unavailable :: "int \<Rightarrow> bool" where
  "unavailable code \<longleftrightarrow> code = 503 \<or> code = 502 \<or> code = 504 \<or> code = 429"

definition success :: "int \<Rightarrow> bool" where
  "success code \<longleftrightarrow> code = 200 \<or> code = 201"

definition decode_into :: "http_response \<Rightarrow> ScrobbleBody \<Rightarrow> ScrobbleBody decoded" where
  "decode_into resp body = (case body_json resp of None \<Rightarrow> DecErr | Some j \<Rightarrow> ScrobbleBody_UnmarshalJSON j body)"

definition queued_event :: "User \<Rightarrow> CacheItem \<Rightarrow> string \<Rightarrow> QueuedScrobbleEvent" where
  "queued_event user item action = \<lparr>ev_ID = [], ev_UserID = usr_ID user, ev_ScrobbleBody = Body item,
     Action = action, ev_Progress = Progress (Body item), ev_CreatedAt = 0, RetryCount = 0, LastAttempt = 0,
     PlayerUUID = PlayerUuid item, ev_RatingKey = CRatingKey item\<rparr>"

text \<open>The store completes its own copy of the event; the log entry has the caller's empty identifier.\<close>

definition enqueueScrobbleEvent :: "'w TraktEnv \<Rightarrow> User \<Rightarrow> CacheItem \<Rightarrow> string \<Rightarrow> 'w \<Rightarrow> 'w option" where
  "enqueueScrobbleEvent te user item action w =
     (let event = queued_event user item action in
      case te_EnqueueScrobble te event w of
        None \<Rightarrow> None
      | Some (Some _, w1) \<Rightarrow> Some w1
      | Some (None, w1) \<Rightarrow> (case te_queueEventLog te of
          None \<Rightarrow> Some w1
        | Some app \<Rightarrow>
            (let (size, w2) = te_GetQueueSize te (usr_ID user) w1 in
             app \<lparr>Timestamp = te_now te w2, Operation = ''queue_enqueue'', ql_UserID = usr_ID user,
               ql_Username = Username user, EventID = ev_ID event,
               ql_QueueSize = (case size of Inr n \<Rightarrow> n | Inl _ \<Rightarrow> 0), ql_RetryCount = 0, ql_Error = [], Details = []\<rparr> w2)))"

definition scrobbleRequest :: "'w TraktEnv \<Rightarrow> string \<Rightarrow> CacheItem \<Rightarrow> User \<Rightarrow> 'w \<Rightarrow> 'w option" where
  "scrobbleRequest te action item user w =
     (case te_http te (scrobble_req te action (Body item) (AccessToken user)) w of
        (Inl _, w1) \<Rightarrow> enqueueScrobbleEvent te user item action w1
      | (Inr resp, w1) \<Rightarrow>
          (if unavailable (StatusCode resp) then enqueueScrobbleEvent te user item action w1
           else if success (StatusCode resp)
           then (case decode_into resp (Body item) of
                   DecPanic \<Rightarrow> None
                 | DecErr \<Rightarrow> Some w1
                 | DecOk body \<Rightarrow> te_WriteScrobbleBody te (item\<lparr>LastAction := action, Body := body\<rparr>) w1)
           else Some w1))"

text \<open>The body of a new item by its library section.\<close>

definition media_body :: "'w TraktEnv \<Rightarrow> Webhook \<Rightarrow> ScrobbleBody option" where
  "media_body te hook =
     (if LibrarySectionType (wh_Metadata hook) = ''show'' then handleShow te hook
      else if LibrarySectionType (wh_Metadata hook) = ''movie'' then handleMovie te hook
      else None)"

definition is_duplicate :: "CacheItem \<Rightarrow> Webhook \<Rightarrow> string \<Rightarrow> int \<Rightarrow> bool" where
  "is_duplicate cache hook event progress \<longleftrightarrow> ServerUuid cache = srv_UUID (wh_Server hook) \<and>
     (LastAction cache = actionStop \<or> (LastAction cache = event \<and> progress = Progress (Body cache)))"

definition Handle :: "'w TraktEnv \<Rightarrow> Webhook option \<Rightarrow> User \<Rightarrow> 'w \<Rightarrow> 'w option" where
  "Handle te p user w = (case p of
     None \<Rightarrow> Some w
   | Some hook \<Rightarrow>
       (if pl_UUID (wh_Player hook) = [] \<or> md_RatingKey (wh_Metadata hook) = [] then Some w
        else let ((event, cache, progress), w1) = getAction te hook w in
          if event = [] then Some w1
          else if is_duplicate cache hook event progress then Some w1
          else (case (if ServerUuid cache = srv_UUID (wh_Server hook) then Some (Body cache) else media_body te hook) of
              None \<Rightarrow> Some w1
            | Some body \<Rightarrow>
                scrobbleRequest te event
                  (cache\<lparr>PlayerUuid := pl_UUID (wh_Player hook), ServerUuid := srv_UUID (wh_Server hook),
                     CRatingKey := md_RatingKey (wh_Metadata hook), Trigger := Event hook,
                     Body := body\<lparr>Progress := progress\<rparr>\<rparr>) user w1)))"

definition ScrobbleFromQueue :: "'w TraktEnv \<Rightarrow> string \<Rightarrow> CacheItem \<Rightarrow> string \<Rightarrow> 'w \<Rightarrow> (err option \<times> 'w) option" where
  "ScrobbleFromQueue te action item accessToken w =
     (case te_http te (scrobble_req te action (Body item) accessToken) w of
        (Inl x, w1) \<Rightarrow> Some (Some (Wrap ''scrobble http error'' x), w1)
      | (Inr resp, w1) \<Rightarrow>
          (if unavailable (StatusCode resp) then Some (Some (Err (''transient error: status '' @ itoa (StatusCode resp))), w1)
           else if success (StatusCode resp)
           then (case decode_into resp (Body item) of
                   DecPanic \<Rightarrow> None
                 | DecErr \<Rightarrow> Some (None, w1)
                 | DecOk body \<Rightarrow> map_option (Pair None) (te_WriteScrobbleBody te (item\<lparr>Body := body, LastAction := action\<rparr>) w1))
           else Some (Some (Err (''scrobble failed with status '' @ itoa (StatusCode resp))), w1)))"

definition ParseWebhookForScrobble :: "'w TraktEnv \<Rightarrow> Webhook option \<Rightarrow> 'w \<Rightarrow> (ScrobbleBody \<times> string \<times> bool) \<times> 'w" where
  "ParseWebhookForScrobble te p w = (case p of
     None \<Rightarrow> ((zero_Body, [], False), w)
   | Some hook \<Rightarrow>
       (if pl_UUID (wh_Player hook) = [] \<or> md_RatingKey (wh_Metadata hook) = [] then ((zero_Body, [], False), w)
        else let ((action, cache, progress), w1) = getAction te hook w in
          if action = [] then ((zero_Body, [], False), w1)
          else if is_duplicate cache hook action progress then ((zero_Body, [], False), w1)
          else (case (if ServerUuid cache = srv_UUID (wh_Server hook) then Some (Body cache) else media_body te hook) of
              None \<Rightarrow> ((zero_Body, [], False), w1)
            | Some body \<Rightarrow> ((body\<lparr>Progress := progress\<rparr>, action, True), w1))))"

definition HealthCheck :: "'w TraktEnv \<Rightarrow> 'w \<Rightarrow> err option \<times> 'w" where
  "HealthCheck te w =
     (case te_http te \<lparr>req_Method = ''GET'', req_URL = ''https://api.trakt.tv/'', req_Authorization = None,
             req_APIKey = Some (ClientId te), req_Body = None\<rparr> w of
        (Inl x, w1) \<Rightarrow> (Some (Wrap ''health check request failed'' x), w1)
      | (Inr resp, w1) \<Rightarrow>
          (if StatusCode resp \<ge> 200 \<and> StatusCode resp < 400 then None
           else Some (Err (''trakt API returned status '' @ itoa (StatusCode resp))), w1))"

section \<open>Broadcast to a family\<close>

record BroadcastError =
  be_Member :: GroupMember
  be_Err :: err
  HTTPStatus :: int
  be_EventID :: string
  MediaTitle :: string

definition BroadcastError_Error :: "BroadcastError \<Rightarrow> string" where
  "BroadcastError_Error b =
     (if HTTPStatus b > 0
      then ''member '' @ TraktUsername (be_Member b) @ '' (HTTP '' @ itoa (HTTPStatus b) @ ''): '' @ err_text (be_Err b)
      else ''member '' @ TraktUsername (be_Member b) @ '': '' @ err_text (be_Err b))"

definition IsRetryable :: "BroadcastError \<Rightarrow> bool" where
  "IsRetryable b \<longleftrightarrow> HTTPStatus b = 0 \<or> HTTPStatus b = 429 \<or> HTTPStatus b = 503 \<or> HTTPStatus b = 502 \<or> HTTPStatus b = 504"

text \<open>One goroutine: the request for one member and the result it sends.\<close>

definition broadcast_one :: "'w TraktEnv \<Rightarrow> string \<Rightarrow> ScrobbleBody \<Rightarrow> GroupMember \<Rightarrow> 'w \<Rightarrow> (err option \<times> int) \<times> 'w" where
  "broadcast_one te action body m w =
     (case te_http te (scrobble_req te action body (gm_AccessToken m)) w of
        (Inl x, w1) \<Rightarrow> ((Some (Wrap ''http error'' x), 0), w1)
      | (Inr resp, w1) \<Rightarrow>
          (if unavailable (StatusCode resp) then (Some (Err (''transient error: HTTP '' @ itoa (StatusCode resp))), StatusCode resp)
           else if success (StatusCode resp) then (None, StatusCode resp)
           else (Some (Err (''HTTP '' @ itoa (StatusCode resp) @ '': '' @ TrimSpace (body_bytes resp))), StatusCode resp), w1))"

text \<open>
  The goroutines run and deliver in an order the scheduler chooses: \<open>order\<close> lists the members
  in the order their requests are made.
\<close>

fun broadcast_all :: "'w TraktEnv \<Rightarrow> string \<Rightarrow> ScrobbleBody \<Rightarrow> string \<Rightarrow> string \<Rightarrow> GroupMember list \<Rightarrow> 'w \<Rightarrow> BroadcastError list \<times> 'w" where
  "broadcast_all te action body eventID mediaTitle [] w = ([], w)"
| "broadcast_all te action body eventID mediaTitle (m # ms) w =
     (let ((x, status), w1) = broadcast_one te action body m w;
          (errs, w2) = broadcast_all te action body eventID mediaTitle ms w1
      in (case x of
            None \<Rightarrow> errs
          | Some er \<Rightarrow> \<lparr>be_Member = m, be_Err = er, HTTPStatus = status, be_EventID = eventID, MediaTitle = mediaTitle\<rparr> # errs, w2))"

definition BroadcastScrobble :: "'w TraktEnv \<Rightarrow> (GroupMember list \<Rightarrow> GroupMember list) \<Rightarrow> string \<Rightarrow> ScrobbleBody \<Rightarrow>
    GroupMember list \<Rightarrow> string \<Rightarrow> string \<Rightarrow> 'w \<Rightarrow> BroadcastError list \<times> 'w" where
  "BroadcastScrobble te order action body members eventID mediaTitle w =
     (if members = [] then ([], w) else broadcast_all te action body eventID mediaTitle (order members) w)"

section \<open>Accounts\<close>

text \<open>The three names of the settings document, decoded into empty strings.\<close>

definition dec_user_settings :: "json \<Rightarrow> (string \<times> string \<times> string) option" where
  "dec_user_settings j = dec_struct
     [(''user'', dec_struct
         [(''name'', \<lambda>v (n, d, u). map_option (\<lambda>x. (x, d, u)) (set_string v n)),
          (''display'', \<lambda>v (n, d, u). map_option (\<lambda>x. (n, x, u)) (set_string v d)),
          (''username'', \<lambda>v (n, d, u). map_option (\<lambda>x. (n, d, x)) (set_string v u))])] j ([], [], [])"

definition FetchDisplayName :: "'w TraktEnv \<Rightarrow> string \<Rightarrow> 'w \<Rightarrow> (string \<times> bool) result \<times> 'w" where
  "FetchDisplayName te accessToken w =
     (if TrimSpace accessToken = [] then (Inl (Err ''missing access token for display name lookup''), w)
      else case te_http te \<lparr>req_Method = ''GET'', req_URL = ''https://api.trakt.tv/users/settings'',
               req_Authorization = Some (''Bearer '' @ accessToken), req_APIKey = Some (ClientId te), req_Body = None\<rparr> w of
        (Inl x, w1) \<Rightarrow> (Inl x, w1)
      | (Inr resp, w1) \<Rightarrow>
          (if StatusCode resp \<noteq> 200
           then let summary = TrimSpace (body_bytes resp); summary = (if summary = [] then StatusText resp else summary) in
                Inl (Err (''trakt users/settings http '' @ itoa (StatusCode resp) @ '': '' @ summary))
           else (case Option.bind (body_json resp) dec_user_settings of
                   None \<Rightarrow> Inl (Err ''decode error'')
                 | Some (name, display, username) \<Rightarrow>
                     (let displayName = TrimSpace name;
                          displayName = (if displayName = [] then TrimSpace display else displayName);
                          displayName = (if displayName = [] then TrimSpace username else displayName)
                      in Inr (NormalizeDisplayName displayName))), w1))"

text \<open>The result map as an association list; a string field of an object.\<close>

definition str_field :: "(string \<times> json) list \<Rightarrow> string \<Rightarrow> string option" where
  "str_field kvs k = (case map_of (rev kvs) k of Some (JStr s) \<Rightarrow> Some s | _ \<Rightarrow> None)"

definition auth_failure :: "string \<Rightarrow> string \<Rightarrow> (string \<times> json) list \<times> bool" where
  "auth_failure e d = ([(''error'', JStr e), (''error_description'', JStr d)], False)"

text \<open>
  The details of an error response: those of a JSON object (or null, an empty map), the raw
  bytes when they are no such document.
\<close>

definition auth_error_detail :: "'w TraktEnv \<Rightarrow> http_response \<Rightarrow> string \<times> string" where
  "auth_error_detail te resp =
     (if body_read_err resp \<or> body_bytes resp = [] then (''Unknown error'', [])
      else case te_parse te (body_bytes resp) of
        Some (JObj kvs) \<Rightarrow> (case str_field kvs ''error'' of Some e \<Rightarrow> e | None \<Rightarrow> ''Unknown error'',
                            case str_field kvs ''error_description'' of Some d \<Rightarrow> d | None \<Rightarrow> [])
      | Some JNull \<Rightarrow> (''Unknown error'', [])
      | _ \<Rightarrow> (body_bytes resp, []))"

definition AuthRequest :: "'w TraktEnv \<Rightarrow> string \<Rightarrow> string \<Rightarrow> string \<Rightarrow> string \<Rightarrow> string \<Rightarrow> 'w \<Rightarrow>
    ((string \<times> json) list \<times> bool) \<times> 'w" where
  "AuthRequest te redirectURI username code refreshToken grantType w =
     (case te_http te \<lparr>req_Method = ''POST'', req_URL = ''https://api.trakt.tv/oauth/token'', req_Authorization = None,
          req_APIKey = None, req_Body = Some (JObj [(''client_id'', JStr (ClientId te)), (''client_secret'', JStr (clientSecret te)),
            (''code'', JStr code), (''grant_type'', JStr grantType), (''redirect_uri'', JStr redirectURI),
            (''refresh_token'', JStr refreshToken)])\<rparr> w of
        (Inl x, w1) \<Rightarrow> (auth_failure ''http_error'' (err_text x), w1)
      | (Inr resp, w1) \<Rightarrow>
          (if StatusCode resp \<noteq> 200
           then let (e, d) = auth_error_detail te resp in
             ([(''http_status'', JInt (StatusCode resp)), (''http_status_text'', JStr (StatusText resp)),
               (''error'', JStr e), (''error_description'', JStr d)], False)
           else (case body_json resp of
                   Some (JObj kvs) \<Rightarrow> (kvs, True)
                 | Some JNull \<Rightarrow> ([], True)
                 | _ \<Rightarrow> auth_failure ''decode_error'' ''decode error''), w1))"

section \<open>Progress and action\<close>

lemma percent_bounds:
  assumes "0 \<le> v" "v \<le> d" "0 < d" "d \<le> 2 ^ 53"
  shows "0 \<le> math_Round (f64_mult (f64_div (f64 v) (f64 d)) 100)"
    and "math_Round (f64_mult (f64_div (f64 v) (f64 d)) 100) \<le> 100"
proof -
  have v: "f64 v = of_int v" and d: "f64 d = of_int d"
    using assms by (simp_all add: f64_def rnd_of_int)
  have one: "rnd 1 = 1" and hundred: "rnd 100 = 100"
    using rnd_of_int [of 1] rnd_of_int [of 100] by simp_all
  have q: "0 \<le> (of_int v / of_int d :: rat)" "(of_int v / of_int d :: rat) \<le> 1"
    using assms by simp_all
  from rnd_mono [OF q(1)] rnd_mono [OF q(2)] have r: "0 \<le> f64_div (f64 v) (f64 d)" "f64_div (f64 v) (f64 d) \<le> 1"
    by (simp_all add: f64_div_def v d one)
  then have "0 \<le> f64_div (f64 v) (f64 d) * 100" "f64_div (f64 v) (f64 d) * 100 \<le> 100" by simp_all
  from rnd_mono [OF this(1)] rnd_mono [OF this(2)]
  have p: "0 \<le> f64_mult (f64_div (f64 v) (f64 d)) 100" "f64_mult (f64_div (f64 v) (f64 d)) 100 \<le> 100"
    by (simp_all add: f64_mult_def hundred)
  show "0 \<le> math_Round (f64_mult (f64_div (f64 v) (f64 d)) 100)"
    using math_Round_mono [OF p(1)] math_Round_of_int [of 0] by simp
  show "math_Round (f64_mult (f64_div (f64 v) (f64 d)) 100) \<le> 100"
    using math_Round_mono [OF p(2)] math_Round_of_int [of 100] by simp
qed

text \<open>The playback position lies within the media, and \<open>float64\<close> holds both exactly.\<close>

definition position_ok :: "Webhook \<Rightarrow> bool" where
  "position_ok hook \<longleftrightarrow> 0 \<le> ViewOffset (wh_Metadata hook) \<and> ViewOffset (wh_Metadata hook) \<le> Duration (wh_Metadata hook) \<and>
     0 < Duration (wh_Metadata hook) \<and> Duration (wh_Metadata hook) \<le> 2 ^ 53"

lemma getAction_spec:
  assumes "position_ok hook" "getAction te hook w = ((action, item, progress), w')"
  shows "0 \<le> progress \<and> progress \<le> 100 \<and> action \<in> {[], actionStart, actionPause, actionStop} \<and>
    (action = actionStop \<longrightarrow> 90 \<le> progress) \<and> (action = actionPause \<longrightarrow> progress < 90)"
proof -
  let ?p = "math_Round (f64_mult (f64_div (f64 (ViewOffset (wh_Metadata hook))) (f64 (Duration (wh_Metadata hook)))) 100)"
  have "0 \<le> ?p" "?p \<le> 100" using percent_bounds assms(1) by (simp_all add: position_ok_def)
  with assms show ?thesis
    by (auto simp: getAction_def position_ok_def ProgressThreshold_def action_defs Let_def split: prod.splits if_splits)
qed

text \<open>
  C31. The action of a webhook: whenever the playback position lies within the media, the
  progress is a percentage from 0 to 100 in spite of the rounding of \<open>float64\<close>; a pause is
  reported only below 90 percent, a stop only from 90 percent on, and a scrobble event from
  Plex always becomes a stop of at least 90 percent.
\<close>

theorem getAction_progress:
  assumes "position_ok hook"
  shows "case getAction te hook w of ((action, item, progress), w') \<Rightarrow>
    0 \<le> progress \<and> progress \<le> 100 \<and> action \<in> {[], actionStart, actionPause, actionStop} \<and>
    (action = actionStop \<longrightarrow> 90 \<le> progress) \<and> (action = actionPause \<longrightarrow> progress < 90) \<and>
    (Event hook = ''media.scrobble'' \<longrightarrow> action = actionStop)"
proof -
  obtain action item progress w' where act: "getAction te hook w = ((action, item, progress), w')"
    by (metis prod.collapse)
  then have "Event hook = ''media.scrobble'' \<Longrightarrow> action = actionStop"
    by (auto simp: getAction_def Let_def split: prod.splits)
  with act getAction_spec [OF assms act] show ?thesis by auto
qed

definition demo_hook :: Webhook where
  "demo_hook = \<lparr>Event = ''media.stop'', wh_User = True, Owner = True,
     wh_Account = \<lparr>acc_ID = 1, acc_Thumb = [], acc_Title = ''bob''\<rparr>,
     wh_Metadata = \<lparr>LibrarySectionType = ''movie'', md_RatingKey = ''k'', ExternalGUIDs = [''tmdb://603''], GUID = [],
       md_Type = ''movie'', md_Title = ''Heat'', GrandparentTitle = [], Index = 0, ParentIndex = 0, ViewOffset = 50,
       Year = 1995, Duration = 100\<rparr>,
     wh_Server = \<lparr>srv_Title = ''s'', srv_UUID = ''srv''\<rparr>,
     wh_Player = \<lparr>Local = True, PublicAddress = [], pl_Title = ''tv'', pl_UUID = ''p''\<rparr>\<rparr>"

definition demo_te :: "(http_request \<Rightarrow> http_response result) \<Rightarrow> http_request list TraktEnv" where
  "demo_te answer = \<lparr>ClientId = ''id'', clientSecret = ''secret'', te_http = (\<lambda>req log. (answer req, log @ [req])),
     te_parse = (\<lambda>_. None), te_url = (\<lambda>_. Some (''com.plexapp.agents.thetvdb'', ''12'')), te_now = (\<lambda>_. 1),
     te_GetScrobbleBody = (\<lambda>_ _ w. (zero_CacheItem, w)), te_WriteScrobbleBody = (\<lambda>_ w. Some w),
     te_EnqueueScrobble = (\<lambda>_ w. Some (None, w)), te_GetQueueSize = (\<lambda>_ w. (Inr 0, w)), te_queueEventLog = None\<rparr>"

abbreviation trakt_down :: "http_request \<Rightarrow> http_response result" where
  "trakt_down \<equiv> \<lambda>_. Inl (Err ''down'')"

theorem getAction_progress_witness:
  "case getAction (demo_te trakt_down) demo_hook [] of ((action, item, progress), w') \<Rightarrow> 0 \<le> progress \<and> progress \<le> 100"
proof -
  have "position_ok demo_hook" by (simp add: position_ok_def demo_hook_def)
  from getAction_progress [OF this, of "demo_te trakt_down" "[]"] show ?thesis by (auto split: prod.splits)
qed

section \<open>Identifiers in GUIDs\<close>

lemma is_digit_digits: "list_all is_digit (digits n)"
  using digits_bytes by (auto simp: list_all_iff is_digit_def)

lemma not_digit_sign: "\<not> is_digit CHR ''-''" "\<not> is_digit CHR ''+''" "\<not> is_digit CHR ''/''"
  by (simp_all add: is_digit_def)

lemma hd_digits: "is_digit (hd (digits n))"
  using is_digit_digits [of n] by (simp add: list_all_iff)

lemma Atoi_digits: "int n < 2 ^ 63 \<Longrightarrow> Atoi (digits n) = (int n, True)"
proof -
  assume n: "int n < 2 ^ 63"
  have "hd (digits n) \<noteq> CHR ''-''" "hd (digits n) \<noteq> CHR ''+''"
    using hd_digits [of n] not_digit_sign by metis+
  with n show ?thesis by (simp add: Atoi_def is_digit_digits)
qed

lemma Atoi_itoa: "in_int64 n \<Longrightarrow> Atoi (itoa n) = (n, True)"
proof (cases "n < 0")
  case True
  assume "in_int64 n"
  with True show ?thesis by (auto simp: Atoi_def itoa_def is_digit_digits in_int64_def)
next
  case False
  assume "in_int64 n"
  with False show ?thesis using Atoi_digits [of "nat n"] by (simp add: itoa_def in_int64_def)
qed

lemma length_itoa_pos: "0 < length (itoa n)"
  by (simp add: itoa_def)

text \<open>
  A movie or an episode with one external identifier is reported to Trakt under exactly
  that identifier: a number after tmdb or tvdb survives the parsing, any other text after
  imdb is taken over as it is, and neither the title nor the GUID is consulted.
\<close>

theorem external_guid_identifies:
  assumes "in_int64 n" "imdb \<noteq> []"
  shows "(ExternalGUIDs (wh_Metadata h) = [''tmdb://'' @ itoa n] \<longrightarrow>
      handleMovie te h = Some (zero_Body\<lparr>BMovie := Some (zero_Movie\<lparr>MovieIds := zero_Ids\<lparr>Tmdb := Some n\<rparr>\<rparr>)\<rparr>) \<and>
      handleShow te h = Some (zero_Body\<lparr>BEpisode := Some (zero_Episode\<lparr>EpIds := Some (zero_Ids\<lparr>Tmdb := Some n\<rparr>)\<rparr>)\<rparr>)) \<and>
    (ExternalGUIDs (wh_Metadata h) = [''tvdb://'' @ itoa n] \<longrightarrow>
      handleShow te h = Some (zero_Body\<lparr>BEpisode := Some (zero_Episode\<lparr>EpIds := Some (zero_Ids\<lparr>Tvdb := Some n\<rparr>)\<rparr>)\<rparr>)) \<and>
    (ExternalGUIDs (wh_Metadata h) = [''imdb://'' @ imdb] \<longrightarrow>
      handleMovie te h = Some (zero_Body\<lparr>BMovie := Some (zero_Movie\<lparr>MovieIds := zero_Ids\<lparr>Imdb := Some imdb\<rparr>\<rparr>)\<rparr>))"
  using assms length_itoa_pos [of n]
  by (auto simp: handleMovie_def handleShow_def guid_ids_def guid_step_def service_defs Atoi_itoa Let_def)

theorem external_guid_identifies_witness:
  "handleMovie (demo_te trakt_down) demo_hook = Some (zero_Body\<lparr>BMovie := Some (zero_Movie\<lparr>MovieIds := zero_Ids\<lparr>Tmdb := Some 603\<rparr>\<rparr>)\<rparr>)"
proof -
  have "''tmdb://'' @ itoa 603 = ''tmdb://603''" by code_simp
  then show ?thesis
    using external_guid_identifies [of 603 "''x''" demo_hook "demo_te trakt_down"] by (simp add: demo_hook_def in_int64_def)
qed

text \<open>The expression finds the three numbers of an episode GUID behind a prefix without digits.\<close>

lemma takeWhile_digits:
  "list_all is_digit a \<Longrightarrow> r = [] \<or> \<not> is_digit (hd r) \<Longrightarrow> takeWhile is_digit (a @ r) = a \<and> dropWhile is_digit (a @ r) = r"
  by (induction a) (cases r; auto)+

lemma match_groups_at:
  assumes "list_all is_digit a" "a \<noteq> []" "list_all is_digit b" "b \<noteq> []" "list_all is_digit c" "c \<noteq> []"
    "r = [] \<or> \<not> is_digit (hd r)"
  shows "match_groups (a @ ''/'' @ b @ ''/'' @ c @ r) = Some (a, b, c)"
proof -
  have 1: "takeWhile is_digit (a @ ''/'' @ x) = a \<and> dropWhile is_digit (a @ ''/'' @ x) = ''/'' @ x" for x
    using assms(1) by (rule takeWhile_digits) (simp add: not_digit_sign)
  have 2: "takeWhile is_digit (b @ ''/'' @ x) = b \<and> dropWhile is_digit (b @ ''/'' @ x) = ''/'' @ x" for x
    using assms(3) by (rule takeWhile_digits) (simp add: not_digit_sign)
  have 3: "takeWhile is_digit (c @ r) = c" using takeWhile_digits [OF assms(5,7)] by simp
  show ?thesis using 1 2 3 assms(2,4,6) by (simp add: match_groups_def Let_def not_digit_sign)
qed

lemma FindStringSubmatch_prefix:
  "list_all (\<lambda>ch. \<not> is_digit ch) p \<Longrightarrow> episodeRegex_FindStringSubmatch (p @ s) = episodeRegex_FindStringSubmatch s"
proof (induction p)
  case (Cons ch p)
  then have "match_groups (ch # p @ s) = None" by (simp add: match_groups_def Let_def)
  with Cons show ?case by simp
qed simp

lemma FindStringSubmatch_here: "match_groups s = Some g \<Longrightarrow> episodeRegex_FindStringSubmatch s = Some g"
  by (cases s) (simp_all add: match_groups_def Let_def)

text \<open>
  An episode of the legacy TheTVDB agent, whose GUID carries show, season and episode
  numbers, and the language parameter the agent appends, is reported under exactly these numbers.
\<close>

theorem findEpisode_tvdb:
  assumes "ExternalGUIDs (wh_Metadata h) = []"
    "GUID (wh_Metadata h) = ''com.plexapp.agents.thetvdb://'' @ digits sh @ ''/'' @ digits sn @ ''/'' @ digits ep @ ''?lang=en''"
    "te_url te (GUID (wh_Metadata h)) = Some (''com.plexapp.agents.thetvdb'', host)"
    "int sh < 2 ^ 63" "int sn < 2 ^ 63" "int ep < 2 ^ 63"
  shows "handleShow te h = Some (zero_Body\<lparr>BShow := Some (zero_Show\<lparr>ShowIds := zero_Ids\<lparr>Tvdb := Some (int sh)\<rparr>\<rparr>),
    BEpisode := Some (zero_Episode\<lparr>Season := Some (int sn), Number := Some (int ep)\<rparr>)\<rparr>)"
proof -
  have "match_groups (digits sh @ ''/'' @ digits sn @ ''/'' @ digits ep @ ''?lang=en'') = Some (digits sh, digits sn, digits ep)"
    by (rule match_groups_at) (simp_all add: is_digit_digits, simp add: is_digit_def)
  from FindStringSubmatch_here [OF this]
  have "episodeRegex_FindStringSubmatch (GUID (wh_Metadata h)) = Some (digits sh, digits sn, digits ep)"
    unfolding assms(2) by (subst FindStringSubmatch_prefix) (simp_all add: is_digit_def)
  with assms show ?thesis
    by (simp add: handleShow_def guid_ids_def findEpisode_def HasSuffix_def service_defs Atoi_digits)
qed

theorem findEpisode_tvdb_witness:
  "handleShow (demo_te trakt_down) (demo_hook\<lparr>wh_Metadata := (wh_Metadata demo_hook)\<lparr>ExternalGUIDs := [],
       GUID := ''com.plexapp.agents.thetvdb://12/3/4?lang=en''\<rparr>\<rparr>) =
     Some (zero_Body\<lparr>BShow := Some (zero_Show\<lparr>ShowIds := zero_Ids\<lparr>Tvdb := Some 12\<rparr>\<rparr>),
       BEpisode := Some (zero_Episode\<lparr>Season := Some 3, Number := Some 4\<rparr>)\<rparr>)"
proof -
  have "digits 12 = ''12''" "digits 3 = ''3''" "digits 4 = ''4''" by code_simp+
  then show ?thesis
    using findEpisode_tvdb [of "demo_hook\<lparr>wh_Metadata := (wh_Metadata demo_hook)\<lparr>ExternalGUIDs := [],
        GUID := ''com.plexapp.agents.thetvdb://12/3/4?lang=en''\<rparr>\<rparr>" 12 3 4 "demo_te trakt_down" "''12''"]
    by (simp add: demo_te_def)
qed

section \<open>Sending and broadcasting\<close>

definition retry_worthy :: "http_response result \<Rightarrow> bool" where
  "retry_worthy ans = (case ans of Inl _ \<Rightarrow> True | Inr r \<Rightarrow> unavailable (StatusCode r))"

definition accepted :: "http_response result \<Rightarrow> bool" where
  "accepted ans = (case ans of Inl _ \<Rightarrow> False | Inr r \<Rightarrow> success (StatusCode r))"

lemma not_both: "accepted a \<Longrightarrow> \<not> retry_worthy a"
  by (auto simp: accepted_def retry_worthy_def success_def unavailable_def split: sum.splits)

lemma accepted_unavailable: "success c \<Longrightarrow> \<not> unavailable c"
  by (auto simp: success_def unavailable_def)

lemma broadcast_one_eq:
  "te_http te = (\<lambda>req log. (ans req, log @ [req])) \<Longrightarrow>
   \<exists>x status. broadcast_one te action body m w = ((x, status), w @ [scrobble_req te action body (gm_AccessToken m)]) \<and>
     (x = None \<longleftrightarrow> accepted (ans (scrobble_req te action body (gm_AccessToken m)))) \<and>
     status = (case ans (scrobble_req te action body (gm_AccessToken m)) of Inl _ \<Rightarrow> 0 | Inr r \<Rightarrow> StatusCode r)"
  by (auto simp: broadcast_one_def accepted_def accepted_unavailable split: sum.splits)

lemma broadcast_all_spec:
  assumes "te_http te = (\<lambda>req log. (ans req, log @ [req]))" "\<forall>req r. ans req = Inr r \<longrightarrow> StatusCode r \<noteq> 0"
    "broadcast_all te action body ev title ms w = (errs, w')"
  shows "map be_Member errs = filter (\<lambda>m. \<not> accepted (ans (scrobble_req te action body (gm_AccessToken m)))) ms \<and>
    w' = w @ map (\<lambda>m. scrobble_req te action body (gm_AccessToken m)) ms \<and>
    (\<forall>b \<in> set errs. IsRetryable b \<longleftrightarrow> retry_worthy (ans (scrobble_req te action body (gm_AccessToken (be_Member b)))))"
  using assms(3)
proof (induction ms arbitrary: w errs w')
  case (Cons m ms)
  obtain x status where one: "broadcast_one te action body m w = ((x, status), w @ [scrobble_req te action body (gm_AccessToken m)])"
    "x = None \<longleftrightarrow> accepted (ans (scrobble_req te action body (gm_AccessToken m)))"
    "status = (case ans (scrobble_req te action body (gm_AccessToken m)) of Inl _ \<Rightarrow> 0 | Inr r \<Rightarrow> StatusCode r)"
    using broadcast_one_eq [OF assms(1), of action body m w] by blast
  obtain errs1 w2 where rest: "broadcast_all te action body ev title ms (w @ [scrobble_req te action body (gm_AccessToken m)]) = (errs1, w2)"
    by fastforce
  note ih = Cons.IH [OF rest]
  have out: "w' = w2" "errs = (case x of None \<Rightarrow> errs1 | Some er \<Rightarrow>
      \<lparr>be_Member = m, be_Err = er, HTTPStatus = status, be_EventID = ev, MediaTitle = title\<rparr> # errs1)"
    using Cons.prems one(1) rest by auto
  have "IsRetryable \<lparr>be_Member = m, be_Err = er, HTTPStatus = status, be_EventID = ev, MediaTitle = title\<rparr> \<longleftrightarrow>
      retry_worthy (ans (scrobble_req te action body (gm_AccessToken m)))" for er
    using assms(2) one(3) by (auto simp: IsRetryable_def retry_worthy_def unavailable_def split: sum.splits)
  with ih one(2) out show ?case by (auto split: option.splits)
qed simp

text \<open>
  Broadcasting a scrobble to a family, in whatever order the goroutines run: every member
  gets exactly one request, with the member's own token; an error is reported for exactly the
  members whose request was not accepted, one each; and an error counts as worth retrying
  exactly when the exchange failed on the network or Trakt was unavailable or rate limiting.
\<close>

theorem BroadcastScrobble_spec:
  assumes "te_http te = (\<lambda>req log. (ans req, log @ [req]))" "\<forall>req r. ans req = Inr r \<longrightarrow> StatusCode r \<noteq> 0"
    "mset (order members) = mset members"
  shows "case BroadcastScrobble te order action body members ev title w of (errs, w') \<Rightarrow>
    mset w' = mset w + mset (map (\<lambda>m. scrobble_req te action body (gm_AccessToken m)) members) \<and>
    mset (map be_Member errs) =
      filter_mset (\<lambda>m. \<not> accepted (ans (scrobble_req te action body (gm_AccessToken m)))) (mset members) \<and>
    (\<forall>b \<in> set errs. IsRetryable b \<longleftrightarrow> retry_worthy (ans (scrobble_req te action body (gm_AccessToken (be_Member b)))))"
proof (cases "members = []")
  case False
  obtain errs w' where run: "broadcast_all te action body ev title (order members) w = (errs, w')" by fastforce
  note spec = broadcast_all_spec [OF assms(1,2) run]
  have "image_mset be_Member (mset errs) =
      filter_mset (\<lambda>m. \<not> accepted (ans (scrobble_req te action body (gm_AccessToken m)))) (mset members)"
    using spec assms(3) by (metis mset_filter mset_map)
  moreover have "mset w' = mset w + mset (map (\<lambda>m. scrobble_req te action body (gm_AccessToken m)) members)"
    using spec assms(3) by simp
  ultimately show ?thesis using spec run False by (simp add: BroadcastScrobble_def)
qed (simp add: BroadcastScrobble_def)

definition demo_member :: "string \<Rightarrow> GroupMember" where
  "demo_member tok = \<lparr>gm_ID = tok, gm_FamilyGroupID = ''g'', TempLabel = tok, TraktUsername = tok, gm_AccessToken = tok,
     gm_RefreshToken = [], gm_TokenExpiry = None, AuthorizationStatus = ''authorized'', gm_CreatedAt = 1\<rparr>"

theorem BroadcastScrobble_spec_witness:
  "case BroadcastScrobble (demo_te trakt_down) rev ''start'' zero_Body [demo_member ''a'', demo_member ''b''] [] [] [] of
     (errs, w') \<Rightarrow> length w' = 2 \<and> mset (map be_Member errs) = {#demo_member ''a'', demo_member ''b''#} \<and> (\<forall>b \<in> set errs. IsRetryable b)"
proof -
  obtain errs w' where run: "BroadcastScrobble (demo_te trakt_down) rev ''start'' zero_Body [demo_member ''a'', demo_member ''b''] [] [] [] = (errs, w')"
    by fastforce
  have "te_http (demo_te trakt_down) = (\<lambda>req log. (trakt_down req, log @ [req]))" by (simp add: demo_te_def)
  from BroadcastScrobble_spec [OF this, where order = rev and members = "[demo_member ''a'', demo_member ''b'']" and
      action = "''start''" and body = zero_Body and ev = "[]" and title = "[]" and w = "[]"] run
  have "mset w' = mset (map (\<lambda>m. scrobble_req (demo_te trakt_down) ''start'' zero_Body (gm_AccessToken m)) [demo_member ''a'', demo_member ''b''])"
    and "mset (map be_Member errs) = {#demo_member ''a'', demo_member ''b''#}" "\<forall>b \<in> set errs. IsRetryable b"
    by (auto simp: accepted_def retry_worthy_def)
  moreover from this(1) have "length w' = 2" by (metis length_map size_mset length_Cons list.size(3) numeral_2_eq_2)
  ultimately show ?thesis using run by simp
qed

text \<open>
  Sending a queued scrobble reports success exactly when Trakt accepted it, and the error
  of an unavailable or rate limiting Trakt is the only one whose text starts as transient;
  when Trakt answers with a document the cache is updated with it, otherwise the store is not
  touched.
\<close>

theorem ScrobbleFromQueue_result:
  assumes "te_http te (scrobble_req te action (Body item) token) w = (ans, w1)"
    "ScrobbleFromQueue te action item token w = Some (x, w2)"
  shows "(x = None \<longleftrightarrow> accepted ans) \<and>
    ((\<exists>m. x = Some (Err (''transient error'' @ m))) \<longleftrightarrow> (\<exists>r. ans = Inr r \<and> unavailable (StatusCode r))) \<and>
    (w2 = w1 \<or> (\<exists>r body. ans = Inr r \<and> decode_into r (Body item) = DecOk body \<and>
        te_WriteScrobbleBody te (item\<lparr>Body := body, LastAction := action\<rparr>) w1 = Some w2))"
  using assms
  by (auto simp: ScrobbleFromQueue_def accepted_def accepted_unavailable split: sum.splits if_splits decoded.splits)

theorem ScrobbleFromQueue_result_witness:
  "\<exists>x w2. ScrobbleFromQueue (demo_te (\<lambda>_. Inr \<lparr>StatusCode = 503, StatusText = [], body_bytes = [], body_read_err = False, body_json = None\<rparr>))
      ''stop'' zero_CacheItem ''t'' [] = Some (x, w2) \<and> (\<exists>m. x = Some (Err (''transient error'' @ m)))"
proof -
  let ?r = "\<lparr>StatusCode = 503, StatusText = [], body_bytes = [], body_read_err = False, body_json = None\<rparr>"
  let ?te = "demo_te (\<lambda>_. Inr ?r)"
  obtain x w2 where run: "ScrobbleFromQueue ?te ''stop'' zero_CacheItem ''t'' [] = Some (x, w2)"
    by (simp add: ScrobbleFromQueue_def demo_te_def unavailable_def)
  have "te_http ?te (scrobble_req ?te ''stop'' (Body zero_CacheItem) ''t'') [] =
      (Inr ?r, [scrobble_req ?te ''stop'' (Body zero_CacheItem) ''t''])" by (simp add: demo_te_def)
  from ScrobbleFromQueue_result [OF this run] run show ?thesis by (auto simp: unavailable_def)
qed

end
