(* ===== verification/Retry_Item.thy ===== *)
theory Retry_Item
  imports Users
begin

text \<open>
  \<open>lib/store/retry_queue_item.go\<close>: the persisted retry of a failed family scrobble, its
  validation and its back-off schedule.  Durations are 64-bit: the shift and the product of
  \<open>nextRetryDelay\<close> are words that wrap, read as signed.
\<close>

definition MaxRetryAttempts :: int where
  "MaxRetryAttempts = 5"

definition RetryQueueStatusQueued :: string where
  "RetryQueueStatusQueued = ''queued''"

definition RetryQueueStatusRetrying :: string where
  "RetryQueueStatusRetrying = ''retrying''"

definition RetryQueueStatusPermanentFailure :: string where
  "RetryQueueStatusPermanentFailure = ''permanent_failure''"

lemmas retry_status_defs = RetryQueueStatusQueued_def RetryQueueStatusRetrying_def
  RetryQueueStatusPermanentFailure_def

record RetryQueueItem =
  rq_ID :: string
  rq_FamilyGroupID :: string
  rq_GroupMemberID :: string
  Payload :: string
  AttemptCount :: int
  NextAttemptAt :: gotime
  LastError :: string
  Status :: string
  rq_CreatedAt :: gotime
  rq_UpdatedAt :: gotime

definition RetryQueueItem_Normalize :: "RetryQueueItem \<Rightarrow> RetryQueueItem" where
  "RetryQueueItem_Normalize item = item\<lparr>Status := TrimSpace (ToLower (Status item))\<rparr>"

definition isValidRetryStatus :: "string \<Rightarrow> bool" where
  "isValidRetryStatus status \<longleftrightarrow> status = RetryQueueStatusQueued \<or>
     status = RetryQueueStatusRetrying \<or> status = RetryQueueStatusPermanentFailure"

text \<open>The q verb: the text between double quotes (the escapes of control characters are not modelled).\<close>

definition quoted :: "string \<Rightarrow> string" where
  "quoted s = CHR 0x22 # s @ [CHR 0x22]"

definition RetryQueueItem_Validate :: "RetryQueueItem option \<Rightarrow> err option \<times> RetryQueueItem option" where
  "RetryQueueItem_Validate p = (case p of
     None \<Rightarrow> (Some (ErrInvalidRetryItem []), None)
   | Some item0 \<Rightarrow> (let item = RetryQueueItem_Normalize item0 in
       (if rq_FamilyGroupID item = [] then Some (ErrInvalidRetryItem ''family group id is required'')
        else if rq_GroupMemberID item = [] then Some (ErrInvalidRetryItem ''group member id is required'')
        else if Payload item = [] then Some (ErrInvalidRetryItem ''payload cannot be empty'')
        else if AttemptCount item < 0 \<or> AttemptCount item > MaxRetryAttempts
        then Some (ErrInvalidRetryItem (''attempt count '' @ itoa (AttemptCount item) @ '' outside 0-'' @ itoa MaxRetryAttempts))
        else if IsZero (NextAttemptAt item) then Some (ErrInvalidRetryItem ''next attempt timestamp required'')
        else if \<not> isValidRetryStatus (Status item) then Some (ErrInvalidRetryItem (''unknown status '' @ quoted (Status item)))
        else if Status item = RetryQueueStatusPermanentFailure \<and> AttemptCount item < MaxRetryAttempts
        then Some (ErrInvalidRetryItem (''permanent failure requires attempt count '' @ itoa MaxRetryAttempts))
        else None, Some item)))"

section \<open>Back-off\<close>

text \<open>\<open>1 << uint(n)\<close> at type \<open>time.Duration\<close>; \<open>n\<close> is not negative where it is used.\<close>

definition shl1 :: "int \<Rightarrow> 64 word" where
  "shl1 n = push_bit (nat n) 1"

definition nextRetryDelay :: "int \<Rightarrow> duration \<Rightarrow> duration" where
  "nextRetryDelay attempt baseDelay =
     (let baseDelay = (if baseDelay \<le> 0 then 30 * Second else baseDelay);
          attempt = (if attempt < 0 then 0 else attempt);
          maxBackoff = 30 * Minute;
          delay = sint (word_of_int baseDelay * shl1 attempt)
      in if delay > maxBackoff then maxBackoff else delay)"

definition ScheduleNextAttempt :: "gotime \<Rightarrow> duration \<Rightarrow> RetryQueueItem option \<Rightarrow> err option \<times> RetryQueueItem option" where
  "ScheduleNextAttempt now baseDelay p = (case p of
     None \<Rightarrow> (Some (ErrInvalidRetryItem []), None)
   | Some item \<Rightarrow>
       (if AttemptCount item \<ge> MaxRetryAttempts then (Some ErrRetryAttemptsExceeded, Some item)
        else (let delay = nextRetryDelay (AttemptCount item) baseDelay in
          (None, Some (item\<lparr>AttemptCount := AttemptCount item + 1, Status := RetryQueueStatusQueued,
                            NextAttemptAt := now + delay\<rparr>)))))"

section \<open>Back-off arithmetic\<close>

lemma shl1_eq: "shl1 n = word_of_int (2 ^ nat n)"
  by (simp add: shl1_def push_bit_eq_mult)

text \<open>Inside the signed 64-bit range nothing wraps.\<close>

lemma sint_in_range: "0 \<le> k \<Longrightarrow> k < 2 ^ 63 \<Longrightarrow> sint (word_of_int k :: 64 word) = k"
  by (simp add: sint_sbintrunc' signed_take_bit_int_eq_self)

lemma backoff_exact:
  assumes "0 < base" and "base * 2 ^ nat n < 2 ^ 63"
  shows "sint (word_of_int base * shl1 n) = base * 2 ^ nat n"
proof -
  have "word_of_int base * shl1 n = (word_of_int (base * 2 ^ nat n) :: 64 word)"
    by (simp only: shl1_eq wi_hom_mult)
  moreover have "0 \<le> base * 2 ^ nat n" using assms(1) by simp
  ultimately show ?thesis using assms(2) by (simp only: sint_in_range)
qed

definition effective_base :: "duration \<Rightarrow> duration" where
  "effective_base b = (if b \<le> 0 then 30 * Second else b)"

lemma nextRetryDelay_exact:
  assumes "0 \<le> attempt" and "effective_base b * 2 ^ nat attempt < 2 ^ 63"
  shows "nextRetryDelay attempt b = min (30 * Minute) (effective_base b * 2 ^ nat attempt)"
proof -
  have "0 < effective_base b" by (simp add: effective_base_def time_defs)
  from backoff_exact [OF this assms(2)] assms(1) show ?thesis
    by (simp add: nextRetryDelay_def effective_base_def Let_def min_def)
qed

section \<open>Well-formed items\<close>

definition retry_wf :: "RetryQueueItem \<Rightarrow> bool" where
  "retry_wf item \<longleftrightarrow> rq_FamilyGroupID item \<noteq> [] \<and> rq_GroupMemberID item \<noteq> [] \<and> Payload item \<noteq> [] \<and>
     0 \<le> AttemptCount item \<and> AttemptCount item \<le> MaxRetryAttempts \<and> \<not> IsZero (NextAttemptAt item) \<and>
     isValidRetryStatus (Status item) \<and>
     (Status item = RetryQueueStatusPermanentFailure \<longrightarrow> AttemptCount item = MaxRetryAttempts)"

lemma RetryQueueItem_Normalize_frame [simp]:
  "rq_ID (RetryQueueItem_Normalize i) = rq_ID i"
  "rq_FamilyGroupID (RetryQueueItem_Normalize i) = rq_FamilyGroupID i"
  "rq_GroupMemberID (RetryQueueItem_Normalize i) = rq_GroupMemberID i"
  "Payload (RetryQueueItem_Normalize i) = Payload i"
  "AttemptCount (RetryQueueItem_Normalize i) = AttemptCount i"
  "NextAttemptAt (RetryQueueItem_Normalize i) = NextAttemptAt i"
  "LastError (RetryQueueItem_Normalize i) = LastError i"
  "rq_CreatedAt (RetryQueueItem_Normalize i) = rq_CreatedAt i"
  "rq_UpdatedAt (RetryQueueItem_Normalize i) = rq_UpdatedAt i"
  "Status (RetryQueueItem_Normalize i) = TrimSpace (ToLower (Status i))"
  by (simp_all add: RetryQueueItem_Normalize_def)

lemma RetryQueueItem_Validate_ok:
  "fst (RetryQueueItem_Validate (Some item)) = None \<longleftrightarrow> retry_wf (RetryQueueItem_Normalize item)"
  by (auto simp: RetryQueueItem_Validate_def retry_wf_def Let_def)

lemma RetryQueueItem_Validate_snd [simp]:
  "snd (RetryQueueItem_Validate (Some item)) = Some (RetryQueueItem_Normalize item)"
  by (simp add: RetryQueueItem_Validate_def Let_def)

lemma queued_valid [simp]:
  "isValidRetryStatus RetryQueueStatusQueued"
  "RetryQueueStatusQueued \<noteq> RetryQueueStatusPermanentFailure"
  by (simp_all add: isValidRetryStatus_def retry_status_defs)

lemma retry_status_normal: "isValidRetryStatus st \<Longrightarrow> TrimSpace (ToLower st) = st"
  unfolding isValidRetryStatus_def retry_status_defs
  by (elim disjE; simp add: TrimSpace_ToLower go_str plain_def) (simp_all add: ToLower_def lower_byte_def)

lemmas queued_normal = retry_status_normal [OF queued_valid(1)]

lemma retry_normal: "TrimSpace (ToLower RetryQueueStatusRetrying) = RetryQueueStatusRetrying"
  by (rule retry_status_normal) (simp add: isValidRetryStatus_def)

text \<open>
  A valid retry item that has attempts left is re-scheduled: the attempt counter grows by
  one and never passes the ceiling, the item is queued again, its next attempt lies exactly
  base times two to the number of earlier attempts after now, capped at thirty minutes (the
  64-bit product does not wrap for any base delay below 2 to the 59 ns, about 18 years), and
  the re-scheduled item is valid again.  An exhausted item is refused unchanged.
\<close>

theorem ScheduleNextAttempt_spec:
  assumes "fst (RetryQueueItem_Validate (Some item)) = None" and "effective_base b < 2 ^ 59"
    and "0 \<le> now"
  shows "if AttemptCount item < MaxRetryAttempts
    then \<exists>item'. ScheduleNextAttempt now b (Some item) = (None, Some item') \<and>
        AttemptCount item' = AttemptCount item + 1 \<and> AttemptCount item' \<le> MaxRetryAttempts \<and>
        Status item' = RetryQueueStatusQueued \<and>
        NextAttemptAt item' = now + min (30 * Minute) (effective_base b * 2 ^ nat (AttemptCount item)) \<and>
        fst (RetryQueueItem_Validate (Some item')) = None
    else ScheduleNextAttempt now b (Some item) = (Some ErrRetryAttemptsExceeded, Some item)"
proof (cases "AttemptCount item < MaxRetryAttempts")
  case True
  have wf: "retry_wf (RetryQueueItem_Normalize item)"
    using assms(1) by (simp add: RetryQueueItem_Validate_ok)
  have pos: "0 < effective_base b" by (simp add: effective_base_def time_defs)
  have "(2::int) ^ nat (AttemptCount item) \<le> 2 ^ 4"
    using True by (intro power_increasing) (simp_all add: MaxRetryAttempts_def)
  then have "effective_base b * 2 ^ nat (AttemptCount item) \<le> effective_base b * 2 ^ 4"
    using pos by (intro mult_left_mono) simp_all
  then have "effective_base b * 2 ^ nat (AttemptCount item) < 2 ^ 63"
    using assms(2) by simp
  from nextRetryDelay_exact [OF _ this] wf
  have delay: "nextRetryDelay (AttemptCount item) b =
      min (30 * Minute) (effective_base b * 2 ^ nat (AttemptCount item))"
    by (simp add: retry_wf_def)
  have "0 < min (30 * Minute) (effective_base b * 2 ^ nat (AttemptCount item))"
    using pos by (simp add: time_defs)
  with assms(3) have "now + min (30 * Minute) (effective_base b * 2 ^ nat (AttemptCount item)) \<noteq> 0"
    by linarith
  with True wf delay show ?thesis
    by (simp add: ScheduleNextAttempt_def RetryQueueItem_Validate_ok Let_def)
      (simp add: retry_wf_def queued_normal queued_valid)
qed (simp add: ScheduleNextAttempt_def)

theorem ScheduleNextAttempt_spec_witness:
  "\<exists>item'. ScheduleNextAttempt 1000 0 (Some \<lparr>rq_ID = ''i'', rq_FamilyGroupID = ''g'', rq_GroupMemberID = ''m'',
      Payload = ''x'', AttemptCount = 3, NextAttemptAt = 1, LastError = [], Status = ''retrying'',
      rq_CreatedAt = 1, rq_UpdatedAt = 1\<rparr>) = (None, Some item') \<and>
    AttemptCount item' = 4 \<and> NextAttemptAt item' = 1000 + 240 * Second"
  using ScheduleNextAttempt_spec [of "\<lparr>rq_ID = ''i'', rq_FamilyGroupID = ''g'', rq_GroupMemberID = ''m'',
      Payload = ''x'', AttemptCount = 3, NextAttemptAt = 1, LastError = [], Status = ''retrying'',
      rq_CreatedAt = 1, rq_UpdatedAt = 1\<rparr>" 0 1000]
  by (auto simp: RetryQueueItem_Validate_ok retry_wf_def isValidRetryStatus_def retry_status_defs
      retry_normal [unfolded retry_status_defs] MaxRetryAttempts_def effective_base_def time_defs)

end
