(* ===== verification/Postgres_Db.thy ===== *)
theory Postgres_Db
  imports Family Retry_Item Queue_Event
begin

text \<open>
  The database behind \<open>lib/store/postgresql.go\<close> and \<open>postgresql_family.go\<close>.  The tables and
  their constraints are those of the \<open>CREATE TABLE\<close> statements of \<open>NewPostgresqlClient\<close>: a
  table is the list of its rows, a nullable column an option, and an \<open>ORDER BY\<close> is a stable
  sort, so rows with equal keys keep their insertion order.  A violated constraint is the
  SQLSTATE code the driver reports for it, in the order the server checks them: \<open>CHECK\<close>,
  then unique, then foreign key.

  Everything the server and the machine decide for themselves is the environment record
  \<open>env\<close>, indexed by the number of statements sent so far: whether a statement fails
  (connection lost, context cancelled, value refused), whether reading its rows fails, the
  clocks of program and server, the random bytes, and what a stored timestamp or JSON
  document reads back as.  No assumption is made about it except where a theorem names one.
\<close>

record env =
  env_fault :: "nat \<Rightarrow> err option"
  env_rows :: "nat \<Rightarrow> err option"
  env_now :: "nat \<Rightarrow> gotime"
  env_dbnow :: "nat \<Rightarrow> gotime"
  env_rand :: "nat \<Rightarrow> err + bytes"
  env_stamp :: "nat \<Rightarrow> bytes"
  env_timestamp :: "gotime \<Rightarrow> gotime"
  env_timestamptz :: "gotime \<Rightarrow> gotime"
  env_jsonb :: "string \<Rightarrow> string option"

section \<open>Tables\<close>

record user_row =
  u_id :: string
  u_username :: string
  u_access :: string
  u_refresh :: string
  u_display :: "string option"
  u_updated :: gotime
  u_expiry :: "gotime option"

record queued_row =
  q_id :: string
  q_user_id :: string
  q_body :: json
  q_action :: string
  q_progress :: int
  q_created :: gotime
  q_retry :: int
  q_last :: "gotime option"
  q_player :: string
  q_rating :: string

record member_row =
  m_id :: string
  m_group :: string
  m_label :: string
  m_trakt :: "string option"
  m_access :: "string option"
  m_refresh :: "string option"
  m_expiry :: "gotime option"
  m_status :: string
  m_created :: gotime

record retry_row =
  r_id :: string
  r_group :: string
  r_member :: string
  r_payload :: string
  r_attempt :: int
  r_next :: gotime
  r_error :: "string option"
  r_status :: string
  r_created :: gotime
  r_updated :: gotime

record notif_row =
  n_id :: string
  n_group :: string
  n_member :: "string option"
  n_type :: string
  n_message :: string
  n_metadata :: "string option"
  n_dismissed :: bool
  n_created :: gotime

text \<open>A family group row has exactly the columns of \<^typ>\<open>FamilyGroup\<close>.\<close>

record pg =
  users :: "user_row list"
  queued_scrobbles :: "queued_row list"
  family_groups :: "FamilyGroup list"
  group_members :: "member_row list"
  retry_queue_items :: "retry_row list"
  notifications :: "notif_row list"
  fallbackBuffers :: "string \<rightharpoonup> InMemoryBuffer"
  stmt_no :: nat

definition pg_empty :: pg where
  "pg_empty = \<lparr>users = [], queued_scrobbles = [], family_groups = [], group_members = [],
     retry_queue_items = [], notifications = [], fallbackBuffers = Map.empty, stmt_no = 0\<rparr>"

text \<open>Reading and writing nullable columns, and the scan of a member row.\<close>

definition nullableString :: "string \<Rightarrow> string option" where
  "nullableString v = (let v = TrimSpace v in if v = [] then None else Some v)"

definition NullString_String :: "string option \<Rightarrow> string" where
  "NullString_String v = (case v of None \<Rightarrow> [] | Some x \<Rightarrow> x)"

definition nullableTime :: "env \<Rightarrow> gotime option \<Rightarrow> gotime option" where
  "nullableTime e t = map_option (env_timestamp e) t"

definition scanGroupMemberRow :: "member_row \<Rightarrow> GroupMember" where
  "scanGroupMemberRow r = \<lparr>gm_ID = m_id r, gm_FamilyGroupID = m_group r, TempLabel = m_label r,
     TraktUsername = TrimSpace (NullString_String (m_trakt r)), gm_AccessToken = NullString_String (m_access r),
     gm_RefreshToken = NullString_String (m_refresh r), gm_TokenExpiry = m_expiry r,
     AuthorizationStatus = m_status r, gm_CreatedAt = m_created r\<rparr>"

section \<open>Statements\<close>

text \<open>
  Sending a statement: it fails as the environment says, otherwise it runs on the tables.
\<close>

definition sql :: "env \<Rightarrow> (nat \<Rightarrow> pg \<Rightarrow> 'a result \<times> pg) \<Rightarrow> pg \<Rightarrow> 'a result \<times> pg" where
  "sql e f s = (let s' = s\<lparr>stmt_no := Suc (stmt_no s)\<rparr> in
     case env_fault e (stmt_no s) of Some x \<Rightarrow> (Inl x, s') | None \<Rightarrow> f (stmt_no s) s')"

text \<open>A query: a function of the tables, that may also fail while its rows are read.\<close>

definition sql_query :: "env \<Rightarrow> (pg \<Rightarrow> 'a) \<Rightarrow> pg \<Rightarrow> 'a result \<times> pg" where
  "sql_query e q = sql e (\<lambda>n s. (Inr (q s), s))"

definition sql_exec :: "env \<Rightarrow> (nat \<Rightarrow> pg \<Rightarrow> pg) \<Rightarrow> pg \<Rightarrow> unit result \<times> pg" where
  "sql_exec e f = sql e (\<lambda>n s. (Inr (), f n s))"

definition unique_violation :: err where
  "unique_violation = SqlError ''23505''"

definition foreign_key_violation :: err where
  "foreign_key_violation = SqlError ''23503''"

definition check_violation :: err where
  "check_violation = SqlError ''23514''"

lemmas sqlstate_defs = unique_violation_def foreign_key_violation_def check_violation_def

text \<open>An insertion or update refused by a constraint leaves the tables alone.\<close>

definition guarded :: "(bool \<times> err) list \<Rightarrow> pg \<Rightarrow> pg \<Rightarrow> unit result \<times> pg" where
  "guarded checks s s' = (case find (\<lambda>(ok, _). \<not> ok) checks of
     Some (_, x) \<Rightarrow> (Inl x, s)
   | None \<Rightarrow> (Inr (), s'))"

text \<open>\<open>ORDER BY k ASC\<close> and \<open>DESC\<close>.\<close>

definition order_asc :: "('a \<Rightarrow> int) \<Rightarrow> 'a list \<Rightarrow> 'a list" where
  "order_asc k rows = sort_key k rows"

definition order_desc :: "('a \<Rightarrow> int) \<Rightarrow> 'a list \<Rightarrow> 'a list" where
  "order_desc k rows = sort_key (\<lambda>r. - k r) rows"

section \<open>Constraints\<close>

text \<open>The \<open>CHECK\<close> constraints of \<open>queued_scrobbles\<close>.\<close>

definition queued_check :: "queued_row \<Rightarrow> bool" where
  "queued_check r \<longleftrightarrow> q_action r \<in> {''start'', ''pause'', ''stop''} \<and>
     0 \<le> q_progress r \<and> q_progress r \<le> 100 \<and> 0 \<le> q_retry r \<and> q_retry r \<le> 5"

definition queued_key :: "queued_row \<Rightarrow> string \<times> string" where
  "queued_key r = (q_player r, q_rating r)"

text \<open>What the validation before every write establishes of group and member rows.\<close>

definition group_wf :: "FamilyGroup \<Rightarrow> bool" where
  "group_wf g \<longleftrightarrow> FamilyGroup_Normalize g = g \<and> PlexUsername g \<noteq> []"

definition member_row_wf :: "member_row \<Rightarrow> bool" where
  "member_row_wf r \<longleftrightarrow> member_wf (scanGroupMemberRow r) \<and>
     ToLower (TraktUsername (scanGroupMemberRow r)) = TraktUsername (scanGroupMemberRow r)"

text \<open>
  The integrity of the database: the constraints of the schema (primary keys, unique keys,
  checks, foreign keys) and well-formed groups and members.
\<close>

definition users_ok :: "pg \<Rightarrow> bool" where
  "users_ok s \<longleftrightarrow> distinct (map u_id (users s))"

definition queue_ok :: "pg \<Rightarrow> bool" where
  "queue_ok s \<longleftrightarrow> distinct (map q_id (queued_scrobbles s)) \<and>
     distinct (map queued_key (queued_scrobbles s)) \<and>
     list_all queued_check (queued_scrobbles s) \<and>
     q_user_id ` set (queued_scrobbles s) \<subseteq> u_id ` set (users s)"

definition groups_ok :: "pg \<Rightarrow> bool" where
  "groups_ok s \<longleftrightarrow> distinct (map fg_ID (family_groups s)) \<and> distinct (map PlexUsername (family_groups s)) \<and>
     list_all group_wf (family_groups s)"

definition members_ok :: "pg \<Rightarrow> bool" where
  "members_ok s \<longleftrightarrow> distinct (map m_id (group_members s)) \<and> list_all member_row_wf (group_members s) \<and>
     m_group ` set (group_members s) \<subseteq> fg_ID ` set (family_groups s)"

definition retry_ok :: "pg \<Rightarrow> bool" where
  "retry_ok s \<longleftrightarrow> distinct (map r_id (retry_queue_items s)) \<and>
     r_group ` set (retry_queue_items s) \<subseteq> fg_ID ` set (family_groups s) \<and>
     r_member ` set (retry_queue_items s) \<subseteq> m_id ` set (group_members s)"

definition notifs_ok :: "pg \<Rightarrow> bool" where
  "notifs_ok s \<longleftrightarrow> distinct (map n_id (notifications s)) \<and>
     n_group ` set (notifications s) \<subseteq> fg_ID ` set (family_groups s) \<and>
     (\<Union>r \<in> set (notifications s). set_option (n_member r)) \<subseteq> m_id ` set (group_members s)"

definition schema_ok :: "pg \<Rightarrow> bool" where
  "schema_ok s \<longleftrightarrow> users_ok s \<and> queue_ok s \<and> groups_ok s \<and> members_ok s \<and> retry_ok s \<and> notifs_ok s"

lemmas table_ok_defs = users_ok_def queue_ok_def groups_ok_def members_ok_def retry_ok_def notifs_ok_def

section \<open>Deletions that cascade\<close>

definition delete_user :: "string \<Rightarrow> pg \<Rightarrow> pg" where
  "delete_user i s = s\<lparr>users := filter (\<lambda>r. u_id r \<noteq> i) (users s),
     queued_scrobbles := filter (\<lambda>r. q_user_id r \<noteq> i) (queued_scrobbles s)\<rparr>"

definition delete_members :: "(member_row \<Rightarrow> bool) \<Rightarrow> pg \<Rightarrow> pg" where
  "delete_members P s = (let gone = m_id ` {r \<in> set (group_members s). P r} in
     s\<lparr>group_members := filter (\<lambda>r. \<not> P r) (group_members s),
       retry_queue_items := filter (\<lambda>r. r_member r \<notin> gone) (retry_queue_items s),
       notifications := filter (\<lambda>r. \<forall>m \<in> set_option (n_member r). m \<notin> gone) (notifications s)\<rparr>)"

definition delete_group :: "string \<Rightarrow> pg \<Rightarrow> pg" where
  "delete_group i s = (let s1 = delete_members (\<lambda>r. m_group r = i) s in
     s1\<lparr>family_groups := filter (\<lambda>g. fg_ID g \<noteq> i) (family_groups s1),
        retry_queue_items := filter (\<lambda>r. r_group r \<noteq> i) (retry_queue_items s1),
        notifications := filter (\<lambda>r. n_group r \<noteq> i) (notifications s1)\<rparr>)"

lemma schema_stmt_no [simp]: "schema_ok (s\<lparr>stmt_no := n\<rparr>) = schema_ok s"
  by (simp add: schema_ok_def table_ok_defs)

lemma schema_buffers [simp]: "schema_ok (s\<lparr>fallbackBuffers := b\<rparr>) = schema_ok s"
  by (simp add: schema_ok_def table_ok_defs)

lemma schema_empty [simp]: "schema_ok pg_empty"
  by (simp add: schema_ok_def table_ok_defs pg_empty_def)

lemma schema_delete_user: "schema_ok s \<Longrightarrow> schema_ok (delete_user i s)"
  by (auto simp: schema_ok_def table_ok_defs delete_user_def distinct_map_filter list_all_iff)

text \<open>Deleting referenced rows together with their references keeps a foreign key intact.\<close>

lemma fk_filter:
  "(\<And>x. x \<in> A \<Longrightarrow> f x \<subseteq> g ` B) \<Longrightarrow> x \<in> A \<Longrightarrow> \<forall>k \<in> f x. k \<notin> g ` {y \<in> B. P y} \<Longrightarrow>
     f x \<subseteq> g ` {y \<in> B. \<not> P y}"
  by blast

lemma fk_filter1:
  "f ` A \<subseteq> g ` B \<Longrightarrow> f ` {x \<in> A. f x \<notin> g ` {y \<in> B. P y}} \<subseteq> g ` {y \<in> B. \<not> P y}"
  by blast

lemma schema_delete_members:
  assumes "schema_ok s"
  shows "schema_ok (delete_members P s)"
proof -
  let ?t = "delete_members P s"
  let ?gone = "m_id ` {r \<in> set (group_members s). P r}"
  have tables: "users ?t = users s" "queued_scrobbles ?t = queued_scrobbles s"
    "family_groups ?t = family_groups s" "group_members ?t = filter (\<lambda>r. \<not> P r) (group_members s)"
    "retry_queue_items ?t = filter (\<lambda>r. r_member r \<notin> ?gone) (retry_queue_items s)"
    "notifications ?t = filter (\<lambda>r. \<forall>m \<in> set_option (n_member r). m \<notin> ?gone) (notifications s)"
    by (simp_all add: delete_members_def Let_def)
  have "members_ok ?t"
    using assms by (auto simp: schema_ok_def members_ok_def tables distinct_map_filter list_all_iff)
  moreover have "retry_ok ?t"
  proof -
    have "r_member ` {r \<in> set (retry_queue_items s). r_member r \<notin> ?gone}
        \<subseteq> m_id ` {r \<in> set (group_members s). \<not> P r}"
      using assms by (intro fk_filter1) (simp add: schema_ok_def retry_ok_def)
    moreover have "r_group ` {r \<in> set (retry_queue_items s). r_member r \<notin> ?gone} \<subseteq> fg_ID ` set (family_groups s)"
      using assms unfolding schema_ok_def retry_ok_def by blast
    ultimately show ?thesis
      using assms by (simp add: schema_ok_def retry_ok_def tables distinct_map_filter)
  qed
  moreover have "notifs_ok ?t"
  proof -
    have fk: "set_option (n_member r) \<subseteq> m_id ` {r \<in> set (group_members s). \<not> P r}"
      if "r \<in> set (notifications s)" "\<forall>m \<in> set_option (n_member r). m \<notin> ?gone" for r
      using _ that by (rule fk_filter) (use assms in \<open>auto simp: schema_ok_def notifs_ok_def\<close>)
    have "n_group ` {r \<in> set (notifications s). \<forall>m \<in> set_option (n_member r). m \<notin> ?gone}
        \<subseteq> fg_ID ` set (family_groups s)"
      using assms unfolding schema_ok_def notifs_ok_def by blast
    with fk assms show ?thesis
      unfolding notifs_ok_def tables set_filter by (simp add: schema_ok_def notifs_ok_def distinct_map_filter UN_subset_iff)
  qed
  ultimately show ?thesis
    using assms by (simp add: schema_ok_def users_ok_def queue_ok_def groups_ok_def tables)
qed

text \<open>A group whose members are gone goes together with what still refers to it.\<close>

lemma schema_delete_group:
  assumes "schema_ok s"
  shows "schema_ok (delete_group i s)"
proof -
  let ?s = "delete_members (\<lambda>r. m_group r = i) s"
  let ?t = "delete_group i s"
  have ok: "schema_ok ?s" by (rule schema_delete_members [OF assms])
  have left: "\<forall>r \<in> set (group_members ?s). m_group r \<noteq> i"
    by (simp add: delete_members_def Let_def)
  have tables: "users ?t = users ?s" "queued_scrobbles ?t = queued_scrobbles ?s"
    "family_groups ?t = filter (\<lambda>g. fg_ID g \<noteq> i) (family_groups ?s)" "group_members ?t = group_members ?s"
    "retry_queue_items ?t = filter (\<lambda>r. r_group r \<noteq> i) (retry_queue_items ?s)"
    "notifications ?t = filter (\<lambda>r. n_group r \<noteq> i) (notifications ?s)"
    by (simp_all add: delete_group_def Let_def)
  have "groups_ok ?t" using ok by (auto simp: schema_ok_def groups_ok_def tables distinct_map_filter list_all_iff)
  moreover have "members_ok ?t" using ok left unfolding schema_ok_def members_ok_def tables by auto
  moreover have "retry_ok ?t" using ok unfolding schema_ok_def retry_ok_def tables
    by (auto simp: distinct_map_filter)
  moreover have "notifs_ok ?t" using ok unfolding schema_ok_def notifs_ok_def tables
    by (auto simp: distinct_map_filter)
  ultimately show ?thesis
    using ok by (simp add: schema_ok_def users_ok_def queue_ok_def tables)
qed

lemma schema_filter_queue:
  "schema_ok s \<Longrightarrow> schema_ok (s\<lparr>queued_scrobbles := filter P (queued_scrobbles s)\<rparr>)"
  by (auto simp: schema_ok_def table_ok_defs distinct_map_filter list_all_iff)

lemma schema_filter_retry:
  "schema_ok s \<Longrightarrow> schema_ok (s\<lparr>retry_queue_items := filter P (retry_queue_items s)\<rparr>)"
  by (auto simp: schema_ok_def table_ok_defs distinct_map_filter)

lemma schema_filter_notifs:
  "schema_ok s \<Longrightarrow> schema_ok (s\<lparr>notifications := filter P (notifications s)\<rparr>)"
  by (auto simp: schema_ok_def table_ok_defs distinct_map_filter)

text \<open>Updates that leave the key columns alone.\<close>

lemma schema_map_notifs:
  assumes f: "\<And>r. n_id (f r) = n_id r" "\<And>r. n_group (f r) = n_group r" "\<And>r. n_member (f r) = n_member r"
  shows "schema_ok (s\<lparr>notifications := map f (notifications s)\<rparr>) = schema_ok s"
proof -
  have "map n_id (map f ns) = map n_id ns" "n_group ` set (map f ns) = n_group ` set ns"
    "(\<Union>r \<in> set (map f ns). set_option (n_member r)) = (\<Union>r \<in> set ns. set_option (n_member r))" for ns
    by (simp_all add: f image_image)
  then show ?thesis by (simp add: schema_ok_def table_ok_defs del: map_map set_map)
qed

lemma schema_map_retry:
  assumes f: "\<And>r. r_id (f r) = r_id r" "\<And>r. r_group (f r) = r_group r" "\<And>r. r_member (f r) = r_member r"
  shows "schema_ok (s\<lparr>retry_queue_items := map f (retry_queue_items s)\<rparr>) = schema_ok s"
proof -
  have "map r_id (map f rs) = map r_id rs" "r_group ` set (map f rs) = r_group ` set rs"
    "r_member ` set (map f rs) = r_member ` set rs" for rs
    by (simp_all add: f image_image)
  then show ?thesis by (simp add: schema_ok_def table_ok_defs del: map_map set_map)
qed

lemma schema_map_members:
  assumes f: "\<And>r. m_id (f r) = m_id r" "\<And>r. m_group (f r) = m_group r"
    and wf: "\<And>r. member_row_wf r \<Longrightarrow> member_row_wf (f r)" and ok: "schema_ok s"
  shows "schema_ok (s\<lparr>group_members := map f (group_members s)\<rparr>)"
proof -
  have "map m_id (map f ms) = map m_id ms" "m_group ` set (map f ms) = m_group ` set ms"
    "m_id ` set (map f ms) = m_id ` set ms" for ms
    by (simp_all add: f image_image)
  moreover have "list_all member_row_wf ms \<Longrightarrow> list_all member_row_wf (map f ms)" for ms
    by (auto simp: list_all_iff wf)
  ultimately show ?thesis using ok by (simp add: schema_ok_def table_ok_defs del: map_map set_map)
qed

section \<open>Reasoning about statements\<close>

definition sent :: "pg \<Rightarrow> pg" where
  "sent s = s\<lparr>stmt_no := Suc (stmt_no s)\<rparr>"

lemma schema_sent [simp]: "schema_ok (sent s) = schema_ok s"
  by (simp add: sent_def)

lemma sent_frame [simp]:
  "users (sent s) = users s" "queued_scrobbles (sent s) = queued_scrobbles s"
  "family_groups (sent s) = family_groups s" "group_members (sent s) = group_members s"
  "retry_queue_items (sent s) = retry_queue_items s" "notifications (sent s) = notifications s"
  "fallbackBuffers (sent s) = fallbackBuffers s" "stmt_no (sent s) = Suc (stmt_no s)"
  by (simp_all add: sent_def)

lemma sql_eq:
  "sql e f s = (case env_fault e (stmt_no s) of Some x \<Rightarrow> (Inl x, sent s) | None \<Rightarrow> f (stmt_no s) (sent s))"
  by (simp add: sql_def sent_def Let_def split: option.split)

lemma sql_query_eq:
  "sql_query e q s = (case env_fault e (stmt_no s) of Some x \<Rightarrow> (Inl x, sent s) | None \<Rightarrow> (Inr (q (sent s)), sent s))"
  by (simp add: sql_query_def sql_eq)

lemma sql_exec_eq:
  "sql_exec e f s = (case env_fault e (stmt_no s) of Some x \<Rightarrow> (Inl x, sent s)
     | None \<Rightarrow> (Inr (), f (stmt_no s) (sent s)))"
  by (simp add: sql_exec_def sql_eq)

lemma guarded_cases:
  "guarded checks s s' = (Inr (), s') \<and> (\<forall>(ok, x) \<in> set checks. ok) \<or>
   (\<exists>x. guarded checks s s' = (Inl x, s) \<and> (False, x) \<in> set checks)"
  by (auto simp: guarded_def find_None_iff split: option.splits dest!: find_SomeD)

text \<open>What a statement keeps, the operation that sends it keeps.\<close>

lemma sql_keeps:
  "schema_ok s \<Longrightarrow> (\<And>n t. schema_ok t \<Longrightarrow> schema_ok (snd (f n t))) \<Longrightarrow> schema_ok (snd (sql e f s))"
  by (simp add: sql_eq split: option.split)

lemma guarded_keeps:
  "schema_ok s \<Longrightarrow> (\<forall>(ok, x) \<in> set checks. ok \<Longrightarrow> schema_ok s') \<Longrightarrow> schema_ok (snd (guarded checks s s'))"
  using guarded_cases [of checks s s'] by auto

lemma snd_case_result [simp]:
  "snd (case r of (Inl x, s') \<Rightarrow> (f x s', s') | (Inr y, s') \<Rightarrow> (g y s', s')) = snd r"
  by (simp split: prod.split sum.split)

lemmas sql_eqs = sql_eq sql_query_eq sql_exec_eq

text \<open>An environment in which the next \<open>n\<close> statements succeed.\<close>

definition healthy :: "env \<Rightarrow> pg \<Rightarrow> bool" where
  "healthy e s \<longleftrightarrow> (\<forall>n \<ge> stmt_no s. env_fault e n = None \<and> env_rows e n = None)"

lemma healthyD: "healthy e s \<Longrightarrow> stmt_no s \<le> n \<Longrightarrow> env_fault e n = None \<and> env_rows e n = None"
  by (simp add: healthy_def)

end
