(* ===== verification/Postgres_Store.thy ===== *)
theory Postgres_Store
  imports Postgres_Db
begin

text \<open>
  \<open>lib/store/postgresql.go\<close>: users, the scrobble queue with its in-memory fallback, and
  notifications.  An operation maps the state to its result and the new state;
  \<^const>\<open>None\<close> is a panic, or, for \<open>EnqueueScrobble\<close>, a call that needs more than \<open>fuel\<close>
  nested calls.  Log output is not modelled.
\<close>

section \<open>Start-up\<close>

text \<open>The fourteen \<open>CREATE\<close> and \<open>ALTER\<close> statements, each of which panics when it fails, as does opening
  the database.\<close>

primrec run_ddl :: "nat \<Rightarrow> env \<Rightarrow> pg \<Rightarrow> pg option" where
  "run_ddl 0 e s = Some s"
| "run_ddl (Suc k) e s = (case sql_exec e (\<lambda>_ t. t) s of (Inl _, _) \<Rightarrow> None | (Inr _, s') \<Rightarrow> run_ddl k e s')"

definition NewPostgresqlClient :: "err option \<Rightarrow> env \<Rightarrow> pg \<Rightarrow> pg option" where
  "NewPostgresqlClient open_err e db = (if open_err \<noteq> None then None else run_ddl 14 e db)"

definition NewPostgresqlStore :: "pg \<Rightarrow> pg" where
  "NewPostgresqlStore db = db\<lparr>fallbackBuffers := Map.empty\<rparr>"

section \<open>Users\<close>

definition row_of_user :: "env \<Rightarrow> User \<Rightarrow> user_row" where
  "row_of_user e user = \<lparr>u_id = usr_ID user, u_username = Username user, u_access = AccessToken user,
     u_refresh = RefreshToken user, u_display = Some (TraktDisplayName user),
     u_updated = env_timestamptz e (Updated user), u_expiry = Some (env_timestamptz e (TokenExpiry user))\<rparr>"

definition upsert_user :: "user_row \<Rightarrow> pg \<Rightarrow> pg" where
  "upsert_user r s = (if u_id r \<in> u_id ` set (users s)
     then s\<lparr>users := map (\<lambda>x. if u_id x = u_id r then r else x) (users s)\<rparr>
     else s\<lparr>users := users s @ [r]\<rparr>)"

definition WriteUser :: "env \<Rightarrow> User \<Rightarrow> pg \<Rightarrow> pg option" where
  "WriteUser e user s = (case sql_exec e (\<lambda>_. upsert_user (row_of_user e user)) s of
     (Inl _, _) \<Rightarrow> None | (Inr _, s') \<Rightarrow> Some s')"

definition user_of_row :: "user_row \<Rightarrow> User" where
  "user_of_row r =
     (let expiry = u_updated r + 90 * 24 * Hour;
          expiry = (case u_expiry r of Some t \<Rightarrow> t | None \<Rightarrow> expiry)
      in \<lparr>usr_ID = u_id r, Username = ToLower (u_username r), AccessToken = u_access r,
          RefreshToken = u_refresh r,
          TraktDisplayName = (case u_display r of Some d \<Rightarrow> d | None \<Rightarrow> []),
          Updated = u_updated r, TokenExpiry = expiry, has_store = True\<rparr>)"

definition GetUser :: "env \<Rightarrow> string \<Rightarrow> pg \<Rightarrow> (User option \<times> pg) option" where
  "GetUser e uid s = (case sql_query e (\<lambda>t. find (\<lambda>r. u_id r = uid) (users t)) s of
     (Inl _, _) \<Rightarrow> None
   | (Inr None, s') \<Rightarrow> Some (None, s')
   | (Inr (Some r), s') \<Rightarrow> Some (Some (user_of_row r), s'))"

definition GetUserByName :: "env \<Rightarrow> string \<Rightarrow> pg \<Rightarrow> (User option \<times> pg) option" where
  "GetUserByName e username s =
     (let username = ToLower (TrimSpace username) in
      if username = [] then Some (None, s)
      else case sql_query e (\<lambda>t. find (\<lambda>r. ToLower (u_username r) = ToLower username) (users t)) s of
        (Inl _, _) \<Rightarrow> None
      | (Inr None, s') \<Rightarrow> Some (None, s')
      | (Inr (Some r), s') \<Rightarrow> GetUser e (u_id r) s')"

definition DeleteUser :: "env \<Rightarrow> string \<Rightarrow> string \<Rightarrow> pg \<Rightarrow> bool \<times> pg" where
  "DeleteUser e uid username s = (let (r, s') = sql_exec e (\<lambda>_. delete_user uid) s in (is_ok r, s'))"

definition ListUsers :: "env \<Rightarrow> pg \<Rightarrow> (User list \<times> pg) option" where
  "ListUsers e s = (case sql_query e (\<lambda>t. order_desc u_updated (users t)) s of
     (Inl _, _) \<Rightarrow> None
   | (Inr rows, s') \<Rightarrow> (if env_rows e (stmt_no s) \<noteq> None then None else Some (map user_of_row rows, s')))"

text \<open>This store keeps no playback cache: reading yields the zero item, writing nothing.\<close>

definition pg_GetScrobbleBody :: "string \<Rightarrow> string \<Rightarrow> pg \<Rightarrow> CacheItem" where
  "pg_GetScrobbleBody playerUuid ratingKey s = zero_CacheItem"

definition pg_WriteScrobbleBody :: "CacheItem \<Rightarrow> pg \<Rightarrow> pg" where
  "pg_WriteScrobbleBody item s = s"

section \<open>The scrobble queue\<close>

definition maxQueuePerUser :: int where
  "maxQueuePerUser = 1000"

definition fallbackBufferSize :: int where
  "fallbackBufferSize = 100"

definition user_queue :: "string \<Rightarrow> pg \<Rightarrow> queued_row list" where
  "user_queue uid s = filter (\<lambda>r. q_user_id r = uid) (queued_scrobbles s)"

definition GetQueueSize :: "env \<Rightarrow> string \<Rightarrow> pg \<Rightarrow> int result \<times> pg" where
  "GetQueueSize e uid s = (case sql_query e (\<lambda>t. int (length (user_queue uid t))) s of
     (Inl x, s') \<Rightarrow> (Inl (Wrap ''failed to get queue size'' x), s')
   | (Inr n, s') \<Rightarrow> (Inr n, s'))"

text \<open>The \<open>DELETE\<close> of the oldest event of the user.\<close>

definition evict_oldest :: "string \<Rightarrow> pg \<Rightarrow> pg" where
  "evict_oldest uid s =
     (let oldest = map q_id (take 1 (order_asc q_created (user_queue uid s))) in
      s\<lparr>queued_scrobbles := filter (\<lambda>r. q_id r \<notin> set oldest) (queued_scrobbles s)\<rparr>)"

definition row_of_event :: "env \<Rightarrow> QueuedScrobbleEvent \<Rightarrow> queued_row" where
  "row_of_event e ev = \<lparr>q_id = ev_ID ev, q_user_id = ev_UserID ev,
     q_body = ScrobbleBody_MarshalJSON (ev_ScrobbleBody ev), q_action = Action ev,
     q_progress = ev_Progress ev, q_created = env_timestamp e (ev_CreatedAt ev), q_retry = RetryCount ev,
     q_last = (if IsZero (LastAttempt ev) then None else Some (env_timestamp e (LastAttempt ev))),
     q_player = PlayerUUID ev, q_rating = ev_RatingKey ev\<rparr>"

text \<open>\<open>INSERT ... ON CONFLICT (player_uuid, rating_key) DO NOTHING\<close>.\<close>

definition insert_queued :: "queued_row \<Rightarrow> pg \<Rightarrow> unit result \<times> pg" where
  "insert_queued r s =
     (if \<not> queued_check r then (Inl check_violation, s)
      else if queued_key r \<in> queued_key ` set (queued_scrobbles s) then (Inr (), s)
      else guarded [(q_id r \<notin> q_id ` set (queued_scrobbles s), unique_violation),
                    (q_user_id r \<in> u_id ` set (users s), foreign_key_violation)]
             s (s\<lparr>queued_scrobbles := queued_scrobbles s @ [r]\<rparr>))"

definition addToFallbackBuffer :: "string \<Rightarrow> QueuedScrobbleEvent \<Rightarrow> pg \<Rightarrow> pg option" where
  "addToFallbackBuffer uid event s =
     (let buffer = (case fallbackBuffers s uid of Some b \<Rightarrow> b | None \<Rightarrow> NewInMemoryBuffer fallbackBufferSize) in
      map_option (\<lambda>b. s\<lparr>fallbackBuffers := (fallbackBuffers s)(uid \<mapsto> b)\<rparr>) (InMemoryBuffer_Push event buffer))"

text \<open>
  The flush enqueues the buffered events one by one and stops at the first error; only after
  the last one the buffer is cleared and dropped from the map.  The enqueue operation it calls
  is an argument, because that operation calls the flush.
\<close>

primrec flush_events :: "(QueuedScrobbleEvent \<Rightarrow> pg \<Rightarrow> (err option \<times> pg) option) \<Rightarrow>
    QueuedScrobbleEvent list \<Rightarrow> pg \<Rightarrow> (bool \<times> pg) option" where
  "flush_events enqueue [] s = Some (True, s)"
| "flush_events enqueue (ev # evs) s = (case enqueue ev s of
     None \<Rightarrow> None
   | Some (Some _, s') \<Rightarrow> Some (False, s')
   | Some (None, s') \<Rightarrow> flush_events enqueue evs s')"

definition flushFallbackBuffer :: "(QueuedScrobbleEvent \<Rightarrow> pg \<Rightarrow> (err option \<times> pg) option) \<Rightarrow>
    string \<Rightarrow> pg \<Rightarrow> pg option" where
  "flushFallbackBuffer enqueue uid s = (case fallbackBuffers s uid of
     None \<Rightarrow> Some s
   | Some buffer \<Rightarrow> (let events = InMemoryBuffer_GetAll buffer in
       if events = [] then Some s
       else (case flush_events enqueue events s of
           None \<Rightarrow> None
         | Some (False, s') \<Rightarrow> Some s'
         | Some (True, s') \<Rightarrow> Some (s'\<lparr>fallbackBuffers := (fallbackBuffers s')(uid := None)\<rparr>))))"

text \<open>The part of \<open>EnqueueScrobble\<close> before the flush, on an event that has its identifier.\<close>

definition enqueue_checked :: "env \<Rightarrow> QueuedScrobbleEvent \<Rightarrow> pg \<Rightarrow> (err option \<times> pg) option" where
  "enqueue_checked e event s =
     (let (size, s1) = GetQueueSize e (ev_UserID event) s;
          queueSize = (case size of Inr n \<Rightarrow> n | Inl _ \<Rightarrow> 0);
          s2 = (if queueSize \<ge> maxQueuePerUser then snd (sql_exec e (\<lambda>_. evict_oldest (ev_UserID event)) s1) else s1)
      in case sql e (\<lambda>_. insert_queued (row_of_event e event)) s2 of
        (Inl x, s3) \<Rightarrow> map_option (Pair (Some (Wrap ''failed to insert event'' x))) (addToFallbackBuffer (ev_UserID event) event s3)
      | (Inr _, s3) \<Rightarrow> Some (None, s3))"

primrec EnqueueScrobble :: "nat \<Rightarrow> env \<Rightarrow> QueuedScrobbleEvent \<Rightarrow> pg \<Rightarrow> (err option \<times> pg) option" where
  "EnqueueScrobble 0 e event s = None"
| "EnqueueScrobble (Suc fuel) e event s =
     (case (if ev_ID event = [] then generateEventID (env_rand e (stmt_no s)) else Inr (ev_ID event)) of
        Inl x \<Rightarrow> Some (Some (Wrap ''failed to generate event ID'' x), s)
      | Inr eid \<Rightarrow>
          (let event = event\<lparr>ev_ID := eid\<rparr> in
           case validateEvent event of
             Some x \<Rightarrow> Some (Some (Wrap ''invalid event'' x), s)
           | None \<Rightarrow>
               (let event = (if IsZero (ev_CreatedAt event) then event\<lparr>ev_CreatedAt := env_now e (stmt_no s)\<rparr> else event) in
                case enqueue_checked e event s of
                  None \<Rightarrow> None
                | Some (Some x, s') \<Rightarrow> Some (Some x, s')
                | Some (None, s') \<Rightarrow>
                    map_option (Pair None) (flushFallbackBuffer (EnqueueScrobble fuel e) (ev_UserID event) s'))))"

definition event_of_row :: "queued_row \<Rightarrow> ScrobbleBody \<Rightarrow> QueuedScrobbleEvent" where
  "event_of_row r body = \<lparr>ev_ID = q_id r, ev_UserID = q_user_id r, ev_ScrobbleBody = body, Action = q_action r,
     ev_Progress = q_progress r, ev_CreatedAt = q_created r, RetryCount = q_retry r,
     LastAttempt = (case q_last r of Some t \<Rightarrow> t | None \<Rightarrow> 0), PlayerUUID = q_player r, ev_RatingKey = q_rating r\<rparr>"

text \<open>Rows whose body does not decode are skipped; the document null makes the decoder panic.\<close>

fun scan_events :: "queued_row list \<Rightarrow> QueuedScrobbleEvent list option" where
  "scan_events [] = Some []"
| "scan_events (r # rows) = (case ScrobbleBody_UnmarshalJSON (q_body r) zero_Body of
     DecPanic \<Rightarrow> None
   | DecErr \<Rightarrow> scan_events rows
   | DecOk body \<Rightarrow> map_option (Cons (event_of_row r body)) (scan_events rows))"

definition DequeueScrobbles :: "env \<Rightarrow> string \<Rightarrow> int \<Rightarrow> pg \<Rightarrow> (QueuedScrobbleEvent list result \<times> pg) option" where
  "DequeueScrobbles e uid limit s =
     (case sql e (\<lambda>_ t. (if limit < 0 then Inl (SqlError ''2201W'')
                         else Inr (take (nat limit) (order_asc q_created (user_queue uid t))), t)) s of
        (Inl x, s') \<Rightarrow> Some (Inl (Wrap ''failed to query queued events'' x), s')
      | (Inr rows, s') \<Rightarrow> (case scan_events rows of
            None \<Rightarrow> None
          | Some events \<Rightarrow> (case env_rows e (stmt_no s) of
                Some x \<Rightarrow> Some (Inl (Wrap ''error iterating rows'' x), s')
              | None \<Rightarrow> Some (Inr events, s'))))"

definition DeleteQueuedScrobble :: "env \<Rightarrow> string \<Rightarrow> pg \<Rightarrow> err option \<times> pg" where
  "DeleteQueuedScrobble e eventID s =
     (case sql_exec e (\<lambda>_ t. t\<lparr>queued_scrobbles := filter (\<lambda>r. q_id r \<noteq> eventID) (queued_scrobbles t)\<rparr>) s of
        (Inl x, s') \<Rightarrow> (Some (Wrap ''failed to delete queued event'' x), s')
      | (Inr _, s') \<Rightarrow> (None, s'))"

definition set_retry :: "string \<Rightarrow> int \<Rightarrow> gotime \<Rightarrow> pg \<Rightarrow> unit result \<times> pg" where
  "set_retry eventID retryCount t s =
     (let rows = map (\<lambda>r. if q_id r = eventID then r\<lparr>q_retry := retryCount, q_last := Some t\<rparr> else r) (queued_scrobbles s)
      in guarded [(list_all queued_check rows, check_violation)] s (s\<lparr>queued_scrobbles := rows\<rparr>))"

definition UpdateQueuedScrobbleRetry :: "env \<Rightarrow> string \<Rightarrow> int \<Rightarrow> pg \<Rightarrow> err option \<times> pg" where
  "UpdateQueuedScrobbleRetry e eventID retryCount s =
     (case sql e (\<lambda>_. set_retry eventID retryCount (env_timestamp e (env_now e (stmt_no s)))) s of
        (Inl x, s') \<Rightarrow> (Some (Wrap ''failed to update retry count'' x), s')
      | (Inr _, s') \<Rightarrow> (None, s'))"

definition GetQueueStatus :: "env \<Rightarrow> string \<Rightarrow> pg \<Rightarrow> (QueueStatus \<times> err option) \<times> pg" where
  "GetQueueStatus e uid s =
     (let status = \<lparr>QSUserID = uid, QSQueueSize = 0, OldestEventAge = 0, Mode = ''live'', LastHealthCheck = 0,
                    LastSuccessfulSync = 0, DrainActive = False, EventsProcessed = 0, EventsFailed = 0\<rparr>
      in case GetQueueSize e uid s of
        (Inl x, s') \<Rightarrow> ((status, Some x), s')
      | (Inr queueSize, s') \<Rightarrow>
          (let status = status\<lparr>QSQueueSize := queueSize\<rparr> in
           if queueSize > 0
           then (case sql_query e (\<lambda>t. take 1 (order_asc q_created (user_queue uid t))) s' of
                   (Inr (r # _), s'') \<Rightarrow> ((status\<lparr>OldestEventAge := env_now e (stmt_no s'') - q_created r\<rparr>, None), s'')
                 | (_, s'') \<Rightarrow> ((status, None), s''))
           else ((status, None), s')))"

definition ListUsersWithQueuedEvents :: "env \<Rightarrow> pg \<Rightarrow> string list result \<times> pg" where
  "ListUsersWithQueuedEvents e s =
     (case sql_query e (\<lambda>t. remdups (map q_user_id (queued_scrobbles t))) s of
        (Inl x, s') \<Rightarrow> (Inl (Wrap ''failed to list users with queued events'' x), s')
      | (Inr ids, s') \<Rightarrow> (case env_rows e (stmt_no s) of
            Some x \<Rightarrow> (Inl (Wrap ''error iterating rows'' x), s')
          | None \<Rightarrow> (Inr ids, s')))"

definition PurgeQueueForUser :: "env \<Rightarrow> string \<Rightarrow> pg \<Rightarrow> int result \<times> pg" where
  "PurgeQueueForUser e uid s = (case GetQueueSize e uid s of
     (Inl x, s') \<Rightarrow> (Inl x, s')
   | (Inr queueSize, s') \<Rightarrow>
       (case sql_exec e (\<lambda>_ t. t\<lparr>queued_scrobbles := filter (\<lambda>r. q_user_id r \<noteq> uid) (queued_scrobbles t)\<rparr>) s' of
          (Inl x, s'') \<Rightarrow> (Inl (Wrap ''failed to purge queue'' x), s'')
        | (Inr _, s'') \<Rightarrow> (Inr queueSize, s'')))"

section \<open>Notifications\<close>

definition notif_refs_ok :: "notif_row \<Rightarrow> pg \<Rightarrow> bool" where
  "notif_refs_ok r s \<longleftrightarrow> n_group r \<in> fg_ID ` set (family_groups s) \<and>
     (\<forall>m \<in> set_option (n_member r). m \<in> m_id ` set (group_members s))"

definition insert_notification :: "notif_row \<Rightarrow> pg \<Rightarrow> unit result \<times> pg" where
  "insert_notification r s =
     guarded [(n_id r \<notin> n_id ` set (notifications s), unique_violation), (notif_refs_ok r s, foreign_key_violation)]
       s (s\<lparr>notifications := notifications s @ [r]\<rparr>)"

text \<open>The metadata bytes are sent when there are any; JSON the server refuses is an error.\<close>

definition notification_stmt :: "env \<Rightarrow> Notification \<Rightarrow> nat \<Rightarrow> pg \<Rightarrow> unit result \<times> pg" where
  "notification_stmt e n k t =
     (let metadata = (if nt_Metadata n \<noteq> [] then Some (nt_Metadata n) else None) in
      case (case metadata of None \<Rightarrow> Some None | Some m \<Rightarrow> map_option Some (env_jsonb e m)) of
        None \<Rightarrow> (Inl (SqlError ''22P02''), t)
      | Some doc \<Rightarrow> insert_notification \<lparr>n_id = nt_ID n, n_group = nt_FamilyGroupID n,
          n_member = nt_GroupMemberID n, n_type = nt_Type n, n_message = nt_Message n, n_metadata = doc,
          n_dismissed = Dismissed n, n_created = env_timestamp e (nt_CreatedAt n)\<rparr> t)"

definition CreateNotification :: "env \<Rightarrow> Notification \<Rightarrow> pg \<Rightarrow> (err option \<times> Notification) \<times> pg" where
  "CreateNotification e n s = (case Notification_Validate n of
     Some x \<Rightarrow> ((Some x, n), s)
   | None \<Rightarrow>
       (let n = (if IsZero (nt_CreatedAt n) then n\<lparr>nt_CreatedAt := env_now e (stmt_no s)\<rparr> else n)
        in case sql e (notification_stmt e n) s of
             (Inl x, s') \<Rightarrow> ((Some (Wrap ''failed to create notification'' x), n), s')
           | (Inr _, s') \<Rightarrow> ((None, n), s')))"

definition notification_of_row :: "notif_row \<Rightarrow> Notification" where
  "notification_of_row r = \<lparr>nt_ID = n_id r, nt_FamilyGroupID = n_group r, nt_GroupMemberID = n_member r,
     nt_Type = n_type r, nt_Message = n_message r,
     nt_Metadata = (case n_metadata r of Some m \<Rightarrow> m | None \<Rightarrow> []), Dismissed = n_dismissed r,
     nt_CreatedAt = n_created r\<rparr>"

definition GetNotifications :: "env \<Rightarrow> string \<Rightarrow> bool \<Rightarrow> pg \<Rightarrow> Notification list result \<times> pg" where
  "GetNotifications e familyGroupID includeDismissed s =
     (case sql_query e (\<lambda>t. order_desc n_created
         (filter (\<lambda>r. n_group r = familyGroupID \<and> (includeDismissed \<or> \<not> n_dismissed r)) (notifications t))) s of
        (Inl x, s') \<Rightarrow> (Inl (Wrap ''failed to query notifications'' x), s')
      | (Inr rows, s') \<Rightarrow> (case env_rows e (stmt_no s) of
            Some x \<Rightarrow> (Inl (Wrap ''error iterating rows'' x), s')
          | None \<Rightarrow> (Inr (map notification_of_row rows), s')))"

definition DismissNotification :: "env \<Rightarrow> string \<Rightarrow> pg \<Rightarrow> err option \<times> pg" where
  "DismissNotification e notificationID s =
     (case sql e (\<lambda>_ t. (Inr (length (filter (\<lambda>r. n_id r = notificationID) (notifications t))),
         t\<lparr>notifications := map (\<lambda>r. if n_id r = notificationID then r\<lparr>n_dismissed := True\<rparr> else r) (notifications t)\<rparr>)) s of
        (Inl x, s') \<Rightarrow> (Some (Wrap ''failed to dismiss notification'' x), s')
      | (Inr rowsAffected, s') \<Rightarrow> (if rowsAffected = 0 then Some ErrNotificationNotFound else None, s'))"

definition DeleteNotification :: "env \<Rightarrow> string \<Rightarrow> pg \<Rightarrow> err option \<times> pg" where
  "DeleteNotification e notificationID s =
     (case sql e (\<lambda>_ t. (Inr (length (filter (\<lambda>r. n_id r = notificationID) (notifications t))),
         t\<lparr>notifications := filter (\<lambda>r. n_id r \<noteq> notificationID) (notifications t)\<rparr>)) s of
        (Inl x, s') \<Rightarrow> (Some (Wrap ''failed to delete notification'' x), s')
      | (Inr rowsAffected, s') \<Rightarrow> (if rowsAffected = 0 then Some ErrNotificationNotFound else None, s'))"

section \<open>Every operation respects the schema\<close>

lemma schema_upsert: "schema_ok s \<Longrightarrow> schema_ok (upsert_user r s)"
proof -
  assume ok: "schema_ok s"
  let ?us = "map (\<lambda>x. if u_id x = u_id r then r else x) (users s)"
  have ids: "map u_id (map (\<lambda>x. if u_id x = u_id r then r else x) xs) = map u_id xs" for xs
    by (induction xs) auto
  then have "u_id ` set ?us = u_id ` set (users s)" by (metis list.set_map)
  with ok ids [of "users s"] have "schema_ok (s\<lparr>users := ?us\<rparr>)"
    by (simp add: schema_ok_def table_ok_defs del: map_map set_map)
  moreover have "schema_ok (s\<lparr>users := users s @ [r]\<rparr>)" if "u_id r \<notin> u_id ` set (users s)"
    using ok that by (auto simp: schema_ok_def table_ok_defs)
  ultimately show ?thesis by (simp add: upsert_user_def)
qed

lemma schema_WriteUser: "schema_ok s \<Longrightarrow> WriteUser e u s = Some s' \<Longrightarrow> schema_ok s'"
  by (auto simp: WriteUser_def sql_eqs schema_upsert split: option.splits)

lemma schema_DeleteUser: "schema_ok s \<Longrightarrow> schema_ok (snd (DeleteUser e i n s))"
  by (auto simp: DeleteUser_def sql_eqs schema_delete_user split: option.splits)

lemma schema_evict: "schema_ok s \<Longrightarrow> schema_ok (evict_oldest i s)"
  by (simp add: evict_oldest_def schema_filter_queue)

lemma schema_insert_queued: "schema_ok s \<Longrightarrow> schema_ok (snd (insert_queued r s))"
  unfolding insert_queued_def
  by (auto intro!: guarded_keeps) (auto simp: schema_ok_def table_ok_defs)

lemma schema_fallback: "schema_ok s \<Longrightarrow> addToFallbackBuffer i ev s = Some s' \<Longrightarrow> schema_ok s'"
  by (auto simp: addToFallbackBuffer_def Let_def)

lemma GetQueueSize_eq:
  "GetQueueSize e i s = (case env_fault e (stmt_no s) of
     Some x \<Rightarrow> (Inl (Wrap ''failed to get queue size'' x), sent s)
   | None \<Rightarrow> (Inr (int (length (user_queue i s))), sent s))"
  by (simp add: GetQueueSize_def sql_eqs user_queue_def split: option.splits)

lemma snd_GetQueueSize [simp]: "snd (GetQueueSize e i s) = sent s"
  by (simp add: GetQueueSize_eq split: option.splits)

text \<open>The state in which the insertion is sent: the queue was measured and perhaps trimmed.\<close>

definition trimmed :: "env \<Rightarrow> string \<Rightarrow> pg \<Rightarrow> pg" where
  "trimmed e uid s =
     (if env_fault e (stmt_no s) = None \<and> int (length (user_queue uid s)) \<ge> maxQueuePerUser
      then snd (sql_exec e (\<lambda>_. evict_oldest uid) (sent s)) else sent s)"

lemma enqueue_checked_eq:
  "enqueue_checked e ev s =
     (case sql e (\<lambda>_. insert_queued (row_of_event e ev)) (trimmed e (ev_UserID ev) s) of
        (Inl x, s') \<Rightarrow> map_option (Pair (Some (Wrap ''failed to insert event'' x))) (addToFallbackBuffer (ev_UserID ev) ev s')
      | (Inr _, s') \<Rightarrow> Some (None, s'))"
  by (simp add: enqueue_checked_def trimmed_def GetQueueSize_eq maxQueuePerUser_def Let_def split: option.splits)

lemma schema_trimmed: "schema_ok s \<Longrightarrow> schema_ok (trimmed e i s)"
  by (simp add: trimmed_def sql_eqs schema_evict split: option.splits)

lemma schema_enqueue_checked:
  assumes "schema_ok s" and "enqueue_checked e ev s = Some (x, s')"
  shows "schema_ok s'"
proof -
  have "schema_ok (snd (sql e (\<lambda>_. insert_queued (row_of_event e ev)) (trimmed e (ev_UserID ev) s)))"
    by (intro sql_keeps schema_trimmed assms schema_insert_queued)
  with assms(2) show ?thesis
    unfolding enqueue_checked_eq by (auto dest: schema_fallback split: prod.splits sum.splits)
qed

lemma schema_flush:
  assumes "\<And>ev s x s'. schema_ok s \<Longrightarrow> enqueue ev s = Some (x, s') \<Longrightarrow> schema_ok s'"
  shows "schema_ok s \<Longrightarrow> flush_events enqueue evs s = Some (b, s') \<Longrightarrow> schema_ok s'"
proof (induction evs arbitrary: s)
  case (Cons ev evs)
  from Cons.prems obtain x t where t: "enqueue ev s = Some (x, t)"
    by (auto split: option.splits)
  with assms Cons.prems(1) have "schema_ok t" by blast
  with t Cons show ?case by (cases x) auto
qed simp

lemma schema_flushFallbackBuffer:
  assumes enq: "\<And>ev s x s'. schema_ok s \<Longrightarrow> enqueue ev s = Some (x, s') \<Longrightarrow> schema_ok s'"
    and "schema_ok s" "flushFallbackBuffer enqueue i s = Some s'"
  shows "schema_ok s'"
proof (cases "fallbackBuffers s i")
  case (Some b)
  show ?thesis
  proof (cases "flush_events enqueue (InMemoryBuffer_GetAll b) s")
    case f: (Some r)
    then have "schema_ok (snd r)"
      using schema_flush [of enqueue s _ "fst r" "snd r", OF enq assms(2)] by simp
    with f Some assms(2,3) show ?thesis
      by (cases r) (auto simp: flushFallbackBuffer_def Let_def split: if_splits bool.splits)
  qed (use Some assms(2,3) in \<open>auto simp: flushFallbackBuffer_def Let_def split: if_splits\<close>)
qed (use assms(2,3) in \<open>simp add: flushFallbackBuffer_def\<close>)

text \<open>
  One call of \<open>EnqueueScrobble\<close>: refused with an error before anything happened, or the
  checked event goes to the database and, when that succeeded, the buffer is flushed.
\<close>

definition prepared :: "env \<Rightarrow> QueuedScrobbleEvent \<Rightarrow> pg \<Rightarrow> QueuedScrobbleEvent result" where
  "prepared e event s =
     (case (if ev_ID event = [] then generateEventID (env_rand e (stmt_no s)) else Inr (ev_ID event)) of
        Inl x \<Rightarrow> Inl (Wrap ''failed to generate event ID'' x)
      | Inr eid \<Rightarrow> (case validateEvent (event\<lparr>ev_ID := eid\<rparr>) of
          Some x \<Rightarrow> Inl (Wrap ''invalid event'' x)
        | None \<Rightarrow> Inr (event\<lparr>ev_ID := eid, ev_CreatedAt :=
              (if IsZero (ev_CreatedAt event) then env_now e (stmt_no s) else ev_CreatedAt event)\<rparr>)))"

lemma EnqueueScrobble_eq:
  "EnqueueScrobble (Suc fuel) e event s = (case prepared e event s of
     Inl x \<Rightarrow> Some (Some x, s)
   | Inr ev \<Rightarrow> (case enqueue_checked e ev s of
        None \<Rightarrow> None
      | Some (Some x, s') \<Rightarrow> Some (Some x, s')
      | Some (None, s') \<Rightarrow> map_option (Pair None) (flushFallbackBuffer (EnqueueScrobble fuel e) (ev_UserID ev) s')))"
  by (auto simp: prepared_def Let_def split: sum.split option.split)

declare EnqueueScrobble.simps(2) [simp del]

lemma schema_EnqueueScrobble:
  "schema_ok s \<Longrightarrow> EnqueueScrobble fuel e ev s = Some (x, s') \<Longrightarrow> schema_ok s'"
proof (induction fuel arbitrary: ev s x s')
  case (Suc fuel)
  show ?case
  proof (cases "prepared e ev s")
    case (Inr ev')
    with Suc.prems obtain y t where t: "enqueue_checked e ev' s = Some (y, t)"
      by (auto simp: EnqueueScrobble_eq split: option.splits)
    with Suc.prems(1) have "schema_ok t" by (rule schema_enqueue_checked)
    with t Inr Suc.prems(2) show ?thesis
      by (cases y) (auto simp: EnqueueScrobble_eq intro: schema_flushFallbackBuffer [OF Suc.IH])
  qed (use Suc.prems in \<open>simp add: EnqueueScrobble_eq\<close>)
qed simp

lemma schema_DequeueScrobbles:
  "schema_ok s \<Longrightarrow> DequeueScrobbles e i l s = Some (r, s') \<Longrightarrow> schema_ok s'"
  by (auto simp: DequeueScrobbles_def sql_eqs split: option.splits if_splits)

lemma schema_DeleteQueuedScrobble: "schema_ok s \<Longrightarrow> schema_ok (snd (DeleteQueuedScrobble e i s))"
  using schema_filter_queue [of "sent s"] by (auto simp: DeleteQueuedScrobble_def sql_eqs split: option.splits)

lemma schema_set_retry: "schema_ok s \<Longrightarrow> schema_ok (snd (set_retry i n t s))"
proof -
  assume ok: "schema_ok s"
  let ?rows = "map (\<lambda>r. if q_id r = i then r\<lparr>q_retry := n, q_last := Some t\<rparr> else r) (queued_scrobbles s)"
  have keys: "map q_id ?rows = map q_id (queued_scrobbles s)" "map queued_key ?rows = map queued_key (queued_scrobbles s)"
    and "map q_user_id ?rows = map q_user_id (queued_scrobbles s)"
    by (simp_all add: queued_key_def)
  then have "q_user_id ` set ?rows = q_user_id ` set (queued_scrobbles s)" by (metis list.set_map)
  with ok keys have "list_all queued_check ?rows \<Longrightarrow> schema_ok (s\<lparr>queued_scrobbles := ?rows\<rparr>)"
    by (simp add: schema_ok_def table_ok_defs del: map_map set_map)
  with ok show ?thesis unfolding set_retry_def Let_def by (auto intro: guarded_keeps)
qed

lemma schema_UpdateQueuedScrobbleRetry:
  "schema_ok s \<Longrightarrow> schema_ok (snd (UpdateQueuedScrobbleRetry e i n s))"
proof -
  have "snd (UpdateQueuedScrobbleRetry e i n s) =
      snd (sql e (\<lambda>_. set_retry i n (env_timestamp e (env_now e (stmt_no s)))) s)"
    by (simp add: UpdateQueuedScrobbleRetry_def split: prod.splits sum.splits)
  then show "schema_ok s \<Longrightarrow> ?thesis" by (simp add: sql_keeps schema_set_retry)
qed

lemma schema_PurgeQueueForUser: "schema_ok s \<Longrightarrow> schema_ok (snd (PurgeQueueForUser e i s))"
  using schema_filter_queue [of "sent (sent s)"]
  by (auto simp: PurgeQueueForUser_def GetQueueSize_eq sql_eqs split: option.splits)

lemma schema_insert_notification: "schema_ok s \<Longrightarrow> schema_ok (snd (insert_notification r s))"
  unfolding insert_notification_def
  by (rule guarded_keeps) (auto simp: notif_refs_ok_def schema_ok_def table_ok_defs)

lemma schema_notification_stmt: "schema_ok t \<Longrightarrow> schema_ok (snd (notification_stmt e n k t))"
  by (simp add: notification_stmt_def schema_insert_notification Let_def split: option.splits)

lemma schema_CreateNotification:
  assumes "schema_ok s"
  shows "schema_ok (snd (CreateNotification e n s))"
proof (cases "Notification_Validate n")
  case None
  define n' where "n' = (if IsZero (nt_CreatedAt n) then n\<lparr>nt_CreatedAt := env_now e (stmt_no s)\<rparr> else n)"
  with None have "snd (CreateNotification e n s) = snd (sql e (notification_stmt e n') s)"
    by (simp add: CreateNotification_def Let_def flip: n'_def split: prod.split sum.split)
  with sql_keeps [OF assms schema_notification_stmt] show ?thesis by simp
qed (use assms in \<open>simp add: CreateNotification_def\<close>)

lemma schema_DismissNotification: "schema_ok s \<Longrightarrow> schema_ok (snd (DismissNotification e i s))"
  using schema_map_notifs [of "\<lambda>r. if n_id r = i then r\<lparr>n_dismissed := True\<rparr> else r" "sent s"]
  by (simp add: DismissNotification_def sql_eqs split: option.splits)

lemma schema_DeleteNotification: "schema_ok s \<Longrightarrow> schema_ok (snd (DeleteNotification e i s))"
  using schema_filter_notifs [of "sent s"] by (auto simp: DeleteNotification_def sql_eqs split: option.splits)

end
