(* ===== verification/Postgres_Family.thy ===== *)
theory Postgres_Family
  imports Postgres_Store
begin

text \<open>
  \<open>lib/store/postgresql_family.go\<close>: family groups, their members and the durable retry queue
  in PostgreSQL.  Operations that update their argument through a pointer return the updated
  record next to the error; a nil pointer is \<^const>\<open>None\<close>.
\<close>

text \<open>\<open>uuid()\<close> with the random bytes at hand.\<close>

definition new_uuid :: "env \<Rightarrow> pg \<Rightarrow> string" where
  "new_uuid e s = uuid (case env_rand e (stmt_no s) of Inr b \<Rightarrow> Some b | Inl _ \<Rightarrow> None) (env_stamp e (stmt_no s))"

section \<open>Family groups\<close>

definition insert_group :: "FamilyGroup \<Rightarrow> pg \<Rightarrow> unit result \<times> pg" where
  "insert_group g s = guarded
     [(fg_ID g \<notin> fg_ID ` set (family_groups s) \<and> PlexUsername g \<notin> PlexUsername ` set (family_groups s), unique_violation)]
     s (s\<lparr>family_groups := family_groups s @ [g]\<rparr>)"

definition CreateFamilyGroup :: "env \<Rightarrow> FamilyGroup option \<Rightarrow> pg \<Rightarrow> (err option \<times> FamilyGroup option) \<times> pg" where
  "CreateFamilyGroup e p s = (case FamilyGroup_Validate p of
     (Some x, p') \<Rightarrow> ((Some x, p'), s)
   | (None, None) \<Rightarrow> ((Some ErrInvalidFamilyGroup, None), s)
   | (None, Some g) \<Rightarrow>
       (let g = (if fg_ID g = [] then g\<lparr>fg_ID := new_uuid e s\<rparr> else g);
            stamp = env_timestamp e (env_dbnow e (stmt_no s));
            stored = g\<lparr>fg_CreatedAt := stamp, fg_UpdatedAt := stamp\<rparr>
        in case sql e (\<lambda>_. insert_group stored) s of
             (Inl x, s') \<Rightarrow> ((Some (if x = unique_violation then ErrDuplicateFamilyGroup else x), Some g), s')
           | (Inr _, s') \<Rightarrow> ((None, Some stored), s')))"

definition GetFamilyGroup :: "env \<Rightarrow> string \<Rightarrow> pg \<Rightarrow> FamilyGroup result \<times> pg" where
  "GetFamilyGroup e groupID s = (let groupID = TrimSpace groupID in
     if groupID = [] then (Inl ErrFamilyGroupNotFound, s)
     else case sql_query e (\<lambda>t. find (\<lambda>g. fg_ID g = groupID) (family_groups t)) s of
       (Inl x, s') \<Rightarrow> (Inl x, s')
     | (Inr None, s') \<Rightarrow> (Inl ErrFamilyGroupNotFound, s')
     | (Inr (Some g), s') \<Rightarrow> (Inr g, s'))"

definition GetFamilyGroupByPlex :: "env \<Rightarrow> string \<Rightarrow> pg \<Rightarrow> FamilyGroup result \<times> pg" where
  "GetFamilyGroupByPlex e plexUsername s = (let plexUsername = TrimSpace (ToLower plexUsername) in
     if plexUsername = [] then (Inl ErrFamilyGroupNotFound, s)
     else case sql_query e (\<lambda>t. find (\<lambda>g. PlexUsername g = plexUsername) (family_groups t)) s of
       (Inl x, s') \<Rightarrow> (Inl x, s')
     | (Inr None, s') \<Rightarrow> (Inl ErrFamilyGroupNotFound, s')
     | (Inr (Some g), s') \<Rightarrow> (Inr g, s'))"

definition ListFamilyGroups :: "env \<Rightarrow> pg \<Rightarrow> FamilyGroup list result \<times> pg" where
  "ListFamilyGroups e s = (case sql_query e (\<lambda>t. order_asc fg_CreatedAt (family_groups t)) s of
     (Inl x, s') \<Rightarrow> (Inl x, s')
   | (Inr rows, s') \<Rightarrow> (case env_rows e (stmt_no s) of Some x \<Rightarrow> (Inl x, s') | None \<Rightarrow> (Inr rows, s')))"

definition DeleteFamilyGroup :: "env \<Rightarrow> string \<Rightarrow> pg \<Rightarrow> err option \<times> pg" where
  "DeleteFamilyGroup e groupID s = (let groupID = TrimSpace groupID in
     if groupID = [] then (Some ErrFamilyGroupNotFound, s)
     else case sql e (\<lambda>_ t. (Inr (length (filter (\<lambda>g. fg_ID g = groupID) (family_groups t))), delete_group groupID t)) s of
       (Inl x, s') \<Rightarrow> (Some x, s')
     | (Inr affected, s') \<Rightarrow> (if affected = 0 then Some ErrFamilyGroupNotFound else None, s'))"

section \<open>Group members\<close>

text \<open>The preparation \<open>AddGroupMember\<close> and \<open>UpdateGroupMember\<close> share.\<close>

definition default_status :: "GroupMember \<Rightarrow> GroupMember" where
  "default_status m = (if AuthorizationStatus m = [] then m\<lparr>AuthorizationStatus := GroupMemberStatusPending\<rparr> else m)"

definition lower_trakt :: "GroupMember \<Rightarrow> GroupMember" where
  "lower_trakt m = (if TraktUsername m \<noteq> [] then m\<lparr>TraktUsername := ToLower (TraktUsername m)\<rparr> else m)"

definition row_of_member :: "env \<Rightarrow> GroupMember \<Rightarrow> gotime \<Rightarrow> member_row" where
  "row_of_member e m created = \<lparr>m_id = gm_ID m, m_group = gm_FamilyGroupID m, m_label = TempLabel m,
     m_trakt = nullableString (TraktUsername m), m_access = nullableString (gm_AccessToken m),
     m_refresh = nullableString (gm_RefreshToken m), m_expiry = nullableTime e (gm_TokenExpiry m),
     m_status = AuthorizationStatus m, m_created = created\<rparr>"

definition insert_member :: "member_row \<Rightarrow> pg \<Rightarrow> unit result \<times> pg" where
  "insert_member r s = guarded
     [(m_id r \<notin> m_id ` set (group_members s), unique_violation),
      (m_group r \<in> fg_ID ` set (family_groups s), foreign_key_violation)]
     s (s\<lparr>group_members := group_members s @ [r]\<rparr>)"

definition AddGroupMember :: "env \<Rightarrow> GroupMember option \<Rightarrow> pg \<Rightarrow> (err option \<times> GroupMember option) \<times> pg" where
  "AddGroupMember e p s = (case p of
     None \<Rightarrow> ((Some (ErrInvalidGroupMember []), None), s)
   | Some m0 \<Rightarrow>
       (let m = default_status m0;
            m = (if gm_ID m = [] then m\<lparr>gm_ID := new_uuid e s\<rparr> else m);
            m = lower_trakt m
        in case GroupMember_Validate (Some m) of
          (Some x, m') \<Rightarrow> ((Some x, m'), s)
        | (None, None) \<Rightarrow> ((Some (ErrInvalidGroupMember []), None), s)
        | (None, Some m) \<Rightarrow>
            (let created = env_timestamp e (env_dbnow e (stmt_no s)) in
             case sql e (\<lambda>_. insert_member (row_of_member e m created)) s of
               (Inl x, s') \<Rightarrow> ((Some (if x = foreign_key_violation then ErrFamilyGroupNotFound
                                     else if x = unique_violation then ErrDuplicateGroupMember else x), Some m), s')
             | (Inr _, s') \<Rightarrow> ((None, Some (m\<lparr>gm_CreatedAt := created\<rparr>)), s'))))"

definition GetGroupMember :: "env \<Rightarrow> string \<Rightarrow> pg \<Rightarrow> GroupMember result \<times> pg" where
  "GetGroupMember e memberID s = (let memberID = TrimSpace memberID in
     if memberID = [] then (Inl ErrGroupMemberNotFound, s)
     else case sql_query e (\<lambda>t. find (\<lambda>r. m_id r = memberID) (group_members t)) s of
       (Inl x, s') \<Rightarrow> (Inl x, s')
     | (Inr None, s') \<Rightarrow> (Inl ErrGroupMemberNotFound, s')
     | (Inr (Some r), s') \<Rightarrow> (Inr (scanGroupMemberRow r), s'))"

definition update_member :: "env \<Rightarrow> GroupMember \<Rightarrow> member_row \<Rightarrow> member_row" where
  "update_member e m r = (if m_id r = gm_ID m
     then r\<lparr>m_label := TempLabel m, m_trakt := nullableString (TraktUsername m),
            m_access := nullableString (gm_AccessToken m), m_refresh := nullableString (gm_RefreshToken m),
            m_expiry := nullableTime e (gm_TokenExpiry m), m_status := AuthorizationStatus m\<rparr>
     else r)"

definition UpdateGroupMember :: "env \<Rightarrow> GroupMember option \<Rightarrow> pg \<Rightarrow> (err option \<times> GroupMember option) \<times> pg" where
  "UpdateGroupMember e p s = (case p of
     None \<Rightarrow> ((Some (ErrInvalidGroupMember []), None), s)
   | Some m0 \<Rightarrow>
       (case GroupMember_Validate (Some (lower_trakt (default_status m0))) of
          (Some x, m') \<Rightarrow> ((Some x, m'), s)
        | (None, None) \<Rightarrow> ((Some (ErrInvalidGroupMember []), None), s)
        | (None, Some m) \<Rightarrow>
            (case sql e (\<lambda>_ t. (Inr (length (filter (\<lambda>r. m_id r = gm_ID m) (group_members t))),
                 t\<lparr>group_members := map (update_member e m) (group_members t)\<rparr>)) s of
               (Inl x, s') \<Rightarrow> ((Some (if x = unique_violation then ErrDuplicateGroupMember else x), Some m), s')
             | (Inr affected, s') \<Rightarrow> ((if affected = 0 then Some ErrGroupMemberNotFound else None, Some m), s'))))"

definition RemoveGroupMember :: "env \<Rightarrow> string \<Rightarrow> string \<Rightarrow> pg \<Rightarrow> err option \<times> pg" where
  "RemoveGroupMember e groupID memberID s =
     (let groupID = TrimSpace groupID; memberID = TrimSpace memberID in
      if groupID = [] \<or> memberID = [] then (Some ErrGroupMemberNotFound, s)
      else case sql e (\<lambda>_ t. (Inr (length (filter (\<lambda>r. m_group r = groupID \<and> m_id r = memberID) (group_members t))),
          delete_members (\<lambda>r. m_group r = groupID \<and> m_id r = memberID) t)) s of
        (Inl x, s') \<Rightarrow> (Some x, s')
      | (Inr affected, s') \<Rightarrow> (if affected = 0 then Some ErrGroupMemberNotFound else None, s'))"

definition ListGroupMembers :: "env \<Rightarrow> string \<Rightarrow> pg \<Rightarrow> GroupMember list result \<times> pg" where
  "ListGroupMembers e groupID s = (let groupID = TrimSpace groupID in
     if groupID = [] then (Inl ErrFamilyGroupNotFound, s)
     else case sql_query e (\<lambda>t. order_asc m_created (filter (\<lambda>r. m_group r = groupID) (group_members t))) s of
       (Inl x, s') \<Rightarrow> (Inl x, s')
     | (Inr rows, s') \<Rightarrow> (case env_rows e (stmt_no s) of
           Some x \<Rightarrow> (Inl x, s') | None \<Rightarrow> (Inr (map scanGroupMemberRow rows), s')))"

definition GetGroupMemberByTrakt :: "env \<Rightarrow> string \<Rightarrow> string \<Rightarrow> pg \<Rightarrow> GroupMember result \<times> pg" where
  "GetGroupMemberByTrakt e groupID traktUsername s =
     (let groupID = TrimSpace groupID; traktUsername = TrimSpace (ToLower traktUsername) in
      if groupID = [] \<or> traktUsername = [] then (Inl ErrGroupMemberNotFound, s)
      else case sql_query e (\<lambda>t. find (\<lambda>r. m_group r = groupID \<and> m_trakt r = Some traktUsername) (group_members t)) s of
        (Inl x, s') \<Rightarrow> (Inl x, s')
      | (Inr None, s') \<Rightarrow> (Inl ErrGroupMemberNotFound, s')
      | (Inr (Some r), s') \<Rightarrow> (Inr (scanGroupMemberRow r), s'))"

section \<open>The retry queue\<close>

text \<open>\<open>attempt_count\<close> is a \<open>SMALLINT\<close>: a value outside 16 bits is refused.\<close>

definition smallint :: "int \<Rightarrow> bool" where
  "smallint n \<longleftrightarrow> - 32768 \<le> n \<and> n \<le> 32767"

definition insert_retry :: "retry_row \<Rightarrow> pg \<Rightarrow> unit result \<times> pg" where
  "insert_retry r s = guarded
     [(smallint (r_attempt r), SqlError ''22003''),
      (r_id r \<notin> r_id ` set (retry_queue_items s), unique_violation),
      (r_group r \<in> fg_ID ` set (family_groups s) \<and> r_member r \<in> m_id ` set (group_members s), foreign_key_violation)]
     s (s\<lparr>retry_queue_items := retry_queue_items s @ [r]\<rparr>)"

definition retry_stmt :: "env \<Rightarrow> RetryQueueItem \<Rightarrow> gotime \<Rightarrow> nat \<Rightarrow> pg \<Rightarrow> unit result \<times> pg" where
  "retry_stmt e item stamp k t = (case env_jsonb e (Payload item) of
     None \<Rightarrow> (Inl (SqlError ''22P02''), t)
   | Some doc \<Rightarrow> insert_retry \<lparr>r_id = rq_ID item, r_group = rq_FamilyGroupID item, r_member = rq_GroupMemberID item,
       r_payload = doc, r_attempt = AttemptCount item, r_next = env_timestamp e (NextAttemptAt item),
       r_error = nullableString (LastError item), r_status = Status item, r_created = stamp, r_updated = stamp\<rparr> t)"

definition EnqueueRetryItem :: "env \<Rightarrow> RetryQueueItem option \<Rightarrow> pg \<Rightarrow> (err option \<times> RetryQueueItem option) \<times> pg" where
  "EnqueueRetryItem e p s = (case p of
     None \<Rightarrow> ((Some (ErrInvalidRetryItem []), None), s)
   | Some item0 \<Rightarrow>
       (let item = (if rq_ID item0 = [] then item0\<lparr>rq_ID := new_uuid e s\<rparr> else item0);
            item = (if Status item = [] then item\<lparr>Status := RetryQueueStatusQueued\<rparr> else item)
        in case RetryQueueItem_Validate (Some item) of
          (Some x, i') \<Rightarrow> ((Some x, i'), s)
        | (None, None) \<Rightarrow> ((Some (ErrInvalidRetryItem []), None), s)
        | (None, Some item) \<Rightarrow>
            (let stamp = env_timestamp e (env_dbnow e (stmt_no s)) in
             case sql e (retry_stmt e item stamp) s of
               (Inl x, s') \<Rightarrow> ((Some (if x = foreign_key_violation then ErrGroupMemberNotFound else x), Some item), s')
             | (Inr _, s') \<Rightarrow> ((None, Some (item\<lparr>rq_CreatedAt := stamp, rq_UpdatedAt := stamp\<rparr>)), s'))))"

definition item_of_row :: "retry_row \<Rightarrow> RetryQueueItem" where
  "item_of_row r = \<lparr>rq_ID = r_id r, rq_FamilyGroupID = r_group r, rq_GroupMemberID = r_member r,
     Payload = r_payload r, AttemptCount = r_attempt r, NextAttemptAt = r_next r,
     LastError = NullString_String (r_error r), Status = r_status r, rq_CreatedAt = r_created r,
     rq_UpdatedAt = r_updated r\<rparr>"

definition due_rows :: "gotime \<Rightarrow> int \<Rightarrow> pg \<Rightarrow> retry_row list" where
  "due_rows now limit s = take (nat limit) (order_asc r_next
     (filter (\<lambda>r. r_status r \<in> {RetryQueueStatusQueued, RetryQueueStatusRetrying} \<and> r_next r \<le> now) (retry_queue_items s)))"

definition mark_retrying :: "string set \<Rightarrow> gotime \<Rightarrow> pg \<Rightarrow> pg" where
  "mark_retrying ids stamp s = s\<lparr>retry_queue_items :=
     map (\<lambda>r. if r_id r \<in> ids then r\<lparr>r_status := RetryQueueStatusRetrying, r_updated := stamp\<rparr> else r) (retry_queue_items s)\<rparr>"

text \<open>
  The transaction: begin, select and lock the due rows, mark them, commit.  A failure before
  the commit rolls back; the tables are then those at the beginning.  Other transactions'
  row locks (\<open>SKIP LOCKED\<close>) are outside this sequential model: all due rows are available.
\<close>

definition rolled_back :: "pg \<Rightarrow> pg \<Rightarrow> pg" where
  "rolled_back s s' = s\<lparr>stmt_no := stmt_no s'\<rparr>"

definition ListDueRetryItems :: "env \<Rightarrow> gotime \<Rightarrow> int \<Rightarrow> pg \<Rightarrow> RetryQueueItem list result \<times> pg" where
  "ListDueRetryItems e now limit s =
     (let limit = (if limit \<le> 0 then 50 else limit) in
      case sql_exec e (\<lambda>_ t. t) s of
        (Inl x, s1) \<Rightarrow> (Inl x, s1)
      | (Inr _, s1) \<Rightarrow> (case sql_query e (due_rows (env_timestamp e now) limit) s1 of
          (Inl x, s2) \<Rightarrow> (Inl x, rolled_back s s2)
        | (Inr rows, s2) \<Rightarrow> (case env_rows e (stmt_no s1) of
            Some x \<Rightarrow> (Inl x, rolled_back s s2)
          | None \<Rightarrow>
              (let ids = map r_id rows;
                   (upd, s3) = (if ids = [] then (Inr (), s2)
                     else sql_exec e (\<lambda>n. mark_retrying (set ids) (env_timestamp e (env_dbnow e n))) s2);
                   items = (if ids = [] then map item_of_row rows
                     else map (\<lambda>r. (item_of_row r)\<lparr>Status := RetryQueueStatusRetrying, rq_UpdatedAt := env_now e (stmt_no s3)\<rparr>) rows)
               in case upd of
                 Inl x \<Rightarrow> (Inl x, rolled_back s s3)
               | Inr _ \<Rightarrow> (case sql_exec e (\<lambda>_ t. t) s3 of
                   (Inl x, s4) \<Rightarrow> (Inl x, rolled_back s s4)
                 | (Inr _, s4) \<Rightarrow> (Inr items, s4))))))"

definition MarkRetrySuccess :: "env \<Rightarrow> string \<Rightarrow> pg \<Rightarrow> err option \<times> pg" where
  "MarkRetrySuccess e uid s = (let uid = TrimSpace uid in
     if uid = [] then (Some ErrRetryItemNotFound, s)
     else case sql e (\<lambda>_ t. (Inr (length (filter (\<lambda>r. r_id r = uid) (retry_queue_items t))),
         t\<lparr>retry_queue_items := filter (\<lambda>r. r_id r \<noteq> uid) (retry_queue_items t)\<rparr>)) s of
       (Inl x, s') \<Rightarrow> (Some x, s')
     | (Inr affected, s') \<Rightarrow> (if affected = 0 then Some ErrRetryItemNotFound else None, s'))"

definition fail_row :: "string \<Rightarrow> int \<Rightarrow> gotime \<Rightarrow> string option \<Rightarrow> string \<Rightarrow> gotime \<Rightarrow> retry_row \<Rightarrow> retry_row" where
  "fail_row uid attempt next lastErr status stamp r = (if r_id r = uid
     then r\<lparr>r_attempt := attempt, r_next := next, r_error := lastErr, r_status := status, r_updated := stamp\<rparr> else r)"

definition MarkRetryFailure :: "env \<Rightarrow> string \<Rightarrow> int \<Rightarrow> gotime \<Rightarrow> string \<Rightarrow> bool \<Rightarrow> pg \<Rightarrow> err option \<times> pg" where
  "MarkRetryFailure e uid attempt nextAttempt lastErr permanent s = (let uid = TrimSpace uid in
     if uid = [] then (Some ErrRetryItemNotFound, s)
     else (let status = (if permanent then RetryQueueStatusPermanentFailure else RetryQueueStatusQueued);
               attempt = (if permanent then MaxRetryAttempts else attempt)
       in case sql e (\<lambda>n t. if \<not> smallint attempt then (Inl (SqlError ''22003''), t)
           else (Inr (length (filter (\<lambda>r. r_id r = uid) (retry_queue_items t))),
             t\<lparr>retry_queue_items := map (fail_row uid attempt (env_timestamp e nextAttempt) (nullableString lastErr)
                 status (env_timestamp e (env_dbnow e n))) (retry_queue_items t)\<rparr>)) s of
         (Inl x, s') \<Rightarrow> (Some x, s')
       | (Inr affected, s') \<Rightarrow> (if affected = 0 then Some ErrRetryItemNotFound else None, s')))"

section \<open>Every operation respects the schema\<close>

lemma schema_insert_group: "group_wf g \<Longrightarrow> schema_ok s \<Longrightarrow> schema_ok (snd (insert_group g s))"
  unfolding insert_group_def by (rule guarded_keeps) (auto simp: schema_ok_def table_ok_defs)

lemma schema_insert_member: "member_row_wf r \<Longrightarrow> schema_ok s \<Longrightarrow> schema_ok (snd (insert_member r s))"
  unfolding insert_member_def by (rule guarded_keeps) (auto simp: schema_ok_def table_ok_defs)

text \<open>What validation hands to the statements is well formed.\<close>

lemma FamilyGroup_Validate_wf:
  "FamilyGroup_Validate p = (None, Some g) \<Longrightarrow> group_wf g"
  by (auto simp: FamilyGroup_Validate_def group_wf_def Let_def split: option.splits if_splits)

lemma group_wf_frame [simp]:
  "group_wf (g\<lparr>fg_ID := i\<rparr>) = group_wf g" "group_wf (g\<lparr>fg_CreatedAt := t\<rparr>) = group_wf g"
  "group_wf (g\<lparr>fg_UpdatedAt := t\<rparr>) = group_wf g"
  by (cases g; simp add: group_wf_def FamilyGroup_Normalize_def)+

lemma Validate_lower_trakt:
  assumes "GroupMember_Validate (Some (lower_trakt m0)) = (None, Some m)"
  shows "member_wf m \<and> ToLower (TraktUsername m) = TraktUsername m"
proof -
  have m: "m = GroupMember_Normalize (lower_trakt m0)"
    using GroupMember_Validate_snd [of "lower_trakt m0"] assms by simp
  moreover have "member_wf m"
    using GroupMember_Validate_ok [of "lower_trakt m0"] assms m by simp
  moreover have "ToLower (TraktUsername (lower_trakt m0)) = TraktUsername (lower_trakt m0)"
    by (simp add: lower_trakt_def)
  ultimately show ?thesis
    by (simp add: GroupMember_Normalize_def flip: TrimSpace_ToLower)
qed

lemma trim_nullable: "TrimSpace (NullString_String (nullableString t)) = TrimSpace t"
  by (simp add: NullString_String_def nullableString_def Let_def)

lemma member_wf_Trim: "member_wf m \<Longrightarrow> TrimSpace (TraktUsername m) = TraktUsername m"
proof -
  assume "member_wf m"
  then have "TraktUsername (GroupMember_Normalize m) = TraktUsername m" by (simp add: member_wf_def)
  then show ?thesis by (simp add: GroupMember_Normalize_def)
qed

lemma member_wf_cong:
  "gm_FamilyGroupID a = gm_FamilyGroupID b \<Longrightarrow> TempLabel a = TempLabel b \<Longrightarrow> TraktUsername a = TraktUsername b \<Longrightarrow>
   AuthorizationStatus a = AuthorizationStatus b \<Longrightarrow> member_wf a = member_wf b"
  by (cases a; cases b) (simp add: member_wf_def GroupMember_Normalize_def)

lemma row_of_member_wf:
  assumes "GroupMember_Validate (Some (lower_trakt m0)) = (None, Some m)"
  shows "member_row_wf (row_of_member e m t)"
proof -
  have m: "member_wf m" "ToLower (TraktUsername m) = TraktUsername m"
    using Validate_lower_trakt [OF assms] by simp_all
  then have "TraktUsername (scanGroupMemberRow (row_of_member e m t)) = TraktUsername m"
    by (simp add: scanGroupMemberRow_def row_of_member_def trim_nullable member_wf_Trim)
  moreover have "member_wf (scanGroupMemberRow (row_of_member e m t)) = member_wf m"
    by (rule member_wf_cong) (use m in \<open>simp_all add: scanGroupMemberRow_def row_of_member_def trim_nullable member_wf_Trim\<close>)
  ultimately show ?thesis using m by (simp add: member_row_wf_def)
qed

lemma update_member_keys [simp]:
  "m_id (update_member e m r) = m_id r" "m_group (update_member e m r) = m_group r"
  by (simp_all add: update_member_def)

lemma update_member_wf:
  assumes "GroupMember_Validate (Some (lower_trakt m0)) = (None, Some m)" and "member_row_wf r"
  shows "member_row_wf (update_member e m r)"
proof (cases "m_id r = gm_ID m")
  case True
  let ?r = "scanGroupMemberRow (update_member e m r)"
  let ?m = "m\<lparr>gm_FamilyGroupID := m_group r\<rparr>"
  have m: "member_wf m" "ToLower (TraktUsername m) = TraktUsername m"
    using Validate_lower_trakt [OF assms(1)] by simp_all
  have "member_wf (scanGroupMemberRow r)" using assms(2) by (simp add: member_row_wf_def)
  then have "member_wf ?m"
    using m(1) by (cases m) (simp add: member_wf_def GroupMember_Normalize_def scanGroupMemberRow_def)
  moreover have t: "TraktUsername ?r = TraktUsername m"
    using True m by (simp add: scanGroupMemberRow_def update_member_def trim_nullable member_wf_Trim)
  moreover have "member_wf ?r = member_wf ?m"
    by (rule member_wf_cong) (use True t in \<open>simp_all add: scanGroupMemberRow_def update_member_def\<close>)
  ultimately show ?thesis using m by (simp add: member_row_wf_def)
qed (use assms(2) in \<open>simp add: update_member_def\<close>)

lemma schema_insert_retry: "schema_ok s \<Longrightarrow> schema_ok (snd (insert_retry r s))"
  unfolding insert_retry_def by (rule guarded_keeps) (auto simp: schema_ok_def table_ok_defs)

lemma schema_retry_stmt: "schema_ok s \<Longrightarrow> schema_ok (snd (retry_stmt e i t k s))"
  by (simp add: retry_stmt_def schema_insert_retry split: option.split)

lemma schema_CreateFamilyGroup: "schema_ok s \<Longrightarrow> schema_ok (snd (CreateFamilyGroup e p s))"
  by (auto simp: CreateFamilyGroup_def Let_def sql_keeps schema_insert_group
      dest!: FamilyGroup_Validate_wf split: prod.split option.split)

lemma schema_DeleteFamilyGroup: "schema_ok s \<Longrightarrow> schema_ok (snd (DeleteFamilyGroup e i s))"
  by (simp add: DeleteFamilyGroup_def sql_keeps schema_delete_group Let_def)

lemma schema_AddGroupMember: "schema_ok s \<Longrightarrow> schema_ok (snd (AddGroupMember e p s))"
  by (simp add: AddGroupMember_def Let_def sql_keeps schema_insert_member row_of_member_wf split: prod.split option.split)

lemma schema_UpdateGroupMember: "schema_ok s \<Longrightarrow> schema_ok (snd (UpdateGroupMember e p s))"
  by (simp add: UpdateGroupMember_def sql_keeps schema_map_members update_member_wf split: prod.split option.split)

lemma schema_RemoveGroupMember: "schema_ok s \<Longrightarrow> schema_ok (snd (RemoveGroupMember e g m s))"
  by (simp add: RemoveGroupMember_def Let_def sql_keeps schema_delete_members)

lemma schema_EnqueueRetryItem: "schema_ok s \<Longrightarrow> schema_ok (snd (EnqueueRetryItem e p s))"
  by (simp add: EnqueueRetryItem_def Let_def sql_keeps schema_retry_stmt split: prod.split option.split)

lemma schema_mark_retrying: "schema_ok (mark_retrying ids t s) = schema_ok s"
  unfolding mark_retrying_def by (rule schema_map_retry) simp_all

lemma schema_rolled_back [simp]: "schema_ok (rolled_back s s') = schema_ok s"
  by (simp add: rolled_back_def)

lemma schema_ListDueRetryItems: "schema_ok s \<Longrightarrow> schema_ok (snd (ListDueRetryItems e now l s))"
  by (simp add: ListDueRetryItems_def Let_def sql_eqs schema_mark_retrying split: option.split)

lemma schema_MarkRetrySuccess: "schema_ok s \<Longrightarrow> schema_ok (snd (MarkRetrySuccess e i s))"
  by (simp add: MarkRetrySuccess_def Let_def sql_keeps schema_filter_retry)

lemma schema_MarkRetryFailure: "schema_ok s \<Longrightarrow> schema_ok (snd (MarkRetryFailure e i a t l p s))"
  by (simp add: MarkRetryFailure_def Let_def sql_keeps schema_map_retry fail_row_def)

end
