(* ===== verification/Store_Laws.thy ===== *)
theory Store_Laws
  imports Postgres_Family
begin

text \<open>
  What the PostgreSQL store promises its clients: the integrity of the database over every
  sequence of operations, the laws of the user table (an interface locale, interpreted on the
  store), and the behaviour of the scrobble queue: order, deduplication, capacity, the
  fallback buffer and its flush.
\<close>

section \<open>Reachable states\<close>

text \<open>One call of any operation that writes, with any arguments.\<close>

inductive pg_step :: "env \<Rightarrow> pg \<Rightarrow> pg \<Rightarrow> bool" for e where
  step_client: "NewPostgresqlClient x e s = Some s' \<Longrightarrow> pg_step e s s'"
| step_restart: "pg_step e s (NewPostgresqlStore s)"
| step_WriteUser: "WriteUser e u s = Some s' \<Longrightarrow> pg_step e s s'"
| step_DeleteUser: "pg_step e s (snd (DeleteUser e i n s))"
| step_Enqueue: "EnqueueScrobble fuel e ev s = Some (x, s') \<Longrightarrow> pg_step e s s'"
| step_Dequeue: "DequeueScrobbles e i l s = Some (r, s') \<Longrightarrow> pg_step e s s'"
| step_DeleteQueued: "pg_step e s (snd (DeleteQueuedScrobble e i s))"
| step_UpdateRetry: "pg_step e s (snd (UpdateQueuedScrobbleRetry e i k s))"
| step_Purge: "pg_step e s (snd (PurgeQueueForUser e i s))"
| step_CreateNotification: "pg_step e s (snd (CreateNotification e nt s))"
| step_Dismiss: "pg_step e s (snd (DismissNotification e i s))"
| step_DeleteNotification: "pg_step e s (snd (DeleteNotification e i s))"
| step_CreateGroup: "pg_step e s (snd (CreateFamilyGroup e g s))"
| step_DeleteGroup: "pg_step e s (snd (DeleteFamilyGroup e i s))"
| step_AddMember: "pg_step e s (snd (AddGroupMember e m s))"
| step_UpdateMember: "pg_step e s (snd (UpdateGroupMember e m s))"
| step_RemoveMember: "pg_step e s (snd (RemoveGroupMember e g i s))"
| step_EnqueueRetry: "pg_step e s (snd (EnqueueRetryItem e it s))"
| step_ListDue: "pg_step e s (snd (ListDueRetryItems e now l s))"
| step_MarkSuccess: "pg_step e s (snd (MarkRetrySuccess e i s))"
| step_MarkFailure: "pg_step e s (snd (MarkRetryFailure e i a t m p s))"

inductive pg_reach :: "env \<Rightarrow> pg \<Rightarrow> bool" for e where
  reach_empty: "pg_reach e pg_empty"
| reach_step: "pg_reach e s \<Longrightarrow> pg_step e s s' \<Longrightarrow> pg_reach e s'"

lemma schema_run_ddl: "schema_ok s \<Longrightarrow> run_ddl k e s = Some s' \<Longrightarrow> schema_ok s'"
proof (induction k arbitrary: s)
  case (Suc k)
  then have "run_ddl k e (sent s) = Some s'" by (simp add: sql_eqs split: option.splits)
  with Suc.IH [of "sent s"] Suc.prems(1) show ?case by simp
qed simp

lemma pg_step_schema: "pg_step e s s' \<Longrightarrow> schema_ok s \<Longrightarrow> schema_ok s'"
proof (induction rule: pg_step.induct)
  case (step_client x s s')
  then show ?case by (auto simp: NewPostgresqlClient_def schema_run_ddl split: if_splits)
next
  case (step_restart s)
  then show ?case by (simp add: NewPostgresqlStore_def)
qed (auto intro: schema_WriteUser schema_DeleteUser schema_EnqueueScrobble schema_DequeueScrobbles
    schema_DeleteQueuedScrobble schema_UpdateQueuedScrobbleRetry schema_PurgeQueueForUser
    schema_CreateNotification schema_DismissNotification schema_DeleteNotification
    schema_CreateFamilyGroup schema_DeleteFamilyGroup schema_AddGroupMember schema_UpdateGroupMember
    schema_RemoveGroupMember schema_EnqueueRetryItem schema_ListDueRetryItems schema_MarkRetrySuccess
    schema_MarkRetryFailure)

lemma pg_reach_schema: "pg_reach e s \<Longrightarrow> schema_ok s"
  by (induction rule: pg_reach.induct) (auto intro: pg_step_schema)

text \<open>
  C25. Database integrity: whatever operations run, in whatever order, with whatever arguments
  and whatever statements fail, identifiers stay unique in each of the six tables, no two queued
  events share player and rating key, every queued event passes the checks of its table and
  belongs to an existing user, group names are unique and normalised, members are well formed and
  belong to an existing group, retry items refer to an existing group and an existing member, and
  notifications to an existing group and, if they name a member, to an existing member.
\<close>

theorem database_integrity:
  assumes "pg_reach e s"
  shows "distinct (map u_id (users s)) \<and>
    distinct (map q_id (queued_scrobbles s)) \<and> distinct (map queued_key (queued_scrobbles s)) \<and>
    list_all queued_check (queued_scrobbles s) \<and> q_user_id ` set (queued_scrobbles s) \<subseteq> u_id ` set (users s) \<and>
    distinct (map fg_ID (family_groups s)) \<and> distinct (map PlexUsername (family_groups s)) \<and> list_all group_wf (family_groups s) \<and>
    distinct (map m_id (group_members s)) \<and> list_all member_row_wf (group_members s) \<and>
    m_group ` set (group_members s) \<subseteq> fg_ID ` set (family_groups s) \<and>
    distinct (map r_id (retry_queue_items s)) \<and> r_group ` set (retry_queue_items s) \<subseteq> fg_ID ` set (family_groups s) \<and>
    r_member ` set (retry_queue_items s) \<subseteq> m_id ` set (group_members s) \<and>
    distinct (map n_id (notifications s)) \<and> n_group ` set (notifications s) \<subseteq> fg_ID ` set (family_groups s) \<and>
    (\<Union>r \<in> set (notifications s). set_option (n_member r)) \<subseteq> m_id ` set (group_members s)"
  using pg_reach_schema [OF assms] by (simp add: schema_ok_def table_ok_defs)

definition demo_env :: env where
  "demo_env = \<lparr>env_fault = (\<lambda>_. None), env_rows = (\<lambda>_. None), env_now = (\<lambda>_. 7), env_dbnow = (\<lambda>_. 7),
     env_rand = (\<lambda>_. Inr (replicate 16 0)), env_stamp = (\<lambda>_. []), env_timestamp = (\<lambda>t. t),
     env_timestamptz = (\<lambda>t. t), env_jsonb = Some\<rparr>"

definition demo_group :: FamilyGroup where
  "demo_group = \<lparr>fg_ID = ''g'', PlexUsername = ''Home'', fg_CreatedAt = 0, fg_UpdatedAt = 0\<rparr>"

theorem database_integrity_witness:
  "list_all group_wf (family_groups (snd (CreateFamilyGroup demo_env (Some demo_group) pg_empty))) \<and>
   map PlexUsername (family_groups (snd (CreateFamilyGroup demo_env (Some demo_group) pg_empty))) = [''home'']"
proof
  have "pg_reach demo_env (snd (CreateFamilyGroup demo_env (Some demo_group) pg_empty))"
    by (intro reach_step [OF reach_empty] step_CreateGroup)
  from database_integrity [OF this]
  show "list_all group_wf (family_groups (snd (CreateFamilyGroup demo_env (Some demo_group) pg_empty)))"
    by simp
  show "map PlexUsername (family_groups (snd (CreateFamilyGroup demo_env (Some demo_group) pg_empty))) = [''home'']"
    by code_simp
qed

section \<open>Users\<close>

text \<open>
  The contract of a user table, as \<open>User.save\<close> and the handlers rely on it: what is written
  is read back in canonical form, provided the store can hold its times and identifier, and other users are
  not disturbed.
\<close>

locale user_store =
  fixes wr :: "User \<Rightarrow> 's \<Rightarrow> 's option"
    and get :: "string \<Rightarrow> 's \<Rightarrow> (User option \<times> 's) option"
    and ok :: "'s \<Rightarrow> bool"
    and canon :: "User \<Rightarrow> User"
    and fits :: "gotime \<Rightarrow> bool"
    and key_ok :: "string \<Rightarrow> bool"
  assumes wr_total: "ok s \<Longrightarrow> key_ok (usr_ID u) \<Longrightarrow> \<exists>s'. wr u s = Some s' \<and> ok s'"
    and get_same: "ok s \<Longrightarrow> key_ok (usr_ID u) \<Longrightarrow> fits (Updated u) \<Longrightarrow> fits (TokenExpiry u) \<Longrightarrow> wr u s = Some s' \<Longrightarrow> \<exists>s''. get (usr_ID u) s' = Some (Some (canon u), s'')"
    and get_other: "ok s \<Longrightarrow> key_ok (usr_ID u) \<Longrightarrow> key_ok i \<Longrightarrow> wr u s = Some s' \<Longrightarrow> i \<noteq> usr_ID u \<Longrightarrow>
      map_option fst (get i s') = map_option fst (get i s)"
begin

lemma UpdateUser_get:
  assumes "ok s" "has_store u" "fits now" "fits x" "key_ok (usr_ID u)"
  shows "\<exists>u' s' s''. UpdateUser wr now a r dn x u s = Some (u', s') \<and> ok s' \<and>
    get (usr_ID u) s' = Some (Some (canon u'), s'') \<and>
    usr_ID u' = usr_ID u \<and> Username u' = Username u \<and> AccessToken u' = a \<and> RefreshToken u' = r \<and>
    TokenExpiry u' = x \<and> Updated u' = now"
proof -
  obtain u' s' where up: "UpdateUser wr now a r dn x u s = Some (u', s')"
    using UpdateUser_ok [of u wr s] wr_total [OF assms(1)] assms(2,5) by metis
  note f = UpdateUser_Some [OF up]
  have "ok s'" using f wr_total [OF assms(1), of u'] assms(5) by auto
  moreover obtain s'' where "get (usr_ID u') s' = Some (Some (canon u'), s'')"
    using get_same [OF assms(1)] f assms(3-5) by metis
  ultimately show ?thesis using up f by auto
qed

lemma UpdateUser_other:
  assumes "ok s" "UpdateUser wr now a r dn x u s = Some (u', s')" "i \<noteq> usr_ID u"
    "key_ok (usr_ID u)" "key_ok i"
  shows "map_option fst (get i s') = map_option fst (get i s)"
  using get_other [OF assms(1)] UpdateUser_Some [OF assms(2)] assms(3-5) by metis

lemma NewUser_get:
  assumes "ok s" "fits now" "fits x" "key_ok i"
  shows "\<exists>u s' s''. NewUser wr i now n a r dn x True s = Some (u, s') \<and> ok s' \<and>
    get i s' = Some (Some (canon u), s'') \<and> Username u = n \<and> AccessToken u = a \<and> RefreshToken u = r"
proof -
  obtain u s' where nu: "NewUser wr i now n a r dn x True s = Some (u, s')"
    using NewUser_ok [of i wr s] wr_total [OF assms(1)] assms(4) by metis
  note f = NewUser_Some [OF nu]
  have "ok s'" using f wr_total [OF assms(1), of u] assms(4) by auto
  moreover obtain s'' where "get i s' = Some (Some (canon u), s'')"
    using get_same [OF assms(1)] f assms(2-4) by metis
  ultimately show ?thesis using nu f by auto
qed

end

definition canon_user :: "env \<Rightarrow> User \<Rightarrow> User" where
  "canon_user e u = u\<lparr>Username := ToLower (Username u), Updated := env_timestamptz e (Updated u),
     TokenExpiry := env_timestamptz e (TokenExpiry u), has_store := True\<rparr>"

definition db_up :: "env \<Rightarrow> pg \<Rightarrow> bool" where
  "db_up e s \<longleftrightarrow> healthy e s \<and> users_ok s"

lemma user_of_row_of_user [simp]: "user_of_row (row_of_user e u) = canon_user e u"
  by (simp add: user_of_row_def row_of_user_def canon_user_def)

lemma healthy_next [simp]: "healthy e s \<Longrightarrow> env_fault e (stmt_no s) = None"
  "healthy e s \<Longrightarrow> env_rows e (stmt_no s) = None"
  by (simp_all add: healthy_def)

lemma healthy_Suc: "healthy e s \<Longrightarrow> stmt_no s \<le> stmt_no s' \<Longrightarrow> healthy e s'"
  by (simp add: healthy_def)

lemma upsert_ids: "users_ok s \<Longrightarrow> users_ok (upsert_user r s)"
proof -
  have "map u_id (map (\<lambda>x. if u_id x = u_id r then r else x) xs) = map u_id xs" for xs
    by (induction xs) auto
  then show "users_ok s \<Longrightarrow> ?thesis" by (auto simp: users_ok_def upsert_user_def simp del: map_map)
qed

lemma find_upsert:
  "find (\<lambda>x. u_id x = i) (users (upsert_user r s)) =
     (if i = u_id r then Some r else find (\<lambda>x. u_id x = i) (users s))"
proof -
  have 1: "find (\<lambda>x. u_id x = i) (map (\<lambda>x. if u_id x = u_id r then r else x) us) =
      (if i = u_id r then Some r else find (\<lambda>x. u_id x = i) us)" if "u_id r \<in> u_id ` set us \<or> i \<noteq> u_id r" for us
    using that by (induction us) auto
  have 2: "find (\<lambda>x. u_id x = i) (us @ [r]) =
      (if i = u_id r then Some r else find (\<lambda>x. u_id x = i) us)" if "u_id r \<notin> u_id ` set us" for us
    using that by (induction us) auto
  show ?thesis using 1 [of "users s"] 2 [of "users s"] unfolding upsert_user_def by (auto split: if_splits)
qed

lemma upsert_stmt_no [simp]: "stmt_no (upsert_user r s) = stmt_no s"
  by (simp add: upsert_user_def)

lemma WriteUser_healthy: "healthy e s \<Longrightarrow> WriteUser e u s = Some (upsert_user (row_of_user e u) (sent s))"
  by (simp add: WriteUser_def sql_eqs)

lemma GetUser_healthy:
  "healthy e s \<Longrightarrow> GetUser e i s = Some (map_option user_of_row (find (\<lambda>r. u_id r = i) (users s)), sent s)"
  by (simp add: GetUser_def sql_eqs split: option.splits)

interpretation pg_users: user_store "WriteUser e" "GetUser e" "db_up e" "canon_user e" "\<lambda>_. True" "\<lambda>_. True"
proof (unfold_locales, goal_cases)
  case (1 s u)
  then show ?case
    by (simp add: db_up_def WriteUser_healthy upsert_ids [unfolded users_ok_def] users_ok_def)
      (auto intro: healthy_Suc)
next
  case (2 s u s')
  then have s': "s' = upsert_user (row_of_user e u) (sent s)" and "healthy e s'"
    by (auto simp: db_up_def WriteUser_healthy intro: healthy_Suc)
  then show ?case by (simp add: GetUser_healthy find_upsert) (simp add: row_of_user_def)
next
  case (3 s u i s')
  then have s': "s' = upsert_user (row_of_user e u) (sent s)" and "healthy e s'" "healthy e s"
    by (auto simp: db_up_def WriteUser_healthy intro: healthy_Suc)
  with 3(5) show ?case by (simp add: GetUser_healthy find_upsert) (simp add: row_of_user_def)
qed

text \<open>
  C30. Renewing a user's tokens takes effect: on a working database \<open>UpdateUser\<close> returns, and
  reading the user back gives the new access and refresh tokens, the new expiry and update
  time (at the precision of the column), the old name in lower case, and a user object that
  can be updated again; every other user reads as before.
\<close>

theorem UpdateUser_persists:
  assumes "db_up e s" "has_store u"
  shows "\<exists>u' s' v s''. UpdateUser (WriteUser e) now acc ref dn ex u s = Some (u', s') \<and>
     GetUser e (usr_ID u) s' = Some (Some v, s'') \<and>
     AccessToken v = acc \<and> RefreshToken v = ref \<and> TokenExpiry v = env_timestamptz e ex \<and>
     Updated v = env_timestamptz e now \<and> Username v = ToLower (Username u) \<and> has_store v \<and>
     (\<forall>i. i \<noteq> usr_ID u \<longrightarrow> map_option fst (GetUser e i s') = map_option fst (GetUser e i s))"
proof -
  obtain u' s' s'' where up: "UpdateUser (WriteUser e) now acc ref dn ex u s = Some (u', s')"
    "GetUser e (usr_ID u) s' = Some (Some (canon_user e u'), s'')"
    "Username u' = Username u" "AccessToken u' = acc" "RefreshToken u' = ref" "TokenExpiry u' = ex" "Updated u' = now"
    using pg_users.UpdateUser_get [OF assms, of now acc ref dn ex] by blast
  then show ?thesis
    using pg_users.UpdateUser_other [OF assms(1) up(1)]
    by (intro exI [of _ u'] exI [of _ s'] exI [of _ "canon_user e u'"] exI [of _ s'']) (simp add: canon_user_def)
qed

theorem UpdateUser_persists_witness:
  "\<exists>u' s' v s''. UpdateUser (WriteUser demo_env) 5 ''a2'' ''r2'' None 9
      \<lparr>usr_ID = ''i'', Username = ''Bob'', AccessToken = ''a1'', RefreshToken = ''r1'', TraktDisplayName = [],
       Updated = 1, TokenExpiry = 2, has_store = True\<rparr> pg_empty = Some (u', s') \<and>
     GetUser demo_env ''i'' s' = Some (Some v, s'') \<and> AccessToken v = ''a2'' \<and> TokenExpiry v = 9"
  using UpdateUser_persists [of demo_env pg_empty "\<lparr>usr_ID = ''i'', Username = ''Bob'', AccessToken = ''a1'',
      RefreshToken = ''r1'', TraktDisplayName = [], Updated = 1, TokenExpiry = 2, has_store = True\<rparr>"
      5 "''a2''" "''r2''" None 9]
  by (auto simp: db_up_def healthy_def users_ok_def pg_empty_def demo_env_def)

end
