(* ===== verification/Queue_Laws.thy ===== *)
theory Queue_Laws
  imports Store_Laws "HOL-Library.Multiset"
begin

text \<open>
  The scrobble queue of the PostgreSQL store: what an accepted event looks like when it is
  read back, the order and the capacity of a user's queue, deduplication, and the flush of
  the fallback buffer.
\<close>

section \<open>Reading back\<close>

definition stored_event :: "env \<Rightarrow> QueuedScrobbleEvent \<Rightarrow> QueuedScrobbleEvent" where
  "stored_event e ev = ev\<lparr>ev_CreatedAt := env_timestamp e (ev_CreatedAt ev),
     LastAttempt := (if IsZero (LastAttempt ev) then 0 else env_timestamp e (LastAttempt ev))\<rparr>"

lemma event_of_row_of_event:
  "event_of_row (row_of_event e ev) (ev_ScrobbleBody ev) = stored_event e ev"
  by (cases ev) (simp add: event_of_row_def row_of_event_def stored_event_def)

definition decodes :: "queued_row \<Rightarrow> bool" where
  "decodes r \<longleftrightarrow> (case ScrobbleBody_UnmarshalJSON (q_body r) zero_Body of DecOk _ \<Rightarrow> True | _ \<Rightarrow> False)"

definition row_event :: "queued_row \<Rightarrow> QueuedScrobbleEvent" where
  "row_event r = event_of_row r (case ScrobbleBody_UnmarshalJSON (q_body r) zero_Body of DecOk b \<Rightarrow> b | _ \<Rightarrow> zero_Body)"

lemma row_event_frame [simp]:
  "ev_ID (row_event r) = q_id r" "ev_CreatedAt (row_event r) = q_created r"
  "ev_UserID (row_event r) = q_user_id r" "PlayerUUID (row_event r) = q_player r" "ev_RatingKey (row_event r) = q_rating r"
  by (simp_all add: row_event_def event_of_row_def)

lemma scan_events_decodes: "list_all decodes rows \<Longrightarrow> scan_events rows = Some (map row_event rows)"
  by (induction rows) (auto simp: decodes_def row_event_def split: decoded.splits)

lemma row_of_event_decodes:
  assumes "Body_ok (ev_ScrobbleBody ev)"
  shows "decodes (row_of_event e ev)" "row_event (row_of_event e ev) = stored_event e ev"
proof -
  have b: "ScrobbleBody_UnmarshalJSON (ScrobbleBody_MarshalJSON (ev_ScrobbleBody ev)) zero_Body = DecOk (ev_ScrobbleBody ev)"
    by (rule body_roundtrip [OF assms])
  then have "ScrobbleBody_UnmarshalJSON (q_body (row_of_event e ev)) zero_Body = DecOk (ev_ScrobbleBody ev)"
    by (simp add: row_of_event_def)
  then show "decodes (row_of_event e ev)" "row_event (row_of_event e ev) = stored_event e ev"
    by (simp_all add: decodes_def row_event_def event_of_row_of_event)
qed

lemma DequeueScrobbles_healthy:
  assumes "healthy e s" "0 \<le> limit" "list_all decodes (user_queue uid s)"
  shows "DequeueScrobbles e uid limit s =
    Some (Inr (map row_event (take (nat limit) (order_asc q_created (user_queue uid s)))), sent s)"
proof -
  have "list_all decodes (take (nat limit) (order_asc q_created (user_queue uid s)))"
    using assms(3) by (auto simp: list_all_iff order_asc_def dest: in_set_takeD)
  then show ?thesis
    using assms(1,2)
    by (simp add: DequeueScrobbles_def sql_eqs scan_events_decodes user_queue_def)
qed

lemma sorted_take_key: "sorted (map k (take n (order_asc k rows)))"
  by (simp add: order_asc_def sorted_wrt_take flip: take_map)

section \<open>One accepted event\<close>

text \<open>When the row is new and the user exists, the insertion appends it.\<close>

definition new_row :: "queued_row \<Rightarrow> pg \<Rightarrow> bool" where
  "new_row r s \<longleftrightarrow> queued_check r \<and> queued_key r \<notin> queued_key ` set (queued_scrobbles s) \<and>
     q_id r \<notin> q_id ` set (queued_scrobbles s) \<and> q_user_id r \<in> u_id ` set (users s)"

lemma insert_new_row: "new_row r s \<Longrightarrow> insert_queued r s = (Inr (), s\<lparr>queued_scrobbles := queued_scrobbles s @ [r]\<rparr>)"
  by (auto simp: insert_queued_def new_row_def guarded_def)

lemma insert_duplicate: "queued_check r \<Longrightarrow> queued_key r \<in> queued_key ` set (queued_scrobbles s) \<Longrightarrow> insert_queued r s = (Inr (), s)"
  by (simp add: insert_queued_def)

lemma insert_frame: "fallbackBuffers (snd (insert_queued r s)) = fallbackBuffers s"
  using guarded_cases [of "[(q_id r \<notin> q_id ` set (queued_scrobbles s), unique_violation),
      (q_user_id r \<in> u_id ` set (users s), foreign_key_violation)]" s "s\<lparr>queued_scrobbles := queued_scrobbles s @ [r]\<rparr>"]
  by (auto simp: insert_queued_def)

lemma row_of_event_check: "event_wf ev \<Longrightarrow> 0 \<le> RetryCount ev \<Longrightarrow> RetryCount ev \<le> 5 \<Longrightarrow> queued_check (row_of_event e ev)"
  by (auto simp: event_wf_def queued_check_def row_of_event_def)

lemma trimmed_frame:
  "users (trimmed e uid s) = users s" "fallbackBuffers (trimmed e uid s) = fallbackBuffers s"
  "stmt_no s \<le> stmt_no (trimmed e uid s)"
  by (auto simp: trimmed_def sql_eqs evict_oldest_def Let_def split: option.splits)

lemma trimmed_subset: "set (queued_scrobbles (trimmed e uid s)) \<subseteq> set (queued_scrobbles s)"
  by (auto simp: trimmed_def sql_eqs evict_oldest_def Let_def split: option.splits)

lemma new_row_trimmed: "new_row r s \<Longrightarrow> new_row r (trimmed e uid s)"
  using trimmed_subset [of e uid s] by (auto simp: new_row_def trimmed_frame)

lemma enqueue_checked_new:
  assumes "healthy e s" "new_row (row_of_event e ev) s"
  shows "enqueue_checked e ev s = Some (None, sent (trimmed e (ev_UserID ev) s)
    \<lparr>queued_scrobbles := queued_scrobbles (trimmed e (ev_UserID ev) s) @ [row_of_event e ev]\<rparr>)"
proof -
  let ?t = "trimmed e (ev_UserID ev) s"
  have "healthy e ?t" using assms(1) by (rule healthy_Suc) (simp add: trimmed_frame)
  moreover have "new_row (row_of_event e ev) (sent ?t)"
    using new_row_trimmed [OF assms(2)] by (simp add: new_row_def)
  ultimately show ?thesis by (simp add: enqueue_checked_eq sql_eqs insert_new_row)
qed

lemma enqueue_checked_duplicate:
  assumes "healthy e s" "queued_check (row_of_event e ev)"
    "queued_key (row_of_event e ev) \<in> queued_key ` set (queued_scrobbles (trimmed e (ev_UserID ev) s))"
  shows "enqueue_checked e ev s = Some (None, sent (trimmed e (ev_UserID ev) s))"
proof -
  have "healthy e (trimmed e (ev_UserID ev) s)" using assms(1) by (rule healthy_Suc) (simp add: trimmed_frame)
  with assms(2,3) show ?thesis by (simp add: enqueue_checked_eq sql_eqs insert_duplicate)
qed

lemma trimmed_below:
  "length (user_queue uid s) < 1000 \<Longrightarrow> queued_scrobbles (trimmed e uid s) = queued_scrobbles s"
  by (simp add: trimmed_def maxQueuePerUser_def)

text \<open>Evicting removes one row of the user, the oldest.\<close>

lemma evict_user_queue:
  "user_queue uid (evict_oldest uid s) =
     filter (\<lambda>r. q_id r \<notin> set (map q_id (take 1 (order_asc q_created (user_queue uid s))))) (user_queue uid s)"
  by (simp add: user_queue_def evict_oldest_def Let_def conj_commute)

lemma length_remove_id:
  assumes "distinct (map f xs)" "x \<in> set xs"
  shows "length (filter (\<lambda>y. f y \<noteq> f x) xs) + 1 = length xs"
  using assms
proof (induction xs)
  case (Cons y xs)
  show ?case
  proof (cases "x = y")
    case True
    with Cons.prems have "filter (\<lambda>z. f z \<noteq> f x) xs = xs" by (auto simp: filter_id_conv) (metis imageI)
    with True show ?thesis by simp
  next
    case False
    with Cons have "f y \<noteq> f x" and "length (filter (\<lambda>z. f z \<noteq> f x) xs) + 1 = length xs" by auto
    then show ?thesis by simp
  qed
qed simp

lemma evict_length:
  assumes "distinct (map q_id (queued_scrobbles s))" "user_queue uid s \<noteq> []"
  shows "length (user_queue uid (evict_oldest uid s)) + 1 = length (user_queue uid s)"
proof -
  have "order_asc q_created (user_queue uid s) \<noteq> []"
    using assms(2) by (metis length_0_conv length_sort order_asc_def)
  then obtain r rest where r: "order_asc q_created (user_queue uid s) = r # rest"
    by (meson neq_Nil_conv)
  then have "r \<in> set (user_queue uid s)" by (metis list.set_intros(1) order_asc_def set_sort)
  moreover have "distinct (map q_id (user_queue uid s))"
    using assms(1) by (simp add: user_queue_def distinct_map_filter)
  ultimately show ?thesis using length_remove_id r by (simp add: evict_user_queue)
qed

lemma trimmed_full:
  assumes "healthy e s" "1000 \<le> length (user_queue uid s)"
  shows "trimmed e uid s = evict_oldest uid (sent (sent s))"
proof -
  have "healthy e (sent s)" using assms(1) by (rule healthy_Suc) simp
  from healthy_next(1) [OF this] assms show ?thesis by (simp add: trimmed_def maxQueuePerUser_def sql_eqs)
qed

lemma user_queue_sent [simp]: "user_queue uid (sent s) = user_queue uid s"
  by (simp add: user_queue_def)

text \<open>No buffer to flush: one call does all the work.\<close>

definition no_fallback :: "string \<Rightarrow> pg \<Rightarrow> bool" where
  "no_fallback uid s \<longleftrightarrow> (case fallbackBuffers s uid of None \<Rightarrow> True | Some b \<Rightarrow> InMemoryBuffer_GetAll b = [])"

lemma flush_nothing: "no_fallback uid s \<Longrightarrow> flushFallbackBuffer enq uid s = Some s"
  by (cases "fallbackBuffers s uid") (simp_all add: no_fallback_def flushFallbackBuffer_def)

lemma prepared_ok:
  "event_wf ev \<Longrightarrow> ev_ID ev \<noteq> [] \<Longrightarrow> ev_CreatedAt ev \<noteq> 0 \<Longrightarrow> prepared e ev s = Inr ev"
  using validateEvent_ok [of ev] by (cases ev) (simp add: prepared_def)

lemma Enqueue_new:
  assumes "healthy e s" "event_wf ev" "ev_ID ev \<noteq> []" "ev_CreatedAt ev \<noteq> 0" "no_fallback (ev_UserID ev) s"
    "new_row (row_of_event e ev) s"
  shows "EnqueueScrobble (Suc fuel) e ev s = Some (None, sent (trimmed e (ev_UserID ev) s)
    \<lparr>queued_scrobbles := queued_scrobbles (trimmed e (ev_UserID ev) s) @ [row_of_event e ev]\<rparr>)"
  using assms
  by (simp add: EnqueueScrobble_eq prepared_ok enqueue_checked_new flush_nothing no_fallback_def trimmed_frame)

lemma user_queue_append:
  "user_queue uid (s\<lparr>queued_scrobbles := rows @ [r]\<rparr>) =
     user_queue uid (s\<lparr>queued_scrobbles := rows\<rparr>) @ (if q_user_id r = uid then [r] else [])"
  by (simp add: user_queue_def)

section \<open>The queue as its users see it\<close>

text \<open>
  C4. Enqueue and dequeue: on a working database, a valid event with a new identifier and a new
  player and rating key, of a registered user whose queue is not full and who has nothing
  buffered, is accepted, and dequeuing the user's queue then delivers it with every field
  intact (timestamps at column precision), in order of creation, next to the events that were
  queued before, and leaves the queue as it is.
\<close>

theorem enqueue_then_dequeue:
  assumes "healthy e s" "event_wf ev" "ev_ID ev \<noteq> []" "ev_CreatedAt ev \<noteq> 0" "no_fallback (ev_UserID ev) s"
    "new_row (row_of_event e ev) s" "Body_ok (ev_ScrobbleBody ev)"
    "length (user_queue (ev_UserID ev) s) < 1000" "list_all decodes (user_queue (ev_UserID ev) s)"
  shows "\<exists>s' s'' events. EnqueueScrobble (Suc fuel) e ev s = Some (None, s') \<and>
     DequeueScrobbles e (ev_UserID ev) 1000 s' = Some (Inr events, s'') \<and>
     mset events = mset (map row_event (user_queue (ev_UserID ev) s)) + {#stored_event e ev#} \<and>
     sorted (map ev_CreatedAt events) \<and> queued_scrobbles s'' = queued_scrobbles s'"
proof -
  let ?u = "ev_UserID ev"
  define s' where "s' = sent (trimmed e ?u s)\<lparr>queued_scrobbles := queued_scrobbles s @ [row_of_event e ev]\<rparr>"
  have enq: "EnqueueScrobble (Suc fuel) e ev s = Some (None, s')"
    using Enqueue_new [OF assms(1-6)] trimmed_below [OF assms(8)] by (simp add: s'_def)
  have "q_user_id (row_of_event e ev) = ?u" by (simp add: row_of_event_def)
  then have uq: "user_queue ?u s' = user_queue ?u s @ [row_of_event e ev]"
    by (simp add: s'_def user_queue_def)
  have h: "healthy e s'" using assms(1) by (rule healthy_Suc) (use trimmed_frame(3) [of s e ?u] in \<open>simp add: s'_def\<close>)
  have dec: "list_all decodes (user_queue ?u s')"
    using assms(9) row_of_event_decodes(1) [OF assms(7)] by (simp add: uq)
  let ?rows = "order_asc q_created (user_queue ?u s')"
  have "length ?rows \<le> 1000" using assms(8) by (simp add: order_asc_def uq)
  then have deq: "DequeueScrobbles e ?u 1000 s' = Some (Inr (map row_event ?rows), sent s')"
    using DequeueScrobbles_healthy [OF h _ dec, of 1000] by simp
  have "mset (map row_event ?rows) = mset (map row_event (user_queue ?u s)) + {#stored_event e ev#}"
    by (simp add: order_asc_def uq row_of_event_decodes [OF assms(7)])
  moreover have "sorted (map ev_CreatedAt (map row_event ?rows))"
    by (simp add: comp_def order_asc_def)
  ultimately show ?thesis using enq deq by auto
qed

definition demo_event :: QueuedScrobbleEvent where
  "demo_event = \<lparr>ev_ID = ''e1'', ev_UserID = ''u'', ev_ScrobbleBody = zero_Body\<lparr>Progress := 42\<rparr>, Action = ''stop'',
     ev_Progress = 42, ev_CreatedAt = 5, RetryCount = 0, LastAttempt = 0, PlayerUUID = ''p'', ev_RatingKey = ''k''\<rparr>"

definition demo_user_row :: user_row where
  "demo_user_row = \<lparr>u_id = ''u'', u_username = ''bob'', u_access = ''a'', u_refresh = ''r'', u_display = None,
     u_updated = 1, u_expiry = None\<rparr>"

definition demo_db :: pg where
  "demo_db = pg_empty\<lparr>users := [demo_user_row]\<rparr>"

lemma demo_healthy [simp]: "healthy demo_env s"
  by (simp add: healthy_def demo_env_def)

lemma demo_event_facts [simp]:
  "event_wf demo_event" "Body_ok (ev_ScrobbleBody demo_event)" "ev_ID demo_event = ''e1''"
  "ev_UserID demo_event = ''u''" "ev_CreatedAt demo_event = 5" "stored_event demo_env demo_event = demo_event"
  by (simp_all add: demo_event_def event_wf_def Body_ok_def zero_Body_def stored_event_def demo_env_def)

lemma demo_db_facts [simp]:
  "user_queue i demo_db = []" "no_fallback i demo_db" "queued_scrobbles demo_db = []" "u_id ` set (users demo_db) = {''u''}"
  by (simp_all add: demo_db_def user_queue_def no_fallback_def pg_empty_def demo_user_row_def)

lemma demo_new_row [simp]: "new_row (row_of_event demo_env demo_event) demo_db"
  by (simp add: new_row_def) (simp add: row_of_event_def demo_event_def queued_check_def)

theorem enqueue_then_dequeue_witness:
  "\<exists>s' s'' events. EnqueueScrobble 1 demo_env demo_event demo_db = Some (None, s') \<and>
     DequeueScrobbles demo_env ''u'' 1000 s' = Some (Inr events, s'') \<and> mset events = {#demo_event#}"
  using enqueue_then_dequeue [of demo_env demo_db demo_event 0] by auto

section \<open>Capacity\<close>

text \<open>
  On a working database and with no fallback buffer for the user, an enqueue returns: it leaves
  the queues as they are, or trims the queue of the user and perhaps adds one row to it.
\<close>

lemma enqueue_checked_returns:
  assumes "healthy e s" "fallbackBuffers s (ev_UserID ev) = None"
  shows "\<exists>x s'. enqueue_checked e ev s = Some (x, s') \<and> (x = None \<longrightarrow> fallbackBuffers s' = fallbackBuffers s) \<and>
    queued_scrobbles s' \<in> {queued_scrobbles (trimmed e (ev_UserID ev) s), queued_scrobbles (trimmed e (ev_UserID ev) s) @ [row_of_event e ev]}"
proof -
  let ?t = "trimmed e (ev_UserID ev) s" and ?r = "row_of_event e ev"
  have ht: "healthy e ?t" using assms(1) by (rule healthy_Suc) (simp add: trimmed_frame)
  obtain b where push: "InMemoryBuffer_Push ev (NewInMemoryBuffer fallbackBufferSize) = Some b"
    using fallback_log.put_law [of "NewInMemoryBuffer 100" ev] fallback_log.fresh_inv by (auto simp: fallbackBufferSize_def)
  have ins: "queued_scrobbles (snd (insert_queued ?r (sent ?t))) \<in> {queued_scrobbles ?t, queued_scrobbles ?t @ [?r]}"
    using guarded_cases [of "[(q_id ?r \<notin> q_id ` set (queued_scrobbles ?t), unique_violation),
      (q_user_id ?r \<in> u_id ` set (users ?t), foreign_key_violation)]" "sent ?t" "(sent ?t)\<lparr>queued_scrobbles := queued_scrobbles ?t @ [?r]\<rparr>"]
    by (auto simp: insert_queued_def)
  have buf: "fallbackBuffers (snd (insert_queued ?r (sent ?t))) = fallbackBuffers s" by (simp add: insert_frame trimmed_frame)
  show ?thesis
  proof (cases "insert_queued ?r (sent ?t)")
    case (Pair res s3)
    then show ?thesis using ht ins buf push assms(2)
      by (cases res) (auto simp: enqueue_checked_eq sql_eqs addToFallbackBuffer_def)
  qed
qed

lemma Enqueue_returns:
  assumes "healthy e s" "fallbackBuffers s (ev_UserID ev) = None"
  shows "\<exists>x s'. EnqueueScrobble (Suc fuel) e ev s = Some (x, s') \<and> (queued_scrobbles s' = queued_scrobbles s \<or>
    (\<exists>r. q_user_id r = ev_UserID ev \<and>
       queued_scrobbles s' \<in> {queued_scrobbles (trimmed e (ev_UserID ev) s), queued_scrobbles (trimmed e (ev_UserID ev) s) @ [r]}))"
proof (cases "prepared e ev s")
  case (Inr ev')
  have u: "ev_UserID ev' = ev_UserID ev"
    using Inr by (auto simp: prepared_def split: sum.splits option.splits if_splits)
  then obtain x t where t: "enqueue_checked e ev' s = Some (x, t)" "x = None \<longrightarrow> fallbackBuffers t = fallbackBuffers s"
    "queued_scrobbles t \<in> {queued_scrobbles (trimmed e (ev_UserID ev) s), queued_scrobbles (trimmed e (ev_UserID ev) s) @ [row_of_event e ev']}"
    using enqueue_checked_returns [of e s ev'] assms by auto
  have "EnqueueScrobble (Suc fuel) e ev s = Some (x, t)"
    using Inr t(1,2) u assms(2) by (cases x) (simp_all add: EnqueueScrobble_eq flushFallbackBuffer_def)
  moreover have "q_user_id (row_of_event e ev') = ev_UserID ev" by (simp add: row_of_event_def u)
  ultimately show ?thesis using t(3) by blast
qed (simp add: EnqueueScrobble_eq)

lemma order_asc_first:
  assumes "order_asc k rows = r # rest" "x \<in> set rows"
  shows "k r \<le> k x"
proof -
  have "sorted (map k (order_asc k rows))" "set (order_asc k rows) = set rows" by (simp_all add: order_asc_def)
  with assms show ?thesis by auto
qed

text \<open>What trimming keeps: everything of other users, and of a queue of at most a thousand all but, if it is full, the oldest event.\<close>

lemma trimmed_queue_full:
  assumes "healthy e s" "schema_ok s" "length (user_queue u s) = 1000"
  shows "\<exists>r \<in> set (user_queue u s). (\<forall>x \<in> set (user_queue u s). q_created r \<le> q_created x) \<and>
    user_queue u (trimmed e u s) = filter (\<lambda>x. x \<noteq> r) (user_queue u s) \<and> length (user_queue u (trimmed e u s)) + 1 = 1000 \<and>
    (\<forall>v. v \<noteq> u \<longrightarrow> user_queue v (trimmed e u s) = user_queue v s)"
proof -
  have ids: "inj_on q_id (set (queued_scrobbles s))" "distinct (map q_id (queued_scrobbles s))"
    using assms(2) by (simp_all add: schema_ok_def queue_ok_def distinct_map)
  have t: "trimmed e u s = evict_oldest u (sent (sent s))" using trimmed_full [OF assms(1)] assms(3) by simp
  obtain r rest where r: "order_asc q_created (user_queue u s) = r # rest"
    using assms(3) by (cases "order_asc q_created (user_queue u s)") (auto simp: order_asc_def simp flip: length_0_conv)
  then have mem: "r \<in> set (user_queue u s)" by (metis list.set_intros(1) order_asc_def set_sort)
  then have rq: "r \<in> set (queued_scrobbles s)" "q_user_id r = u" by (simp_all add: user_queue_def)
  have "user_queue v (trimmed e u s) = filter (\<lambda>x. q_id x \<noteq> q_id r) (user_queue v s)" for v
    unfolding t evict_oldest_def user_queue_sent r by (simp add: user_queue_def conj_commute)
  moreover have "filter (\<lambda>x. q_id x \<noteq> q_id r) (user_queue v s) = filter (\<lambda>x. x \<noteq> r) (user_queue v s)" for v
    using rq inj_onD [OF ids(1)] by (intro filter_cong) (auto simp: user_queue_def)
  ultimately have uq: "user_queue v (trimmed e u s) = filter (\<lambda>x. x \<noteq> r) (user_queue v s)" for v by simp
  have "length (user_queue u (trimmed e u s)) + 1 = 1000"
    using length_remove_id [of id "user_queue u s" r] mem ids(2) assms(3) unfolding uq by (simp add: user_queue_def distinct_map)
  moreover have "user_queue v (trimmed e u s) = user_queue v s" if "v \<noteq> u" for v
    using that rq(2) unfolding uq by (intro filter_True) (auto simp: user_queue_def)
  ultimately show ?thesis using mem order_asc_first [OF r] uq by blast
qed

lemma trimmed_queue:
  assumes "healthy e s" "schema_ok s" "length (user_queue u s) \<le> 1000"
  shows "length (user_queue u (trimmed e u s)) < 1000 \<and> length (user_queue u s) \<le> length (user_queue u (trimmed e u s)) + 1 \<and>
    (\<forall>v. v \<noteq> u \<longrightarrow> user_queue v (trimmed e u s) = user_queue v s) \<and>
    (\<forall>r \<in> set (user_queue u s) - set (user_queue u (trimmed e u s)).
      length (user_queue u s) = 1000 \<and> (\<forall>x \<in> set (user_queue u s). q_created r \<le> q_created x))"
proof (cases "length (user_queue u s) = 1000")
  case True
  from trimmed_queue_full [OF assms(1,2) this] True show ?thesis by auto
next
  case False
  then have "length (user_queue u s) < 1000" using assms(3) by simp
  moreover from this have "user_queue v (trimmed e u s) = user_queue v s" for v by (simp add: user_queue_def trimmed_below)
  ultimately show ?thesis by simp
qed

text \<open>
  C28. Capacity: on a working database, for a user with at most a thousand queued events and no
  fallback buffer, an enqueue of any event returns, and afterwards the user has again at most a
  thousand events.  It loses at most one event, and only from a full queue, and that one is the
  oldest; the queues of other users are as before.
\<close>

theorem queue_capacity:
  assumes "healthy e s" "schema_ok s" "fallbackBuffers s u = None" "length (user_queue u s) \<le> 1000" "ev_UserID ev = u"
  shows "\<exists>x s'. EnqueueScrobble (Suc fuel) e ev s = Some (x, s') \<and> length (user_queue u s') \<le> 1000 \<and>
    length (user_queue u s) \<le> length (user_queue u s') + 1 \<and>
    (\<forall>r \<in> set (user_queue u s) - set (user_queue u s'). length (user_queue u s) = 1000 \<and> (\<forall>y \<in> set (user_queue u s). q_created r \<le> q_created y)) \<and>
    (\<forall>v. v \<noteq> u \<longrightarrow> user_queue v s' = user_queue v s)"
proof -
  let ?t = "trimmed e u s"
  have tq: "length (user_queue u ?t) < 1000" "length (user_queue u s) \<le> length (user_queue u ?t) + 1"
    "\<And>v. v \<noteq> u \<Longrightarrow> user_queue v ?t = user_queue v s"
    "\<And>r. r \<in> set (user_queue u s) \<Longrightarrow> r \<notin> set (user_queue u ?t) \<Longrightarrow>
      length (user_queue u s) = 1000 \<and> (\<forall>y \<in> set (user_queue u s). q_created r \<le> q_created y)"
    using trimmed_queue [OF assms(1,2,4)] by auto
  obtain x s' where run: "EnqueueScrobble (Suc fuel) e ev s = Some (x, s')" and
    q: "queued_scrobbles s' = queued_scrobbles s \<or>
      (\<exists>r. q_user_id r = u \<and> queued_scrobbles s' \<in> {queued_scrobbles ?t, queued_scrobbles ?t @ [r]})"
    using Enqueue_returns [of e s ev fuel] assms(1,3,5) by auto
  have uq: "user_queue w s' = user_queue w s \<or> user_queue w s' = user_queue w ?t \<or> w = u \<and> (\<exists>r. user_queue w s' = user_queue w ?t @ [r])" for w
    using q by (cases "w = u") (auto simp: user_queue_def)
  have "user_queue v s' = user_queue v s" if "v \<noteq> u" for v using uq [of v] tq(3) [OF that] that by auto
  moreover have "length (user_queue u s') \<le> 1000" "length (user_queue u s) \<le> length (user_queue u s') + 1"
    using uq [of u] tq(1,2) assms(4) by auto
  moreover have "length (user_queue u s) = 1000 \<and> (\<forall>y \<in> set (user_queue u s). q_created r \<le> q_created y)"
    if "r \<in> set (user_queue u s)" "r \<notin> set (user_queue u s')" for r
    using uq [of u] tq(4) [OF that(1)] that by auto
  ultimately show ?thesis using run by auto
qed

text \<open>A full queue: a thousand events of one user.\<close>

definition full_row :: "nat \<Rightarrow> queued_row" where
  "full_row n = \<lparr>q_id = itoa (int n), q_user_id = ''u'', q_body = ScrobbleBody_MarshalJSON zero_Body, q_action = ''stop'',
     q_progress = 10, q_created = int n, q_retry = 0, q_last = None, q_player = ''p'', q_rating = itoa (int n)\<rparr>"

definition full_db :: pg where
  "full_db = demo_db\<lparr>queued_scrobbles := map full_row [0..<1000]\<rparr>"

lemma full_db_facts:
  "schema_ok full_db" "length (user_queue ''u'' full_db) = 1000" "no_fallback i full_db"
  by (simp_all add: schema_ok_def table_ok_defs full_db_def demo_db_def pg_empty_def distinct_map inj_on_def
      full_row_def queued_key_def queued_check_def list_all_iff demo_user_row_def user_queue_def comp_def no_fallback_def
      image_subset_iff)

theorem queue_capacity_witness:
  "\<exists>s'. EnqueueScrobble 1 demo_env (demo_event\<lparr>ev_ID := itoa 1000, ev_RatingKey := itoa 1000\<rparr>) full_db = Some (None, s') \<and>
     length (user_queue ''u'' full_db) = 1000 \<and> length (user_queue ''u'' s') = 1000 \<and> itoa 1000 \<in> q_id ` set (user_queue ''u'' s')"
proof -
  let ?ev = "demo_event\<lparr>ev_ID := itoa 1000, ev_RatingKey := itoa 1000\<rparr>" and ?t = "trimmed demo_env ''u'' full_db"
  have "itoa 1000 \<noteq> []" by (simp add: itoa_def)
  then have ev: "event_wf ?ev" "ev_ID ?ev \<noteq> []" "ev_CreatedAt ?ev \<noteq> 0" "ev_UserID ?ev = ''u''" by (simp_all add: event_wf_def demo_event_def)
  have none: "fallbackBuffers full_db ''u'' = None" "length (user_queue ''u'' full_db) \<le> 1000"
    using full_db_facts(2) by (simp_all add: full_db_def demo_db_def pg_empty_def)
  from queue_capacity [OF demo_healthy full_db_facts(1) none ev(4), of 0] obtain x s' where
    s': "EnqueueScrobble (Suc 0) demo_env ?ev full_db = Some (x, s')" "length (user_queue ''u'' s') \<le> 1000" by (elim exE conjE)
  have row: "row_of_event demo_env ?ev = (row_of_event demo_env demo_event)\<lparr>q_id := itoa 1000, q_rating := itoa 1000\<rparr>"
    by (simp add: row_of_event_def)
  have "new_row (row_of_event demo_env ?ev) full_db"
    by (auto simp: new_row_def row full_db_def demo_db_def full_row_def queued_check_def queued_key_def demo_user_row_def)
      (simp_all add: row_of_event_def demo_event_def)
  from Enqueue_new [OF demo_healthy ev(1-3) _ this, of 0] full_db_facts(3) s'(1) ev(4)
  have "x = None" "queued_scrobbles s' = queued_scrobbles ?t @ [row_of_event demo_env ?ev]" by auto
  moreover have "q_user_id (row_of_event demo_env ?ev) = ''u''" "q_id (row_of_event demo_env ?ev) = itoa 1000" by (simp_all add: row_of_event_def)
  ultimately have "x = None" "user_queue ''u'' s' = user_queue ''u'' ?t @ [row_of_event demo_env ?ev]" "itoa 1000 \<in> q_id ` set (user_queue ''u'' s')"
    by (auto simp: user_queue_def)
  moreover have "1000 \<le> length (user_queue ''u'' ?t) + 1"
    using trimmed_queue [OF demo_healthy full_db_facts(1) none(2)] full_db_facts(2) by auto
  ultimately show ?thesis using s' full_db_facts(2) by auto
qed

text \<open>
  At capacity the oldest event is evicted before the insertion looks for duplicates: when
  the new event repeats the player and rating key of an event that is still queued, nothing
  is inserted, the call reports success, and the user has lost one event.
\<close>

theorem duplicate_at_capacity_loses_event:
  assumes "healthy e s" "schema_ok s" "event_wf ev" "ev_ID ev \<noteq> []" "ev_CreatedAt ev \<noteq> 0"
    "0 \<le> RetryCount ev" "RetryCount ev \<le> 5" "no_fallback (ev_UserID ev) s"
    "1000 \<le> length (user_queue (ev_UserID ev) s)"
    "queued_key (row_of_event e ev) \<in> queued_key ` set (queued_scrobbles (evict_oldest (ev_UserID ev) s))"
  shows "\<exists>s'. EnqueueScrobble (Suc fuel) e ev s = Some (None, s') \<and>
    length (user_queue (ev_UserID ev) s') + 1 = length (user_queue (ev_UserID ev) s)"
proof -
  let ?u = "ev_UserID ev"
  have t: "trimmed e ?u s = evict_oldest ?u (sent (sent s))" by (rule trimmed_full) fact+
  then have "queued_key (row_of_event e ev) \<in> queued_key ` set (queued_scrobbles (trimmed e ?u s))"
    using assms(10) by (simp add: evict_oldest_def Let_def)
  from enqueue_checked_duplicate [OF assms(1) row_of_event_check this] assms
  have "EnqueueScrobble (Suc fuel) e ev s = Some (None, sent (trimmed e ?u s))"
    by (simp add: EnqueueScrobble_eq prepared_ok flush_nothing no_fallback_def trimmed_frame)
  moreover have "length (user_queue ?u (trimmed e ?u s)) + 1 = length (user_queue ?u s)"
    using evict_length [of "sent (sent s)" ?u] assms(2,9) unfolding t
    by (fastforce simp: schema_ok_def queue_ok_def)
  ultimately show ?thesis by simp
qed

lemma sorted_wrt_upt_le: "sorted_wrt (\<lambda>i j. int i \<le> int j) [m..<n]"
  by (rule sorted_wrt_mono_rel [of _ "(<)"]) simp_all

lemma full_db_999: "full_row 999 \<in> set (queued_scrobbles (evict_oldest ''u'' full_db))"
proof -
  have "user_queue ''u'' full_db = map full_row [0..<1000]"
    by (simp add: user_queue_def full_db_def full_row_def filter_id_conv)
  moreover have "order_asc q_created (map full_row [0..<1000]) = map full_row [0..<1000]"
    unfolding order_asc_def by (rule sort_key_id_if_sorted) (simp add: full_row_def comp_def sorted_map sorted_wrt_upt_le)
  moreover have "take 1 (map full_row [0..<1000]) = [full_row 0]"
    by (subst upt_conv_Cons) simp_all
  ultimately have "queued_scrobbles (evict_oldest ''u'' full_db) =
      filter (\<lambda>r. q_id r \<noteq> q_id (full_row 0)) (queued_scrobbles full_db)"
    by (simp add: evict_oldest_def)
  then show ?thesis by (auto simp: full_db_def) (simp add: full_row_def)
qed

theorem duplicate_at_capacity_loses_event_witness:
  "\<exists>s'. EnqueueScrobble 1 demo_env (demo_event\<lparr>ev_RatingKey := itoa 999\<rparr>) full_db = Some (None, s') \<and>
     length (user_queue ''u'' s') = 999"
proof -
  let ?ev = "demo_event\<lparr>ev_RatingKey := itoa 999\<rparr>"
  have "queued_key (row_of_event demo_env ?ev) = queued_key (full_row 999)"
    by (simp add: queued_key_def row_of_event_def full_row_def demo_event_def)
  then have key: "queued_key (row_of_event demo_env ?ev) \<in> queued_key ` set (queued_scrobbles (evict_oldest ''u'' full_db))"
    using full_db_999 by (metis imageI)
  have "itoa 999 \<noteq> []" by (simp add: itoa_def)
  then have "event_wf ?ev" by (simp add: event_wf_def demo_event_def)
  then show ?thesis
    using duplicate_at_capacity_loses_event [of demo_env full_db ?ev 0] key full_db_facts
    by (simp add: demo_event_def)
qed

section \<open>The flush of the fallback buffer\<close>

text \<open>An event that the database accepts: valid, and not in conflict with a queued identifier.\<close>

definition acceptable :: "QueuedScrobbleEvent \<Rightarrow> pg \<Rightarrow> bool" where
  "acceptable ev s \<longleftrightarrow> event_wf ev \<and> ev_ID ev \<noteq> [] \<and> ev_CreatedAt ev \<noteq> 0 \<and> 0 \<le> RetryCount ev \<and> RetryCount ev \<le> 5 \<and>
     ev_UserID ev \<in> u_id ` set (users s) \<and>
     (\<forall>r \<in> set (queued_scrobbles s). q_id r = ev_ID ev \<longrightarrow> queued_key r = (PlayerUUID ev, ev_RatingKey ev))"

definition buffered_first :: "string \<Rightarrow> QueuedScrobbleEvent \<Rightarrow> pg \<Rightarrow> bool" where
  "buffered_first uid ev s \<longleftrightarrow> (\<exists>b rest. fallbackBuffers s uid = Some b \<and> InMemoryBuffer_GetAll b = ev # rest)"

lemma acceptable_enqueue:
  assumes "healthy e s" "acceptable ev s"
  shows "\<exists>t. enqueue_checked e ev s = Some (None, t) \<and> healthy e t \<and> users t = users s \<and>
    fallbackBuffers t = fallbackBuffers s \<and>
    set (queued_scrobbles t) \<subseteq> set (queued_scrobbles s) \<union> {row_of_event e ev}"
proof -
  let ?r = "row_of_event e ev"
  let ?t = "trimmed e (ev_UserID ev) s"
  have ht: "healthy e ?t" using assms(1) by (rule healthy_Suc) (simp add: trimmed_frame)
  have check: "queued_check ?r" using assms(2) by (simp add: acceptable_def row_of_event_check)
  show ?thesis
  proof (cases "queued_key ?r \<in> queued_key ` set (queued_scrobbles ?t)")
    case True
    from enqueue_checked_duplicate [OF assms(1) check True] show ?thesis
      using trimmed_subset [of e "ev_UserID ev" s] ht by (auto simp: trimmed_frame intro: healthy_Suc)
  next
    case False
    have "q_id ?r \<notin> q_id ` set (queued_scrobbles ?t)"
    proof
      assume "q_id ?r \<in> q_id ` set (queued_scrobbles ?t)"
      then obtain r where r: "r \<in> set (queued_scrobbles ?t)" "q_id r = ev_ID ev"
        by (auto simp: row_of_event_def)
      with trimmed_subset assms(2) have "queued_key r = queued_key ?r"
        by (fastforce simp: acceptable_def row_of_event_def queued_key_def)
      with r(1) False show False by (metis imageI)
    qed
    with False check assms(2) have "new_row ?r (sent ?t)"
      by (simp add: new_row_def acceptable_def trimmed_frame) (simp add: row_of_event_def)
    with ht have "enqueue_checked e ev s = Some (None, sent ?t\<lparr>queued_scrobbles := queued_scrobbles ?t @ [?r]\<rparr>)"
      by (simp add: enqueue_checked_eq sql_eqs insert_new_row)
    with ht show ?thesis
      using trimmed_subset [of e "ev_UserID ev" s] by (auto simp: trimmed_frame intro: healthy_Suc)
  qed
qed

lemma acceptable_frame:
  assumes "acceptable ev1 s" "users t = users s"
    "set (queued_scrobbles t) \<subseteq> set (queued_scrobbles s) \<union> {row_of_event e ev}"
    "ev_ID ev = ev_ID ev1 \<longrightarrow> PlayerUUID ev = PlayerUUID ev1 \<and> ev_RatingKey ev = ev_RatingKey ev1"
  shows "acceptable ev1 t"
  using assms by (fastforce simp: acceptable_def row_of_event_def queued_key_def)

lemma flush_repeats:
  assumes "buffered_first uid ev s" "enq ev s = None"
  shows "flushFallbackBuffer enq uid s = None"
  using assms by (auto simp: buffered_first_def flushFallbackBuffer_def)

lemma buffered_event_diverges:
  "healthy e s \<Longrightarrow> acceptable ev s \<Longrightarrow> buffered_first (ev_UserID ev) ev s \<Longrightarrow> EnqueueScrobble fuel e ev s = None"
proof (induction fuel arbitrary: s)
  case (Suc fuel)
  obtain t where t: "enqueue_checked e ev s = Some (None, t)" "healthy e t" "users t = users s"
    "fallbackBuffers t = fallbackBuffers s" "set (queued_scrobbles t) \<subseteq> set (queued_scrobbles s) \<union> {row_of_event e ev}"
    using acceptable_enqueue [OF Suc.prems(1,2)] by blast
  have b: "buffered_first (ev_UserID ev) ev t" using Suc.prems(3) t(4) by (simp add: buffered_first_def)
  have "EnqueueScrobble fuel e ev t = None"
    by (rule Suc.IH [OF t(2) acceptable_frame [OF Suc.prems(2) t(3,5)] b]) simp
  from flush_repeats [where enq = "EnqueueScrobble fuel e", OF b this] Suc.prems(2) t(1) show ?case
    by (simp add: EnqueueScrobble_eq prepared_ok acceptable_def)
qed simp

text \<open>
  C36. Once an event has gone to the fallback buffer, recovery hangs: when the database works
  again, the next enqueue for that user inserts its event and flushes the buffer, the flush
  enqueues the first buffered event, that call flushes the same, still full buffer, and so on
  without end, so that no number of nested calls completes.
\<close>

theorem fallback_flush_never_returns:
  assumes "healthy e s" "acceptable ev s" "acceptable ev1 s" "ev_ID ev \<noteq> ev_ID ev1"
    "ev_UserID ev1 = ev_UserID ev" "buffered_first (ev_UserID ev) ev1 s"
  shows "EnqueueScrobble fuel e ev s = None"
proof (cases fuel)
  case (Suc f)
  obtain t where t: "enqueue_checked e ev s = Some (None, t)" "healthy e t" "users t = users s"
    "fallbackBuffers t = fallbackBuffers s" "set (queued_scrobbles t) \<subseteq> set (queued_scrobbles s) \<union> {row_of_event e ev}"
    using acceptable_enqueue [OF assms(1,2)] by blast
  have b: "buffered_first (ev_UserID ev) ev1 t" using assms(6) t(4) by (simp add: buffered_first_def)
  have "EnqueueScrobble f e ev1 t = None"
    using acceptable_frame [OF assms(3) t(3,5)] assms(4,5) b by (intro buffered_event_diverges [OF t(2)]) simp_all
  from flush_repeats [where enq = "EnqueueScrobble f e", OF b this] assms(2) t(1) Suc show ?thesis
    by (simp add: EnqueueScrobble_eq prepared_ok acceptable_def)
qed simp

text \<open>The outage and the recovery: the first statements fail, later ones succeed.\<close>

definition outage_env :: env where
  "outage_env = demo_env\<lparr>env_fault := (\<lambda>n. if n < 2 then Some (Err ''connection refused'') else None)\<rparr>"

theorem fallback_flush_never_returns_witness:
  "\<exists>s1. EnqueueScrobble 1 outage_env demo_event demo_db =
       Some (Some (Wrap ''failed to insert event'' (Err ''connection refused'')), s1) \<and>
     (\<forall>fuel. EnqueueScrobble fuel outage_env (demo_event\<lparr>ev_ID := ''e2'', ev_RatingKey := ''k2''\<rparr>) s1 = None)"
proof -
  let ?ev = "demo_event\<lparr>ev_ID := ''e2'', ev_RatingKey := ''k2''\<rparr>"
  define b where "b = NewInMemoryBuffer 100\<lparr>buf_ring := replicate 99 None @ [Some demo_event]\<rparr>"
  define s1 where "s1 = sent (sent demo_db)\<lparr>fallbackBuffers := [''u'' \<mapsto> b]\<rparr>"
  have push: "InMemoryBuffer_Push demo_event (NewInMemoryBuffer fallbackBufferSize) = Some b"
    by (simp add: InMemoryBuffer_Push_def NewInMemoryBuffer_def ring_New_def fallbackBufferSize_def b_def numeral_eq_Suc)
  have "prepared outage_env demo_event demo_db = Inr demo_event" by (rule prepared_ok) simp_all
  then have run: "EnqueueScrobble 1 outage_env demo_event demo_db =
      Some (Some (Wrap ''failed to insert event'' (Err ''connection refused'')), s1)"
    using push
    by (simp add: EnqueueScrobble_eq enqueue_checked_eq trimmed_def sql_eqs outage_env_def addToFallbackBuffer_def
        s1_def demo_db_def pg_empty_def maxQueuePerUser_def)
  have "healthy outage_env s1"
    by (simp add: healthy_def outage_env_def demo_env_def s1_def demo_db_def pg_empty_def)
  moreover have "acceptable demo_event s1" "acceptable ?ev s1"
    by (simp_all add: acceptable_def s1_def) (simp_all add: demo_event_def event_wf_def)
  moreover have "buffered_first ''u'' demo_event s1"
    by (simp add: buffered_first_def s1_def b_def InMemoryBuffer_GetAll_def)
  ultimately have "\<forall>fuel. EnqueueScrobble fuel outage_env ?ev s1 = None"
    using fallback_flush_never_returns [of outage_env s1 ?ev demo_event] by simp
  with run show ?thesis by blast
qed

end
