(* ===== verification/Webhook_Flow.thy ===== *)
theory Webhook_Flow
  imports Trakt Queue_Laws
begin

text \<open>
  The Trakt client on the PostgreSQL store, as \<open>main\<close> puts them together: what happens to a
  webhook when Trakt accepts, refuses or does not answer.  The world is the database, the
  event log and the state of the network.
\<close>

type_synonym 'n world = "pg \<times> QueueEventLog \<times> 'n"

text \<open>\<open>fuel\<close> bounds the nested calls of the store's enqueue operation.\<close>

definition pg_trakt :: "nat \<Rightarrow> env \<Rightarrow> (http_request \<Rightarrow> 'n \<Rightarrow> http_response result \<times> 'n) \<Rightarrow> (string \<Rightarrow> json option) \<Rightarrow>
    (string \<Rightarrow> (string \<times> string) option) \<Rightarrow> string \<Rightarrow> string \<Rightarrow> 'n world TraktEnv" where
  "pg_trakt fuel e net parse url cid secret = \<lparr>ClientId = cid, clientSecret = secret,
     te_http = (\<lambda>req (s, l, n). let (r, n') = net req n in (r, (s, l, n'))),
     te_parse = parse, te_url = url,
     te_now = (\<lambda>(s, l, n). env_now e (stmt_no s)),
     te_GetScrobbleBody = (\<lambda>p k (s, l, n). (pg_GetScrobbleBody p k s, (s, l, n))),
     te_WriteScrobbleBody = (\<lambda>item (s, l, n). Some (pg_WriteScrobbleBody item s, l, n)),
     te_EnqueueScrobble = (\<lambda>ev (s, l, n). map_option (\<lambda>(x, s'). (x, (s', l, n))) (EnqueueScrobble fuel e ev s)),
     te_GetQueueSize = (\<lambda>i (s, l, n). let (r, s') = GetQueueSize e i s in (r, (s', l, n))),
     te_queueEventLog = Some (\<lambda>ev (s, l, n). map_option (\<lambda>l'. (s, l', n)) (QueueEventLog_Append ev l))\<rparr>"

lemma pg_trakt_fields [simp]:
  "ClientId (pg_trakt f e net parse url c sec) = c"
  "te_http (pg_trakt f e net parse url c sec) req (s, l, n) = (fst (net req n), (s, l, snd (net req n)))"
  "te_url (pg_trakt f e net parse url c sec) = url"
  "te_now (pg_trakt f e net parse url c sec) (s, l, n) = env_now e (stmt_no s)"
  "te_GetScrobbleBody (pg_trakt f e net parse url c sec) p k (s, l, n) = (zero_CacheItem, (s, l, n))"
  "te_WriteScrobbleBody (pg_trakt f e net parse url c sec) item (s, l, n) = Some (s, l, n)"
  "te_EnqueueScrobble (pg_trakt f e net parse url c sec) ev (s, l, n) =
     map_option (\<lambda>(x, s'). (x, (s', l, n))) (EnqueueScrobble f e ev s)"
  "te_GetQueueSize (pg_trakt f e net parse url c sec) i (s, l, n) =
     (fst (GetQueueSize e i s), (snd (GetQueueSize e i s), l, n))"
  "te_queueEventLog (pg_trakt f e net parse url c sec) =
     Some (\<lambda>ev (s, l, n). map_option (\<lambda>l'. (s, l', n)) (QueueEventLog_Append ev l))"
  by (simp_all add: pg_trakt_def pg_GetScrobbleBody_def pg_WriteScrobbleBody_def case_prod_beta)

text \<open>Trakt never accepts a scrobble with the document \<open>null\<close>, on which the decoder panics.\<close>

definition no_null :: "(http_request \<Rightarrow> 'm \<Rightarrow> http_response result \<times> 'm) \<Rightarrow> bool" where
  "no_null net \<longleftrightarrow> (\<forall>req m r. fst (net req m) = Inr r \<and> success (StatusCode r) \<longrightarrow> body_json r \<noteq> Some JNull)"

text \<open>A webhook the client acts on: identified player, item and server, a known event and known media.\<close>

definition actionable :: "'n world TraktEnv \<Rightarrow> Webhook \<Rightarrow> ScrobbleBody \<Rightarrow> bool" where
  "actionable te hook body \<longleftrightarrow> pl_UUID (wh_Player hook) \<noteq> [] \<and> md_RatingKey (wh_Metadata hook) \<noteq> [] \<and>
     srv_UUID (wh_Server hook) \<noteq> [] \<and> media_body te hook = Some body \<and>
     Event hook \<in> {''media.play'', ''media.resume'', ''playback.started'', ''media.pause'', ''media.stop'', ''media.scrobble''}"

text \<open>The item that is sent, on a store without playback cache.\<close>

definition sent_item :: "Webhook \<Rightarrow> ScrobbleBody \<Rightarrow> int \<Rightarrow> CacheItem" where
  "sent_item hook body progress = zero_CacheItem\<lparr>PlayerUuid := pl_UUID (wh_Player hook), ServerUuid := srv_UUID (wh_Server hook),
     CRatingKey := md_RatingKey (wh_Metadata hook), Trigger := Event hook, Body := body\<lparr>Progress := progress\<rparr>\<rparr>"

lemma getAction_pg:
  assumes "getAction (pg_trakt f e net parse url c sec) hook (s, l, n) = ((action, cache, progress), w)"
  shows "cache = zero_CacheItem" "w = (s, l, n)"
  using assms by (auto simp: getAction_def Let_def split: if_splits)

lemma actionable_action:
  assumes "actionable te hook body" "getAction te hook w = ((action, cache, progress), w')"
  shows "action \<in> {''start'', ''pause'', ''stop''}"
  using assms by (auto simp: actionable_def getAction_def action_defs Let_def split: prod.splits if_splits)

lemma Handle_sends:
  assumes "actionable (pg_trakt f e net parse url c sec) hook body"
    "getAction (pg_trakt f e net parse url c sec) hook (s, l, n) = ((action, cache, progress), w)"
  shows "Handle (pg_trakt f e net parse url c sec) (Some hook) user (s, l, n) =
    scrobbleRequest (pg_trakt f e net parse url c sec) action (sent_item hook body progress) user (s, l, n)"
proof -
  have "action \<noteq> []" using actionable_action [OF assms] by auto
  with assms getAction_pg [OF assms(2)] show ?thesis
    by (auto simp: Handle_def actionable_def is_duplicate_def sent_item_def zero_CacheItem_def)
qed

lemma Enqueue_prepared:
  assumes "healthy e s" "prepared e ev s = Inr ev'" "no_fallback (ev_UserID ev') s" "new_row (row_of_event e ev') s"
    "length (user_queue (ev_UserID ev') s) < 1000"
  shows "\<exists>s'. EnqueueScrobble (Suc fuel) e ev s = Some (None, s') \<and> queued_scrobbles s' = queued_scrobbles s @ [row_of_event e ev'] \<and>
    users s' = users s \<and> healthy e s'"
proof -
  let ?t = "trimmed e (ev_UserID ev') s"
  let ?s = "sent ?t\<lparr>queued_scrobbles := queued_scrobbles ?t @ [row_of_event e ev']\<rparr>"
  have "EnqueueScrobble (Suc fuel) e ev s = Some (None, ?s)"
    using assms(1-4) by (simp add: EnqueueScrobble_eq enqueue_checked_new flush_nothing no_fallback_def trimmed_frame)
  moreover have "healthy e ?s" using assms(1) by (rule healthy_Suc) (use trimmed_frame(3) [of s e "ev_UserID ev'"] in simp)
  ultimately show ?thesis using trimmed_below [OF assms(5)] by (simp add: trimmed_frame)
qed

lemma outage_queues:
  assumes te: "te = pg_trakt (Suc fuel) e net parse url c sec"
    and hook: "actionable te hook body" "position_ok hook" "getAction te hook (s, l, n) = ((action, cache, progress), w)"
    and ev: "ev = (queued_event user (sent_item hook body progress) action)\<lparr>ev_ID := eid, ev_CreatedAt := env_now e (stmt_no s)\<rparr>"
    and down: "retry_worthy (fst (net (scrobble_req te action (body\<lparr>Progress := progress\<rparr>) (AccessToken user)) n))"
    and db: "healthy e s" "log_inv 100 l" "generateEventID (env_rand e (stmt_no s)) = Inr eid" "new_row (row_of_event e ev) s"
    and user: "usr_ID user \<noteq> []" "no_fallback (usr_ID user) s" "length (user_queue (usr_ID user) s) < 1000"
  shows "\<exists>s' l'. Handle te (Some hook) user (s, l, n) =
      Some (s', l', snd (net (scrobble_req te action (body\<lparr>Progress := progress\<rparr>) (AccessToken user)) n)) \<and>
    queued_scrobbles s' = queued_scrobbles s @ [row_of_event e ev] \<and>
    length (log_contents l') = min 100 (length (log_contents l) + 1) \<and>
    users s' = users s \<and> healthy e s' \<and> log_inv 100 l' \<and> (schema_ok s \<longrightarrow> schema_ok s')"
proof -
  let ?item = "sent_item hook body progress"
  let ?ev0 = "queued_event user ?item action"
  have body: "Body ?item = body\<lparr>Progress := progress\<rparr>" by (simp add: sent_item_def)
  have wf: "event_wf (?ev0\<lparr>ev_ID := eid\<rparr>)"
    using hook(1) user(1) getAction_spec [OF hook(2,3)] actionable_action [OF hook(1,3)]
    by (auto simp: event_wf_def queued_event_def sent_item_def actionable_def)
  have prep: "prepared e ?ev0 s = Inr ev"
    using wf db(3) validateEvent_ok [of "?ev0\<lparr>ev_ID := eid\<rparr>"]
    by (simp add: prepared_def ev) (simp add: queued_event_def)
  have "ev_UserID ev = usr_ID user" by (simp add: ev queued_event_def)
  then obtain s1 where s1: "EnqueueScrobble (Suc fuel) e ?ev0 s = Some (None, s1)"
    "queued_scrobbles s1 = queued_scrobbles s @ [row_of_event e ev]" "users s1 = users s" "healthy e s1"
    using Enqueue_prepared [OF db(1) prep] db(4) user(2,3) by auto
  have app: "\<exists>l'. QueueEventLog_Append x l = Some l' \<and> log_inv 100 l' \<and> log_contents l' =
      drop (Suc (length (log_contents l)) - 100) (log_contents l @ [x])" for x
    using log_put_law [OF _ db(2), of x] by auto
  obtain n' r where net: "net (scrobble_req te action (Body ?item) (AccessToken user)) n = (r, n')" "retry_worthy r"
    using down body by (metis prod.collapse)
  have enq: "\<exists>l'. enqueueScrobbleEvent te user ?item action (s, l, n') = Some (sent s1, l', n') \<and>
      length (log_contents l') = min 100 (length (log_contents l) + 1) \<and> log_inv 100 l'"
  proof -
    define entry where "entry = \<lparr>Timestamp = env_now e (stmt_no (sent s1)), Operation = ''queue_enqueue'', ql_UserID = usr_ID user,
      ql_Username = Username user, EventID = ev_ID ?ev0,
      ql_QueueSize = (case fst (GetQueueSize e (usr_ID user) s1) of Inr k \<Rightarrow> k | Inl _ \<Rightarrow> 0), ql_RetryCount = 0, ql_Error = [], Details = []\<rparr>"
    obtain l' where "QueueEventLog_Append entry l = Some l'" "length (log_contents l') = min 100 (length (log_contents l) + 1)"
      "log_inv 100 l'" using app [of entry] by auto
    then show ?thesis using s1(1)
      by (simp add: enqueueScrobbleEvent_def te Let_def entry_def)
  qed
  have "Handle te (Some hook) user (s, l, n) = enqueueScrobbleEvent te user ?item action (s, l, n')"
    using Handle_sends [OF hook(1,3)[unfolded te], of user] net
    by (auto simp: scrobbleRequest_def retry_worthy_def te split: sum.splits)
  moreover have "schema_ok s \<longrightarrow> schema_ok s1" using schema_EnqueueScrobble s1(1) by blast
  moreover have "healthy e (sent s1)" using s1(4) by (rule healthy_Suc) simp
  moreover have "snd (net (scrobble_req te action (body\<lparr>Progress := progress\<rparr>) (AccessToken user)) n) = n'" using net(1) body by simp
  ultimately show ?thesis using enq s1(2,3) by auto
qed

text \<open>
  Nothing is lost while Trakt is down: an actionable webhook whose scrobble fails on the
  network, or that Trakt answers with 429, 502, 503 or 504, ends as exactly one new event in
  the user's queue, with the action, progress, media, player and rating key of the webhook,
  and as one entry in the event log, provided the database works and the user's queue has
  room and no event for that player and item.
\<close>

theorem outage_queues_webhook:
  assumes te: "te = pg_trakt (Suc fuel) e net parse url c sec"
    and hook: "actionable te hook body" "position_ok hook" "getAction te hook (s, l, n) = ((action, cache, progress), w)"
    and ev: "ev = (queued_event user (sent_item hook body progress) action)\<lparr>ev_ID := eid, ev_CreatedAt := env_now e (stmt_no s)\<rparr>"
    and down: "retry_worthy (fst (net (scrobble_req te action (body\<lparr>Progress := progress\<rparr>) (AccessToken user)) n))"
    and db: "healthy e s" "log_inv 100 l" "generateEventID (env_rand e (stmt_no s)) = Inr eid" "new_row (row_of_event e ev) s"
    and user: "usr_ID user \<noteq> []" "no_fallback (usr_ID user) s" "length (user_queue (usr_ID user) s) < 1000"
  shows "\<exists>s' l' n'. Handle te (Some hook) user (s, l, n) = Some (s', l', n') \<and>
    queued_scrobbles s' = queued_scrobbles s @ [row_of_event e ev] \<and>
    length (log_contents l') = min 100 (length (log_contents l) + 1)"
  using outage_queues [OF assms] by blast

text \<open>A Trakt that is down, and the webhook of a film at half time.\<close>

definition down_net :: "http_request \<Rightarrow> unit \<Rightarrow> http_response result \<times> unit" where
  "down_net req u = (Inl (Err ''connection refused''), u)"

definition demo_user :: User where
  "demo_user = \<lparr>usr_ID = ''u'', Username = ''bob'', AccessToken = ''tok'', RefreshToken = ''r'', TraktDisplayName = [],
     Updated = 1, TokenExpiry = 2, has_store = True\<rparr>"

definition demo_pg_te :: "unit world TraktEnv" where
  "demo_pg_te = pg_trakt 1 demo_env down_net (\<lambda>_. None) (\<lambda>_. None) ''id'' ''secret''"

definition heat :: ScrobbleBody where
  "heat = zero_Body\<lparr>BMovie := Some (zero_Movie\<lparr>MovieIds := zero_Ids\<lparr>Tmdb := Some 603\<rparr>\<rparr>)\<rparr>"

lemma heat_ids: "guid_ids [''tmdb://603''] = (zero_Ids\<lparr>Tmdb := Some 603\<rparr>, True)"
proof -
  have "Atoi ''603'' = (603, True)" by code_simp
  then show ?thesis by (simp add: guid_ids_def guid_step_def service_defs)
qed

lemma demo_actionable: "actionable demo_pg_te demo_hook heat"
  by (simp add: actionable_def media_body_def handleMovie_def demo_hook_def heat_ids heat_def)

lemma demo_action: "getAction demo_pg_te demo_hook (demo_db, l, ()) = ((''pause'', zero_CacheItem, 50), (demo_db, l, ()))"
proof -
  have "math_Round (f64_mult (f64_div (f64 50) (f64 100)) 100) = 50" by code_simp
  then show ?thesis
    by (simp add: getAction_def demo_pg_te_def) (simp add: demo_hook_def action_defs ProgressThreshold_def)
qed

theorem outage_queues_webhook_witness:
  "\<exists>s' l' n'. Handle demo_pg_te (Some demo_hook) demo_user (demo_db, NewQueueEventLog 100, ()) = Some (s', l', n') \<and>
     length (queued_scrobbles s') = 1 \<and> length (log_contents l') = 1"
proof -
  obtain eid where eid: "generateEventID (env_rand demo_env (stmt_no demo_db)) = Inr eid"
    by (simp add: generateEventID_def demo_env_def Let_def)
  define ev where "ev = (queued_event demo_user (sent_item demo_hook heat 50) ''pause'')
    \<lparr>ev_ID := eid, ev_CreatedAt := env_now demo_env (stmt_no demo_db)\<rparr>"
  have "new_row (row_of_event demo_env ev) demo_db"
    by (simp add: new_row_def) (simp add: row_of_event_def ev_def queued_event_def sent_item_def demo_user_def queued_check_def)
  moreover have "log_contents (NewQueueEventLog 100) = []" by (simp add: NewQueueEventLog_def ring_New_def)
  moreover have "position_ok demo_hook" by (simp add: position_ok_def demo_hook_def)
  moreover have "usr_ID demo_user = ''u''" by (simp add: demo_user_def)
  ultimately show ?thesis
    using outage_queues_webhook [where te = demo_pg_te and fuel = 0 and e = demo_env and net = down_net and
        parse = "\<lambda>_. None" and url = "\<lambda>_. None" and c = "''id''" and sec = "''secret''" and hook = demo_hook and body = heat and
        s = demo_db and l = "NewQueueEventLog 100" and n = "()" and action = "''pause''" and cache = zero_CacheItem and
        progress = 50 and ev = ev and user = demo_user and eid = eid]
      demo_actionable demo_action eid event_log.fresh_inv
    by (auto simp: demo_pg_te_def down_net_def retry_worthy_def simp flip: ev_def)
qed

text \<open>
  A scrobble that Trakt refuses for good is dropped: for any answer that is neither a
  success nor one of the codes that stand for an outage, handling the webhook leaves the
  database and the event log as they were.
\<close>

theorem refused_webhook_is_dropped:
  assumes "te = pg_trakt fuel e net parse url c sec"
    "actionable te hook body" "getAction te hook (s, l, n) = ((action, cache, progress), w)"
    "net (scrobble_req te action (body\<lparr>Progress := progress\<rparr>) (AccessToken user)) n = (Inr r, n')"
    "\<not> unavailable (StatusCode r)" "\<not> success (StatusCode r)"
  shows "Handle te (Some hook) user (s, l, n) = Some (s, l, n')"
proof -
  have "Body (sent_item hook body progress) = body\<lparr>Progress := progress\<rparr>" by (simp add: sent_item_def)
  with Handle_sends [OF assms(2,3)[unfolded assms(1)], of user] assms show ?thesis
    by (simp add: scrobbleRequest_def)
qed

definition refusing_net :: "http_request \<Rightarrow> unit \<Rightarrow> http_response result \<times> unit" where
  "refusing_net req u = (Inr \<lparr>StatusCode = 401, StatusText = [], body_bytes = [], body_read_err = False, body_json = None\<rparr>, u)"

theorem refused_webhook_is_dropped_witness:
  "Handle (pg_trakt 1 demo_env refusing_net (\<lambda>_. None) (\<lambda>_. None) ''id'' ''secret'') (Some demo_hook) demo_user
     (demo_db, NewQueueEventLog 100, ()) = Some (demo_db, NewQueueEventLog 100, ())"
proof -
  let ?te = "pg_trakt 1 demo_env refusing_net (\<lambda>_. None) (\<lambda>_. None) ''id'' ''secret''"
  have "handleMovie ?te demo_hook = handleMovie demo_pg_te demo_hook" by (simp add: handleMovie_def)
  then have "actionable ?te demo_hook heat"
    using demo_actionable by (simp add: actionable_def media_body_def demo_hook_def)
  moreover have "getAction ?te demo_hook (demo_db, l, ()) = ((''pause'', zero_CacheItem, 50), (demo_db, l, ()))" for l
    using demo_action [of l] by (simp add: getAction_def demo_pg_te_def)
  ultimately show ?thesis
    using refused_webhook_is_dropped [of ?te 1 demo_env refusing_net "\<lambda>_. None" "\<lambda>_. None" "''id''" "''secret''" demo_hook heat
        demo_db "NewQueueEventLog 100" "()"]
    by (simp add: refusing_net_def unavailable_def success_def)
qed

text \<open>
  Beyond the end of the media an outage loses the event: nothing clamps the progress, and
  when it exceeds 100 percent the queue refuses the event, so that with Trakt down the
  webhook leaves no trace in the database or the log.
\<close>

theorem overlong_progress_is_lost:
  assumes "te = pg_trakt (Suc fuel) e net parse url c sec"
    "actionable te hook body" "getAction te hook (s, l, n) = ((action, cache, progress), w)" "100 < progress"
    "net (scrobble_req te action (body\<lparr>Progress := progress\<rparr>) (AccessToken user)) n = (r, n')" "retry_worthy r"
    "generateEventID (env_rand e (stmt_no s)) = Inr eid"
  shows "Handle te (Some hook) user (s, l, n) = Some (s, l, n')"
proof -
  let ?item = "sent_item hook body progress"
  let ?ev = "queued_event user ?item action"
  have body: "Body ?item = body\<lparr>Progress := progress\<rparr>" by (simp add: sent_item_def)
  have "\<not> event_wf (?ev\<lparr>ev_ID := eid\<rparr>)" using assms(4) by (simp add: event_wf_def queued_event_def body)
  then obtain x where "validateEvent (?ev\<lparr>ev_ID := eid\<rparr>) = Some x" using validateEvent_ok by blast
  then have "prepared e ?ev s = Inl (Wrap ''invalid event'' x)"
    using assms(7) by (simp add: prepared_def) (simp add: queued_event_def)
  then have "EnqueueScrobble (Suc fuel) e ?ev s = Some (Some (Wrap ''invalid event'' x), s)" by (simp add: EnqueueScrobble_eq)
  then have "enqueueScrobbleEvent te user ?item action (s, l, n') = Some (s, l, n')"
    by (simp add: enqueueScrobbleEvent_def assms(1) Let_def)
  with Handle_sends [OF assms(2,3)[unfolded assms(1)], of user] assms(1,5,6) body show ?thesis
    by (auto simp: scrobbleRequest_def retry_worthy_def split: sum.splits)
qed

theorem overlong_progress_is_lost_witness:
  "Handle demo_pg_te (Some (demo_hook\<lparr>wh_Metadata := (wh_Metadata demo_hook)\<lparr>ViewOffset := 150\<rparr>\<rparr>)) demo_user
     (demo_db, NewQueueEventLog 100, ()) = Some (demo_db, NewQueueEventLog 100, ())"
proof -
  let ?h = "demo_hook\<lparr>wh_Metadata := (wh_Metadata demo_hook)\<lparr>ViewOffset := 150\<rparr>\<rparr>"
  have "math_Round (f64_mult (f64_div (f64 150) (f64 100)) 100) = 150" by code_simp
  then have "getAction demo_pg_te ?h (demo_db, l, ()) = ((''stop'', zero_CacheItem, 150), (demo_db, l, ()))" for l
    by (simp add: getAction_def demo_pg_te_def) (simp add: demo_hook_def action_defs ProgressThreshold_def)
  moreover have "actionable demo_pg_te ?h heat"
    by (simp add: actionable_def media_body_def handleMovie_def demo_hook_def heat_ids heat_def)
  moreover obtain eid where "generateEventID (env_rand demo_env (stmt_no demo_db)) = Inr eid"
    by (simp add: generateEventID_def demo_env_def Let_def)
  ultimately show ?thesis
    using overlong_progress_is_lost [where te = demo_pg_te and fuel = 0 and e = demo_env and net = down_net and
        parse = "\<lambda>_. None" and url = "\<lambda>_. None" and c = "''id''" and sec = "''secret''" and hook = ?h and body = heat and
        s = demo_db and l = "NewQueueEventLog 100" and n = "()" and user = demo_user]
    by (simp add: demo_pg_te_def down_net_def retry_worthy_def)
qed

text \<open>
  On PostgreSQL no webhook is recognised as a repetition, because that store keeps no
  playback cache: however often the same actionable webhook arrives, each copy is sent to
  Trakt again.
\<close>

theorem pg_repeats_are_sent:
  assumes "te = pg_trakt fuel e net parse url c sec" "actionable te hook body"
  shows "\<exists>action progress. fst (getAction te hook (s, l, n)) = (action, zero_CacheItem, progress) \<and>
    Handle te (Some hook) user (s, l, n) = scrobbleRequest te action (sent_item hook body progress) user (s, l, n)"
proof -
  obtain action cache progress w where act: "getAction te hook (s, l, n) = ((action, cache, progress), w)"
    by (metis prod.collapse)
  with assms Handle_sends [of fuel e net parse url c sec hook body s l n action cache progress w user]
    getAction_pg [of fuel e net parse url c sec hook s l n action cache progress w]
  show ?thesis by auto
qed

theorem pg_repeats_are_sent_witness:
  "\<exists>action progress. Handle demo_pg_te (Some demo_hook) demo_user (demo_db, NewQueueEventLog 100, ()) =
     scrobbleRequest demo_pg_te action (sent_item demo_hook heat progress) demo_user (demo_db, NewQueueEventLog 100, ())"
  using pg_repeats_are_sent [OF demo_pg_te_def demo_actionable, of demo_db "NewQueueEventLog 100" "()" demo_user] by blast

end
