(* ===== verification/Server_State.thy ===== *)
theory Server_State
  imports Queue_Event
begin

text \<open>
  The in-memory state of the server in \<open>main.go\<close>: the filter for repeated webhooks, the
  tracker of running drains, the store of authorisation states, and the small pure functions
  next to them.  Each method holds the mutex of its object throughout, so it is a function of
  the state.  Clock readings are arguments, one for each call of the clock.
\<close>

section \<open>Repeated webhooks\<close>

record webhookDedupeCache =
  entries :: "string \<rightharpoonup> gotime"
  traktScrobbles :: "string \<rightharpoonup> gotime"

definition newWebhookDedupeCache :: webhookDedupeCache where
  "newWebhookDedupeCache = \<lparr>entries = Map.empty, traktScrobbles = Map.empty\<rparr>"

definition specificKey :: "string \<Rightarrow> string \<Rightarrow> string \<Rightarrow> int \<Rightarrow> string" where
  "specificKey plaxtID event ratingKey viewOffset = plaxtID @ '':'' @ event @ '':'' @ ratingKey @ '':'' @ itoa viewOffset"

definition traktKey :: "string \<Rightarrow> string \<Rightarrow> string \<Rightarrow> int \<Rightarrow> string" where
  "traktKey traktDisplayName event ratingKey viewOffset =
     ''TRAKT:'' @ traktDisplayName @ '':'' @ event @ '':'' @ ratingKey @ '':'' @ itoa viewOffset"

definition drop_before :: "gotime \<Rightarrow> (string \<rightharpoonup> gotime) \<Rightarrow> (string \<rightharpoonup> gotime)" where
  "drop_before cutoff mp = (\<lambda>k. case mp k of Some t \<Rightarrow> if t < cutoff then None else Some t | None \<Rightarrow> None)"

definition seen_within :: "duration \<Rightarrow> gotime \<Rightarrow> gotime option \<Rightarrow> bool" where
  "seen_within d now seen = (case seen of Some t \<Rightarrow> now - t < d | None \<Rightarrow> False)"

definition shouldProcess :: "gotime \<Rightarrow> gotime \<Rightarrow> gotime \<Rightarrow> string \<Rightarrow> string \<Rightarrow> string \<Rightarrow> string \<Rightarrow> int \<Rightarrow>
    webhookDedupeCache \<Rightarrow> bool \<times> webhookDedupeCache" where
  "shouldProcess now now2 now3 plaxtID traktDisplayName event ratingKey viewOffset c =
     (let sk = specificKey plaxtID event ratingKey viewOffset;
          tk = traktKey traktDisplayName event ratingKey viewOffset
      in if seen_within (2 * Second) now2 (entries c sk) then (False, c)
         else if seen_within (1 * Second) now3 (traktScrobbles c tk) then (False, c)
         else (let cutoff = now - 10 * Second in
           (True, \<lparr>entries = drop_before cutoff ((entries c)(sk \<mapsto> now)),
                   traktScrobbles = drop_before cutoff ((traktScrobbles c)(tk \<mapsto> now))\<rparr>)))"

lemma drop_before_kept [simp]: "cutoff \<le> t \<Longrightarrow> drop_before cutoff (mp(k \<mapsto> t)) k = Some t"
  by (simp add: drop_before_def)

lemma shouldProcess_True:
  assumes "shouldProcess t t2 t3 plaxtID name event key off c = (True, c')"
  shows "entries c' (specificKey plaxtID event key off) = Some t" "traktScrobbles c' (traktKey name event key off) = Some t"
  using assms by (auto simp: shouldProcess_def Let_def time_defs split: if_splits)

text \<open>
  A webhook that was let through is filtered when it repeats: the same plaxt user, event,
  item and position within two seconds, and any plaxt user of the same Trakt display name
  within one second; the filter forgets entries older than ten seconds.
\<close>

theorem shouldProcess_filters_repeats:
  assumes "shouldProcess t t2 t3 plaxtID name event key off c = (True, c')"
  shows "(u2 - t < 2 * Second \<longrightarrow> shouldProcess u u2 u3 plaxtID name' event key off c' = (False, c')) \<and>
    (u3 - t < 1 * Second \<longrightarrow> fst (shouldProcess u u2 u3 plaxtID' name event key off c') = False) \<and>
    (\<forall>k x. entries c' k = Some x \<or> traktScrobbles c' k = Some x \<longrightarrow> t - 10 * Second \<le> x)"
proof (intro conjI)
  show "u2 - t < 2 * Second \<longrightarrow> shouldProcess u u2 u3 plaxtID name' event key off c' = (False, c')"
    using shouldProcess_True(1) [OF assms] by (simp add: shouldProcess_def seen_within_def Let_def)
  show "u3 - t < 1 * Second \<longrightarrow> fst (shouldProcess u u2 u3 plaxtID' name event key off c') = False"
    using shouldProcess_True(2) [OF assms] by (simp add: shouldProcess_def seen_within_def Let_def)
  show "\<forall>k x. entries c' k = Some x \<or> traktScrobbles c' k = Some x \<longrightarrow> t - 10 * Second \<le> x"
    using assms by (auto simp: shouldProcess_def Let_def drop_before_def split: if_splits option.splits)
qed

theorem shouldProcess_filters_repeats_witness:
  "\<exists>c'. shouldProcess 0 0 0 ''a'' ''bob'' ''media.play'' ''k'' 5 newWebhookDedupeCache = (True, c') \<and>
     fst (shouldProcess 1 1 1 ''b'' ''bob'' ''media.play'' ''k'' 5 c') = False"
proof -
  obtain c' where c': "shouldProcess 0 0 0 ''a'' ''bob'' ''media.play'' ''k'' 5 newWebhookDedupeCache = (True, c')"
    by (simp add: shouldProcess_def newWebhookDedupeCache_def seen_within_def Let_def)
  from shouldProcess_filters_repeats [OF this, of 1 1 1 _ "''b''"] c' show ?thesis by (auto simp: time_defs)
qed

text \<open>
  Two different plaxt users that both have no Trakt display name count as one Trakt
  account: the second one's webhook for the same event, item and position within a second is
  dropped as a duplicate although nothing was scrobbled for that user.
\<close>

lemma nameless_users_collide:
  assumes "shouldProcess t t2 t3 userA [] event key off c = (True, c')" "u3 - t < 1 * Second"
  shows "fst (shouldProcess u u2 u3 userB [] event key off c') = False"
  using shouldProcess_True(2) [OF assms(1)] assms(2) by (simp add: shouldProcess_def seen_within_def Let_def)

section \<open>Running drains\<close>

record UserDrainInfo =
  ud_UserID :: string
  StartedAt :: gotime
  ud_EventsProcessed :: int
  ud_EventsFailed :: int
  NextRetryAt :: "gotime option"

record DrainStateTracker =
  activeUsers :: "(string, UserDrainInfo) map"
  lastHealthCheck :: gotime
  ds_mode :: string

definition NewDrainStateTracker :: DrainStateTracker where
  "NewDrainStateTracker = \<lparr>activeUsers = Map.empty, lastHealthCheck = 0, ds_mode = ''live''\<rparr>"

definition RecordDrainStart :: "gotime \<Rightarrow> string \<Rightarrow> DrainStateTracker \<Rightarrow> DrainStateTracker" where
  "RecordDrainStart now uid d = d\<lparr>activeUsers := (activeUsers d)(uid \<mapsto>
     \<lparr>ud_UserID = uid, StartedAt = now, ud_EventsProcessed = 0, ud_EventsFailed = 0, NextRetryAt = None\<rparr>)\<rparr>"

definition RecordDrainComplete :: "string \<Rightarrow> DrainStateTracker \<Rightarrow> DrainStateTracker" where
  "RecordDrainComplete uid d = d\<lparr>activeUsers := (activeUsers d)(uid := None)\<rparr>"

definition RecordEvent :: "string \<Rightarrow> bool \<Rightarrow> DrainStateTracker \<Rightarrow> DrainStateTracker" where
  "RecordEvent uid good d = (case activeUsers d uid of
     None \<Rightarrow> d
   | Some info \<Rightarrow> d\<lparr>activeUsers := (activeUsers d)(uid \<mapsto>
       (if good then info\<lparr>ud_EventsProcessed := ud_EventsProcessed info + 1\<rparr>
        else info\<lparr>ud_EventsFailed := ud_EventsFailed info + 1\<rparr>))\<rparr>)"

definition GetUserInfo :: "string \<Rightarrow> DrainStateTracker \<Rightarrow> UserDrainInfo option" where
  "GetUserInfo uid d = activeUsers d uid"

text \<open>The keys in the order the map iteration yields them, an argument.\<close>

definition GetAllActiveUsers :: "(string set \<Rightarrow> string list) \<Rightarrow> DrainStateTracker \<Rightarrow> string list" where
  "GetAllActiveUsers iter d = iter (dom (activeUsers d))"

definition SetMode :: "string \<Rightarrow> DrainStateTracker \<Rightarrow> DrainStateTracker" where
  "SetMode m d = d\<lparr>ds_mode := m\<rparr>"

definition GetMode :: "DrainStateTracker \<Rightarrow> string" where
  "GetMode d = ds_mode d"

definition UpdateHealthCheck :: "gotime \<Rightarrow> DrainStateTracker \<Rightarrow> DrainStateTracker" where
  "UpdateHealthCheck now d = d\<lparr>lastHealthCheck := now\<rparr>"

definition GetLastHealthCheck :: "DrainStateTracker \<Rightarrow> gotime" where
  "GetLastHealthCheck d = lastHealthCheck d"

lemma RecordEvent_fold:
  assumes "activeUsers d uid = Some info"
  shows "GetUserInfo uid (fold (RecordEvent uid) bs d) = Some (info\<lparr>
    ud_EventsProcessed := ud_EventsProcessed info + int (length (filter id bs)),
    ud_EventsFailed := ud_EventsFailed info + int (length (filter Not bs))\<rparr>)"
  using assms
proof (induction bs arbitrary: d info)
  case Nil
  then show ?case by (simp add: GetUserInfo_def)
next
  case (Cons b bs)
  let ?i = "if b then info\<lparr>ud_EventsProcessed := ud_EventsProcessed info + 1\<rparr> else info\<lparr>ud_EventsFailed := ud_EventsFailed info + 1\<rparr>"
  have "activeUsers (RecordEvent uid b d) uid = Some ?i" using Cons.prems by (simp add: RecordEvent_def)
  from Cons.IH [OF this] show ?case by (auto simp: algebra_simps)
qed

section \<open>Authorisation states\<close>

record FamilyMemberState =
  fm_MemberID :: string
  fm_TempLabel :: string
  fm_TraktUsername :: string
  fm_AuthorizationStatus :: string
  AuthorizedAt :: gotime

record FamilyGroupState =
  fs_GroupID :: string
  fs_PlexUsername :: string
  fs_Members :: "FamilyMemberState list"

record authState =
  as_Mode :: string
  as_Username :: string
  SelectedID :: string
  CorrelationID :: string
  Created :: gotime
  as_FamilyGroup :: "FamilyGroupState option"

definition zero_authState :: authState where
  "zero_authState = \<lparr>as_Mode = [], as_Username = [], SelectedID = [], CorrelationID = [], Created = 0, as_FamilyGroup = None\<rparr>"

type_synonym authStateStore = "string \<rightharpoonup> authState"

definition newAuthStateStore :: authStateStore where
  "newAuthStateStore = Map.empty"

definition generateCorrelationID :: "bytes option \<Rightarrow> int \<Rightarrow> string" where
  "generateCorrelationID rand unixNano = (case rand of
     None \<Rightarrow> ''fallback-'' @ itoa unixNano
   | Some b \<Rightarrow> hex_encode (v4_bits b))"

text \<open>
  The loop draws identifiers until one is free; \<open>ids\<close> are the identifiers drawn, and running
  out of them stands for a loop that has not ended.
\<close>

fun fresh_token :: "string list \<Rightarrow> authStateStore \<Rightarrow> string option" where
  "fresh_token [] s = None"
| "fresh_token (i # ids) s = (if s i = None then Some i else fresh_token ids s)"

definition Create :: "gotime \<Rightarrow> string list \<Rightarrow> authState \<Rightarrow> authStateStore \<Rightarrow> (string \<times> authStateStore) option" where
  "Create now ids state s =
     (let state = (if IsZero (Created state) then state\<lparr>Created := now\<rparr> else state) in
      map_option (\<lambda>token. (token, s(token \<mapsto> state))) (fresh_token ids s))"

definition Consume :: "gotime \<Rightarrow> string \<Rightarrow> authStateStore \<Rightarrow> (authState \<times> bool) \<times> authStateStore" where
  "Consume now token s =
     (if token = [] then ((zero_authState, False), s)
      else case s token of
        None \<Rightarrow> ((zero_authState, False), s)
      | Some state \<Rightarrow> (if now - Created state > 15 * Minute then (zero_authState, False) else (state, True), s(token := None)))"

definition Get :: "gotime \<Rightarrow> string \<Rightarrow> authStateStore \<Rightarrow> authState \<times> bool" where
  "Get now token s =
     (if token = [] then (zero_authState, False)
      else case s token of
        None \<Rightarrow> (zero_authState, False)
      | Some state \<Rightarrow> (if now - Created state > 15 * Minute then (zero_authState, False) else (state, True)))"

lemma fresh_token_Some: "fresh_token ids s = Some t \<Longrightarrow> t \<in> set ids \<and> s t = None"
  by (induction ids) (auto split: if_splits)

lemma fresh_token_ex: "\<exists>i \<in> set ids. s i = None \<Longrightarrow> \<exists>t. fresh_token ids s = Some t"
  by (induction ids) auto

text \<open>
  C34. An authorisation state can be used exactly once: as soon as one of the identifiers drawn is
  free, \<open>Create\<close> returns a token that was not in use, and disturbs no other token.  The state is
  stored with its creation time, the one the caller has set or else the present.  Within fifteen
  minutes of that time both \<open>Get\<close> and \<open>Consume\<close> give it back, later neither does; in either case
  \<open>Consume\<close> removes it, so that the store is as before \<open>Create\<close> and any further attempt with the
  token fails.
\<close>

theorem auth_state_single_use:
  assumes "i \<in> set ids" "s i = None" "[] \<notin> set ids"
    "stored = state\<lparr>Created := (if IsZero (Created state) then now else Created state)\<rparr>"
  shows "\<exists>token s'. Create now ids state s = Some (token, s') \<and> s token = None \<and> (\<forall>k. k \<noteq> token \<longrightarrow> s' k = s k) \<and>
    (\<forall>t. let seen = (if t - Created stored \<le> 15 * Minute then (stored, True) else (zero_authState, False)) in
       Get t token s' = seen \<and> Consume t token s' = (seen, s)) \<and>
    (\<forall>t. fst (Consume t token s) = (zero_authState, False) \<and> Get t token s = (zero_authState, False))"
proof -
  obtain token where tok: "fresh_token ids s = Some token" using fresh_token_ex [of ids s] assms(1,2) by blast
  from fresh_token_Some [OF tok] assms(3) have free: "s token = None" "token \<noteq> []" by auto
  have made: "Create now ids state s = Some (token, s(token \<mapsto> stored))"
    using tok by (cases state) (simp add: Create_def assms(4))
  have gone: "(s(token \<mapsto> stored))(token := None) = s" using free(1) by (auto simp: fun_upd_idem)
  show ?thesis
  proof (rule exI [of _ token], rule exI [of _ "s(token \<mapsto> stored)"], intro conjI)
    show "Create now ids state s = Some (token, s(token \<mapsto> stored))" by (rule made)
    show "\<forall>t. let seen = (if t - Created stored \<le> 15 * Minute then (stored, True) else (zero_authState, False)) in
       Get t token (s(token \<mapsto> stored)) = seen \<and> Consume t token (s(token \<mapsto> stored)) = (seen, s)"
      using free(2) gone by (simp add: Get_def Consume_def)
  qed (use free in \<open>simp_all add: Get_def Consume_def\<close>)
qed

text \<open>A state as the handlers make it, with the time set, stored when the first identifier drawn is taken.\<close>

theorem auth_state_single_use_witness:
  "\<exists>s'. Create 110 [''t1'', ''t2''] (zero_authState\<lparr>as_Mode := ''renew'', Created := 100\<rparr>) [''t1'' \<mapsto> zero_authState] = Some (''t2'', s') \<and>
     Consume 200 ''t2'' s' = ((zero_authState\<lparr>as_Mode := ''renew'', Created := 100\<rparr>, True), [''t1'' \<mapsto> zero_authState]) \<and>
     fst (Consume 200 ''t2'' [''t1'' \<mapsto> zero_authState]) = (zero_authState, False)"
proof -
  let ?s = "[''t1'' \<mapsto> zero_authState]" and ?a = "zero_authState\<lparr>as_Mode := ''renew'', Created := 100\<rparr>"
  have "?a = ?a\<lparr>Created := (if IsZero (Created ?a) then 110 else Created ?a)\<rparr>" by simp
  from auth_state_single_use [OF _ _ _ this, of "''t2''" "[''t1'', ''t2'']" ?s] obtain token s' where
    c: "Create 110 [''t1'', ''t2''] ?a ?s = Some (token, s')" "Consume 200 token s' = ((?a, True), ?s)"
      "fst (Consume 200 token ?s) = (zero_authState, False)"
    by (auto simp: Let_def time_defs dest: spec [of _ 200])
  moreover have "token = ''t2''" using c(1) by (simp add: Create_def)
  ultimately show ?thesis by blast
qed

section \<open>Small functions\<close>

definition truncateCorrelationID :: "string \<Rightarrow> string" where
  "truncateCorrelationID fullID = (if length fullID \<le> 8 then fullID else take 8 fullID)"

definition determineQueueStatus :: "int \<Rightarrow> int option \<Rightarrow> bool \<Rightarrow> string" where
  "determineQueueStatus queueSize oldestAgeSeconds drainActive =
     (if queueSize = 0 then ''healthy''
      else if drainActive then ''draining''
      else case oldestAgeSeconds of
        Some a \<Rightarrow> if a > 3600 then ''stalled'' else ''queued''
      | None \<Rightarrow> ''queued'')"

definition count_up :: "string \<Rightarrow> (string \<rightharpoonup> int) \<Rightarrow> (string \<rightharpoonup> int)" where
  "count_up k mp = mp(k \<mapsto> (case mp k of Some n \<Rightarrow> n | None \<Rightarrow> 0) + 1)"

text \<open>The two tallies of \<open>calculateQueueStats\<close>: by action and by retry count.\<close>

definition calculateQueueStats :: "QueuedScrobbleEvent list \<Rightarrow> (string \<rightharpoonup> int) \<times> (string \<rightharpoonup> int)" where
  "calculateQueueStats events = fold (\<lambda>event (byAction, byRetryCount).
     (count_up (Action event) byAction, count_up (itoa (RetryCount event)) byRetryCount)) events (Map.empty, Map.empty)"

datatype StepState = StepFuture | StepActive | StepComplete

record WizardStep =
  ws_ID :: string
  ws_Title :: string
  ws_Description :: string
  ws_State :: StepState
  ws_Summary :: string

definition applyStepStates :: "WizardStep list \<Rightarrow> int \<Rightarrow> WizardStep list" where
  "applyStepStates steps activeIndex =
     (let activeIndex = (if activeIndex < 0 then 0 else activeIndex);
          activeIndex = (if activeIndex \<ge> int (length steps) then int (length steps) - 1 else activeIndex)
      in map (\<lambda>(i, st). st\<lparr>ws_State := (if int i < activeIndex then StepComplete
           else if int i = activeIndex then StepActive else StepFuture)\<rparr>) (enumerate 0 steps))"

lemma count_up_fold:
  "fold (\<lambda>x. count_up (f x)) xs mp k =
     (let n = length (filter (\<lambda>x. f x = k) xs) in
      if n = 0 then mp k else Some ((case mp k of Some m \<Rightarrow> m | None \<Rightarrow> 0) + int n))"
  by (induction xs arbitrary: mp) (auto simp: count_up_def Let_def split: option.splits)

lemma fold_pair: "fold (\<lambda>x (a, b). (f x a, g x b)) xs (a, b) = (fold f xs a, fold g xs b)"
  by (induction xs arbitrary: a b) simp_all

text \<open>
  The statistics of a queue count: under every action and every retry count that occurs
  they show exactly the number of events with it, and nothing else.
\<close>

lemma calculateQueueStats_counts:
  "calculateQueueStats events =
     ((\<lambda>k. let n = length (filter (\<lambda>e. Action e = k) events) in if n = 0 then None else Some (int n)),
      (\<lambda>k. let n = length (filter (\<lambda>e. itoa (RetryCount e) = k) events) in if n = 0 then None else Some (int n)))"
  unfolding calculateQueueStats_def fold_pair by (auto simp: count_up_fold Let_def fun_eq_iff)

text \<open>
  A wizard always has exactly one active step, whatever index is asked for; the steps
  before it are complete and the steps after it are still to come.
\<close>

lemma applyStepStates_one_active:
  assumes "steps \<noteq> []"
  shows "\<exists>a < length steps. map ws_State (applyStepStates steps i) =
    replicate a StepComplete @ [StepActive] @ replicate (length steps - a - 1) StepFuture"
proof -
  define b where "b = (let a = (if i < 0 then 0 else i) in if a \<ge> int (length steps) then int (length steps) - 1 else a)"
  have b: "0 \<le> b" "b < int (length steps)" using assms by (auto simp: b_def Let_def)
  have "map ws_State (applyStepStates steps i) =
      map (\<lambda>j. if int j < b then StepComplete else if int j = b then StepActive else StepFuture) [0..<length steps]"
    by (rule nth_equalityI) (auto simp: applyStepStates_def Let_def b_def nth_enumerate_eq)
  also have "\<dots> = replicate (nat b) StepComplete @ [StepActive] @ replicate (length steps - nat b - 1) StepFuture"
    by (rule nth_equalityI) (use b in \<open>auto simp: nth_append nth_Cons split: nat.split\<close>)
  finally show ?thesis using b by (intro exI [of _ "nat b"]) simp
qed

end
