(* ===== verification/Drain.thy ===== *)
theory Drain
  imports Webhook_Flow Server_State
begin

text \<open>
  The drain of the scrobble queue in \<open>main.go\<close>: when Trakt is live again, one goroutine for
  each user with queued events sends them one by one and deletes them.  The collaborators
  (the store, the Trakt client, the drain tracker and the event log) are a record of
  operations on the world; a locale states what the drain relies on, and it is interpreted on
  the PostgreSQL store with the Trakt client of this development.  Sleeping and log output
  are not modelled.
\<close>

section \<open>The code\<close>

text \<open>\<^const>\<open>None\<close> is a panic, which in a goroutine ends the process.\<close>

record 'w DrainOps =
  dr_GetUser :: "string \<Rightarrow> 'w \<Rightarrow> (User option \<times> 'w) option"
  dr_DequeueScrobbles :: "string \<Rightarrow> int \<Rightarrow> 'w \<Rightarrow> (QueuedScrobbleEvent list result \<times> 'w) option"
  dr_DeleteQueuedScrobble :: "string \<Rightarrow> 'w \<Rightarrow> err option \<times> 'w"
  dr_UpdateQueuedScrobbleRetry :: "string \<Rightarrow> int \<Rightarrow> 'w \<Rightarrow> err option \<times> 'w"
  dr_ListUsersWithQueuedEvents :: "'w \<Rightarrow> string list result \<times> 'w"
  dr_ScrobbleFromQueue :: "string \<Rightarrow> CacheItem \<Rightarrow> string \<Rightarrow> 'w \<Rightarrow> (err option \<times> 'w) option"
  dr_now :: "'w \<Rightarrow> gotime"
  dr_tracker :: "(DrainStateTracker \<Rightarrow> DrainStateTracker) \<Rightarrow> 'w \<Rightarrow> 'w"
  dr_Append :: "(QueueLogEvent \<Rightarrow> 'w \<Rightarrow> 'w option) option"

definition isTransientError :: "err option \<Rightarrow> bool" where
  "isTransientError x = (case x of
     None \<Rightarrow> False
   | Some err \<Rightarrow> (let errStr = ToLower (err_text err) in
       Contains errStr ''503'' \<or> Contains errStr ''502'' \<or> Contains errStr ''504'' \<or> Contains errStr ''429'' \<or>
       Contains errStr ''timeout'' \<or> Contains errStr ''connection refused''))"

definition sendScrobble :: "'w DrainOps \<Rightarrow> string \<Rightarrow> CacheItem \<Rightarrow> User \<Rightarrow> 'w \<Rightarrow> (err option \<times> 'w) option" where
  "sendScrobble ops action item user w = dr_ScrobbleFromQueue ops action item (AccessToken user) w"

definition queued_item :: "QueuedScrobbleEvent \<Rightarrow> CacheItem" where
  "queued_item event = zero_CacheItem\<lparr>PlayerUuid := PlayerUUID event, CRatingKey := ev_RatingKey event, Body := ev_ScrobbleBody event\<rparr>"

text \<open>The loop with \<open>k\<close> of its five attempts left; the number of the current one is \<open>5 - k\<close>, from 0.\<close>

primrec send_attempts :: "nat \<Rightarrow> 'w DrainOps \<Rightarrow> QueuedScrobbleEvent \<Rightarrow> 'w \<Rightarrow> (err option \<times> 'w) option" where
  "send_attempts 0 ops event w = Some (Some (Err ''max retries exceeded''), w)"
| "send_attempts (Suc k) ops event w =
     (let attempt = 4 - int k in
      case dr_GetUser ops (ev_UserID event) w of
        None \<Rightarrow> None
      | Some (None, w1) \<Rightarrow> Some (Some (Err (''user not found: '' @ ev_UserID event)), w1)
      | Some (Some user, w1) \<Rightarrow>
          (case sendScrobble ops (Action event) (queued_item event) user w1 of
             None \<Rightarrow> None
           | Some (None, w2) \<Rightarrow> Some (None, w2)
           | Some (Some x, w2) \<Rightarrow>
               (if \<not> isTransientError (Some x) then Some (Some x, w2)
                else send_attempts k ops event
                  (if attempt < 4 then snd (dr_UpdateQueuedScrobbleRetry ops (ev_ID event) (attempt + 1) w2) else w2))))"

definition sendEventWithRetry :: "'w DrainOps \<Rightarrow> QueuedScrobbleEvent \<Rightarrow> 'w \<Rightarrow> (err option \<times> 'w) option" where
  "sendEventWithRetry ops event w = send_attempts 5 ops event w"

definition log_drain :: "'w DrainOps \<Rightarrow> string \<Rightarrow> string \<Rightarrow> string \<Rightarrow> string \<Rightarrow> 'w \<Rightarrow> 'w option" where
  "log_drain ops operation userID eventID error w = (case dr_Append ops of
     None \<Rightarrow> Some w
   | Some app \<Rightarrow> app \<lparr>Timestamp = dr_now ops w, Operation = operation, ql_UserID = userID, ql_Username = [], EventID = eventID,
       ql_QueueSize = 0, ql_RetryCount = 0, ql_Error = error, Details = []\<rparr> w)"

text \<open>One turn of the inner loop: whether the event was sent, and the new world.\<close>

definition drain_event :: "'w DrainOps \<Rightarrow> string \<Rightarrow> QueuedScrobbleEvent \<Rightarrow> 'w \<Rightarrow> (bool \<times> 'w) option" where
  "drain_event ops userID event w = (case sendEventWithRetry ops event w of
     None \<Rightarrow> None
   | Some (r, w1) \<Rightarrow>
       (let w2 = dr_tracker ops (RecordEvent userID (r = None)) w1 in
        case (case r of
            Some x \<Rightarrow> log_drain ops ''queue_event_failed'' userID (ev_ID event) (err_text x) w2
          | None \<Rightarrow> log_drain ops ''queue_event_scrobbled'' userID (ev_ID event) [] w2) of
          None \<Rightarrow> None
        | Some w3 \<Rightarrow> Some (r = None, snd (dr_DeleteQueuedScrobble ops (ev_ID event) w3))))"

text \<open>The inner loop, with the counters of events sent and failed.\<close>

primrec drain_batch :: "'w DrainOps \<Rightarrow> string \<Rightarrow> QueuedScrobbleEvent list \<Rightarrow> nat \<times> nat \<Rightarrow> 'w \<Rightarrow> ((nat \<times> nat) \<times> 'w) option" where
  "drain_batch ops userID [] n w = Some (n, w)"
| "drain_batch ops userID (ev # evs) n w = (case drain_event ops userID ev w of
     None \<Rightarrow> None
   | Some (good, w') \<Rightarrow> drain_batch ops userID evs (if good then (Suc (fst n), snd n) else (fst n, Suc (snd n))) w')"

text \<open>A loop has returned, has panicked, or is still running after the turns it was allowed.\<close>

datatype ('a, 'w) run = Returned 'a 'w | Panicked | Running 'w

primrec drain_loop :: "nat \<Rightarrow> 'w DrainOps \<Rightarrow> string \<Rightarrow> nat \<times> nat \<Rightarrow> 'w \<Rightarrow> (nat \<times> nat, 'w) run" where
  "drain_loop 0 ops userID n w = Running w"
| "drain_loop (Suc turns) ops userID n w = (case dr_DequeueScrobbles ops userID 100 w of
     None \<Rightarrow> Panicked
   | Some (Inl _, w') \<Rightarrow> Returned n w'
   | Some (Inr events, w') \<Rightarrow>
       (if events = [] then Returned n w'
        else case drain_batch ops userID events n w' of
          None \<Rightarrow> Panicked
        | Some (n', w'') \<Rightarrow> drain_loop turns ops userID n' w''))"

definition drainUserQueue :: "nat \<Rightarrow> 'w DrainOps \<Rightarrow> string \<Rightarrow> 'w \<Rightarrow> (nat \<times> nat, 'w) run" where
  "drainUserQueue turns ops userID w =
     (let w1 = dr_tracker ops (RecordDrainStart (dr_now ops w) userID) w in
      case log_drain ops ''queue_drain_user_start'' userID [] [] w1 of
        None \<Rightarrow> Panicked
      | Some w2 \<Rightarrow> (case drain_loop turns ops userID (0, 0) w2 of
            Returned n w3 \<Rightarrow> Returned n (dr_tracker ops (RecordDrainComplete userID) w3)
          | Panicked \<Rightarrow> Panicked
          | Running w3 \<Rightarrow> Running w3))"

text \<open>
  The goroutines of the users run one after the other, in the order \<open>sched\<close> puts them; the
  interleaving of their statements is not modelled.
\<close>

primrec drain_users :: "nat \<Rightarrow> 'w DrainOps \<Rightarrow> string list \<Rightarrow> 'w \<Rightarrow> (unit, 'w) run" where
  "drain_users turns ops [] w = Returned () w"
| "drain_users turns ops (u # us) w = (case drainUserQueue turns ops u w of
     Returned _ w' \<Rightarrow> drain_users turns ops us w'
   | Panicked \<Rightarrow> Panicked
   | Running w' \<Rightarrow> Running w')"

definition initiateQueueDrain :: "nat \<Rightarrow> (string list \<Rightarrow> string list) \<Rightarrow> 'w DrainOps \<Rightarrow> 'w \<Rightarrow> (unit, 'w) run" where
  "initiateQueueDrain turns sched ops w = (case dr_ListUsersWithQueuedEvents ops w of
     (Inl _, w') \<Rightarrow> Returned () w'
   | (Inr userIDs, w') \<Rightarrow> drain_users turns ops (sched userIDs) w')"

section \<open>The contract of the drain\<close>

text \<open>What the drain sees of the world: the queues in the order they are read, the users, and the exchanges with Trakt.\<close>

record ('r, 'a) DrainView =
  dv_queue :: "string \<Rightarrow> QueuedScrobbleEvent list"
  dv_user :: "string \<Rightarrow> User option"
  dv_sent :: "('r \<times> 'a) list"

definition without :: "string \<Rightarrow> QueuedScrobbleEvent list \<Rightarrow> QueuedScrobbleEvent list" where
  "without i evs = filter (\<lambda>ev. ev_ID ev \<noteq> i) evs"

lemma without_other: "i \<notin> ev_ID ` set evs \<Longrightarrow> without i evs = evs"
  by (auto simp: without_def filter_id_conv)

lemma without_head: "distinct (map ev_ID (ev # evs)) \<Longrightarrow> without (ev_ID ev) (ev # evs) = evs"
  by (simp add: without_def filter_id_conv) (metis imageI)

lemma same_queue: "dv_queue v u = q \<Longrightarrow> v\<lparr>dv_queue := (dv_queue v)(u := q)\<rparr> = v"
  by (rule DrainView.equality) auto

text \<open>
  The exchanges a queued event may cause: between one and five requests, all alike, with
  answers that are \<open>possible\<close> of Trakt, each but the last answered with a transient error, and the last one too only if it is the fifth.
\<close>

definition attempts :: "('a \<Rightarrow> bool) \<Rightarrow> ('a \<Rightarrow> err option) \<Rightarrow> 'r \<Rightarrow> ('r \<times> 'a) list \<Rightarrow> bool" where
  "attempts possible err_of r seg \<longleftrightarrow> 1 \<le> length seg \<and> length seg \<le> 5 \<and> (\<forall>x \<in> set seg. fst x = r \<and> possible (snd x)) \<and>
     (\<forall>x \<in> set (butlast seg). isTransientError (err_of (snd x))) \<and>
     (isTransientError (err_of (snd (last seg))) \<longrightarrow> length seg = 5)"

lemma attempts_nonempty: "attempts possible err_of r seg \<Longrightarrow> seg \<noteq> []"
  by (auto simp: attempts_def)

lemma attempts_once:
  assumes "attempts possible err_of r seg" "\<And>a. possible a \<Longrightarrow> \<not> isTransientError (err_of a)"
  shows "\<exists>a. seg = [(r, a)] \<and> possible a"
proof -
  have "butlast seg = []" using assms by (metis attempts_def in_set_butlastD last_in_set)
  then have "seg = [last seg]" using attempts_nonempty [OF assms(1)] by (metis append_butlast_last_id append_Nil)
  moreover have "fst (last seg) = r" "possible (snd (last seg))"
    using assms(1) attempts_nonempty [OF assms(1)] by (auto simp: attempts_def)
  ultimately show ?thesis by (metis prod.collapse)
qed

definition delivered :: "('a \<Rightarrow> err option) \<Rightarrow> ('r \<times> 'a) list \<Rightarrow> bool" where
  "delivered err_of seg \<longleftrightarrow> err_of (snd (last seg)) = None"

text \<open>
  What the drain relies on.  The scrobble may panic, unless Trakt is \<open>calm\<close>; every lemma below says
  what the drain does if it does not panic, and that it panics only if Trakt is not calm.
\<close>

locale drain_client =
  fixes ops :: "'w DrainOps"
    and ok :: "'w \<Rightarrow> bool"
    and view :: "'w \<Rightarrow> ('r, 'a) DrainView"
    and request :: "string \<Rightarrow> CacheItem \<Rightarrow> string \<Rightarrow> 'r"
    and err_of :: "'a \<Rightarrow> err option"
    and possible :: "'a \<Rightarrow> bool"
    and calm :: bool
  assumes get_user: "ok w \<Longrightarrow> \<exists>w'. dr_GetUser ops u w = Some (dv_user (view w) u, w') \<and> ok w' \<and> view w' = view w"
    and dequeue: "ok w \<Longrightarrow> \<exists>w'. dr_DequeueScrobbles ops u 100 w = Some (Inr (take 100 (dv_queue (view w) u)), w') \<and>
      ok w' \<and> view w' = view w"
    and delete: "ok w \<Longrightarrow> ok (snd (dr_DeleteQueuedScrobble ops i w)) \<and>
      view (snd (dr_DeleteQueuedScrobble ops i w)) = (view w)\<lparr>dv_queue := (\<lambda>u. without i (dv_queue (view w) u))\<rparr>"
    and update: "ok w \<Longrightarrow> ok (snd (dr_UpdateQueuedScrobbleRetry ops i n w)) \<and>
      (\<exists>q. view (snd (dr_UpdateQueuedScrobbleRetry ops i n w)) = (view w)\<lparr>dv_queue := q\<rparr> \<and>
        (\<forall>u. without i (q u) = without i (dv_queue (view w) u)))"
    and scrobble: "ok w \<Longrightarrow> dr_ScrobbleFromQueue ops action item tok w = None \<and> \<not> calm \<or> (\<exists>a w'. dr_ScrobbleFromQueue ops action item tok w = Some (err_of a, w') \<and> possible a \<and> ok w' \<and>
      view w' = (view w)\<lparr>dv_sent := dv_sent (view w) @ [(request action item tok, a)]\<rparr>)"
    and list_users: "ok w \<Longrightarrow> \<exists>us w'. dr_ListUsersWithQueuedEvents ops w = (Inr us, w') \<and> ok w' \<and> view w' = view w \<and>
      set us = {u. dv_queue (view w) u \<noteq> []}"
    and tracker: "ok w \<Longrightarrow> ok (dr_tracker ops f w) \<and> view (dr_tracker ops f w) = view w"
    and logs: "ok w \<Longrightarrow> dr_Append ops = Some app \<Longrightarrow> \<exists>w'. app x w = Some w' \<and> ok w' \<and> view w' = view w"
    and ids: "ok w \<Longrightarrow> distinct (map ev_ID (dv_queue (view w) u))"
    and ids_apart: "ok w \<Longrightarrow> ev \<in> set (dv_queue (view w) u) \<Longrightarrow> u \<noteq> u' \<Longrightarrow> ev_ID ev \<notin> ev_ID ` set (dv_queue (view w) u')"
    and owner: "ok w \<Longrightarrow> ev \<in> set (dv_queue (view w) u) \<Longrightarrow> ev_UserID ev = u \<and> dv_user (view w) u \<noteq> None"
begin

definition event_req :: "User \<Rightarrow> QueuedScrobbleEvent \<Rightarrow> 'r" where
  "event_req user ev = request (Action ev) (queued_item ev) (AccessToken user)"

text \<open>What the world looks like while an event is being sent: its own row may have a new retry count.\<close>

definition sending :: "string \<Rightarrow> 'w \<Rightarrow> 'w \<Rightarrow> ('r \<times> 'a) list \<Rightarrow> bool" where
  "sending i w w' seg \<longleftrightarrow> ok w' \<and> dv_user (view w') = dv_user (view w) \<and> dv_sent (view w') = dv_sent (view w) @ seg \<and>
     (\<forall>u. without i (dv_queue (view w') u) = without i (dv_queue (view w) u))"

lemma sending_trans: "sending i w w1 a \<Longrightarrow> sending i w1 w2 b \<Longrightarrow> sending i w w2 (a @ b)"
  by (simp add: sending_def)

lemma sending_same: "ok w' \<Longrightarrow> view w' = view w \<Longrightarrow> sending i w w' []"
  by (simp add: sending_def)

lemma send_attempts_spec:
  assumes "ok w" "dv_user (view w) (ev_UserID ev) = Some user"
  shows "send_attempts k ops ev w = None \<and> \<not> calm \<or>
    (\<exists>r w' seg. send_attempts k ops ev w = Some (r, w') \<and> sending (ev_ID ev) w w' seg \<and> length seg \<le> k \<and>
    (\<forall>x \<in> set seg. fst x = event_req user ev \<and> possible (snd x)) \<and> (\<forall>x \<in> set (butlast seg). isTransientError (err_of (snd x))) \<and>
    (0 < k \<longrightarrow> seg \<noteq> [] \<and> (r = None \<longleftrightarrow> err_of (snd (last seg)) = None) \<and>
      (isTransientError (err_of (snd (last seg))) \<longrightarrow> length seg = k)))"
  using assms
proof (induction k arbitrary: w)
  case 0
  then show ?case by (simp add: sending_same)
next
  case (Suc k)
  let ?i = "ev_ID ev"
  obtain w1 where w1: "dr_GetUser ops (ev_UserID ev) w = Some (Some user, w1)" "ok w1" "view w1 = view w"
    using get_user [OF Suc.prems(1), of "ev_UserID ev"] Suc.prems(2) by auto
  consider "sendScrobble ops (Action ev) (queued_item ev) user w1 = None" "\<not> calm"
    | a w2 where "sendScrobble ops (Action ev) (queued_item ev) user w1 = Some (err_of a, w2)"
      "sending ?i w w2 [(event_req user ev, a)]" "possible a"
    using scrobble [OF w1(2), of "Action ev" "queued_item ev" "AccessToken user"] w1(3)
    by (auto simp: sending_def event_req_def sendScrobble_def)
  then show ?case
  proof cases
    case 1
    then show ?thesis using w1(1) by simp
  next
    case w2: 2
    show ?thesis
    proof (cases "isTransientError (err_of a)")
      case False
      then have "\<exists>r. send_attempts (Suc k) ops ev w = Some (r, w2) \<and> (r = None \<longleftrightarrow> err_of a = None)" using w1 w2(1) by (cases "err_of a") auto
      then show ?thesis using w2(2,3) False by (intro disjI2) (fastforce intro: exI [of _ "[(event_req user ev, a)]"])
    next
      case True
      then obtain x where x: "err_of a = Some x" by (auto simp: isTransientError_def split: option.splits)
      define w3 where "w3 = (if 4 - int k < 4 then snd (dr_UpdateQueuedScrobbleRetry ops ?i (4 - int k + 1) w2) else w2)"
      have w3: "sending ?i w w3 [(event_req user ev, a)]"
        using w2(2) update [of w2 ?i "4 - int k + 1"] by (auto simp: w3_def sending_def)
      then have "ok w3" "dv_user (view w3) (ev_UserID ev) = Some user"
        using Suc.prems(2) by (simp_all add: sending_def)
      from Suc.IH [OF this] consider "send_attempts k ops ev w3 = None" "\<not> calm"
        | r w' seg where "send_attempts k ops ev w3 = Some (r, w')" "sending ?i w3 w' seg" "length seg \<le> k"
        "\<forall>x \<in> set seg. fst x = event_req user ev \<and> possible (snd x)" "\<forall>x \<in> set (butlast seg). isTransientError (err_of (snd x))"
        "0 < k \<longrightarrow> seg \<noteq> [] \<and> (r = None \<longleftrightarrow> err_of (snd (last seg)) = None) \<and>
          (isTransientError (err_of (snd (last seg))) \<longrightarrow> length seg = k)" by (elim disjE exE conjE) blast+
      then show ?thesis
      proof cases
        case 1
        then show ?thesis using w1(1) w2(1) x True by (simp add: w3_def Let_def)
      next
        case IH: 2
        have run: "send_attempts (Suc k) ops ev w = Some (r, w')"
          using w1(1) w2(1) x True IH(1) by (simp add: w3_def Let_def)
        have seg: "sending ?i w w' ((event_req user ev, a) # seg)" using sending_trans [OF w3 IH(2)] by simp
        have k0: "seg = [] \<and> r \<noteq> None" if "k = 0" using that IH(1,3) by auto
        show ?thesis
          by (rule disjI2, rule exI [of _ r], rule exI [of _ w'], rule exI [of _ "(event_req user ev, a) # seg"])
            (use run seg IH(3-6) k0 x True w2(3) in auto)
      qed
    qed
  qed
qed

lemma sendEventWithRetry_spec:
  assumes "ok w" "dv_user (view w) (ev_UserID ev) = Some user"
  shows "sendEventWithRetry ops ev w = None \<and> \<not> calm \<or> (\<exists>r w' seg. sendEventWithRetry ops ev w = Some (r, w') \<and> sending (ev_ID ev) w w' seg \<and>
    attempts possible err_of (event_req user ev) seg \<and> (r = None \<longleftrightarrow> delivered err_of seg))"
proof (cases "sendEventWithRetry ops ev w = None")
  case True
  then show ?thesis using send_attempts_spec [OF assms, of 5] by (auto simp: sendEventWithRetry_def)
next
  case False
  then have "\<exists>r w' seg. send_attempts 5 ops ev w = Some (r, w') \<and> sending (ev_ID ev) w w' seg \<and> length seg \<le> 5 \<and>
    (\<forall>x \<in> set seg. fst x = event_req user ev \<and> possible (snd x)) \<and> (\<forall>x \<in> set (butlast seg). isTransientError (err_of (snd x))) \<and>
    (0 < (5::nat) \<longrightarrow> seg \<noteq> [] \<and> (r = None \<longleftrightarrow> err_of (snd (last seg)) = None) \<and>
      (isTransientError (err_of (snd (last seg))) \<longrightarrow> length seg = 5))"
    using send_attempts_spec [OF assms, of 5] unfolding sendEventWithRetry_def by (elim disjE conjE) (blast, assumption)
  then obtain r w' seg where *: "send_attempts 5 ops ev w = Some (r, w')" "sending (ev_ID ev) w w' seg" "length seg \<le> 5"
    "\<forall>x \<in> set seg. fst x = event_req user ev \<and> possible (snd x)" "\<forall>x \<in> set (butlast seg). isTransientError (err_of (snd x))"
    "seg \<noteq> []" "r = None \<longleftrightarrow> err_of (snd (last seg)) = None" "isTransientError (err_of (snd (last seg))) \<longrightarrow> length seg = 5"
    by auto
  then have "attempts possible err_of (event_req user ev) seg" by (simp add: attempts_def Suc_leI)
  with * show ?thesis by (auto simp: sendEventWithRetry_def delivered_def)
qed

lemma log_drain_ok: "ok w \<Longrightarrow> \<exists>w'. log_drain ops op u i x w = Some w' \<and> ok w' \<and> view w' = view w"
  using logs by (cases "dr_Append ops") (simp_all add: log_drain_def)

text \<open>Sending one event takes it, and nothing else, out of the queue.\<close>

lemma drain_event_spec:
  assumes "ok w" "dv_queue (view w) u = ev # evs" "dv_user (view w) u = Some user"
  shows "drain_event ops u ev w = None \<and> \<not> calm \<or>
    (\<exists>w' seg. drain_event ops u ev w = Some (delivered err_of seg, w') \<and> ok w' \<and> attempts possible err_of (event_req user ev) seg \<and>
    view w' = (view w)\<lparr>dv_queue := (dv_queue (view w))(u := evs), dv_sent := dv_sent (view w) @ seg\<rparr>)"
proof (cases "sendEventWithRetry ops ev w = None")
  case True
  have "ev_UserID ev = u" using owner [OF assms(1), of ev u] assms(2) by simp
  then show ?thesis using sendEventWithRetry_spec [OF assms(1), of ev user] assms(3) True by (auto simp: drain_event_def)
next
  case False
  have own: "ev_UserID ev = u" using owner [OF assms(1), of ev u] assms(2) by simp
  obtain r w1 seg where w1: "sendEventWithRetry ops ev w = Some (r, w1)" "sending (ev_ID ev) w w1 seg"
    "attempts possible err_of (event_req user ev) seg" "r = None \<longleftrightarrow> delivered err_of seg"
    using sendEventWithRetry_spec [OF assms(1), of ev user] own assms(3) False by auto
  define w2 where "w2 = dr_tracker ops (RecordEvent u (r = None)) w1"
  have w2: "ok w2" "view w2 = view w1" using tracker w1(2) by (simp_all add: w2_def sending_def)
  obtain w3 where w3: "(case r of Some x \<Rightarrow> log_drain ops ''queue_event_failed'' u (ev_ID ev) (err_text x) w2
      | None \<Rightarrow> log_drain ops ''queue_event_scrobbled'' u (ev_ID ev) [] w2) = Some w3" "ok w3" "view w3 = view w1"
    using log_drain_ok [OF w2(1)] w2(2) by (cases r) (simp, metis)+
  define w4 where "w4 = snd (dr_DeleteQueuedScrobble ops (ev_ID ev) w3)"
  have w4: "ok w4" "view w4 = (view w1)\<lparr>dv_queue := (\<lambda>u. without (ev_ID ev) (dv_queue (view w1) u))\<rparr>"
    using delete [OF w3(2)] w3(3) by (simp_all add: w4_def)
  have "without (ev_ID ev) (dv_queue (view w1) v) = ((dv_queue (view w))(u := evs)) v" for v
  proof (cases "v = u")
    case True
    have "distinct (map ev_ID (ev # evs))" using ids [OF assms(1), of u] assms(2) by simp
    with True w1(2) assms(2) show ?thesis by (simp add: sending_def without_head)
  next
    case False
    then have "ev_ID ev \<notin> ev_ID ` set (dv_queue (view w) v)" using ids_apart [OF assms(1), of ev u v] assms(2) by auto
    with False w1(2) show ?thesis by (simp add: sending_def without_other)
  qed
  then have "view w4 = (view w)\<lparr>dv_queue := (dv_queue (view w))(u := evs), dv_sent := dv_sent (view w) @ seg\<rparr>"
    using w4(2) w1(2) by (auto simp: sending_def intro!: DrainView.equality)
  moreover have "drain_event ops u ev w = Some (r = None, w4)"
    using w1(1) w3(1) by (cases r) (simp_all add: drain_event_def w2_def w4_def Let_def)
  ultimately show ?thesis using w4(1) w1(3) unfolding w1(4) by blast
qed

text \<open>A run of events, with the exchanges of each.\<close>

definition drained :: "string \<Rightarrow> User \<Rightarrow> QueuedScrobbleEvent list \<Rightarrow> ('r \<times> 'a) list list \<Rightarrow> 'w \<Rightarrow> 'w \<Rightarrow> bool" where
  "drained u user evs segs w w' \<longleftrightarrow> ok w' \<and> list_all2 (\<lambda>ev. attempts possible err_of (event_req user ev)) evs segs \<and>
     (\<exists>rest. dv_queue (view w) u = evs @ rest \<and>
       view w' = (view w)\<lparr>dv_queue := (dv_queue (view w))(u := rest), dv_sent := dv_sent (view w) @ concat segs\<rparr>)"

definition tally :: "nat \<times> nat \<Rightarrow> ('r \<times> 'a) list list \<Rightarrow> nat \<times> nat" where
  "tally n segs = (fst n + length (filter (delivered err_of) segs), snd n + length (filter (Not \<circ> delivered err_of) segs))"

lemma tally_simps [simp]:
  "tally n [] = n"
  "tally (if delivered err_of s then (Suc (fst n), snd n) else (fst n, Suc (snd n))) segs = tally n (s # segs)"
  "tally (tally n segs) segs' = tally n (segs @ segs')"
  by (simp_all add: tally_def)

lemma drained_append:
  assumes "drained u user evs segs w w'" "drained u user evs' segs' w' w''"
  shows "drained u user (evs @ evs') (segs @ segs') w w''"
  using assms unfolding drained_def by (auto intro: list_all2_appendI)

lemma drain_batch_spec:
  assumes "ok w" "dv_queue (view w) u = evs @ rest" "dv_user (view w) u = Some user"
  shows "drain_batch ops u evs n w = None \<and> \<not> calm \<or> (\<exists>w' segs. drain_batch ops u evs n w = Some (tally n segs, w') \<and> drained u user evs segs w w')"
  using assms
proof (induction evs arbitrary: w n)
  case Nil
  then show ?case by (auto simp: drained_def intro!: exI [of _ "[]"])
next
  case (Cons ev evs)
  consider "drain_event ops u ev w = None" "\<not> calm"
    | w1 seg where "drain_event ops u ev w = Some (delivered err_of seg, w1)" "ok w1" "attempts possible err_of (event_req user ev) seg"
    "view w1 = (view w)\<lparr>dv_queue := (dv_queue (view w))(u := evs @ rest), dv_sent := dv_sent (view w) @ seg\<rparr>"
    using drain_event_spec [OF Cons.prems(1), of u ev "evs @ rest" user] Cons.prems(2,3) by auto
  then show ?case
  proof cases
    case w1: 2
    let ?n = "if delivered err_of seg then (Suc (fst n), snd n) else (fst n, Suc (snd n))"
    have "dv_queue (view w1) u = evs @ rest" "dv_user (view w1) u = Some user" using w1(4) Cons.prems(3) by simp_all
    from Cons.IH [OF w1(2) this, of ?n] have "drain_batch ops u evs ?n w1 = None \<and> \<not> calm \<or>
        (\<exists>w' segs. drain_batch ops u evs ?n w1 = Some (tally n (seg # segs), w') \<and> drained u user evs segs w1 w')" unfolding tally_simps .
    then consider "drain_batch ops u evs ?n w1 = None" "\<not> calm"
      | w' segs where "drain_batch ops u evs ?n w1 = Some (tally n (seg # segs), w')" "drained u user evs segs w1 w'"
      by (elim disjE exE conjE) blast+
    then show ?thesis
    proof cases
      case 2
      moreover have "drained u user [ev] [seg] w w1" using w1 Cons.prems(2) by (auto simp: drained_def)
      ultimately show ?thesis using w1(1) drained_append [of u user "[ev]" "[seg]" w w1 evs segs w'] by auto
    qed (use w1(1) in simp)
  qed simp
qed

lemma drain_loop_spec:
  assumes "ok w" "dv_user (view w) u = Some user" "length (dv_queue (view w) u) < turns"
  shows "drain_loop turns ops u n w = Panicked \<and> \<not> calm \<or>
    (\<exists>w' segs. drain_loop turns ops u n w = Returned (tally n segs) w' \<and> drained u user (dv_queue (view w) u) segs w w')"
  using assms
proof (induction turns arbitrary: w n)
  case 0
  then show ?case by simp
next
  case (Suc turns)
  let ?q = "dv_queue (view w) u"
  obtain w1 where w1: "dr_DequeueScrobbles ops u 100 w = Some (Inr (take 100 ?q), w1)" "ok w1" "view w1 = view w"
    using dequeue [OF Suc.prems(1)] by blast
  show ?case
  proof (cases "?q = []")
    case True
    then show ?thesis using w1 by (intro disjI2 exI [of _ w1] exI [of _ "[]"]) (auto simp: drained_def same_queue)
  next
    case False
    consider "drain_batch ops u (take 100 ?q) n w1 = None" "\<not> calm"
      | w2 segs where "drain_batch ops u (take 100 ?q) n w1 = Some (tally n segs, w2)" "drained u user (take 100 ?q) segs w1 w2"
      using drain_batch_spec [OF w1(2), of u "take 100 ?q" "drop 100 ?q" user n] w1(3) Suc.prems(2) by auto
    then show ?thesis
    proof cases
      case w2: 2
      then have q2: "ok w2" "dv_queue (view w2) u = drop 100 ?q" "dv_user (view w2) u = Some user"
        using w1(3) Suc.prems(2) by (auto simp: drained_def) (metis append_eq_conv_conj append_take_drop_id same_append_eq)
      have "length (drop 100 ?q) < turns" using False Suc.prems(3) by (cases ?q) auto
      from Suc.IH [OF q2(1,3), of "tally n segs"] q2(2) this consider "drain_loop turns ops u (tally n segs) w2 = Panicked" "\<not> calm"
        | w' segs' where "drain_loop turns ops u (tally n segs) w2 = Returned (tally n (segs @ segs')) w'" "drained u user (drop 100 ?q) segs' w2 w'"
        by auto
      then show ?thesis
      proof cases
        case 2
        moreover from this(2) w2(2) have "drained u user ?q (segs @ segs') w1 w'"
          using drained_append [of u user "take 100 ?q" segs w1 w2 "drop 100 ?q" segs' w'] by simp
        then have "drained u user ?q (segs @ segs') w w'" using w1(3) by (simp add: drained_def)
        ultimately show ?thesis using w1(1) w2(1) False by auto
      qed (use w1(1) w2(1) False in simp)
    qed (use w1(1) False in simp)
  qed
qed

lemma drain_empty:
  assumes "ok w" "dv_queue (view w) u = []" "0 < turns"
  shows "\<exists>w'. drain_loop turns ops u n w = Returned n w' \<and> ok w' \<and> view w' = view w"
  using dequeue [OF assms(1), of u] assms(2,3) by (cases turns) auto

text \<open>The drain of one user, unless it panics, returns and leaves that user's queue empty.\<close>

lemma drainUserQueue_spec:
  assumes "ok w" "length (dv_queue (view w) u) < turns"
  shows "drainUserQueue turns ops u w = Panicked \<and> \<not> calm \<or>
    (\<exists>w' segs. drainUserQueue turns ops u w = Returned (tally (0, 0) segs) w' \<and> ok w' \<and>
    list_all2 (\<lambda>ev seg. \<exists>user. dv_user (view w) u = Some user \<and> attempts possible err_of (event_req user ev) seg) (dv_queue (view w) u) segs \<and>
    view w' = (view w)\<lparr>dv_queue := (dv_queue (view w))(u := []), dv_sent := dv_sent (view w) @ concat segs\<rparr>)"
proof -
  define w1 where "w1 = dr_tracker ops (RecordDrainStart (dr_now ops w) u) w"
  have w1: "ok w1" "view w1 = view w" using tracker assms(1) by (simp_all add: w1_def)
  obtain w2 where w2: "log_drain ops ''queue_drain_user_start'' u [] [] w1 = Some w2" "ok w2" "view w2 = view w"
    using log_drain_ok [OF w1(1)] w1(2) by metis
  let ?q = "dv_queue (view w) u"
  consider "drain_loop turns ops u (0, 0) w2 = Panicked" "\<not> calm"
    | w3 segs where "drain_loop turns ops u (0, 0) w2 = Returned (tally (0, 0) segs) w3" "ok w3"
    "list_all2 (\<lambda>ev seg. \<exists>user. dv_user (view w) u = Some user \<and> attempts possible err_of (event_req user ev) seg) ?q segs"
    "view w3 = (view w)\<lparr>dv_queue := (dv_queue (view w))(u := []), dv_sent := dv_sent (view w) @ concat segs\<rparr>"
  proof (cases "?q = []")
    case True
    then show ?thesis using drain_empty [OF w2(2), of u turns "(0, 0)"] w2(3) assms(2) that(2) [of "[]"] by (auto simp: same_queue)
  next
    case False
    then obtain user where user: "dv_user (view w) u = Some user" using owner [OF assms(1), of "hd ?q" u] by auto
    then consider "drain_loop turns ops u (0, 0) w2 = Panicked" "\<not> calm"
      | w3 segs where "drain_loop turns ops u (0, 0) w2 = Returned (tally (0, 0) segs) w3" "drained u user ?q segs w2 w3"
      using drain_loop_spec [OF w2(2), of u user turns "(0, 0)"] w2(3) assms(2) by auto
    then show ?thesis using that user w2(3) by cases (auto simp: drained_def)
  qed
  then show ?thesis
  proof cases
    case w3: 2
    then show ?thesis using w2(1) tracker [OF w3(2)] by (auto simp: drainUserQueue_def w1_def Let_def)
  qed (use w2(1) in \<open>simp add: drainUserQueue_def w1_def Let_def\<close>)
qed

lemma drain_users_spec:
  assumes "calm" "ok w" "distinct us" "\<forall>u. length (dv_queue (view w) u) < turns"
  shows "\<exists>w'. drain_users turns ops us w = Returned () w' \<and> ok w' \<and> dv_user (view w') = dv_user (view w) \<and>
    dv_queue (view w') = (\<lambda>u. if u \<in> set us then [] else dv_queue (view w) u)"
  using assms(2-)
proof (induction us arbitrary: w)
  case Nil
  then show ?case by simp
next
  case (Cons u us)
  obtain n w1 where w1: "drainUserQueue turns ops u w = Returned n w1" "ok w1" "dv_user (view w1) = dv_user (view w)"
    "dv_queue (view w1) = (dv_queue (view w))(u := [])"
    using drainUserQueue_spec [OF Cons.prems(1), of u turns] Cons.prems(3) assms(1) that by force
  have "\<forall>v. length (dv_queue (view w1) v) < turns" using Cons.prems(3) w1(4) by auto
  from Cons.IH [OF w1(2) _ this] Cons.prems(2) obtain w' where "drain_users turns ops us w1 = Returned () w'" "ok w'"
    "dv_user (view w') = dv_user (view w1)" "dv_queue (view w') = (\<lambda>v. if v \<in> set us then [] else dv_queue (view w1) v)" by auto
  then show ?case using w1 by (auto simp: fun_eq_iff)
qed

lemma initiateQueueDrain_spec:
  assumes "calm" "ok w" "\<forall>u. length (dv_queue (view w) u) < turns" "\<And>us. mset (sched us) = mset us"
    "\<And>w us w'. dr_ListUsersWithQueuedEvents ops w = (Inr us, w') \<Longrightarrow> distinct us"
  shows "\<exists>w'. initiateQueueDrain turns sched ops w = Returned () w' \<and> ok w' \<and> dv_user (view w') = dv_user (view w) \<and>
    dv_queue (view w') = (\<lambda>u. [])"
proof -
  obtain us w1 where w1: "dr_ListUsersWithQueuedEvents ops w = (Inr us, w1)" "ok w1" "view w1 = view w"
    "set us = {u. dv_queue (view w) u \<noteq> []}"
    using list_users [OF assms(2)] by blast
  have us: "distinct (sched us)" "set (sched us) = set us"
    using assms(4) [of us] assms(5) [OF w1(1)] by (metis mset_eq_imp_distinct_iff, metis mset_eq_setD)
  from drain_users_spec [OF assms(1) w1(2) us(1), of turns] w1(3,4) assms(3) us(2) show ?thesis
    using w1(1) by (auto simp: initiateQueueDrain_def fun_eq_iff)
qed

end

section \<open>The drain on the PostgreSQL store\<close>

text \<open>
  The world of a drain: the database, the event log, the drain tracker, the state of the
  network, and the list of the exchanges with Trakt so far, which records what happened and
  which nothing reads.
\<close>

type_synonym exchange = "http_request \<times> http_response result"
type_synonym 'm drain_world = "(DrainStateTracker \<times> 'm \<times> exchange list) world"

definition recorded :: "(http_request \<Rightarrow> 'm \<Rightarrow> http_response result \<times> 'm) \<Rightarrow>
    http_request \<Rightarrow> DrainStateTracker \<times> 'm \<times> exchange list \<Rightarrow> http_response result \<times> (DrainStateTracker \<times> 'm \<times> exchange list)" where
  "recorded net req = (\<lambda>(d, m, h). let (r, m') = net req m in (r, (d, m', h @ [(req, r)])))"

definition pg_drain_ops :: "env \<Rightarrow> (http_request \<Rightarrow> 'm \<Rightarrow> http_response result \<times> 'm) \<Rightarrow> string \<Rightarrow> 'm drain_world DrainOps" where
  "pg_drain_ops e net cid = \<lparr>
     dr_GetUser = (\<lambda>u (s, l, n). map_option (\<lambda>(r, s'). (r, (s', l, n))) (GetUser e u s)),
     dr_DequeueScrobbles = (\<lambda>u k (s, l, n). map_option (\<lambda>(r, s'). (r, (s', l, n))) (DequeueScrobbles e u k s)),
     dr_DeleteQueuedScrobble = (\<lambda>i (s, l, n). let (r, s') = DeleteQueuedScrobble e i s in (r, (s', l, n))),
     dr_UpdateQueuedScrobbleRetry = (\<lambda>i k (s, l, n). let (r, s') = UpdateQueuedScrobbleRetry e i k s in (r, (s', l, n))),
     dr_ListUsersWithQueuedEvents = (\<lambda>(s, l, n). let (r, s') = ListUsersWithQueuedEvents e s in (r, (s', l, n))),
     dr_ScrobbleFromQueue = ScrobbleFromQueue (pg_trakt 0 e (recorded net) (\<lambda>_. None) (\<lambda>_. None) cid []),
     dr_now = (\<lambda>(s, l, n). env_now e (stmt_no s)),
     dr_tracker = (\<lambda>f (s, l, d, m). (s, l, f d, m)),
     dr_Append = Some (\<lambda>x (s, l, n). map_option (\<lambda>l'. (s, l', n)) (QueueEventLog_Append x l))\<rparr>"

text \<open>The error \<open>ScrobbleFromQueue\<close> makes of an answer.\<close>

definition answer_err :: "http_response result \<Rightarrow> err option" where
  "answer_err ans = (case ans of
     Inl x \<Rightarrow> Some (Wrap ''scrobble http error'' x)
   | Inr r \<Rightarrow> if unavailable (StatusCode r) then Some (Err (''transient error: status '' @ itoa (StatusCode r)))
       else if success (StatusCode r) then None
       else Some (Err (''scrobble failed with status '' @ itoa (StatusCode r))))"

definition pg_view :: "'m drain_world \<Rightarrow> (http_request, http_response result) DrainView" where
  "pg_view = (\<lambda>(s, l, d, m, h). \<lparr>dv_queue = (\<lambda>u. map row_event (order_asc q_created (user_queue u s))),
     dv_user = (\<lambda>u. map_option user_of_row (find (\<lambda>r. u_id r = u) (users s))), dv_sent = h\<rparr>)"

definition answers :: "(http_request \<Rightarrow> 'm \<Rightarrow> http_response result \<times> 'm) \<Rightarrow> http_response result \<Rightarrow> bool" where
  "answers net a \<longleftrightarrow> (\<exists>req m. fst (net req m) = a)"

text \<open>The database works and is sound, the bodies of the queued events can be decoded, and the log is one of a hundred entries.\<close>

definition drain_ok :: "env \<Rightarrow> 'm drain_world \<Rightarrow> bool" where
  "drain_ok e = (\<lambda>(s, l, n). healthy e s \<and> schema_ok s \<and> list_all decodes (queued_scrobbles s) \<and> log_inv 100 l)"

subsection \<open>The laws hold\<close>

lemma drain_okD:
  assumes "drain_ok e (s, l, n)"
  shows "healthy e s" "schema_ok s" "list_all decodes (queued_scrobbles s)" "log_inv 100 l"
  using assms by (simp_all add: drain_ok_def)

lemma drain_ok_sent: "drain_ok e (s, l, n) \<Longrightarrow> drain_ok e (sent s, l, n')"
  by (auto simp: drain_ok_def intro: healthy_Suc)

lemma decodes_user_queue: "list_all decodes (queued_scrobbles s) \<Longrightarrow> list_all decodes (user_queue u s)"
  by (simp add: user_queue_def list_all_iff)

lemma order_asc_filter: "order_asc k (filter P rows) = filter P (order_asc k rows)"
  by (simp add: order_asc_def filter_sort)

lemma without_row_event: "without i (map row_event rows) = map row_event (filter (\<lambda>r. q_id r \<noteq> i) rows)"
  by (simp add: without_def filter_map comp_def)

definition queue_view :: "queued_row list \<Rightarrow> string \<Rightarrow> QueuedScrobbleEvent list" where
  "queue_view rows u = map row_event (order_asc q_created (filter (\<lambda>r. q_user_id r = u) rows))"

lemma pg_view_eq:
  "pg_view (s, l, d, m, h) = \<lparr>dv_queue = queue_view (queued_scrobbles s),
     dv_user = (\<lambda>u. map_option user_of_row (find (\<lambda>r. u_id r = u) (users s))), dv_sent = h\<rparr>"
  by (simp add: pg_view_def queue_view_def user_queue_def fun_eq_iff)

lemma without_queue_view: "without i (queue_view rows u) = queue_view (filter (\<lambda>r. q_id r \<noteq> i) rows) u"
  by (simp add: queue_view_def without_row_event conj_commute flip: order_asc_filter)

lemma queue_view_retry:
  "without i (queue_view (map (\<lambda>r. if q_id r = i then r\<lparr>q_retry := k, q_last := t\<rparr> else r) rows) u) = without i (queue_view rows u)"
proof -
  have "filter (\<lambda>r. q_id r \<noteq> i) (map (\<lambda>r. if q_id r = i then r\<lparr>q_retry := k, q_last := t\<rparr> else r) rows) =
      filter (\<lambda>r. q_id r \<noteq> i) rows" by (induction rows) auto
  then show ?thesis by (simp only: without_queue_view)
qed

lemma set_queue_view: "set (queue_view rows u) = row_event ` {r \<in> set rows. q_user_id r = u}"
  by (auto simp: queue_view_def order_asc_def)

lemma distinct_queue_view: "distinct (map q_id rows) \<Longrightarrow> distinct (map ev_ID (queue_view rows u))"
proof -
  assume "distinct (map q_id rows)"
  then have "distinct (map q_id (filter (\<lambda>r. q_user_id r = u) rows))" by (simp add: distinct_map_filter)
  moreover have "mset (map ev_ID (queue_view rows u)) = mset (map q_id (filter (\<lambda>r. q_user_id r = u) rows))"
    by (simp add: queue_view_def order_asc_def comp_def)
  ultimately show ?thesis by (metis mset_eq_imp_distinct_iff)
qed

lemma queue_view_apart:
  assumes "distinct (map q_id rows)" "ev \<in> set (queue_view rows u)" "u \<noteq> u'"
  shows "ev_ID ev \<notin> ev_ID ` set (queue_view rows u')"
proof
  assume "ev_ID ev \<in> ev_ID ` set (queue_view rows u')"
  then obtain r r' where "r \<in> set rows" "q_user_id r = u" "r' \<in> set rows" "q_user_id r' = u'" "q_id r = q_id r'"
    using assms(2) by (auto simp: set_queue_view)
  moreover from this have "r = r'" using assms(1) by (metis distinct_map inj_onD)
  ultimately show False using assms(3) by simp
qed

lemma DeleteQueuedScrobble_healthy:
  "healthy e s \<Longrightarrow> DeleteQueuedScrobble e i s = (None, (sent s)\<lparr>queued_scrobbles := filter (\<lambda>r. q_id r \<noteq> i) (queued_scrobbles s)\<rparr>)"
  by (simp add: DeleteQueuedScrobble_def sql_eqs)

lemma UpdateQueuedScrobbleRetry_healthy:
  assumes "healthy e s"
  shows "\<exists>t rows. snd (UpdateQueuedScrobbleRetry e i k s) = (sent s)\<lparr>queued_scrobbles := rows\<rparr> \<and>
    (rows = queued_scrobbles s \<or>
     rows = map (\<lambda>r. if q_id r = i then r\<lparr>q_retry := k, q_last := t\<rparr> else r) (queued_scrobbles s))"
proof -
  define rows where "rows = map (\<lambda>r. if q_id r = i
    then r\<lparr>q_retry := k, q_last := Some (env_timestamp e (env_now e (stmt_no s)))\<rparr> else r) (queued_scrobbles s)"
  have "snd (set_retry i k (env_timestamp e (env_now e (stmt_no s))) (sent s)) \<in> {sent s, (sent s)\<lparr>queued_scrobbles := rows\<rparr>}"
    using guarded_cases [of "[(list_all queued_check rows, check_violation)]" "sent s" "(sent s)\<lparr>queued_scrobbles := rows\<rparr>"]
    by (auto simp: set_retry_def rows_def Let_def)
  moreover have "snd (UpdateQueuedScrobbleRetry e i k s) = snd (set_retry i k (env_timestamp e (env_now e (stmt_no s))) (sent s))"
    using assms by (simp add: UpdateQueuedScrobbleRetry_def sql_eqs split: prod.split sum.split)
  moreover have "sent s = (sent s)\<lparr>queued_scrobbles := queued_scrobbles s\<rparr>" by (simp add: sent_def)
  ultimately consider "snd (UpdateQueuedScrobbleRetry e i k s) = (sent s)\<lparr>queued_scrobbles := queued_scrobbles s\<rparr>"
    | "snd (UpdateQueuedScrobbleRetry e i k s) = (sent s)\<lparr>queued_scrobbles := rows\<rparr>" by auto
  then show ?thesis by cases (auto simp: rows_def)
qed

lemma decodes_retry: "decodes (r\<lparr>q_retry := k, q_last := t\<rparr>) = decodes r"
  by (simp add: decodes_def)

lemma ScrobbleFromQueue_recorded:
  assumes "te = pg_trakt f e (recorded net) p ur cid sec"
  shows "ScrobbleFromQueue te action item tok (s, l, d, m, h) = None \<and> \<not> no_null net \<or>
    (\<exists>a m'. ScrobbleFromQueue te action item tok (s, l, d, m, h) =
      Some (answer_err a, (s, l, d, m', h @ [(scrobble_req te action (Body item) tok, a)])) \<and> answers net a)"
proof -
  let ?req = "scrobble_req te action (Body item) tok"
  obtain a m' where net: "net ?req m = (a, m')" by (cases "net ?req m")
  then have ans: "answers net a" by (metis answers_def fst_conv)
  have null: "\<not> no_null net" if "a = Inr r" "success (StatusCode r)" "decode_into r (Body item) = DecPanic" for r
  proof -
    have "body_json r = Some JNull" using that(3) by (auto simp: decode_into_def ScrobbleBody_panic_iff split: option.splits)
    then show ?thesis unfolding no_null_def using net that(1,2) by (metis fst_conv)
  qed
  show ?thesis
  proof (cases a)
    case (Inl x)
    then show ?thesis using net ans by (auto simp: ScrobbleFromQueue_def recorded_def answer_err_def assms)
  next
    case (Inr r)
    then show ?thesis using net ans null [OF Inr]
      by (cases "decode_into r (Body item)") (auto simp: ScrobbleFromQueue_def recorded_def answer_err_def assms)
  qed
qed

definition drain_req :: "string \<Rightarrow> string \<Rightarrow> CacheItem \<Rightarrow> string \<Rightarrow> http_request" where
  "drain_req cid action item tok = \<lparr>req_Method = ''POST'', req_URL = scrobble_URL action,
     req_Authorization = Some (''Bearer '' @ tok), req_APIKey = Some cid, req_Body = Some (ScrobbleBody_MarshalJSON (Body item))\<rparr>"

lemma scrobble_req_pg: "scrobble_req (pg_trakt f e net p ur cid sec) action (Body item) tok = drain_req cid action item tok"
  by (simp add: scrobble_req_def drain_req_def)

interpretation pg_drain: drain_client "pg_drain_ops e net cid" "drain_ok e" pg_view "drain_req cid" answer_err
    "answers net" "no_null net"
proof (unfold_locales, goal_cases)
  case (1 w u)
  obtain s l d m h where w: "w = (s, l, d, m, h)" by (cases w)
  then show ?case using 1 drain_ok_sent [of e s l "(d, m, h)"]
    by (simp add: pg_drain_ops_def GetUser_healthy drain_okD pg_view_eq)
next
  case (2 w u)
  obtain s l d m h where w: "w = (s, l, d, m, h)" by (cases w)
  have "DequeueScrobbles e u 100 s = Some (Inr (map row_event (take 100 (order_asc q_created (user_queue u s)))), sent s)"
    using DequeueScrobbles_healthy [of e s 100 u] 2 decodes_user_queue by (auto simp: w drain_ok_def)
  then show ?case using 2 drain_ok_sent [of e s l "(d, m, h)"]
    by (simp add: pg_drain_ops_def w pg_view_eq queue_view_def take_map user_queue_def)
next
  case (3 w i)
  obtain s l d m h where w: "w = (s, l, d, m, h)" by (cases w)
  have "schema_ok (snd (DeleteQueuedScrobble e i s))" using 3 by (simp add: w drain_ok_def schema_DeleteQueuedScrobble)
  moreover have "healthy e (sent s)" using 3 drain_ok_sent [of e s l "(d, m, h)"] by (simp add: w drain_ok_def)
  ultimately show ?case using 3
    by (auto simp: pg_drain_ops_def w pg_view_eq DeleteQueuedScrobble_healthy drain_ok_def without_queue_view fun_eq_iff
        list_all_iff healthy_def)
next
  case (4 w i k)
  obtain s l d m h where w: "w = (s, l, d, m, h)" by (cases w)
  have ok: "healthy e s" "schema_ok (snd (UpdateQueuedScrobbleRetry e i k s))" "healthy e (sent s)"
    using 4 drain_ok_sent [of e s l "(d, m, h)"] by (simp_all add: w drain_ok_def schema_UpdateQueuedScrobbleRetry)
  obtain t rows where u: "snd (UpdateQueuedScrobbleRetry e i k s) = (sent s)\<lparr>queued_scrobbles := rows\<rparr>"
    "rows = queued_scrobbles s \<or> rows = map (\<lambda>r. if q_id r = i then r\<lparr>q_retry := k, q_last := t\<rparr> else r) (queued_scrobbles s)"
    using UpdateQueuedScrobbleRetry_healthy [OF ok(1)] by blast
  have "list_all decodes rows" using u(2) 4 by (auto simp: w drain_ok_def list_all_iff decodes_retry)
  moreover have "without i (queue_view rows v) = without i (queue_view (queued_scrobbles s) v)" for v
    using u(2) queue_view_retry by auto
  ultimately show ?case using u(1) ok 4
    by (simp add: pg_drain_ops_def w pg_view_eq drain_ok_def split_beta healthy_def)
next
  case (5 w action item tok)
  obtain s l d m h where w: "w = (s, l, d, m, h)" by (cases w)
  consider "dr_ScrobbleFromQueue (pg_drain_ops e net cid) action item tok w = None" "\<not> no_null net"
    | a m' where "dr_ScrobbleFromQueue (pg_drain_ops e net cid) action item tok w = Some (answer_err a, (s, l, d, m', h @ [(drain_req cid action item tok, a)]))"
      "answers net a"
    using ScrobbleFromQueue_recorded [OF refl, of 0 e net "\<lambda>_. None" "\<lambda>_. None" cid "[]" action item tok s l d m h]
    by (auto simp: pg_drain_ops_def w scrobble_req_pg)
  then show ?case using 5 by cases (auto simp: w drain_ok_def pg_view_eq)
next
  case (6 w)
  obtain s l d m h where w: "w = (s, l, d, m, h)" by (cases w)
  have "queue_view (queued_scrobbles s) u = [] \<longleftrightarrow> u \<notin> q_user_id ` set (queued_scrobbles s)" for u
    using set_queue_view [of "queued_scrobbles s" u] by (auto simp flip: set_empty2)
  then show ?case using 6 drain_ok_sent [of e s l "(d, m, h)"]
    by (auto simp: pg_drain_ops_def w pg_view_eq ListUsersWithQueuedEvents_def sql_eqs drain_okD)
next
  case (7 w f)
  then show ?case by (cases w) (simp add: pg_drain_ops_def drain_ok_def pg_view_eq)
next
  case (8 w app x)
  obtain s l d m h where w: "w = (s, l, d, m, h)" by (cases w)
  with 8 have "log_inv 100 l" by (simp add: drain_ok_def)
  then obtain l' where "QueueEventLog_Append x l = Some l'" "log_inv 100 l'" using log_put_law [of 100 l x] by auto
  then show ?case using 8 by (auto simp: pg_drain_ops_def w pg_view_eq drain_ok_def)
next
  case (9 w u)
  then show ?case by (cases w) (simp add: drain_ok_def pg_view_eq schema_ok_def queue_ok_def distinct_queue_view)
next
  case (10 w ev u u')
  obtain s l d m h where w: "w = (s, l, d, m, h)" by (cases w)
  have "distinct (map q_id (queued_scrobbles s))" using 10 by (simp add: w drain_ok_def schema_ok_def queue_ok_def)
  from queue_view_apart [OF this, of ev u u'] 10(2,3) show ?case by (simp add: w pg_view_eq)
next
  case (11 w ev u)
  obtain s l d m h where w: "w = (s, l, d, m, h)" by (cases w)
  have "q_user_id ` set (queued_scrobbles s) \<subseteq> u_id ` set (users s)" using 11 by (simp add: w drain_ok_def schema_ok_def queue_ok_def)
  then show ?case using 11 by (auto simp: w pg_view_eq set_queue_view find_None_iff image_subset_iff image_iff) metis
qed

lemma queue_view_user_queue: "map row_event (order_asc q_created (user_queue u s)) = queue_view (queued_scrobbles s) u"
  by (simp add: queue_view_def user_queue_def)

lemma queue_view_empty: "queue_view rows u = [] \<longleftrightarrow> filter (\<lambda>r. q_user_id r = u) rows = []"
  by (simp add: queue_view_def order_asc_def flip: length_0_conv)

lemma drain_run:
  assumes "drain_ok e (s, l, d, m, h)" "find (\<lambda>r. u_id r = u) (users s) = Some row" "length (user_queue u s) < turns"
  shows "drainUserQueue turns (pg_drain_ops e net cid) u (s, l, d, m, h) = Panicked \<and> \<not> no_null net \<or> (\<exists>sent_ok s' l' d' m' segs.
    drainUserQueue turns (pg_drain_ops e net cid) u (s, l, d, m, h) =
      Returned (sent_ok, length (user_queue u s) - sent_ok) (s', l', d', m', h @ concat segs) \<and>
    user_queue u s' = [] \<and>
    (\<forall>v. v \<noteq> u \<longrightarrow> map row_event (order_asc q_created (user_queue v s')) = map row_event (order_asc q_created (user_queue v s))) \<and>
    list_all2 (\<lambda>ev. attempts (answers net) answer_err (drain_req cid (Action ev) (queued_item ev) (u_access row)))
      (map row_event (order_asc q_created (user_queue u s))) segs \<and>
    sent_ok = length (filter (delivered answer_err) segs) \<and> sent_ok \<le> length (user_queue u s))"
proof (cases "drainUserQueue turns (pg_drain_ops e net cid) u (s, l, d, m, h) = Panicked")
  case True
  have "length (queue_view (queued_scrobbles s) u) = length (user_queue u s)" by (simp add: queue_view_def user_queue_def order_asc_def)
  then show ?thesis using pg_drain.drainUserQueue_spec [OF assms(1), of u turns net cid] assms(3) True by (auto simp: pg_view_eq)
next
  case False
  let ?w = "(s, l, d, m, h)" and ?q = "queue_view (queued_scrobbles s)"
  have len: "length (?q u) = length (user_queue u s)" by (simp add: queue_view_def user_queue_def order_asc_def)
  obtain w' segs where w': "drainUserQueue turns (pg_drain_ops e net cid) u ?w = Returned (pg_drain.tally (0, 0) segs) w'"
    "list_all2 (\<lambda>ev seg. \<exists>user. dv_user (pg_view ?w) u = Some user \<and>
       attempts (answers net) answer_err (pg_drain.event_req cid user ev) seg) (?q u) segs"
    "pg_view w' = (pg_view ?w)\<lparr>dv_queue := ?q(u := []), dv_sent := h @ concat segs\<rparr>"
    using pg_drain.drainUserQueue_spec [OF assms(1), of u turns net cid] assms(3) False by (auto simp: pg_view_eq len)
  obtain s' l' d' m' h' where w: "w' = (s', l', d', m', h')" by (cases w')
  have v: "h' = h @ concat segs" "queue_view (queued_scrobbles s') = ?q(u := [])" using w'(3) by (simp_all add: w pg_view_eq)
  then have empty: "user_queue u s' = []" using queue_view_empty [of "queued_scrobbles s'" u] by (simp add: user_queue_def)
  have l: "list_all2 (\<lambda>ev. attempts (answers net) answer_err (drain_req cid (Action ev) (queued_item ev) (u_access row))) (?q u) segs"
    using w'(2) by (rule list_all2_mono) (auto simp: pg_view_eq assms(2) pg_drain.event_req_def user_of_row_def Let_def)
  then have "length segs = length (user_queue u s)" using len by (simp add: list_all2_lengthD)
  moreover have "length (filter (delivered answer_err) segs) + length (filter (Not \<circ> delivered answer_err) segs) = length segs"
    by (simp add: sum_length_filter_compl comp_def)
  ultimately have "pg_drain.tally (0, 0) segs = (length (filter (delivered answer_err) segs),
      length (user_queue u s) - length (filter (delivered answer_err) segs))"
    "length (filter (delivered answer_err) segs) \<le> length (user_queue u s)"
    by (auto simp: pg_drain.tally_def)
  with w'(1) v l empty show ?thesis unfolding w queue_view_user_queue
    by (intro disjI2 exI [of _ "length (filter (delivered answer_err) segs)"] exI [of _ s'] exI [of _ l'] exI [of _ d'] exI [of _ m'] exI [of _ segs])
      simp
qed

definition drain_db :: pg where
  "drain_db = demo_db\<lparr>queued_scrobbles := [row_of_event demo_env demo_event]\<rparr>"

definition const_net :: "http_response result \<Rightarrow> http_request \<Rightarrow> unit \<Rightarrow> http_response result \<times> unit" where
  "const_net a req m = (a, m)"

lemma demo_decodes [simp]: "decodes (row_of_event demo_env demo_event)" "row_event (row_of_event demo_env demo_event) = demo_event"
  using row_of_event_decodes [of demo_event demo_env] by simp_all

lemma drain_db_facts [simp]:
  "queued_scrobbles drain_db = [row_of_event demo_env demo_event]" "users drain_db = [demo_user_row]"
  "user_queue ''u'' drain_db = [row_of_event demo_env demo_event]"
  by (simp_all add: drain_db_def demo_db_def user_queue_def row_of_event_def)

lemma drain_db_schema [simp]: "schema_ok drain_db"
  by (simp add: schema_ok_def table_ok_defs)
    (simp add: drain_db_def demo_db_def pg_empty_def demo_user_row_def row_of_event_def demo_event_def queued_check_def)

lemma demo_drain_ok: "drain_ok demo_env (drain_db, NewQueueEventLog 100, NewDrainStateTracker, (), [])"
  using event_log.fresh_inv by (simp add: drain_ok_def)

text \<open>
  C3. Draining a user's queue, whatever Trakt answers and whenever: on a working database the
  drain ends in a panic only if Trakt accepts some scrobble with the document \<open>null\<close>.  Otherwise it
  returns (no more turns of its loop are needed than there are events, plus one), the user's queue is
  empty, the other queues are as before, and the events were sent in order of creation with the
  user's token, each in one to five identical requests, where a request is repeated only after a
  transient error and an event is given up only after a permanent error or the fifth transient
  one.  The counters report the events Trakt accepted and the rest.
\<close>

theorem drain_sends_queue:
  assumes "drain_ok e (s, l, d, m, h)" "find (\<lambda>r. u_id r = u) (users s) = Some row" "length (user_queue u s) < turns"
  shows "drainUserQueue turns (pg_drain_ops e net cid) u (s, l, d, m, h) = Panicked \<and> \<not> no_null net \<or>
    (\<exists>sent_ok s' l' d' m' segs.
      drainUserQueue turns (pg_drain_ops e net cid) u (s, l, d, m, h) =
        Returned (sent_ok, length (user_queue u s) - sent_ok) (s', l', d', m', h @ concat segs) \<and>
      user_queue u s' = [] \<and>
      (\<forall>v. v \<noteq> u \<longrightarrow> map row_event (order_asc q_created (user_queue v s')) = map row_event (order_asc q_created (user_queue v s))) \<and>
      list_all2 (\<lambda>ev. attempts (answers net) answer_err (drain_req cid (Action ev) (queued_item ev) (u_access row)))
        (map row_event (order_asc q_created (user_queue u s))) segs \<and>
      sent_ok = length (filter (delivered answer_err) segs) \<and> sent_ok \<le> length (user_queue u s))"
  by (rule drain_run [OF assms])

definition accept :: "http_response result" where
  "accept = Inr \<lparr>StatusCode = 201, StatusText = ''201 Created'', body_bytes = [], body_read_err = False, body_json = None\<rparr>"

lemma accept_facts [simp]: "answer_err accept = None" "no_null (const_net accept)" "answers (const_net accept) a \<longleftrightarrow> a = accept"
  by (auto simp: accept_def answer_err_def unavailable_def success_def no_null_def const_net_def answers_def)

theorem drain_sends_queue_witness:
  "\<exists>s' l' d' x. drainUserQueue 2 (pg_drain_ops demo_env (const_net accept) ''cid'') ''u''
      (drain_db, NewQueueEventLog 100, NewDrainStateTracker, (), []) = Returned (1, 0) (s', l', d', (), x) \<and>
     user_queue ''u'' s' = [] \<and> x = [(drain_req ''cid'' ''stop'' (queued_item demo_event) ''a'', accept)]"
proof -
  have "find (\<lambda>r. u_id r = ''u'') (users drain_db) = Some demo_user_row" by (simp add: demo_user_row_def)
  from drain_sends_queue [OF demo_drain_ok this, of 2 "const_net accept" "''cid''"] accept_facts(2)
  obtain k s' l' d' segs where run: "drainUserQueue 2 (pg_drain_ops demo_env (const_net accept) ''cid'') ''u''
      (drain_db, NewQueueEventLog 100, NewDrainStateTracker, (), []) = Returned (k, 1 - k) (s', l', d', (), concat segs)"
    "user_queue ''u'' s' = []" "k = length (filter (delivered answer_err) segs)"
    "list_all2 (\<lambda>ev. attempts (answers (const_net accept)) answer_err
       (drain_req ''cid'' (Action ev) (queued_item ev) (u_access demo_user_row))) [demo_event] segs"
    by (auto simp: order_asc_def)
  from run(4) obtain seg where seg: "segs = [seg]" "attempts (answers (const_net accept)) answer_err
      (drain_req ''cid'' (Action demo_event) (queued_item demo_event) (u_access demo_user_row)) seg"
    by (auto simp: list_all2_Cons1)
  then have "seg = [(drain_req ''cid'' ''stop'' (queued_item demo_event) ''a'', accept)]"
    using attempts_once [OF seg(2)] by (auto simp: isTransientError_def demo_event_def demo_user_row_def)
  with run seg(1) show ?thesis by (simp add: delivered_def)
qed

text \<open>
  C37. The drain does not put back what it could not send: if Trakt goes down again while a
  queue is drained, so that no scrobble is accepted, then on a working database, after at most five requests for
  each event the drain reports all of them as failed and the user's queue is empty.
\<close>

theorem outage_during_drain_loses_queue:
  assumes "drain_ok e (s, l, d, m, h)" "find (\<lambda>r. u_id r = u) (users s) = Some row" "length (user_queue u s) < turns"
    "\<forall>req m. answer_err (fst (net req m)) \<noteq> None"
  shows "\<exists>s' l' d' m' h'.
    drainUserQueue turns (pg_drain_ops e net cid) u (s, l, d, m, h) = Returned (0, length (user_queue u s)) (s', l', d', m', h') \<and>
    user_queue u s' = [] \<and> length h' \<le> length h + 5 * length (user_queue u s)"
proof -
  let ?q = "map row_event (order_asc q_created (user_queue u s))"
  have "answer_err (Inr r) = None" if "success (StatusCode r)" for r using that by (auto simp: answer_err_def unavailable_def success_def)
  then have "no_null net" using assms(4) unfolding no_null_def by metis
  then obtain k s' l' d' m' segs where run: "drainUserQueue turns (pg_drain_ops e net cid) u (s, l, d, m, h) =
      Returned (k, length (user_queue u s) - k) (s', l', d', m', h @ concat segs)" "user_queue u s' = []"
    "list_all2 (\<lambda>ev. attempts (answers net) answer_err (drain_req cid (Action ev) (queued_item ev) (u_access row))) ?q segs"
    "k = length (filter (delivered answer_err) segs)"
    using drain_run [OF assms(1-3), of net cid] by blast
  have seg: "length seg \<le> 5 \<and> \<not> delivered answer_err seg" if "seg \<in> set segs" for seg
  proof -
    from run(3) that obtain r where att: "attempts (answers net) answer_err r seg"
      by (metis (no_types, lifting) in_set_conv_nth list_all2_conv_all_nth)
    then have "last seg \<in> set seg" using attempts_nonempty [OF att] by simp
    with att have "answers net (snd (last seg))" "length seg \<le> 5" by (auto simp: attempts_def)
    with assms(4) show ?thesis by (metis answers_def delivered_def)
  qed
  have "length (concat xs) \<le> 5 * length xs" if "\<forall>x \<in> set xs. length x \<le> 5" for xs :: "exchange list list"
    using that by (induction xs) auto
  then have "length (concat segs) \<le> 5 * length segs" using seg by blast
  moreover have "length segs = length (user_queue u s)" using list_all2_lengthD [OF run(3)] by (simp add: order_asc_def)
  moreover have "k = 0" using run(4) seg by (auto simp: filter_empty_conv)
  ultimately show ?thesis using run(1,2) by auto
qed

theorem outage_during_drain_loses_queue_witness:
  "\<exists>s' l' d' h'. drainUserQueue 2 (pg_drain_ops demo_env (const_net (Inl (Err ''no such host''))) ''cid'') ''u''
      (drain_db, NewQueueEventLog 100, NewDrainStateTracker, (), []) = Returned (0, 1) (s', l', d', (), h') \<and> user_queue ''u'' s' = []"
proof -
  have "find (\<lambda>r. u_id r = ''u'') (users drain_db) = Some demo_user_row" by (simp add: demo_user_row_def)
  from outage_during_drain_loses_queue [OF demo_drain_ok this, of 2 "const_net (Inl (Err ''no such host''))" "''cid''"] show ?thesis
    by (auto simp: const_net_def answer_err_def)
qed

lemma queue_view_all_empty: "(\<forall>u. queue_view rows u = []) \<longleftrightarrow> rows = []"
  by (cases rows) (auto simp: queue_view_empty)

text \<open>
  When Trakt is live again everything is drained: on a working database, if Trakt accepts no
  scrobble with the document \<open>null\<close>, for every order in which the users' goroutines run, the drain of all users returns, and no event is queued
  any more; the users themselves are as before.
\<close>

theorem drain_empties_all_queues:
  assumes "drain_ok e (s, l, d, m, h)" "no_null net" "\<forall>u. length (user_queue u s) < turns" "\<forall>us. mset (sched us) = mset us"
  shows "\<exists>s' n'. initiateQueueDrain turns sched (pg_drain_ops e net cid) (s, l, d, m, h) = Returned () (s', n') \<and>
    queued_scrobbles s' = [] \<and> schema_ok s' \<and>
    (\<forall>u. map_option user_of_row (find (\<lambda>r. u_id r = u) (users s')) = map_option user_of_row (find (\<lambda>r. u_id r = u) (users s)))"
proof -
  let ?w = "(s, l, d, m, h)"
  have "length (dv_queue (pg_view ?w) u) = length (user_queue u s)" for u
    by (simp add: pg_view_eq queue_view_def user_queue_def order_asc_def)
  with assms(3) have turns: "\<forall>u. length (dv_queue (pg_view ?w) u) < turns" by simp
  have "distinct us" if "dr_ListUsersWithQueuedEvents (pg_drain_ops e net cid) w = (Inr us, w')" for w us w'
    using that by (cases w) (auto simp: pg_drain_ops_def ListUsersWithQueuedEvents_def sql_eqs split: option.splits)
  from pg_drain.initiateQueueDrain_spec [OF assms(2,1) turns, of sched cid] this assms(4) obtain w' where
    w': "initiateQueueDrain turns sched (pg_drain_ops e net cid) ?w = Returned () w'" "drain_ok e w'"
      "dv_user (pg_view w') = dv_user (pg_view ?w)" "dv_queue (pg_view w') = (\<lambda>u. [])" by blast
  obtain s' l' d' m' h' where w: "w' = (s', l', d', m', h')" by (cases w')
  have "queued_scrobbles s' = []" using w'(4) queue_view_all_empty by (simp add: w pg_view_eq fun_eq_iff)
  moreover have "schema_ok s'" using w'(2) by (simp add: w drain_ok_def)
  moreover have "\<forall>u. map_option user_of_row (find (\<lambda>r. u_id r = u) (users s')) = map_option user_of_row (find (\<lambda>r. u_id r = u) (users s))"
    using w'(3) by (simp add: w pg_view_eq fun_eq_iff)
  ultimately show ?thesis using w'(1) by (auto simp: w)
qed

theorem drain_empties_all_queues_witness:
  "\<exists>s' n'. initiateQueueDrain 2 rev (pg_drain_ops demo_env (const_net accept) ''cid'')
     (drain_db, NewQueueEventLog 100, NewDrainStateTracker, (), []) = Returned () (s', n') \<and> queued_scrobbles s' = []"
proof -
  have "\<forall>u. length (user_queue u drain_db) < 2" by (simp add: user_queue_def)
  from drain_empties_all_queues [OF demo_drain_ok accept_facts(2) this, of rev "''cid''"] show ?thesis by auto
qed

section \<open>When deletions fail\<close>

text \<open>
  A database that works except for deletions.  When Trakt accepts everything, a turn of the drain's loop
  for \<open>k\<close> events sends \<open>2 * k + 1\<close> statements: the query for the events, then for each event the query
  for its user and the deletion.  From statement \<open>n\<close> on exactly the deletions fail.
\<close>

definition deletions_fail :: "env \<Rightarrow> nat \<Rightarrow> nat \<Rightarrow> bool" where
  "deletions_fail e k n \<longleftrightarrow> (\<forall>i. let j = i mod (2 * k + 1) in
     env_rows e (n + i) = None \<and> (env_fault e (n + i) \<noteq> None \<longleftrightarrow> 0 < j \<and> even j))"

lemma deletions_failD:
  assumes "deletions_fail e k n"
  shows "env_fault e n = None" "env_rows e n = None"
    and "j < k \<Longrightarrow> env_fault e (n + 2 * j + 1) = None"
    and "j < k \<Longrightarrow> env_fault e (n + 2 * j + 2) \<noteq> None"
    and "deletions_fail e k (n + (2 * k + 1))"
proof -
  have f: "env_rows e (n + i) = None" "env_fault e (n + i) \<noteq> None \<longleftrightarrow> 0 < i mod (2 * k + 1) \<and> even (i mod (2 * k + 1))" for i
    using assms by (simp_all add: deletions_fail_def Let_def)
  show "env_fault e n = None" "env_rows e n = None" using f [of 0] by auto
  show "j < k \<Longrightarrow> env_fault e (n + 2 * j + 1) = None" using f(2) [of "2 * j + 1"] by (auto simp: add.assoc)
  show "j < k \<Longrightarrow> env_fault e (n + 2 * j + 2) \<noteq> None" using f(2) [of "2 * j + 2"] by (auto simp: add.assoc)
  have "(2 * k + 1 + i) mod (2 * k + 1) = i mod (2 * k + 1)" for i by (rule mod_add_self1)
  then show "deletions_fail e k (n + (2 * k + 1))"
    unfolding deletions_fail_def Let_def using f by (metis add.assoc)
qed

text \<open>The state after some more statements that changed nothing.\<close>

abbreviation later :: "nat \<Rightarrow> pg \<Rightarrow> pg" where
  "later k s \<equiv> s\<lparr>stmt_no := stmt_no s + k\<rparr>"

text \<open>Trakt accepts every scrobble, with a document other than \<open>null\<close>.\<close>

definition accepting :: "(http_request \<Rightarrow> 'm \<Rightarrow> http_response result \<times> 'm) \<Rightarrow> bool" where
  "accepting net \<longleftrightarrow> no_null net \<and> (\<forall>req m. answer_err (fst (net req m)) = None)"

lemma accepted_scrobble:
  assumes "accepting net"
  shows "\<exists>a m'. dr_ScrobbleFromQueue (pg_drain_ops e net cid) action item tok (s, l, d, m, h) =
    Some (None, (s, l, d, m', h @ [(drain_req cid action item tok, a)]))"
proof -
  obtain a m' where "ScrobbleFromQueue (pg_trakt 0 e (recorded net) (\<lambda>_. None) (\<lambda>_. None) cid []) action item tok (s, l, d, m, h) =
      Some (answer_err a, (s, l, d, m', h @ [(drain_req cid action item tok, a)]))" "answers net a"
    using ScrobbleFromQueue_recorded [OF refl, of 0 e net "\<lambda>_. None" "\<lambda>_. None" cid "[]" action item tok s l d m h] assms
    by (auto simp: scrobble_req_pg accepting_def)
  moreover from this(2) have "answer_err a = None" using assms by (auto simp: answers_def accepting_def)
  ultimately show ?thesis by (auto simp: pg_drain_ops_def)
qed

lemma undeleted_event:
  assumes "accepting net" "log_inv 100 l" "find (\<lambda>r. u_id r = u) (users s) = Some row" "ev_UserID ev = u"
    "env_fault e (stmt_no s) = None" "env_fault e (Suc (stmt_no s)) = Some x"
  shows "\<exists>l' d' m' a. drain_event (pg_drain_ops e net cid) u ev (s, l, d, m, h) =
      Some (True, (later 2 s, l', d', m', h @ [(drain_req cid (Action ev) (queued_item ev) (u_access row), a)])) \<and> log_inv 100 l'"
proof -
  let ?ops = "pg_drain_ops e net cid" and ?req = "drain_req cid (Action ev) (queued_item ev) (u_access row)"
  have usr: "dr_GetUser ?ops u (s, l, d, m, h) = Some (Some (user_of_row row), (sent s, l, d, m, h))"
    using assms(3,5) by (simp add: pg_drain_ops_def GetUser_def sql_eqs)
  obtain a m' where "dr_ScrobbleFromQueue ?ops (Action ev) (queued_item ev) (u_access row) (sent s, l, d, m, h) =
      Some (None, (sent s, l, d, m', h @ [(?req, a)]))" using accepted_scrobble [OF assms(1)] by blast
  then have send: "sendEventWithRetry ?ops ev (s, l, d, m, h) = Some (None, (sent s, l, d, m', h @ [(?req, a)]))"
    using usr assms(4) by (simp add: sendEventWithRetry_def eval_nat_numeral sendScrobble_def user_of_row_def Let_def)
  obtain l' where l': "log_drain ?ops ''queue_event_scrobbled'' u (ev_ID ev) [] (sent s, l, RecordEvent u True d, m', h @ [(?req, a)]) =
      Some (sent s, l', RecordEvent u True d, m', h @ [(?req, a)])" "log_inv 100 l'"
    using log_put_law [OF _ assms(2)] by (fastforce simp: log_drain_def pg_drain_ops_def)
  have tr: "dr_tracker ?ops f (s', l', d', n') = (s', l', f d', n')" for f s' l' d' n' by (simp add: pg_drain_ops_def)
  have del: "snd (dr_DeleteQueuedScrobble ?ops i (sent s, l', n')) = (later 2 s, l', n')" for i n'
    using assms(6) by (simp add: pg_drain_ops_def DeleteQueuedScrobble_def sql_eqs)
  show ?thesis using send l' by (auto simp: drain_event_def tr del Let_def)
qed

lemma undeleted_batch:
  assumes "accepting net" "find (\<lambda>r. u_id r = u) (users s) = Some row" "\<forall>ev \<in> set evs. ev_UserID ev = u" "log_inv 100 l"
    "\<forall>j < length evs. env_fault e (stmt_no s + 2 * j) = None \<and> env_fault e (stmt_no s + 2 * j + 1) \<noteq> None"
  shows "\<exists>l' d' m' h'. drain_batch (pg_drain_ops e net cid) u evs n (s, l, d, m, h) =
      Some ((fst n + length evs, snd n), (later (2 * length evs) s, l', d', m', h @ h')) \<and> log_inv 100 l' \<and>
    map fst h' = map (\<lambda>ev. drain_req cid (Action ev) (queued_item ev) (u_access row)) evs"
  using assms(2-)
proof (induction evs arbitrary: s l d m h n)
  case (Cons ev evs)
  let ?r = "\<lambda>ev. drain_req cid (Action ev) (queued_item ev) (u_access row)"
  from Cons.prems(4) obtain x where x: "env_fault e (stmt_no s) = None" "env_fault e (Suc (stmt_no s)) = Some x" by fastforce
  obtain l1 d1 m1 a where 1: "drain_event (pg_drain_ops e net cid) u ev (s, l, d, m, h) =
      Some (True, (later 2 s, l1, d1, m1, h @ [(drain_req cid (Action ev) (queued_item ev) (u_access row), a)]))" "log_inv 100 l1"
    using undeleted_event [OF assms(1) Cons.prems(3,1) _ x, of ev cid d m h] Cons.prems(2) by auto
  have "\<forall>j < length evs. env_fault e (stmt_no (later 2 s) + 2 * j) = None \<and> env_fault e (stmt_no (later 2 s) + 2 * j + 1) \<noteq> None"
  proof (intro allI impI)
    fix j assume "j < length evs"
    with Cons.prems(4) [rule_format, of "Suc j"]
    show "env_fault e (stmt_no (later 2 s) + 2 * j) = None \<and> env_fault e (stmt_no (later 2 s) + 2 * j + 1) \<noteq> None" by (simp add: add.assoc)
  qed
  from Cons.IH [of "later 2 s", OF _ _ 1(2) this, of "(Suc (fst n), snd n)" d1 m1 "h @ [(?r ev, a)]"] Cons.prems(1,2)
  obtain l' d' m' h' where "drain_batch (pg_drain_ops e net cid) u evs (Suc (fst n), snd n) (later 2 s, l1, d1, m1, h @ [(?r ev, a)]) =
      Some ((Suc (fst n) + length evs, snd n), (later (2 * length evs) (later 2 s), l', d', m', (h @ [(?r ev, a)]) @ h'))" "log_inv 100 l'"
    "map fst h' = map ?r evs" by auto
  then have "drain_batch (pg_drain_ops e net cid) u (ev # evs) n (s, l, d, m, h) =
      Some ((fst n + length (ev # evs), snd n), (later (2 * length (ev # evs)) s, l', d', m', h @ (?r ev, a) # h')) \<and>
      log_inv 100 l' \<and> map fst ((?r ev, a) # h') = map ?r (ev # evs)" using 1(1) by (simp add: add.assoc)
  then show ?case by blast
qed (simp add: exI [of _ "[]"])

lemma undeleted_turn:
  assumes "accepting net" "find (\<lambda>r. u_id r = u) (users s) = Some row" "list_all decodes (user_queue u s)" "log_inv 100 l"
    "evs = map row_event (take 100 (order_asc q_created (user_queue u s)))" "evs \<noteq> []" "deletions_fail e (length evs) (stmt_no s)"
  shows "\<exists>l' d' m' h'. (\<forall>turns. drain_loop (Suc turns) (pg_drain_ops e net cid) u n (s, l, d, m, h) =
      drain_loop turns (pg_drain_ops e net cid) u (fst n + length evs, snd n) (later (2 * length evs + 1) s, l', d', m', h @ h')) \<and> log_inv 100 l' \<and>
    map fst h' = map (\<lambda>ev. drain_req cid (Action ev) (queued_item ev) (u_access row)) evs"
proof -
  let ?ops = "pg_drain_ops e net cid"
  note del = deletions_failD [OF assms(7)]
  have "list_all decodes (take 100 (order_asc q_created (user_queue u s)))"
    using assms(3) by (auto simp: list_all_iff order_asc_def dest: in_set_takeD)
  then have deq: "dr_DequeueScrobbles ?ops u 100 (s, l, d, m, h) = Some (Inr evs, (sent s, l, d, m, h))"
    using del(1,2) by (simp add: pg_drain_ops_def DequeueScrobbles_def sql_eqs scan_events_decodes assms(5))
  have own: "\<forall>ev \<in> set evs. ev_UserID ev = u"
    by (auto simp: assms(5) order_asc_def user_queue_def dest!: in_set_takeD)
  have "\<forall>j < length evs. env_fault e (stmt_no (sent s) + 2 * j) = None \<and> env_fault e (stmt_no (sent s) + 2 * j + 1) \<noteq> None"
    using del(3,4) by (simp add: add.assoc)
  from undeleted_batch [OF assms(1) _ own assms(4) this, of row cid n d m h] assms(2)
  obtain l' d' m' h' where "drain_batch ?ops u evs n (sent s, l, d, m, h) =
      Some ((fst n + length evs, snd n), (later (2 * length evs) (sent s), l', d', m', h @ h'))" "log_inv 100 l'"
    "map fst h' = map (\<lambda>ev. drain_req cid (Action ev) (queued_item ev) (u_access row)) evs" by auto
  moreover have "later (2 * length evs) (sent s) = later (2 * length evs + 1) s" by (simp add: sent_def)
  ultimately have "drain_batch ?ops u evs n (sent s, l, d, m, h) =
      Some ((fst n + length evs, snd n), (later (2 * length evs + 1) s, l', d', m', h @ h'))" "log_inv 100 l'"
    "map fst h' = map (\<lambda>ev. drain_req cid (Action ev) (queued_item ev) (u_access row)) evs" by simp_all
  then show ?thesis using deq assms(6) by (intro exI [of _ l'] exI [of _ d'] exI [of _ m'] exI [of _ h']) simp
qed

text \<open>
  C38. What cannot be deleted is sent forever: take any user with queued events, and a database in which
  every statement works except the deletions, while Trakt accepts every scrobble.  Then the drain of that
  user never ends: after any number of turns of its loop it is still running, no row has left the
  database, and in every turn it has sent the oldest events of the queue, up to a hundred, once more.
\<close>

theorem undeletable_event_is_sent_forever:
  assumes "accepting net" "find (\<lambda>r. u_id r = u) (users s) = Some row" "list_all decodes (user_queue u s)" "log_inv 100 l"
    "evs = map row_event (take 100 (order_asc q_created (user_queue u s)))" "user_queue u s \<noteq> []" "deletions_fail e (length evs) (stmt_no s)"
  shows "\<exists>k l' d' m' h'. drainUserQueue turns (pg_drain_ops e net cid) u (s, l, d, m, h) = Running (s\<lparr>stmt_no := k\<rparr>, l', d', m', h @ h') \<and>
    map fst h' = concat (replicate turns (map (\<lambda>ev. drain_req cid (Action ev) (queued_item ev) (u_access row)) evs))"
proof -
  let ?ops = "pg_drain_ops e net cid"
  let ?reqs = "map (\<lambda>ev. drain_req cid (Action ev) (queued_item ev) (u_access row)) evs"
  have "order_asc q_created (user_queue u s) \<noteq> []" using assms(6) by (metis length_0_conv length_sort order_asc_def)
  then have ne: "evs \<noteq> []" by (simp add: assms(5))
  have run: "\<exists>k l' d' m' h'. drain_loop turns ?ops u n (later i s, l, d, m, h) = Running (s\<lparr>stmt_no := k\<rparr>, l', d', m', h @ h') \<and>
      map fst h' = concat (replicate turns ?reqs)"
    if "deletions_fail e (length evs) (stmt_no s + i)" "log_inv 100 l" for n i l d m h
    using that
  proof (induction turns arbitrary: n i l d m h)
    case 0
    then show ?case by (auto intro!: exI [of _ "stmt_no s + i"])
  next
    case (Suc turns)
    have uq: "user_queue u (later i s) = user_queue u s" by (simp add: user_queue_def)
    obtain l1 d1 m1 h1 where 1: "\<forall>turns. drain_loop (Suc turns) ?ops u n (later i s, l, d, m, h) =
        drain_loop turns ?ops u (fst n + length evs, snd n) (later (i + (2 * length evs + 1)) s, l1, d1, m1, h @ h1)" "log_inv 100 l1" "map fst h1 = ?reqs"
      using undeleted_turn [OF assms(1), of u "later i s" row l evs e cid n d m h] assms(2,3,5) ne Suc.prems by (auto simp: uq add.assoc)
    have "deletions_fail e (length evs) (stmt_no s + (i + (2 * length evs + 1)))"
      using deletions_failD(5) [OF Suc.prems(1)] by (simp add: add.assoc)
    from Suc.IH [OF this 1(2), of "(fst n + length evs, snd n)" d1 m1 "h @ h1"] obtain k l' d' m' h' where
      "drain_loop turns ?ops u (fst n + length evs, snd n) (later (i + (2 * length evs + 1)) s, l1, d1, m1, h @ h1) =
        Running (s\<lparr>stmt_no := k\<rparr>, l', d', m', (h @ h1) @ h')" "map fst h' = concat (replicate turns ?reqs)" by blast
    then have "drain_loop (Suc turns) ?ops u n (later i s, l, d, m, h) = Running (s\<lparr>stmt_no := k\<rparr>, l', d', m', h @ h1 @ h') \<and>
        map fst (h1 @ h') = concat (replicate (Suc turns) ?reqs)" using 1(1,3) by (simp del: drain_loop.simps)
    then show ?case by blast
  qed
  define d1 where "d1 = RecordDrainStart (dr_now ?ops (s, l, d, m, h)) u d"
  obtain l1 where l1: "log_drain ?ops ''queue_drain_user_start'' u [] [] (s, l, d1, m, h) = Some (s, l1, d1, m, h)" "log_inv 100 l1"
    using log_put_law [OF _ assms(4)] by (fastforce simp: log_drain_def pg_drain_ops_def)
  have tr: "dr_tracker ?ops f (s, l, d, n) = (s, l, f d, n)" for f n by (simp add: pg_drain_ops_def)
  obtain k l' d' m' h' where "drain_loop turns ?ops u (0, 0) (later 0 s, l1, d1, m, h) = Running (s\<lparr>stmt_no := k\<rparr>, l', d', m', h @ h')"
    "map fst h' = concat (replicate turns ?reqs)" using run [of 0 l1 "(0, 0)" d1 m h] assms(7) l1(2) by auto
  then show ?thesis using l1(1) by (auto simp: drainUserQueue_def Let_def tr simp flip: d1_def)
qed

text \<open>A database that refuses every third statement, and a queue of one event: exactly the deletions fail.\<close>

definition refusing_env :: env where
  "refusing_env = demo_env\<lparr>env_fault := (\<lambda>n. if n mod 3 = 2 then Some (Err ''permission denied'') else None)\<rparr>"

theorem undeletable_event_is_sent_forever_witness:
  "\<exists>k l' d' h'. drainUserQueue 1000 (pg_drain_ops refusing_env (const_net accept) ''cid'') ''u''
      (drain_db, NewQueueEventLog 100, NewDrainStateTracker, (), []) = Running (drain_db\<lparr>stmt_no := k\<rparr>, l', d', (), h') \<and> length h' = 1000"
proof -
  let ?evs = "map row_event (take 100 (order_asc q_created (user_queue ''u'' drain_db)))"
  have evs: "?evs = [demo_event]" by (simp add: order_asc_def)
  have "(\<exists>x. env_fault refusing_env n = Some x) \<longleftrightarrow> n mod 3 = 2" "env_rows refusing_env n = None" for n
    by (simp_all add: refusing_env_def demo_env_def)
  moreover have "0 < i mod 3 \<and> even (i mod 3) \<longleftrightarrow> i mod 3 = 2" for i :: nat by presburger
  moreover have "stmt_no drain_db = 0" by (simp add: drain_db_def demo_db_def pg_empty_def)
  ultimately have del: "deletions_fail refusing_env (length ?evs) (stmt_no drain_db)" unfolding evs deletions_fail_def Let_def by simp
  have db: "accepting (const_net accept)" "find (\<lambda>r. u_id r = ''u'') (users drain_db) = Some demo_user_row"
    "list_all decodes (user_queue ''u'' drain_db)" "user_queue ''u'' drain_db \<noteq> []"
    by (simp_all add: accepting_def demo_user_row_def) (simp add: const_net_def)
  from undeletable_event_is_sent_forever [OF db(1-3) event_log.fresh_inv refl db(4) del, of 1000 "''cid''" NewDrainStateTracker "()" "[]"]
  obtain k l' d' and m' :: unit and h' where "drainUserQueue 1000 (pg_drain_ops refusing_env (const_net accept) ''cid'') ''u''
      (drain_db, NewQueueEventLog 100, NewDrainStateTracker, (), []) = Running (drain_db\<lparr>stmt_no := k\<rparr>, l', d', m', [] @ h')"
    "map fst h' = concat (replicate 1000 (map (\<lambda>ev. drain_req ''cid'' (Action ev) (queued_item ev) (u_access demo_user_row)) ?evs))"
    by (elim exE conjE)
  moreover have "length (concat (replicate k [x])) = k" for k and x :: http_request by (induction k) simp_all
  then have "length h' = 1000" using arg_cong [OF calculation(2), of length] unfolding evs length_map list.map by metis
  ultimately show ?thesis by (cases m') auto
qed

end
