(* ===== verification/Health.thy ===== *)
theory Health
  imports Prelude
begin

text \<open>
  \<open>lib/trakt/health.go\<close>: the adaptive health check of the Trakt service, a two-mode state
  machine that announces its changes on a channel with ten places.  The mutexes make each
  method atomic.  Clock readings are arguments, in the order the code takes them.  The probe
  itself (\<open>Trakt.HealthCheck\<close>) is an argument: its error, if any.
\<close>

definition ShortHealthCheckInterval :: duration where
  "ShortHealthCheckInterval = 5 * Minute"

definition LongHealthCheckInterval :: duration where
  "LongHealthCheckInterval = 60 * Minute"

definition ExtendedOutageThreshold :: duration where
  "ExtendedOutageThreshold = 20 * Minute"

record HealthCheckState =
  hc_Mode :: string
  DowntimeSince :: gotime
  NextCheckAt :: gotime
  ConsecutiveFailures :: int
  CheckInterval :: duration

text \<open>The channel: the values sent and not yet received, and whether it is closed.\<close>

record HealthChecker =
  hc_state :: HealthCheckState
  stateChan :: "string list"
  chan_closed :: bool
  has_trakt :: bool

definition chan_capacity :: nat where
  "chan_capacity = 10"

definition NewHealthChecker :: "bool \<Rightarrow> HealthChecker" where
  "NewHealthChecker trakt = \<lparr>hc_state = \<lparr>hc_Mode = ''live'', DowntimeSince = 0, NextCheckAt = 0,
     ConsecutiveFailures = 0, CheckInterval = ShortHealthCheckInterval\<rparr>,
     stateChan = [], chan_closed = False, has_trakt = trakt\<rparr>"

definition CheckHealth :: "err option \<Rightarrow> HealthChecker \<Rightarrow> bool" where
  "CheckHealth probe h = (if \<not> has_trakt h then False else probe = None)"

text \<open>A non-blocking send: dropped when the channel is full.\<close>

definition try_send :: "string \<Rightarrow> HealthChecker \<Rightarrow> HealthChecker" where
  "try_send m h = (if length (stateChan h) < chan_capacity then h\<lparr>stateChan := stateChan h @ [m]\<rparr> else h)"

definition calculateInterval :: "gotime \<Rightarrow> HealthCheckState \<Rightarrow> duration" where
  "calculateInterval now st =
     (if hc_Mode st = ''live'' then ShortHealthCheckInterval
      else let elapsed = now - DowntimeSince st in
           if elapsed < ExtendedOutageThreshold then ShortHealthCheckInterval else LongHealthCheckInterval)"

definition RecordSuccess :: "gotime \<Rightarrow> HealthChecker \<Rightarrow> HealthChecker" where
  "RecordSuccess now h =
     (let previousMode = hc_Mode (hc_state h);
          h = h\<lparr>hc_state := (hc_state h)\<lparr>hc_Mode := ''live'', ConsecutiveFailures := 0,
                  CheckInterval := ShortHealthCheckInterval, NextCheckAt := now + ShortHealthCheckInterval\<rparr>\<rparr>
      in if previousMode = ''queue'' then try_send ''live'' h else h)"

definition RecordFailure :: "gotime \<Rightarrow> gotime \<Rightarrow> gotime \<Rightarrow> HealthChecker \<Rightarrow> HealthChecker" where
  "RecordFailure now1 now2 now3 h =
     (let h = (if hc_Mode (hc_state h) = ''live''
               then try_send ''queue'' (h\<lparr>hc_state := (hc_state h)\<lparr>hc_Mode := ''queue'', DowntimeSince := now1, ConsecutiveFailures := 1\<rparr>\<rparr>)
               else h\<lparr>hc_state := (hc_state h)\<lparr>ConsecutiveFailures := ConsecutiveFailures (hc_state h) + 1\<rparr>\<rparr>);
          interval = calculateInterval now2 (hc_state h)
      in h\<lparr>hc_state := (hc_state h)\<lparr>CheckInterval := interval, NextCheckAt := now3 + interval\<rparr>\<rparr>)"

definition NextInterval :: "gotime \<Rightarrow> HealthChecker \<Rightarrow> duration" where
  "NextInterval now h = calculateInterval now (hc_state h)"

definition GetState :: "HealthChecker \<Rightarrow> HealthCheckState" where
  "GetState h = hc_state h"

text \<open>The loop: a tick probes and records, the end of the context closes the channel.\<close>

datatype health_event = Probe "err option" gotime | Cancelled

fun runHealthCheckLoop :: "health_event list \<Rightarrow> HealthChecker \<Rightarrow> HealthChecker" where
  "runHealthCheckLoop [] h = h"
| "runHealthCheckLoop (Cancelled # _) h = h\<lparr>chan_closed := True\<rparr>"
| "runHealthCheckLoop (Probe probe now # evs) h =
     runHealthCheckLoop evs (if CheckHealth probe h then RecordSuccess now h else RecordFailure now now now h)"

section \<open>The mode is the verdict of the latest probes\<close>

text \<open>
  The abstract view: the history of probes, latest first; the outage is the leading run of
  failures.
\<close>

type_synonym history = "(bool \<times> gotime) list"

definition outage :: "history \<Rightarrow> history" where
  "outage hist = takeWhile (\<lambda>(good, _). \<not> good) hist"

definition describes :: "history \<Rightarrow> HealthCheckState \<Rightarrow> bool" where
  "describes hist st \<longleftrightarrow>
     hc_Mode st = (if outage hist = [] then ''live'' else ''queue'') \<and>
     ConsecutiveFailures st = int (length (outage hist)) \<and>
     (outage hist \<noteq> [] \<longrightarrow> DowntimeSince st = snd (last (outage hist)))"

lemma try_send_frame [simp]:
  "hc_state (try_send m h) = hc_state h" "has_trakt (try_send m h) = has_trakt h" "chan_closed (try_send m h) = chan_closed h"
  by (simp_all add: try_send_def)

lemma outage_Cons [simp]: "outage ((b, t) # hist) = (if b then [] else (b, t) # outage hist)"
  by (simp add: outage_def)

lemma describes_success: "describes hist (hc_state h) \<Longrightarrow> describes ((True, now) # hist) (hc_state (RecordSuccess now h))"
  by (simp add: describes_def RecordSuccess_def Let_def)

lemma describes_failure:
  "describes hist (hc_state h) \<Longrightarrow> describes ((False, n1) # hist) (hc_state (RecordFailure n1 n2 n3 h))"
  by (cases "outage hist") (auto simp: describes_def RecordFailure_def Let_def)

lemma interval_failure:
  assumes "describes hist (hc_state h)"
  shows "CheckInterval (hc_state (RecordFailure n n n h)) =
    (if n - snd (last (outage ((False, n) # hist))) < ExtendedOutageThreshold
     then ShortHealthCheckInterval else LongHealthCheckInterval)"
  using assms
  by (cases "outage hist") (auto simp: describes_def RecordFailure_def Let_def calculateInterval_def)

fun probes :: "health_event list \<Rightarrow> history" where
  "probes [] = []"
| "probes (Cancelled # _) = []"
| "probes (Probe p t # evs) = (p = None, t) # probes evs"

lemma RecordSuccess_trakt [simp]: "has_trakt (RecordSuccess n h) = has_trakt h"
  by (simp add: RecordSuccess_def Let_def)

lemma RecordFailure_trakt [simp]: "has_trakt (RecordFailure a b c h) = has_trakt h"
  by (simp add: RecordFailure_def Let_def)

lemma loop_describes:
  "has_trakt h \<Longrightarrow> describes hist (hc_state h) \<Longrightarrow>
     describes (rev (probes evs) @ hist) (hc_state (runHealthCheckLoop evs h))"
proof (induction evs arbitrary: h hist rule: probes.induct)
  case (3 p t evs)
  then show ?case
    using "3.IH" [of "if p = None then RecordSuccess t h else RecordFailure t t t h" "(p = None, t) # hist"]
    by (auto simp: CheckHealth_def describes_success describes_failure)
qed simp_all

text \<open>
  C33. After any sequence of probes the checker is in queue mode exactly when the latest probe
  failed; it then knows the number of failures in a row and the time of the first of them,
  and after a success it is live with no failures counted.
\<close>

theorem health_mode_spec:
  "let hist = rev (probes evs); st = GetState (runHealthCheckLoop evs (NewHealthChecker True)) in
     hc_Mode st = (if outage hist = [] then ''live'' else ''queue'') \<and>
     ConsecutiveFailures st = int (length (outage hist)) \<and>
     (outage hist = [] \<or> DowntimeSince st = snd (last (outage hist)))"
  using loop_describes [of "NewHealthChecker True" "[]" evs]
  by (auto simp: describes_def NewHealthChecker_def outage_def GetState_def Let_def)

lemma loop_append:
  "Cancelled \<notin> set evs \<Longrightarrow> runHealthCheckLoop (evs @ evs') h = runHealthCheckLoop evs' (runHealthCheckLoop evs h)"
  by (induction evs h rule: runHealthCheckLoop.induct) auto

lemma loop_trakt: "has_trakt (runHealthCheckLoop evs h) = has_trakt h"
  by (induction evs h rule: runHealthCheckLoop.induct) auto

text \<open>
  The probing interval adapts: after a failed probe the next one is scheduled in five
  minutes while the outage is shorter than twenty minutes and in sixty minutes from then on,
  the outage counted from its first failure; after a successful probe it is five minutes.
\<close>

theorem health_interval_spec:
  assumes "Cancelled \<notin> set evs"
  shows "let st = GetState (runHealthCheckLoop (evs @ [Probe p now]) (NewHealthChecker True));
             first = snd (last (outage ((p = None, now) # rev (probes evs)))) in
     NextCheckAt st = now + CheckInterval st \<and>
     CheckInterval st = (if p = None \<or> now - first < 20 * Minute then 5 * Minute else 60 * Minute)"
proof -
  let ?h = "runHealthCheckLoop evs (NewHealthChecker True)"
  have d: "describes (rev (probes evs)) (hc_state ?h)"
    using loop_describes [of "NewHealthChecker True" "[]" evs] by (simp add: NewHealthChecker_def describes_def outage_def)
  have "has_trakt ?h" by (simp add: loop_trakt NewHealthChecker_def)
  then have run: "runHealthCheckLoop (evs @ [Probe p now]) (NewHealthChecker True) =
      (if p = None then RecordSuccess now ?h else RecordFailure now now now ?h)"
    by (simp add: loop_append [OF assms] CheckHealth_def)
  show ?thesis
  proof (cases "p = None")
    case True
    then show ?thesis
      unfolding run by (simp add: GetState_def RecordSuccess_def Let_def ShortHealthCheckInterval_def)
  next
    case False
    have "NextCheckAt (hc_state (RecordFailure now now now ?h)) =
        now + CheckInterval (hc_state (RecordFailure now now now ?h))"
      by (simp add: RecordFailure_def Let_def)
    moreover have "(p = None) = False" using False by simp
    ultimately show ?thesis
      using interval_failure [OF d, of now] unfolding run by (simp only:) (simp add: GetState_def Let_def ShortHealthCheckInterval_def LongHealthCheckInterval_def
          ExtendedOutageThreshold_def)
  qed
qed

theorem health_interval_spec_witness:
  "CheckInterval (GetState (runHealthCheckLoop ([Probe (Some (Err ''x'')) 0] @ [Probe (Some (Err ''x'')) (21 * Minute)])
      (NewHealthChecker True))) = 60 * Minute"
  using health_interval_spec [of "[Probe (Some (Err ''x'')) 0]" "Some (Err ''x'')" "21 * Minute"]
  by (simp add: time_defs Let_def outage_def del: runHealthCheckLoop.simps)

section \<open>Announcements\<close>

text \<open>The changes of mode in a sequence of probe results.\<close>

fun changes :: "string \<Rightarrow> bool list \<Rightarrow> string list" where
  "changes mode [] = []"
| "changes mode (good # bs) =
     (let mode' = (if good then ''live'' else ''queue'') in
      if mode' = mode then changes mode bs else mode' # changes mode' bs)"

definition is_mode :: "string \<Rightarrow> bool" where
  "is_mode m \<longleftrightarrow> m = ''live'' \<or> m = ''queue''"

lemma take_append_take: "take n (take n xs @ ys) = take n (xs @ ys)"
  by (cases "length xs \<le> n") auto

lemma loop_chan:
  "has_trakt h \<Longrightarrow> is_mode (hc_Mode (hc_state h)) \<Longrightarrow> length (stateChan h) \<le> 10 \<Longrightarrow>
     stateChan (runHealthCheckLoop evs h) =
     take 10 (stateChan h @ changes (hc_Mode (hc_state h)) (map fst (probes evs)))"
proof (induction evs arbitrary: h rule: probes.induct)
  case (3 p t evs)
  define h' where "h' = (if p = None then RecordSuccess t h else RecordFailure t t t h)"
  have mode: "hc_Mode (hc_state h') = (if p = None then ''live'' else ''queue'')"
    using "3.prems" by (auto simp: h'_def RecordSuccess_def RecordFailure_def is_mode_def Let_def)
  have chan: "stateChan h' = take 10 (stateChan h @
      (if hc_Mode (hc_state h') = hc_Mode (hc_state h) then [] else [hc_Mode (hc_state h')]))"
    using "3.prems"
    by (auto simp: h'_def RecordSuccess_def RecordFailure_def is_mode_def Let_def try_send_def chan_capacity_def)
  have "stateChan (runHealthCheckLoop (Probe p t # evs) h) = stateChan (runHealthCheckLoop evs h')"
    using "3.prems" by (simp add: CheckHealth_def h'_def)
  also have "\<dots> = take 10 (stateChan h' @ changes (hc_Mode (hc_state h')) (map fst (probes evs)))"
    using "3.prems" mode chan by (intro "3.IH") (auto simp: h'_def is_mode_def)
  also have "\<dots> = take 10 (stateChan h @ changes (hc_Mode (hc_state h)) (map fst (probes (Probe p t # evs))))"
  proof -
    have "changes (hc_Mode (hc_state h)) (map fst (probes (Probe p t # evs))) =
        (if hc_Mode (hc_state h') = hc_Mode (hc_state h) then [] else [hc_Mode (hc_state h')]) @
        changes (hc_Mode (hc_state h')) (map fst (probes evs))"
      by (auto simp: mode Let_def)
    then show ?thesis unfolding chan take_append_take by simp
  qed
  finally show ?case .
qed simp_all

text \<open>
  While nobody receives, the channel holds the first ten changes of mode, in order and
  alternating between queue and live, however many probes run; a change beyond the tenth is
  dropped and the sender never blocks.
\<close>

theorem health_announcements:
  "stateChan (runHealthCheckLoop evs (NewHealthChecker True)) = take 10 (changes ''live'' (map fst (probes evs)))"
  using loop_chan [of "NewHealthChecker True" evs] by (simp add: NewHealthChecker_def is_mode_def)

end
