(* ===== verification/Worker.thy ===== *)
theory Worker
  imports Store_Laws
begin

text \<open>
  \<open>lib/queue\<close>: the repository wrapper (\<open>postgres_repo.go\<close>), the retry worker (\<open>worker.go\<close>),
  and the notifier it calls (\<open>lib/notify/notifier.go\<close>).  The worker is written against the
  store interface and against interfaces for Trakt and the notifier; they are a record of
  operations on a world \<open>'w\<close>.  A store may answer a lookup with neither a member nor an error
  (\<open>Inr None\<close>); the worker then dereferences nil, which is \<^const>\<open>None\<close> here, as are a panic
  of the body decoder and one of the Trakt client: nothing recovers them, so they end the process.  \<open>parse\<close> is the JSON syntax of \<open>encoding/json\<close>.  Every path reads the
  clock once; the reading is an argument.
\<close>

section \<open>Repository\<close>

record 'w RetryStore =
  rs_ListDueRetryItems :: "gotime \<Rightarrow> int \<Rightarrow> 'w \<Rightarrow> RetryQueueItem list result \<times> 'w"
  rs_GetGroupMember :: "string \<Rightarrow> 'w \<Rightarrow> GroupMember option result \<times> 'w"
  rs_MarkRetrySuccess :: "string \<Rightarrow> 'w \<Rightarrow> err option \<times> 'w"
  rs_MarkRetryFailure :: "string \<Rightarrow> int \<Rightarrow> gotime \<Rightarrow> string \<Rightarrow> bool \<Rightarrow> 'w \<Rightarrow> err option \<times> 'w"
  rs_EnqueueRetryItem :: "RetryQueueItem option \<Rightarrow> 'w \<Rightarrow> (err option \<times> RetryQueueItem option) \<times> 'w"

definition FetchDueItems :: "'w RetryStore \<Rightarrow> gotime \<Rightarrow> int \<Rightarrow> 'w \<Rightarrow> RetryQueueItem list result \<times> 'w" where
  "FetchDueItems r now limit w = (case rs_ListDueRetryItems r now limit w of
     (Inl x, w') \<Rightarrow> (Inl (Wrap ''fetch due items'' x), w') | (Inr items, w') \<Rightarrow> (Inr items, w'))"

definition MarkSuccess :: "'w RetryStore \<Rightarrow> string \<Rightarrow> 'w \<Rightarrow> err option \<times> 'w" where
  "MarkSuccess r i w = (let (x, w') = rs_MarkRetrySuccess r i w in (map_option (Wrap ''mark success'') x, w'))"

definition MarkFailure :: "'w RetryStore \<Rightarrow> string \<Rightarrow> int \<Rightarrow> gotime \<Rightarrow> string \<Rightarrow> bool \<Rightarrow> 'w \<Rightarrow> err option \<times> 'w" where
  "MarkFailure r i attempt nextAttempt lastErr permanent w =
     (let (x, w') = rs_MarkRetryFailure r i attempt nextAttempt lastErr permanent w in (map_option (Wrap ''mark failure'') x, w'))"

definition Enqueue :: "'w RetryStore \<Rightarrow> RetryQueueItem option \<Rightarrow> 'w \<Rightarrow> err option \<times> 'w" where
  "Enqueue r item w = (let ((x, _), w') = rs_EnqueueRetryItem r item w in (map_option (Wrap ''enqueue item'') x, w'))"

section \<open>Worker\<close>

definition DefaultPollInterval :: duration where
  "DefaultPollInterval = 15 * Second"

definition DefaultBatchSize :: int where
  "DefaultBatchSize = 50"

definition BaseBackoffDelay :: duration where
  "BaseBackoffDelay = 30 * Second"

definition MaxBackoffDelay :: duration where
  "MaxBackoffDelay = 30 * Minute"

text \<open>The client may panic: on a success whose document is \<open>null\<close>.\<close>

type_synonym 'w scrobbler = "string \<Rightarrow> CacheItem \<Rightarrow> string \<Rightarrow> 'w \<Rightarrow> (err option \<times> 'w) option"
type_synonym 'w notifier = "string \<Rightarrow> string \<Rightarrow> string \<Rightarrow> string \<Rightarrow> string \<Rightarrow> 'w \<Rightarrow> err option \<times> 'w"

record 'w Worker =
  wk_store :: "'w RetryStore"
  wk_trakt :: "'w scrobbler"
  wk_notifier :: "'w notifier option"
  wk_pollInterval :: duration
  wk_batchSize :: int

definition NewWorker :: "'w RetryStore \<Rightarrow> 'w scrobbler \<Rightarrow> 'w notifier option \<Rightarrow> duration \<Rightarrow> int \<Rightarrow> 'w Worker" where
  "NewWorker store trakt notifier pollInterval batchSize = \<lparr>wk_store = store, wk_trakt = trakt, wk_notifier = notifier,
     wk_pollInterval = (if pollInterval = 0 then DefaultPollInterval else pollInterval),
     wk_batchSize = (if batchSize = 0 then DefaultBatchSize else batchSize)\<rparr>"

text \<open>\<open>lib/notify\<close> only logs.\<close>

definition NotifyPermanentFailure :: "'w notifier" where
  "NotifyPermanentFailure groupID memberID memberUsername mediaTitle errorMsg w = (None, w)"

definition calculateBackoff :: "int \<Rightarrow> duration" where
  "calculateBackoff attempt =
     (if attempt \<le> 0 then BaseBackoffDelay
      else let delay = sint (word_of_int BaseBackoffDelay * shl1 (attempt - 1)) in
           if delay > MaxBackoffDelay then MaxBackoffDelay else delay)"

definition extractMediaTitle :: "ScrobbleBody \<Rightarrow> string" where
  "extractMediaTitle body =
     (case Option.bind (BMovie body) MovieTitle of
        Some title \<Rightarrow> (case Option.bind (BMovie body) MovieYear of
            Some y \<Rightarrow> title @ '' ('' @ itoa y @ '')''
          | None \<Rightarrow> title)
      | None \<Rightarrow> (case BShow body of
          Some sh \<Rightarrow>
            (let showTitle = (case ShowTitle sh of Some t \<Rightarrow> t | None \<Rightarrow> ''Unknown Show'') in
             case (Option.bind (BEpisode body) Season, Option.bind (BEpisode body) Number) of
               (Some sn, Some nr) \<Rightarrow> showTitle @ '' S'' @ pad2 sn @ ''E'' @ pad2 nr
             | _ \<Rightarrow> showTitle)
        | None \<Rightarrow> ''Unknown Media''))"

definition decode_body :: "(string \<Rightarrow> json option) \<Rightarrow> string \<Rightarrow> ScrobbleBody decoded" where
  "decode_body parse payload = (case parse payload of None \<Rightarrow> DecErr | Some j \<Rightarrow> ScrobbleBody_UnmarshalJSON j zero_Body)"

definition processItem :: "(string \<Rightarrow> json option) \<Rightarrow> 'w Worker \<Rightarrow> gotime \<Rightarrow> RetryQueueItem \<Rightarrow> 'w \<Rightarrow> 'w option" where
  "processItem parse wk now item w =
     (let repo = wk_store wk in
      case rs_GetGroupMember repo (rq_GroupMemberID item) w of
        (Inl _, w1) \<Rightarrow> Some (snd (MarkFailure repo (rq_ID item) MaxRetryAttempts now ''member not found'' True w1))
      | (Inr found, w1) \<Rightarrow>
          (case decode_body parse (Payload item) of
             DecPanic \<Rightarrow> None
           | DecErr \<Rightarrow> Some (snd (MarkFailure repo (rq_ID item) MaxRetryAttempts now ''invalid payload'' True w1))
           | DecOk body \<Rightarrow>
               (case found of
                  None \<Rightarrow> None
                | Some member \<Rightarrow>
                    (case wk_trakt wk ''stop'' (zero_CacheItem\<lparr>Body := body\<rparr>) (gm_AccessToken member) w1 of
                       None \<Rightarrow> None
                     | Some (None, w2) \<Rightarrow> Some (snd (MarkSuccess repo (rq_ID item) w2))
                     | Some (Some x, w2) \<Rightarrow>
                         (let newAttempt = AttemptCount item + 1 in
                          if newAttempt \<ge> MaxRetryAttempts
                          then (let w3 = snd (MarkFailure repo (rq_ID item) newAttempt now (err_text x) True w2) in
                                case wk_notifier wk of
                                  None \<Rightarrow> Some w3
                                | Some notify \<Rightarrow> Some (snd (notify (rq_FamilyGroupID item) (gm_ID member)
                                    (TraktUsername member) (extractMediaTitle body) (err_text x) w3)))
                          else Some (snd (MarkFailure repo (rq_ID item) newAttempt
                                 (now + calculateBackoff newAttempt) (err_text x) False w2)))))))"

text \<open>The clock is read once for the fetch and once for each item.\<close>

fun process_items :: "(string \<Rightarrow> json option) \<Rightarrow> 'w Worker \<Rightarrow> (nat \<Rightarrow> gotime) \<Rightarrow> nat \<Rightarrow> RetryQueueItem list \<Rightarrow> 'w \<Rightarrow> 'w option" where
  "process_items parse wk clock n [] w = Some w"
| "process_items parse wk clock n (item # items) w =
     Option.bind (processItem parse wk (clock n) item w) (process_items parse wk clock (Suc n) items)"

definition processBatch :: "(string \<Rightarrow> json option) \<Rightarrow> 'w Worker \<Rightarrow> (nat \<Rightarrow> gotime) \<Rightarrow> 'w \<Rightarrow> 'w option" where
  "processBatch parse wk clock w = (case FetchDueItems (wk_store wk) (clock 0) (wk_batchSize wk) w of
     (Inl _, w') \<Rightarrow> Some w'
   | (Inr items, w') \<Rightarrow> process_items parse wk clock 1 items w')"

text \<open>The loop: one batch per tick until the context is done.\<close>

datatype worker_event = Tick "nat \<Rightarrow> gotime" | Done

fun Start :: "(string \<Rightarrow> json option) \<Rightarrow> 'w Worker \<Rightarrow> worker_event list \<Rightarrow> 'w \<Rightarrow> 'w option" where
  "Start parse wk [] w = Some w"
| "Start parse wk (Done # _) w = Some w"
| "Start parse wk (Tick clock # evs) w = Option.bind (processBatch parse wk clock w) (Start parse wk evs)"

section \<open>Back-off of the worker\<close>

lemma calculateBackoff_exact:
  assumes "1 \<le> attempt" "attempt \<le> 29"
  shows "calculateBackoff attempt = min (30 * Minute) (30 * Second * 2 ^ nat (attempt - 1))"
proof -
  have "(2::int) ^ nat (attempt - 1) \<le> 2 ^ 28" using assms by (intro power_increasing) auto
  then have "30 * Second * 2 ^ nat (attempt - 1) \<le> 30 * Second * 2 ^ 28"
    by (intro mult_left_mono) (simp_all add: time_defs)
  then have "30 * Second * 2 ^ nat (attempt - 1) < (2::int) ^ 63" by (simp add: time_defs)
  from backoff_exact [OF _ this] assms show ?thesis
    by (simp add: calculateBackoff_def BaseBackoffDelay_def MaxBackoffDelay_def min_def time_defs)
qed

text \<open>
  The delay before the next attempt doubles from thirty seconds and is capped at thirty
  minutes, exactly, for every attempt number the worker uses (and up to 29); it is always
  positive there, never decreases, and the 64-bit product first wraps at attempt 30, where
  the delay turns negative.
\<close>

theorem calculateBackoff_spec:
  "(\<forall>n \<in> {1..29}. calculateBackoff n = min (30 * Minute) (30 * Second * 2 ^ nat (n - 1)) \<and> 0 < calculateBackoff n) \<and>
   (\<forall>m n. 1 \<le> m \<and> m \<le> n \<and> n \<le> 29 \<longrightarrow> calculateBackoff m \<le> calculateBackoff n) \<and>
   calculateBackoff 30 < 0"
proof (intro conjI ballI allI impI)
  fix n :: int assume n: "n \<in> {1..29}"
  then show "calculateBackoff n = min (30 * Minute) (30 * Second * 2 ^ nat (n - 1))"
    by (intro calculateBackoff_exact) auto
  then show "0 < calculateBackoff n" by (simp add: time_defs)
next
  fix m n :: int assume mn: "1 \<le> m \<and> m \<le> n \<and> n \<le> 29"
  then have "30 * Second * 2 ^ nat (m - 1) \<le> 30 * Second * 2 ^ nat (n - 1)"
    by (intro mult_left_mono power_increasing) (auto simp: time_defs)
  with mn show "calculateBackoff m \<le> calculateBackoff n"
    by (simp add: calculateBackoff_exact min.mono)
next
  show "calculateBackoff 30 < 0" by code_simp
qed

theorem calculateBackoff_spec_witness:
  "calculateBackoff 3 = 120 * Second \<and> calculateBackoff 3 \<le> calculateBackoff 4"
  using calculateBackoff_spec by (auto simp: time_defs)

section \<open>The contract of the retry store\<close>

text \<open>
  What the worker relies on: \<open>items\<close> is the content of the retry queue by identifier;
  marking success removes an item, marking failure rewrites the attempt counter, status and
  next attempt of that item only, and looking up a member changes nothing.
\<close>

locale retry_store =
  fixes ops :: "'w RetryStore"
    and items :: "'w \<Rightarrow> string \<Rightarrow> RetryQueueItem option"
    and ok :: "'w \<Rightarrow> bool"
    and good_id :: "string \<Rightarrow> bool"
    and col_time :: "gotime \<Rightarrow> gotime"
  assumes success: "ok w \<Longrightarrow> good_id i \<Longrightarrow> items w i \<noteq> None \<Longrightarrow>
      \<exists>w'. rs_MarkRetrySuccess ops i w = (None, w') \<and> ok w' \<and> items w' = (items w)(i := None)"
    and failure: "ok w \<Longrightarrow> good_id i \<Longrightarrow> items w i = Some it \<Longrightarrow> 0 \<le> a \<Longrightarrow> a \<le> MaxRetryAttempts \<Longrightarrow>
      \<exists>w' it'. rs_MarkRetryFailure ops i a t m p w = (None, w') \<and> ok w' \<and> items w' = (items w)(i \<mapsto> it') \<and>
        AttemptCount it' = (if p then MaxRetryAttempts else a) \<and>
        Status it' = (if p then RetryQueueStatusPermanentFailure else RetryQueueStatusQueued) \<and>
        NextAttemptAt it' = col_time t \<and> Payload it' = Payload it \<and> rq_GroupMemberID it' = rq_GroupMemberID it"
    and member: "ok w \<Longrightarrow> ok (snd (rs_GetGroupMember ops m w)) \<and> items (snd (rs_GetGroupMember ops m w)) = items w"

text \<open>With a Trakt client that leaves the retry queue alone.\<close>

locale retry_worker = retry_store +
  fixes trakt :: "'a scrobbler"
  assumes trakt_frame: "ok w \<Longrightarrow> trakt act it tok w = Some (x, w') \<Longrightarrow> ok w' \<and> items w' = items w"
begin

definition wk :: "'a Worker" where
  "wk = NewWorker ops trakt (Some NotifyPermanentFailure) 0 0"

lemma wk_fields [simp]:
  "wk_store wk = ops" "wk_trakt wk = trakt" "wk_notifier wk = Some NotifyPermanentFailure"
  by (simp_all add: wk_def NewWorker_def)

lemma snd_MarkFailure: "snd (MarkFailure ops i a t m p w) = snd (rs_MarkRetryFailure ops i a t m p w)"
  by (simp add: MarkFailure_def split: prod.split)

lemma snd_MarkSuccess: "snd (MarkSuccess ops i w) = snd (rs_MarkRetrySuccess ops i w)"
  by (simp add: MarkSuccess_def split: prod.split)

lemma processItem_succeeds:
  assumes "ok w" "good_id (rq_ID item)" "items w (rq_ID item) \<noteq> None"
    "rs_GetGroupMember ops (rq_GroupMemberID item) w = (Inr (Some mem), w1)"
    "decode_body parse (Payload item) = DecOk body"
    "trakt ''stop'' (zero_CacheItem\<lparr>Body := body\<rparr>) (gm_AccessToken mem) w1 = Some (None, w2)"
  shows "\<exists>w'. processItem parse wk now item w = Some w' \<and> ok w' \<and> items w' = (items w)(rq_ID item := None)"
proof -
  have "ok w1" "items w1 = items w" using member [OF assms(1)] assms(4) by (metis snd_conv)+
  then have "ok w2" "items w2 = items w" using trakt_frame assms(6) by metis+
  then obtain w' where "rs_MarkRetrySuccess ops (rq_ID item) w2 = (None, w')" "ok w'"
    "items w' = (items w)(rq_ID item := None)"
    using success [of w2 "rq_ID item"] assms(2,3) by auto
  then show ?thesis using assms(4-6) by (simp add: processItem_def snd_MarkSuccess)
qed

lemma processItem_fails:
  assumes "ok w" "good_id (rq_ID item)" "items w (rq_ID item) = Some it"
    "rs_GetGroupMember ops (rq_GroupMemberID item) w = (Inr (Some mem), w1)"
    "decode_body parse (Payload item) = DecOk body"
    "trakt ''stop'' (zero_CacheItem\<lparr>Body := body\<rparr>) (gm_AccessToken mem) w1 = Some (Some x, w2)"
    "0 \<le> AttemptCount item" "AttemptCount item < MaxRetryAttempts"
  shows "\<exists>w' it'. processItem parse wk now item w = Some w' \<and> ok w' \<and> items w' = (items w)(rq_ID item \<mapsto> it') \<and>
    AttemptCount it' = AttemptCount item + 1 \<and>
    (if AttemptCount item + 1 = MaxRetryAttempts
     then Status it' = RetryQueueStatusPermanentFailure
     else Status it' = RetryQueueStatusQueued \<and>
          NextAttemptAt it' = col_time (now + 30 * Second * 2 ^ nat (AttemptCount item)))"
proof -
  have "ok w1" "items w1 = items w" using member [OF assms(1)] assms(4) by (metis snd_conv)+
  then have w2: "ok w2" "items w2 = items w" using trakt_frame assms(6) by metis+
  show ?thesis
  proof (cases "AttemptCount item + 1 = MaxRetryAttempts")
    case True
    then obtain w' it' where "rs_MarkRetryFailure ops (rq_ID item) MaxRetryAttempts now (err_text x) True w2 = (None, w')"
      "ok w'" "items w' = (items w)(rq_ID item \<mapsto> it')" "AttemptCount it' = MaxRetryAttempts"
      "Status it' = RetryQueueStatusPermanentFailure"
      using failure [of w2 "rq_ID item" it MaxRetryAttempts now "err_text x" True] w2 assms(2,3)
      by (auto simp: MaxRetryAttempts_def)
    then show ?thesis using True assms(4-6)
      by (auto simp: processItem_def snd_MarkFailure NotifyPermanentFailure_def)
  next
    case False
    let ?n = "AttemptCount item + 1"
    have n: "0 \<le> ?n" "?n < MaxRetryAttempts" using False assms(7,8) by auto
    have "(2::int) ^ nat (AttemptCount item) \<le> 2 ^ 3"
      using n by (intro power_increasing) (auto simp: MaxRetryAttempts_def)
    then have delay: "calculateBackoff ?n = 30 * Second * 2 ^ nat (AttemptCount item)"
      using n assms(7) by (simp add: calculateBackoff_exact MaxRetryAttempts_def time_defs)
    obtain w' it' where "rs_MarkRetryFailure ops (rq_ID item) ?n (now + calculateBackoff ?n) (err_text x) False w2 = (None, w')"
      "ok w'" "items w' = (items w)(rq_ID item \<mapsto> it')" "AttemptCount it' = ?n"
      "Status it' = RetryQueueStatusQueued" "NextAttemptAt it' = col_time (now + calculateBackoff ?n)"
      using failure [of w2 "rq_ID item" it ?n "now + calculateBackoff ?n" "err_text x" False] w2 assms(2,3) n by auto
    then show ?thesis using False n assms(4-6) delay
      by (auto simp: processItem_def snd_MarkFailure)
  qed
qed

end

section \<open>The worker on PostgreSQL\<close>

text \<open>The world: the database and whatever state the Trakt client has.\<close>

definition on_pg :: "(pg \<Rightarrow> 'a \<times> pg) \<Rightarrow> pg \<times> 't \<Rightarrow> 'a \<times> (pg \<times> 't)" where
  "on_pg f w = (let (a, s) = f (fst w) in (a, (s, snd w)))"

definition on_trakt :: "'t scrobbler \<Rightarrow> (pg \<times> 't) scrobbler" where
  "on_trakt f act it tok w = map_option (\<lambda>(x, t). (x, (fst w, t))) (f act it tok (snd w))"

definition pg_retry_store :: "env \<Rightarrow> (pg \<times> 't) RetryStore" where
  "pg_retry_store e = \<lparr>
     rs_ListDueRetryItems = (\<lambda>now limit. on_pg (ListDueRetryItems e now limit)),
     rs_GetGroupMember = (\<lambda>i. on_pg (\<lambda>s. case GetGroupMember e i s of (Inl x, s') \<Rightarrow> (Inl x, s') | (Inr m, s') \<Rightarrow> (Inr (Some m), s'))),
     rs_MarkRetrySuccess = (\<lambda>i. on_pg (MarkRetrySuccess e i)),
     rs_MarkRetryFailure = (\<lambda>i a t m p. on_pg (MarkRetryFailure e i a t m p)),
     rs_EnqueueRetryItem = (\<lambda>p. on_pg (EnqueueRetryItem e p))\<rparr>"

definition retry_item :: "pg \<Rightarrow> string \<Rightarrow> RetryQueueItem option" where
  "retry_item s i = map_option item_of_row (find (\<lambda>r. r_id r = i) (retry_queue_items s))"

definition trimmed_id :: "string \<Rightarrow> bool" where
  "trimmed_id i \<longleftrightarrow> TrimSpace i = i \<and> i \<noteq> []"

lemma find_remove: "find (\<lambda>r. f r = j) (filter (\<lambda>r. f r \<noteq> i) rows) = (if i = j then None else find (\<lambda>r. f r = j) rows)"
  by (induction rows) auto

lemma find_map_key: "(\<And>r. f (g r) = f r) \<Longrightarrow> find (\<lambda>r. f r = j) (map g rows) = map_option g (find (\<lambda>r. f r = j) rows)"
  by (induction rows) auto

lemma filter_find: "find P xs = Some x \<Longrightarrow> filter P xs \<noteq> []"
  by (induction xs) (auto split: if_splits)

lemma find_key: "find (\<lambda>r. f r = i) rows = Some r \<Longrightarrow> f r = i"
  by (induction rows) (auto split: if_splits)

lemma MarkRetrySuccess_healthy:
  assumes "healthy e s" "trimmed_id i" "retry_item s i \<noteq> None"
  shows "\<exists>s'. MarkRetrySuccess e i s = (None, s') \<and> healthy e s' \<and> retry_item s' = (retry_item s)(i := None)"
proof -
  let ?s = "sent s\<lparr>retry_queue_items := filter (\<lambda>r. r_id r \<noteq> i) (retry_queue_items s)\<rparr>"
  have "MarkRetrySuccess e i s = (None, ?s)"
    using assms by (auto simp: MarkRetrySuccess_def sql_eqs trimmed_id_def retry_item_def Let_def dest: filter_find)
  moreover have "retry_item ?s = (retry_item s)(i := None)"
    by (auto simp: retry_item_def find_remove)
  moreover have "healthy e ?s" using assms(1) by (rule healthy_Suc) simp
  ultimately show ?thesis by blast
qed

lemma MarkRetryFailure_healthy:
  assumes "healthy e s" "trimmed_id i" "retry_item s i = Some it" "0 \<le> a" "a \<le> MaxRetryAttempts"
  shows "\<exists>s' it'. MarkRetryFailure e i a t m p s = (None, s') \<and> healthy e s' \<and> retry_item s' = (retry_item s)(i \<mapsto> it') \<and>
    AttemptCount it' = (if p then MaxRetryAttempts else a) \<and>
    Status it' = (if p then RetryQueueStatusPermanentFailure else RetryQueueStatusQueued) \<and>
    NextAttemptAt it' = env_timestamp e t \<and> Payload it' = Payload it \<and> rq_GroupMemberID it' = rq_GroupMemberID it"
proof -
  let ?f = "fail_row i (if p then MaxRetryAttempts else a) (env_timestamp e t) (nullableString m)
    (if p then RetryQueueStatusPermanentFailure else RetryQueueStatusQueued) (env_timestamp e (env_dbnow e (stmt_no s)))"
  let ?s = "sent s\<lparr>retry_queue_items := map ?f (retry_queue_items s)\<rparr>"
  obtain r where r: "find (\<lambda>r. r_id r = i) (retry_queue_items s) = Some r" "it = item_of_row r"
    using assms(3) by (auto simp: retry_item_def)
  have sm: "smallint (if p then MaxRetryAttempts else a)" using assms(4,5) by (auto simp: smallint_def MaxRetryAttempts_def)
  have "MarkRetryFailure e i a t m p s = (None, ?s)"
    using assms(1,2) r(1) sm filter_find [OF r(1)]
    by (simp add: MarkRetryFailure_def sql_eqs trimmed_id_def Let_def)
  moreover have "retry_item ?s j = ((retry_item s)(i \<mapsto> item_of_row (?f r))) j" for j
  proof -
    have fid: "r_id (?f x) = r_id x" for x by (simp add: fail_row_def)
    have "retry_item ?s j = map_option (item_of_row \<circ> ?f) (find (\<lambda>r. r_id r = j) (retry_queue_items s))"
      by (simp add: retry_item_def find_map_key fid option.map_comp)
    then show ?thesis
      using r(1) by (cases "j = i") (auto simp: retry_item_def fail_row_def comp_def dest: find_key intro!: option.map_cong0)
  qed
  moreover have "healthy e ?s" using assms(1) by (rule healthy_Suc) simp
  moreover have "r_id r = i" by (rule find_key [OF r(1)])
  ultimately show ?thesis using r(2) by (intro exI [of _ ?s] exI [of _ "item_of_row (?f r)"]) (auto simp: item_of_row_def fail_row_def)
qed

lemma GetGroupMember_frame: "\<exists>r. GetGroupMember e i s = (r, s) \<or> GetGroupMember e i s = (r, sent s)"
  by (auto simp: GetGroupMember_def sql_eqs Let_def split: option.splits)

interpretation pg_worker: retry_worker "pg_retry_store e" "\<lambda>w. retry_item (fst w)" "\<lambda>w. healthy e (fst w)" trimmed_id
    "env_timestamp e" "on_trakt f"
proof (unfold_locales, goal_cases)
  case (1 w i)
  then show ?case
    using MarkRetrySuccess_healthy [of e "fst w" i] by (auto simp: pg_retry_store_def on_pg_def)
next
  case (2 w i it a t m p)
  then show ?case
    using MarkRetryFailure_healthy [of e "fst w" i it a t m p] by (auto simp: pg_retry_store_def on_pg_def)
next
  case (3 w m)
  obtain r where "GetGroupMember e m (fst w) = (r, fst w) \<or> GetGroupMember e m (fst w) = (r, sent (fst w))"
    using GetGroupMember_frame by blast
  moreover have "healthy e (sent (fst w))" using 3 by (rule healthy_Suc) simp
  ultimately show ?case
    using 3 by (auto simp: pg_retry_store_def on_pg_def retry_item_def split: sum.split)
next
  case (4 w act it tok x w')
  then show ?case by (auto simp: on_trakt_def)
qed

text \<open>The worker \<open>main\<close> starts.\<close>

definition pg_Worker :: "env \<Rightarrow> 't scrobbler \<Rightarrow> (pg \<times> 't) Worker" where
  "pg_Worker e f = NewWorker (pg_retry_store e) (on_trakt f) (Some NotifyPermanentFailure) 0 0"

lemma pg_Worker_wk: "pg_Worker e f = pg_worker.wk e f"
  by (simp add: pg_Worker_def pg_worker.wk_def)

lemma pg_GetGroupMember:
  assumes "healthy e s" "trimmed_id i" "find (\<lambda>r. m_id r = i) (group_members s) = Some r"
  shows "rs_GetGroupMember (pg_retry_store e) i (s, t) = (Inr (Some (scanGroupMemberRow r)), (sent s, t))"
  using assms by (simp add: pg_retry_store_def on_pg_def GetGroupMember_def sql_eqs trimmed_id_def Let_def)

text \<open>The store leaves the state of the client alone.\<close>

lemma client_kept:
  "snd (snd (MarkSuccess (pg_retry_store e) i w)) = snd w" "snd (snd (MarkFailure (pg_retry_store e) i a now m p w)) = snd w"
  by (simp_all add: MarkSuccess_def MarkFailure_def pg_retry_store_def on_pg_def split: prod.split)

text \<open>
  C26. One retry of a queued item on a working database, whatever the Trakt client does with the
  scrobble, which carries the member's current token.  If the client reports success, the item
  leaves the queue.  If it reports an error, the attempt counter of the item grows by one, and the
  item is either queued again, thirty seconds times two to the number of earlier attempts from
  now, or, at the fifth failure, marked a permanent failure.  No other item of the queue changes.
  If the client panics, the worker does so too; apart from that it always returns.
\<close>

theorem processItem_outcome:
  assumes "healthy e s" "trimmed_id (rq_ID item)" "retry_item s (rq_ID item) = Some it"
    "trimmed_id (rq_GroupMemberID item)" "find (\<lambda>r. m_id r = rq_GroupMemberID item) (group_members s) = Some r"
    "decode_body parse (Payload item) = DecOk body" "0 \<le> AttemptCount item" "AttemptCount item < MaxRetryAttempts"
  shows "case f ''stop'' (zero_CacheItem\<lparr>Body := body\<rparr>) (NullString_String (m_access r)) t of
      None \<Rightarrow> processItem parse (pg_Worker e f) now item (s, t) = None
    | Some (None, t') \<Rightarrow> (\<exists>s'. processItem parse (pg_Worker e f) now item (s, t) = Some (s', t') \<and> healthy e s' \<and>
        retry_item s' = (retry_item s)(rq_ID item := None))
    | Some (Some x, t') \<Rightarrow> (\<exists>s' it'. processItem parse (pg_Worker e f) now item (s, t) = Some (s', t') \<and> healthy e s' \<and>
        retry_item s' = (retry_item s)(rq_ID item \<mapsto> it') \<and> AttemptCount it' = AttemptCount item + 1 \<and>
        (if AttemptCount item + 1 = MaxRetryAttempts
         then Status it' = RetryQueueStatusPermanentFailure
         else Status it' = RetryQueueStatusQueued \<and>
              NextAttemptAt it' = env_timestamp e (now + 30 * Second * 2 ^ nat (AttemptCount item))))"
proof -
  let ?mem = "scanGroupMemberRow r"
  let ?out = "f ''stop'' (zero_CacheItem\<lparr>Body := body\<rparr>) (gm_AccessToken ?mem) t"
  have acc: "gm_AccessToken ?mem = NullString_String (m_access r)" by (simp add: scanGroupMemberRow_def)
  have scr: "on_trakt f ''stop'' (zero_CacheItem\<lparr>Body := body\<rparr>) (gm_AccessToken ?mem) (sent s, t) =
      map_option (\<lambda>(x, t2). (x, (sent s, t2))) ?out" by (simp add: on_trakt_def)
  note mem = pg_GetGroupMember [OF assms(1,4,5), of t]
  consider "?out = None" | t2 where "?out = Some (None, t2)" | y t2 where "?out = Some (Some y, t2)" by (cases ?out) force+
  then show ?thesis
  proof cases
    case 1
    then show ?thesis using mem scr assms(6) acc by (simp add: processItem_def pg_Worker_wk)
  next
    case 2
    from pg_worker.processItem_succeeds [of e "(s, t)" item ?mem _ parse body f _ now] mem scr assms(1-3,6) 2
    have "\<exists>w'. processItem parse (pg_Worker e f) now item (s, t) = Some w' \<and> healthy e (fst w') \<and> retry_item (fst w') = (retry_item s)(rq_ID item := None)"
      by (auto simp: pg_Worker_wk)
    moreover have "snd w' = t2" if "processItem parse (pg_Worker e f) now item (s, t) = Some w'" for w'
      using that mem scr assms(6) 2 by (auto simp: processItem_def pg_Worker_wk client_kept)
    ultimately show ?thesis using 2 by (auto simp flip: acc)
  next
    case 3
    from pg_worker.processItem_fails [of e "(s, t)" item it ?mem _ parse body f y _ now] mem scr assms(1-3,6-8) 3
    have "\<exists>w' it'. processItem parse (pg_Worker e f) now item (s, t) = Some w' \<and> healthy e (fst w') \<and>
        retry_item (fst w') = (retry_item s)(rq_ID item \<mapsto> it') \<and> AttemptCount it' = AttemptCount item + 1 \<and>
        (if AttemptCount item + 1 = MaxRetryAttempts
         then Status it' = RetryQueueStatusPermanentFailure
         else Status it' = RetryQueueStatusQueued \<and>
              NextAttemptAt it' = env_timestamp e (now + 30 * Second * 2 ^ nat (AttemptCount item)))"
      by (auto simp: pg_Worker_wk)
    moreover have "snd w' = t2" if "processItem parse (pg_Worker e f) now item (s, t) = Some w'" for w'
      using that mem scr assms(6) 3
      by (auto simp: processItem_def pg_Worker_wk client_kept NotifyPermanentFailure_def Let_def split: if_splits)
    ultimately show ?thesis using 3 by (auto simp flip: acc split: if_splits)
  qed
qed

definition demo_retry_row :: retry_row where
  "demo_retry_row = \<lparr>r_id = ''i'', r_group = ''g'', r_member = ''m'', r_payload = ''{}'', r_attempt = 4, r_next = 1,
     r_error = None, r_status = RetryQueueStatusRetrying, r_created = 1, r_updated = 1\<rparr>"

definition demo_member_row :: member_row where
  "demo_member_row = \<lparr>m_id = ''m'', m_group = ''g'', m_label = ''Dad'', m_trakt = Some ''dad'', m_access = Some ''tok'',
     m_refresh = None, m_expiry = None, m_status = ''authorized'', m_created = 1\<rparr>"

theorem processItem_outcome_witness:
  "\<exists>s' t' it'. processItem (\<lambda>_. Some (JObj [])) (pg_Worker demo_env (\<lambda>_ _ _ t. Some (Some (Err ''down''), t))) 100
      (item_of_row demo_retry_row) (pg_empty\<lparr>retry_queue_items := [demo_retry_row], group_members := [demo_member_row]\<rparr>, ()) =
      Some (s', t') \<and>
    retry_item s' = [''i'' \<mapsto> it'] \<and> Status it' = RetryQueueStatusPermanentFailure"
proof -
  let ?s = "pg_empty\<lparr>retry_queue_items := [demo_retry_row], group_members := [demo_member_row]\<rparr>"
  have i: "retry_item ?s = [''i'' \<mapsto> item_of_row demo_retry_row]"
    by (rule ext) (simp add: retry_item_def demo_retry_row_def)
  have "healthy demo_env ?s" by (simp add: healthy_def demo_env_def)
  moreover have "trimmed_id (rq_ID (item_of_row demo_retry_row))" "trimmed_id (rq_GroupMemberID (item_of_row demo_retry_row))"
    by (simp_all add: trimmed_id_def item_of_row_def demo_retry_row_def go_str plain_def)
  moreover have "decode_body (\<lambda>_. Some (JObj [])) (Payload (item_of_row demo_retry_row)) = DecOk zero_Body"
    by (simp add: decode_body_def ScrobbleBody_UnmarshalJSON_def dec_aux_def zero_Body_def)
  ultimately show ?thesis
    using processItem_outcome [of demo_env ?s "item_of_row demo_retry_row" "item_of_row demo_retry_row" demo_member_row
        "\<lambda>_. Some (JObj [])" zero_Body "\<lambda>_ _ _ t. Some (Some (Err ''down''), t)" 100 "()"] i
    by (auto simp: item_of_row_def demo_retry_row_def demo_member_row_def MaxRetryAttempts_def)
qed

text \<open>
  A database error while the member is looked up costs the item all its attempts: if that
  one statement fails and the next one works, the item is marked a permanent failure with the
  reason that the member was not found, although the member may exist and Trakt was never
  asked.
\<close>

theorem lookup_error_is_permanent:
  assumes "env_fault e (stmt_no s) = Some x" "healthy e (sent s)" "trimmed_id (rq_ID item)"
    "retry_item s (rq_ID item) = Some it" "trimmed_id (rq_GroupMemberID item)"
  shows "\<exists>s' it'. processItem parse (pg_Worker e f) now item (s, t) = Some (s', t) \<and>
    retry_item s' = (retry_item s)(rq_ID item \<mapsto> it') \<and> Status it' = RetryQueueStatusPermanentFailure"
proof -
  have "rs_GetGroupMember (pg_retry_store e) (rq_GroupMemberID item) (s, t) = (Inl x, (sent s, t))"
    using assms(1,5) by (simp add: pg_retry_store_def on_pg_def GetGroupMember_def sql_eqs trimmed_id_def Let_def)
  moreover have "retry_item (sent s) = retry_item s" by (rule ext) (simp add: retry_item_def)
  moreover obtain s' it' where "MarkRetryFailure e (rq_ID item) MaxRetryAttempts now ''member not found'' True (sent s) = (None, s')"
    "retry_item s' = (retry_item (sent s))(rq_ID item \<mapsto> it')" "Status it' = RetryQueueStatusPermanentFailure"
    using MarkRetryFailure_healthy [of e "sent s" "rq_ID item" it MaxRetryAttempts now "''member not found''" True]
      assms(2-4) calculation(2) by (auto simp: MaxRetryAttempts_def)
  ultimately show ?thesis
    by (simp add: processItem_def pg_Worker_def NewWorker_def MarkFailure_def)
      (auto simp: pg_retry_store_def on_pg_def)
qed

theorem lookup_error_is_permanent_witness:
  "\<exists>s' it'. processItem (\<lambda>_. None) (pg_Worker (demo_env\<lparr>env_fault := (\<lambda>n. if n = 0 then Some (Err ''timeout'') else None)\<rparr>)
        (\<lambda>_ _ _ t. Some (None, t))) 100 (item_of_row demo_retry_row)
      (pg_empty\<lparr>retry_queue_items := [demo_retry_row], group_members := [demo_member_row]\<rparr>, ()) = Some (s', ()) \<and>
    retry_item s' = [''i'' \<mapsto> it'] \<and> Status it' = RetryQueueStatusPermanentFailure"
proof -
  let ?e = "demo_env\<lparr>env_fault := (\<lambda>n. if n = 0 then Some (Err ''timeout'') else None)\<rparr>"
  let ?s = "pg_empty\<lparr>retry_queue_items := [demo_retry_row], group_members := [demo_member_row]\<rparr>"
  have i: "retry_item ?s = [''i'' \<mapsto> item_of_row demo_retry_row]"
    by (rule ext) (simp add: retry_item_def demo_retry_row_def)
  have "healthy ?e (sent ?s)" by (simp add: healthy_def demo_env_def pg_empty_def)
  moreover have "env_fault ?e (stmt_no ?s) = Some (Err ''timeout'')" by (simp add: pg_empty_def)
  moreover have "trimmed_id (rq_ID (item_of_row demo_retry_row))" "trimmed_id (rq_GroupMemberID (item_of_row demo_retry_row))"
    by (simp_all add: trimmed_id_def item_of_row_def demo_retry_row_def go_str plain_def)
  moreover have "rq_ID (item_of_row demo_retry_row) = ''i''" by (simp add: item_of_row_def demo_retry_row_def)
  ultimately show ?thesis
    using lookup_error_is_permanent [of ?e ?s _ "item_of_row demo_retry_row" "item_of_row demo_retry_row"
        "\<lambda>_. None" "\<lambda>_ _ _ t. Some (None, t)" 100 "()"] i
    by auto
qed

section \<open>Fetching due items\<close>

lemma due_rows_set:
  "r \<in> set (due_rows now limit s) \<Longrightarrow> r \<in> set (retry_queue_items s) \<and> r_next r \<le> now \<and>
     r_status r \<in> {RetryQueueStatusQueued, RetryQueueStatusRetrying}"
  by (auto simp: due_rows_def order_asc_def dest!: in_set_takeD)

lemma ListDueRetryItems_healthy:
  fixes now :: gotime and limit :: int
  assumes "healthy e s"
  defines "due \<equiv> due_rows (env_timestamp e now) (if limit \<le> 0 then 50 else limit) s"
  shows "\<exists>t t'. ListDueRetryItems e now limit s =
    (Inr (map (\<lambda>r. (item_of_row r)\<lparr>Status := RetryQueueStatusRetrying, rq_UpdatedAt := t\<rparr>) due),
     if due = [] then s\<lparr>stmt_no := stmt_no s + 3\<rparr>
     else (mark_retrying (r_id ` set due) t' s)\<lparr>stmt_no := stmt_no s + 4\<rparr>)"
proof -
  have h: "env_fault e n = None" "env_rows e n = None" if "stmt_no s \<le> n" for n
    using assms(1) that by (simp_all add: healthy_def)
  define l where "l = (if limit \<le> 0 then 50 else limit)"
  have due: "due = due_rows (env_timestamp e now) l s" by (simp add: due_def l_def)
  have d: "due_rows (env_timestamp e now) l (sent s) = due" "due_rows (env_timestamp e now) l (sent (sent s)) = due"
    by (simp_all add: due_rows_def due)
  have n: "stmt_no (mark_retrying I x y) = stmt_no y" for I x y by (simp add: mark_retrying_def)
  show ?thesis
  proof (cases "due = []")
    case True
    then show ?thesis
      by (simp add: ListDueRetryItems_def sql_eqs h d n Let_def flip: l_def)
  next
    case False
    then show ?thesis
      by (simp add: ListDueRetryItems_def sql_eqs h d n Let_def flip: l_def)
        (auto simp: sent_def mark_retrying_def eval_nat_numeral)
  qed
qed

text \<open>
  Fetching due items on a working database: it returns at most the requested number (fifty
  when none is given), each of them queued or interrupted, with its time come, never a
  permanent failure, earliest first, and marks exactly these as being retried.
\<close>

theorem ListDueRetryItems_spec:
  assumes "healthy e s"
  shows "\<exists>items s'. ListDueRetryItems e now limit s = (Inr items, s') \<and>
    int (length items) \<le> (if limit \<le> 0 then 50 else limit) \<and>
    sorted (map NextAttemptAt items) \<and>
    (\<forall>i \<in> set items. Status i = RetryQueueStatusRetrying \<and> NextAttemptAt i \<le> env_timestamp e now \<and>
       (\<exists>r \<in> set (retry_queue_items s). r_id r = rq_ID i \<and> r_status r \<noteq> RetryQueueStatusPermanentFailure)) \<and>
    (\<forall>r \<in> set (retry_queue_items s'). r_id r \<in> rq_ID ` set items \<longrightarrow> r_status r = RetryQueueStatusRetrying) \<and>
    filter (\<lambda>r. r_id r \<notin> rq_ID ` set items) (retry_queue_items s') =
      filter (\<lambda>r. r_id r \<notin> rq_ID ` set items) (retry_queue_items s)"
proof -
  define due where "due = due_rows (env_timestamp e now) (if limit \<le> 0 then 50 else limit) s"
  obtain t t' where run: "ListDueRetryItems e now limit s =
    (Inr (map (\<lambda>r. (item_of_row r)\<lparr>Status := RetryQueueStatusRetrying, rq_UpdatedAt := t\<rparr>) due),
     if due = [] then s\<lparr>stmt_no := stmt_no s + 3\<rparr>
     else (mark_retrying (r_id ` set due) t' s)\<lparr>stmt_no := stmt_no s + 4\<rparr>)"
    using ListDueRetryItems_healthy [OF assms, of now limit] unfolding due_def by blast
  let ?items = "map (\<lambda>r. (item_of_row r)\<lparr>Status := RetryQueueStatusRetrying, rq_UpdatedAt := t\<rparr>) due"
  let ?s = "if due = [] then s\<lparr>stmt_no := stmt_no s + 3\<rparr>
     else (mark_retrying (r_id ` set due) t' s)\<lparr>stmt_no := stmt_no s + 4\<rparr>"
  have ids: "rq_ID ` set ?items = r_id ` set due" by (simp add: image_image item_of_row_def)
  have nexts: "map NextAttemptAt ?items = map r_next due" by (simp add: item_of_row_def)
  have "sorted (map r_next due)"
    by (simp add: due_def due_rows_def order_asc_def sorted_wrt_take flip: take_map)
  moreover have "int (length ?items) \<le> (if limit \<le> 0 then 50 else limit)"
    by (auto simp: due_def due_rows_def)
  moreover have "\<forall>i \<in> set ?items. Status i = RetryQueueStatusRetrying \<and> NextAttemptAt i \<le> env_timestamp e now \<and>
       (\<exists>r \<in> set (retry_queue_items s). r_id r = rq_ID i \<and> r_status r \<noteq> RetryQueueStatusPermanentFailure)"
    using due_rows_set [of _ "env_timestamp e now" "if limit \<le> 0 then 50 else limit" s]
    by (auto simp: item_of_row_def due_def [symmetric] retry_status_defs) force+
  moreover have "\<forall>r \<in> set (retry_queue_items ?s). r_id r \<in> r_id ` set due \<longrightarrow> r_status r = RetryQueueStatusRetrying"
    by (auto simp: mark_retrying_def)
  moreover have "filter (\<lambda>r. r_id r \<notin> r_id ` set due) (retry_queue_items ?s) =
      filter (\<lambda>r. r_id r \<notin> r_id ` set due) (retry_queue_items s)"
  proof -
    have "filter (\<lambda>r. r_id r \<notin> I) (map (\<lambda>r. if r_id r \<in> I then r\<lparr>r_status := st, r_updated := t'\<rparr> else r) rows) =
        filter (\<lambda>r. r_id r \<notin> I) rows" for I st and rows :: "retry_row list"
      by (induction rows) auto
    from this [of "r_id ` set due"] show ?thesis by (simp add: mark_retrying_def)
  qed
  ultimately show ?thesis using run by (intro exI [of _ ?items] exI [of _ ?s]) (simp only: ids nexts simp_thms)
qed

theorem ListDueRetryItems_spec_witness:
  "\<exists>items s'. ListDueRetryItems demo_env 100 1 (pg_empty\<lparr>retry_queue_items := [demo_retry_row]\<rparr>) = (Inr items, s') \<and>
    length items \<le> 1"
  using ListDueRetryItems_spec [of demo_env "pg_empty\<lparr>retry_queue_items := [demo_retry_row]\<rparr>" 100 1]
  by (auto simp: healthy_def demo_env_def)

end
