(* ===== verification/Background.thy ===== *)
theory Background
  imports Drain Health Worker
begin

text \<open>
  The background goroutines of \<open>main.go\<close>: \<open>startQueueDrainSystem\<close>, which drains the queues at start-up and whenever the health
  checker announces that Trakt is live, and \<open>logRetryQueueMetrics\<close>.  The drain system is a function of what happens, in
  order: its own signals and the work of everybody else in between; a drain it starts runs to its end before the next of these.
\<close>

section \<open>Metrics\<close>

text \<open>The counts that are logged, if the items can be fetched.\<close>

definition logRetryQueueMetrics :: "'w RetryStore \<Rightarrow> gotime \<Rightarrow> 'w \<Rightarrow> (int \<times> int) option \<times> 'w" where
  "logRetryQueueMetrics r now w = (case FetchDueItems r (now + 24 * Hour) 1000 w of
     (Inl _, w') \<Rightarrow> (None, w')
   | (Inr items, w') \<Rightarrow> (Some (int (length (filter (\<lambda>i. Status i \<noteq> ''permanent_failure'') items)),
        int (length (filter (\<lambda>i. Status i = ''permanent_failure'') items))), w'))"

section \<open>The drain system\<close>

datatype 'w signal = Startup | Announced string | Others "'w \<Rightarrow> 'w" | Done

fun startQueueDrainSystem :: "nat \<Rightarrow> (string list \<Rightarrow> string list) \<Rightarrow> 'w DrainOps \<Rightarrow> 'w signal list \<Rightarrow> 'w \<Rightarrow> (unit, 'w) run" where
  "startQueueDrainSystem turns sched ops [] w = Returned () w"
| "startQueueDrainSystem turns sched ops (Done # sigs) w = Returned () w"
| "startQueueDrainSystem turns sched ops (Others f # sigs) w = startQueueDrainSystem turns sched ops sigs (f w)"
| "startQueueDrainSystem turns sched ops (Startup # sigs) w = (case initiateQueueDrain turns sched ops w of
     Returned _ w' \<Rightarrow> startQueueDrainSystem turns sched ops sigs w'
   | Panicked \<Rightarrow> Panicked
   | Running w' \<Rightarrow> Running w')"
| "startQueueDrainSystem turns sched ops (Announced state # sigs) w =
     (if state = ''live''
      then (case initiateQueueDrain turns sched ops w of
          Returned _ w' \<Rightarrow> startQueueDrainSystem turns sched ops sigs w'
        | Panicked \<Rightarrow> Panicked
        | Running w' \<Rightarrow> Running w')
      else startQueueDrainSystem turns sched ops sigs w)"

lemma system_append:
  "Done \<notin> set sigs \<Longrightarrow> startQueueDrainSystem turns sched ops sigs w = Returned () w' \<Longrightarrow>
     startQueueDrainSystem turns sched ops (sigs @ rest) w = startQueueDrainSystem turns sched ops rest w'"
  by (induction turns sched ops sigs w rule: startQueueDrainSystem.induct) (auto split: run.splits if_splits)

context drain_client
begin

text \<open>The system can go on from every state whose queues are not longer than the turns of a drain, if Trakt is calm.\<close>

definition ready :: "nat \<Rightarrow> 'w \<Rightarrow> bool" where
  "ready turns w \<longleftrightarrow> calm \<and> ok w \<and> (\<forall>u. length (dv_queue (view w) u) < turns)"

lemma drain_ready:
  assumes "ready turns w" "\<forall>us. mset (sched us) = mset us" "\<forall>w us w'. dr_ListUsersWithQueuedEvents ops w = (Inr us, w') \<longrightarrow> distinct us"
  shows "\<exists>w'. initiateQueueDrain turns sched ops w = Returned () w' \<and> ready turns w' \<and> dv_queue (view w') = (\<lambda>u. [])"
proof -
  have "0 < turns" using assms(1) by (metis ready_def not_less_zero gr0I)
  moreover obtain w' where "initiateQueueDrain turns sched ops w = Returned () w'" "ok w'" "dv_queue (view w') = (\<lambda>u. [])"
    using initiateQueueDrain_spec [of w turns sched] assms by (auto simp: ready_def)
  ultimately show ?thesis using assms(1) unfolding ready_def by auto
qed

lemma system_returns:
  assumes "ready turns w" "\<forall>us. mset (sched us) = mset us" "\<forall>w us w'. dr_ListUsersWithQueuedEvents ops w = (Inr us, w') \<longrightarrow> distinct us"
    "\<forall>f w. Others f \<in> set sigs \<and> ready turns w \<longrightarrow> ready turns (f w)"
  shows "\<exists>w'. startQueueDrainSystem turns sched ops sigs w = Returned () w' \<and> ready turns w'"
  using assms(1,4)
proof (induction sigs arbitrary: w)
  case (Cons sig sigs)
  have IH: "\<And>w. ready turns w \<Longrightarrow> \<exists>w'. startQueueDrainSystem turns sched ops sigs w = Returned () w' \<and> ready turns w'"
    using Cons.IH Cons.prems(2) by simp
  obtain w1 where w1: "initiateQueueDrain turns sched ops w = Returned () w1" "ready turns w1"
    using drain_ready [OF Cons.prems(1) assms(2,3)] by blast
  show ?case
  proof (cases sig)
    case (Others f)
    then have "ready turns (f w)" using Cons.prems by auto
    then show ?thesis using IH Others by simp
  qed (use IH Cons.prems(1) w1 in auto)
qed simp

lemma live_empties:
  assumes "ready turns w" "\<forall>us. mset (sched us) = mset us" "\<forall>w us w'. dr_ListUsersWithQueuedEvents ops w = (Inr us, w') \<longrightarrow> distinct us"
    "\<forall>f w. Others f \<in> set sigs \<and> ready turns w \<longrightarrow> ready turns (f w)" "Done \<notin> set sigs"
  shows "\<exists>w'. startQueueDrainSystem turns sched ops (sigs @ [Announced ''live'']) w = Returned () w' \<and> ready turns w' \<and> dv_queue (view w') = (\<lambda>u. [])"
proof -
  obtain w1 where w1: "startQueueDrainSystem turns sched ops sigs w = Returned () w1" "ready turns w1"
    using system_returns [OF assms(1-4)] by blast
  from system_append [OF assms(5) w1(1)] drain_ready [OF w1(2) assms(2,3)] show ?thesis by auto
qed

end

section \<open>From probes to drains\<close>

text \<open>A sequence of probes that ends well after a failure announces at its end that Trakt is live.\<close>

lemma changes_last:
  assumes "False \<in> set bs"
  shows "\<exists>ms. changes mode (bs @ [True]) = ms @ [''live'']"
  using assms
proof (induction bs arbitrary: mode)
  case (Cons b bs)
  show ?case
  proof (cases "False \<in> set bs")
    case True
    from Cons.IH [OF this] show ?thesis by (auto simp: Let_def split: if_splits) (metis append_Cons)+
  next
    case False
    then have b: "\<not> b" using Cons.prems by auto
    have "changes ''live'' xs = []" if "\<forall>x \<in> set xs. x" for xs using that by (induction xs) auto
    moreover have "changes ''queue'' (bs @ [True]) = ''live'' # changes ''live'' (tl (bs @ [True]))"
      using False by (cases bs) (auto simp: Let_def)
    moreover have "\<forall>x \<in> set (tl (bs @ [True])). x" using False by (cases bs) (auto, metis (full_types))
    ultimately have "changes ''queue'' (bs @ [True]) = [''live'']" by simp
    then show ?thesis using b by (auto simp: Let_def)
  qed
qed simp

lemma pg_lists_distinct: "dr_ListUsersWithQueuedEvents (pg_drain_ops e net cid) w = (Inr us, w') \<Longrightarrow> distinct us"
  by (cases w) (auto simp: pg_drain_ops_def ListUsersWithQueuedEvents_def sql_eqs split: option.splits)

text \<open>
  The queues are shorter than the turns of a drain, the database works, and Trakt accepts no
  scrobble with the document \<open>null\<close>.
\<close>

definition pg_ready :: "env \<Rightarrow> (http_request \<Rightarrow> 'm \<Rightarrow> http_response result \<times> 'm) \<Rightarrow> nat \<Rightarrow> 'm drain_world \<Rightarrow> bool" where
  "pg_ready e net turns = (\<lambda>(s, l, n). no_null net \<and> drain_ok e (s, l, n) \<and> (\<forall>u. length (user_queue u s) < turns))"

lemma pg_ready_eq: "pg_drain.ready e net turns w = pg_ready e net turns w"
  by (cases w) (auto simp: pg_drain.ready_def pg_ready_def pg_view_eq queue_view_def user_queue_def order_asc_def)

text \<open>
  C14. Every outage ends in a drain: if the probes of Trakt fail at some time and the last one succeeds, with at most ten changes of
  mode, the last announcement of the health checker is that Trakt is live.  Whatever was announced before it and whatever the
  other parts of the server did in the meantime, as long as the database works, no queue outgrows the drain and Trakt accepts no
  scrobble with the document \<open>null\<close>, the drain system has handled it all, and after this announcement no event is queued any more.
\<close>

theorem recovery_is_followed_by_drain:
  assumes "pg_ready e net turns w" "\<forall>us. mset (sched us) = mset us"
    and probes: "map fst (probes evs) = bs @ [True]" "False \<in> set bs" "length (changes ''live'' (bs @ [True])) \<le> 10"
    and others: "\<forall>f w. Others f \<in> set sigs \<and> pg_ready e net turns w \<longrightarrow> pg_ready e net turns (f w)" "Done \<notin> set sigs"
  shows "\<exists>s' n'. startQueueDrainSystem turns sched (pg_drain_ops e net cid)
      (sigs @ [Announced (last (stateChan (runHealthCheckLoop evs (NewHealthChecker True))))]) w = Returned () (s', n') \<and> queued_scrobbles s' = []"
proof -
  have "stateChan (runHealthCheckLoop evs (NewHealthChecker True)) = changes ''live'' (bs @ [True])"
    using health_announcements [of evs] probes(1,3) by simp
  then have live: "last (stateChan (runHealthCheckLoop evs (NewHealthChecker True))) = ''live''"
    using changes_last [OF probes(2), of "''live''"] by auto
  have r: "pg_drain.ready e net turns w" "\<forall>f w. Others f \<in> set sigs \<and> pg_drain.ready e net turns w \<longrightarrow> pg_drain.ready e net turns (f w)"
    using assms(1) others(1) by (simp_all add: pg_ready_eq)
  have d: "\<forall>w us w'. dr_ListUsersWithQueuedEvents (pg_drain_ops e net cid) w = (Inr us, w') \<longrightarrow> distinct us" using pg_lists_distinct by blast
  obtain w' where w': "startQueueDrainSystem turns sched (pg_drain_ops e net cid) (sigs @ [Announced ''live'']) w = Returned () w'"
    "dv_queue (pg_view w') = (\<lambda>u. [])" using pg_drain.live_empties [OF r(1) assms(2) d r(2) others(2)] by blast
  obtain s' n' where "w' = (s', n')" by (cases w')
  then show ?thesis using w' live queue_view_all_empty by (cases n') (simp add: pg_view_eq fun_eq_iff)
qed

theorem recovery_is_followed_by_drain_witness:
  "\<exists>s' n'. startQueueDrainSystem 2 rev (pg_drain_ops demo_env (const_net accept) ''cid'') ([Startup, Announced ''queue'', Others id] @
     [Announced (last (stateChan (runHealthCheckLoop [Probe (Some (Err ''down'')) 1, Probe None 2] (NewHealthChecker True))))])
     (drain_db, NewQueueEventLog 100, NewDrainStateTracker, (), []) = Returned () (s', n') \<and> queued_scrobbles s' = []"
proof -
  have "\<forall>u. length (user_queue u drain_db) < 2" by (simp add: user_queue_def)
  then have ready: "pg_ready demo_env (const_net accept) 2 (drain_db, NewQueueEventLog 100, NewDrainStateTracker, (), [])"
    using demo_drain_ok by (simp add: pg_ready_def)
  have "map fst (probes [Probe (Some (Err ''down'')) 1, Probe None 2]) = [False] @ [True]" by simp
  from recovery_is_followed_by_drain [OF ready _ this, of rev "[Startup, Announced ''queue'', Others id]" "''cid''"] show ?thesis by simp
qed

end
