(* ===== verification/Api.thy ===== *)
theory Api
  imports Webhook_Flow Server_State Worker
begin

text \<open>
  The HTTP entry points of \<open>main.go\<close> that change state: \<open>api\<close>, which receives the webhooks of
  Plex, with the refresh of tokens and the broadcast to a family, and \<open>persistAuthorizedUser\<close>,
  which stores the tokens of an authorisation.  They run on the PostgreSQL store with the Trakt
  client; requests of one user run one at a time, so the call group of \<open>singleflight\<close> does not
  show.  \<^const>\<open>None\<close> is a panic, which the server's recovery turns into a status 500, or an
  enqueue operation that does not return.  Log output and the headers of replies are not
  modelled.
\<close>

section \<open>The payload of a request\<close>

text \<open>\<open>url.QueryUnescape\<close>: \<^const>\<open>None\<close> is the error for a malformed escape.\<close>

definition unhex :: "char \<Rightarrow> nat option" where
  "unhex c = (let n = of_char c in
     if 48 \<le> n \<and> n \<le> 57 then Some (n - 48)
     else if 97 \<le> n \<and> n \<le> 102 then Some (n - 87)
     else if 65 \<le> n \<and> n \<le> 70 then Some (n - 55)
     else None)"

fun QueryUnescape :: "string \<Rightarrow> string option" where
  "QueryUnescape [] = Some []"
| "QueryUnescape (c # s) =
     (if c = CHR ''%''
      then (case s of
          a # b # t \<Rightarrow> (case (unhex a, unhex b) of
              (Some x, Some y) \<Rightarrow> map_option (Cons (char_of (16 * x + y))) (QueryUnescape t)
            | _ \<Rightarrow> None)
        | _ \<Rightarrow> None)
      else if c = CHR ''+'' then map_option (Cons (CHR '' '')) (QueryUnescape s)
      else map_option (Cons c) (QueryUnescape s))"

text \<open>\<open>regexp.MustCompile("({.*})").FindStringSubmatch\<close>: the leftmost match, with the longest run of
  bytes other than line feed.\<close>

definition braces_at :: "string \<Rightarrow> string option" where
  "braces_at s = (let line = takeWhile (\<lambda>c. c \<noteq> CHR 0x0A) s in
     if s \<noteq> [] \<and> hd s = CHR ''{'' \<and> CHR ''}'' \<in> set (tl line)
     then Some (rev (dropWhile (\<lambda>c. c \<noteq> CHR ''}'') (rev line))) else None)"

fun find_braces :: "string \<Rightarrow> string option" where
  "find_braces [] = None"
| "find_braces (c # s) = (case braces_at (c # s) of Some m \<Rightarrow> Some m | None \<Rightarrow> find_braces s)"

text \<open>
  The payload the handler decodes.  The handler has read the whole body before it asks the
  form parser and the multipart reader for the field \<open>payload\<close>; both then find an exhausted
  body and yield nothing, so that the payload is always taken from the raw body.
\<close>

definition api_payload :: "string \<Rightarrow> string" where
  "api_payload body =
     (if HasPrefix (TrimSpace body) ''payload=''
      then (case QueryUnescape (tl (dropWhile (\<lambda>c. c \<noteq> CHR ''='') body)) of Some decoded \<Rightarrow> decoded | None \<Rightarrow> body)
      else body)"

definition parse_payload :: "(string \<Rightarrow> Webhook result) \<Rightarrow> string \<Rightarrow> Webhook option" where
  "parse_payload decoder payload = (case Parser_Parse decoder payload of
     Inr hook \<Rightarrow> Some hook
   | Inl _ \<Rightarrow> (case find_braces payload of
       None \<Rightarrow> None
     | Some m \<Rightarrow> (case Parser_Parse decoder m of Inr hook \<Rightarrow> Some hook | Inl _ \<Rightarrow> None)))"

section \<open>Tokens\<close>

text \<open>
  A number of a decoded document as \<open>float64\<close>, and its conversion to \<open>int64\<close>, which truncates;
  Go leaves a value out of range to the implementation, here that of the amd64 processors.
\<close>

definition json_float :: "json option \<Rightarrow> rat option" where
  "json_float v = (case v of Some (JInt n) \<Rightarrow> Some (f64 n) | Some (JFrac r) \<Rightarrow> Some (rnd r) | _ \<Rightarrow> None)"

definition f64_int64 :: "rat \<Rightarrow> int" where
  "f64_int64 r = (if in_int64 (f64_int r) then f64_int r else - (2 ^ 63))"

text \<open>A decoded object: the last of several values of a key counts.\<close>

definition json_get :: "(string \<times> json) list \<Rightarrow> string \<Rightarrow> json option" where
  "json_get kvs k = map_of (rev kvs) k"

definition calculateTokenExpiry :: "gotime \<Rightarrow> (string \<times> json) list \<Rightarrow> gotime" where
  "calculateTokenExpiry now oauthResult = (case json_float (json_get oauthResult ''expires_in'') of
     Some expiresIn \<Rightarrow> (if expiresIn > 0
       then now + sint (word_of_int (f64_int64 expiresIn) * word_of_int Second :: 64 word)
       else now + 90 * 24 * Hour)
   | None \<Rightarrow> now + 90 * 24 * Hour)"

record HttpError =
  he_Code :: int
  he_Message :: string

text \<open>The refresh of a token that expires within two days; a missing or non-text token panics.\<close>

definition refresh_token :: "env \<Rightarrow> 'n world TraktEnv \<Rightarrow> string \<Rightarrow> User \<Rightarrow> 'n world \<Rightarrow> ((HttpError + User) \<times> 'n world) option" where
  "refresh_token e te selfRoot user w =
     (if TokenExpiry user - te_now te w < 48 * Hour
      then (case AuthRequest te (selfRoot @ ''/authorize'') (Username user) [] (RefreshToken user) ''refresh_token'' w of
          ((result, good), (s, l, n)) \<Rightarrow>
            (if good
             then let now = te_now te (s, l, n); tokenExpiry = calculateTokenExpiry now result in
               (case (json_get result ''access_token'', json_get result ''refresh_token'') of
                  (Some (JStr a), Some (JStr r)) \<Rightarrow>
                    map_option (\<lambda>(u, s'). (Inr u, (s', l, n))) (UpdateUser (WriteUser e) now a r None tokenExpiry user s)
                | _ \<Rightarrow> None)
             else Some (Inl \<lparr>he_Code = 401, he_Message = ''fail''\<rparr>, (s, l, n))))
      else Some (Inr user, w))"

text \<open>The function \<open>api\<close> passes to the call group.\<close>

definition resolve_user :: "env \<Rightarrow> 'n world TraktEnv \<Rightarrow> string \<Rightarrow> string \<Rightarrow> string \<Rightarrow> bool \<Rightarrow> 'n world \<Rightarrow>
    ((HttpError + User) \<times> 'n world) option" where
  "resolve_user e te selfRoot uid username owner = (\<lambda>(s, l, n).
     (case GetUser e uid s of
        None \<Rightarrow> None
      | Some (None, s1) \<Rightarrow> Some (Inl \<lparr>he_Code = 403, he_Message = ''id is invalid''\<rparr>, (s1, l, n))
      | Some (Some user, s1) \<Rightarrow>
          (case (if owner \<and> username \<noteq> Username user then GetUserByName e username s1 else Some (Some user, s1)) of
             None \<Rightarrow> None
           | Some (None, s2) \<Rightarrow> Some (Inl \<lparr>he_Code = 404, he_Message = ''user not found''\<rparr>, (s2, l, n))
           | Some (Some user, s2) \<Rightarrow> refresh_token e te selfRoot user (s2, l, n))))"

definition persistAuthorizedUser :: "env \<Rightarrow> string \<Rightarrow> gotime \<Rightarrow> string \<Rightarrow> string \<Rightarrow> string \<Rightarrow> string \<Rightarrow> string option \<Rightarrow> gotime \<Rightarrow> pg \<Rightarrow>
    ((err + (User \<times> bool)) \<times> pg) option" where
  "persistAuthorizedUser e newID now username existingID accessToken refreshToken displayName tokenExpiry s =
     (if existingID \<noteq> []
      then (case GetUser e existingID s of
          None \<Rightarrow> None
        | Some (None, s1) \<Rightarrow> Some (Inl (Err (''selected user '' @ existingID @ '' no longer exists'')), s1)
        | Some (Some existing, s1) \<Rightarrow>
            (let inputUsername = ToLower (TrimSpace username);
                 existingUsername = ToLower (TrimSpace (Username existing));
                 (existingUsername, inputUsername) =
                   (if existingUsername = [] \<and> inputUsername \<noteq> [] then (inputUsername, inputUsername)
                    else if inputUsername = [] \<and> existingUsername \<noteq> [] then (existingUsername, existingUsername)
                    else (existingUsername, inputUsername))
             in if existingUsername \<noteq> [] \<and> inputUsername \<noteq> [] \<and> existingUsername \<noteq> inputUsername
                then Some (Inl (Err ''manual renewal username mismatch''), s1)
                else if inputUsername = [] then Some (Inl (Err (''selected user '' @ existingID @ '' missing username'')), s1)
                else map_option (\<lambda>(u, s2). (Inr (u, True), s2))
                  (UpdateUser (WriteUser e) now accessToken refreshToken displayName tokenExpiry
                     (existing\<lparr>Username := inputUsername\<rparr>) s1)))
      else map_option (\<lambda>(u, s1). (Inr (u, False), s1))
        (NewUser (WriteUser e) newID now (ToLower (TrimSpace username)) accessToken refreshToken displayName tokenExpiry True s))"

section \<open>Families\<close>

record api_reply =
  rp_Status :: int
  rp_Fields :: "(string \<times> json) list"

definition extractMediaTitleFromScrobble :: "ScrobbleBody \<Rightarrow> string" where
  "extractMediaTitleFromScrobble body =
     (case Option.bind (BMovie body) MovieTitle of
        Some title \<Rightarrow> (case Option.bind (BMovie body) MovieYear of
            Some y \<Rightarrow> title @ '' ('' @ itoa y @ '')''
          | None \<Rightarrow> title)
      | None \<Rightarrow> (case BShow body of
          Some sh \<Rightarrow>
            (let showTitle = (case ShowTitle sh of Some t \<Rightarrow> t | None \<Rightarrow> ''Unknown Show'') in
             case (Option.bind (BEpisode body) Season, Option.bind (BEpisode body) Number) of
               (Some sn, Some nr) \<Rightarrow> showTitle @ '' S'' @ pad2 sn @ ''E'' @ pad2 nr
             | _ \<Rightarrow> showTitle)
        | None \<Rightarrow> ''Unknown Media''))"

text \<open>
  For an error worth retrying the handler builds a retry item and drops it again (the call
  that would store it is commented out), so the errors only count.  \<open>order\<close> is the order in
  which the goroutines of the broadcast run, \<open>eventID\<close> the identifier drawn.
\<close>

definition handleFamilyWebhook :: "env \<Rightarrow> 'n world TraktEnv \<Rightarrow> (GroupMember list \<Rightarrow> GroupMember list) \<Rightarrow> string \<Rightarrow>
    Webhook \<Rightarrow> FamilyGroup \<Rightarrow> 'n world \<Rightarrow> api_reply \<times> 'n world" where
  "handleFamilyWebhook e te order eventID hook familyGroup = (\<lambda>(s, l, n).
     (case ListGroupMembers e (fg_ID familyGroup) s of
        (Inl _, s1) \<Rightarrow> (\<lparr>rp_Status = 500, rp_Fields = [(''error'', JStr ''failed to load family members'')]\<rparr>, (s1, l, n))
      | (Inr members, s1) \<Rightarrow>
          (let authorizedMembers = filter (\<lambda>m. AuthorizationStatus m = ''authorized'') members in
           if authorizedMembers = []
           then (\<lparr>rp_Status = 200, rp_Fields = [(''result'', JStr ''no_authorized_members'')]\<rparr>, (s1, l, n))
           else let ((scrobbleBody, action, shouldScrobble), w2) = ParseWebhookForScrobble te (Some hook) (s1, l, n) in
             if \<not> shouldScrobble then (\<lparr>rp_Status = 200, rp_Fields = [(''result'', JStr ''not_scrobblable'')]\<rparr>, w2)
             else let (broadcastErrors, w3) = BroadcastScrobble te order action scrobbleBody authorizedMembers eventID
                        (extractMediaTitleFromScrobble scrobbleBody) w2
               in (\<lparr>rp_Status = 200, rp_Fields = [(''result'', JStr ''success''), (''event_id'', JStr eventID),
                     (''members_total'', JInt (int (length authorizedMembers))),
                     (''members_success'', JInt (int (length authorizedMembers) - int (length broadcastErrors))),
                     (''members_failed'', JInt (int (length broadcastErrors)))]\<rparr>, w3))))"

section \<open>The handler\<close>

record api_request =
  rq_id :: string
  rq_body :: "string result"

definition api :: "env \<Rightarrow> 'n world TraktEnv \<Rightarrow> (GroupMember list \<Rightarrow> GroupMember list) \<Rightarrow> string \<Rightarrow> (string \<Rightarrow> Webhook result) \<Rightarrow> string \<Rightarrow>
    api_request \<Rightarrow> 'n world \<times> webhookDedupeCache \<Rightarrow> (api_reply \<times> 'n world \<times> webhookDedupeCache) option" where
  "api e te order eventID decoder selfRoot r = (\<lambda>((s, l, n), cache).
     (if rq_id r = [] then Some (\<lparr>rp_Status = 400, rp_Fields = []\<rparr>, (s, l, n), cache)
      else case rq_body r of
        Inl _ \<Rightarrow> Some (\<lparr>rp_Status = 400, rp_Fields = []\<rparr>, (s, l, n), cache)
      | Inr body \<Rightarrow> (case parse_payload decoder (api_payload body) of
          None \<Rightarrow> Some (\<lparr>rp_Status = 400, rp_Fields = []\<rparr>, (s, l, n), cache)
        | Some hook \<Rightarrow>
            (let username = ToLower (acc_Title (wh_Account hook)) in
             case GetFamilyGroupByPlex e username s of
               (Inr familyGroup, s1) \<Rightarrow>
                 (let (rep, w) = handleFamilyWebhook e te order eventID hook familyGroup (s1, l, n) in Some (rep, w, cache))
             | (Inl _, s1) \<Rightarrow> (case resolve_user e te selfRoot (rq_id r) username (Owner hook) (s1, l, n) of
                 None \<Rightarrow> None
               | Some (Inl x, w) \<Rightarrow> Some (\<lparr>rp_Status = he_Code x, rp_Fields = [(''error'', JStr (he_Message x))]\<rparr>, w, cache)
               | Some (Inr user, w) \<Rightarrow>
                   (let now = te_now te w;
                        (fresh, cache1) = shouldProcess now now now (rq_id r) (TraktDisplayName user) (Event hook)
                          (md_RatingKey (wh_Metadata hook)) (ViewOffset (wh_Metadata hook)) cache
                    in if \<not> fresh then Some (\<lparr>rp_Status = 200, rp_Fields = [(''result'', JStr ''duplicate_filtered'')]\<rparr>, w, cache1)
                       else map_option (\<lambda>w'. (\<lparr>rp_Status = 200, rp_Fields = [(''result'', JStr ''success'')]\<rparr>, w', cache1))
                         (if username = Username user then Handle te (Some hook) user w else Some w)))))))"

section \<open>Finding the payload\<close>

lemma find_braces_skip: "CHR ''{'' \<notin> set pre \<Longrightarrow> find_braces (pre @ s) = find_braces s"
  by (induction pre) (auto simp: braces_at_def Let_def)

lemma dropWhile_rev_last:
  assumes "c \<notin> set ys"
  shows "rev (dropWhile (\<lambda>x. x \<noteq> c) (rev (xs @ c # ys))) = xs @ [c]"
proof -
  have "dropWhile (\<lambda>x. x \<noteq> c) (rev ys @ c # rev xs) = c # rev xs"
    by (subst dropWhile_append2) (use assms in auto)
  then show ?thesis by simp
qed

text \<open>
  A document on one line is found in any envelope: whatever surrounds it, a text that
  starts with an opening and ends with a closing brace, without line feed, is exactly what
  the fallback extracts, provided no opening brace comes before it and no closing brace after
  it on its line.
\<close>

theorem one_line_document_is_found:
  assumes "CHR ''{'' \<notin> set pre" "CHR 0x0A \<notin> set mid" "CHR 0x0A \<notin> set rest" "CHR ''}'' \<notin> set rest"
    "post = [] \<or> hd post = CHR 0x0A"
  shows "find_braces (pre @ (''{'' @ mid @ ''}'') @ rest @ post) = Some (''{'' @ mid @ ''}'')"
proof -
  let ?s = "''{'' @ mid @ ''}'' @ rest @ post"
  have line: "takeWhile (\<lambda>c. c \<noteq> CHR 0x0A) ?s = (''{'' @ mid) @ CHR ''}'' # rest"
    using assms(2,3,5) by (cases post) (auto simp: takeWhile_append2 takeWhile_append)
  have "braces_at ?s = Some ((''{'' @ mid) @ [CHR ''}''])"
    unfolding braces_at_def Let_def line dropWhile_rev_last [OF assms(4)] by simp
  then have "find_braces ?s = Some (''{'' @ mid @ ''}'')" by simp
  then show ?thesis using find_braces_skip [OF assms(1), of ?s] by simp
qed

theorem one_line_document_is_found_witness:
  "find_braces (''--b: payload=x'' @ (''{'' @ ''a:1'' @ ''}'') @ ''--b--'' @ []) = Some ''{a:1}''"
  using one_line_document_is_found [of "''--b: payload=x''" "''a:1''" "''--b--''" "[]"] by simp

section \<open>Refreshing tokens\<close>

lemma calculateTokenExpiry_seconds:
  assumes "json_get kvs ''expires_in'' = Some (JInt k)" "0 < k" "k \<le> 9000000000"
  shows "calculateTokenExpiry now kvs = now + k * Second"
proof -
  have f: "f64 k = of_int k" using assms(2,3) by (simp add: f64_def rnd_of_int)
  have "f64_int (of_int k) = k" using assms(2) by (simp add: f64_int_def)
  then have k: "f64_int64 (of_int k) = k" using assms(2,3) by (simp add: f64_int64_def in_int64_def)
  have "sint (word_of_int (k * Second) :: 64 word) = k * Second"
    using assms(2,3) by (intro sint_in_range) (simp_all add: Second_def)
  then have "sint (word_of_int k * word_of_int Second :: 64 word) = k * Second" by (simp only: wi_hom_mult)
  with assms(1,2) f k show ?thesis by (simp add: calculateTokenExpiry_def json_float_def)
qed

text \<open>The request that refreshes a token.\<close>

definition refresh_req :: "'w TraktEnv \<Rightarrow> string \<Rightarrow> User \<Rightarrow> http_request" where
  "refresh_req te selfRoot user = \<lparr>req_Method = ''POST'', req_URL = ''https://api.trakt.tv/oauth/token'', req_Authorization = None,
     req_APIKey = None, req_Body = Some (JObj [(''client_id'', JStr (ClientId te)), (''client_secret'', JStr (clientSecret te)),
       (''code'', JStr []), (''grant_type'', JStr ''refresh_token''), (''redirect_uri'', JStr (selfRoot @ ''/authorize'')),
       (''refresh_token'', JStr (RefreshToken user))])\<rparr>"

text \<open>An answer that grants new tokens.\<close>

definition grants :: "http_response result \<Rightarrow> string \<Rightarrow> string \<Rightarrow> int \<Rightarrow> bool" where
  "grants ans a r k \<longleftrightarrow> (\<exists>resp kvs. ans = Inr resp \<and> StatusCode resp = 200 \<and> body_json resp = Some (JObj kvs) \<and>
     json_get kvs ''access_token'' = Some (JStr a) \<and> json_get kvs ''refresh_token'' = Some (JStr r) \<and>
     json_get kvs ''expires_in'' = Some (JInt k))"

definition refuses :: "http_response result \<Rightarrow> bool" where
  "refuses ans = (case ans of Inl _ \<Rightarrow> True | Inr resp \<Rightarrow> StatusCode resp \<noteq> 200)"

lemma AuthRequest_grants:
  assumes "te_http te (refresh_req te selfRoot user) w = (ans, w')" "grants ans a r k"
  shows "\<exists>kvs. AuthRequest te (selfRoot @ ''/authorize'') (Username user) [] (RefreshToken user) ''refresh_token'' w = ((kvs, True), w') \<and>
    json_get kvs ''access_token'' = Some (JStr a) \<and> json_get kvs ''refresh_token'' = Some (JStr r) \<and>
    json_get kvs ''expires_in'' = Some (JInt k)"
  using assms by (auto simp: AuthRequest_def refresh_req_def grants_def)

lemma AuthRequest_refuses:
  assumes "te_http te (refresh_req te selfRoot user) w = (ans, w')" "refuses ans"
  shows "\<exists>kvs. AuthRequest te (selfRoot @ ''/authorize'') (Username user) [] (RefreshToken user) ''refresh_token'' w = ((kvs, False), w')"
  using assms by (auto simp: AuthRequest_def refresh_req_def refuses_def auth_failure_def split: sum.splits prod.splits)

text \<open>
  C27. The refresh of tokens: a known user whose token is good for two days or more is passed
  on without asking Trakt.  Otherwise Trakt is asked once; if it refuses, the reply is the
  error 401 and no table changes; if it grants tokens, these and their expiry are in the user the
  handler goes on with, and all three, with the time of the update, are what the database gives
  back (times at the precision of their columns), while every other user reads as before.
\<close>

theorem token_refresh_policy:
  assumes te: "te = pg_trakt fuel e net parse url c sec" and db: "db_up e s" "find (\<lambda>r. u_id r = uid) (users s) = Some row"
    and user: "user = user_of_row row" "\<not> owner \<or> username = Username user"
    and net: "net (refresh_req te selfRoot user) n = (ans, n')" and left: "left = TokenExpiry user - env_now e (Suc (stmt_no s))"
  shows "(48 * Hour \<le> left \<longrightarrow> resolve_user e te selfRoot uid username owner (s, l, n) = Some (Inr user, (sent s, l, n))) \<and>
    (left < 48 * Hour \<and> refuses ans \<longrightarrow> resolve_user e te selfRoot uid username owner (s, l, n) =
       Some (Inl \<lparr>he_Code = 401, he_Message = ''fail''\<rparr>, (sent s, l, n'))) \<and>
    (left < 48 * Hour \<and> grants ans a r k \<and> 0 < k \<and> k \<le> 9000000000 \<longrightarrow>
       (\<exists>u' s' v s''. resolve_user e te selfRoot uid username owner (s, l, n) = Some (Inr u', (s', l, n')) \<and>
          AccessToken u' = a \<and> RefreshToken u' = r \<and> TokenExpiry u' = env_now e (Suc (stmt_no s)) + k * Second \<and>
          GetUser e uid s' = Some (Some v, s'') \<and> AccessToken v = a \<and> RefreshToken v = r \<and>
          TokenExpiry v = env_timestamptz e (env_now e (Suc (stmt_no s)) + k * Second) \<and>
          Updated v = env_timestamptz e (env_now e (Suc (stmt_no s))) \<and>
          (\<forall>i. i \<noteq> uid \<longrightarrow> map_option fst (GetUser e i s') = map_option fst (GetUser e i s))))"
proof -
  have get: "GetUser e uid s = Some (Some user, sent s)" using db user(1) by (simp add: db_up_def GetUser_healthy)
  have id: "usr_ID user = uid" "has_store user" using db(2) user(1) by (auto simp: user_of_row_def Let_def dest: find_SomeD)
  have res: "resolve_user e te selfRoot uid username owner (s, l, n) = refresh_token e te selfRoot user (sent s, l, n)"
    using get user(2) by (auto simp: resolve_user_def)
  have http: "te_http te (refresh_req te selfRoot user) (sent s, l, n) = (ans, (sent s, l, n'))" using net by (simp add: te)
  have now: "te_now te (sent s, l, m) = env_now e (Suc (stmt_no s))" for m by (simp add: te)
  have up: "db_up e (sent s)" using db(1) by (auto simp: db_up_def users_ok_def intro: healthy_Suc)
  show ?thesis
  proof (intro conjI impI)
    assume "48 * Hour \<le> left"
    then show "resolve_user e te selfRoot uid username owner (s, l, n) = Some (Inr user, (sent s, l, n))"
      by (simp add: res refresh_token_def now left)
  next
    assume "left < 48 * Hour \<and> refuses ans"
    then show "resolve_user e te selfRoot uid username owner (s, l, n) =
        Some (Inl \<lparr>he_Code = 401, he_Message = ''fail''\<rparr>, (sent s, l, n'))"
      using AuthRequest_refuses [OF http] by (auto simp: res refresh_token_def now left)
  next
    assume g: "left < 48 * Hour \<and> grants ans a r k \<and> 0 < k \<and> k \<le> 9000000000"
    then obtain kvs where kvs: "AuthRequest te (selfRoot @ ''/authorize'') (Username user) [] (RefreshToken user) ''refresh_token'' (sent s, l, n) =
        ((kvs, True), (sent s, l, n'))" "json_get kvs ''access_token'' = Some (JStr a)" "json_get kvs ''refresh_token'' = Some (JStr r)"
      "calculateTokenExpiry (env_now e (Suc (stmt_no s))) kvs = env_now e (Suc (stmt_no s)) + k * Second"
      using AuthRequest_grants [OF http] calculateTokenExpiry_seconds by blast
    let ?now = "env_now e (Suc (stmt_no s))"
    obtain u' s' s'' where up': "UpdateUser (WriteUser e) ?now a r None (?now + k * Second) user (sent s) = Some (u', s')"
      "GetUser e uid s' = Some (Some (canon_user e u'), s'')" "AccessToken u' = a" "RefreshToken u' = r"
      "TokenExpiry u' = ?now + k * Second" "Updated u' = ?now"
      using pg_users.UpdateUser_get [OF up id(2), of ?now a r None "?now + k * Second"] id(1) by blast
    have "map_option fst (GetUser e i s') = map_option fst (GetUser e i s)" if "i \<noteq> uid" for i
      using pg_users.UpdateUser_other [OF up up'(1), of i] that id(1) db(1) up by (simp add: db_up_def GetUser_healthy split: option.splits)
    then show "\<exists>u' s' v s''. resolve_user e te selfRoot uid username owner (s, l, n) = Some (Inr u', (s', l, n')) \<and>
        AccessToken u' = a \<and> RefreshToken u' = r \<and> TokenExpiry u' = ?now + k * Second \<and>
        GetUser e uid s' = Some (Some v, s'') \<and> AccessToken v = a \<and> RefreshToken v = r \<and>
        TokenExpiry v = env_timestamptz e (?now + k * Second) \<and> Updated v = env_timestamptz e ?now \<and>
        (\<forall>i. i \<noteq> uid \<longrightarrow> map_option fst (GetUser e i s') = map_option fst (GetUser e i s))"
      using g kvs up' by (auto simp: res refresh_token_def now left canon_user_def Let_def)
  qed
qed

definition granting_net :: "http_request \<Rightarrow> unit \<Rightarrow> http_response result \<times> unit" where
  "granting_net req m = (Inr \<lparr>StatusCode = 200, StatusText = ''200 OK'', body_bytes = [], body_read_err = False,
     body_json = Some (JObj [(''access_token'', JStr ''a2''), (''refresh_token'', JStr ''r2''), (''expires_in'', JInt 7776000)])\<rparr>, m)"

definition expiring_db :: pg where
  "expiring_db = pg_empty\<lparr>users := [demo_user_row\<lparr>u_expiry := Some 8\<rparr>]\<rparr>"

theorem token_refresh_policy_witness:
  "\<exists>u' s' v s''. resolve_user demo_env (pg_trakt 1 demo_env granting_net (\<lambda>_. None) (\<lambda>_. None) ''id'' ''sec'') ''http://h'' ''u'' ''bob'' True
      (expiring_db, NewQueueEventLog 100, ()) = Some (Inr u', (s', NewQueueEventLog 100, ())) \<and> AccessToken u' = ''a2'' \<and>
    GetUser demo_env ''u'' s' = Some (Some v, s'') \<and> TokenExpiry v = 7 + 7776000 * Second"
proof -
  let ?te = "pg_trakt 1 demo_env granting_net (\<lambda>_. None) (\<lambda>_. None) ''id'' ''sec''" and ?row = "demo_user_row\<lparr>u_expiry := Some 8\<rparr>"
  have db: "db_up demo_env expiring_db" "find (\<lambda>r. u_id r = ''u'') (users expiring_db) = Some ?row"
    by (simp_all add: db_up_def users_ok_def expiring_db_def demo_user_row_def)
  have "\<not> True \<or> ''bob'' = Username (user_of_row ?row)" by code_simp
  from token_refresh_policy [OF refl db refl this, where net = granting_net and n = "()" and fuel = 1 and parse = "\<lambda>_. None"
      and url = "\<lambda>_. None" and c = "''id''" and sec = "''sec''" and selfRoot = "''http://h''" and l = "NewQueueEventLog 100"
      and a = "''a2''" and r = "''r2''" and k = 7776000, OF surjective_pairing refl]
  moreover have "env_now demo_env k = 7" for k by (simp add: demo_env_def)
  ultimately have "\<exists>u' s' v s''. resolve_user demo_env ?te ''http://h'' ''u'' ''bob'' True (expiring_db, NewQueueEventLog 100, ()) =
      Some (Inr u', (s', NewQueueEventLog 100, ())) \<and> AccessToken u' = ''a2'' \<and>
      GetUser demo_env ''u'' s' = Some (Some v, s'') \<and> TokenExpiry v = env_timestamptz demo_env (7 + 7776000 * Second)"
    by (auto simp: granting_net_def grants_def json_get_def user_of_row_def demo_user_row_def time_defs)
  moreover have "env_timestamptz demo_env t = t" for t by (simp add: demo_env_def)
  ultimately show ?thesis by simp
qed

section \<open>Error replies\<close>

text \<open>The tables of the database, without the counter of statements.\<close>

definition same_tables :: "pg \<Rightarrow> pg \<Rightarrow> bool" where
  "same_tables s s' \<longleftrightarrow> s'\<lparr>stmt_no := stmt_no s\<rparr> = s"

lemma same_tables_refl [simp]: "same_tables s s" "same_tables s (sent s)"
  by (simp_all add: same_tables_def sent_def)

lemma same_tables_trans: "same_tables s t \<Longrightarrow> same_tables t u \<Longrightarrow> same_tables s u"
  by (cases s, cases t, cases u) (simp add: same_tables_def)

lemma GetFamilyGroupByPlex_tables: "GetFamilyGroupByPlex e p s = (r, s') \<Longrightarrow> same_tables s s'"
  by (auto simp: GetFamilyGroupByPlex_def sql_eqs Let_def split: if_splits option.splits)

lemma ListGroupMembers_tables: "ListGroupMembers e g s = (r, s') \<Longrightarrow> same_tables s s'"
  by (auto simp: ListGroupMembers_def sql_eqs Let_def split: if_splits option.splits)

lemma GetUser_tables: "GetUser e i s = Some (r, s') \<Longrightarrow> same_tables s s'"
  by (auto simp: GetUser_def sql_eqs split: option.splits)

lemma GetUserByName_tables: "GetUserByName e u s = Some (r, s') \<Longrightarrow> same_tables s s'"
  by (auto simp: GetUserByName_def sql_eqs Let_def split: if_splits option.splits
      dest!: GetUser_tables intro: same_tables_trans same_tables_refl(2))

lemma AuthRequest_pg:
  assumes "AuthRequest (pg_trakt f e net p ur c sec) rd un cd rt gt (s, l, n) = (r, (s', l', n'))"
  shows "s' = s \<and> l' = l"
  using assms by (auto simp: AuthRequest_def split: prod.splits sum.splits if_splits)

lemma resolve_user_error:
  assumes "resolve_user e (pg_trakt f e' net p ur c sec) selfRoot uid username owner (s, l, n) = Some (Inl x, (s', l', n'))"
  shows "same_tables s s' \<and> l' = l"
proof -
  let ?te = "pg_trakt f e' net p ur c sec"
  have ref: "same_tables t s' \<and> l' = l" if "refresh_token e ?te selfRoot user (t, l, n) = Some (Inl x, (s', l', n'))" for user t
    using that AuthRequest_pg [of f e' net p ur c sec]
    by (auto simp: refresh_token_def Let_def split: if_splits prod.splits option.splits json.splits dest!: AuthRequest_pg)
  from assms obtain r s1 where g: "GetUser e uid s = Some (r, s1)" by (auto simp: resolve_user_def split: option.splits)
  note 1 = GetUser_tables [OF g]
  show ?thesis
  proof (cases r)
    case None
    with assms g 1 show ?thesis by (simp add: resolve_user_def)
  next
    case (Some user)
    show ?thesis
    proof (cases "owner \<and> username \<noteq> Username user")
      case True
      with assms g Some obtain r2 s2 where g2: "GetUserByName e username s1 = Some (r2, s2)"
        by (auto simp: resolve_user_def split: option.splits)
      from GetUserByName_tables [OF g2] 1 have "same_tables s s2" by (rule same_tables_trans [rotated])
      with assms g Some True g2 show ?thesis
        by (cases r2) (auto simp: resolve_user_def dest: ref intro: same_tables_trans)
    next
      case False
      with assms g Some 1 show ?thesis by (auto simp: resolve_user_def dest: ref intro: same_tables_trans)
    qed
  qed
qed

lemma family_error:
  assumes "handleFamilyWebhook e te order ev hook g (s, l, n) = (rep, (s', l', n'))" "400 \<le> rp_Status rep"
  shows "same_tables s s' \<and> l' = l"
  using assms ListGroupMembers_tables [of e "fg_ID g" s]
  by (auto simp: handleFamilyWebhook_def Let_def split: prod.splits sum.splits if_splits)

lemma api_error_frame:
  assumes "te = pg_trakt fuel e net parse url c sec"
    "api e te order ev decoder selfRoot r ((s, l, n), cache) = Some (rep, (s', l', n'), cache')" "400 \<le> rp_Status rep"
  shows "same_tables s s' \<and> l' = l \<and> cache' = cache"
proof (cases "\<exists>body hook. rq_id r \<noteq> [] \<and> rq_body r = Inr body \<and> parse_payload decoder (api_payload body) = Some hook")
  case False
  then show ?thesis using assms(2) by (auto simp: api_def split: if_splits sum.splits option.splits)
next
  case True
  then obtain body hook where req: "rq_id r \<noteq> []" "rq_body r = Inr body" "parse_payload decoder (api_payload body) = Some hook" by blast
  define username where "username = ToLower (acc_Title (wh_Account hook))"
  obtain g s1 where fam: "GetFamilyGroupByPlex e username s = (g, s1)" by fastforce
  note s1 = GetFamilyGroupByPlex_tables [OF fam]
  show ?thesis
  proof (cases g)
    case (Inr grp)
    then have "handleFamilyWebhook e te order ev hook grp (s1, l, n) = (rep, (s', l', n'))" "cache' = cache"
      using assms(2) req fam by (auto simp: api_def Let_def username_def split: prod.splits)
    with family_error [OF this(1) assms(3)] s1 show ?thesis by (blast intro: same_tables_trans)
  next
    case (Inl x)
    obtain y w where res: "resolve_user e te selfRoot (rq_id r) username (Owner hook) (s1, l, n) = Some (y, w)"
      using assms(2) req fam Inl by (auto simp: api_def Let_def username_def split: option.splits)
    with assms(2,3) req fam Inl obtain h where "y = Inl h" "w = (s', l', n')" "cache' = cache"
      by (cases y) (auto simp: api_def Let_def username_def split: prod.splits if_splits)
    with res resolve_user_error [of e fuel e net parse url c sec] assms(1) s1 show ?thesis by (blast intro: same_tables_trans)
  qed
qed

text \<open>
  Answers of Trakt on which the client does not panic: a success is not the document \<open>null\<close>, and an
  object that answers a request for tokens with status 200 has both tokens as texts.
\<close>

definition sane_net :: "(http_request \<Rightarrow> 'n \<Rightarrow> http_response result \<times> 'n) \<Rightarrow> bool" where
  "sane_net net \<longleftrightarrow> no_null net \<and> (\<forall>req n resp kvs. fst (net req n) = Inr resp \<and> req_URL req = ''https://api.trakt.tv/oauth/token'' \<and>
     StatusCode resp = 200 \<and> body_json resp = Some (JObj kvs) \<longrightarrow>
     (\<exists>a t. json_get kvs ''access_token'' = Some (JStr a) \<and> json_get kvs ''refresh_token'' = Some (JStr t)))"

lemma AuthRequest_tokens:
  assumes "sane_net net" "AuthRequest (pg_trakt f e net p ur c sec) rd un cd rt gt (s, l, n) = ((kvs, True), w)"
  shows "\<exists>a t. json_get kvs ''access_token'' = Some (JStr a) \<and> json_get kvs ''refresh_token'' = Some (JStr t)"
proof -
  let ?req = "\<lparr>req_Method = ''POST'', req_URL = ''https://api.trakt.tv/oauth/token'', req_Authorization = None, req_APIKey = None,
    req_Body = Some (JObj [(''client_id'', JStr c), (''client_secret'', JStr sec), (''code'', JStr cd), (''grant_type'', JStr gt),
      (''redirect_uri'', JStr rd), (''refresh_token'', JStr rt)])\<rparr>"
  have "clientSecret (pg_trakt f e net p ur c sec) = sec" by (simp add: pg_trakt_def)
  with assms(2) obtain resp where resp: "fst (net ?req n) = Inr resp" "StatusCode resp = 200"
      "body_json resp = Some (JObj kvs) \<or> body_json resp = Some JNull"
    by (auto simp: AuthRequest_def auth_failure_def split: sum.splits prod.splits if_splits option.splits json.splits)
  moreover have "body_json resp \<noteq> Some JNull" using assms(1) resp(1,2) unfolding sane_net_def no_null_def success_def by blast
  ultimately show ?thesis using assms(1) unfolding sane_net_def by fastforce
qed

lemma refresh_returns:
  assumes "sane_net net" "healthy e s" "has_store user"
  shows "\<exists>y s' n'. refresh_token e (pg_trakt f e net p ur c sec) selfRoot user (s, l, n) = Some (y, (s', l, n')) \<and> healthy e s' \<and>
    fallbackBuffers s' = fallbackBuffers s"
proof -
  let ?te = "pg_trakt f e net p ur c sec"
  obtain kvs good s1 l1 n1 where auth: "AuthRequest ?te (selfRoot @ ''/authorize'') (Username user) [] (RefreshToken user) ''refresh_token'' (s, l, n) =
      ((kvs, good), (s1, l1, n1))" by (metis surj_pair)
  have s1: "s1 = s" "l1 = l" using AuthRequest_pg [OF auth] by simp_all
  show ?thesis
  proof (cases "good \<and> TokenExpiry user - te_now ?te (s, l, n) < 48 * Hour")
    case True
    then have "AuthRequest ?te (selfRoot @ ''/authorize'') (Username user) [] (RefreshToken user) ''refresh_token'' (s, l, n) = ((kvs, True), (s1, l1, n1))"
      using auth by simp
    from AuthRequest_tokens [OF assms(1) this] obtain a t where
      "json_get kvs ''access_token'' = Some (JStr a)" "json_get kvs ''refresh_token'' = Some (JStr t)" by blast
    moreover obtain u s' where "UpdateUser (WriteUser e) (env_now e (stmt_no s)) a t None (calculateTokenExpiry (env_now e (stmt_no s)) kvs) user s = Some (u, s')"
      using UpdateUser_ok [of user "WriteUser e" s] WriteUser_healthy [OF assms(2)] assms(3) by blast
    moreover have "healthy e s' \<and> fallbackBuffers s' = fallbackBuffers s"
      using UpdateUser_Some [OF calculation(3)] assms(2) by (auto simp: WriteUser_healthy upsert_user_def intro: healthy_Suc)
    ultimately show ?thesis using True auth s1 by (simp add: refresh_token_def Let_def)
  next
    case False
    then show ?thesis using auth s1 assms(2) by (auto simp: refresh_token_def)
  qed
qed

lemma resolve_returns:
  assumes "sane_net net" "healthy e s"
  shows "\<exists>y s' n'. resolve_user e (pg_trakt f e net p ur c sec) selfRoot uid username owner (s, l, n) = Some (y, (s', l, n')) \<and> healthy e s' \<and>
    fallbackBuffers s' = fallbackBuffers s"
proof -
  have store: "has_store (user_of_row row)" for row by (simp add: user_of_row_def Let_def)
  have next_ok: "healthy e (sent s)" "healthy e (sent (sent s))" "healthy e (sent (sent (sent s)))"
    using assms(2) by (auto intro: healthy_Suc)
  note ref = refresh_returns [OF assms(1) _ store, of e]
  have name: "\<exists>v s2. GetUserByName e username (sent s) = Some (v, s2) \<and> healthy e s2 \<and> fallbackBuffers s2 = fallbackBuffers s \<and> (\<forall>x. v = Some x \<longrightarrow> has_store x)"
  proof -
    have "env_fault e (Suc (stmt_no s)) = None" using assms(2) by (simp add: healthy_def)
    then show ?thesis using next_ok store by (auto simp: GetUserByName_def sql_eqs GetUser_healthy Let_def split: option.splits)
  qed
  show ?thesis
  proof (cases "find (\<lambda>r. u_id r = uid) (users s)")
    case (Some row)
    then have get: "GetUser e uid s = Some (Some (user_of_row row), sent s)" using assms(2) by (simp add: GetUser_healthy)
    obtain v s2 where v: "(if owner \<and> username \<noteq> Username (user_of_row row) then GetUserByName e username (sent s) else Some (Some (user_of_row row), sent s)) = Some (v, s2)"
      "healthy e s2" "fallbackBuffers s2 = fallbackBuffers s" "\<And>x. v = Some x \<Longrightarrow> has_store x"
      using name next_ok(1) store by (cases "owner \<and> username \<noteq> Username (user_of_row row)") auto
    show ?thesis
    proof (cases v)
      case None
      then show ?thesis using get v by (simp add: resolve_user_def)
    next
      case (Some x)
      from refresh_returns [OF assms(1) v(2) v(4) [OF Some], of f p ur c sec selfRoot l n] get v Some
      show ?thesis by (simp add: resolve_user_def)
    qed
  qed (use assms(2) next_ok in \<open>simp add: resolve_user_def GetUser_healthy\<close>)
qed

lemma enqueue_event_returns:
  assumes "healthy e s" "log_inv 100 l" "fallbackBuffers s (usr_ID user) = None"
  shows "enqueueScrobbleEvent (pg_trakt (Suc f) e net p ur c sec) user item action (s, l, n) \<noteq> None"
proof -
  let ?ev = "queued_event user item action"
  obtain x s1 where "EnqueueScrobble (Suc f) e ?ev s = Some (x, s1)"
    using Enqueue_returns [of e s ?ev f] assms(1,3) by (auto simp: queued_event_def)
  moreover have "QueueEventLog_Append y l \<noteq> None" for y using log_put_law [OF _ assms(2), of y] by auto
  ultimately show ?thesis by (cases x) (auto simp: enqueueScrobbleEvent_def Let_def)
qed

lemma Handle_returns:
  assumes "no_null net" "healthy e s" "log_inv 100 l" "fallbackBuffers s (usr_ID user) = None"
  shows "Handle (pg_trakt (Suc f) e net p ur c sec) (Some hook) user (s, l, n) \<noteq> None"
proof -
  let ?te = "pg_trakt (Suc f) e net p ur c sec"
  have scr: "scrobbleRequest ?te action item user (s, l, m) \<noteq> None" for action item m
  proof (cases "fst (net (scrobble_req ?te action (Body item) (AccessToken user)) m)")
    case (Inl x)
    then show ?thesis using enqueue_event_returns [OF assms(2-4)] by (simp add: scrobbleRequest_def)
  next
    case (Inr resp)
    have "decode_into resp (Body item) \<noteq> DecPanic" if "success (StatusCode resp)"
      using assms(1) Inr that by (auto simp: no_null_def decode_into_def ScrobbleBody_panic_iff split: option.splits)
    then show ?thesis using Inr enqueue_event_returns [OF assms(2-4)]
      by (auto simp: scrobbleRequest_def split: decoded.splits)
  qed
  obtain action cache progress w where act: "getAction ?te hook (s, l, n) = ((action, cache, progress), w)" by (metis prod.collapse)
  with getAction_pg [OF act] scr show ?thesis by (auto simp: Handle_def split: option.split)
qed

text \<open>
  C32. The webhook handler always answers, and an error leaves no trace.  On a working database, with no
  fallback buffers, and as long as Trakt gives no answer on which the client panics (a success that is
  the document \<open>null\<close>, or granted tokens that are no texts), every request is answered by the handler
  itself; and when the status is 400 or above, every table of the database, the event log and the filter of
  repeated webhooks are as before, so that the same webhook can be sent again.
\<close>

theorem api_error_changes_nothing:
  assumes te: "te = pg_trakt (Suc fuel) e net parse url c sec" and db: "healthy e s" "log_inv 100 l" "fallbackBuffers s = Map.empty"
    and net: "sane_net net"
  shows "\<exists>rep s' l' n' cache'. api e te order ev decoder selfRoot r ((s, l, n), cache) = Some (rep, (s', l', n'), cache') \<and>
    (400 \<le> rp_Status rep \<longrightarrow> same_tables s s' \<and> l' = l \<and> cache' = cache)"
proof -
  have "api e te order ev decoder selfRoot r ((s, l, n), cache) \<noteq> None"
  proof (cases "\<exists>body hook. rq_id r \<noteq> [] \<and> rq_body r = Inr body \<and> parse_payload decoder (api_payload body) = Some hook")
    case True
    then obtain body hook where req: "rq_id r \<noteq> []" "rq_body r = Inr body" "parse_payload decoder (api_payload body) = Some hook" by blast
    define username where "username = ToLower (acc_Title (wh_Account hook))"
    obtain g s1 where fam: "GetFamilyGroupByPlex e username s = (g, s1)" by fastforce
    have s1: "healthy e s1" "fallbackBuffers s1 = Map.empty"
      using fam db(1,3) by (auto simp: GetFamilyGroupByPlex_def sql_eqs Let_def split: if_splits option.splits intro: healthy_Suc)
    obtain y s2 n2 where res: "resolve_user e te selfRoot (rq_id r) username (Owner hook) (s1, l, n) = Some (y, (s2, l, n2))"
      "healthy e s2" "fallbackBuffers s2 = Map.empty"
      using resolve_returns [OF net s1(1), of "Suc fuel" parse url c sec selfRoot "rq_id r" username "Owner hook" l n] s1(2) te by auto
    have "Handle te (Some hook) user (s2, l, n2) \<noteq> None" for user
      using Handle_returns [of net e s2 l user fuel parse url c sec hook n2] net res(2,3) db(2) by (simp add: te sane_net_def)
    with req fam res(1) show ?thesis
      by (auto simp: api_def Let_def split: sum.splits prod.splits simp flip: username_def)
  qed (auto simp: api_def split: sum.splits option.splits)
  then show ?thesis using api_error_frame [OF te] by (auto simp: not_None_eq)
qed

theorem api_error_changes_nothing_witness:
  "\<exists>s' rep. api demo_env (pg_trakt 1 demo_env granting_net (\<lambda>_. None) (\<lambda>_. None) ''id'' ''sec'') rev [] (\<lambda>_. Inr demo_hook) ''http://h''
      \<lparr>rq_id = ''nobody'', rq_body = Inr ''{}''\<rparr> ((demo_db, NewQueueEventLog 100, ()), newWebhookDedupeCache) =
      Some (rep, (s', NewQueueEventLog 100, ()), newWebhookDedupeCache) \<and> rp_Status rep = 403 \<and> same_tables demo_db s'"
proof -
  let ?te = "pg_trakt 1 demo_env granting_net (\<lambda>_. None) (\<lambda>_. None) ''id'' ''sec''"
  have p: "parse_payload (\<lambda>_. Inr demo_hook) (api_payload ''{}'') = Some demo_hook" by code_simp
  have name: "acc_Title (wh_Account demo_hook) = ''bob''" by (simp add: demo_hook_def)
  have "TrimSpace (ToLower (ToLower ''bob'')) \<noteq> []" by code_simp
  moreover have "family_groups demo_db = []" "users demo_db = [demo_user_row]" "u_id demo_user_row = ''u''"
    by (simp_all add: demo_db_def pg_empty_def demo_user_row_def)
  moreover have "healthy demo_env demo_db" "healthy demo_env (sent demo_db)" by simp_all
  ultimately have "GetFamilyGroupByPlex demo_env (ToLower ''bob'') demo_db = (Inl ErrFamilyGroupNotFound, sent demo_db)"
    "GetUser demo_env ''nobody'' (sent demo_db) = Some (None, sent (sent demo_db))"
    by (simp_all add: GetFamilyGroupByPlex_def GetUser_healthy sql_eqs Let_def)
  then have run: "api demo_env ?te rev [] (\<lambda>_. Inr demo_hook) ''http://h'' \<lparr>rq_id = ''nobody'', rq_body = Inr ''{}''\<rparr>
      ((demo_db, NewQueueEventLog 100, ()), newWebhookDedupeCache) =
    Some (\<lparr>rp_Status = 403, rp_Fields = [(''error'', JStr ''id is invalid'')]\<rparr>, (sent (sent demo_db), NewQueueEventLog 100, ()), newWebhookDedupeCache)"
    using p by (simp add: api_def resolve_user_def name)
  have "sane_net granting_net"
    by (auto simp: sane_net_def no_null_def granting_net_def json_get_def)
  moreover have "fallbackBuffers demo_db = Map.empty" by (simp add: demo_db_def pg_empty_def)
  ultimately have "\<exists>rep s' l' n' cache'. api demo_env (pg_trakt (Suc 0) demo_env granting_net (\<lambda>_. None) (\<lambda>_. None) ''id'' ''sec'') rev [] (\<lambda>_. Inr demo_hook) ''http://h''
      \<lparr>rq_id = ''nobody'', rq_body = Inr ''{}''\<rparr> ((demo_db, NewQueueEventLog 100, ()), newWebhookDedupeCache) = Some (rep, (s', l', n'), cache') \<and>
      (400 \<le> rp_Status rep \<longrightarrow> same_tables demo_db s' \<and> l' = NewQueueEventLog 100 \<and> cache' = newWebhookDedupeCache)"
    by (rule api_error_changes_nothing [OF refl demo_healthy event_log.fresh_inv, rotated])
  with run show ?thesis by auto
qed

section \<open>Broadcasting to a family\<close>

text \<open>The network as a function from requests to answers, with the list of requests made.\<close>

definition listed :: "(http_request \<Rightarrow> http_response result) \<Rightarrow> http_request \<Rightarrow> http_request list \<Rightarrow> http_response result \<times> http_request list" where
  "listed ans req h = (ans req, h @ [req])"

lemma broadcast_all_pg:
  assumes "te = pg_trakt f e (listed ans) p ur c sec"
  shows "\<exists>errs. broadcast_all te action body ev title ms (s, l, h) =
      (errs, (s, l, h @ map (\<lambda>m. scrobble_req te action body (gm_AccessToken m)) ms)) \<and>
    map be_Member errs = filter (\<lambda>m. \<not> accepted (ans (scrobble_req te action body (gm_AccessToken m)))) ms"
proof (induction ms arbitrary: h)
  case (Cons m ms)
  let ?r = "scrobble_req te action body (gm_AccessToken m)"
  have "\<exists>x st. broadcast_one te action body m (s, l, h) = ((x, st), (s, l, h @ [?r])) \<and> (x = None \<longleftrightarrow> accepted (ans ?r))"
    by (auto simp: broadcast_one_def accepted_def accepted_unavailable listed_def assms split: sum.splits)
  then obtain x st where "broadcast_one te action body m (s, l, h) = ((x, st), (s, l, h @ [?r]))" "x = None \<longleftrightarrow> accepted (ans ?r)" by blast
  with Cons.IH [of "h @ [?r]"] show ?case by (auto split: option.splits)
qed simp

text \<open>The members of a group that a webhook is broadcast to.\<close>

definition authorized_members :: "string \<Rightarrow> pg \<Rightarrow> GroupMember list" where
  "authorized_members g s = filter (\<lambda>m. AuthorizationStatus m = ''authorized'')
     (map scanGroupMemberRow (order_asc m_created (filter (\<lambda>r. m_group r = g) (group_members s))))"

lemma Parse_sends:
  assumes "actionable (pg_trakt f e net p ur c sec) hook media"
    "getAction (pg_trakt f e net p ur c sec) hook (s, l, n) = ((action, cache, progress), w)" "body = media\<lparr>Progress := progress\<rparr>"
  shows "ParseWebhookForScrobble (pg_trakt f e net p ur c sec) (Some hook) (s, l, n) = ((body, action, True), (s, l, n))"
proof -
  have "action \<noteq> []" using actionable_action [OF assms(1,2)] by auto
  with assms getAction_pg [OF assms(2)] show ?thesis
    by (auto simp: ParseWebhookForScrobble_def actionable_def is_duplicate_def zero_CacheItem_def)
qed

lemma ListGroupMembers_healthy:
  "healthy e s \<Longrightarrow> TrimSpace g = g \<Longrightarrow> g \<noteq> [] \<Longrightarrow>
   ListGroupMembers e g s = (Inr (map scanGroupMemberRow (order_asc m_created (filter (\<lambda>r. m_group r = g) (group_members s)))), sent s)"
  by (simp add: ListGroupMembers_def sql_eqs Let_def)

text \<open>
  C29. A family webhook that calls for a scrobble reaches every member: on a working database, for every order of the
  goroutines, each authorised member of the group gets exactly one scrobble request with the
  member's own token and nobody else gets one, and the reply counts the members and those
  whose request was not accepted.  What was not accepted is lost, also when Trakt was only
  unavailable: no table changes, in particular nothing is added to the retry queue.
\<close>

theorem family_webhook_broadcast:
  assumes te: "te = pg_trakt fuel e (listed ans) parse url c sec" and order: "\<And>xs. mset (order xs) = mset xs"
    and db: "healthy e s" "TrimSpace (fg_ID g) = fg_ID g" "fg_ID g \<noteq> []" "authorized_members (fg_ID g) s \<noteq> []"
    and hook: "actionable te hook media" "getAction te hook (sent s, l, h) = ((action, cache, progress), w)"
      "body = media\<lparr>Progress := progress\<rparr>"
    and failed: "failed = filter (\<lambda>m. \<not> accepted (ans (scrobble_req te action body (gm_AccessToken m)))) (authorized_members (fg_ID g) s)"
  shows "\<exists>rep reqs. handleFamilyWebhook e te order ev hook g (s, l, h) = (rep, (sent s, l, h @ reqs)) \<and>
    mset reqs = mset (map (\<lambda>m. scrobble_req te action body (gm_AccessToken m)) (authorized_members (fg_ID g) s)) \<and>
    rp_Status rep = 200 \<and> json_get (rp_Fields rep) ''members_total'' = Some (JInt (int (length (authorized_members (fg_ID g) s)))) \<and>
    json_get (rp_Fields rep) ''members_failed'' = Some (JInt (int (length failed)))"
proof -
  let ?ms = "authorized_members (fg_ID g) s"
  obtain errs where b: "broadcast_all te action body ev (extractMediaTitleFromScrobble body) (order ?ms) (sent s, l, h) =
      (errs, (sent s, l, h @ map (\<lambda>m. scrobble_req te action body (gm_AccessToken m)) (order ?ms)))"
    "map be_Member errs = filter (\<lambda>m. \<not> accepted (ans (scrobble_req te action body (gm_AccessToken m)))) (order ?ms)"
    using broadcast_all_pg [OF te] by blast
  have parse: "ParseWebhookForScrobble te (Some hook) (sent s, l, h) = ((body, action, True), (sent s, l, h))"
    using hook unfolding te by (intro Parse_sends) simp_all
  have "mset (map be_Member errs) = mset failed" unfolding b(2) failed by (simp add: order)
  then have len: "length errs = length failed" by (metis length_map size_mset)
  have "handleFamilyWebhook e te order ev hook g (s, l, h) = (\<lparr>rp_Status = 200, rp_Fields = [(''result'', JStr ''success''), (''event_id'', JStr ev),
      (''members_total'', JInt (int (length ?ms))), (''members_success'', JInt (int (length ?ms) - int (length errs))),
      (''members_failed'', JInt (int (length errs)))]\<rparr>,
      (sent s, l, h @ map (\<lambda>m. scrobble_req te action body (gm_AccessToken m)) (order ?ms)))"
    using db parse b(1)
    by (simp add: handleFamilyWebhook_def ListGroupMembers_healthy authorized_members_def BroadcastScrobble_def)
  then show ?thesis using len order by (simp add: json_get_def)
qed

text \<open>A family of two, while Trakt is down.\<close>

definition demo_member_row :: "string \<Rightarrow> member_row" where
  "demo_member_row i = \<lparr>m_id = i, m_group = ''g'', m_label = i, m_trakt = Some i, m_access = Some i, m_refresh = Some i, m_expiry = None,
     m_status = ''authorized'', m_created = 1\<rparr>"

definition family_db :: pg where
  "family_db = pg_empty\<lparr>family_groups := [demo_group], group_members := [demo_member_row ''dad'', demo_member_row ''mum'']\<rparr>"

definition family_te :: "http_request list world TraktEnv" where
  "family_te = pg_trakt 1 demo_env (listed (\<lambda>_. Inl (Err ''timeout''))) (\<lambda>_. None) (\<lambda>_. None) ''id'' ''secret''"

lemma family_actionable: "actionable family_te demo_hook heat"
  by (simp add: actionable_def media_body_def handleMovie_def demo_hook_def heat_ids heat_def)

lemma family_action: "getAction family_te demo_hook (s, l, h) = ((''pause'', zero_CacheItem, 50), (s, l, h))"
proof -
  have "math_Round (f64_mult (f64_div (f64 50) (f64 100)) 100) = 50" by code_simp
  then show ?thesis
    by (simp add: getAction_def family_te_def) (simp add: demo_hook_def action_defs ProgressThreshold_def)
qed

theorem family_webhook_broadcast_witness:
  "\<exists>rep reqs. handleFamilyWebhook demo_env family_te rev ''ev'' demo_hook demo_group (family_db, NewQueueEventLog 100, []) =
      (rep, (sent family_db, NewQueueEventLog 100, reqs)) \<and> length reqs = 2 \<and>
     json_get (rp_Fields rep) ''members_failed'' = Some (JInt 2)"
proof -
  let ?a = "\<lambda>_ :: http_request. Inl (Err ''timeout'') :: http_response result"
  have g: "TrimSpace (fg_ID demo_group) = fg_ID demo_group" "fg_ID demo_group \<noteq> []" by code_simp+
  have ms: "authorized_members (fg_ID demo_group) family_db = [scanGroupMemberRow (demo_member_row ''dad''), scanGroupMemberRow (demo_member_row ''mum'')]"
    by (simp add: authorized_members_def family_db_def demo_group_def demo_member_row_def order_asc_def scanGroupMemberRow_def)
  from family_webhook_broadcast [where order = rev and ans = ?a, OF family_te_def _ demo_healthy g _ family_actionable family_action refl refl,
      of family_db "''ev''" "NewQueueEventLog 100" "[]"] ms
  obtain rep reqs where r: "handleFamilyWebhook demo_env family_te rev ''ev'' demo_hook demo_group (family_db, NewQueueEventLog 100, []) =
      (rep, (sent family_db, NewQueueEventLog 100, reqs))"
    "mset reqs = mset (map (\<lambda>m. scrobble_req family_te ''pause'' (heat\<lparr>Progress := 50\<rparr>) (gm_AccessToken m)) (authorized_members (fg_ID demo_group) family_db))"
    "json_get (rp_Fields rep) ''members_failed'' = Some (JInt 2)"
    by (auto simp: accepted_def)
  from r(2) have "length reqs = length (authorized_members (fg_ID demo_group) family_db)" by (metis length_map size_mset)
  with r ms show ?thesis by simp
qed

section \<open>Storing an authorisation\<close>

text \<open>
  Renewing the tokens of a chosen user: on a working database the renewal is refused, with
  the user table as it was, exactly when the name given is not blank and differs from the
  user's name up to case and surrounding white space; otherwise the tokens are stored under
  the same identifier and the same name and are what the database gives back, and no other
  user changes.
\<close>

lemma persistAuthorizedUser_renews:
  assumes "db_up e s" "find (\<lambda>r. u_id r = uid) (users s) = Some row" "uid \<noteq> []"
    "stored = ToLower (TrimSpace (ToLower (u_username row)))" "stored \<noteq> []" "given = ToLower (TrimSpace username)"
  shows "if given \<noteq> [] \<and> given \<noteq> stored
    then persistAuthorizedUser e newID now username uid acc ref dn ex s = Some (Inl (Err ''manual renewal username mismatch''), sent s)
    else \<exists>u' s' v s''. persistAuthorizedUser e newID now username uid acc ref dn ex s = Some (Inr (u', True), s') \<and> usr_ID u' = uid \<and> healthy e s' \<and>
      GetUser e uid s' = Some (Some v, s'') \<and> usr_ID v = uid \<and> Username v = stored \<and> AccessToken v = acc \<and> RefreshToken v = ref \<and>
      TokenExpiry v = env_timestamptz e ex \<and>
      (\<forall>i. i \<noteq> uid \<longrightarrow> map_option fst (GetUser e i s') = map_option fst (GetUser e i s))"
proof -
  let ?u = "user_of_row row"
  have get: "GetUser e uid s = Some (Some ?u, sent s)" using assms(1,2) by (simp add: db_up_def GetUser_healthy)
  have u: "usr_ID ?u = uid" "has_store ?u" "ToLower (TrimSpace (Username ?u)) = stored"
    using assms(2,4) by (auto simp: user_of_row_def Let_def dest: find_SomeD)
  have up: "db_up e (sent s)" using assms(1) by (auto simp: db_up_def users_ok_def intro: healthy_Suc)
  show ?thesis
  proof (cases "given \<noteq> [] \<and> given \<noteq> stored")
    case True
    then show ?thesis using get u assms(3,5,6) by (auto simp: persistAuthorizedUser_def Let_def)
  next
    case False
    obtain u' s' s'' where w: "UpdateUser (WriteUser e) now acc ref dn ex (?u\<lparr>Username := stored\<rparr>) (sent s) = Some (u', s')"
      "GetUser e uid s' = Some (Some (canon_user e u'), s'')" "usr_ID u' = uid" "Username u' = stored"
      "AccessToken u' = acc" "RefreshToken u' = ref" "TokenExpiry u' = ex"
      using pg_users.UpdateUser_get [OF up, of "?u\<lparr>Username := stored\<rparr>" now acc ref dn ex] u by auto
    have "map_option fst (GetUser e i s') = map_option fst (GetUser e i s)" if "i \<noteq> uid" for i
      using pg_users.UpdateUser_other [OF up w(1), of i] that u(1) assms(1) up
      by (simp add: db_up_def GetUser_healthy split: option.splits)
    moreover have "persistAuthorizedUser e newID now username uid acc ref dn ex s = Some (Inr (u', True), s')"
    proof (cases "given = []")
      case True
      then show ?thesis using get u(3) assms(3,5,6) w(1) by (simp add: persistAuthorizedUser_def Let_def)
    next
      case nonblank: False
      with False have "given = stored" by simp
      then show ?thesis using get u(3) assms(3,5) w(1) by (simp add: persistAuthorizedUser_def Let_def flip: assms(6))
    qed
    moreover have "healthy e s'" using UpdateUser_Some [OF w(1)] WriteUser_healthy [of e "sent s" u'] up
      by (auto simp: db_up_def upsert_user_def intro: healthy_Suc)
    moreover have "ToLower stored = stored" by (simp add: assms(4))
    ultimately show ?thesis using False w
      by (intro iffD2 [OF if_not_P] exI [of _ u'] exI [of _ s'] exI [of _ "canon_user e u'"] exI [of _ s'']) (simp_all add: canon_user_def)
  qed
qed

end
