(* ===== verification/Http.thy ===== *)
theory Http
  imports Api "HOL-Library.Char_ord" "HOL-Library.List_Lexorder"
begin

text \<open>
  What the handlers of \<open>main.go\<close> share: requests and replies, the encoding of query strings, the
  server's own address as seen from outside (\<open>SelfRoot\<close>) and the filter of host names
  (\<open>allowedHostsHandler\<close>).  Query strings are given decoded, as \<open>url.Values\<close>; the variables of the
  router as an association list.  Headers of replies are not modelled.
\<close>

section \<open>Texts\<close>

text \<open>\<open>strings.Split\<close> at a one-byte separator.\<close>

fun Split :: "char \<Rightarrow> string \<Rightarrow> string list" where
  "Split c [] = [[]]"
| "Split c (x # s) = (if x = c then [] # Split c s
     else (case Split c s of [] \<Rightarrow> [[x]] | p # ps \<Rightarrow> (x # p) # ps))"

text \<open>\<open>strings.SplitN(s, c, 2)\<close> when it has two parts.\<close>

definition SplitN2 :: "char \<Rightarrow> string \<Rightarrow> (string \<times> string) option" where
  "SplitN2 c s = (if c \<in> set s then Some (takeWhile (\<lambda>x. x \<noteq> c) s, tl (dropWhile (\<lambda>x. x \<noteq> c) s)) else None)"

definition TrimByte :: "char \<Rightarrow> string \<Rightarrow> string" where
  "TrimByte c s = rev (dropWhile (\<lambda>x. x = c) (rev (dropWhile (\<lambda>x. x = c) s)))"

text \<open>The texts before and after the last colon.\<close>

definition cut_last :: "char \<Rightarrow> string \<Rightarrow> (string \<times> string) option" where
  "cut_last c s = (if c \<in> set s
     then Some (rev (tl (dropWhile (\<lambda>x. x \<noteq> c) (rev s))), rev (takeWhile (\<lambda>x. x \<noteq> c) (rev s))) else None)"

section \<open>Query strings\<close>

definition unreserved :: "char \<Rightarrow> bool" where
  "unreserved c \<longleftrightarrow> (let n = of_char c :: nat in 97 \<le> n \<and> n \<le> 122 \<or> 65 \<le> n \<and> n \<le> 90 \<or> 48 \<le> n \<and> n \<le> 57) \<or>
     c \<in> set ''-_.~''"

definition upperhex :: "nat \<Rightarrow> char" where
  "upperhex n = ''0123456789ABCDEF'' ! n"

definition percent :: "char \<Rightarrow> string" where
  "percent c = (let n = of_char c in [CHR ''%'', upperhex (n div 16), upperhex (n mod 16)])"

definition QueryEscape :: "string \<Rightarrow> string" where
  "QueryEscape s = concat (map (\<lambda>c. if unreserved c then [c] else if c = CHR '' '' then ''+'' else percent c) s)"

definition host_byte :: "char \<Rightarrow> bool" where
  "host_byte c \<longleftrightarrow> unreserved c \<or> c \<in> set ''!$&()*+,;=:[]<>'' \<or> c = CHR 0x27 \<or> c = CHR 0x22"

definition escape_host :: "string \<Rightarrow> string" where
  "escape_host s = concat (map (\<lambda>c. if host_byte c then [c] else percent c) s)"

fun join_with :: "string \<Rightarrow> string list \<Rightarrow> string" where
  "join_with sep [] = []"
| "join_with sep [x] = x"
| "join_with sep (x # y # xs) = x @ sep @ join_with sep (y # xs)"

text \<open>\<open>url.Values.Encode\<close> of values with one text for each key, in the order of the keys.\<close>

definition Encode :: "(string \<times> string) list \<Rightarrow> string" where
  "Encode values = join_with ''&'' (map (\<lambda>(k, v). QueryEscape k @ ''='' @ QueryEscape v) (sort_key fst values))"

section \<open>Requests and replies\<close>

record web_request =
  wr_Method :: string
  wr_Host :: string
  wr_Path :: string
  wr_URLScheme :: string
  wr_URLHost :: string
  wr_TLS :: bool
  wr_Forwarded :: string
  wr_XForwardedHost :: string
  wr_XForwardedProto :: string
  wr_XForwardedPort :: string
  wr_Query :: "(string \<times> string) list"
  wr_Vars :: "(string \<times> string) list"
  wr_Body :: "json option"
  wr_Unreadable :: bool

text \<open>
  \<open>wr_Body\<close> is the first document of the body, \<^const>\<open>None\<close> when it cannot be read or parsed, \<open>wr_Unreadable\<close>
  whether reading it fails.
  \<open>Values.Get\<close> and a lookup in the router's variables yield the empty text for a missing key.
\<close>

definition arg :: "web_request \<Rightarrow> string \<Rightarrow> string" where
  "arg r k = (case map_of (wr_Query r) k of Some v \<Rightarrow> v | None \<Rightarrow> [])"

definition path_var :: "web_request \<Rightarrow> string \<Rightarrow> string" where
  "path_var r k = (case map_of (wr_Vars r) k of Some v \<Rightarrow> v | None \<Rightarrow> [])"

datatype web_reply =
    Redirect string
  | Json int json
  | Error int string
  | Html string

definition writeJSONError :: "int \<Rightarrow> string \<Rightarrow> web_reply" where
  "writeJSONError status message = Json status (JObj [(''error'', JStr message)])"

text \<open>The target of a redirect: the landing page with the values that are not blank.\<close>

definition landing :: "string \<Rightarrow> (string \<times> string) list \<Rightarrow> web_reply" where
  "landing selfRoot values = Redirect (selfRoot @ ''/'' @ (if values = [] then [] else ''?'' @ Encode values))"

definition not_blank :: "(string \<times> string) list \<Rightarrow> (string \<times> string) list" where
  "not_blank params = filter (\<lambda>(_, v). TrimSpace v \<noteq> []) params"

section \<open>The server's address\<close>

text \<open>The settings and services \<open>main\<close> puts into global variables.\<close>

record server =
  sv_storage :: bool
  sv_trakt :: bool
  trustProxy :: bool

definition firstForwardVal :: "string \<Rightarrow> string" where
  "firstForwardVal raw = (if raw = [] then [] else TrimSpace (hd (Split (CHR '','') raw)))"

definition forwarded_pair :: "string \<Rightarrow> string \<times> string \<Rightarrow> string \<times> string" where
  "forwarded_pair pair = (\<lambda>(host, proto).
     (case SplitN2 (CHR ''='') (TrimSpace pair) of
        None \<Rightarrow> (host, proto)
      | Some (k, v) \<Rightarrow>
          (let key = ToLower (TrimSpace k); val = TrimByte (CHR 0x22) (TrimSpace v) in
           if key = ''host'' then (if host = [] \<and> val \<noteq> [] then val else host, proto)
           else if key = ''proto'' then (host, if proto = [] \<and> val \<noteq> [] then ToLower val else proto)
           else (host, proto))))"

fun forwarded_segments :: "string list \<Rightarrow> string \<times> string \<Rightarrow> string \<times> string" where
  "forwarded_segments [] hp = hp"
| "forwarded_segments (seg # segs) hp =
     (if TrimSpace seg = [] then forwarded_segments segs hp
      else let hp = fold forwarded_pair (Split (CHR '';'') (TrimSpace seg)) hp in
        if fst hp \<noteq> [] \<and> snd hp \<noteq> [] then hp else forwarded_segments segs hp)"

definition parseForwarded :: "string \<Rightarrow> string \<times> string" where
  "parseForwarded raw = (if raw = [] then ([], []) else forwarded_segments (Split (CHR '','') raw) ([], []))"

definition SelfRoot :: "server \<Rightarrow> web_request \<Rightarrow> string" where
  "SelfRoot srv r =
     (let scheme = TrimSpace (wr_URLScheme r); host = TrimSpace (wr_Host r);
          (scheme, host) = (if trustProxy srv
            then let (forwardedHost, forwardedProto) = parseForwarded (wr_Forwarded r);
                     host = (if forwardedHost \<noteq> [] then forwardedHost else host);
                     scheme = (if forwardedProto \<noteq> [] then forwardedProto else scheme);
                     xfHost = firstForwardVal (wr_XForwardedHost r);
                     host = (if xfHost \<noteq> [] then xfHost else host);
                     xfProto = firstForwardVal (wr_XForwardedProto r);
                     scheme = (if scheme = [] \<and> xfProto \<noteq> [] then ToLower xfProto else scheme)
                 in (scheme, host)
            else (scheme, host));
          scheme = (if scheme = [] \<and> wr_TLS r then ''https'' else scheme);
          scheme = (if scheme = [] then ''http'' else scheme);
          host = (if host = [] \<and> wr_URLHost r \<noteq> [] then wr_URLHost r else host);
          host = (if host = [] then ''localhost'' else host);
          xfPort = firstForwardVal (wr_XForwardedPort r);
          host = (if trustProxy srv \<and> CHR '':'' \<notin> set host \<and> xfPort \<noteq> [] \<and>
                     \<not> (xfPort = ''80'' \<and> scheme = ''http'') \<and> \<not> (xfPort = ''443'' \<and> scheme = ''https'')
                  then host @ '':'' @ xfPort else host)
      in scheme @ ''://'' @ escape_host host)"

section \<open>The filter of host names\<close>

text \<open>\<open>net.SplitHostPort\<close>; \<^const>\<open>None\<close> stands for its errors.\<close>

definition SplitHostPort :: "string \<Rightarrow> (string \<times> string) option" where
  "SplitHostPort hostport = (case cut_last (CHR '':'') hostport of
     None \<Rightarrow> None
   | Some (before, port) \<Rightarrow>
       (if hd hostport = CHR ''[''
        then let inner = takeWhile (\<lambda>x. x \<noteq> CHR '']'') (tl hostport) in
          (if before = CHR ''['' # inner @ '']'' \<and> CHR ''['' \<notin> set inner \<and> CHR ''['' \<notin> set port \<and> CHR '']'' \<notin> set port
           then Some (inner, port) else None)
        else if CHR '':'' \<in> set before \<or> CHR ''['' \<in> set hostport \<or> CHR '']'' \<in> set hostport then None
        else Some (before, port)))"

text \<open>One entry of the setting: without scheme and path.\<close>

definition allowed_entry :: "string \<Rightarrow> string" where
  "allowed_entry p = takeWhile (\<lambda>c. c \<noteq> CHR ''/'') (TrimPrefix (TrimPrefix (TrimSpace p) ''https://'') ''http://'')"

definition allowed_hosts :: "string \<Rightarrow> string list" where
  "allowed_hosts allowedHostnames =
     map allowed_entry (filter (\<lambda>p. TrimSpace p \<noteq> []) (Split (CHR '','') (ToLower allowedHostnames)))"

definition request_host :: "string \<Rightarrow> string" where
  "request_host lcHost = (case SplitHostPort lcHost of
     Some (host, _) \<Rightarrow> host
   | None \<Rightarrow> (case cut_last (CHR '':'') lcHost of Some (before, _) \<Rightarrow> before | None \<Rightarrow> lcHost))"

definition allowedHostsHandler :: "string \<Rightarrow> (web_request \<Rightarrow> 'w \<Rightarrow> (web_reply \<times> 'w) option) \<Rightarrow> web_request \<Rightarrow> 'w \<Rightarrow> (web_reply \<times> 'w) option" where
  "allowedHostsHandler allowedHostnames h r w =
     (let allowedHosts = allowed_hosts allowedHostnames;
          allowedBare = filter (\<lambda>h. SplitHostPort h = None) allowedHosts;
          lcHost = ToLower (TrimSpace (wr_Host r))
      in if wr_Path r = ''/healthcheck'' then h r w
         else if lcHost \<in> set allowedHosts \<or> request_host lcHost \<in> set allowedBare then h r w
         else Some (Error 401 ''Oh no!'', w))"

section \<open>Escaping\<close>

lemma upperhex_unhex: "n < 16 \<Longrightarrow> unhex (upperhex n) = Some n"
proof -
  have "\<forall>n \<in> set [0..<16]. unhex (upperhex n) = Some n" by code_simp
  then show "n < 16 \<Longrightarrow> unhex (upperhex n) = Some n" by simp
qed

lemma QueryUnescape_percent: "QueryUnescape (percent c @ t) = map_option (Cons c) (QueryUnescape t)"
proof -
  have "of_char c < (256 :: nat)" by simp
  then have "(of_char c :: nat) div 16 < 16" by linarith
  then show ?thesis by (simp add: percent_def Let_def upperhex_unhex mult.commute [of 16])
qed

lemma unreserved_plain: "unreserved c \<Longrightarrow> c \<noteq> CHR ''%'' \<and> c \<noteq> CHR ''+''"
  by (auto simp: unreserved_def)

text \<open>
  The text of a query survives the trip through an address: decoding what \<open>QueryEscape\<close> wrote gives the
  text back, whatever bytes it has.
\<close>

lemma query_roundtrip: "QueryUnescape (QueryEscape s) = Some s"
proof (induction s)
  case Nil
  then show ?case by (simp add: QueryEscape_def)
next
  case (Cons c s)
  let ?t = "concat (map (\<lambda>c. if unreserved c then [c] else if c = CHR '' '' then ''+'' else percent c) s)"
  have "QueryUnescape ((if unreserved c then [c] else if c = CHR '' '' then ''+'' else percent c) @ ?t) =
      map_option (Cons c) (QueryUnescape ?t)"
    using unreserved_plain [of c] by (auto simp: QueryUnescape_percent)
  with Cons show ?case by (simp add: QueryEscape_def)
qed

section \<open>Addresses\<close>

text \<open>Without a trusted proxy the forwarding headers of a request have no influence on the address.\<close>

lemma SelfRoot_untrusted:
  assumes "\<not> trustProxy srv"
  shows "SelfRoot srv (r\<lparr>wr_Forwarded := a, wr_XForwardedHost := b, wr_XForwardedProto := c, wr_XForwardedPort := d\<rparr>) = SelfRoot srv r"
  using assms by (simp add: SelfRoot_def Let_def)

section \<open>Host names\<close>

lemma cut_last_None: "cut_last c s = None \<longleftrightarrow> c \<notin> set s"
  by (simp add: cut_last_def)

lemma cut_last_append: "c \<notin> set b \<Longrightarrow> cut_last c (a @ c # b) = Some (a, b)"
proof -
  assume "c \<notin> set b"
  then have all: "\<And>x. x \<in> set (rev b) \<Longrightarrow> x \<noteq> c" by auto
  from dropWhile_append2 [of "rev b" "\<lambda>x. x \<noteq> c" "c # rev a"] takeWhile_append2 [of "rev b" "\<lambda>x. x \<noteq> c" "c # rev a"] all
  have "dropWhile (\<lambda>x. x \<noteq> c) (rev b @ c # rev a) = c # rev a" "takeWhile (\<lambda>x. x \<noteq> c) (rev b @ c # rev a) = rev b" by simp_all
  then show ?thesis by (simp add: cut_last_def)
qed

lemma cut_last_Some:
  assumes "cut_last c s = Some (a, b)"
  shows "s = a @ c # b \<and> c \<notin> set b"
proof -
  from assms have "c \<in> set s" by (auto simp: cut_last_def split: if_splits)
  then obtain a' b' where "s = a' @ c # b'" "c \<notin> set b'" by (meson split_list_last)
  with cut_last_append [OF this(2), of a'] assms show ?thesis by simp
qed

text \<open>A plain name: lower-case letters, digits, dots and dashes.\<close>

definition plain_byte :: "char \<Rightarrow> bool" where
  "plain_byte c \<longleftrightarrow> (let n = of_char c :: nat in 97 \<le> n \<and> n \<le> 122 \<or> 45 \<le> n \<and> n \<le> 46 \<or> 48 \<le> n \<and> n \<le> 57)"

definition plain_name :: "string \<Rightarrow> bool" where
  "plain_name h \<longleftrightarrow> h \<noteq> [] \<and> list_all plain_byte h"

lemma plain_byte_facts:
  assumes "plain_byte c"
  shows "lower_byte c = c" "plain c" "c \<notin> set '':/,[]''"
  using assms unfolding plain_byte_def by (auto simp: lower_byte_def plain_def Let_def)

lemma plain_name_facts:
  assumes "plain_name h"
  shows "ToLower h = h" "TrimSpace h = h" "c \<in> set h \<Longrightarrow> c \<notin> set '':/,[]''" "allowed_entry h = h" "SplitHostPort h = None"
proof -
  have all: "plain_byte c" if "c \<in> set h" for c using assms that by (auto simp: plain_name_def list_all_iff)
  show "ToLower h = h" using all by (simp add: ToLower_def plain_byte_facts map_idI)
  have ne: "h \<noteq> []" using assms by (simp add: plain_name_def)
  show trim: "TrimSpace h = h" by (rule TrimSpace_plain) (use ne all in \<open>auto simp: plain_byte_facts(2)\<close>)
  show no: "c \<notin> set '':/,[]''" if "c \<in> set h" for c using plain_byte_facts(3) [OF all [OF that]] .
  have slash: "CHR ''/'' \<notin> set h" and colon: "CHR '':'' \<notin> set h" using no by force+
  have "\<not> HasPrefix h (p @ '':'' @ q)" for p q using colon by (auto simp: HasPrefix_iff)
  from this [of "''https''" "''//''"] this [of "''http''" "''//''"]
  have "TrimPrefix (TrimPrefix h ''https://'') ''http://'' = h" by (simp add: TrimPrefix_def)
  then show "allowed_entry h = h" using slash by (auto simp: allowed_entry_def trim takeWhile_eq_all_conv)
  show "SplitHostPort h = None" using colon by (simp add: SplitHostPort_def cut_last_def)
qed

lemma Split_join:
  assumes "hs \<noteq> []" "\<forall>h \<in> set hs. c \<notin> set h"
  shows "Split c (join_with [c] hs) = hs"
proof -
  have word: "c \<notin> set h \<Longrightarrow> Split c h = [h]" for h by (induction h) auto
  have cons: "c \<notin> set h \<Longrightarrow> Split c (h @ c # s) = h # Split c s" for h s by (induction h) auto
  show ?thesis using assms by (induction "[c]" hs rule: join_with.induct) (auto simp: word cons)
qed

lemma allowed_hosts_plain:
  assumes "hs \<noteq> []" "\<forall>h \<in> set hs. plain_name h"
  shows "allowed_hosts (join_with '','' hs) = hs"
proof -
  have "ToLower (join_with '','' hs) = join_with '','' hs"
    using assms by (induction "'',''" hs rule: join_with.induct) (auto simp: plain_name_facts(1) [unfolded ToLower_def] ToLower_def lower_byte_def)
  moreover have "Split (CHR '','') (join_with '','' hs) = hs"
    using assms plain_name_facts(3) by (intro Split_join) force+
  moreover have "filter (\<lambda>p. TrimSpace p \<noteq> []) hs = hs" using assms(2) by (auto simp: plain_name_facts plain_name_def intro!: filter_True)
  moreover have "map allowed_entry hs = hs" using assms(2) by (auto simp: plain_name_facts intro!: map_idI)
  ultimately show ?thesis by (simp add: allowed_hosts_def)
qed

lemma request_host_plain:
  assumes "plain_name h"
  shows "request_host x = h \<longleftrightarrow> x = h \<or> (\<exists>port. CHR '':'' \<notin> set port \<and> x = h @ '':'' @ port) \<or>
    (\<exists>port. set port \<inter> set '':[]'' = {} \<and> x = ''['' @ h @ '']:'' @ port)"
proof (cases "cut_last (CHR '':'') x")
  case None
  then have "CHR '':'' \<notin> set x" by (simp add: cut_last_None)
  with None show ?thesis by (auto simp: request_host_def SplitHostPort_def)
next
  case (Some ab)
  obtain a b where ab: "ab = (a, b)" by (cases ab)
  from cut_last_Some [of _ x a b] Some ab have x: "x = a @ CHR '':'' # b" and b: "CHR '':'' \<notin> set b" by auto
  have no: "CHR '':'' \<notin> set h" "CHR ''['' \<notin> set h" "CHR '']'' \<notin> set h" "h \<noteq> []"
    using plain_name_facts(3) [OF assms] assms by (force simp: plain_name_def)+
  have dec: "x = a' @ CHR '':'' # b' \<Longrightarrow> CHR '':'' \<notin> set b' \<Longrightarrow> a' = a \<and> b' = b" for a' b'
    using cut_last_append [of "CHR '':''" b' a'] Some ab by simp
  have "x \<noteq> h" using x no(1) by auto
  moreover have "(\<exists>port. CHR '':'' \<notin> set port \<and> x = h @ '':'' @ port) \<longleftrightarrow> a = h" using dec [of h] x b by auto
  moreover have "(\<exists>port. set port \<inter> set '':[]'' = {} \<and> x = ''['' @ h @ '']:'' @ port) \<longleftrightarrow>
      a = ''['' @ h @ '']'' \<and> CHR ''['' \<notin> set b \<and> CHR '']'' \<notin> set b"
    using dec [of "''['' @ h @ '']''"] x b by auto
  moreover have "request_host x = h \<longleftrightarrow> a = h \<or> a = ''['' @ h @ '']'' \<and> CHR ''['' \<notin> set b \<and> CHR '']'' \<notin> set b"
  proof (cases "SplitHostPort x")
    case N: None
    then have "request_host x = a" using Some ab by (simp add: request_host_def)
    moreover have "SplitHostPort x = Some (h, b)" if "a = ''['' @ h @ '']''" "CHR ''['' \<notin> set b" "CHR '']'' \<notin> set b"
    proof -
      have "hd x = CHR ''[''" "tl x = h @ CHR '']'' # CHR '':'' # b" by (simp_all add: x that)
      moreover have "takeWhile (\<lambda>c. c \<noteq> CHR '']'') (h @ CHR '']'' # CHR '':'' # b) = h"
        using no(3) by (subst takeWhile_append2) auto
      ultimately show ?thesis using Some ab no(2) that by (simp add: SplitHostPort_def)
    qed
    ultimately show ?thesis using N by force
  next
    case S: (Some hp)
    have "hd h \<noteq> CHR ''[''" using no by (metis hd_in_set)
    with S show ?thesis
      using Some ab no by (auto simp: SplitHostPort_def request_host_def x Let_def split: if_splits)
  qed
  ultimately show ?thesis by blast
qed

text \<open>
  C19. The filter of host names does what the setting says: with a list of plain names it passes a request on
  exactly when it asks for the health check or names one of the hosts, in any case, with or without a port and
  also in brackets; every other request is answered with status 401 and reaches no handler.
\<close>

theorem host_filter:
  assumes "hs \<noteq> []" "\<forall>h \<in> set hs. plain_name h"
  shows "allowedHostsHandler (join_with '','' hs) handler r w =
    (if wr_Path r = ''/healthcheck'' \<or> (\<exists>h \<in> set hs. let x = ToLower (TrimSpace (wr_Host r)) in
         x = h \<or> (\<exists>port. CHR '':'' \<notin> set port \<and> x = h @ '':'' @ port) \<or>
         (\<exists>port. set port \<inter> set '':[]'' = {} \<and> x = ''['' @ h @ '']:'' @ port))
     then handler r w else Some (Error 401 ''Oh no!'', w))"
proof -
  let ?x = "ToLower (TrimSpace (wr_Host r))"
  have "filter (\<lambda>h. SplitHostPort h = None) hs = hs" using assms(2) by (auto simp: plain_name_facts intro!: filter_True)
  moreover have "(?x \<in> set hs \<or> request_host ?x \<in> set hs) \<longleftrightarrow> (\<exists>h \<in> set hs. ?x = h \<or> request_host ?x = h)" by auto
  moreover have "(\<exists>h \<in> set hs. ?x = h \<or> request_host ?x = h) \<longleftrightarrow> (\<exists>h \<in> set hs. ?x = h \<or>
      (\<exists>port. CHR '':'' \<notin> set port \<and> ?x = h @ '':'' @ port) \<or> (\<exists>port. set port \<inter> set '':[]'' = {} \<and> ?x = ''['' @ h @ '']:'' @ port))"
    using assms(2) by (intro bex_cong refl) (simp add: request_host_plain)
  ultimately show ?thesis by (simp only: allowedHostsHandler_def allowed_hosts_plain [OF assms] Let_def split: if_split) blast
qed

text \<open>A request with nothing in it.\<close>

definition empty_request :: web_request where
  "empty_request = \<lparr>wr_Method = ''GET'', wr_Host = ''localhost'', wr_Path = ''/'', wr_URLScheme = [], wr_URLHost = [], wr_TLS = False,
     wr_Forwarded = [], wr_XForwardedHost = [], wr_XForwardedProto = [], wr_XForwardedPort = [], wr_Query = [], wr_Vars = [], wr_Body = None, wr_Unreadable = False\<rparr>"

theorem host_filter_witness:
  "allowedHostsHandler (join_with '','' [''plaxt.example.com'', ''localhost'']) (\<lambda>r w. Some (Html ''ok'', w))
     (empty_request\<lparr>wr_Host := ''Plaxt.Example.com:8000''\<rparr>) () = Some (Html ''ok'', ())"
proof -
  let ?hs = "[''plaxt.example.com'', ''localhost'']" and ?r = "empty_request\<lparr>wr_Host := ''Plaxt.Example.com:8000''\<rparr>"
  have "\<forall>h \<in> set ?hs. plain_name h" by (simp add: plain_name_def plain_byte_def)
  note * = host_filter [OF _ this, of "\<lambda>r w. Some (Html ''ok'', w)" ?r "()", simplified]
  have "ToLower (TrimSpace (wr_Host ?r)) = ''plaxt.example.com'' @ '':'' @ ''8000''" by code_simp
  moreover have "CHR '':'' \<notin> set ''8000''" by simp
  ultimately have "\<exists>port. CHR '':'' \<notin> set port \<and> ToLower (TrimSpace (wr_Host ?r)) = ''plaxt.example.com'' @ '':'' @ port" by blast
  then show ?thesis using * by simp
qed

end
