(* ===== verification/Authorize.thy ===== *)
theory Authorize
  imports Http
begin

text \<open>
  The handlers of \<open>main.go\<close> that authorise users and family members: \<open>createAuthState\<close> and
  \<open>createFamilyAuthState\<close> open a session, \<open>authorize\<close> and \<open>authorizeFamilyMember\<close> receive the
  redirect from Trakt, exchange its code for tokens and store them.  They work on the database, the
  Trakt client and the store of sessions.  Identifiers drawn are arguments: \<open>draw\<close> numbers those of a
  request, \<open>ids\<close> are those the store of sessions draws.  \<^const>\<open>None\<close> is a panic, or a session store that
  has not found a free identifier.  Log output is not modelled.
\<close>

section \<open>Calls to Trakt\<close>

definition authRequestFunc :: "server \<Rightarrow> 'w TraktEnv \<Rightarrow> string \<Rightarrow> string \<Rightarrow> string \<Rightarrow> string \<Rightarrow> string \<Rightarrow> 'w \<Rightarrow>
    ((string \<times> json) list \<times> bool) \<times> 'w" where
  "authRequestFunc srv te redirectURI username code refreshToken grantType w =
     (if \<not> sv_trakt srv then (([], False), w) else AuthRequest te redirectURI username code refreshToken grantType w)"

definition fetchDisplayNameFunc :: "server \<Rightarrow> 'w TraktEnv \<Rightarrow> string \<Rightarrow> 'w \<Rightarrow> (string \<times> bool) result \<times> 'w" where
  "fetchDisplayNameFunc srv te accessToken w =
     (if \<not> sv_trakt srv then (Inr ([], False), w) else FetchDisplayName te accessToken w)"

text \<open>The status, the error and its description in the result of a failed exchange.\<close>

definition exchange_error :: "(string \<times> json) list \<Rightarrow> int \<times> string \<times> string" where
  "exchange_error result =
     (case json_get result ''http_status'' of Some (JInt n) \<Rightarrow> n | _ \<Rightarrow> 0,
      case json_get result ''error'' of Some (JStr x) \<Rightarrow> if x \<noteq> [] then x else ''unknown'' | _ \<Rightarrow> ''unknown'',
      case json_get result ''error_description'' of Some (JStr d) \<Rightarrow> d | _ \<Rightarrow> [])"

definition authorize_user_error :: "(string \<times> json) list \<Rightarrow> string" where
  "authorize_user_error result = (let (httpStatus, traktError, traktErrorDesc) = exchange_error result in
     if traktError = ''invalid_grant'' then ''Authorization code expired or invalid. Please try authorizing again.''
     else if traktError = ''invalid_client'' then ''Invalid Trakt client credentials. Contact the administrator.''
     else if httpStatus = 429 then ''Too many requests. Please wait a moment and try again.''
     else if traktErrorDesc \<noteq> [] then ''Trakt error: '' @ traktErrorDesc
     else ''Trakt token exchange failed. Please try again.'')"

definition family_user_error :: "(string \<times> json) list \<Rightarrow> string" where
  "family_user_error result = (let (httpStatus, traktError, traktErrorDesc) = exchange_error result in
     if traktError = ''invalid_grant'' then ''Authorization code expired or invalid. Please try authorizing again.''
     else if httpStatus = 429 then ''Too many requests. Please wait a moment and try again.''
     else if traktErrorDesc \<noteq> [] then ''Trakt error: '' @ traktErrorDesc
     else ''Trakt authorization failed. Please try again.'')"

text \<open>The tokens of a result, if it has both.\<close>

definition result_tokens :: "(string \<times> json) list \<Rightarrow> (string \<times> string) option" where
  "result_tokens result = (case (json_get result ''access_token'', json_get result ''refresh_token'') of
     (Some (JStr a), Some (JStr r)) \<Rightarrow> if a = [] \<or> r = [] then None else Some (a, r)
   | _ \<Rightarrow> None)"

section \<open>Sessions\<close>

text \<open>The fields \<open>mode\<close>, \<open>username\<close> and \<open>id\<close> of the body.\<close>

definition dec_state_request :: "json \<Rightarrow> (string \<times> string \<times> string) option" where
  "dec_state_request j = dec_struct
     [(''mode'', \<lambda>v (m, u, i). map_option (\<lambda>x. (x, u, i)) (set_string v m)),
      (''username'', \<lambda>v (m, u, i). map_option (\<lambda>x. (m, x, i)) (set_string v u)),
      (''id'', \<lambda>v (m, u, i). map_option (\<lambda>x. (m, u, x)) (set_string v i))] j ([], [], [])"

definition new_session :: "gotime \<Rightarrow> string list \<Rightarrow> authState \<Rightarrow> (string \<Rightarrow> web_reply) \<Rightarrow> pg \<Rightarrow> authStateStore \<Rightarrow>
    (web_reply \<times> pg \<times> authStateStore) option" where
  "new_session now ids state reply s st = map_option (\<lambda>(token, st'). (reply token, s, st')) (Create now ids state st)"

definition createAuthState :: "env \<Rightarrow> server \<Rightarrow> (nat \<Rightarrow> string) \<Rightarrow> string list \<Rightarrow> web_request \<Rightarrow> pg \<times> authStateStore \<Rightarrow>
    (web_reply \<times> pg \<times> authStateStore) option" where
  "createAuthState e srv draw ids r = (\<lambda>(s, st).
     (if wr_Method r \<noteq> ''POST'' then Some (writeJSONError 405 ''method not allowed'', s, st)
      else case Option.bind (wr_Body r) dec_state_request of
        None \<Rightarrow> Some (writeJSONError 400 ''invalid request body'', s, st)
      | Some (reqMode, reqUsername, reqID) \<Rightarrow>
          (let done_with = (\<lambda>mode username selectedID correlationID s. let now = env_now e (stmt_no s) in
                 new_session now ids \<lparr>as_Mode = mode, as_Username = username, SelectedID = selectedID,
                   CorrelationID = correlationID, Created = now, as_FamilyGroup = None\<rparr>
                   (\<lambda>token. Json 200 (JObj [(''state'', JStr token)])) s st)
           in if ToLower (TrimSpace reqMode) = ''renew''
              then (if \<not> sv_storage srv then Some (writeJSONError 503 ''storage unavailable'', s, st)
                    else let selectedID = TrimSpace reqID in
                      if selectedID = [] then Some (writeJSONError 400 ''missing user id'', s, st)
                      else case GetUser e selectedID s of
                        None \<Rightarrow> None
                      | Some (None, s1) \<Rightarrow> Some (writeJSONError 404 ''user not found'', s1, st)
                      | Some (Some user, s1) \<Rightarrow>
                          (let username = ToLower (TrimSpace (Username user)) in
                           if username = [] then Some (writeJSONError 409 ''user record missing username'', s1, st)
                           else done_with ''renew'' username selectedID (draw 0) s1))
              else let username = ToLower (TrimSpace reqUsername) in
                if username = [] then Some (writeJSONError 400 ''missing username'', s, st)
                else done_with ''onboarding'' username [] [] s)))"

text \<open>Mode, Plex user name and the labels of the members.\<close>

definition dec_family_request :: "json \<Rightarrow> (string \<times> string \<times> string list) option" where
  "dec_family_request j = dec_struct
     [(''mode'', \<lambda>v (m, p, ls). map_option (\<lambda>x. (x, p, ls)) (set_string v m)),
      (''plex_username'', \<lambda>v (m, p, ls). map_option (\<lambda>x. (m, x, ls)) (set_string v p)),
      (''members'', \<lambda>v (m, p, ls). map_option (\<lambda>x. (m, p, x))
         (dec_slice [] (dec_struct [(''temp_label'', set_string)]) v ls))] j ([], [], [])"

text \<open>The loop that adds the members; after a failure the group is deleted again.\<close>

definition pending_member :: "string \<Rightarrow> string \<Rightarrow> string \<Rightarrow> gotime \<Rightarrow> GroupMember" where
  "pending_member memberID groupID label now = \<lparr>gm_ID = memberID, gm_FamilyGroupID = groupID, TempLabel = label, TraktUsername = [],
     gm_AccessToken = [], gm_RefreshToken = [], gm_TokenExpiry = None, AuthorizationStatus = ''pending'', gm_CreatedAt = now\<rparr>"

fun add_members :: "env \<Rightarrow> (nat \<Rightarrow> string) \<Rightarrow> string \<Rightarrow> nat \<Rightarrow> string list \<Rightarrow> pg \<Rightarrow> FamilyMemberState list option \<times> pg" where
  "add_members e draw groupID i [] s = (Some [], s)"
| "add_members e draw groupID i (label # labels) s =
     (case AddGroupMember e (Some (pending_member (draw i) groupID (TrimSpace label) (env_now e (stmt_no s)))) s of
        ((Some _, _), s1) \<Rightarrow> (None, snd (DeleteFamilyGroup e groupID s1))
      | ((None, m), s1) \<Rightarrow> (case add_members e draw groupID (Suc i) labels s1 of
            (None, s2) \<Rightarrow> (None, s2)
          | (Some states, s2) \<Rightarrow> (Some (\<lparr>fm_MemberID = draw i,
                fm_TempLabel = (case m of Some m \<Rightarrow> TempLabel m | None \<Rightarrow> TrimSpace label), fm_TraktUsername = [],
                fm_AuthorizationStatus = ''pending'', AuthorizedAt = 0\<rparr> # states), s2)))"

fun blank_label :: "nat \<Rightarrow> string list \<Rightarrow> nat option" where
  "blank_label i [] = None"
| "blank_label i (l # ls) = (if TrimSpace l = [] then Some i else blank_label (Suc i) ls)"

definition createFamilyAuthState :: "env \<Rightarrow> server \<Rightarrow> (nat \<Rightarrow> string) \<Rightarrow> string list \<Rightarrow> web_request \<Rightarrow> pg \<times> authStateStore \<Rightarrow>
    (web_reply \<times> pg \<times> authStateStore) option" where
  "createFamilyAuthState e srv draw ids r = (\<lambda>(s, st).
     (if wr_Method r \<noteq> ''POST'' then Some (writeJSONError 405 ''method not allowed'', s, st)
      else case Option.bind (wr_Body r) dec_family_request of
        None \<Rightarrow> Some (writeJSONError 400 ''invalid request body'', s, st)
      | Some (mode, plex, labels) \<Rightarrow>
          (let plexUsername = TrimSpace plex in
           if ToLower (TrimSpace mode) \<noteq> ''family'' then Some (writeJSONError 400 (''mode must be '' @ [CHR 0x27] @ ''family'' @ [CHR 0x27]), s, st)
           else if plexUsername = [] then Some (writeJSONError 400 ''plex_username is required'', s, st)
           else if length labels < 2 then Some (writeJSONError 400 ''minimum 2 members required'', s, st)
           else if length labels > 10 then Some (writeJSONError 400 ''maximum 10 members allowed'', s, st)
           else case blank_label 0 labels of
             Some i \<Rightarrow> Some (writeJSONError 400 (''member '' @ itoa (int i) @ '': temp_label is required''), s, st)
           | None \<Rightarrow>
               (if \<not> sv_storage srv then Some (writeJSONError 503 ''storage unavailable'', s, st)
                else case GetFamilyGroupByPlex e plexUsername s of
                  (Inr _, s1) \<Rightarrow> Some (writeJSONError 409 ''family group already exists for this Plex username'', s1, st)
                | (Inl _, s1) \<Rightarrow>
                    (let groupID = draw 0; now = env_now e (stmt_no s1) in
                     case CreateFamilyGroup e (Some \<lparr>fg_ID = groupID, PlexUsername = plexUsername, fg_CreatedAt = now, fg_UpdatedAt = now\<rparr>) s1 of
                       ((Some _, _), s2) \<Rightarrow> Some (writeJSONError 500 ''failed to create family group'', s2, st)
                     | ((None, _), s2) \<Rightarrow> (case add_members e draw groupID 1 labels s2 of
                           (None, s3) \<Rightarrow> Some (writeJSONError 500 ''failed to create group members'', s3, st)
                         | (Some memberStates, s3) \<Rightarrow> (let now = env_now e (stmt_no s3) in
                             new_session now ids \<lparr>as_Mode = ''family'', as_Username = [], SelectedID = [], CorrelationID = [], Created = now,
                                 as_FamilyGroup = Some \<lparr>fs_GroupID = groupID, fs_PlexUsername = plexUsername, fs_Members = memberStates\<rparr>\<rparr>
                               (\<lambda>token. Json 200 (JObj [(''state'', JStr token), (''family_group_id'', JStr groupID)])) s3 st)))))))"

section \<open>Authorising a user\<close>

record auth_flow =
  fl_mode :: string
  fl_username :: string
  fl_id :: string
  fl_correlation :: string

text \<open>
  The beginning of \<open>authorize\<close>: what the query and the session say.  \<^const>\<open>None\<close> is a session
  that is unknown or too old.
\<close>

definition query_flow :: "web_request \<Rightarrow> auth_flow" where
  "query_flow r = \<lparr>fl_mode = (if ToLower (TrimSpace (arg r ''mode'')) = ''renew'' then ''renew'' else ''onboarding''),
     fl_username = ToLower (TrimSpace (arg r ''username'')), fl_id = TrimSpace (arg r ''id''), fl_correlation = []\<rparr>"

definition session_flow :: "authState \<Rightarrow> auth_flow \<Rightarrow> auth_flow" where
  "session_flow a f = \<lparr>fl_mode = (if TrimSpace (as_Mode a) \<noteq> [] then as_Mode a else fl_mode f),
     fl_username = (if TrimSpace (as_Username a) \<noteq> [] then ToLower (TrimSpace (as_Username a)) else fl_username f),
     fl_id = (if TrimSpace (SelectedID a) \<noteq> [] then TrimSpace (SelectedID a) else fl_id f),
     fl_correlation = (if TrimSpace (CorrelationID a) \<noteq> [] then CorrelationID a else fl_correlation f)\<rparr>"

definition authorize_flow :: "gotime \<Rightarrow> (nat \<Rightarrow> string) \<Rightarrow> web_request \<Rightarrow> authStateStore \<Rightarrow> auth_flow option \<times> authStateStore" where
  "authorize_flow now draw r st =
     (let stateToken = TrimSpace (arg r ''state'');
          (f, st') = (if stateToken \<noteq> []
            then (case Consume now stateToken st of
                ((_, False), st') \<Rightarrow> (None, st')
              | ((a, True), st') \<Rightarrow> (Some (session_flow a (query_flow r)), st'))
            else (Some (query_flow r), st))
      in (map_option (\<lambda>f. if fl_mode f = ''renew'' \<and> fl_correlation f = [] then f\<lparr>fl_correlation := draw 0\<rparr> else f) f, st'))"

definition session_expired :: "string \<Rightarrow> web_request \<Rightarrow> web_reply" where
  "session_expired selfRoot r = landing selfRoot ([(''result'', ''error''), (''error'', ''Authorization session expired. Please start again.'')] @
     (if fl_mode (query_flow r) = ''renew'' then [(''mode'', ''renew''), (''step'', ''confirm'')]
      else [(''mode'', ''onboarding''), (''step'', ''authorize'')]))"

text \<open>The error redirects after the exchange with Trakt.\<close>

definition flow_error :: "string \<Rightarrow> auth_flow \<Rightarrow> string \<Rightarrow> web_reply" where
  "flow_error selfRoot f message = landing selfRoot (not_blank [(''result'', ''error''), (''mode'', fl_mode f),
     (''step'', if fl_mode f = ''renew'' then ''confirm'' else ''authorize''), (''id'', fl_id f), (''username'', fl_username f),
     (''error'', message), (''correlation_id'', truncateCorrelationID (fl_correlation f))])"

text \<open>The user a renewal selects; the stored name replaces the one supplied.\<close>

definition renewal_user :: "env \<Rightarrow> server \<Rightarrow> auth_flow \<Rightarrow> pg \<Rightarrow> ((User option \<times> auth_flow) \<times> pg) option" where
  "renewal_user e srv f s =
     (if fl_mode f = ''renew'' \<and> fl_id f \<noteq> [] \<and> sv_storage srv
      then map_option (\<lambda>(u, s1). ((u, case u of
               Some user \<Rightarrow> (let storedUsername = ToLower (TrimSpace (Username user)) in
                 if storedUsername \<noteq> [] then f\<lparr>fl_username := storedUsername\<rparr> else f)
             | None \<Rightarrow> f), s1)) (GetUser e (fl_id f) s)
      else Some ((None, f), s))"

text \<open>The end of \<open>authorize\<close>, once Trakt has given tokens.\<close>

definition success_params :: "auth_flow \<Rightarrow> User \<Rightarrow> bool \<Rightarrow> string \<Rightarrow> string \<Rightarrow> bool \<Rightarrow> (string \<times> string) list" where
  "success_params f user reused displayName warning prompt =
     (let displayName = (if TrimSpace displayName = [] then TrimSpace (TraktDisplayName user) else displayName);
          prompt = (prompt \<and> displayName = [])
      in [(''result'', ''success''), (''username'', Username user), (''id'', usr_ID user)] @
         (if displayName \<noteq> [] then [(''display_name'', displayName)] else []) @
         (if warning \<noteq> [] then [(''display_name_warning'', warning)] else []) @
         (if prompt then [(''display_name_missing'', ''1'')] else []) @
         (if fl_mode f = ''renew'' then [(''mode'', ''renew''), (''step'', ''result'')]
          else [(''mode'', ''onboarding''), (''step'', ''webhook'')]) @
         (if (reused \<or> fl_id f \<noteq> [] \<and> usr_ID user \<noteq> fl_id f) \<and> fl_correlation f \<noteq> []
          then [(''correlation_id'', truncateCorrelationID (fl_correlation f))] else []))"

definition authorize_finish :: "env \<Rightarrow> server \<Rightarrow> 'n world TraktEnv \<Rightarrow> string \<Rightarrow> string \<Rightarrow> auth_flow \<Rightarrow> (string \<times> json) list \<Rightarrow>
    string \<Rightarrow> string \<Rightarrow> 'n world \<Rightarrow> (web_reply \<times> 'n world) option" where
  "authorize_finish e srv te newID selfRoot f result accessToken refreshToken w =
     (let (named, (s, l, n)) = fetchDisplayNameFunc srv te accessToken w;
          (displayName, warning, prompt) = (case named of
              Inl _ \<Rightarrow> ([], [], True)
            | Inr (name, truncated) \<Rightarrow> (if TrimSpace name \<noteq> [] then (TrimSpace name, if truncated then ''truncated'' else [], False)
                else ([], [], True)));
          now = te_now te (s, l, n)
      in if \<not> sv_storage srv then None
         else case persistAuthorizedUser e newID now (fl_username f) (fl_id f) accessToken refreshToken
                (if displayName = [] then None else Some displayName) (calculateTokenExpiry now result) s of
           None \<Rightarrow> None
         | Some (Inl x, s1) \<Rightarrow> Some (flow_error selfRoot f
             (if x = Err ''manual renewal username mismatch'' then ''Username mismatch. Authorization was for a different Plex user.''
              else ''Selected user no longer exists. Please choose another user.''), (s1, l, n))
         | Some (Inr (user, reused), s1) \<Rightarrow>
             Some (landing selfRoot (not_blank (success_params f user reused displayName warning prompt)), (s1, l, n)))"

definition authorize :: "env \<Rightarrow> server \<Rightarrow> 'n world TraktEnv \<Rightarrow> (nat \<Rightarrow> string) \<Rightarrow> string \<Rightarrow> web_request \<Rightarrow>
    'n world \<times> authStateStore \<Rightarrow> (web_reply \<times> 'n world \<times> authStateStore) option" where
  "authorize e srv te draw newID r = (\<lambda>((s, l, n), st).
     (let selfRoot = SelfRoot srv r in
      case authorize_flow (te_now te (s, l, n)) draw r st of
        (None, st') \<Rightarrow> Some (session_expired selfRoot r, (s, l, n), st')
      | (Some f0, st') \<Rightarrow> (case renewal_user e srv f0 s of
          None \<Rightarrow> None
        | Some ((stored, f), s1) \<Rightarrow>
            (if fl_username f = []
             then Some (landing selfRoot (not_blank [(''result'', ''error''), (''mode'', fl_mode f), (''id'', fl_id f),
               (''error'', if fl_mode f = ''renew'' \<and> fl_id f \<noteq> [] \<and> stored = None
                           then ''Selected user no longer exists. Please choose another user.'' else ''Missing username; please try again.''),
               (''correlation_id'', truncateCorrelationID (fl_correlation f))]), (s1, l, n), st')
             else let code = TrimSpace (arg r ''code'') in
               if code = []
               then Some (landing selfRoot (not_blank (if fl_mode f = ''renew''
                   then [(''result'', ''cancelled''), (''mode'', ''renew''), (''step'', ''select''), (''id'', fl_id f),
                         (''username'', fl_username f), (''correlation_id'', truncateCorrelationID (fl_correlation f))]
                   else [(''result'', ''cancelled''), (''mode'', ''onboarding''), (''step'', ''username'')])), (s1, l, n), st')
               else let redirectURI = selfRoot @ (if fl_mode f = ''renew'' then ''/manual/authorize'' else ''/authorize'');
                        ((result, good), w2) = authRequestFunc srv te redirectURI (fl_username f) code [] ''authorization_code'' (s1, l, n)
                 in if \<not> good then Some (flow_error selfRoot f (authorize_user_error result), w2, st')
                    else case result_tokens result of
                      None \<Rightarrow> Some (flow_error selfRoot f ''Trakt response missing tokens. Please retry.'', w2, st')
                    | Some (accessToken, refreshToken) \<Rightarrow>
                        map_option (\<lambda>(reply, w3). (reply, w3, st')) (authorize_finish e srv te newID selfRoot f result accessToken refreshToken w2)))))"

section \<open>Authorising a family member\<close>

definition family_redirect :: "string \<Rightarrow> string \<Rightarrow> (string \<times> string) list \<Rightarrow> web_reply" where
  "family_redirect selfRoot familyGroupID params = landing selfRoot (not_blank params @ [(''mode'', ''family''), (''step'', ''authorize'')] @
     (if familyGroupID \<noteq> [] then [(''family_group_id'', familyGroupID)] else []))"

text \<open>The redirect to Trakt, which keeps the member in the address Trakt returns to.\<close>

definition member_uri :: "string \<Rightarrow> string \<Rightarrow> string" where
  "member_uri selfRoot memberID = selfRoot @ ''/authorize/family/member?member_id='' @ QueryEscape memberID"

definition trakt_login :: "string \<Rightarrow> string \<Rightarrow> string \<Rightarrow> string \<Rightarrow> string \<Rightarrow> web_reply" where
  "trakt_login clientId selfRoot memberID stateToken prompt = Redirect (''https://trakt.tv/oauth/authorize?'' @ Encode (
     [(''client_id'', clientId), (''redirect_uri'', member_uri selfRoot memberID), (''response_type'', ''code''), (''state'', stateToken)] @
     (if prompt \<noteq> [] then [(''prompt'', prompt)] else [])))"

text \<open>
  The message the popup sends to the window that opened it: the texts are written into the script
  between single quotes as they are.  The fixed rest of the page is left out.
\<close>

definition squoted :: "string \<Rightarrow> string" where
  "squoted s = [CHR 0x27] @ s @ [CHR 0x27]"

definition popup_message :: "string \<Rightarrow> string \<Rightarrow> string \<Rightarrow> bool \<Rightarrow> string" where
  "popup_message memberID traktUsername newStateToken allAuthorized =
     ''{type: '' @ squoted ''family_member_authorized'' @ '', member_id: '' @ squoted memberID @ '', trakt_username: '' @ squoted traktUsername @
     '', state: '' @ squoted newStateToken @ '', all_authorized: '' @ (if allAuthorized then ''true'' else ''false'') @ ''}''"

text \<open>The member of the session with the given identifier is updated in place.\<close>

fun update_first :: "('a \<Rightarrow> bool) \<Rightarrow> ('a \<Rightarrow> 'a) \<Rightarrow> 'a list \<Rightarrow> 'a list" where
  "update_first P f [] = []"
| "update_first P f (x # xs) = (if P x then f x # xs else x # update_first P f xs)"

text \<open>
  The sessions of one family share one object for the group (a pointer), so an update shows in all of
  them; they are the sessions with the group's identifier.
\<close>

definition update_shared :: "FamilyGroupState \<Rightarrow> authStateStore \<Rightarrow> authStateStore" where
  "update_shared g st = (\<lambda>t. map_option (\<lambda>a. if map_option fs_GroupID (as_FamilyGroup a) = Some (fs_GroupID g)
     then a\<lparr>as_FamilyGroup := Some g\<rparr> else a) (st t))"

text \<open>The tokens of the member: the check for a second member with the same name, then the update.\<close>

definition name_taken :: "string \<Rightarrow> string \<Rightarrow> GroupMember list result \<Rightarrow> bool" where
  "name_taken memberID traktUsername members = (case members of
     Inl _ \<Rightarrow> False
   | Inr ms \<Rightarrow> list_ex (\<lambda>m. gm_ID m \<noteq> memberID \<and> EqualFold (TraktUsername m) traktUsername) ms)"

definition store_member :: "env \<Rightarrow> gotime \<Rightarrow> string \<Rightarrow> string \<Rightarrow> string \<Rightarrow> string \<Rightarrow> pg \<Rightarrow> string option \<times> pg" where
  "store_member e tokenExpiry memberID traktUsername accessToken refreshToken s =
     (case GetGroupMember e memberID s of
        (Inl _, s1) \<Rightarrow> (Some ''Member not found. Please restart the wizard.'', s1)
      | (Inr m, s1) \<Rightarrow> (case UpdateGroupMember e (Some (m\<lparr>TraktUsername := traktUsername, gm_AccessToken := accessToken,
              gm_RefreshToken := refreshToken, gm_TokenExpiry := Some tokenExpiry, AuthorizationStatus := ''authorized''\<rparr>)) s1 of
          ((Some _, _), s2) \<Rightarrow> (Some ''Failed to save authorization. Please try again.'', s2)
        | ((None, _), s2) \<Rightarrow> (None, s2)))"

definition finish_member :: "gotime \<Rightarrow> string list \<Rightarrow> string \<Rightarrow> string \<Rightarrow> authState \<Rightarrow> FamilyGroupState \<Rightarrow> authStateStore \<Rightarrow>
    (web_reply \<times> authStateStore) option" where
  "finish_member now ids memberID traktUsername stateData grp st =
     (let grp' = grp\<lparr>fs_Members := update_first (\<lambda>m. fm_MemberID m = memberID)
            (\<lambda>m. m\<lparr>fm_TraktUsername := traktUsername, fm_AuthorizationStatus := ''authorized'', AuthorizedAt := now\<rparr>) (fs_Members grp)\<rparr>;
          allAuthorized = list_all (\<lambda>m. fm_AuthorizationStatus m = ''authorized'') (fs_Members grp')
      in map_option (\<lambda>(newStateToken, st'). (Html (popup_message memberID traktUsername newStateToken allAuthorized), st'))
           (Create now ids (stateData\<lparr>as_FamilyGroup := Some grp'\<rparr>) (update_shared grp' st)))"

definition authorize_member :: "env \<Rightarrow> server \<Rightarrow> 'n world TraktEnv \<Rightarrow> string list \<Rightarrow> string \<Rightarrow> authState \<Rightarrow> FamilyGroupState \<Rightarrow>
    FamilyMemberState \<Rightarrow> (string \<times> json) list \<Rightarrow> string \<Rightarrow> string \<Rightarrow> 'n world \<times> authStateStore \<Rightarrow>
    (web_reply \<times> 'n world \<times> authStateStore) option" where
  "authorize_member e srv te ids selfRoot stateData grp member result accessToken refreshToken = (\<lambda>(w, st).
     (let memberID = fm_MemberID member;
          (named, (s, l, n)) = fetchDisplayNameFunc srv te accessToken w;
          traktUsername = (case named of Inr (name, _) \<Rightarrow> if TrimSpace name = [] then fm_TempLabel member else name
                                       | Inl _ \<Rightarrow> fm_TempLabel member);
          failed = (\<lambda>params s. Some (family_redirect selfRoot (fs_GroupID grp) ([(''result'', ''error''), (''member_id'', memberID)] @ params),
             (s, l, n), st));
          finish = (\<lambda>s. map_option (\<lambda>(reply, st'). (reply, (s, l, n), st'))
             (finish_member (te_now te (s, l, n)) ids memberID traktUsername stateData grp st))
      in if \<not> sv_storage srv then finish s
         else let (members, s1) = ListGroupMembers e (fs_GroupID grp) s in
           if name_taken memberID traktUsername members
           then failed [(''label'', fm_TempLabel member), (''error'', ''Trakt account '' @ squoted traktUsername @
             '' is already authorized for this family group.'')] s1
           else case store_member e (calculateTokenExpiry (te_now te (s1, l, n)) result) memberID traktUsername accessToken refreshToken s1 of
             (Some message, s2) \<Rightarrow> failed [(''error'', message)] s2
           | (None, s2) \<Rightarrow> finish s2))"

definition authorizeFamilyMember :: "env \<Rightarrow> server \<Rightarrow> 'n world TraktEnv \<Rightarrow> string list \<Rightarrow> web_request \<Rightarrow>
    'n world \<times> authStateStore \<Rightarrow> (web_reply \<times> 'n world \<times> authStateStore) option" where
  "authorizeFamilyMember e srv te ids r = (\<lambda>(w, st).
     (let stateToken = TrimSpace (arg r ''state''); code = TrimSpace (arg r ''code''); memberID = TrimSpace (arg r ''member_id'');
          selfRoot = SelfRoot srv r;
          (stateData, found) = Get (te_now te w) stateToken st;
          stop = (\<lambda>familyGroupID params. Some (family_redirect selfRoot familyGroupID ((''result'', ''error'') # params), w, st))
      in case (if found then as_FamilyGroup stateData else None) of
           None \<Rightarrow> stop [] [(''error'', ''Authorization session expired. Please start again.'')]
         | Some grp \<Rightarrow>
             (if memberID = [] then stop (fs_GroupID grp) [(''error'', ''Missing member ID. Please try again.'')]
              else case find (\<lambda>m. fm_MemberID m = memberID) (fs_Members grp) of
                None \<Rightarrow> stop (fs_GroupID grp) [(''error'', ''Member not found in session.'')]
              | Some member \<Rightarrow>
                  (if code = []
                   then (if \<not> sv_trakt srv then stop (fs_GroupID grp) [(''error'', ''Trakt service unavailable'')]
                         else Some (trakt_login (ClientId te) selfRoot memberID stateToken (TrimSpace (arg r ''prompt'')), w, st))
                   else let ((result, good), w1) = authRequestFunc srv te (member_uri selfRoot memberID) [] code [] ''authorization_code'' w;
                            refused = (\<lambda>message. Some (family_redirect selfRoot (fs_GroupID grp) [(''result'', ''error''),
                              (''member_id'', memberID), (''label'', fm_TempLabel member), (''error'', message)], w1, st))
                     in if \<not> good then refused (family_user_error result)
                        else case result_tokens result of
                          None \<Rightarrow> refused ''Trakt response missing tokens. Please retry.''
                        | Some (accessToken, refreshToken) \<Rightarrow>
                            authorize_member e srv te ids selfRoot stateData grp member result accessToken refreshToken (w1, st)))))"

section \<open>Exchanging a code\<close>

definition code_req :: "'w TraktEnv \<Rightarrow> string \<Rightarrow> string \<Rightarrow> http_request" where
  "code_req te redirectURI code = \<lparr>req_Method = ''POST'', req_URL = ''https://api.trakt.tv/oauth/token'', req_Authorization = None,
     req_APIKey = None, req_Body = Some (JObj [(''client_id'', JStr (ClientId te)), (''client_secret'', JStr (clientSecret te)),
       (''code'', JStr code), (''grant_type'', JStr ''authorization_code''), (''redirect_uri'', JStr redirectURI),
       (''refresh_token'', JStr [])])\<rparr>"

lemma exchange_grants:
  assumes "te_http te (code_req te uri code) w = (ans, w')" "grants ans a t k" "sv_trakt srv" "a \<noteq> []" "t \<noteq> []"
  shows "\<exists>kvs. authRequestFunc srv te uri username code [] ''authorization_code'' w = ((kvs, True), w') \<and>
    result_tokens kvs = Some (a, t) \<and> json_get kvs ''expires_in'' = Some (JInt k)"
  using assms by (auto simp: authRequestFunc_def AuthRequest_def code_req_def grants_def result_tokens_def)

lemma exchange_refuses:
  assumes "te_http te (code_req te uri code) w = (ans, w')" "refuses ans" "sv_trakt srv"
  shows "\<exists>kvs. authRequestFunc srv te uri username code [] ''authorization_code'' w = ((kvs, False), w')"
  using assms by (auto simp: authRequestFunc_def AuthRequest_def code_req_def refuses_def auth_failure_def split: sum.splits prod.splits)

lemma fetch_pg: "\<exists>named n'. fetchDisplayNameFunc srv (pg_trakt f e net p ur c sec) tok (s, l, n) = (named, (s, l, n'))"
  by (auto simp: fetchDisplayNameFunc_def FetchDisplayName_def Let_def split: sum.splits prod.splits option.splits)

section \<open>Renewals\<close>

text \<open>What the user table and Trakt have to offer for a renewal of user \<open>uid\<close>, named \<open>stored\<close>.\<close>

definition renewable :: "env \<Rightarrow> string \<Rightarrow> string \<Rightarrow> pg \<Rightarrow> bool" where
  "renewable e uid stored s \<longleftrightarrow> db_up e s \<and> uid \<noteq> [] \<and> stored \<noteq> [] \<and>
     (\<exists>row. find (\<lambda>r. u_id r = uid) (users s) = Some row \<and> stored = ToLower (TrimSpace (u_username row)))"

lemma renewable_GetUser:
  assumes "renewable e uid stored s"
  shows "\<exists>user. GetUser e uid s = Some (Some user, sent s) \<and> ToLower (TrimSpace (Username user)) = stored" "renewable e uid stored (sent s)"
proof -
  obtain row where row: "find (\<lambda>r. u_id r = uid) (users s) = Some row" "stored = ToLower (TrimSpace (u_username row))"
    using assms by (auto simp: renewable_def)
  have "GetUser e uid s = Some (Some (user_of_row row), sent s)" using assms row by (simp add: renewable_def db_up_def GetUser_healthy)
  then show "\<exists>user. GetUser e uid s = Some (Some user, sent s) \<and> ToLower (TrimSpace (Username user)) = stored"
    using row(2) by (auto simp: user_of_row_def Let_def TrimSpace_ToLower)
  show "renewable e uid stored (sent s)" using assms by (auto simp: renewable_def db_up_def users_ok_def intro: healthy_Suc)
qed

definition tokens_stored :: "env \<Rightarrow> string \<Rightarrow> string \<Rightarrow> string \<Rightarrow> string \<Rightarrow> pg \<Rightarrow> pg \<Rightarrow> bool" where
  "tokens_stored e uid stored a t s s' \<longleftrightarrow>
     (\<exists>v s''. GetUser e uid s' = Some (Some v, s'') \<and> Username v = stored \<and> AccessToken v = a \<and> RefreshToken v = t) \<and>
     (\<forall>i. i \<noteq> uid \<longrightarrow> map_option fst (GetUser e i s') = map_option fst (GetUser e i s))"

lemma tokens_stored_cong:
  assumes "healthy e s" "healthy e u" "users u = users s"
  shows "tokens_stored e uid stored a t u s' = tokens_stored e uid stored a t s s'"
  using assms by (simp add: tokens_stored_def GetUser_healthy)

lemma renewable_healthy: "renewable e uid stored s \<Longrightarrow> healthy e s"
  by (simp add: renewable_def db_up_def)

lemma persist_renews:
  assumes "renewable e uid stored s"
  shows "\<exists>u' s'. persistAuthorizedUser e newID now stored uid a t dn ex s = Some (Inr (u', True), s') \<and> usr_ID u' = uid \<and> healthy e s' \<and>
    tokens_stored e uid stored a t s s'"
proof -
  obtain row where row: "find (\<lambda>r. u_id r = uid) (users s) = Some row" "stored = ToLower (TrimSpace (u_username row))"
    "db_up e s" "uid \<noteq> []" "stored \<noteq> []" using assms by (auto simp: renewable_def)
  have n: "stored = ToLower (TrimSpace (ToLower (u_username row)))" "stored = ToLower (TrimSpace stored)"
    by (simp_all add: row(2) TrimSpace_ToLower)
  from persistAuthorizedUser_renews [OF row(3,1,4) n(1) row(5) n(2), of newID now a t dn ex] show ?thesis
    by (simp only: simp_thms if_False tokens_stored_def) blast
qed

lemma renewal_user_found:
  assumes "renewable e uid stored s" "sv_storage srv" "fl_mode f = ''renew''" "fl_id f = uid"
  shows "\<exists>user. renewal_user e srv f s = Some ((Some user, f\<lparr>fl_username := stored\<rparr>), sent s)"
proof -
  obtain user where "GetUser e uid s = Some (Some user, sent s)" "ToLower (TrimSpace (Username user)) = stored"
    using renewable_GetUser(1) [OF assms(1)] by blast
  moreover have "uid \<noteq> []" "stored \<noteq> []" using assms(1) by (simp_all add: renewable_def)
  ultimately show ?thesis using assms(2-4) by (simp add: renewal_user_def)
qed

lemma authorize_finish_renews:
  assumes te: "te = pg_trakt fuel e net parse url c sec" and srv: "sv_storage srv" and db: "renewable e uid stored s"
    and flow: "fl_username f = stored" "fl_id f = uid"
  shows "\<exists>user' dn x p s' n'. authorize_finish e srv te newID addr f kvs a t (s, l, n) =
      Some (landing addr (not_blank (success_params f user' True dn x p)), (s', l, n')) \<and> usr_ID user' = uid \<and> healthy e s' \<and>
    tokens_stored e uid stored a t s s'"
proof -
  obtain named n' where named: "fetchDisplayNameFunc srv te a (s, l, n) = (named, (s, l, n'))"
    using fetch_pg [of srv fuel e net parse url c sec a s l n] te by auto
  obtain dn x p where dn: "(case named of Inl _ \<Rightarrow> ([], [], True) | Inr (name, truncated) \<Rightarrow>
      (if TrimSpace name \<noteq> [] then (TrimSpace name, if truncated then ''truncated'' else [], False) else ([], [], True))) = (dn, x, p)"
    by (rule prod_cases3)
  obtain u' s' where "persistAuthorizedUser e newID (te_now te (s, l, n')) stored uid a t (if dn = [] then None else Some dn)
      (calculateTokenExpiry (te_now te (s, l, n')) kvs) s = Some (Inr (u', True), s')"
    "usr_ID u' = uid" "healthy e s'" "tokens_stored e uid stored a t s s'"
    using persist_renews [OF db] by blast
  then show ?thesis using named dn flow srv by (auto simp: authorize_finish_def Let_def)
qed

lemma authorize_renews:
  assumes te: "te = pg_trakt fuel e net parse url c sec" and srv: "sv_storage srv" "sv_trakt srv" and db: "renewable e uid stored s"
    and flow: "authorize_flow (env_now e (stmt_no s)) draw r st = (Some f, st')" "fl_mode f = ''renew''" "fl_id f = uid"
    and code: "TrimSpace (arg r ''code'') = code" "code \<noteq> []"
    and net: "net (code_req te (SelfRoot srv r @ ''/manual/authorize'') code) n = (ans, n1)" "grants ans a t k" "a \<noteq> []" "t \<noteq> []"
  shows "\<exists>params s' n'. authorize e srv te draw newID r ((s, l, n), st) =
      Some (landing (SelfRoot srv r) (not_blank ((''result'', ''success'') # params)), (s', l, n'), st') \<and> tokens_stored e uid stored a t s s'"
proof -
  let ?f = "f\<lparr>fl_username := stored\<rparr>"
  obtain user where ren: "renewal_user e srv f s = Some ((Some user, ?f), sent s)"
    using renewal_user_found [OF db srv(1) flow(2,3)] by blast
  have ne: "uid \<noteq> []" "stored \<noteq> []" using db by (simp_all add: renewable_def)
  have "te_http te (code_req te (SelfRoot srv r @ ''/manual/authorize'') code) (sent s, l, n) = (ans, (sent s, l, n1))"
    using net(1) by (simp add: te)
  from exchange_grants [OF this net(2) srv(2) net(3,4), of stored] obtain kvs where kvs:
    "authRequestFunc srv te (SelfRoot srv r @ ''/manual/authorize'') stored code [] ''authorization_code'' (sent s, l, n) = ((kvs, True), (sent s, l, n1))"
    "result_tokens kvs = Some (a, t)" by blast
  obtain user' dn x p s' n' where fin: "authorize_finish e srv te newID (SelfRoot srv r) ?f kvs a t (sent s, l, n1) =
      Some (landing (SelfRoot srv r) (not_blank (success_params ?f user' True dn x p)), (s', l, n'))" "tokens_stored e uid stored a t (sent s) s'"
    using authorize_finish_renews [OF te srv(1) renewable_GetUser(2) [OF db], of ?f newID "SelfRoot srv r" kvs a t l n1] flow by auto
  have "tokens_stored e uid stored a t s s'"
    using fin(2) tokens_stored_cong [OF renewable_healthy [OF db] renewable_healthy [OF renewable_GetUser(2) [OF db]]] by simp
  moreover have "\<exists>params. success_params ?f user' True dn x p = (''result'', ''success'') # params"
    by (simp add: success_params_def Let_def)
  ultimately show ?thesis using fin(1) flow ren ne code kvs by (fastforce simp: authorize_def te Let_def)
qed

text \<open>
  C11. A renewal needs no session: a request to \<open>/authorize\<close> that carries no session but \<open>mode=renew\<close>, the identifier
  of any user of the database and a code Trakt accepts replaces that user's tokens by those of the code, whoever
  sends it and whatever user name it gives.  The sender's Trakt account then receives what that user watches.
\<close>

theorem renewal_needs_no_session:
  assumes te: "te = pg_trakt fuel e net parse url c sec" and srv: "sv_storage srv" "sv_trakt srv" and db: "renewable e uid stored s"
    and req: "arg r ''state'' = []" "arg r ''mode'' = ''renew''" "TrimSpace (arg r ''id'') = uid"
    and code: "TrimSpace (arg r ''code'') = code" "code \<noteq> []"
    and net: "net (code_req te (SelfRoot srv r @ ''/manual/authorize'') code) n = (ans, n1)" "grants ans a t k" "a \<noteq> []" "t \<noteq> []"
  shows "\<exists>params s' n'. authorize e srv te draw newID r ((s, l, n), st) =
      Some (landing (SelfRoot srv r) (not_blank ((''result'', ''success'') # params)), (s', l, n'), st) \<and> tokens_stored e uid stored a t s s'"
proof -
  let ?f = "(query_flow r)\<lparr>fl_correlation := draw 0\<rparr>"
  have mode: "ToLower (TrimSpace ''renew'') = ''renew''" by code_simp
  then have flow: "authorize_flow (env_now e (stmt_no s)) draw r st = (Some ?f, st)" "fl_mode ?f = ''renew''" "fl_id ?f = uid"
    using req by (simp_all add: authorize_flow_def query_flow_def)
  show ?thesis by (rule authorize_renews [OF te srv db flow code net])
qed

text \<open>A running server, and a request with a query.\<close>

definition running :: server where
  "running = \<lparr>sv_storage = True, sv_trakt = True, trustProxy = False\<rparr>"

definition demo_trakt :: "unit world TraktEnv" where
  "demo_trakt = pg_trakt 1 demo_env granting_net (\<lambda>_. None) (\<lambda>_. None) ''id'' ''sec''"

lemma granting_net_grants: "\<exists>ans. granting_net req () = (ans, ()) \<and> grants ans ''a2'' ''r2'' 7776000"
  by (simp add: granting_net_def grants_def json_get_def)

lemma demo_renewable: "renewable demo_env ''u'' ''bob'' demo_db"
  by (simp add: renewable_def db_up_def users_ok_def demo_db_def demo_user_row_def) code_simp

theorem renewal_needs_no_session_witness:
  "\<exists>reply w' v s''. authorize demo_env running demo_trakt (\<lambda>_. ''x'') ''new''
      (empty_request\<lparr>wr_Query := [(''mode'', ''renew''), (''id'', ''u''), (''username'', ''mallory''), (''code'', ''c'')]\<rparr>)
      ((demo_db, NewQueueEventLog 100, ()), newAuthStateStore) = Some (reply, w', newAuthStateStore) \<and>
     GetUser demo_env ''u'' (fst w') = Some (Some v, s'') \<and> AccessToken v = ''a2''"
proof -
  let ?r = "empty_request\<lparr>wr_Query := [(''mode'', ''renew''), (''id'', ''u''), (''username'', ''mallory''), (''code'', ''c'')]\<rparr>"
  have srv: "sv_storage running" "sv_trakt running" by (simp_all add: running_def)
  have req: "arg ?r ''state'' = []" "arg ?r ''mode'' = ''renew''" "TrimSpace (arg ?r ''id'') = ''u''" "TrimSpace (arg ?r ''code'') = ''c''" "''c'' \<noteq> []"
    by code_simp+
  obtain ans where ans: "granting_net (code_req demo_trakt (SelfRoot running ?r @ ''/manual/authorize'') ''c'') () = (ans, ())"
    "grants ans ''a2'' ''r2'' 7776000" using granting_net_grants by blast
  from renewal_needs_no_session [OF demo_trakt_def srv demo_renewable req ans, of "\<lambda>_. ''x''" "''new''" "NewQueueEventLog 100" newAuthStateStore]
  show ?thesis by (fastforce simp: tokens_stored_def)
qed

text \<open>
  C10. Renewing through a session: for a user of the database \<open>createAuthState\<close> opens a session, and a request to
  \<open>/authorize\<close> that names the session within fifteen minutes and carries a code Trakt accepts stores the tokens
  for exactly the user chosen, whatever else it says, and closes the session; a second request with it is sent
  back to the start and changes nothing.
\<close>

theorem renewal_session:
  assumes te: "te = pg_trakt fuel e net parse url c sec" and srv: "sv_storage srv" "sv_trakt srv" and db: "renewable e uid stored s"
    and start: "wr_Method q = ''POST''" "Option.bind (wr_Body q) dec_state_request = Some (''renew'', name, uid)" "TrimSpace uid = uid"
    and ids: "fresh_token ids st = Some token" "TrimSpace token = token" "token \<noteq> []"
    and req: "arg r ''state'' = token" and code: "TrimSpace (arg r ''code'') = code" "code \<noteq> []"
    and clock: "env_now e (Suc (stmt_no s)) \<noteq> 0" "stmt_no s < m" "env_now e m - env_now e (Suc (stmt_no s)) \<le> 15 * Minute"
    and net: "net (code_req te (SelfRoot srv r @ ''/manual/authorize'') code) n = (ans, n1)" "grants ans a t k" "a \<noteq> []" "t \<noteq> []"
  shows "\<exists>s1 st1 params s' n'. createAuthState e srv draw ids q (s, st) = Some (Json 200 (JObj [(''state'', JStr token)]), s1, st1) \<and>
    authorize e srv te draw newID r ((s1\<lparr>stmt_no := m\<rparr>, l, n), st1) =
      Some (landing (SelfRoot srv r) (not_blank ((''result'', ''success'') # params)), (s', l, n'), st) \<and> tokens_stored e uid stored a t s s' \<and>
    authorize e srv te draw' newID' r (w, st) = Some (session_expired (SelfRoot srv r) r, w, st)"
proof -
  obtain user where user: "GetUser e uid s = Some (Some user, sent s)" "ToLower (TrimSpace (Username user)) = stored"
    using renewable_GetUser(1) [OF db] by blast
  have ne: "uid \<noteq> []" "stored \<noteq> []" using db by (simp_all add: renewable_def)
  let ?now = "env_now e (stmt_no (sent s))" and ?s = "(sent s)\<lparr>stmt_no := m\<rparr>"
  let ?a = "\<lparr>as_Mode = ''renew'', as_Username = stored, SelectedID = uid, CorrelationID = draw 0, Created = ?now, as_FamilyGroup = None\<rparr>"
  have mode: "ToLower (TrimSpace ''renew'') = ''renew''" "TrimSpace ''renew'' \<noteq> []" by code_simp+
  have created: "createAuthState e srv draw ids q (s, st) = Some (Json 200 (JObj [(''state'', JStr token)]), sent s, st(token \<mapsto> ?a))"
    using start srv user ne ids clock mode by (simp add: createAuthState_def new_session_def Create_def Let_def)
  have free: "st token = None" using fresh_token_Some [OF ids(1)] by simp
  then have gone: "(st(token \<mapsto> ?a))(token := None) = st" by (auto simp: fun_upd_idem)
  let ?f0 = "session_flow ?a (query_flow r)"
  let ?f = "if fl_mode ?f0 = ''renew'' \<and> fl_correlation ?f0 = [] then ?f0\<lparr>fl_correlation := draw 0\<rparr> else ?f0"
  have flow: "authorize_flow (env_now e (stmt_no ?s)) draw r (st(token \<mapsto> ?a)) = (Some ?f, st)"
    using req ids gone clock by (simp add: authorize_flow_def Consume_def)
  have f: "fl_mode ?f = ''renew''" "fl_id ?f = uid" using mode ne start(3) by (simp_all add: session_flow_def)
  have later: "renewable e uid stored ?s" using db clock(2) by (auto simp: renewable_def db_up_def users_ok_def intro: healthy_Suc)
  obtain params s' n' where "authorize e srv te draw newID r ((?s, l, n), st(token \<mapsto> ?a)) =
      Some (landing (SelfRoot srv r) (not_blank ((''result'', ''success'') # params)), (s', l, n'), st)" "tokens_stored e uid stored a t ?s s'"
    using authorize_renews [OF te srv later flow f code net] by blast
  moreover have "tokens_stored e uid stored a t s s'"
    using calculation(2) tokens_stored_cong [OF renewable_healthy [OF db] renewable_healthy [OF later]] by simp
  moreover have "authorize e srv te draw' newID' r (w, st) = Some (session_expired (SelfRoot srv r) r, w, st)"
    using req ids free by (cases w) (simp add: authorize_def authorize_flow_def Consume_def)
  ultimately show ?thesis using created by blast
qed

theorem renewal_session_witness:
  "\<exists>s1 st1 reply w'. createAuthState demo_env running (\<lambda>_. ''x'') [''t1''] (empty_request\<lparr>wr_Method := ''POST'',
       wr_Body := Some (JObj [(''mode'', JStr ''renew''), (''id'', JStr ''u'')])\<rparr>) (demo_db, newAuthStateStore) =
       Some (Json 200 (JObj [(''state'', JStr ''t1'')]), s1, st1) \<and>
     authorize demo_env running demo_trakt (\<lambda>_. ''x'') ''new'' (empty_request\<lparr>wr_Query := [(''state'', ''t1''), (''code'', ''c'')]\<rparr>)
       ((s1\<lparr>stmt_no := 9\<rparr>, NewQueueEventLog 100, ()), st1) = Some (reply, w', newAuthStateStore)"
proof -
  let ?q = "empty_request\<lparr>wr_Method := ''POST'', wr_Body := Some (JObj [(''mode'', JStr ''renew''), (''id'', JStr ''u'')])\<rparr>"
    and ?r = "empty_request\<lparr>wr_Query := [(''state'', ''t1''), (''code'', ''c'')]\<rparr>"
  have srv: "sv_storage running" "sv_trakt running" by (simp_all add: running_def)
  have q: "wr_Method ?q = ''POST''" "Option.bind (wr_Body ?q) dec_state_request = Some (''renew'', [], ''u'')" "TrimSpace ''u'' = ''u''"
    by code_simp+
  have t: "fresh_token [''t1''] newAuthStateStore = Some ''t1''" by (simp add: newAuthStateStore_def)
  have r: "TrimSpace ''t1'' = ''t1''" "''t1'' \<noteq> []" "arg ?r ''state'' = ''t1''" "TrimSpace (arg ?r ''code'') = ''c''" "''c'' \<noteq> []" by code_simp+
  have m: "env_now demo_env (Suc (stmt_no demo_db)) \<noteq> 0" "stmt_no demo_db < 9"
    "env_now demo_env 9 - env_now demo_env (Suc (stmt_no demo_db)) \<le> 15 * Minute"
    by (simp_all add: demo_env_def demo_db_def pg_empty_def time_defs)
  obtain ans where ans: "granting_net (code_req demo_trakt (SelfRoot running ?r @ ''/manual/authorize'') ''c'') () = (ans, ())"
    "grants ans ''a2'' ''r2'' 7776000" using granting_net_grants by blast
  from renewal_session [OF demo_trakt_def srv demo_renewable q t r m ans, of "\<lambda>_. ''x''" "''new''" "NewQueueEventLog 100"]
  show ?thesis by simp blast
qed

end
