(* ===== verification/Family_Flow.thy ===== *)
theory Family_Flow
  imports Authorize
begin

text \<open>
  How a family gets its tokens: \<open>createFamilyAuthState\<close> sets up the group, its pending members and a session, and
  \<open>authorizeFamilyMember\<close> stores the tokens of one member after the other.
\<close>

section \<open>Setting up a family\<close>

text \<open>The database \<open>s\<close> has the tables of \<open>s0\<close> and in addition one group with new members.\<close>

definition grown :: "FamilyGroup \<Rightarrow> pg \<Rightarrow> member_row list \<Rightarrow> pg \<Rightarrow> bool" where
  "grown g s0 rows s \<longleftrightarrow> same_tables s0 (s\<lparr>family_groups := family_groups s0, group_members := group_members s0\<rparr>) \<and>
     family_groups s = family_groups s0 @ [g] \<and> group_members s = group_members s0 @ rows \<and>
     (\<forall>r \<in> set rows. m_group r = fg_ID g) \<and> m_id ` set rows \<inter> m_id ` set (group_members s0) = {}"

lemma schema_refs:
  assumes "schema_ok s"
  shows "r \<in> set (retry_queue_items s) \<Longrightarrow> r_group r \<in> fg_ID ` set (family_groups s)"
    "r \<in> set (retry_queue_items s) \<Longrightarrow> r_member r \<in> m_id ` set (group_members s)"
    "n \<in> set (notifications s) \<Longrightarrow> n_group n \<in> fg_ID ` set (family_groups s)"
    "n \<in> set (notifications s) \<Longrightarrow> set_option (n_member n) \<subseteq> m_id ` set (group_members s)"
    "m \<in> set (group_members s) \<Longrightarrow> m_group m \<in> fg_ID ` set (family_groups s)"
  using assms by (auto simp: schema_ok_def table_ok_defs)

lemma grown_delete:
  assumes "grown g s0 rows s" "schema_ok s0" "gid \<notin> fg_ID ` set (family_groups s0)" "gid = fg_ID g"
  shows "same_tables s0 (delete_group gid s)"
proof -
  from assms(1,4) have g: "fg_ID g = gid" "same_tables s0 (s\<lparr>family_groups := family_groups s0, group_members := group_members s0\<rparr>)"
    "family_groups s = family_groups s0 @ [g]" "group_members s = group_members s0 @ rows"
    and rows: "\<forall>r \<in> set rows. m_group r = gid" "m_id ` set rows \<inter> m_id ` set (group_members s0) = {}"
    by (auto simp: grown_def)
  have refs: "m_group r \<noteq> gid" if "r \<in> set (group_members s0)" for r
    using assms(3) schema_refs(5) [OF assms(2) that] by blast
  have gone: "m_id ` {r \<in> set (group_members s). m_group r = gid} = m_id ` set rows" using rows(1) refs by (auto simp: g(4))
  have rest: "retry_queue_items s = retry_queue_items s0" "notifications s = notifications s0"
    using g(2) by (cases s; cases s0; simp add: same_tables_def)+
  have keep: "filter (\<lambda>r. m_group r \<noteq> gid) (group_members s) = group_members s0" "filter (\<lambda>g. fg_ID g \<noteq> gid) (family_groups s) = family_groups s0"
    using rows(1) refs assms(3) by (auto simp: g(1,3,4) filter_empty_conv intro!: filter_True)
  have "r_group r \<noteq> gid \<and> r_member r \<notin> m_id ` set rows" if "r \<in> set (retry_queue_items s0)" for r
    using assms(3) rows(2) schema_refs(1,2) [OF assms(2) that] by blast
  then have retry: "filter (\<lambda>r. r_member r \<notin> m_id ` set rows) (retry_queue_items s) = retry_queue_items s"
    "filter (\<lambda>r. r_group r \<noteq> gid) (retry_queue_items s) = retry_queue_items s" by (simp_all add: rest filter_id_conv)
  have "n_group r \<noteq> gid \<and> (\<forall>m \<in> set_option (n_member r). m \<notin> m_id ` set rows)" if "r \<in> set (notifications s0)" for r
    using assms(3) rows(2) schema_refs(3,4) [OF assms(2) that] by blast
  then have notif: "filter (\<lambda>r. \<forall>m \<in> set_option (n_member r). m \<notin> m_id ` set rows) (notifications s) = notifications s"
    "filter (\<lambda>r. n_group r \<noteq> gid) (notifications s) = notifications s" by (simp_all add: rest filter_id_conv)
  have "delete_members (\<lambda>r. m_group r = gid) s = s\<lparr>group_members := group_members s0\<rparr>"
    unfolding delete_members_def Let_def gone retry notif keep by simp
  then have "delete_group gid s = s\<lparr>family_groups := family_groups s0, group_members := group_members s0\<rparr>"
    using keep retry notif by (simp add: delete_group_def Let_def)
  then show ?thesis using g(2) by simp
qed

lemma AddGroupMember_pending:
  assumes "healthy e s" "TrimSpace gid = gid" "gid \<noteq> []" "mid \<noteq> []" "TrimSpace label = label"
  shows "label = [] \<or> 100 < length label \<Longrightarrow> \<exists>x m. AddGroupMember e (Some (pending_member mid gid label now)) s = ((Some x, m), s)"
    "label \<noteq> [] \<Longrightarrow> length label \<le> 100 \<Longrightarrow> gid \<in> fg_ID ` set (family_groups s) \<Longrightarrow> mid \<notin> m_id ` set (group_members s) \<Longrightarrow>
     \<exists>m created. AddGroupMember e (Some (pending_member mid gid label now)) s = ((None, Some m), (sent s)\<lparr>group_members := group_members s @
       [\<lparr>m_id = mid, m_group = gid, m_label = label, m_trakt = None, m_access = None, m_refresh = None, m_expiry = None,
         m_status = ''pending'', m_created = created\<rparr>]\<rparr>) \<and> TempLabel m = label"
proof -
  have p: "TrimSpace (ToLower ''pending'') = ''pending''" by code_simp
  let ?m = "pending_member mid gid label now"
  have m: "lower_trakt (default_status ?m) = ?m" "GroupMember_Normalize ?m = ?m" "gm_ID ?m = mid"
    using assms p by (simp_all add: pending_member_def lower_trakt_def default_status_def GroupMember_Normalize_def)
  have st: "isValidGroupMemberStatus ''pending''" "''pending'' \<noteq> GroupMemberStatusAuthorized"
    by (simp_all add: isValidGroupMemberStatus_def member_status_defs)
  have d: "default_status ?m = ?m" "lower_trakt ?m = ?m" by (simp_all add: pending_member_def default_status_def lower_trakt_def)
  {
    assume "label = [] \<or> 100 < length label"
    then show "\<exists>x m. AddGroupMember e (Some ?m) s = ((Some x, m), s)"
      using assms m d by (auto simp: AddGroupMember_def GroupMember_Validate_def Let_def pending_member_def split: prod.splits)
  }
  assume l: "label \<noteq> []" "length label \<le> 100" "gid \<in> fg_ID ` set (family_groups s)" "mid \<notin> m_id ` set (group_members s)"
  have v: "GroupMember_Validate (Some ?m) = (None, Some ?m)"
    using l assms m st by (simp add: GroupMember_Validate_def Let_def) (simp add: pending_member_def)
  have "sql e (\<lambda>_. insert_member (row_of_member e ?m t)) s = (Inr (), (sent s)\<lparr>group_members := group_members s @ [row_of_member e ?m t]\<rparr>)" for t
    using assms(1) l by (simp add: sql_eq insert_member_def guarded_def) (simp add: row_of_member_def pending_member_def)
  then show "\<exists>m created. AddGroupMember e (Some ?m) s = ((None, Some m), (sent s)\<lparr>group_members := group_members s @
       [\<lparr>m_id = mid, m_group = gid, m_label = label, m_trakt = None, m_access = None, m_refresh = None, m_expiry = None,
         m_status = ''pending'', m_created = created\<rparr>]\<rparr>) \<and> TempLabel m = label"
    using assms(4) d v m(3) by (auto simp: AddGroupMember_def Let_def row_of_member_def pending_member_def nullableString_def nullableTime_def)
qed

definition label_ok :: "string \<Rightarrow> bool" where
  "label_ok l \<longleftrightarrow> TrimSpace l \<noteq> [] \<and> length (TrimSpace l) \<le> 100"

definition pending_states :: "(nat \<Rightarrow> string) \<Rightarrow> nat \<Rightarrow> string list \<Rightarrow> FamilyMemberState list" where
  "pending_states draw i labels = map (\<lambda>(j, l). \<lparr>fm_MemberID = draw j, fm_TempLabel = TrimSpace l, fm_TraktUsername = [],
     fm_AuthorizationStatus = ''pending'', AuthorizedAt = 0\<rparr>) (enumerate i labels)"

definition pending_rows :: "(nat \<Rightarrow> string) \<Rightarrow> string \<Rightarrow> nat \<Rightarrow> string list \<Rightarrow> member_row list \<Rightarrow> bool" where
  "pending_rows draw gid i labels rows \<longleftrightarrow> list_all2 (\<lambda>(j, l) r. \<exists>created. r = \<lparr>m_id = draw j, m_group = gid, m_label = TrimSpace l,
     m_trakt = None, m_access = None, m_refresh = None, m_expiry = None, m_status = ''pending'', m_created = created\<rparr>) (enumerate i labels) rows"

lemma DeleteFamilyGroup_healthy:
  assumes "healthy e s" "TrimSpace gid = gid" "gid \<noteq> []"
  shows "snd (DeleteFamilyGroup e gid s) = delete_group gid (sent s)"
  using assms by (simp add: DeleteFamilyGroup_def sql_eq)

lemma grown_sent: "grown g s0 rows s \<Longrightarrow> grown g s0 rows (sent s)"
  by (auto simp: grown_def same_tables_def sent_def)

lemma grown_snoc:
  assumes "grown g s0 rows s" "m_group r = fg_ID g" "m_id r \<notin> m_id ` set (group_members s)"
  shows "grown g s0 (rows @ [r]) ((sent s)\<lparr>group_members := group_members s @ [r]\<rparr>)"
  using assms by (auto simp: grown_def same_tables_def sent_def)

lemma add_members_spec:
  assumes "grown g s0 rows s" "healthy e s" "schema_ok s0" "gid \<notin> fg_ID ` set (family_groups s0)" "TrimSpace gid = gid" "gid \<noteq> []"
    "\<forall>j \<in> {i..<i + length labels}. draw j \<noteq> [] \<and> draw j \<notin> m_id ` set (group_members s)" "distinct (map draw [i..<i + length labels])"
    "gid = fg_ID g"
  shows "\<exists>s'. healthy e s' \<and> (if list_all label_ok labels
    then add_members e draw gid i labels s = (Some (pending_states draw i labels), s') \<and>
      (\<exists>rows'. grown g s0 (rows @ rows') s' \<and> pending_rows draw gid i labels rows')
    else add_members e draw gid i labels s = (None, s') \<and> same_tables s0 s')"
  using assms
proof (induction labels arbitrary: i s rows)
  case Nil
  then show ?case by (intro exI [of _ s]) (auto simp: pending_states_def pending_rows_def)
next
  case (Cons label labels)
  let ?l = "TrimSpace label" and ?now = "env_now e (stmt_no s)"
  have mid: "draw i \<noteq> []" "draw i \<notin> m_id ` set (group_members s)" using Cons.prems(7) by auto
  have grp: "gid \<in> fg_ID ` set (family_groups s)" using Cons.prems(1,9) by (auto simp: grown_def)
  note add = AddGroupMember_pending [OF Cons.prems(2,5,6) mid(1) TrimSpace_idem [of label], of ?now]
  show ?case
  proof (cases "label_ok label")
    case True
    then obtain m created where a: "AddGroupMember e (Some (pending_member (draw i) gid ?l ?now)) s = ((None, Some m), (sent s)\<lparr>group_members :=
        group_members s @ [\<lparr>m_id = draw i, m_group = gid, m_label = ?l, m_trakt = None, m_access = None, m_refresh = None, m_expiry = None,
          m_status = ''pending'', m_created = created\<rparr>]\<rparr>)" "TempLabel m = ?l"
      using add(2) grp mid(2) by (auto simp: label_ok_def)
    let ?r = "\<lparr>m_id = draw i, m_group = gid, m_label = ?l, m_trakt = None, m_access = None, m_refresh = None, m_expiry = None,
      m_status = ''pending'', m_created = created\<rparr>" and ?s = "(sent s)\<lparr>group_members := group_members s @ [\<lparr>m_id = draw i, m_group = gid,
        m_label = ?l, m_trakt = None, m_access = None, m_refresh = None, m_expiry = None, m_status = ''pending'', m_created = created\<rparr>]\<rparr>"
    have g: "grown g s0 (rows @ [?r]) ?s" by (rule grown_snoc [OF Cons.prems(1)]) (use mid(2) Cons.prems(9) in simp_all)
    have h: "healthy e ?s" by (rule healthy_Suc [OF Cons.prems(2)]) simp
    have dist: "distinct (map draw [Suc i..<Suc i + length labels])" "draw i \<notin> draw ` {Suc i..<Suc i + length labels}"
      using Cons.prems(8) by (simp_all add: upt_conv_Cons del: upt_Suc)
    have fresh: "\<forall>j \<in> {Suc i..<Suc i + length labels}. draw j \<noteq> [] \<and> draw j \<notin> m_id ` set (group_members ?s)"
    proof
      fix j assume j: "j \<in> {Suc i..<Suc i + length labels}"
      then have "draw j \<noteq> draw i" using dist(2) by (metis imageI)
      then show "draw j \<noteq> [] \<and> draw j \<notin> m_id ` set (group_members ?s)" using Cons.prems(7) j by auto
    qed
    obtain s' where s': "healthy e s'" "if list_all label_ok labels
      then add_members e draw gid (Suc i) labels ?s = (Some (pending_states draw (Suc i) labels), s') \<and>
        (\<exists>rows'. grown g s0 ((rows @ [?r]) @ rows') s' \<and> pending_rows draw gid (Suc i) labels rows')
      else add_members e draw gid (Suc i) labels ?s = (None, s') \<and> same_tables s0 s'"
      using Cons.IH [OF g h Cons.prems(3-6) fresh dist(1) Cons.prems(9)] by blast
    show ?thesis
    proof (cases "list_all label_ok labels")
      case all: True
      with s'(2) obtain rows' where r: "add_members e draw gid (Suc i) labels ?s = (Some (pending_states draw (Suc i) labels), s')"
        "grown g s0 (rows @ ?r # rows') s'" "pending_rows draw gid (Suc i) labels rows'" by auto
      then have "pending_rows draw gid i (label # labels) (?r # rows')" by (simp add: pending_rows_def)
      with r s'(1) True all a show ?thesis by (auto simp: pending_states_def)
    next
      case False
      with s' a show ?thesis by (auto simp: True)
    qed
  next
    case False
    then obtain x m where a: "AddGroupMember e (Some (pending_member (draw i) gid ?l ?now)) s = ((Some x, m), s)"
      using add(1) by (auto simp: label_ok_def not_le)
    have "same_tables s0 (delete_group gid (sent s))" by (rule grown_delete [OF grown_sent [OF Cons.prems(1)] Cons.prems(3,4,9)])
    moreover have "healthy e (delete_group gid (sent s))"
      by (rule healthy_Suc [OF Cons.prems(2)]) (simp add: delete_group_def delete_members_def Let_def)
    ultimately show ?thesis using False a Cons.prems(2,5,6) by (simp add: DeleteFamilyGroup_healthy)
  qed
qed

lemma blank_label_None: "blank_label i labels = None \<longleftrightarrow> list_all (\<lambda>l. TrimSpace l \<noteq> []) labels"
  by (induction labels arbitrary: i) auto

lemma GetFamilyGroupByPlex_healthy:
  assumes "healthy e s" "TrimSpace plex = plex" "plex \<noteq> []"
  shows "GetFamilyGroupByPlex e plex s = (case find (\<lambda>g. PlexUsername g = ToLower plex) (family_groups s) of
    None \<Rightarrow> (Inl ErrFamilyGroupNotFound, sent s) | Some g \<Rightarrow> (Inr g, sent s))"
  using assms by (simp add: GetFamilyGroupByPlex_def sql_query_eq TrimSpace_ToLower split: option.split)

lemma CreateFamilyGroup_grown:
  assumes "healthy e s" "gid \<noteq> []" "gid \<notin> fg_ID ` set (family_groups s)" "TrimSpace plex = plex" "plex \<noteq> []"
    "ToLower plex \<notin> PlexUsername ` set (family_groups s)"
  shows "\<exists>g s'. CreateFamilyGroup e (Some \<lparr>fg_ID = gid, PlexUsername = plex, fg_CreatedAt = now, fg_UpdatedAt = now\<rparr>) s = ((None, Some g), s') \<and>
    grown g s [] s' \<and> healthy e s' \<and> fg_ID g = gid \<and> PlexUsername g = ToLower plex"
proof -
  let ?g = "\<lparr>fg_ID = gid, PlexUsername = plex, fg_CreatedAt = now, fg_UpdatedAt = now\<rparr>"
  let ?t = "env_timestamp e (env_dbnow e (stmt_no s))"
  let ?h = "\<lparr>fg_ID = gid, PlexUsername = ToLower plex, fg_CreatedAt = ?t, fg_UpdatedAt = ?t\<rparr>"
  have "FamilyGroup_Validate (Some ?g) = (None, Some (?g\<lparr>PlexUsername := ToLower plex\<rparr>))"
    using assms(4,5) by (simp add: FamilyGroup_Validate_def FamilyGroup_Normalize_def Let_def)
  moreover have "sql e (\<lambda>_. insert_group ?h) s = (Inr (), (sent s)\<lparr>family_groups := family_groups s @ [?h]\<rparr>)"
    using assms(1,3,6) by (simp add: sql_eq insert_group_def guarded_def)
  ultimately have "CreateFamilyGroup e (Some ?g) s = ((None, Some ?h), (sent s)\<lparr>family_groups := family_groups s @ [?h]\<rparr>)"
    using assms(2) by (simp add: CreateFamilyGroup_def Let_def)
  moreover have "grown ?h s [] ((sent s)\<lparr>family_groups := family_groups s @ [?h]\<rparr>)" by (auto simp: grown_def same_tables_def sent_def)
  moreover have "healthy e ((sent s)\<lparr>family_groups := family_groups s @ [?h]\<rparr>)" by (rule healthy_Suc [OF assms(1)]) simp
  ultimately show ?thesis by auto
qed

lemma same_tables_grown: "same_tables s t \<Longrightarrow> grown g t rows u \<Longrightarrow> grown g s rows u"
  by (cases s; cases t; cases u) (auto simp: same_tables_def grown_def)

text \<open>A complete request for a family, and what its acceptance leaves in the database and the sessions.\<close>

definition family_request :: "web_request \<Rightarrow> string \<Rightarrow> string list \<Rightarrow> bool" where
  "family_request r plex labels \<longleftrightarrow> wr_Method r = ''POST'' \<and> plex \<noteq> [] \<and> 2 \<le> length labels \<and> length labels \<le> 10 \<and>
     list_all (\<lambda>l. TrimSpace l \<noteq> []) labels \<and>
     (\<exists>mode p. Option.bind (wr_Body r) dec_family_request = Some (mode, p, labels) \<and> ToLower (TrimSpace mode) = ''family'' \<and> plex = TrimSpace p)"

definition family_pending :: "string \<Rightarrow> (nat \<Rightarrow> string) \<Rightarrow> string \<Rightarrow> string list \<Rightarrow> pg \<Rightarrow> pg \<Rightarrow> authStateStore \<Rightarrow> authStateStore \<Rightarrow> bool" where
  "family_pending token draw plex labels s s' st st' \<longleftrightarrow>
     (\<exists>g rows. grown g s rows s' \<and> fg_ID g = draw 0 \<and> PlexUsername g = ToLower plex \<and> pending_rows draw (draw 0) 1 labels rows) \<and>
     (\<exists>now. st' = st(token \<mapsto> \<lparr>as_Mode = ''family'', as_Username = [], SelectedID = [], CorrelationID = [], Created = now,
        as_FamilyGroup = Some \<lparr>fs_GroupID = draw 0, fs_PlexUsername = plex, fs_Members = pending_states draw 1 labels\<rparr>\<rparr>))"

lemma createFamily_refused:
  assumes "\<nexists>plex labels. family_request r plex labels"
  shows "\<exists>status message. createFamilyAuthState e srv draw ids r (s, st) = Some (writeJSONError status message, s, st)"
proof (cases "Option.bind (wr_Body r) dec_family_request")
  case None
  then show ?thesis by (auto simp: createFamilyAuthState_def)
next
  case (Some x)
  obtain mode p labels where x: "x = (mode, p, labels)" by (rule prod_cases3)
  have "\<not> family_request r (TrimSpace p) labels" using assms by blast
  with Some x have "wr_Method r \<noteq> ''POST'' \<or> ToLower (TrimSpace mode) \<noteq> ''family'' \<or> TrimSpace p = [] \<or> length labels < 2 \<or>
      length labels > 10 \<or> blank_label 0 labels \<noteq> None" by (auto simp: family_request_def blank_label_None)
  with Some x show ?thesis by (auto simp: createFamilyAuthState_def Let_def split: option.split)
qed

lemma createFamily_accepts:
  assumes req: "family_request r plex labels" and srv: "sv_storage srv" and db: "healthy e s" "schema_ok s"
    and gid: "TrimSpace (draw 0) = draw 0" "draw 0 \<noteq> []" "draw 0 \<notin> fg_ID ` set (family_groups s)"
    and draws: "\<forall>j \<in> {1..10}. draw j \<noteq> [] \<and> draw j \<notin> m_id ` set (group_members s)" "inj_on draw {1..10}"
    and ids: "fresh_token ids st = Some token" and clock: "\<forall>k. env_now e k \<noteq> 0"
  shows "\<exists>reply s' st'. createFamilyAuthState e srv draw ids r (s, st) = Some (reply, s', st') \<and>
    (if list_all label_ok labels \<and> ToLower plex \<notin> PlexUsername ` set (family_groups s)
     then reply = Json 200 (JObj [(''state'', JStr token), (''family_group_id'', JStr (draw 0))]) \<and> family_pending token draw plex labels s s' st st'
     else (\<exists>status message. reply = writeJSONError status message) \<and> same_tables s s' \<and> st' = st)"
proof -
  let ?f = "createFamilyAuthState e srv draw ids r (s, st)"
  from req obtain mode p where r: "wr_Method r = ''POST''" "Option.bind (wr_Body r) dec_family_request = Some (mode, p, labels)"
    "ToLower (TrimSpace mode) = ''family''" "plex = TrimSpace p" "plex \<noteq> []" "2 \<le> length labels" "length labels \<le> 10"
    "blank_label 0 labels = None" by (auto simp: family_request_def blank_label_None)
  have trim: "TrimSpace plex = plex" by (simp add: r(4))
  note plex = GetFamilyGroupByPlex_healthy [OF db(1) trim r(5)]
  show ?thesis
  proof (cases "find (\<lambda>g. PlexUsername g = ToLower plex) (family_groups s)")
    case (Some g)
    then have "?f = Some (writeJSONError 409 ''family group already exists for this Plex username'', sent s, st)"
      using r srv plex by (simp add: createFamilyAuthState_def Let_def)
    moreover have "ToLower plex \<in> PlexUsername ` set (family_groups s)" using find_SomeD [OF Some] by force
    ultimately show ?thesis by auto
  next
    case None
    then have free: "ToLower plex \<notin> PlexUsername ` set (family_groups s)" by (auto simp: find_None_iff)
    have up: "healthy e (sent s)" by (rule healthy_Suc [OF db(1)]) simp
    obtain g s2 where g: "CreateFamilyGroup e (Some \<lparr>fg_ID = draw 0, PlexUsername = plex, fg_CreatedAt = env_now e (stmt_no (sent s)),
        fg_UpdatedAt = env_now e (stmt_no (sent s))\<rparr>) (sent s) = ((None, Some g), s2)" "grown g (sent s) [] s2" "healthy e s2"
      "PlexUsername g = ToLower plex" "fg_ID g = draw 0"
      using CreateFamilyGroup_grown [OF up gid(2) _ trim r(5), of "env_now e (stmt_no (sent s))"] gid(3) free by auto
    have grown: "grown g s [] s2" by (rule same_tables_grown [OF same_tables_refl(2) g(2)])
    have mem: "group_members s2 = group_members s" using grown by (simp add: grown_def)
    have "{1..<1 + length labels} \<subseteq> {1..10}" using r(7) by auto
    then have "inj_on draw {1..<1 + length labels}" and d1: "\<forall>j \<in> {1..<1 + length labels}. draw j \<noteq> [] \<and> draw j \<notin> m_id ` set (group_members s2)"
      using draws mem by (auto intro: inj_on_subset)
    then have d: "\<forall>j \<in> {1..<1 + length labels}. draw j \<noteq> [] \<and> draw j \<notin> m_id ` set (group_members s2)" "distinct (map draw [1..<1 + length labels])"
      by (simp_all add: distinct_map del: upt_Suc)
    have pre: "?f = (case add_members e draw (draw 0) 1 labels s2 of
        (None, s3) \<Rightarrow> Some (writeJSONError 500 ''failed to create group members'', s3, st)
      | (Some memberStates, s3) \<Rightarrow> (let now = env_now e (stmt_no s3) in
          new_session now ids \<lparr>as_Mode = ''family'', as_Username = [], SelectedID = [], CorrelationID = [], Created = now,
            as_FamilyGroup = Some \<lparr>fs_GroupID = draw 0, fs_PlexUsername = plex, fs_Members = memberStates\<rparr>\<rparr>
            (\<lambda>token. Json 200 (JObj [(''state'', JStr token), (''family_group_id'', JStr (draw 0))])) s3 st))"
      using r(1-3,5-8) srv plex None g(1) by (simp add: createFamilyAuthState_def Let_def flip: r(4) split: prod.split option.split)
    obtain s3 where s3: "if list_all label_ok labels
      then add_members e draw (draw 0) 1 labels s2 = (Some (pending_states draw 1 labels), s3) \<and>
        (\<exists>rows'. grown g s ([] @ rows') s3 \<and> pending_rows draw (draw 0) 1 labels rows')
      else add_members e draw (draw 0) 1 labels s2 = (None, s3) \<and> same_tables s s3"
      using add_members_spec [OF grown g(3) db(2) gid(3,1,2) d g(5) [symmetric]] by blast
    show ?thesis
    proof (cases "list_all label_ok labels")
      case True
      with s3 obtain rows where rows: "add_members e draw (draw 0) 1 labels s2 = (Some (pending_states draw 1 labels), s3)"
        "grown g s rows s3" "pending_rows draw (draw 0) 1 labels rows" by auto
      then show ?thesis using True free pre rows ids clock g(4,5) by (auto simp: new_session_def Create_def family_pending_def Let_def)
    next
      case False
      with s3 pre show ?thesis by auto
    qed
  qed
qed

text \<open>
  C12. A family is set up completely or not at all: on a working database a request with a Plex name that has no group
  yet and with two to ten members, none without a label and no label of more than a hundred bytes, creates the group
  under that name in lower case, one pending member for each label and a session that lists them; every other request
  is answered with an error and leaves the database and the sessions as they were, even when it fails at the last
  member.
\<close>

theorem family_setup_all_or_nothing:
  assumes "sv_storage srv" "healthy e s" "schema_ok s"
    and gid: "TrimSpace (draw 0) = draw 0" "draw 0 \<noteq> []" "draw 0 \<notin> fg_ID ` set (family_groups s)"
    and draws: "\<forall>j \<in> {1..10}. draw j \<noteq> [] \<and> draw j \<notin> m_id ` set (group_members s)" "inj_on draw {1..10}"
    and ids: "fresh_token ids st = Some token" and clock: "\<forall>k. env_now e k \<noteq> 0"
    and ok: "ok = (\<lambda>plex labels. family_request r plex labels \<and> list_all label_ok labels \<and> ToLower plex \<notin> PlexUsername ` set (family_groups s))"
  shows "\<exists>reply s' st'. createFamilyAuthState e srv draw ids r (s, st) = Some (reply, s', st') \<and>
    (\<forall>plex labels. ok plex labels \<longrightarrow> reply = Json 200 (JObj [(''state'', JStr token), (''family_group_id'', JStr (draw 0))]) \<and>
       family_pending token draw plex labels s s' st st') \<and>
    ((\<nexists>plex labels. ok plex labels) \<longrightarrow> (\<exists>status message. reply = writeJSONError status message) \<and> same_tables s s' \<and> st' = st)"
proof (cases "\<exists>plex labels. family_request r plex labels")
  case True
  then obtain plex labels where req: "family_request r plex labels" by blast
  then have only: "plex' = plex \<and> labels' = labels" if "family_request r plex' labels'" for plex' labels'
    using that by (auto simp: family_request_def)
  obtain reply s' st' where "createFamilyAuthState e srv draw ids r (s, st) = Some (reply, s', st')"
    "if list_all label_ok labels \<and> ToLower plex \<notin> PlexUsername ` set (family_groups s)
     then reply = Json 200 (JObj [(''state'', JStr token), (''family_group_id'', JStr (draw 0))]) \<and> family_pending token draw plex labels s s' st st'
     else (\<exists>status message. reply = writeJSONError status message) \<and> same_tables s s' \<and> st' = st"
    using createFamily_accepts [OF req assms(1-3) gid draws ids clock] by blast
  moreover have "(\<exists>p ls. ok p ls) \<longleftrightarrow> list_all label_ok labels \<and> ToLower plex \<notin> PlexUsername ` set (family_groups s)"
    unfolding ok using req only by metis
  moreover have "plex' = plex \<and> labels' = labels" if "ok plex' labels'" for plex' labels' using that only unfolding ok by blast
  ultimately show ?thesis by (intro exI [of _ reply] exI [of _ s'] exI [of _ st'] conjI) (force split: if_splits)+
next
  case False
  then show ?thesis unfolding ok using createFamily_refused [of r e srv draw ids s st] by (auto intro: same_tables_refl)
qed

text \<open>Identifiers like those \<open>generateCorrelationID\<close> draws, and a request for a family of two.\<close>

definition demo_draw :: "nat \<Rightarrow> string" where
  "demo_draw j = ''id'' @ itoa (int j)"

definition demo_family_request :: web_request where
  "demo_family_request = empty_request\<lparr>wr_Method := ''POST'', wr_Body := Some (JObj [(''mode'', JStr ''family''), (''plex_username'', JStr ''Home''),
     (''members'', JArr [JObj [(''temp_label'', JStr ''Mum'')], JObj [(''temp_label'', JStr ''Dad'')]])])\<rparr>"

theorem family_setup_all_or_nothing_witness:
  "\<exists>s' st'. createFamilyAuthState demo_env running demo_draw [''t''] demo_family_request (pg_empty, newAuthStateStore) =
     Some (Json 200 (JObj [(''state'', JStr ''t''), (''family_group_id'', JStr ''id0'')]), s', st') \<and>
     family_pending ''t'' demo_draw ''Home'' [''Mum'', ''Dad''] pg_empty s' newAuthStateStore st'"
proof -
  have gid: "TrimSpace (demo_draw 0) = demo_draw 0" "demo_draw 0 \<noteq> []" "demo_draw 0 = ''id0''" by code_simp+
  have srv: "sv_storage running" by (simp add: running_def)
  have free: "demo_draw 0 \<notin> fg_ID ` set (family_groups pg_empty)" "\<forall>j \<in> {1..10}. demo_draw j \<noteq> [] \<and> demo_draw j \<notin> m_id ` set (group_members pg_empty)"
    by (simp_all add: pg_empty_def demo_draw_def)
  have inj: "inj_on demo_draw {1..10}" by (auto simp: inj_on_def demo_draw_def)
  have t: "fresh_token [''t''] newAuthStateStore = Some ''t''" by (simp add: newAuthStateStore_def)
  have clock: "\<forall>k. env_now demo_env k \<noteq> 0" by (simp add: demo_env_def)
  obtain reply s' st' where *: "createFamilyAuthState demo_env running demo_draw [''t''] demo_family_request (pg_empty, newAuthStateStore) =
      Some (reply, s', st')" "\<forall>plex labels. family_request demo_family_request plex labels \<and> list_all label_ok labels \<and>
        ToLower plex \<notin> PlexUsername ` set (family_groups pg_empty) \<longrightarrow>
      reply = Json 200 (JObj [(''state'', JStr ''t''), (''family_group_id'', JStr (demo_draw 0))]) \<and>
      family_pending ''t'' demo_draw plex labels pg_empty s' newAuthStateStore st'"
    using family_setup_all_or_nothing [OF srv demo_healthy schema_empty gid(1,2) free inj t clock refl, of demo_family_request] by blast
  have "Option.bind (wr_Body demo_family_request) dec_family_request = Some (''family'', ''Home'', [''Mum'', ''Dad''])"
    "ToLower (TrimSpace ''family'') = ''family''" "''Home'' = TrimSpace ''Home''" "list_all (\<lambda>l. TrimSpace l \<noteq> []) [''Mum'', ''Dad'']"
    "list_all label_ok [''Mum'', ''Dad'']" by code_simp+
  then have "family_request demo_family_request ''Home'' [''Mum'', ''Dad''] \<and> list_all label_ok [''Mum'', ''Dad''] \<and>
      ToLower ''Home'' \<notin> PlexUsername ` set (family_groups pg_empty)"
    by (auto simp: family_request_def demo_family_request_def pg_empty_def)
  with * gid(3) show ?thesis by auto
qed

section \<open>Authorising a member\<close>

lemma GetGroupMember_healthy:
  assumes "healthy e s" "TrimSpace mid = mid" "mid \<noteq> []" "find (\<lambda>r. m_id r = mid) (group_members s) = Some row"
  shows "GetGroupMember e mid s = (Inr (scanGroupMemberRow row), sent s)"
  using assms by (simp add: GetGroupMember_def sql_query_eq)

text \<open>The row of an authorised member.\<close>

definition authorised_row :: "env \<Rightarrow> gotime \<Rightarrow> string \<Rightarrow> string \<Rightarrow> string \<Rightarrow> member_row \<Rightarrow> member_row" where
  "authorised_row e x name a t r = r\<lparr>m_trakt := Some (TrimSpace (ToLower name)), m_access := nullableString a, m_refresh := nullableString t,
     m_expiry := Some (env_timestamp e x), m_status := ''authorized''\<rparr>"

lemma store_member_ok:
  assumes "healthy e s" "TrimSpace mid = mid" "mid \<noteq> []" "find (\<lambda>r. m_id r = mid) (group_members s) = Some row" "member_row_wf row"
    "distinct (map m_id (group_members s))" "TrimSpace name \<noteq> []"
  shows "store_member e x mid name a t s = (None, (sent (sent s))\<lparr>group_members :=
    map (\<lambda>r. if m_id r = mid then authorised_row e x name a t r else r) (group_members s)\<rparr>)"
proof -
  let ?m = "(scanGroupMemberRow row)\<lparr>TraktUsername := name, gm_AccessToken := a, gm_RefreshToken := t,
    gm_TokenExpiry := Some x, AuthorizationStatus := ''authorized''\<rparr>"
  let ?n = "?m\<lparr>TraktUsername := TrimSpace (ToLower name)\<rparr>"
  have row: "m_id row = mid" "row \<in> set (group_members s)" using find_SomeD [OF assms(4)] by auto
  have wf: "m_group row \<noteq> []" "m_label row \<noteq> []" "length (m_label row) \<le> 100" "TrimSpace (m_group row) = m_group row" "TrimSpace (m_label row) = m_label row"
    using assms(5) by (auto simp: member_row_wf_def member_wf_def GroupMember_Normalize_def scanGroupMemberRow_def)
  have name: "name \<noteq> []" using assms(7) by auto
  have st: "TrimSpace (ToLower ''authorized'') = ''authorized''" "isValidGroupMemberStatus ''authorized''"
    by code_simp (simp add: isValidGroupMemberStatus_def member_status_defs)
  have v: "lower_trakt (default_status ?m) = ?m\<lparr>TraktUsername := ToLower name\<rparr>" using name by (simp add: lower_trakt_def default_status_def)
  have v2: "GroupMember_Validate (Some (?m\<lparr>TraktUsername := ToLower name\<rparr>)) = (None, Some ?n)"
    using wf st assms(7) by (simp add: GroupMember_Validate_def GroupMember_Normalize_def scanGroupMemberRow_def Let_def TrimSpace_ToLower)
  have "update_member e ?n r = (if m_id r = mid then authorised_row e x name a t r else r)" if "r \<in> set (group_members s)" for r
  proof (cases "m_id r = mid")
    case True
    then have "r = row" using assms(6) row that by (auto simp: distinct_map inj_on_def)
    with True assms(7) show ?thesis
      by (cases r) (simp add: update_member_def authorised_row_def scanGroupMemberRow_def nullableString_def nullableTime_def TrimSpace_ToLower)
  qed (simp add: update_member_def scanGroupMemberRow_def row)
  then have "map (update_member e ?n) (group_members s) = map (\<lambda>r. if m_id r = mid then authorised_row e x name a t r else r) (group_members s)"
    by (intro map_cong refl)
  moreover have "filter (\<lambda>r. m_id r = gm_ID ?n) (group_members s) \<noteq> []"
    using row by (auto simp: scanGroupMemberRow_def filter_empty_conv)
  moreover have "env_fault e (Suc (stmt_no s)) = None" using healthyD [OF assms(1)] by simp
  ultimately have "UpdateGroupMember e (Some ?m) (sent s) = ((None, Some ?n), (sent (sent s))\<lparr>group_members :=
      map (\<lambda>r. if m_id r = mid then authorised_row e x name a t r else r) (group_members s)\<rparr>)"
    unfolding UpdateGroupMember_def sql_eq option.case v v2 by simp
  then show ?thesis by (simp add: store_member_def GetGroupMember_healthy [OF assms(1-4)])
qed

lemma name_taken_rows:
  "name_taken mid name (Inr (map scanGroupMemberRow (order_asc m_created (filter (\<lambda>r. m_group r = gid) rows)))) \<longleftrightarrow>
     (\<exists>m \<in> set rows. m_group m = gid \<and> m_id m \<noteq> mid \<and> EqualFold (TraktUsername (scanGroupMemberRow m)) name)"
  by (auto simp: name_taken_def list_ex_iff order_asc_def scanGroupMemberRow_def)

lemma update_first_all:
  assumes "distinct (map f xs)" "x \<in> set xs" "\<And>y. f (g y) = f y" "\<And>y. P (g y)"
  shows "list_all P (update_first (\<lambda>y. f y = f x) g xs) \<longleftrightarrow> (\<forall>y \<in> set xs. f y = f x \<or> P y)"
  using assms(1,2)
proof (induction xs)
  case (Cons y xs)
  show ?case
  proof (cases "f y = f x")
    case True
    then have "f z \<noteq> f x" if "z \<in> set xs" for z using Cons.prems(1) that by (metis distinct.simps(2) image_eqI list.simps(9) set_map)
    with True show ?thesis by (auto simp: list_all_iff assms(4))
  qed (use Cons in \<open>auto simp: list_all_iff\<close>)
qed simp

text \<open>The tables when the name is free, as one fact.\<close>

definition member_authorised :: "env \<Rightarrow> string \<Rightarrow> string \<Rightarrow> string \<Rightarrow> string \<Rightarrow> pg \<Rightarrow> pg \<Rightarrow> bool" where
  "member_authorised e mid name a t s s' \<longleftrightarrow>
     (\<exists>m s''. GetGroupMember e mid s' = (Inr m, s'') \<and> AuthorizationStatus m = ''authorized'' \<and> TraktUsername m = TrimSpace (ToLower name) \<and>
        gm_AccessToken m = TrimSpace a \<and> gm_RefreshToken m = TrimSpace t) \<and>
     filter (\<lambda>r. m_id r \<noteq> mid) (group_members s') = filter (\<lambda>r. m_id r \<noteq> mid) (group_members s) \<and>
     same_tables s (s'\<lparr>group_members := group_members s\<rparr>)"

lemma store_member_authorises:
  assumes "healthy e s" "schema_ok s" "TrimSpace mid = mid" "mid \<noteq> []" "find (\<lambda>r. m_id r = mid) (group_members s) = Some row" "TrimSpace name \<noteq> []"
  shows "\<exists>s'. store_member e x mid name a t s = (None, s') \<and> member_authorised e mid name a t s s'"
proof -
  let ?f = "\<lambda>r. if m_id r = mid then authorised_row e x name a t r else r"
  let ?s = "(sent (sent s))\<lparr>group_members := map ?f (group_members s)\<rparr>"
  have row: "m_id row = mid" "row \<in> set (group_members s)" using find_SomeD [OF assms(5)] by auto
  have "member_row_wf row" "distinct (map m_id (group_members s))"
    using assms(2) row by (auto simp: schema_ok_def members_ok_def list_all_iff)
  then have st: "store_member e x mid name a t s = (None, ?s)" by (rule store_member_ok [OF assms(1,3,4,5) _ _ assms(6)])
  have "find (\<lambda>r. m_id r = mid) (map ?f rs) = map_option (authorised_row e x name a t) (find (\<lambda>r. m_id r = mid) rs)" for rs
    by (induction rs) (auto simp: authorised_row_def)
  then have "find (\<lambda>r. m_id r = mid) (group_members ?s) = Some (authorised_row e x name a t row)" using assms(5) by simp
  moreover have "healthy e ?s" by (rule healthy_Suc [OF assms(1)]) simp
  ultimately have "GetGroupMember e mid ?s = (Inr (scanGroupMemberRow (authorised_row e x name a t row)), sent ?s)"
    using assms(3,4) by (intro GetGroupMember_healthy)
  moreover have "filter (\<lambda>r. m_id r \<noteq> mid) (map ?f rs) = filter (\<lambda>r. m_id r \<noteq> mid) rs" for rs
    by (induction rs) (auto simp: authorised_row_def)
  moreover have "TrimSpace (NullString_String (nullableString v)) = TrimSpace v" "NullString_String (nullableString v) = TrimSpace v" for v
    by (simp_all add: NullString_String_def nullableString_def Let_def)
  moreover have "same_tables s (?s\<lparr>group_members := group_members s\<rparr>)" by (simp add: same_tables_def sent_def)
  ultimately have "member_authorised e mid name a t s ?s"
    by (simp add: member_authorised_def) (simp add: scanGroupMemberRow_def authorised_row_def NullString_String_def TrimSpace_ToLower)
  with st show ?thesis by blast
qed

text \<open>The Trakt name of a member: the name Trakt gives for the token, or else the label.\<close>

definition member_name :: "FamilyMemberState \<Rightarrow> (string \<times> bool) result \<Rightarrow> string" where
  "member_name member named = (case named of Inr (name, _) \<Rightarrow> if TrimSpace name = [] then fm_TempLabel member else name
     | Inl _ \<Rightarrow> fm_TempLabel member)"

text \<open>The sessions after a member has been authorised: a new one, in which the member is.\<close>

definition member_in_session :: "string \<Rightarrow> string \<Rightarrow> string \<Rightarrow> authStateStore \<Rightarrow> bool" where
  "member_in_session token mid name st \<longleftrightarrow> (\<exists>a g. st token = Some a \<and> as_FamilyGroup a = Some g \<and>
     (\<exists>m \<in> set (fs_Members g). fm_MemberID m = mid \<and> fm_AuthorizationStatus m = ''authorized'' \<and> fm_TraktUsername m = name))"

lemma update_first_mem: "x \<in> set xs \<Longrightarrow> P x \<Longrightarrow> \<exists>y \<in> set xs. P y \<and> f y \<in> set (update_first P f xs)"
  by (induction xs) auto

lemma finish_member_spec:
  assumes "member \<in> set (fs_Members grp)" "fm_MemberID member = mid" "distinct (map fm_MemberID (fs_Members grp))" "fresh_token ids st = Some token"
  shows "\<exists>st'. finish_member now ids mid name a grp st = Some (Html (popup_message mid name token
      (\<forall>m \<in> set (fs_Members grp). fm_MemberID m = mid \<or> fm_AuthorizationStatus m = ''authorized'')), st') \<and> member_in_session token mid name st'"
proof -
  let ?g = "\<lambda>m. m\<lparr>fm_TraktUsername := name, fm_AuthorizationStatus := ''authorized'', AuthorizedAt := now\<rparr>"
  let ?ms = "update_first (\<lambda>m. fm_MemberID m = mid) ?g (fs_Members grp)"
  have all: "list_all (\<lambda>m. fm_AuthorizationStatus m = ''authorized'') ?ms \<longleftrightarrow>
      (\<forall>m \<in> set (fs_Members grp). fm_MemberID m = mid \<or> fm_AuthorizationStatus m = ''authorized'')"
    using update_first_all [OF assms(3,1), of ?g "\<lambda>m. fm_AuthorizationStatus m = ''authorized''"] assms(2) by simp
  have "fresh_token ids (update_shared g st) = fresh_token ids st" for g
    by (induction ids) (auto simp: update_shared_def)
  moreover obtain y where "fm_MemberID y = mid" "?g y \<in> set ?ms"
    using update_first_mem [OF assms(1), of "\<lambda>m. fm_MemberID m = mid" ?g] assms(2) by auto
  then have "\<exists>m \<in> set ?ms. fm_MemberID m = mid \<and> fm_AuthorizationStatus m = ''authorized'' \<and> fm_TraktUsername m = name"
    by (intro bexI [of _ "?g y"]) simp_all
  ultimately show ?thesis
    using assms(4) by (simp add: finish_member_def Create_def all member_in_session_def Let_def)
qed

text \<open>
  C13. Authorising a family member: within the fifteen minutes of the session a request with a code Trakt accepts looks up
  the name of the Trakt account.  If another member of the group has that name, in any case, the request is turned down
  and the database and the sessions stay as they are.  Otherwise the member reads back as authorised, with that name
  in lower case and the tokens, no other member and no other table changes, and the popup reports a new
  session in which the member is authorised and says whether all members of the session are.
\<close>

theorem family_member_authorisation:
  assumes te: "te = pg_trakt fuel e net parse url c sec" and srv: "sv_storage srv" "sv_trakt srv" and db: "healthy e s" "schema_ok s"
    and row: "find (\<lambda>r. m_id r = mid) (group_members s) = Some row"
    and session: "Get (env_now e (stmt_no s)) token st = (a0, True)" "as_FamilyGroup a0 = Some grp" "TrimSpace (fs_GroupID grp) = fs_GroupID grp"
      "fs_GroupID grp \<noteq> []" "find (\<lambda>m. fm_MemberID m = mid) (fs_Members grp) = Some member" "TrimSpace (fm_TempLabel member) \<noteq> []"
      "distinct (map fm_MemberID (fs_Members grp))"
    and req: "TrimSpace (arg r ''state'') = token" "TrimSpace (arg r ''member_id'') = mid" "mid \<noteq> []" "TrimSpace (arg r ''code'') = code" "code \<noteq> []"
    and net: "net (code_req te (member_uri (SelfRoot srv r) mid) code) n = (ans, n1)" "grants ans a t k" "a \<noteq> []" "t \<noteq> []"
    and name: "fetchDisplayNameFunc srv te a (s, l, n1) = (named, (s, l, n2))" "name = member_name member named"
    and ids: "fresh_token ids st = Some token'"
  shows "\<exists>reply s' st'. authorizeFamilyMember e srv te ids r ((s, l, n), st) = Some (reply, (s', l, n2), st') \<and>
    (if \<exists>m \<in> set (group_members s). m_group m = fs_GroupID grp \<and> m_id m \<noteq> mid \<and> EqualFold (TraktUsername (scanGroupMemberRow m)) name
     then (\<exists>target. reply = Redirect target) \<and> same_tables s s' \<and> st' = st
     else reply = Html (popup_message mid name token' (\<forall>m \<in> set (fs_Members grp). fm_MemberID m = mid \<or> fm_AuthorizationStatus m = ''authorized'')) \<and>
       member_authorised e mid name a t s s' \<and> member_in_session token' mid name st')"
proof -
  let ?gid = "fs_GroupID grp" and ?root = "SelfRoot srv r"
  have member: "fm_MemberID member = mid" "member \<in> set (fs_Members grp)" using find_SomeD [OF session(5)] by auto
  have "te_http te (code_req te (member_uri ?root mid) code) (s, l, n) = (ans, (s, l, n1))" using net(1) by (simp add: te)
  from exchange_grants [OF this net(2) srv(2) net(3,4), of "[]"] obtain kvs where kvs:
    "authRequestFunc srv te (member_uri ?root mid) [] code [] ''authorization_code'' (s, l, n) = ((kvs, True), (s, l, n1))"
    "result_tokens kvs = Some (a, t)" by blast
  have pre: "authorizeFamilyMember e srv te ids r ((s, l, n), st) =
      authorize_member e srv te ids ?root a0 grp member kvs a t ((s, l, n1), st)"
    using session req kvs by (simp add: authorizeFamilyMember_def te Let_def)
  note list = ListGroupMembers_healthy [OF db(1) session(3,4)]
  note taken = name_taken_rows [of mid name ?gid "group_members s"]
  have nm: "(case named of Inl _ \<Rightarrow> fm_TempLabel member | Inr (name, _) \<Rightarrow> if TrimSpace name = [] then fm_TempLabel member else name) = name"
    using name(2) by (simp add: member_name_def)
  have ne: "TrimSpace name \<noteq> []" using name(2) session(6) by (auto simp: member_name_def split: sum.splits if_splits)
  show ?thesis
  proof (cases "\<exists>m \<in> set (group_members s). m_group m = ?gid \<and> m_id m \<noteq> mid \<and> EqualFold (TraktUsername (scanGroupMemberRow m)) name")
    case True
    then have "\<exists>target. authorize_member e srv te ids ?root a0 grp member kvs a t ((s, l, n1), st) = Some (Redirect target, (sent s, l, n2), st)"
      using taken list name(1) nm srv member by (simp add: authorize_member_def family_redirect_def landing_def Let_def)
    then show ?thesis using True pre by auto
  next
    case False
    have up: "healthy e (sent s)" by (rule healthy_Suc [OF db(1)]) simp
    have trim: "TrimSpace mid = mid" using req(2) by auto
    have "schema_ok (sent s)" "find (\<lambda>r. m_id r = mid) (group_members (sent s)) = Some row" using db(2) row by simp_all
    from store_member_authorises [OF up this(1) trim req(3) this(2) ne]
    obtain s' where s': "store_member e (calculateTokenExpiry (env_now e (stmt_no (sent s))) kvs) mid name a t (sent s) = (None, s')"
      "member_authorised e mid name a t (sent s) s'"
      by blast
    obtain st' where st': "finish_member (env_now e (stmt_no s')) ids mid name a0 grp st = Some (Html (popup_message mid name token'
        (\<forall>m \<in> set (fs_Members grp). fm_MemberID m = mid \<or> fm_AuthorizationStatus m = ''authorized'')), st')" "member_in_session token' mid name st'"
      using finish_member_spec [OF member(2,1) session(7) ids] by blast
    have "member_authorised e mid name a t s s'"
      using s'(2) by (auto simp: member_authorised_def intro: same_tables_trans [OF same_tables_refl(2)])
    moreover have nt: "\<not> name_taken mid name (Inr (map scanGroupMemberRow (order_asc m_created (filter (\<lambda>r. m_group r = ?gid) (group_members s)))))"
      using False by (simp only: taken not_False_eq_True)
    moreover have "authorize_member e srv te ids ?root a0 grp member kvs a t ((s, l, n1), st) =
        Some (Html (popup_message mid name token' (\<forall>m \<in> set (fs_Members grp). fm_MemberID m = mid \<or> fm_AuthorizationStatus m = ''authorized'')), (s', l, n2), st')"
      using nt list name(1) nm srv member s'(1) st'(1) by (simp add: authorize_member_def te Let_def)
    ultimately show ?thesis using False pre st'(2) by auto
  qed
qed

text \<open>Two pending members, Trakt granting tokens, and the session of the family.\<close>

definition demo_member_row :: "string \<Rightarrow> string \<Rightarrow> member_row" where
  "demo_member_row i label = \<lparr>m_id = i, m_group = ''g'', m_label = label, m_trakt = None, m_access = None, m_refresh = None, m_expiry = None,
     m_status = ''pending'', m_created = 1\<rparr>"

definition demo_family_db :: pg where
  "demo_family_db = pg_empty\<lparr>family_groups := [\<lparr>fg_ID = ''g'', PlexUsername = ''home'', fg_CreatedAt = 1, fg_UpdatedAt = 1\<rparr>],
     group_members := [demo_member_row ''m1'' ''Mum'', demo_member_row ''m2'' ''Dad'']\<rparr>"

definition demo_member_state :: "string \<Rightarrow> string \<Rightarrow> FamilyMemberState" where
  "demo_member_state i label = \<lparr>fm_MemberID = i, fm_TempLabel = label, fm_TraktUsername = [], fm_AuthorizationStatus = ''pending'', AuthorizedAt = 0\<rparr>"

definition demo_family_state :: authState where
  "demo_family_state = \<lparr>as_Mode = ''family'', as_Username = [], SelectedID = [], CorrelationID = [], Created = 7, as_FamilyGroup =
     Some \<lparr>fs_GroupID = ''g'', fs_PlexUsername = ''home'', fs_Members = [demo_member_state ''m1'' ''Mum'', demo_member_state ''m2'' ''Dad'']\<rparr>\<rparr>"

lemma demo_family_schema: "schema_ok demo_family_db"
proof -
  have "member_row_wf (demo_member_row ''m1'' ''Mum'')" "member_row_wf (demo_member_row ''m2'' ''Dad'')"
    "group_wf \<lparr>fg_ID = ''g'', PlexUsername = ''home'', fg_CreatedAt = 1, fg_UpdatedAt = 1\<rparr>" by code_simp+
  then show ?thesis by (auto simp: schema_ok_def table_ok_defs demo_family_db_def pg_empty_def) (auto simp: demo_member_row_def)
qed

theorem family_member_authorisation_witness:
  "\<exists>s' st'. authorizeFamilyMember demo_env running demo_trakt [''t2'']
      (empty_request\<lparr>wr_Query := [(''state'', ''t1''), (''member_id'', ''m1''), (''code'', ''c'')]\<rparr>)
      ((demo_family_db, NewQueueEventLog 100, ()), [''t1'' \<mapsto> demo_family_state]) =
        Some (Html (popup_message ''m1'' ''Mum'' ''t2'' False), (s', NewQueueEventLog 100, ()), st') \<and>
      member_authorised demo_env ''m1'' ''Mum'' ''a2'' ''r2'' demo_family_db s'"
proof -
  let ?r = "empty_request\<lparr>wr_Query := [(''state'', ''t1''), (''member_id'', ''m1''), (''code'', ''c'')]\<rparr>"
  let ?st = "[''t1'' \<mapsto> demo_family_state]"
  let ?grp = "\<lparr>fs_GroupID = ''g'', fs_PlexUsername = ''home'', fs_Members = [demo_member_state ''m1'' ''Mum'', demo_member_state ''m2'' ''Dad'']\<rparr>"
  let ?m = "demo_member_state ''m1'' ''Mum''"
  have srv: "sv_storage running" "sv_trakt running" by (simp_all add: running_def)
  have row: "find (\<lambda>r. m_id r = ''m1'') (group_members demo_family_db) = Some (demo_member_row ''m1'' ''Mum'')"
    by (simp add: demo_family_db_def demo_member_row_def)
  have session: "Get (env_now demo_env (stmt_no demo_family_db)) ''t1'' ?st = (demo_family_state, True)" "as_FamilyGroup demo_family_state = Some ?grp"
    "TrimSpace (fs_GroupID ?grp) = fs_GroupID ?grp" "fs_GroupID ?grp \<noteq> []" "find (\<lambda>m. fm_MemberID m = ''m1'') (fs_Members ?grp) = Some ?m"
    "TrimSpace (fm_TempLabel ?m) \<noteq> []" "distinct (map fm_MemberID (fs_Members ?grp))"
    by (simp add: Get_def demo_family_state_def demo_env_def time_defs) code_simp+
  have req: "TrimSpace (arg ?r ''state'') = ''t1''" "TrimSpace (arg ?r ''member_id'') = ''m1''" "''m1'' \<noteq> []" "TrimSpace (arg ?r ''code'') = ''c''" "''c'' \<noteq> []"
    by code_simp+
  obtain ans where ans: "granting_net (code_req demo_trakt (member_uri (SelfRoot running ?r) ''m1'') ''c'') () = (ans, ())"
    "grants ans ''a2'' ''r2'' 7776000" using granting_net_grants by blast
  have fetch: "fetchDisplayNameFunc running demo_trakt ''a2'' (demo_family_db, NewQueueEventLog 100, ()) = (Inr ([], False), (demo_family_db, NewQueueEventLog 100, ()))"
  proof -
    have "TrimSpace ''a2'' \<noteq> []" "NormalizeDisplayName [] = ([], False)"
      "dec_user_settings (JObj [(''access_token'', JStr ''a2''), (''refresh_token'', JStr ''r2''), (''expires_in'', JInt 7776000)]) = Some ([], [], [])"
      by code_simp+
    then show ?thesis using srv by (simp add: fetchDisplayNameFunc_def FetchDisplayName_def demo_trakt_def granting_net_def)
  qed
  have name: "''Mum'' = member_name ?m (Inr ([], False))" by code_simp
  have ids: "fresh_token [''t2''] ?st = Some ''t2''" by simp
  have free: "\<not> (\<exists>m \<in> set (group_members demo_family_db). m_group m = fs_GroupID ?grp \<and> m_id m \<noteq> ''m1'' \<and> EqualFold (TraktUsername (scanGroupMemberRow m)) ''Mum'')"
    by code_simp
  have pend: "(\<forall>m \<in> set (fs_Members ?grp). fm_MemberID m = ''m1'' \<or> fm_AuthorizationStatus m = ''authorized'') = False" by code_simp
  from family_member_authorisation [OF demo_trakt_def srv demo_healthy demo_family_schema row session req ans _ _ fetch name ids] free pend
  show ?thesis by (simp only: if_False) auto
qed

end
