(* ===== verification/Admin.thy ===== *)
theory Admin
  imports Family_Flow
begin

text \<open>
  The administration of \<open>main.go\<close>: users, family groups and the state of the queues, on the PostgreSQL store.
  A reply is an error with its status or the document of the handler, here as the record the handler
  fills; its JSON text, log output and the pages that only render a template are not modelled.  \<^const>\<open>None\<close> is a
  panic.
\<close>

type_synonym 'a admin_reply = "HttpError + 'a"

definition http_Error :: "string \<Rightarrow> int \<Rightarrow> 'a admin_reply" where
  "http_Error message code = Inl \<lparr>he_Code = code, he_Message = message\<rparr>"

section \<open>Users\<close>

record adminUserResponse =
  au_ID :: string
  au_Username :: string
  au_TraktDisplayName :: string
  au_WebhookURL :: string
  au_Updated :: gotime
  au_Status :: string

definition expiry_status :: "gotime \<Rightarrow> gotime \<Rightarrow> string" where
  "expiry_status now expiry = (if expiry - now < 0 then ''expired'' else if expiry - now < 48 * Hour then ''warning'' else ''healthy'')"

definition admin_user :: "string \<Rightarrow> gotime \<Rightarrow> User \<Rightarrow> adminUserResponse" where
  "admin_user selfRoot now user = \<lparr>au_ID = usr_ID user, au_Username = Username user, au_TraktDisplayName = TraktDisplayName user,
     au_WebhookURL = selfRoot @ ''/api?id='' @ usr_ID user, au_Updated = Updated user, au_Status = expiry_status now (TokenExpiry user)\<rparr>"

definition listAdminUsers :: "env \<Rightarrow> server \<Rightarrow> web_request \<Rightarrow> pg \<Rightarrow> (adminUserResponse list admin_reply \<times> pg) option" where
  "listAdminUsers e srv r s =
     (if \<not> sv_storage srv then Some (http_Error ''storage unavailable'' 503, s)
      else map_option (\<lambda>(us, s'). (Inr (map (admin_user (SelfRoot srv r) (env_now e (stmt_no s'))) us), s')) (ListUsers e s))"

text \<open>The user a request names; the continuation gets it with the state after reading it.\<close>

definition with_user :: "env \<Rightarrow> server \<Rightarrow> web_request \<Rightarrow> (User \<Rightarrow> pg \<Rightarrow> ('a admin_reply \<times> pg) option) \<Rightarrow> pg \<Rightarrow> ('a admin_reply \<times> pg) option" where
  "with_user e srv r k s =
     (let i = TrimSpace (path_var r ''id'') in
      if \<not> sv_storage srv then Some (http_Error ''storage unavailable'' 503, s)
      else if i = [] then Some (http_Error ''missing user id'' 400, s)
      else case GetUser e i s of
        None \<Rightarrow> None
      | Some (None, s1) \<Rightarrow> Some (http_Error ''user not found'' 404, s1)
      | Some (Some user, s1) \<Rightarrow> k user s1)"

definition getAdminUser :: "env \<Rightarrow> server \<Rightarrow> web_request \<Rightarrow> pg \<Rightarrow> (adminUserResponse admin_reply \<times> pg) option" where
  "getAdminUser e srv r = with_user e srv r (\<lambda>user s. Some (Inr (admin_user (SelfRoot srv r) (env_now e (stmt_no s)) user), s))"

text \<open>The two optional fields of the body; null leaves a field nil.\<close>

definition dec_admin_user :: "json \<Rightarrow> (string option \<times> string option) option" where
  "dec_admin_user j = dec_struct
     [(''username'', \<lambda>v (u, d). map_option (\<lambda>x. (x, d)) (dec_str v)),
      (''trakt_display_name'', \<lambda>v (u, d). map_option (\<lambda>x. (u, x)) (dec_str v))] j (None, None)"

text \<open>This handler reads the whole body: text after the document is an error too.\<close>

definition updateAdminUser :: "env \<Rightarrow> server \<Rightarrow> web_request \<Rightarrow> pg \<Rightarrow> (unit admin_reply \<times> pg) option" where
  "updateAdminUser e srv r = with_user e srv r (\<lambda>user s.
     (if wr_Unreadable r then Some (http_Error ''invalid request body'' 400, s)
      else case Option.bind (wr_Body r) dec_admin_user of
        None \<Rightarrow> Some (http_Error ''invalid JSON'' 400, s)
      | Some (username, displayName) \<Rightarrow>
          (let user = (case username of Some u \<Rightarrow> if TrimSpace u \<noteq> [] then user\<lparr>Username := ToLower (TrimSpace u)\<rparr> else user | None \<Rightarrow> user);
               user = (case displayName of Some d \<Rightarrow> user\<lparr>TraktDisplayName := TrimSpace d\<rparr> | None \<Rightarrow> user)
           in map_option (\<lambda>s'. (Inr (), s')) (WriteUser e user s))))"

definition deleteAdminUser :: "env \<Rightarrow> server \<Rightarrow> web_request \<Rightarrow> pg \<Rightarrow> (unit admin_reply \<times> pg) option" where
  "deleteAdminUser e srv r = with_user e srv r (\<lambda>user s.
     (case DeleteUser e (TrimSpace (path_var r ''id'')) (Username user) s of
        (True, s') \<Rightarrow> Some (Inr (), s')
      | (False, s') \<Rightarrow> Some (http_Error ''failed to delete user'' 500, s')))"

text \<open>\<open>updateTraktDisplayName\<close> reads the body before the user.\<close>

definition updateTraktDisplayName :: "env \<Rightarrow> server \<Rightarrow> web_request \<Rightarrow> pg \<Rightarrow> ((string \<times> bool) admin_reply \<times> pg) option" where
  "updateTraktDisplayName e srv r s =
     (let i = TrimSpace (path_var r ''id'') in
      if \<not> sv_storage srv then Some (http_Error ''storage unavailable'' 503, s)
      else if i = [] then Some (http_Error ''missing user id'' 400, s)
      else case Option.bind (wr_Body r) (\<lambda>j. dec_struct [(''display_name'', set_string)] j []) of
        None \<Rightarrow> Some (http_Error ''invalid request body'' 400, s)
      | Some displayName \<Rightarrow> (case GetUser e i s of
          None \<Rightarrow> None
        | Some (None, s1) \<Rightarrow> Some (http_Error ''user not found'' 404, s1)
        | Some (Some user, s1) \<Rightarrow>
            (let trimmed = TrimSpace displayName in
             map_option (\<lambda>(truncated, user', s2). (Inr (TraktDisplayName user', truncated), s2))
               (UpdateDisplayName (WriteUser e) (if trimmed \<noteq> [] then Some trimmed else None) user s1))))"

section \<open>Family groups\<close>

record adminFamilyGroupResponse =
  ag_ID :: string
  ag_PlexUsername :: string
  ag_MemberCount :: int
  ag_AuthorizedCount :: int
  ag_WebhookURL :: string
  ag_CreatedAt :: gotime
  ag_UpdatedAt :: gotime

record adminGroupMemberResponse =
  am_ID :: string
  am_FamilyGroupID :: string
  am_TempLabel :: string
  am_TraktUsername :: string
  am_AuthorizationStatus :: string
  am_TokenExpiry :: "gotime option"
  am_CreatedAt :: gotime
  am_Status :: string

definition admin_group :: "string \<Rightarrow> FamilyGroup \<Rightarrow> GroupMember list \<Rightarrow> adminFamilyGroupResponse" where
  "admin_group selfRoot g members = \<lparr>ag_ID = fg_ID g, ag_PlexUsername = PlexUsername g, ag_MemberCount = int (length members),
     ag_AuthorizedCount = int (length (filter (\<lambda>m. AuthorizationStatus m = ''authorized'') members)),
     ag_WebhookURL = selfRoot @ ''/api?id='' @ fg_ID g, ag_CreatedAt = fg_CreatedAt g, ag_UpdatedAt = fg_UpdatedAt g\<rparr>"

text \<open>The loop over the groups; a group whose members cannot be read is left out.\<close>

fun admin_groups :: "env \<Rightarrow> string \<Rightarrow> FamilyGroup list \<Rightarrow> pg \<Rightarrow> adminFamilyGroupResponse list \<times> pg" where
  "admin_groups e selfRoot [] s = ([], s)"
| "admin_groups e selfRoot (g # gs) s =
     (let (r, s1) = ListGroupMembers e (fg_ID g) s; (rs, s2) = admin_groups e selfRoot gs s1 in
      (case r of Inl _ \<Rightarrow> rs | Inr members \<Rightarrow> admin_group selfRoot g members # rs, s2))"

definition listFamilyGroups :: "env \<Rightarrow> server \<Rightarrow> web_request \<Rightarrow> pg \<Rightarrow> adminFamilyGroupResponse list admin_reply \<times> pg" where
  "listFamilyGroups e srv r s =
     (if \<not> sv_storage srv then (http_Error ''storage unavailable'' 503, s)
      else case ListFamilyGroups e s of
        (Inl _, s1) \<Rightarrow> (http_Error ''failed to list family groups'' 500, s1)
      | (Inr groups, s1) \<Rightarrow> (let (rs, s2) = admin_groups e (SelfRoot srv r) groups s1 in (Inr rs, s2)))"

definition admin_member :: "gotime \<Rightarrow> GroupMember \<Rightarrow> adminGroupMemberResponse" where
  "admin_member now m = \<lparr>am_ID = gm_ID m, am_FamilyGroupID = gm_FamilyGroupID m, am_TempLabel = TempLabel m, am_TraktUsername = TraktUsername m,
     am_AuthorizationStatus = AuthorizationStatus m, am_TokenExpiry = gm_TokenExpiry m, am_CreatedAt = gm_CreatedAt m,
     am_Status = (case gm_TokenExpiry m of
         Some x \<Rightarrow> if AuthorizationStatus m = ''authorized'' then expiry_status now x else AuthorizationStatus m
       | None \<Rightarrow> AuthorizationStatus m)\<rparr>"

definition getFamilyGroupDetail :: "env \<Rightarrow> server \<Rightarrow> web_request \<Rightarrow> pg \<Rightarrow>
    (adminFamilyGroupResponse \<times> adminGroupMemberResponse list) admin_reply \<times> pg" where
  "getFamilyGroupDetail e srv r s =
     (let groupID = TrimSpace (path_var r ''id'') in
      if \<not> sv_storage srv then (http_Error ''storage unavailable'' 503, s)
      else if groupID = [] then (http_Error ''missing group id'' 400, s)
      else case GetFamilyGroup e groupID s of
        (Inl _, s1) \<Rightarrow> (http_Error ''family group not found'' 404, s1)
      | (Inr g, s1) \<Rightarrow> (case ListGroupMembers e groupID s1 of
          (Inl _, s2) \<Rightarrow> (http_Error ''failed to list members'' 500, s2)
        | (Inr members, s2) \<Rightarrow>
            (Inr (admin_group (SelfRoot srv r) g members, map (admin_member (env_now e (stmt_no s2))) members), s2)))"

text \<open>The new member and the link for its authorisation.\<close>

definition addFamilyGroupMember :: "env \<Rightarrow> server \<Rightarrow> string \<Rightarrow> web_request \<Rightarrow> pg \<Rightarrow> (string \<times> string) admin_reply \<times> pg" where
  "addFamilyGroupMember e srv newID r s =
     (let groupID = TrimSpace (path_var r ''id'') in
      if \<not> sv_storage srv then (http_Error ''storage unavailable'' 503, s)
      else if groupID = [] then (http_Error ''missing group id'' 400, s)
      else case Option.bind (wr_Body r) (\<lambda>j. dec_struct [(''label'', set_string)] j []) of
        None \<Rightarrow> (http_Error ''invalid request body'' 400, s)
      | Some l \<Rightarrow>
          (let label = TrimSpace l in
           if label = [] then (http_Error ''label is required'' 400, s)
           else case GetFamilyGroup e groupID s of
             (Inl _, s1) \<Rightarrow> (http_Error ''family group not found'' 404, s1)
           | (Inr _, s1) \<Rightarrow> (case ListGroupMembers e groupID s1 of
               (Inl _, s2) \<Rightarrow> (http_Error ''failed to check member count'' 500, s2)
             | (Inr members, s2) \<Rightarrow>
                 (if length members \<ge> 10 then (http_Error ''maximum 10 members per family group'' 400, s2)
                  else case AddGroupMember e (Some (pending_member newID groupID label (env_now e (stmt_no s2)))) s2 of
                    ((Some _, _), s3) \<Rightarrow> (http_Error ''failed to add member'' 500, s3)
                  | ((None, m), s3) \<Rightarrow> (let memberID = (case m of Some m \<Rightarrow> gm_ID m | None \<Rightarrow> newID) in
                      (Inr (memberID, SelfRoot srv r @ ''/authorize/family/member?group_id='' @ groupID @ ''&member_id='' @ memberID), s3))))))"

definition removeFamilyGroupMember :: "env \<Rightarrow> server \<Rightarrow> web_request \<Rightarrow> pg \<Rightarrow> unit admin_reply \<times> pg" where
  "removeFamilyGroupMember e srv r s =
     (let groupID = TrimSpace (path_var r ''group_id''); memberID = TrimSpace (path_var r ''member_id'') in
      if \<not> sv_storage srv then (http_Error ''storage unavailable'' 503, s)
      else if groupID = [] \<or> memberID = [] then (http_Error ''missing group_id or member_id'' 400, s)
      else case GetGroupMember e memberID s of
        (Inl _, s1) \<Rightarrow> (http_Error ''member not found'' 404, s1)
      | (Inr m, s1) \<Rightarrow>
          (if gm_FamilyGroupID m \<noteq> groupID then (http_Error ''member not found'' 404, s1)
           else case RemoveGroupMember e groupID memberID s1 of
             (Some _, s2) \<Rightarrow> (http_Error ''failed to remove member'' 500, s2)
           | (None, s2) \<Rightarrow> (Inr (), s2)))"

definition deleteFamilyGroup :: "env \<Rightarrow> server \<Rightarrow> web_request \<Rightarrow> pg \<Rightarrow> unit admin_reply \<times> pg" where
  "deleteFamilyGroup e srv r s =
     (let groupID = TrimSpace (path_var r ''id'') in
      if \<not> sv_storage srv then (http_Error ''storage unavailable'' 503, s)
      else if groupID = [] then (http_Error ''missing group id'' 400, s)
      else case GetFamilyGroup e groupID s of
        (Inl _, s1) \<Rightarrow> (http_Error ''family group not found'' 404, s1)
      | (Inr _, s1) \<Rightarrow> (case DeleteFamilyGroup e groupID s1 of
          (Some _, s2) \<Rightarrow> (http_Error ''failed to delete family group'' 500, s2)
        | (None, s2) \<Rightarrow> (Inr (), s2)))"

section \<open>The state of the queues\<close>

record queue_user_info =
  qu_user_id :: string
  qu_username :: string
  qu_trakt_display_name :: string
  qu_queue_size :: int
  qu_status :: string
  qu_oldest :: "(int \<times> gotime) option"
  qu_drain :: "UserDrainInfo option"

record queue_system_info =
  qs_total_users :: int
  qs_users_with_queues :: int
  qs_total_events :: int
  qs_drain_active :: bool
  qs_mode :: string
  qs_last_health_check :: gotime

text \<open>\<open>Duration.Seconds\<close>, then \<open>int64\<close>; Go's integer division truncates.\<close>

definition trunc_div :: "int \<Rightarrow> int \<Rightarrow> int" where
  "trunc_div a b = sgn a * (\<bar>a\<bar> div b)"

definition age_seconds :: "duration \<Rightarrow> int" where
  "age_seconds d = (let sec = trunc_div d Second; nsec = d - sec * Second in
     f64_int64 (rnd (f64 sec + f64_div (f64 nsec) (f64 Second))))"

definition queue_user :: "env \<Rightarrow> DrainStateTracker \<Rightarrow> User \<Rightarrow> pg \<Rightarrow> (queue_user_info \<times> pg) option" where
  "queue_user e d user s =
     (let (size, s1) = GetQueueSize e (usr_ID user) s;
          queueSize = (case size of Inr n \<Rightarrow> n | Inl _ \<Rightarrow> 0)
      in case DequeueScrobbles e (usr_ID user) 1 s1 of
           None \<Rightarrow> None
         | Some (r, s2) \<Rightarrow>
             (let oldest = (case r of Inr (ev # _) \<Rightarrow> Some (age_seconds (env_now e (stmt_no s2) - ev_CreatedAt ev), ev_CreatedAt ev) | _ \<Rightarrow> None);
                  drainInfo = GetUserInfo (usr_ID user) d
              in Some (\<lparr>qu_user_id = usr_ID user, qu_username = Username user, qu_trakt_display_name = TraktDisplayName user,
                   qu_queue_size = queueSize, qu_status = determineQueueStatus queueSize (map_option fst oldest) (drainInfo \<noteq> None),
                   qu_oldest = oldest, qu_drain = drainInfo\<rparr>, s2)))"

fun queue_users :: "env \<Rightarrow> DrainStateTracker \<Rightarrow> User list \<Rightarrow> pg \<Rightarrow> (queue_user_info list \<times> pg) option" where
  "queue_users e d [] s = Some ([], s)"
| "queue_users e d (u # us) s = (case queue_user e d u s of
     None \<Rightarrow> None
   | Some (i, s1) \<Rightarrow> map_option (\<lambda>(infos, s2). (i # infos, s2)) (queue_users e d us s1))"

definition getQueueStatus :: "env \<Rightarrow> server \<Rightarrow> (string set \<Rightarrow> string list) \<Rightarrow> DrainStateTracker \<Rightarrow> pg \<Rightarrow>
    ((queue_system_info \<times> queue_user_info list) admin_reply \<times> pg) option" where
  "getQueueStatus e srv iter d s =
     (if \<not> sv_storage srv then Some (http_Error ''storage unavailable'' 503, s)
      else case ListUsers e s of
        None \<Rightarrow> None
      | Some (us, s1) \<Rightarrow> map_option (\<lambda>(infos, s2). (Inr (
          \<lparr>qs_total_users = int (length us), qs_users_with_queues = int (length (filter (\<lambda>i. qu_queue_size i > 0) infos)),
           qs_total_events = sum_list (map qu_queue_size (filter (\<lambda>i. qu_queue_size i > 0) infos)),
           qs_drain_active = (length (GetAllActiveUsers iter d) > 0), qs_mode = GetMode d, qs_last_health_check = GetLastHealthCheck d\<rparr>, infos), s2))
          (queue_users e d us s1))"

definition getQueueEvents :: "QueueEventLog option \<Rightarrow> QueueLogEvent list admin_reply option" where
  "getQueueEvents l = (case l of
     None \<Rightarrow> Some (http_Error ''queue event log unavailable'' 503)
   | Some l \<Rightarrow> map_option Inr (QueueEventLog_GetRecent 50 l))"

definition getUserQueueDetail :: "env \<Rightarrow> server \<Rightarrow> web_request \<Rightarrow> pg \<Rightarrow>
    ((User \<times> QueuedScrobbleEvent list \<times> (string \<rightharpoonup> int) \<times> (string \<rightharpoonup> int)) admin_reply \<times> pg) option" where
  "getUserQueueDetail e srv r = with_user e srv r (\<lambda>user s.
     (case DequeueScrobbles e (TrimSpace (path_var r ''id'')) 100 s of
        None \<Rightarrow> None
      | Some (Inl _, s1) \<Rightarrow> Some (http_Error ''failed to fetch queue'' 500, s1)
      | Some (Inr events, s1) \<Rightarrow> Some (Inr (user, events, calculateQueueStats events), s1)))"

text \<open>Telemetry is only logged: a body of the right shape is answered with status 204.\<close>

definition telemetryHandler :: "web_request \<Rightarrow> int" where
  "telemetryHandler r = (case Option.bind (wr_Body r) (\<lambda>j. dec_struct
       [(''event'', \<lambda>v (a, b). map_option (\<lambda>x. (x, b)) (set_string v a)), (''mode'', \<lambda>v (a, b). map_option (\<lambda>x. (a, x)) (set_string v b)),
        (''success'', \<lambda>v x. case v of JBool _ \<Rightarrow> Some x | JNull \<Rightarrow> Some x | _ \<Rightarrow> None),
        (''duration_ms'', \<lambda>v x. map_option (\<lambda>_. x) (dec_int v))] j ([], [])) of
     None \<Rightarrow> 400
   | Some _ \<Rightarrow> 204)"

section \<open>The number of members\<close>

definition member_count :: "string \<Rightarrow> pg \<Rightarrow> nat" where
  "member_count gid s = length (filter (\<lambda>r. m_group r = gid) (group_members s))"

lemma AddGroupMember_rows:
  assumes "AddGroupMember e (Some (pending_member i gid label now)) s = ((x, m), s')" "TrimSpace gid = gid" "i \<noteq> []"
  shows "(x \<noteq> None \<and> group_members s' = group_members s) \<or> (x = None \<and> map_option gm_ID m = Some i \<and>
    (\<exists>row. m_id row = i \<and> m_group row = gid \<and> m_status row = ''pending'' \<and> group_members s' = group_members s @ [row]))"
proof -
  let ?m = "pending_member i gid label now"
  have p: "TrimSpace (ToLower ''pending'') = ''pending''" by code_simp
  have d: "default_status ?m = ?m" "lower_trakt ?m = ?m" "gm_ID ?m = i" by (simp_all add: pending_member_def default_status_def lower_trakt_def)
  obtain y where v: "GroupMember_Validate (Some ?m) = (y, Some (GroupMember_Normalize ?m))" by (metis GroupMember_Validate_snd prod.collapse)
  have n: "GroupMember_Normalize ?m = ?m\<lparr>TempLabel := TrimSpace label\<rparr>"
    using assms(2) p by (simp add: GroupMember_Normalize_def pending_member_def)
  have st: "m_id (row_of_member e (GroupMember_Normalize ?m) t) = i" "m_group (row_of_member e (GroupMember_Normalize ?m) t) = gid"
    "m_status (row_of_member e (GroupMember_Normalize ?m) t) = ''pending''" for t
    by (simp_all add: row_of_member_def n) (simp_all add: pending_member_def)
  show ?thesis
  proof (cases y)
    case (Some z)
    then show ?thesis using assms d v by (auto simp: AddGroupMember_def)
  next
    case None
    let ?row = "row_of_member e (GroupMember_Normalize ?m) (env_timestamp e (env_dbnow e (stmt_no s)))"
    have "sql e (\<lambda>_. insert_member ?row) s = (Inr (), (sent s)\<lparr>group_members := group_members s @ [?row]\<rparr>) \<or>
        (\<exists>er. sql e (\<lambda>_. insert_member ?row) s = (Inl er, sent s))"
      using guarded_cases unfolding sql_eq insert_member_def by (auto split: option.split)
    then show ?thesis using assms None d v st by (auto simp: AddGroupMember_def Let_def)
  qed
qed

lemma GetFamilyGroup_tables: "GetFamilyGroup e g s = (r, s') \<Longrightarrow> same_tables s s'"
  by (auto simp: GetFamilyGroup_def sql_eqs Let_def split: if_splits option.splits)

lemma same_tables_members: "same_tables s s' \<Longrightarrow> group_members s' = group_members s"
  by (cases s; cases s') (simp add: same_tables_def)

lemma ListGroupMembers_count:
  assumes "ListGroupMembers e gid s = (Inr ms, s')" "TrimSpace gid = gid"
  shows "length ms = member_count gid s"
  using assms by (auto simp: ListGroupMembers_def sql_eqs order_asc_def member_count_def Let_def split: if_splits option.splits)

text \<open>Either the handler leaves the members alone, or it adds one to a group with room for it.\<close>

lemma addFamilyGroupMember_rows:
  assumes "addFamilyGroupMember e srv newID r s = (reply, s')" "newID \<noteq> []"
  shows "(\<exists>x. reply = Inl x) \<and> group_members s' = group_members s \<or>
    (\<exists>gid row. gid = TrimSpace (path_var r ''id'') \<and> member_count gid s < 10 \<and> m_id row = newID \<and> m_group row = gid \<and> m_status row = ''pending'' \<and>
       group_members s' = group_members s @ [row] \<and>
       reply = Inr (newID, SelfRoot srv r @ ''/authorize/family/member?group_id='' @ gid @ ''&member_id='' @ newID))"
proof -
  let ?g = "TrimSpace (path_var r ''id'')"
  have trim: "TrimSpace ?g = ?g" by simp
  let ?b = "Option.bind (wr_Body r) (\<lambda>j. dec_struct [(''label'', set_string)] j [])"
  show ?thesis
  proof (cases "sv_storage srv \<and> ?g \<noteq> [] \<and> ?b \<noteq> None \<and> TrimSpace (the ?b) \<noteq> []")
    case False
    then show ?thesis using assms(1) by (auto simp: addFamilyGroupMember_def http_Error_def Let_def split: if_splits option.splits)
  next
    case True
    then obtain l where l: "?b = Some l" "TrimSpace l \<noteq> []" "sv_storage srv" "?g \<noteq> []" by auto
    obtain gr s1 where g: "GetFamilyGroup e ?g s = (gr, s1)" by (cases "GetFamilyGroup e ?g s")
    obtain lr s2 where m: "ListGroupMembers e ?g s1 = (lr, s2)" by (cases "ListGroupMembers e ?g s1")
    have rows: "group_members s1 = group_members s" "group_members s2 = group_members s"
      using GetFamilyGroup_tables [OF g] ListGroupMembers_tables [OF m] by (auto dest!: same_tables_members)
    show ?thesis
    proof (cases "\<exists>y ms. gr = Inr y \<and> lr = Inr ms \<and> length ms < 10")
      case False
      then show ?thesis using assms(1) l g m rows
        by (auto simp: addFamilyGroupMember_def http_Error_def Let_def not_less split: sum.splits if_splits)
    next
      case True
      then obtain y ms where y: "gr = Inr y" "lr = Inr ms" "length ms < 10" by blast
      obtain x mm s3 where a: "AddGroupMember e (Some (pending_member newID ?g (TrimSpace l) (env_now e (stmt_no s2)))) s2 = ((x, mm), s3)"
        by (metis prod_cases3 prod.collapse)
      have "member_count ?g s < 10" using ListGroupMembers_count [OF m [unfolded y] trim] y(3) rows(1) by (simp add: member_count_def)
      with AddGroupMember_rows [OF a trim assms(2)] show ?thesis using assms(1) l g m y a rows
        by (cases x) (auto simp: addFamilyGroupMember_def http_Error_def Let_def)
    qed
  qed
qed

text \<open>
  Ten members: adding a member through the administration never lifts a group above ten members, whatever statements
  fail on the way, and a request that is answered with an error leaves all members as they were.
\<close>

theorem added_members_keep_the_limit:
  assumes "addFamilyGroupMember e srv newID r s = (reply, s')" "newID \<noteq> []"
  shows "member_count gid s' \<le> max 10 (member_count gid s) \<and> (isl reply \<longrightarrow> group_members s' = group_members s)"
  using addFamilyGroupMember_rows [OF assms] by (auto simp: member_count_def max_def)

theorem added_members_keep_the_limit_witness:
  "member_count ''g'' (snd (addFamilyGroupMember demo_env running ''m3'' (empty_request\<lparr>wr_Vars := [(''id'', ''g'')],
     wr_Body := Some (JObj [(''label'', JStr ''Kid'')])\<rparr>) demo_family_db)) \<le> 10"
proof -
  have "member_count ''g'' demo_family_db = 2" by (simp add: member_count_def demo_family_db_def demo_member_row_def)
  with added_members_keep_the_limit [OF prod.collapse [symmetric], where newID = "''m3''" and e = demo_env and srv = running and s = demo_family_db
      and r = "empty_request\<lparr>wr_Vars := [(''id'', ''g'')], wr_Body := Some (JObj [(''label'', JStr ''Kid'')])\<rparr>" and gid = "''g''"]
  show ?thesis by simp
qed

text \<open>
  C15. A member added through the administration cannot be authorised: the link the handler returns for that purpose
  carries no session, so that following it only leads back to the start with the message that the session has expired;
  the member stays pending.
\<close>

theorem added_member_link_is_dead:
  assumes "addFamilyGroupMember e srv newID q s = (Inr (mid, url), s')" "newID \<noteq> []"
    and link: "wr_Query r = [(''group_id'', gid), (''member_id'', mid)]" "gid = TrimSpace (path_var q ''id'')"
  shows "url = SelfRoot srv q @ ''/authorize/family/member?group_id='' @ gid @ ''&member_id='' @ mid \<and>
    (\<exists>row \<in> set (group_members s'). m_id row = mid \<and> m_status row = ''pending'') \<and>
    authorizeFamilyMember e srv te ids r (w, st) = Some (family_redirect (SelfRoot srv r) [] [(''result'', ''error''),
      (''error'', ''Authorization session expired. Please start again.'')], w, st)"
proof -
  have "arg r ''state'' = []" using link(1) by (simp add: arg_def)
  then have "authorizeFamilyMember e srv te ids r (w, st) = Some (family_redirect (SelfRoot srv r) [] [(''result'', ''error''),
      (''error'', ''Authorization session expired. Please start again.'')], w, st)"
    by (simp add: authorizeFamilyMember_def Get_def Let_def)
  then show ?thesis using addFamilyGroupMember_rows [OF assms(1,2)] link(2) by auto
qed

theorem added_member_link_is_dead_witness:
  "\<exists>mid url s'. addFamilyGroupMember demo_env running ''m3'' (empty_request\<lparr>wr_Vars := [(''id'', ''g'')],
      wr_Body := Some (JObj [(''label'', JStr ''Kid'')])\<rparr>) demo_family_db = (Inr (mid, url), s') \<and>
     url = ''http://localhost/authorize/family/member?group_id=g&member_id=m3''"
proof -
  let ?q = "empty_request\<lparr>wr_Vars := [(''id'', ''g'')], wr_Body := Some (JObj [(''label'', JStr ''Kid'')])\<rparr>"
  have f: "TrimSpace (path_var ?q ''id'') = ''g''" "Option.bind (wr_Body ?q) (\<lambda>j. dec_struct [(''label'', set_string)] j []) = Some ''Kid''"
    "TrimSpace ''Kid'' = ''Kid''" "TrimSpace ''g'' = ''g''" "SelfRoot running ?q = ''http://localhost''" by code_simp+
  have g: "GetFamilyGroup demo_env ''g'' demo_family_db = (Inr \<lparr>fg_ID = ''g'', PlexUsername = ''home'', fg_CreatedAt = 1, fg_UpdatedAt = 1\<rparr>, sent demo_family_db)"
    using f(4) by (simp add: GetFamilyGroup_def sql_query_eq) (simp add: demo_family_db_def)
  have up: "healthy demo_env (sent (sent demo_family_db))" by simp
  obtain m s3 where a: "AddGroupMember demo_env (Some (pending_member ''m3'' ''g'' ''Kid'' (env_now demo_env (stmt_no (sent (sent demo_family_db))))))
      (sent (sent demo_family_db)) = ((None, Some m), s3)"
    using AddGroupMember_pending(2) [OF up f(4), of "''m3''" "''Kid''" "env_now demo_env (stmt_no (sent (sent demo_family_db)))"] f(3)
    by (auto simp: demo_family_db_def demo_member_row_def)
  have n: "length (order_asc m_created (filter (\<lambda>r. m_group r = ''g'') (group_members demo_family_db))) = 2"
    by (simp add: order_asc_def demo_family_db_def demo_member_row_def)
  obtain url where add: "addFamilyGroupMember demo_env running ''m3'' ?q demo_family_db = (Inr (gm_ID m, url), s3)"
    using f g a n ListGroupMembers_healthy [OF demo_healthy f(4), of "sent demo_family_db"]
    by (simp add: addFamilyGroupMember_def Let_def running_def)
  from added_member_link_is_dead [OF add, of "empty_request\<lparr>wr_Query := [(''group_id'', ''g''), (''member_id'', gm_ID m)]\<rparr>" "''g''"] f(1,5)
    addFamilyGroupMember_rows [OF add]
  show ?thesis using add by auto
qed

section \<open>The figures of the monitor\<close>

lemma length_by_key:
  assumes "distinct ids" "f ` set xs \<subseteq> set ids"
  shows "sum_list (map (\<lambda>i. length (filter (\<lambda>x. f x = i) xs)) ids) = length xs"
  using assms
proof (induction xs)
  case (Cons x xs)
  have "sum_list (map (\<lambda>i. length (filter (\<lambda>y. f y = i) (x # xs))) ids) = (\<Sum>i \<in> set ids. (if f x = i then 1 else 0) + length (filter (\<lambda>y. f y = i) xs))"
    using Cons.prems(1) by (subst sum_list_distinct_conv_sum_set) (auto intro!: sum.cong)
  also have "\<dots> = 1 + sum_list (map (\<lambda>i. length (filter (\<lambda>y. f y = i) xs)) ids)"
    using Cons.prems by (simp add: sum.distrib sum_list_distinct_conv_sum_set)
  finally show ?case using Cons by simp
qed simp

text \<open>What the monitor says about one user.\<close>

definition info_of :: "DrainStateTracker \<Rightarrow> pg \<Rightarrow> User \<Rightarrow> queue_user_info \<Rightarrow> bool" where
  "info_of d s u i \<longleftrightarrow> qu_user_id i = usr_ID u \<and> qu_username i = Username u \<and> qu_queue_size i = int (length (user_queue (usr_ID u) s)) \<and>
     (qu_status i = ''healthy'' \<longleftrightarrow> user_queue (usr_ID u) s = []) \<and>
     (qu_status i = ''draining'' \<longleftrightarrow> user_queue (usr_ID u) s \<noteq> [] \<and> activeUsers d (usr_ID u) \<noteq> None)"

lemma same_tables_queue: "same_tables s s' \<Longrightarrow> user_queue u s' = user_queue u s"
  by (cases s; cases s') (simp add: same_tables_def user_queue_def)

lemma same_tables_sent: "same_tables s s' \<Longrightarrow> same_tables s (sent s')"
  using same_tables_trans same_tables_refl(2) by blast

lemma queue_user_healthy:
  assumes "healthy e s" "list_all decodes (user_queue (usr_ID u) s)"
  shows "\<exists>i s'. queue_user e d u s = Some (i, s') \<and> info_of d s u i \<and> same_tables s s' \<and> healthy e s'"
proof -
  have size: "GetQueueSize e (usr_ID u) s = (Inr (int (length (user_queue (usr_ID u) s))), sent s)"
    using assms(1) by (simp add: GetQueueSize_def sql_query_eq user_queue_def)
  have up: "healthy e (sent s)" by (rule healthy_Suc [OF assms(1)]) simp
  have q: "user_queue (usr_ID u) (sent s) = user_queue (usr_ID u) s" by (simp add: user_queue_def)
  have "DequeueScrobbles e (usr_ID u) 1 (sent s) =
      Some (Inr (map row_event (take 1 (order_asc q_created (user_queue (usr_ID u) s)))), sent (sent s))"
    using DequeueScrobbles_healthy [OF up, of 1 "usr_ID u"] assms(2) q by simp
  moreover have "healthy e (sent (sent s))" by (rule healthy_Suc [OF assms(1)]) simp
  ultimately show ?thesis using size
    by (auto simp: queue_user_def info_of_def determineQueueStatus_def GetUserInfo_def Let_def same_tables_sent split: option.splits)
qed

lemma queue_users_healthy:
  assumes "healthy e s" "list_all decodes (queued_scrobbles s)"
  shows "\<exists>infos s'. queue_users e d us s = Some (infos, s') \<and> list_all2 (info_of d s) us infos \<and> same_tables s s'"
  using assms
proof (induction us arbitrary: s)
  case (Cons u us)
  have "list_all decodes (user_queue (usr_ID u) s)" using Cons.prems(2) by (auto simp: list_all_iff user_queue_def)
  from queue_user_healthy [OF Cons.prems(1) this] obtain i s1 where
    i: "queue_user e d u s = Some (i, s1)" "info_of d s u i" "same_tables s s1" "healthy e s1" by blast
  have "queued_scrobbles s1 = queued_scrobbles s" using i(3) by (cases s; cases s1) (simp add: same_tables_def)
  with Cons.IH [OF i(4)] Cons.prems(2) obtain infos s' where
    r: "queue_users e d us s1 = Some (infos, s')" "list_all2 (info_of d s1) us infos" "same_tables s1 s'" by auto
  have "info_of d s1 = info_of d s" by (intro ext) (simp add: info_of_def same_tables_queue [OF i(3)])
  with i r show ?case by (auto intro: same_tables_trans)
qed simp

text \<open>
  C16. The monitor's figures are right: on a working database with intact events it lists every user with the length of
  that user's queue, calls a user healthy exactly when the queue is empty and draining exactly when events wait while
  a drain for that user runs, and its totals are the number of users, of users with events and of all queued
  events of the database; looking changes nothing.
\<close>

theorem queue_monitor_figures:
  assumes "healthy e s" "schema_ok s" "list_all decodes (queued_scrobbles s)" "sv_storage srv"
  shows "\<exists>sys infos s'. getQueueStatus e srv iter d s = Some (Inr (sys, infos), s') \<and> same_tables s s' \<and>
    list_all2 (info_of d s) (map user_of_row (order_desc u_updated (users s))) infos \<and>
    qs_total_users sys = int (length (users s)) \<and> qs_total_events sys = int (length (queued_scrobbles s)) \<and>
    qs_users_with_queues sys = int (length (filter (\<lambda>r. user_queue (u_id r) s \<noteq> []) (users s)))"
proof -
  let ?rows = "order_desc u_updated (users s)"
  let ?us = "map user_of_row ?rows"
  have up: "healthy e (sent s)" by (rule healthy_Suc [OF assms(1)]) simp
  have list: "ListUsers e s = Some (?us, sent s)" using assms(1) by (simp add: ListUsers_def sql_query_eq)
  obtain infos s' where q: "queue_users e d ?us (sent s) = Some (infos, s')" "list_all2 (info_of d (sent s)) ?us infos" "same_tables (sent s) s'"
    using queue_users_healthy [OF up, of d ?us] assms(3) by auto
  have "info_of d (sent s) = info_of d s" by (intro ext) (simp add: info_of_def user_queue_def)
  then have infos: "list_all2 (info_of d s) ?us infos" using q(2) by simp
  have size: "map qu_queue_size infos = map (\<lambda>r. int (length (user_queue (u_id r) s))) ?rows"
    using infos by (auto simp: list_all2_conv_all_nth info_of_def user_of_row_def Let_def intro!: nth_equalityI)
  have total: "sum_list (map qu_queue_size (filter (\<lambda>i. qu_queue_size i > 0) infos)) = sum_list (map qu_queue_size infos)"
  proof -
    have "\<forall>x \<in> set (map qu_queue_size infos). 0 \<le> x" unfolding size by auto
    then show ?thesis by (induction infos) auto
  qed
  have perm: "mset ?rows = mset (users s)" by (simp add: order_desc_def)
  have ids: "distinct (map u_id ?rows)" "q_user_id ` set (queued_scrobbles s) \<subseteq> set (map u_id ?rows)"
    using assms(2) by (auto simp: schema_ok_def table_ok_defs order_desc_def distinct_map)
  have "sum_list (map qu_queue_size infos) = int (sum_list (map (\<lambda>i. length (filter (\<lambda>r. q_user_id r = i) (queued_scrobbles s))) (map u_id ?rows)))"
    unfolding size by (simp add: user_queue_def comp_def flip: sum_list_of_nat)
  then have events: "sum_list (map qu_queue_size infos) = int (length (queued_scrobbles s))" using length_by_key [OF ids] by simp
  have "length (filter (\<lambda>i. qu_queue_size i > 0) infos) = length (filter (\<lambda>n. n > 0) (map qu_queue_size infos))" by (simp add: filter_map comp_def)
  also have "\<dots> = size (filter_mset (\<lambda>r. user_queue (u_id r) s \<noteq> []) (mset ?rows))" unfolding size by (simp add: filter_map comp_def flip: mset_filter)
  also have "\<dots> = length (filter (\<lambda>r. user_queue (u_id r) s \<noteq> []) (users s))" unfolding perm by (simp flip: mset_filter)
  finally have "length (filter (\<lambda>i. qu_queue_size i > 0) infos) = length (filter (\<lambda>r. user_queue (u_id r) s \<noteq> []) (users s))" .
  moreover have "length ?rows = length (users s)" by (simp add: order_desc_def)
  ultimately show ?thesis using assms(4) list q(1) same_tables_trans [OF same_tables_refl(2) q(3)] infos total events
    by (auto simp: getQueueStatus_def)
qed

theorem queue_monitor_figures_witness:
  "\<exists>sys infos s'. getQueueStatus demo_env running (\<lambda>_. []) NewDrainStateTracker demo_db = Some (Inr (sys, infos), s') \<and>
     qs_total_users sys = 1 \<and> qs_total_events sys = 0"
proof -
  have "schema_ok demo_db" by (simp add: schema_ok_def table_ok_defs demo_db_def demo_user_row_def pg_empty_def)
  moreover have "list_all decodes (queued_scrobbles demo_db)" by (simp add: demo_db_def pg_empty_def)
  moreover have "sv_storage running" by (simp add: running_def)
  ultimately show ?thesis
    using queue_monitor_figures [OF demo_healthy, of demo_db running "\<lambda>_. []" NewDrainStateTracker] by (auto simp: demo_db_def pg_empty_def)
qed

end
