(* ===== verification/Time_Text.thy ===== *)
theory Time_Text
  imports Prelude "HOL-Library.Monad_Syntax"
begin

text \<open>
  The text forms of instants that the file and the Redis store use (Go's package \<open>time\<close>):
  the date of a user's last update (layout \<open>01-02-2006\<close>), the token expiry (\<open>RFC3339\<close>), and the JSON
  form of a time (\<open>RFC3339\<close> with the fraction of a second).  The calendar is the proleptic
  Gregorian one; day 0 is the first of January of year 1, Go's zero time.  Formatting is for
  a process whose local zone is UTC; parsing accepts every numeric zone.  A time that is
  parsed is the instant it denotes, as everywhere in this development.
\<close>

section \<open>Calendar\<close>

definition Day :: duration where
  "Day = 24 * Hour"

definition leap :: "int \<Rightarrow> bool" where
  "leap y \<longleftrightarrow> y mod 4 = 0 \<and> (y mod 100 \<noteq> 0 \<or> y mod 400 = 0)"

text \<open>The number of the first day of a year, and the year of a day.\<close>

definition days_before_year :: "int \<Rightarrow> int" where
  "days_before_year y = (let n = y - 1 in 365 * n + n div 4 - n div 100 + n div 400)"

definition year_of_day :: "int \<Rightarrow> int" where
  "year_of_day d = (let y = d * 400 div 146097 + 1 in
     if days_before_year (y + 1) \<le> d then y + 1 else if d < days_before_year y then y - 1 else y)"

definition month_days :: "bool \<Rightarrow> nat list" where
  "month_days lp = [31, if lp then 29 else 28, 31, 30, 31, 30, 31, 31, 30, 31, 30, 31]"

text \<open>The place of a day within consecutive stretches of the given lengths.\<close>

fun split_days :: "nat list \<Rightarrow> nat \<Rightarrow> nat \<times> nat" where
  "split_days [] d = (0, d)"
| "split_days (l # ls) d = (if d < l then (0, d) else (case split_days ls (d - l) of (m, r) \<Rightarrow> (Suc m, r)))"

text \<open>Year, month (from 1) and day of the month (from 1) of a day, and back.\<close>

definition civil :: "int \<Rightarrow> int \<times> nat \<times> nat" where
  "civil d = (let y = year_of_day d in
     case split_days (month_days (leap y)) (nat (d - days_before_year y)) of (m, r) \<Rightarrow> (y, Suc m, Suc r))"

definition day_of_civil :: "int \<Rightarrow> nat \<Rightarrow> nat \<Rightarrow> int" where
  "day_of_civil y m d = days_before_year y + int (sum_list (take (m - 1) (month_days (leap y))) + d) - 1"

definition valid_date :: "int \<Rightarrow> nat \<Rightarrow> nat \<Rightarrow> bool" where
  "valid_date y m d \<longleftrightarrow> 1 \<le> m \<and> m \<le> 12 \<and> 1 \<le> d \<and> d \<le> month_days (leap y) ! (m - 1)"

lemma div_bounds: "0 < k \<Longrightarrow> k * (n div k) \<le> n \<and> n < k * (n div k) + k" for n k :: int
  using mult_div_mod_eq [of k n] pos_mod_bound [of k n] pos_mod_sign [of k n] by linarith

lemma div_succ:
  fixes n k :: int
  assumes "0 < k"
  shows "(n + 1) div k = n div k + (if (n + 1) mod k = 0 then 1 else 0)"
proof -
  let ?q = "(n + 1) div k" and ?r = "(n + 1) mod k"
  have n: "k * ?q + ?r - 1 = n" using mult_div_mod_eq [of k "n + 1"] by linarith
  have r: "0 \<le> ?r" "?r < k" using assms by simp_all
  have "n div k = ?q - 1" if "?r = 0"
  proof (rule int_div_pos_eq [of _ _ _ "k - 1"])
    have "k * (?q - 1) = k * ?q - k" by (simp add: right_diff_distrib)
    with n that show "n = k * (?q - 1) + (k - 1)" by linarith
  qed (use assms in simp_all)
  moreover have "n div k = ?q" if "?r \<noteq> 0"
  proof (rule int_div_pos_eq [of _ _ _ "?r - 1"])
    show "n = k * ?q + (?r - 1)" using n by linarith
  qed (use that r in linarith)+
  ultimately show ?thesis by simp
qed

lemma year_length: "days_before_year (y + 1) = days_before_year y + (if leap y then 366 else 365)"
proof -
  obtain n where y: "y = n + 1" by (metis diff_add_cancel)
  define A B C where "A \<longleftrightarrow> (n + 1) mod 4 = 0" and "B \<longleftrightarrow> (n + 1) mod 100 = 0" and "C \<longleftrightarrow> (n + 1) mod 400 = 0"
  have "C \<Longrightarrow> B" "B \<Longrightarrow> A"
    unfolding A_def B_def C_def
    using mod_mod_cancel [of 100 400 "n + 1"] mod_mod_cancel [of 4 100 "n + 1"] by simp_all
  moreover have "days_before_year (y + 1) - days_before_year y =
      365 + (if A then 1 else 0) - (if B then 1 else 0) + (if C then 1 else 0)"
  proof -
    have days: "days_before_year (y + 1) = 365 * (n + 1) + (n + 1) div 4 - (n + 1) div 100 + (n + 1) div 400"
      "days_before_year y = 365 * n + n div 4 - n div 100 + n div 400"
      by (simp_all only: days_before_year_def y Let_def add_diff_cancel_right')
    have diff: "d' - d = 365 + x - v + z"
      if "d' = 365 * (n + 1) + a' - b' + c'" "d = 365 * n + a - b + c" "a' = a + x" "b' = b + v" "c' = c + z"
      for d' d a' a b' b c' c x v z :: int using that by simp
    show ?thesis unfolding A_def B_def C_def by (rule diff [OF days]) (rule div_succ, simp)+
  qed
  moreover have "leap y \<longleftrightarrow> A \<and> (\<not> B \<or> C)" by (simp add: leap_def y A_def B_def C_def)
  ultimately show ?thesis by (cases A; cases B; cases C) auto
qed

lemma days_before_year_bounds:
  "146097 * (y - 1) - 800 \<le> 400 * days_before_year y" "400 * days_before_year y \<le> 146097 * (y - 1) + 400"
proof -
  define n where "n = y - 1"
  note b = div_bounds [of 4 n] div_bounds [of 100 n] div_bounds [of 400 n]
  show "146097 * (y - 1) - 800 \<le> 400 * days_before_year y" "400 * days_before_year y \<le> 146097 * (y - 1) + 400"
    unfolding days_before_year_def Let_def n_def [symmetric] using b by simp_all
qed

lemma year_of_day:
  "days_before_year (year_of_day d) \<le> d" "d < days_before_year (year_of_day d + 1)"
proof -
  define n where "n = d * 400 div 146097"
  have n: "146097 * n \<le> 400 * d" "400 * d < 146097 * n + 146097"
    unfolding n_def using div_bounds [of 146097 "d * 400"] by simp_all
  have "days_before_year n \<le> d" using days_before_year_bounds(2) [of n] n by simp
  moreover have "d < days_before_year (n + 3)" using days_before_year_bounds(1) [of "n + 3"] n by simp
  ultimately show "days_before_year (year_of_day d) \<le> d" "d < days_before_year (year_of_day d + 1)"
    by (auto simp: year_of_day_def Let_def add.assoc simp flip: n_def)
qed

lemma days_before_year_less: "y < z \<Longrightarrow> days_before_year y < days_before_year z"
proof (induction z rule: int_gr_induct [of y])
  case base
  show ?case using year_length [of y] by simp
next
  case (step z)
  then show ?case using year_length [of z] by (simp split: if_splits)
qed

lemma year_of_day_unique: "days_before_year y \<le> d \<Longrightarrow> d < days_before_year (y + 1) \<Longrightarrow> year_of_day d = y"
  using year_of_day [of d] days_before_year_less [of "y + 1" "year_of_day d"]
    days_before_year_less [of "year_of_day d + 1" y] days_before_year_less [of "year_of_day d + 1" "y"]
  by (smt (verit))

lemma split_days_spec:
  "d < sum_list ls \<Longrightarrow> split_days ls d = (m, r) \<Longrightarrow> m < length ls \<and> r < ls ! m \<and> sum_list (take m ls) + r = d"
proof (induction ls d arbitrary: m r rule: split_days.induct)
  case (2 l ls d)
  show ?case
  proof (cases "d < l")
    case False
    obtain m' r' where "split_days ls (d - l) = (m', r')" by fastforce
    with "2.IH" [OF False, of m' r'] "2.prems" False have "sum_list (take m' ls) + r = d - l \<and> m = Suc m' \<and> m' < length ls \<and> r < ls ! m'"
      by auto
    with False show ?thesis by auto
  qed (use 2 in auto)
qed simp

lemma split_days_sum:
  "m < length ls \<Longrightarrow> r < ls ! m \<Longrightarrow> split_days ls (sum_list (take m ls) + r) = (m, r)"
  by (induction ls arbitrary: m) (auto simp: take_Cons' nth_Cons')

lemma sum_month_days: "sum_list (month_days lp) = (if lp then 366 else 365)"
  by (simp add: month_days_def)

text \<open>The calendar is a bijection between day numbers and valid dates.\<close>

lemma civil_valid:
  assumes "civil d = (y, m, k)"
  shows "valid_date y m k" "day_of_civil y m k = d" "y = year_of_day d"
proof -
  let ?y = "year_of_day d"
  let ?n = "nat (d - days_before_year ?y)"
  obtain i r where ir: "split_days (month_days (leap ?y)) ?n = (i, r)" by fastforce
  with assms have c: "y = ?y" "m = Suc i" "k = Suc r" by (auto simp: civil_def Let_def)
  have n: "int ?n = d - days_before_year ?y" using year_of_day(1) [of d] by simp
  have "?n < sum_list (month_days (leap ?y))"
    using year_of_day [of d] year_length [of ?y] by (auto simp: sum_month_days nat_less_iff split: if_splits)
  from split_days_spec [OF this ir] have s: "i < 12" "r < month_days (leap ?y) ! i" "sum_list (take i (month_days (leap ?y))) + r = ?n"
    by (simp_all add: month_days_def)
  then show "valid_date y m k" "y = year_of_day d" by (simp_all add: valid_date_def c)
  show "day_of_civil y m k = d" using s(3) n by (simp add: day_of_civil_def c)
qed

definition Unix :: "gotime \<Rightarrow> int" where
  "Unix t = t div Second - 62135596800"

section \<open>Formatting\<close>

definition digit :: "nat \<Rightarrow> char" where
  "digit n = char_of (48 + n)"

primrec fixed_digits :: "nat \<Rightarrow> nat \<Rightarrow> string" where
  "fixed_digits 0 n = []"
| "fixed_digits (Suc w) n = fixed_digits w (n div 10) @ [digit (n mod 10)]"

text \<open>\<open>appendInt\<close>: a decimal number with zeros in front up to a width.\<close>

definition appendInt :: "nat \<Rightarrow> int \<Rightarrow> string" where
  "appendInt w n = (let k = nat \<bar>n\<bar> in (if n < 0 then ''-'' else []) @ (if k < 10 ^ w then fixed_digits w k else digits k))"

definition day_no :: "gotime \<Rightarrow> int" where
  "day_no t = t div Day"

definition Format_date :: "gotime \<Rightarrow> string" where
  "Format_date t = (case civil (day_no t) of (y, m, d) \<Rightarrow>
     appendInt 2 (int m) @ ''-'' @ appendInt 2 (int d) @ ''-'' @ appendInt 4 y)"

definition format_seconds :: "gotime \<Rightarrow> string" where
  "format_seconds t = (case civil (day_no t) of (y, m, d) \<Rightarrow>
     appendInt 4 y @ ''-'' @ appendInt 2 (int m) @ ''-'' @ appendInt 2 (int d) @ ''T'' @
     appendInt 2 (t mod Day div Hour) @ '':'' @ appendInt 2 (t mod Hour div Minute) @ '':'' @
     appendInt 2 (t mod Minute div Second))"

definition Format_RFC3339 :: "gotime \<Rightarrow> string" where
  "Format_RFC3339 t = format_seconds t @ ''Z''"

text \<open>The fraction of a second, without trailing zeros, and nothing when it is 0.\<close>

definition format_fraction :: "nat \<Rightarrow> string" where
  "format_fraction n = (if n = 0 then []
     else ''.'' @ rev (dropWhile (\<lambda>c. c = CHR ''0'') (rev (fixed_digits 9 n))))"

text \<open>\<open>Time.MarshalJSON\<close> (the text without its quotes): refused for years that do not have four digits.\<close>

definition Time_MarshalText :: "gotime \<Rightarrow> string option" where
  "Time_MarshalText t = (let y = year_of_day (day_no t) in if 0 \<le> y \<and> y \<le> 9999
     then Some (format_seconds t @ format_fraction (nat (t mod Second)) @ ''Z'') else None)"

section \<open>Parsing\<close>

definition isDigit :: "char \<Rightarrow> bool" where
  "isDigit c \<longleftrightarrow> 48 \<le> (of_char c :: nat) \<and> (of_char c :: nat) \<le> 57"

definition dval :: "char \<Rightarrow> nat" where
  "dval c = of_char c - 48"

text \<open>\<open>getnum\<close>: two digits, or one when they are not fixed.\<close>

fun getnum :: "bool \<Rightarrow> string \<Rightarrow> (nat \<times> string) option" where
  "getnum fixed (a # b # s) = (if \<not> isDigit a then None
     else if isDigit b then Some (10 * dval a + dval b, s)
     else if fixed then None else Some (dval a, b # s))"
| "getnum fixed [a] = (if isDigit a \<and> \<not> fixed then Some (dval a, []) else None)"
| "getnum fixed [] = None"

definition getyear :: "string \<Rightarrow> (int \<times> string) option" where
  "getyear s = (if 4 \<le> length s \<and> list_all isDigit (take 4 s) then Some (int (undigits (take 4 s)), drop 4 s) else None)"

fun skip_char :: "char \<Rightarrow> string \<Rightarrow> string option" where
  "skip_char c (x # s) = (if x = c then Some s else None)"
| "skip_char c [] = None"

text \<open>A number within bounds.\<close>

definition within :: "nat \<Rightarrow> nat \<Rightarrow> (nat \<times> string) option \<Rightarrow> (nat \<times> string) option" where
  "within lo hi r = (case r of Some (n, s) \<Rightarrow> if lo \<le> n \<and> n \<le> hi then Some (n, s) else None | None \<Rightarrow> None)"

definition Parse_date :: "string \<Rightarrow> gotime option" where
  "Parse_date s = do {
     (m, s) \<leftarrow> within 1 12 (getnum True s);
     s \<leftarrow> skip_char (CHR ''-'') s;
     (d, s) \<leftarrow> getnum True s;
     s \<leftarrow> skip_char (CHR ''-'') s;
     (y, s) \<leftarrow> getyear s;
     if s = [] \<and> valid_date y m d then Some (day_of_civil y m d * Day) else None }"

text \<open>
  A fraction of a second after the seconds is accepted although the layout has none: a point
  or a comma and digits, of which nine count.
\<close>

definition getfraction :: "string \<Rightarrow> nat \<times> string" where
  "getfraction s = (case s of
     p # c # r \<Rightarrow>
       (if (p = CHR ''.'' \<or> p = CHR '','') \<and> isDigit c
        then (let ds = takeWhile isDigit (c # r); k = take 9 ds in
              (undigits k * 10 ^ (9 - length k), dropWhile isDigit (c # r)))
        else (0, s))
   | _ \<Rightarrow> (0, s))"

text \<open>The zone: \<open>Z\<close>, or a sign and hours and minutes; the offset in minutes.\<close>

definition getzone :: "string \<Rightarrow> (int \<times> string) option" where
  "getzone s = (case s of
     [] \<Rightarrow> None
   | z # r \<Rightarrow>
       (if z = CHR ''Z'' then Some (0, r)
        else if z = CHR ''+'' \<or> z = CHR ''-'' then do {
          (h, r) \<leftarrow> within 0 24 (getnum True r);
          r \<leftarrow> skip_char (CHR '':'') r;
          (m, r) \<leftarrow> within 0 60 (getnum True r);
          Some ((if z = CHR ''-'' then -1 else 1) * int (60 * h + m), r) }
        else None))"

definition Parse_RFC3339 :: "string \<Rightarrow> gotime option" where
  "Parse_RFC3339 s = do {
     (y, s) \<leftarrow> getyear s;
     s \<leftarrow> skip_char (CHR ''-'') s;
     (mo, s) \<leftarrow> within 1 12 (getnum True s);
     s \<leftarrow> skip_char (CHR ''-'') s;
     (d, s) \<leftarrow> getnum True s;
     s \<leftarrow> skip_char (CHR ''T'') s;
     (h, s) \<leftarrow> within 0 23 (getnum False s);
     s \<leftarrow> skip_char (CHR '':'') s;
     (mi, s) \<leftarrow> within 0 59 (getnum True s);
     s \<leftarrow> skip_char (CHR '':'') s;
     (sec, s) \<leftarrow> within 0 59 (getnum True s);
     let (ns, s) = getfraction s;
     (z, s) \<leftarrow> getzone s;
     if s = [] \<and> valid_date y mo d
     then Some (day_of_civil y mo d * Day + int h * Hour + int mi * Minute + int sec * Second + int ns - z * Minute)
     else None }"

text \<open>
  \<open>Time.UnmarshalJSON\<close>, on the text between the quotes, is stricter: two digits for the hour,
  no comma, and a zone offset of less than a day.
\<close>

definition strict_time :: "string \<Rightarrow> bool" where
  "strict_time s \<longleftrightarrow> length s > 19 \<and> s ! 12 \<noteq> CHR '':'' \<and> s ! 19 \<noteq> CHR '','' \<and>
     (last s = CHR ''Z'' \<or>
      (let z = drop (length s - 5) s in undigits (take 2 z) \<le> 23 \<and> undigits (drop 3 z) \<le> 59))"

definition Time_UnmarshalText :: "string \<Rightarrow> gotime option" where
  "Time_UnmarshalText s = (case Parse_RFC3339 s of None \<Rightarrow> None | Some t \<Rightarrow> if strict_time s then Some t else None)"

section \<open>Round trips\<close>

lemma isDigit_digit [simp]: "n < 10 \<Longrightarrow> isDigit (digit n)" and dval_digit [simp]: "n < 10 \<Longrightarrow> dval (digit n) = n"
  by (simp_all add: isDigit_def dval_def digit_def)

lemma digit_neq [simp]:
  "n < 10 \<Longrightarrow> digit n \<noteq> CHR '':''" "n < 10 \<Longrightarrow> digit n \<noteq> CHR '',''" 
  by (auto simp: digit_def dest!: arg_cong [of _ _ "of_char :: char \<Rightarrow> nat"])

lemma length_fixed_digits [simp]: "length (fixed_digits w n) = w"
  by (induction w arbitrary: n) simp_all

lemma fixed_digits_isDigit: "list_all isDigit (fixed_digits w n)"
  by (induction w arbitrary: n) simp_all

lemma undigits_append: "undigits (s @ [c]) = 10 * undigits s + dval c"
  by (simp add: undigits_def dval_def)

lemma undigits_fixed: "n < 10 ^ w \<Longrightarrow> undigits (fixed_digits w n) = n"
proof (induction w arbitrary: n)
  case 0
  then show ?case by (simp add: undigits_def)
next
  case (Suc w)
  then have "n div 10 < 10 ^ w" by (simp add: less_mult_imp_div_less mult.commute)
  with Suc show ?case by (simp add: undigits_append)
qed

lemma undigits_zeros: "undigits (s @ replicate k (CHR ''0'')) = undigits s * 10 ^ k"
proof (induction k arbitrary: s)
  case (Suc k)
  from Suc [of "s @ ''0''"] show ?case by (simp add: undigits_append dval_def)
qed simp

lemma appendInt_small: "0 \<le> n \<Longrightarrow> nat n < 10 ^ w \<Longrightarrow> appendInt w n = fixed_digits w (nat n)"
  by (simp add: appendInt_def Let_def)

lemma getnum_two: "n < 100 \<Longrightarrow> getnum b (fixed_digits 2 n @ s) = Some (n, s)"
proof -
  assume "n < 100"
  then have "n div 10 mod 10 = n div 10" by (simp add: less_mult_imp_div_less)
  then show ?thesis by (simp add: numeral_2_eq_2)
qed

lemma getyear_four: "n < 10000 \<Longrightarrow> getyear (fixed_digits 4 n @ s) = Some (int n, s)"
  by (simp add: getyear_def fixed_digits_isDigit undigits_fixed)

text \<open>The fields of an instant within a day.\<close>

lemma Day_pos: "0 < Day" "0 < Hour" "0 < Minute" "0 < Second"
  by (simp_all add: Day_def time_defs)

definition hours :: "gotime \<Rightarrow> nat" where
  "hours t = nat (t mod Day div Hour)"

definition minutes :: "gotime \<Rightarrow> nat" where
  "minutes t = nat (t mod Hour div Minute)"

definition seconds :: "gotime \<Rightarrow> nat" where
  "seconds t = nat (t mod Minute div Second)"

lemma clock_fields:
  "hours t < 24" "minutes t < 60" "seconds t < 60"
  "day_no t * Day + int (hours t) * Hour + int (minutes t) * Minute + int (seconds t) * Second + t mod Second = t"
  "appendInt 2 (t mod Day div Hour) = fixed_digits 2 (hours t)"
  "appendInt 2 (t mod Hour div Minute) = fixed_digits 2 (minutes t)"
  "appendInt 2 (t mod Minute div Second) = fixed_digits 2 (seconds t)"
proof -
  have h: "t mod Day div Hour < 24" "0 \<le> t mod Day div Hour"
    using pos_mod_bound [of Day t] pos_mod_sign [of Day t] by (simp_all add: Day_def time_defs div_less_iff_less_mult)
  have m: "t mod Hour div Minute < 60" "0 \<le> t mod Hour div Minute"
    using pos_mod_bound [of Hour t] pos_mod_sign [of Hour t] by (simp_all add: Day_def time_defs)
  have s: "t mod Minute div Second < 60" "0 \<le> t mod Minute div Second"
    using pos_mod_bound [of Minute t] pos_mod_sign [of Minute t] by (simp_all add: Day_def time_defs)
  show "hours t < 24" "minutes t < 60" "seconds t < 60" using h m s by (simp_all add: hours_def minutes_def seconds_def)
  show "appendInt 2 (t mod Day div Hour) = fixed_digits 2 (hours t)"
    "appendInt 2 (t mod Hour div Minute) = fixed_digits 2 (minutes t)"
    "appendInt 2 (t mod Minute div Second) = fixed_digits 2 (seconds t)"
    using h m s by (simp_all add: appendInt_small hours_def minutes_def seconds_def)
  have "t mod Day mod Hour = t mod Hour" "t mod Hour mod Minute = t mod Minute" "t mod Minute mod Second = t mod Second"
    by (simp_all add: mod_mod_cancel Day_def time_defs)
  moreover have "int (hours t) = t mod Day div Hour" "int (minutes t) = t mod Hour div Minute" "int (seconds t) = t mod Minute div Second"
    using h m s by (simp_all add: hours_def minutes_def seconds_def)
  ultimately show "day_no t * Day + int (hours t) * Hour + int (minutes t) * Minute + int (seconds t) * Second + t mod Second = t"
    using div_mult_mod_eq [of t Day] div_mult_mod_eq [of "t mod Day" Hour] div_mult_mod_eq [of "t mod Hour" Minute]
      div_mult_mod_eq [of "t mod Minute" Second] by (simp only: day_no_def)
qed

lemma civil_digits:
  assumes "0 \<le> year_of_day (day_no t)" "year_of_day (day_no t) \<le> 9999"
  obtains y m d where "civil (day_no t) = (int y, m, d)" "y < 10000" "m < 100" "d < 100" "1 \<le> m" "m \<le> 12"
    "valid_date (int y) m d" "day_of_civil (int y) m d = day_no t"
proof -
  obtain y m d where c: "civil (day_no t) = (y, m, d)" by (metis prod_cases3)
  note v = civil_valid [OF c]
  have "\<forall>l \<in> set (month_days lp). l \<le> 31" "length (month_days lp) = 12" for lp by (simp_all add: month_days_def)
  then have "i < 12 \<Longrightarrow> month_days lp ! i \<le> 31" for i lp by (metis nth_mem)
  from this [of "m - 1" "leap y"] v(1) have "m < 100" "d < 100" "1 \<le> m" "m \<le> 12" unfolding valid_date_def by linarith+
  with that [of "nat y" m d] c v assms show thesis by simp
qed

definition four_digit_year :: "gotime \<Rightarrow> bool" where
  "four_digit_year t \<longleftrightarrow> 0 \<le> year_of_day (day_no t) \<and> year_of_day (day_no t) \<le> 9999"

lemma Parse_Format_date:
  assumes "four_digit_year t"
  shows "Parse_date (Format_date t) = Some (t - t mod Day)"
proof -
  obtain y m d where c: "civil (day_no t) = (int y, m, d)" "y < 10000" "m < 100" "d < 100" "1 \<le> m" "m \<le> 12"
    "valid_date (int y) m d" "day_of_civil (int y) m d = day_no t"
    using civil_digits assms unfolding four_digit_year_def by metis
  have "Format_date t = fixed_digits 2 m @ ''-'' @ fixed_digits 2 d @ ''-'' @ fixed_digits 4 y"
    using c by (simp add: Format_date_def appendInt_small)
  moreover have "day_no t * Day = t - t mod Day" using div_mult_mod_eq [of t Day] unfolding day_no_def by linarith
  ultimately show ?thesis
    using c getyear_four [of y "[]"] by (simp add: Parse_date_def getnum_two within_def)
qed

lemma format_shape:
  assumes "four_digit_year t"
  obtains y m d where "y < 10000" "m < 100" "d < 100" "1 \<le> m" "m \<le> 12" "valid_date (int y) m d" "day_of_civil (int y) m d = day_no t"
    "format_seconds t = fixed_digits 4 y @ ''-'' @ fixed_digits 2 m @ ''-'' @ fixed_digits 2 d @ ''T'' @
      fixed_digits 2 (hours t) @ '':'' @ fixed_digits 2 (minutes t) @ '':'' @ fixed_digits 2 (seconds t)"
proof -
  obtain y m d where c: "civil (day_no t) = (int y, m, d)" "y < 10000" "m < 100" "d < 100" "1 \<le> m" "m \<le> 12"
    "valid_date (int y) m d" "day_of_civil (int y) m d = day_no t"
    using civil_digits assms unfolding four_digit_year_def by metis
  moreover have "format_seconds t = fixed_digits 4 y @ ''-'' @ fixed_digits 2 m @ ''-'' @ fixed_digits 2 d @ ''T'' @
      fixed_digits 2 (hours t) @ '':'' @ fixed_digits 2 (minutes t) @ '':'' @ fixed_digits 2 (seconds t)"
    using c clock_fields [of t] by (simp add: format_seconds_def appendInt_small)
  ultimately show thesis using that by blast
qed

lemma Parse_seconds:
  assumes "four_digit_year t" "getfraction (r @ ''Z'') = (ns, ''Z'')"
  shows "Parse_RFC3339 (format_seconds t @ r @ ''Z'') = Some (t - t mod Second + int ns)"
proof -
  note f = clock_fields [of t]
  have "day_no t * Day + int (hours t) * Hour + int (minutes t) * Minute + int (seconds t) * Second = t - t mod Second"
    using f(4) by linarith
  moreover obtain y m d where "y < 10000" "m < 100" "d < 100" "1 \<le> m" "m \<le> 12" "valid_date (int y) m d" "day_of_civil (int y) m d = day_no t"
    "format_seconds t = fixed_digits 4 y @ ''-'' @ fixed_digits 2 m @ ''-'' @ fixed_digits 2 d @ ''T'' @
      fixed_digits 2 (hours t) @ '':'' @ fixed_digits 2 (minutes t) @ '':'' @ fixed_digits 2 (seconds t)"
    using format_shape [OF assms(1)] by blast
  ultimately show ?thesis
    using f assms(2) by (simp add: Parse_RFC3339_def getyear_four getnum_two within_def getzone_def)
qed

lemma Parse_Format_RFC3339:
  "four_digit_year t \<Longrightarrow> Parse_RFC3339 (Format_RFC3339 t) = Some (t - t mod Second)"
  using Parse_seconds [of t "[]" 0] by (simp add: Format_RFC3339_def getfraction_def)

lemma fraction_digits:
  assumes "0 < n" "n < 10 ^ 9"
  obtains ds where "format_fraction n = CHR ''.'' # ds" "ds \<noteq> []" "list_all isDigit ds" "length ds \<le> 9"
    "undigits ds * 10 ^ (9 - length ds) = n"
proof -
  let ?f = "fixed_digits 9 n" and ?z = "\<lambda>c. c = CHR ''0''"
  let ?ds = "rev (dropWhile ?z (rev ?f))" and ?k = "length (takeWhile ?z (rev ?f))"
  have z: "takeWhile ?z (rev ?f) = replicate ?k (CHR ''0'')"
    by (rule sym, rule replicate_length_same) (auto dest: set_takeWhileD)
  have "rev ?f = replicate ?k (CHR ''0'') @ dropWhile ?z (rev ?f)" using takeWhile_dropWhile_id [of ?z "rev ?f"] z by simp
  then have split: "?f = ?ds @ replicate ?k (CHR ''0'')" by (metis rev_append rev_replicate rev_rev_ident)
  then have len: "9 = length ?ds + ?k" using length_fixed_digits [of 9 n] by (metis length_append length_replicate)
  have "undigits ?f = undigits ?ds * 10 ^ ?k" by (subst split) (rule undigits_zeros)
  then have val: "undigits ?ds * 10 ^ (9 - length ?ds) = n" using undigits_fixed [OF assms(2)] len by (metis add_diff_cancel_left')
  have "list_all isDigit (?ds @ replicate ?k (CHR ''0''))" by (subst split [symmetric]) (rule fixed_digits_isDigit)
  then have "list_all isDigit ?ds" by simp
  moreover have "undigits [] * k = 0" for k by (simp add: undigits_def)
  with val assms(1) have "?ds \<noteq> []" by (metis less_irrefl)
  moreover note val len
  moreover have "format_fraction n = CHR ''.'' # ?ds" using assms(1) by (simp add: format_fraction_def)
  ultimately show thesis using that [of ?ds] by linarith
qed

lemma getfraction_format:
  assumes "n < 10 ^ 9"
  shows "getfraction (format_fraction n @ ''Z'') = (n, ''Z'')"
proof (cases "n = 0")
  case False
  then obtain ds where ds: "format_fraction n = CHR ''.'' # ds" "ds \<noteq> []" "list_all isDigit ds" "length ds \<le> 9"
    "undigits ds * 10 ^ (9 - length ds) = n"
    using fraction_digits assms by blast
  then obtain c r where cr: "ds = c # r" by (cases ds) auto
  have Z: "\<not> isDigit (CHR ''Z'')" by (simp add: isDigit_def)
  then have "takeWhile isDigit (ds @ ''Z'') = ds" "dropWhile isDigit (ds @ ''Z'') = ''Z''"
    using ds(3) by (simp_all add: list_all_iff takeWhile_append dropWhile_append)
  with ds cr show ?thesis by (simp add: getfraction_def Let_def)
qed (simp add: format_fraction_def getfraction_def)

lemma length_format_seconds:
  assumes "four_digit_year t"
  shows "length (format_seconds t) = 19" "format_seconds t ! 12 \<noteq> CHR '':''"
proof -
  obtain y m d where f: "format_seconds t = fixed_digits 4 y @ ''-'' @ fixed_digits 2 m @ ''-'' @ fixed_digits 2 d @ ''T'' @
      fixed_digits 2 (hours t) @ '':'' @ fixed_digits 2 (minutes t) @ '':'' @ fixed_digits 2 (seconds t)"
    using format_shape [OF assms] by metis
  show "length (format_seconds t) = 19" by (simp add: f)
  have "format_seconds t ! 12 = digit (hours t mod 10)" by (simp add: f nth_append) (simp add: numeral_2_eq_2)
  then show "format_seconds t ! 12 \<noteq> CHR '':''" by simp
qed

definition ascii :: "string \<Rightarrow> bool" where
  "ascii s \<longleftrightarrow> list_all (\<lambda>c. (of_char c :: nat) < 128) s"

lemma ascii_append [simp]: "ascii (s @ t) \<longleftrightarrow> ascii s \<and> ascii t"
  by (simp add: ascii_def)

lemma ascii_digits: "list_all isDigit s \<Longrightarrow> ascii s"
  by (auto simp: ascii_def isDigit_def list_all_iff)

lemma Time_text_ascii:
  assumes "Time_MarshalText t = Some s"
  shows "ascii s"
proof -
  have y: "four_digit_year t" and s: "s = format_seconds t @ format_fraction (nat (t mod Second)) @ ''Z''"
    using assms by (auto simp: Time_MarshalText_def four_digit_year_def Let_def split: if_splits)
  obtain y m d where f: "format_seconds t = fixed_digits 4 y @ ''-'' @ fixed_digits 2 m @ ''-'' @ fixed_digits 2 d @ ''T'' @
      fixed_digits 2 (hours t) @ '':'' @ fixed_digits 2 (minutes t) @ '':'' @ fixed_digits 2 (seconds t)"
    using format_shape [OF y] by metis
  have d: "ascii (fixed_digits w n)" for w n by (rule ascii_digits) (rule fixed_digits_isDigit)
  have "ascii (rev (dropWhile P (rev (fixed_digits w n))))" for P w n
    using d [of w n] by (auto simp: ascii_def list_all_iff dest: set_dropWhileD)
  then have "ascii (format_fraction n)" for n by (simp add: format_fraction_def ascii_def)
  with d show ?thesis unfolding s f ascii_append by (simp add: ascii_def)
qed

lemma Time_text_roundtrip:
  assumes "Time_MarshalText t = Some s"
  shows "Time_UnmarshalText s = Some t"
proof -
  let ?f = "format_fraction (nat (t mod Second))"
  have y: "four_digit_year t" and s: "s = format_seconds t @ ?f @ ''Z''"
    using assms by (auto simp: Time_MarshalText_def four_digit_year_def Let_def split: if_splits)
  have n: "nat (t mod Second) < 10 ^ 9" "0 \<le> t mod Second" by (simp_all add: Second_def)
  note p = Parse_seconds [OF y getfraction_format [OF n(1)]]
  note l = length_format_seconds [OF y]
  have "strict_time s" using l by (simp add: strict_time_def s nth_append)
      (auto simp: format_fraction_def)
  with p n(2) show ?thesis by (simp add: Time_UnmarshalText_def s)
qed

end
