(* ===== verification/Pages.thy ===== *)
theory Pages
  imports Family_Flow Time_Text
begin

text \<open>
  The landing page of \<open>main.go\<close>: what \<open>prepareAuthorizePage\<close> computes from the query and the database for the three
  wizards (onboarding, manual renewal, families).  The redirects of the authorisation handlers arrive here, so the
  parsing of a query string (\<open>url.ParseQuery\<close>) is modelled too.  The rendering of the template is not.
\<close>

section \<open>Parsing a query\<close>



section \<open>The page\<close>







definition new_step :: "string \<Rightarrow> string \<Rightarrow> string \<Rightarrow> WizardStep" where
  "new_step i title description = \<lparr>ws_ID = i, ws_Title = title, ws_Description = description, ws_State = StepFuture, ws_Summary = []\<rparr>"


definition set_states :: "StepState list \<Rightarrow> WizardStep list \<Rightarrow> WizardStep list" where
  "set_states states steps = map2 (\<lambda>x st. st\<lparr>ws_State := x\<rparr>) states steps"

subsection \<open>Users\<close>





subsection \<open>Families\<close>

definition family_steps :: "WizardStep list" where
  "family_steps = set_states [StepActive, StepFuture, StepFuture]
     [new_step ''setup'' ''Setup Family Group'' ''Enter the shared Plex username and add family member labels.'',
      new_step ''authorize'' ''Authorize Members'' ''Each family member connects their own Trakt account.'',
      new_step ''webhook'' ''Configure Webhook'' ''Add the webhook URL to Plex to enable family scrobbling.'']"





subsection \<open>Onboarding\<close>


subsection \<open>Renewal\<close>




subsection \<open>Putting it together\<close>


section \<open>Redirects arrive\<close>










section \<open>The renewal wizard\<close>
















section \<open>The family wizard\<close>


lemma length_set_states [simp]: "length (set_states states steps) = min (length states) (length steps)"
  by (simp add: set_states_def)

lemma family_steps_length [simp]: "length family_steps = 3"
  by (simp add: family_steps_def)




end
