(* ===== verification/Lock.thy ===== *)
theory Lock
  imports Prelude
begin

text \<open>
  \<open>lib/common/lock.go\<close>: a lock for each key, with which the Trakt client handles one webhook of
  a player and item at a time.  The model interleaves the threads at the operations that are
  atomic in Go: an access to the pool, to the concurrent map, to a counter or to a mutex.
  Objects have numbers: reference counters \<open>refCounter\<close>, and the mutexes they point to.
  \<open>sync.Pool\<close> may hand out any mutex that was put back or a new one; which one is a choice of
  the step.
\<close>

section \<open>State\<close>

record refCounter =
  counter :: int
  rc_lock :: nat

text \<open>A \<open>sync.RWMutex\<close>: held by a writer, or by a number of readers.\<close>

datatype rwmutex = Writing | Reading nat

text \<open>
  Where a thread is.  An operation has a mode (\<open>True\<close> to write, \<open>False\<close> to read) and a key:
  \<open>AtGet\<close> after the pool was asked, \<open>Located\<close> with the counter found under the key, \<open>Counted\<close>
  with the counter raised; \<open>Holding\<close> between the return of \<open>Lock\<close> and the call of \<open>Unlock\<close>;
  then \<open>ReleaseGet\<close>, \<open>ReleaseAt\<close>, \<open>Released\<close>, \<open>Lowered\<close> and \<open>PutBack\<close> in the course of \<open>Unlock\<close>.
\<close>

datatype pc =
    Idle
  | AtGet bool string nat
  | Located bool string nat
  | Counted bool string nat
  | Holding bool string
  | ReleaseGet bool string nat
  | ReleaseAt bool string nat
  | Released string nat
  | Lowered string nat
  | PutBack string

record locks =
  inUse :: "string \<rightharpoonup> nat"
  refs :: "nat \<Rightarrow> refCounter"
  next_ref :: nat
  mutexes :: "nat \<Rightarrow> rwmutex"
  next_mutex :: nat
  lk_pool :: "nat list"
  pcs :: "nat \<Rightarrow> pc"

definition NewMultipleLock :: locks where
  "NewMultipleLock = \<lparr>inUse = Map.empty, refs = (\<lambda>_. \<lparr>counter = 0, rc_lock = 0\<rparr>), next_ref = 0,
     mutexes = (\<lambda>_. Reading 0), next_mutex = 0, lk_pool = [], pcs = (\<lambda>_. Idle)\<rparr>"

section \<open>Operations\<close>

text \<open>\<open>pool.Get\<close>: the mutex at place \<open>j\<close> of the pool, or a new one when there is no such place.\<close>

definition pool_Get :: "nat \<Rightarrow> locks \<Rightarrow> nat \<times> locks" where
  "pool_Get j s = (if j < length (lk_pool s)
     then (lk_pool s ! j, s\<lparr>lk_pool := take j (lk_pool s) @ drop (Suc j) (lk_pool s)\<rparr>)
     else (next_mutex s, s\<lparr>next_mutex := Suc (next_mutex s)\<rparr>))"

text \<open>\<open>getLocker\<close> after \<open>pool.Get\<close>: \<open>LoadOrStore\<close> finds the counter of the key or stores a new one.\<close>

definition getLocker :: "string \<Rightarrow> nat \<Rightarrow> locks \<Rightarrow> nat \<times> locks" where
  "getLocker key m s = (case inUse s key of
     Some r \<Rightarrow> (r, s)
   | None \<Rightarrow> (next_ref s, s\<lparr>inUse := (inUse s)(key \<mapsto> next_ref s), next_ref := Suc (next_ref s),
       refs := (refs s)(next_ref s := \<lparr>counter = 0, rc_lock = m\<rparr>)\<rparr>))"

definition add_counter :: "int \<Rightarrow> nat \<Rightarrow> locks \<Rightarrow> locks" where
  "add_counter k r s = s\<lparr>refs := (refs s)(r := (refs s r)\<lparr>counter := counter (refs s r) + k\<rparr>)\<rparr>"

text \<open>Taking a mutex (\<^const>\<open>None\<close>: it blocks) and releasing it (\<^const>\<open>None\<close>: it was not held, a fatal error).\<close>

fun rw_lock :: "bool \<Rightarrow> rwmutex \<Rightarrow> rwmutex option" where
  "rw_lock True (Reading 0) = Some Writing"
| "rw_lock False (Reading n) = Some (Reading (Suc n))"
| "rw_lock _ _ = None"

fun rw_unlock :: "bool \<Rightarrow> rwmutex \<Rightarrow> rwmutex option" where
  "rw_unlock True Writing = Some (Reading 0)"
| "rw_unlock False (Reading (Suc n)) = Some (Reading n)"
| "rw_unlock _ _ = None"

definition goto :: "nat \<Rightarrow> pc \<Rightarrow> locks \<Rightarrow> locks" where
  "goto t p s = s\<lparr>pcs := (pcs s)(t := p)\<rparr>"

definition set_mutex :: "nat \<Rightarrow> rwmutex \<Rightarrow> locks \<Rightarrow> locks" where
  "set_mutex m x s = s\<lparr>mutexes := (mutexes s)(m := x)\<rparr>"

text \<open>
  One step of thread \<open>t\<close> in the course of \<open>Lock\<close> or \<open>RLock\<close>.
\<close>

inductive lock_step :: "nat \<Rightarrow> locks \<Rightarrow> locks \<Rightarrow> bool" for t where
  call: "pcs s t = Idle \<Longrightarrow> pool_Get j s = (m, s') \<Longrightarrow> lock_step t s (goto t (AtGet w key m) s')"
| load: "pcs s t = AtGet w key m \<Longrightarrow> getLocker key m s = (r, s') \<Longrightarrow> lock_step t s (goto t (Located w key r) s')"
| count: "pcs s t = Located w key r \<Longrightarrow> lock_step t s (goto t (Counted w key r) (add_counter 1 r s))"
| acquire: "pcs s t = Counted w key r \<Longrightarrow> rw_lock w (mutexes s (rc_lock (refs s r))) = Some x \<Longrightarrow>
    lock_step t s (goto t (Holding w key) (set_mutex (rc_lock (refs s r)) x s))"

text \<open>
  One step of thread \<open>t\<close> in the course of \<open>Unlock\<close> or \<open>RUnlock\<close>; the last three are
  \<open>putBackInPool\<close>.
\<close>

inductive unlock_step :: "nat \<Rightarrow> locks \<Rightarrow> locks \<Rightarrow> bool" for t where
  call: "pcs s t = Holding w key \<Longrightarrow> pool_Get j s = (m, s') \<Longrightarrow> unlock_step t s (goto t (ReleaseGet w key m) s')"
| load: "pcs s t = ReleaseGet w key m \<Longrightarrow> getLocker key m s = (r, s') \<Longrightarrow> unlock_step t s (goto t (ReleaseAt w key r) s')"
| release: "pcs s t = ReleaseAt w key r \<Longrightarrow> rw_unlock w (mutexes s (rc_lock (refs s r))) = Some x \<Longrightarrow>
    unlock_step t s (goto t (Released key r) (set_mutex (rc_lock (refs s r)) x s))"
| lower: "pcs s t = Released key r \<Longrightarrow> unlock_step t s (goto t (Lowered key r) (add_counter (-1) r s))"
| keep: "pcs s t = Lowered key r \<Longrightarrow> 0 < counter (refs s r) \<Longrightarrow> unlock_step t s (goto t Idle s)"
| put: "pcs s t = Lowered key r \<Longrightarrow> counter (refs s r) \<le> 0 \<Longrightarrow>
    unlock_step t s (goto t (PutBack key) (s\<lparr>lk_pool := lk_pool s @ [rc_lock (refs s r)]\<rparr>))"
| delete: "pcs s t = PutBack key \<Longrightarrow> unlock_step t s (goto t Idle (s\<lparr>inUse := (inUse s)(key := None)\<rparr>))"

inductive lock_reach :: "locks \<Rightarrow> bool" where
  start: "lock_reach NewMultipleLock"
| locking: "lock_reach s \<Longrightarrow> lock_step t s s' \<Longrightarrow> lock_reach s'"
| unlocking: "lock_reach s \<Longrightarrow> unlock_step t s s' \<Longrightarrow> lock_reach s'"


section \<open>One thread alone\<close>

text \<open>
  Nothing is locked: no key is in use and every mutex that can be handed out is free.
\<close>

definition unlocked :: "locks \<Rightarrow> bool" where
  "unlocked s \<longleftrightarrow> inUse s = Map.empty \<and> (\<forall>m. mutexes s m = Reading 0)"

definition lock_steps :: "nat \<Rightarrow> locks \<Rightarrow> locks \<Rightarrow> bool" where
  "lock_steps t = (lock_step t)\<^sup>*\<^sup>*"

definition unlock_steps :: "nat \<Rightarrow> locks \<Rightarrow> locks \<Rightarrow> bool" where
  "unlock_steps t = (unlock_step t)\<^sup>*\<^sup>*"

lemmas lock_defs = goto_def set_mutex_def add_counter_def getLocker_def pool_Get_def

lemma rw_lock_free: "rw_lock w (Reading 0) = Some (if w then Writing else Reading (Suc 0))"
  by (cases w) simp_all

lemma rw_unlock_own: "rw_unlock w (if w then Writing else Reading (Suc 0)) = Some (Reading 0)"
  by (cases w) simp_all

text \<open>What a thread that runs alone reaches, call by call.\<close>

definition locked_by :: "nat \<Rightarrow> bool \<Rightarrow> string \<Rightarrow> nat \<Rightarrow> locks \<Rightarrow> bool" where
  "locked_by t w key r s \<longleftrightarrow> pcs s t = Holding w key \<and> inUse s = [key \<mapsto> r] \<and> counter (refs s r) = 1 \<and>
     mutexes s = (\<lambda>_. Reading 0)(rc_lock (refs s r) := (if w then Writing else Reading (Suc 0)))"

lemma Lock_alone:
  assumes "unlocked s" "pcs s t = Idle"
  shows "\<exists>r s'. lock_steps t s s' \<and> locked_by t w key r s' \<and> (\<forall>u. u \<noteq> t \<longrightarrow> pcs s' u = pcs s u)"
proof -
  obtain m a where a: "pool_Get 0 s = (m, a)" by fastforce
  let ?a = "goto t (AtGet w key m) a"
  obtain r b where b: "getLocker key m ?a = (r, b)" by fastforce
  let ?b = "goto t (Located w key r) b"
  let ?c = "goto t (Counted w key r) (add_counter 1 r ?b)"
  let ?x = "if w then Writing else Reading (Suc 0)"
  let ?d = "goto t (Holding w key) (set_mutex (rc_lock (refs ?c r)) ?x ?c)"
  have fa: "inUse a = Map.empty" "mutexes a = (\<lambda>_. Reading 0)" "\<And>u. pcs a u = pcs s u"
    using a assms(1) by (auto simp: pool_Get_def unlocked_def split: if_splits)
  have fb: "inUse b = [key \<mapsto> r]" "mutexes b = (\<lambda>_. Reading 0)" "refs b r = \<lparr>counter = 0, rc_lock = m\<rparr>" "pcs b = pcs ?a"
    using b fa by (auto simp: getLocker_def goto_def)
  have "lock_step t s ?a" using a assms(2) by (auto intro: lock_step.call)
  moreover have "lock_step t ?a ?b" by (rule lock_step.load [OF _ b]) (simp add: goto_def)
  moreover have "lock_step t ?b ?c" by (rule lock_step.count) (simp add: goto_def)
  moreover have "lock_step t ?c ?d"
    by (rule lock_step.acquire) (simp_all add: goto_def add_counter_def fb rw_lock_free)
  ultimately have "lock_steps t s ?d"
    unfolding lock_steps_def by (meson converse_rtranclp_into_rtranclp rtranclp.rtrancl_refl)
  moreover have "locked_by t w key r ?d" by (simp add: locked_by_def lock_defs fb)
  moreover have "\<forall>u. u \<noteq> t \<longrightarrow> pcs ?d u = pcs s u" by (simp add: lock_defs fb fa)
  ultimately show ?thesis by blast
qed

lemma Unlock_alone:
  assumes "locked_by t w key r s"
  shows "\<exists>s'. unlock_steps t s s' \<and> unlocked s' \<and> pcs s' t = Idle \<and> (\<forall>u. u \<noteq> t \<longrightarrow> pcs s' u = pcs s u)"
proof -
  note s = assms [unfolded locked_by_def]
  obtain m a where a: "pool_Get 0 s = (m, a)" by fastforce
  let ?a = "goto t (ReleaseGet w key m) a"
  have fa: "inUse a = [key \<mapsto> r]" "mutexes a = mutexes s" "refs a = refs s" "\<And>u. pcs a u = pcs s u"
    using a s by (auto simp: pool_Get_def split: if_splits)
  have b: "getLocker key m ?a = (r, ?a)" by (simp add: getLocker_def goto_def fa)
  let ?b = "goto t (ReleaseAt w key r) ?a"
  let ?c = "goto t (Released key r) (set_mutex (rc_lock (refs ?b r)) (Reading 0) ?b)"
  let ?d = "goto t (Lowered key r) (add_counter (-1) r ?c)"
  let ?e = "goto t (PutBack key) (?d\<lparr>lk_pool := lk_pool ?d @ [rc_lock (refs ?d r)]\<rparr>)"
  let ?f = "goto t Idle (?e\<lparr>inUse := (inUse ?e)(key := None)\<rparr>)"
  have "unlock_step t s ?a" using a s by (auto intro: unlock_step.call)
  moreover have "unlock_step t ?a ?b" by (rule unlock_step.load [OF _ b]) (simp add: goto_def)
  moreover have "unlock_step t ?b ?c"
    by (rule unlock_step.release [of _ t w key r]) (simp_all add: goto_def fa s rw_unlock_own split del: if_split)
  moreover have "unlock_step t ?c ?d" by (rule unlock_step.lower) (simp add: goto_def)
  moreover have "unlock_step t ?d ?e"
    by (rule unlock_step.put) (simp_all add: lock_defs fa s)
  moreover have "unlock_step t ?e ?f" by (rule unlock_step.delete) (simp add: goto_def)
  ultimately have "unlock_steps t s ?f"
    unfolding unlock_steps_def by (meson converse_rtranclp_into_rtranclp rtranclp.rtrancl_refl)
  moreover have "unlocked ?f" by (simp add: unlocked_def lock_defs fa s)
  moreover have "pcs ?f t = Idle" "\<forall>u. u \<noteq> t \<longrightarrow> pcs ?f u = pcs s u" by (simp_all add: lock_defs fa)
  ultimately show ?thesis by blast
qed

section \<open>Three threads\<close>


text \<open>
  The schedule: thread 0 locks; thread 1 finds the same counter; thread 0 unlocks, which
  removes the key; thread 1 raises the counter it found and takes its mutex; thread 2 finds
  no counter, makes another one with another mutex, and takes that.
\<close>

definition race_prefix :: "string \<Rightarrow> locks" where
  "race_prefix key = NewMultipleLock
    \<lparr>inUse := [key \<mapsto> 0], refs := (refs NewMultipleLock)(0 := \<lparr>counter = 1, rc_lock = 0\<rparr>), next_ref := 1,
     mutexes := (mutexes NewMultipleLock)(0 := Writing), next_mutex := 2,
     pcs := (\<lambda>_. Idle)(0 := Holding True key, 1 := Located True key 0)\<rparr>"

definition race_middle :: "string \<Rightarrow> locks" where
  "race_middle key = (race_prefix key)
    \<lparr>inUse := Map.empty, mutexes := (\<lambda>_. Reading 0)(0 := Writing), next_mutex := 3, lk_pool := [0],
     pcs := (\<lambda>_. Idle)(1 := Holding True key)\<rparr>"

lemma race_prefix_reach: "lock_reach (race_prefix key)"
proof -
  let ?a = "goto 0 (AtGet True key 0) (NewMultipleLock\<lparr>next_mutex := 1\<rparr>)"
  let ?b = "goto 0 (Located True key 0) (snd (getLocker key 0 ?a))"
  let ?c = "goto 0 (Counted True key 0) (add_counter 1 0 ?b)"
  let ?d = "goto 0 (Holding True key) (set_mutex (rc_lock (refs ?c 0)) Writing ?c)"
  let ?e = "goto 1 (AtGet True key 1) (?d\<lparr>next_mutex := 2\<rparr>)"
  let ?f = "goto 1 (Located True key 0) ?e"
  note init = NewMultipleLock_def lock_defs
  have "lock_reach ?a" by (rule locking [OF start lock_step.call [of _ 0 0]]) (simp_all add: init)
  then have "lock_reach ?b" by (rule locking [OF _ lock_step.load [of _ 0 True key 0]]) (simp_all add: init)
  then have "lock_reach ?c" by (rule locking [OF _ lock_step.count [of _ 0]]) (simp add: goto_def)
  then have "lock_reach ?d" by (rule locking [OF _ lock_step.acquire [of _ 0]]) (simp_all add: init)
  then have "lock_reach ?e" by (rule locking [OF _ lock_step.call [of _ 1 0]]) (simp_all add: init)
  then have "lock_reach ?f" by (rule locking [OF _ lock_step.load [of _ 1 True key 1]]) (simp_all add: init)
  moreover have "?f = race_prefix key" by (simp add: init race_prefix_def fun_upd_twist fun_eq_iff)
  ultimately show ?thesis by simp
qed

lemma race_middle_reach: "lock_reach (race_middle key)"
proof -
  let ?a = "goto 0 (ReleaseGet True key 2) ((race_prefix key)\<lparr>next_mutex := 3\<rparr>)"
  let ?b = "goto 0 (ReleaseAt True key 0) ?a"
  let ?c = "goto 0 (Released key 0) (set_mutex (rc_lock (refs ?b 0)) (Reading 0) ?b)"
  let ?d = "goto 0 (Lowered key 0) (add_counter (-1) 0 ?c)"
  let ?e = "goto 0 (PutBack key) (?d\<lparr>lk_pool := lk_pool ?d @ [rc_lock (refs ?d 0)]\<rparr>)"
  let ?f = "goto 0 Idle (?e\<lparr>inUse := (inUse ?e)(key := None)\<rparr>)"
  let ?g = "goto 1 (Counted True key 0) (add_counter 1 0 ?f)"
  let ?h = "goto 1 (Holding True key) (set_mutex (rc_lock (refs ?g 0)) Writing ?g)"
  note init = race_prefix_def NewMultipleLock_def lock_defs
  have "lock_reach ?a" by (rule unlocking [OF race_prefix_reach unlock_step.call [of _ 0 _ _ 0]]) (simp_all add: init)
  then have "lock_reach ?b" by (rule unlocking [OF _ unlock_step.load [of _ 0 True key 2]]) (simp_all add: init)
  then have "lock_reach ?c" by (rule unlocking [OF _ unlock_step.release [of _ 0 True key 0]]) (simp_all add: init)
  then have "lock_reach ?d" by (rule unlocking [OF _ unlock_step.lower [of _ 0]]) (simp add: goto_def)
  then have "lock_reach ?e" by (rule unlocking [OF _ unlock_step.put [of _ 0]]) (simp_all add: init)
  then have "lock_reach ?f" by (rule unlocking [OF _ unlock_step.delete [of _ 0]]) (simp add: goto_def)
  then have "lock_reach ?g" by (rule locking [OF _ lock_step.count [of _ 1]]) (simp add: init)
  then have "lock_reach ?h" by (rule locking [OF _ lock_step.acquire [of _ 1]]) (simp_all add: init)
  moreover have "?h = race_middle key" by (simp add: init race_middle_def fun_eq_iff)
  ultimately show ?thesis by simp
qed

text \<open>
  C23. The lock does not exclude: for every key, three threads that lock and unlock it can
  reach a state in which two of them hold it for writing at the same time.  The counter that
  keeps a key in the map is raised only after the key was looked up, so an \<open>Unlock\<close> in
  between removes a key another thread is about to use.
\<close>

theorem lock_admits_two_writers:
  "\<exists>s. lock_reach s \<and> pcs s 1 = Holding True key \<and> pcs s 2 = Holding True key"
proof -
  let ?a = "goto 2 (AtGet True key 3) ((race_middle key)\<lparr>next_mutex := 4\<rparr>)"
  let ?b = "goto 2 (Located True key 1) (snd (getLocker key 3 ?a))"
  let ?c = "goto 2 (Counted True key 1) (add_counter 1 1 ?b)"
  let ?d = "goto 2 (Holding True key) (set_mutex (rc_lock (refs ?c 1)) Writing ?c)"
  note init = race_middle_def race_prefix_def NewMultipleLock_def lock_defs
  have "lock_reach ?a" by (rule locking [OF race_middle_reach lock_step.call [of _ 2 1]]) (simp_all add: init)
  then have "lock_reach ?b" by (rule locking [OF _ lock_step.load [of _ 2 True key 3]]) (simp_all add: init)
  then have "lock_reach ?c" by (rule locking [OF _ lock_step.count [of _ 2]]) (simp add: goto_def)
  then have "lock_reach ?d" by (rule locking [OF _ lock_step.acquire [of _ 2]]) (simp_all add: init)
  moreover have "pcs ?d 1 = Holding True key" "pcs ?d 2 = Holding True key" by (simp_all add: init)
  ultimately show ?thesis by blast
qed

text \<open>A thread that meets no other is not blocked, and leaves nothing locked.\<close>

lemma Lock_Unlock_alone:
  assumes "unlocked s" "pcs s t = Idle"
  shows "\<exists>s' s''. lock_steps t s s' \<and> pcs s' t = Holding w key \<and> unlock_steps t s' s'' \<and> unlocked s'' \<and> pcs s'' t = Idle"
  using Lock_alone [OF assms, of w key] Unlock_alone unfolding locked_by_def by metis

end
