(* ===== verification/Json_Text.thy ===== *)
theory Json_Text
  imports Common Time_Text
begin

text \<open>
  The text of JSON documents as \<open>encoding/json\<close> writes and reads it: what the Redis and the
  file store keep of events, groups, members and cached bodies.  Strings are bytes; the
  encoder escapes what Go escapes (control characters, quotes, the characters that are
  special in HTML, the two line separators) and replaces bytes that are no UTF-8 by the
  replacement character.  The printer is parametrised over its white space, so that it is
  \<open>Marshal\<close> with none and \<open>MarshalIndent\<close> with line breaks.  No document the program writes
  has a number with a fraction; the printer has no equation for them.
\<close>

section \<open>UTF-8\<close>

definition between :: "nat \<Rightarrow> nat \<Rightarrow> char \<Rightarrow> bool" where
  "between lo hi c \<longleftrightarrow> lo \<le> (of_char c :: nat) \<and> (of_char c :: nat) \<le> hi"

text \<open>\<open>k\<close> continuation bytes, of which the first lies in the given range.\<close>

definition conts :: "nat \<Rightarrow> nat \<Rightarrow> nat \<Rightarrow> string \<Rightarrow> bool" where
  "conts k lo hi r \<longleftrightarrow> k \<le> length r \<and> (k = 0 \<or> between lo hi (hd r)) \<and> list_all (between 0x80 0xBF) (take k r)"

text \<open>What a first byte asks for: the number of continuation bytes and the range of the first of them.\<close>

definition lead :: "nat \<Rightarrow> (nat \<times> nat \<times> nat) option" where
  "lead n =
     (if n < 0x80 then Some (0, 0x80, 0xBF)
      else if 0xC2 \<le> n \<and> n \<le> 0xDF then Some (1, 0x80, 0xBF)
      else if 0xE0 \<le> n \<and> n \<le> 0xEF then Some (2, if n = 0xE0 then 0xA0 else 0x80, if n = 0xED then 0x9F else 0xBF)
      else if 0xF0 \<le> n \<and> n \<le> 0xF4 then Some (3, if n = 0xF0 then 0x90 else 0x80, if n = 0xF4 then 0x8F else 0xBF)
      else None)"

text \<open>The length of the rune at the front of a string, 0 when the bytes there are no UTF-8.\<close>

fun rune_width :: "string \<Rightarrow> nat" where
  "rune_width [] = 0"
| "rune_width (a # r) = (case lead (of_char a) of
     None \<Rightarrow> 0
   | Some (k, lo, hi) \<Rightarrow> if conts k lo hi r then Suc k else 0)"

definition replacement :: string where
  "replacement = [CHR 0xEF, CHR 0xBF, CHR 0xBD]"

definition EncodeRune :: "nat \<Rightarrow> string" where
  "EncodeRune n =
     (if n < 0x80 then [char_of n]
      else if n < 0x800 then [char_of (0xC0 + n div 64), char_of (0x80 + n mod 64)]
      else if n < 0x10000 then [char_of (0xE0 + n div 4096), char_of (0x80 + n div 64 mod 64), char_of (0x80 + n mod 64)]
      else [char_of (0xF0 + n div 262144), char_of (0x80 + n div 4096 mod 64), char_of (0x80 + n div 64 mod 64),
            char_of (0x80 + n mod 64)])"

text \<open>A string with every byte that is no part of a valid rune replaced.\<close>

function ToValidUTF8 :: "string \<Rightarrow> string" where
  "ToValidUTF8 [] = []"
| "ToValidUTF8 (c # s) = (let w = rune_width (c # s) in
     if w = 0 then replacement @ ToValidUTF8 s
     else take w (c # s) @ ToValidUTF8 (drop (w - 1) s))"
  by pat_completeness auto
termination by (relation "measure length") auto

definition valid_utf8 :: "string \<Rightarrow> bool" where
  "valid_utf8 s \<longleftrightarrow> ToValidUTF8 s = s"

lemma rune_width_ascii: "(of_char c :: nat) < 0x80 \<Longrightarrow> rune_width (c # s) = 1"
  by (simp add: lead_def conts_def)

lemma ascii_utf8: "ascii s \<Longrightarrow> valid_utf8 s"
  unfolding valid_utf8_def
  by (induction s) (simp_all add: ascii_def rune_width_ascii del: rune_width.simps)

section \<open>Strings\<close>

definition json_hex :: "nat \<Rightarrow> char" where
  "json_hex n = (if n < 10 then char_of (48 + n) else char_of (87 + n))"

definition escape_byte :: "char \<Rightarrow> string" where
  "escape_byte c = (let n = of_char c :: nat in
     if c = CHR 0x22 \<or> c = CHR 0x5C then [CHR 0x5C, c]
     else if c = CHR 0x08 then [CHR 0x5C, CHR ''b'']
     else if c = CHR 0x0C then [CHR 0x5C, CHR ''f'']
     else if c = CHR 0x0A then [CHR 0x5C, CHR ''n'']
     else if c = CHR 0x0D then [CHR 0x5C, CHR ''r'']
     else if c = CHR 0x09 then [CHR 0x5C, CHR ''t'']
     else if n < 32 \<or> c = CHR ''<'' \<or> c = CHR ''>'' \<or> c = CHR ''&''
     then [CHR 0x5C, CHR ''u'', CHR ''0'', CHR ''0'', json_hex (n div 16), json_hex (n mod 16)]
     else [c])"

definition line_separators :: "string list" where
  "line_separators = [[CHR 0xE2, CHR 0x80, CHR 0xA8], [CHR 0xE2, CHR 0x80, CHR 0xA9]]"

function escape :: "string \<Rightarrow> string" where
  "escape [] = []"
| "escape (c # s) = (let w = rune_width (c # s) in
     if (of_char c :: nat) < 0x80 then escape_byte c @ escape s
     else if w = 0 then CHR 0x5C # ''ufffd'' @ escape s
     else if take w (c # s) = line_separators ! 0 then CHR 0x5C # ''u2028'' @ escape (drop (w - 1) s)
     else if take w (c # s) = line_separators ! 1 then CHR 0x5C # ''u2029'' @ escape (drop (w - 1) s)
     else take w (c # s) @ escape (drop (w - 1) s))"
  by pat_completeness auto
termination by (relation "measure length") auto

definition quote :: "string \<Rightarrow> string" where
  "quote s = [CHR 0x22] @ escape s @ [CHR 0x22]"

text \<open>Reading: the escapes of one letter, and four hexadecimal digits.\<close>

definition simple_escape :: "char \<Rightarrow> char option" where
  "simple_escape e = map_of [(CHR 0x22, CHR 0x22), (CHR 0x5C, CHR 0x5C), (CHR ''/'', CHR ''/''), (CHR ''b'', CHR 0x08),
     (CHR ''f'', CHR 0x0C), (CHR ''n'', CHR 0x0A), (CHR ''r'', CHR 0x0D), (CHR ''t'', CHR 0x09)] e"

definition hexval :: "char \<Rightarrow> nat option" where
  "hexval c = (if between 48 57 c then Some (of_char c - 48) else if between 97 102 c then Some (of_char c - 87)
     else if between 65 70 c then Some (of_char c - 55) else None)"

fun getu4 :: "string \<Rightarrow> nat option" where
  "getu4 (a # b # c # d # _) = (case (hexval a, hexval b, hexval c, hexval d) of
     (Some i, Some j, Some k, Some l) \<Rightarrow> Some (((i * 16 + j) * 16 + k) * 16 + l)
   | _ \<Rightarrow> None)"
| "getu4 _ = None"

text \<open>
  A surrogate counts only together with its partner in the next escape; alone it is
  replaced.  The result: the rune's bytes and how many characters after the letter u it took.
\<close>

definition decode_u :: "nat \<Rightarrow> string \<Rightarrow> string \<times> nat" where
  "decode_u rr r4 =
     (if rr < 0xD800 \<or> 0xE000 \<le> rr then (EncodeRune rr, 4)
      else case (if take 2 r4 = [CHR 0x5C, CHR ''u''] then getu4 (drop 2 r4) else None) of
        Some lo \<Rightarrow> (if rr < 0xDC00 \<and> 0xDC00 \<le> lo \<and> lo < 0xE000
          then (EncodeRune (0x10000 + (rr - 0xD800) * 1024 + (lo - 0xDC00)), 10) else (replacement, 4))
      | None \<Rightarrow> (replacement, 4))"

definition prepend :: "string \<Rightarrow> (string \<times> string) option \<Rightarrow> (string \<times> string) option" where
  "prepend x r = map_option (apfst ((@) x)) r"

text \<open>\<open>unquote\<close>: from after the opening quote, the string and what follows its closing quote.\<close>

function unquote :: "string \<Rightarrow> (string \<times> string) option" where
  "unquote [] = None"
| "unquote (c # s) =
     (if c = CHR 0x22 then Some ([], s)
      else if c = CHR 0x5C then
        (case s of [] \<Rightarrow> None | e # r \<Rightarrow>
          (case simple_escape e of
             Some x \<Rightarrow> prepend [x] (unquote r)
           | None \<Rightarrow> (if e = CHR ''u'' then
               (case getu4 r of None \<Rightarrow> None
                | Some rr \<Rightarrow> prepend (fst (decode_u rr (drop 4 r))) (unquote (drop (snd (decode_u rr (drop 4 r))) r)))
             else None)))
      else if (of_char c :: nat) < 32 then None
      else let w = rune_width (c # s) in
        if w = 0 then prepend replacement (unquote s)
        else prepend (take w (c # s)) (unquote (drop (w - 1) s)))"
  by pat_completeness auto
termination by (relation "measure length") auto

subsection \<open>Reading what was written\<close>

lemma conts_take: "conts k lo hi r \<Longrightarrow> conts k lo hi (take k r @ x)"
  by (cases r; cases k) (auto simp: conts_def)

lemma rune_width_take:
  assumes "rune_width s = Suc k"
  shows "rune_width (take (Suc k) s @ x) = Suc k"
  using assms by (cases s) (auto simp: conts_take split: option.splits if_splits)

lemma rune_width_le: "rune_width s \<le> length s"
  by (cases s) (auto simp: conts_def split: option.splits)

lemma hexval_json_hex [simp]: "n < 16 \<Longrightarrow> hexval (json_hex n) = Some n"
  by (auto simp: hexval_def json_hex_def between_def)

declare rune_width.simps(2) [simp del] 

lemma unquote_escape_byte:
  assumes "(of_char c :: nat) < 0x80"
  shows "unquote (escape_byte c @ r) = prepend [c] (unquote r)"
proof -
  have n: "(of_char c :: nat) div 16 < 16" "EncodeRune (of_char c) = [c]" using assms by (simp_all add: EncodeRune_def)
  then show ?thesis using assms
    by (auto simp: escape_byte_def Let_def simple_escape_def hexval_def [of "CHR ''0''"] between_def decode_u_def rune_width_ascii)
qed

lemma not_control: "0x80 \<le> (of_char c :: nat) \<Longrightarrow> c \<noteq> CHR 0x22 \<and> c \<noteq> CHR 0x5C \<and> \<not> (of_char c :: nat) < 32"
  by auto

lemma unquote_u:
  assumes "getu4 u = Some n" "length u = 4" "n < 0xD800 \<or> 0xE000 \<le> n"
  shows "unquote (CHR 0x5C # CHR ''u'' # u @ r) = prepend (EncodeRune n) (unquote r)"
proof -
  from assms(2) obtain a b c d where "u = [a, b, c, d]" by (auto simp: numeral_eq_Suc length_Suc_conv)
  with assms show ?thesis by (simp add: simple_escape_def decode_u_def)
qed

lemma rune_texts:
  "EncodeRune 0xFFFD = replacement" "EncodeRune 0x2028 = line_separators ! 0" "EncodeRune 0x2029 = line_separators ! 1"
  "getu4 ''fffd'' = Some 0xFFFD" "getu4 ''2028'' = Some 0x2028" "getu4 ''2029'' = Some 0x2029"
  by (simp_all add: EncodeRune_def replacement_def line_separators_def char_of_eq_iff hexval_def between_def)

lemma unquote_rune:
  assumes "0x80 \<le> (of_char c :: nat)" "rune_width (c # s) = Suc k"
  shows "unquote (take (Suc k) (c # s) @ r) = prepend (take (Suc k) (c # s)) (unquote r)"
proof -
  have "length (take k s) = k" using rune_width_le [of "c # s"] assms(2) by simp
  with rune_width_take [OF assms(2), of r] not_control [OF assms(1)] show ?thesis by simp
qed

lemma unquote_escape: "unquote (escape s @ CHR 0x22 # r) = Some (ToValidUTF8 s, r)"
proof (induction s rule: measure_induct_rule [of length])
  case (less s)
  show ?case
  proof (cases s)
    case (Cons c t)
    let ?w = "rune_width (c # t)"
    have IH: "unquote (escape (drop k t) @ CHR 0x22 # r) = Some (ToValidUTF8 (drop k t), r)" for k
      by (rule less) (simp add: Cons)
    consider (ascii) "(of_char c :: nat) < 0x80" | (bad) "0x80 \<le> (of_char c :: nat)" "?w = 0"
      | (rune) k where "0x80 \<le> (of_char c :: nat)" "?w = Suc k" by (metis not0_implies_Suc not_le)
    then show ?thesis
    proof cases
      case ascii
      with IH [of 0] show ?thesis by (simp add: Cons rune_width_ascii unquote_escape_byte prepend_def)
    next
      case bad
      from unquote_u [OF rune_texts(4)] bad IH [of 0] show ?thesis by (simp add: Cons rune_texts(1) prepend_def)
    next
      case rune
      from IH [of k] rune show ?thesis
        using unquote_u [OF rune_texts(5), of "escape (drop k t) @ CHR 0x22 # r"]
          unquote_u [OF rune_texts(6), of "escape (drop k t) @ CHR 0x22 # r"]
          unquote_rune [OF rune, of "escape (drop k t) @ CHR 0x22 # r"]
        by (simp add: Cons rune_texts(2,3) prepend_def del: unquote.simps(2) take_Suc_Cons)
    qed
  qed simp
qed

section \<open>Documents\<close>

text \<open>
  Printing with the white space \<open>nl d\<close> before an element at depth \<open>d\<close> or a closing bracket,
  and \<open>sp\<close> after a colon.
\<close>

fun layout :: "(nat \<Rightarrow> string) \<Rightarrow> string \<Rightarrow> nat \<Rightarrow> json \<Rightarrow> string"
  and layout_elems :: "(nat \<Rightarrow> string) \<Rightarrow> string \<Rightarrow> nat \<Rightarrow> json list \<Rightarrow> string"
  and layout_members :: "(nat \<Rightarrow> string) \<Rightarrow> string \<Rightarrow> nat \<Rightarrow> (string \<times> json) list \<Rightarrow> string" where
  "layout nl sp d JNull = ''null''"
| "layout nl sp d (JBool b) = (if b then ''true'' else ''false'')"
| "layout nl sp d (JInt n) = itoa n"
| "layout nl sp d (JStr s) = quote s"
| "layout nl sp d (JArr []) = ''[]''"
| "layout nl sp d (JArr (x # xs)) = ''['' @ layout_elems nl sp (Suc d) (x # xs) @ nl d @ '']''"
| "layout nl sp d (JObj []) = ''{}''"
| "layout nl sp d (JObj (kv # kvs)) = ''{'' @ layout_members nl sp (Suc d) (kv # kvs) @ nl d @ ''}''"
| "layout_elems nl sp d [] = []"
| "layout_elems nl sp d (x # xs) = nl d @ layout nl sp d x @ (if xs = [] then [] else '','' @ layout_elems nl sp d xs)"
| "layout_members nl sp d [] = []"
| "layout_members nl sp d ((k, v) # kvs) = nl d @ quote k @ '':'' @ sp @ layout nl sp d v @
     (if kvs = [] then [] else '','' @ layout_members nl sp d kvs)"

definition Marshal_text :: "json \<Rightarrow> string" where
  "Marshal_text v = layout (\<lambda>_. []) [] 0 v"

text \<open>\<open>MarshalIndent(v, "", "  ")\<close>.\<close>

definition MarshalIndent_text :: "json \<Rightarrow> string" where
  "MarshalIndent_text v = layout (\<lambda>d. CHR 0x0A # replicate (2 * d) (CHR '' '')) '' '' 0 v"

definition is_ws :: "char \<Rightarrow> bool" where
  "is_ws c \<longleftrightarrow> c = CHR '' '' \<or> c = CHR 0x09 \<or> c = CHR 0x0A \<or> c = CHR 0x0D"

definition skip_ws :: "string \<Rightarrow> string" where
  "skip_ws s = dropWhile is_ws s"

text \<open>
  A number: sign, integer part without leading zeros, fraction, exponent.  One without
  fraction and exponent is an integer.
\<close>

definition parse_uint :: "string \<Rightarrow> (nat \<times> string) option" where
  "parse_uint s = (case s of
     [] \<Rightarrow> None
   | c # r \<Rightarrow> (if c = CHR ''0'' then Some (0, r)
      else if isDigit c then Some (undigits (takeWhile isDigit s), dropWhile isDigit s) else None))"

definition parse_digits :: "string \<Rightarrow> (string \<times> string) option" where
  "parse_digits s = (case takeWhile isDigit s of [] \<Rightarrow> None | ds \<Rightarrow> Some (ds, dropWhile isDigit s))"

definition parse_fraction :: "string \<Rightarrow> (string \<times> string) option" where
  "parse_fraction s = (case s of c # r \<Rightarrow> (if c = CHR ''.'' then parse_digits r else Some ([], s)) | [] \<Rightarrow> Some ([], s))"

definition parse_exponent :: "string \<Rightarrow> (int option \<times> string) option" where
  "parse_exponent s = (case s of
     c # r \<Rightarrow> (if c = CHR ''e'' \<or> c = CHR ''E'' then
        (let neg = (r \<noteq> [] \<and> hd r = CHR ''-''); r' = (if r \<noteq> [] \<and> (hd r = CHR ''-'' \<or> hd r = CHR ''+'') then tl r else r) in
         map_option (\<lambda>(ds, q). (Some (if neg then - int (undigits ds) else int (undigits ds)), q)) (parse_digits r'))
      else Some (None, s))
   | [] \<Rightarrow> Some (None, s))"

definition parse_number :: "string \<Rightarrow> (json \<times> string) option" where
  "parse_number s = (let neg = (s \<noteq> [] \<and> hd s = CHR ''-'') in do {
     (n, s) \<leftarrow> parse_uint (if neg then tl s else s);
     (fr, s) \<leftarrow> parse_fraction s;
     (ex, s) \<leftarrow> parse_exponent s;
     let sign = (if neg then -1 else 1);
     Some (if fr = [] \<and> ex = None then JInt (sign * int n)
       else JFrac (of_int sign * (of_nat n + of_nat (undigits fr) / 10 ^ length fr) *
         (case ex of None \<Rightarrow> 1 | Some e \<Rightarrow> if 0 \<le> e then 10 ^ nat e else 1 / 10 ^ nat (- e))), s) })"

definition parse_literal :: "string \<Rightarrow> json \<Rightarrow> string \<Rightarrow> (json \<times> string) option" where
  "parse_literal l v s = (if take (length l) s = l then Some (v, drop (length l) s) else None)"

text \<open>
  The fuel bounds the depth of the calls.  A value consumes a character before it calls
  again, so twice the length of the text is enough: \<open>parse_fuel\<close> below shows that more makes
  no difference.
\<close>

fun parse_value :: "nat \<Rightarrow> string \<Rightarrow> (json \<times> string) option"
  and parse_elems :: "nat \<Rightarrow> string \<Rightarrow> (json list \<times> string) option"
  and parse_members :: "nat \<Rightarrow> string \<Rightarrow> ((string \<times> json) list \<times> string) option" where
  "parse_value 0 s = None"
| "parse_value (Suc n) s = (case skip_ws s of
     [] \<Rightarrow> None
   | c # r \<Rightarrow>
      (if c = CHR 0x22 then map_option (apfst JStr) (unquote r)
       else if c = CHR ''{'' then
         (if take 1 (skip_ws r) = ''}'' then Some (JObj [], drop 1 (skip_ws r)) else map_option (apfst JObj) (parse_members n r))
       else if c = CHR ''['' then
         (if take 1 (skip_ws r) = '']'' then Some (JArr [], drop 1 (skip_ws r)) else map_option (apfst JArr) (parse_elems n r))
       else if c = CHR ''t'' then parse_literal ''true'' (JBool True) (c # r)
       else if c = CHR ''f'' then parse_literal ''false'' (JBool False) (c # r)
       else if c = CHR ''n'' then parse_literal ''null'' JNull (c # r)
       else parse_number (c # r)))"
| "parse_elems 0 s = None"
| "parse_elems (Suc n) s = (case parse_value n s of
     None \<Rightarrow> None
   | Some (v, r) \<Rightarrow> (case skip_ws r of
        [] \<Rightarrow> None
      | c # q \<Rightarrow> (if c = CHR '','' then map_option (apfst ((#) v)) (parse_elems n q)
          else if c = CHR '']'' then Some ([v], q) else None)))"
| "parse_members 0 s = None"
| "parse_members (Suc n) s = (case skip_ws s of
     [] \<Rightarrow> None
   | c # r \<Rightarrow> (if c \<noteq> CHR 0x22 then None
      else case unquote r of
        None \<Rightarrow> None
      | Some (k, r1) \<Rightarrow> (case skip_ws r1 of
          [] \<Rightarrow> None
        | c1 # r2 \<Rightarrow> (if c1 \<noteq> CHR '':'' then None
           else case parse_value n r2 of
             None \<Rightarrow> None
           | Some (v, r3) \<Rightarrow> (case skip_ws r3 of
               [] \<Rightarrow> None
             | c3 # q \<Rightarrow> (if c3 = CHR '','' then map_option (apfst ((#) (k, v))) (parse_members n q)
                 else if c3 = CHR ''}'' then Some ([(k, v)], q) else None))))))"

definition json_parse :: "string \<Rightarrow> json option" where
  "json_parse s = (case parse_value (Suc (2 * length s)) s of
     Some (v, r) \<Rightarrow> if skip_ws r = [] then Some v else None
   | None \<Rightarrow> None)"

subsection \<open>Reading what was written\<close>

fun no_frac :: "json \<Rightarrow> bool" where
  "no_frac (JFrac _) = False"
| "no_frac (JArr xs) = list_all no_frac xs"
| "no_frac (JObj kvs) = list_all (\<lambda>(_, v). no_frac v) kvs"
| "no_frac _ = True"

fun clean :: "json \<Rightarrow> json" where
  "clean (JStr s) = JStr (ToValidUTF8 s)"
| "clean (JArr xs) = JArr (map clean xs)"
| "clean (JObj kvs) = JObj (map (\<lambda>(k, v). (ToValidUTF8 k, clean v)) kvs)"
| "clean v = v"

lemma skip_ws_append: "list_all is_ws w \<Longrightarrow> s \<noteq> [] \<Longrightarrow> \<not> is_ws (hd s) \<Longrightarrow> skip_ws (w @ s) = s"
  by (cases s) (simp_all add: skip_ws_def list_all_iff dropWhile_append)

lemma skip_ws_id [simp]: "\<not> is_ws c \<Longrightarrow> skip_ws (c # s) = c # s"
  by (simp add: skip_ws_def)

lemma hd_digits_zero: "hd (digits n) = CHR ''0'' \<longleftrightarrow> n = 0"
proof (induction n rule: digits.induct)
  case (1 n)
  show ?case
  proof (cases "n < 10")
    case True
    then show ?thesis by (subst digits.simps) (simp add: char_of_eq_iff take_bit_nat_eq_self)
  next
    case False
    with 1 show ?thesis by (subst digits.simps) (simp add: div_eq_0_iff)
  qed
qed

lemma digits_all: "list_all isDigit (digits n)"
  using digits_bytes by (auto simp: list_all_iff isDigit_def)

text \<open>What may follow a value.\<close>

definition delim :: "string \<Rightarrow> bool" where
  "delim r \<longleftrightarrow> r = [] \<or> hd r = CHR '','' \<or> hd r = CHR '']'' \<or> hd r = CHR ''}'' \<or> is_ws (hd r)"

lemma delim_number: "delim r \<Longrightarrow> takeWhile isDigit r = []" "delim r \<Longrightarrow> dropWhile isDigit r = r"
    "delim r \<Longrightarrow> parse_fraction r = Some ([], r)" "delim r \<Longrightarrow> parse_exponent r = Some (None, r)"
  by (cases r; auto simp: delim_def isDigit_def is_ws_def parse_fraction_def parse_exponent_def)+

lemma parse_uint_digits:
  assumes "delim r"
  shows "parse_uint (digits n @ r) = Some (n, r)"
proof -
  obtain c q where cq: "digits n = c # q" using digits_nonempty by (cases "digits n") auto
  have c: "isDigit c" "c = CHR ''0'' \<longleftrightarrow> n = 0" using digits_all [of n] hd_digits_zero [of n] by (simp_all add: cq)
  have "q = []" if "n = 0" using cq that by (simp add: digits.simps)
  moreover have "takeWhile isDigit (digits n @ r) = digits n" "dropWhile isDigit (digits n @ r) = r"
    using digits_all [of n] delim_number [OF assms] by (simp_all add: list_all_iff takeWhile_append dropWhile_append)
  ultimately show ?thesis using c undigits_digits [of n] by (auto simp: parse_uint_def cq)
qed

lemma parse_number_itoa:
  assumes "delim r"
  shows "parse_number (itoa n @ r) = Some (JInt n, r)"
proof (cases "n < 0")
  case True
  with parse_uint_digits [OF assms] delim_number [OF assms] show ?thesis by (simp add: itoa_def parse_number_def)
next
  case False
  have "hd (digits (nat n) @ r) \<noteq> CHR ''-''" using hd_digits_neq_minus [of "nat n"] by simp
  with False parse_uint_digits [OF assms] delim_number [OF assms] show ?thesis
    by (simp add: itoa_def parse_number_def)
qed

text \<open>The first character of a document.\<close>

lemma itoa_first: "itoa n \<noteq> [] \<and> (hd (itoa n) = CHR ''-'' \<or> isDigit (hd (itoa n)))"
  using digits_all [of "nat n"] by (cases "digits (nat n)") (auto simp: itoa_def)

lemma layout_first:
  "no_frac v \<Longrightarrow> layout nl sp d v \<noteq> [] \<and> \<not> is_ws (hd (layout nl sp d v)) \<and>
     hd (layout nl sp d v) \<noteq> CHR '']'' \<and> hd (layout nl sp d v) \<noteq> CHR ''}''"
proof (induction v)
  case (JInt n)
  then show ?case using itoa_first [of n] by (auto simp: is_ws_def isDigit_def)
next
  case (JArr xs)
  then show ?case by (cases xs) (simp_all add: is_ws_def)
next
  case (JObj kvs)
  then show ?case by (cases kvs) (simp_all add: is_ws_def)
qed (simp_all add: is_ws_def quote_def)

lemma parse_value_ws:
  assumes "list_all is_ws w" "no_frac v"
  shows "parse_value n (w @ layout nl sp d v @ r) = parse_value n (layout nl sp d v @ r)"
proof -
  have "skip_ws (w @ layout nl sp d v @ r) = layout nl sp d v @ r" "skip_ws ([] @ layout nl sp d v @ r) = layout nl sp d v @ r"
    using layout_first [OF assms(2), of nl sp d] assms(1) by (intro skip_ws_append, simp, simp, simp)+
  then show ?thesis by (cases n) (simp_all only: parse_value.simps append_Nil)
qed

lemma layout_length: "no_frac v \<Longrightarrow> 1 \<le> length (layout nl sp d v)"
  using layout_first [of v nl sp d] by (cases "layout nl sp d v") auto

text \<open>One round through the parser, by the shape of the printed value.\<close>

lemma parse_scalars:
  assumes "0 < n" "delim r"
  shows "parse_value n (layout nl sp d JNull @ r) = Some (JNull, r)"
    "parse_value n (layout nl sp d (JBool b) @ r) = Some (JBool b, r)"
    "parse_value n (layout nl sp d (JInt i) @ r) = Some (JInt i, r)"
    "parse_value n (layout nl sp d (JStr s) @ r) = Some (JStr (ToValidUTF8 s), r)"
proof -
  obtain k where n: "n = Suc k" using assms(1) by (cases n) auto
  obtain c q where cq: "itoa i = c # q" using itoa_first [of i] by (cases "itoa i") auto
  have "c = CHR ''-'' \<or> isDigit c" using itoa_first [of i] by (simp add: cq)
  then have "\<not> is_ws c \<and> c \<noteq> CHR 0x22 \<and> c \<noteq> CHR ''{'' \<and> c \<noteq> CHR ''['' \<and> c \<noteq> CHR ''t'' \<and> c \<noteq> CHR ''f'' \<and> c \<noteq> CHR ''n''"
    by (auto simp: is_ws_def isDigit_def)
  with parse_number_itoa [OF assms(2), of i] show "parse_value n (layout nl sp d (JInt i) @ r) = Some (JInt i, r)"
    by (simp add: n cq)
  show "parse_value n (layout nl sp d (JStr s) @ r) = Some (JStr (ToValidUTF8 s), r)"
    by (simp add: n quote_def is_ws_def unquote_escape)
  show "parse_value n (layout nl sp d JNull @ r) = Some (JNull, r)"
    "parse_value n (layout nl sp d (JBool b) @ r) = Some (JBool b, r)"
    by (simp_all add: n is_ws_def parse_literal_def)
qed

definition parses :: "(nat \<Rightarrow> string) \<Rightarrow> string \<Rightarrow> json \<Rightarrow> bool" where
  "parses nl sp v \<longleftrightarrow> (\<forall>n d r. length (layout nl sp d v) \<le> n \<longrightarrow> delim r \<longrightarrow>
     parse_value n (layout nl sp d v @ r) = Some (clean v, r))"

definition blank :: "(nat \<Rightarrow> string) \<Rightarrow> string \<Rightarrow> bool" where
  "blank nl sp \<longleftrightarrow> (\<forall>d. list_all is_ws (nl d)) \<and> list_all is_ws sp"

lemma delim_close: "list_all is_ws w \<Longrightarrow> delim (w @ CHR '']'' # r) \<and> delim (w @ CHR ''}'' # r)"
  by (cases w) (simp_all add: delim_def)

lemma delim_comma: "delim (CHR '','' # r)"
  by (simp add: delim_def)

lemma ws_close: "list_all is_ws w \<Longrightarrow> c = CHR '']'' \<or> c = CHR ''}'' \<Longrightarrow> skip_ws (w @ c # r) = c # r"
  by (rule skip_ws_append) (auto simp: is_ws_def)

lemma parse_elems_layout:
  assumes "blank nl sp" "list_all is_ws w"
  shows "xs \<noteq> [] \<Longrightarrow> \<forall>x \<in> set xs. no_frac x \<and> parses nl sp x \<Longrightarrow> length (layout_elems nl sp d xs) < n \<Longrightarrow>
    parse_elems n (layout_elems nl sp d xs @ w @ CHR '']'' # r) = Some (map clean xs, r)"
proof (induction xs arbitrary: n)
  case (Cons x xs)
  let ?t = "(if xs = [] then [] else '','' @ layout_elems nl sp d xs) @ w @ CHR '']'' # r"
  obtain m where n: "n = Suc m" using Cons.prems(3) by (cases n) auto
  have len: "length (layout nl sp d x) \<le> m" "1 \<le> length (layout nl sp d x)"
    using Cons.prems layout_length by (auto simp: n)
  have "delim ?t" using delim_close [OF assms(2)] delim_comma by simp
  then have "parse_value m (nl d @ layout nl sp d x @ ?t) = Some (clean x, ?t)"
    using Cons.prems(2) len(1) assms(1) parse_value_ws [of "nl d" x m nl sp d ?t] by (simp add: blank_def parses_def)
  then have v: "parse_value m (layout_elems nl sp d (x # xs) @ w @ CHR '']'' # r) = Some (clean x, ?t)"
    by simp
  show ?case
  proof (cases "xs = []")
    case True
    then show ?thesis using v ws_close [OF assms(2)] by (simp add: n del: layout_elems.simps)
  next
    case False
    with Cons.IH [of m] Cons.prems len(2) have "parse_elems m (layout_elems nl sp d xs @ w @ CHR '']'' # r) = Some (map clean xs, r)"
      by (simp add: n)
    then show ?thesis using v False by (simp add: n is_ws_def del: layout_elems.simps)
  qed
qed simp

lemma parse_members_layout:
  assumes "blank nl sp" "list_all is_ws w"
  shows "kvs \<noteq> [] \<Longrightarrow> \<forall>(k, v) \<in> set kvs. no_frac v \<and> parses nl sp v \<Longrightarrow> length (layout_members nl sp d kvs) < n \<Longrightarrow>
    parse_members n (layout_members nl sp d kvs @ w @ CHR ''}'' # r) = Some (map (\<lambda>(k, v). (ToValidUTF8 k, clean v)) kvs, r)"
proof (induction kvs arbitrary: n)
  case (Cons kv kvs)
  obtain k v where kv: "kv = (k, v)" by fastforce
  let ?t = "(if kvs = [] then [] else '','' @ layout_members nl sp d kvs) @ w @ CHR ''}'' # r"
  let ?q = "escape k @ CHR 0x22 # '':'' @ sp @ layout nl sp d v @ ?t"
  obtain m where n: "n = Suc m" using Cons.prems(3) by (cases n) auto
  have len: "length (layout nl sp d v) \<le> m" using Cons.prems by (simp add: n kv)
  have "delim ?t" using delim_close [OF assms(2)] delim_comma by simp
  then have v: "parse_value m (sp @ layout nl sp d v @ ?t) = Some (clean v, ?t)"
    using Cons.prems(2) len assms(1) parse_value_ws [of sp v m nl sp d ?t] by (simp add: blank_def parses_def kv)
  have shape: "layout_members nl sp d (kv # kvs) @ w @ CHR ''}'' # r = nl d @ CHR 0x22 # ?q" by (simp add: kv quote_def)
  have ws: "skip_ws (nl d @ CHR 0x22 # ?q) = CHR 0x22 # ?q"
    using assms(1) by (intro skip_ws_append) (simp_all add: blank_def is_ws_def)
  have uq: "unquote ?q = Some (ToValidUTF8 k, CHR '':'' # sp @ layout nl sp d v @ ?t)" by (simp add: unquote_escape)
  show ?case
  proof (cases "kvs = []")
    case True
    then show ?thesis using v ws uq ws_close [OF assms(2)] unfolding shape n parse_members.simps by (simp add: kv is_ws_def)
  next
    case False
    with Cons.IH [of m] Cons.prems have "parse_members m (layout_members nl sp d kvs @ w @ CHR ''}'' # r) =
        Some (map (\<lambda>(k, v). (ToValidUTF8 k, clean v)) kvs, r)"
      by (simp add: n kv)
    then show ?thesis using v ws uq False unfolding shape n parse_members.simps by (simp add: kv is_ws_def)
  qed
qed simp

lemma parsesI:
  assumes "no_frac v" "\<And>m d r. length (layout nl sp d v) \<le> Suc m \<Longrightarrow> delim r \<Longrightarrow>
    parse_value (Suc m) (layout nl sp d v @ r) = Some (clean v, r)"
  shows "parses nl sp v"
  unfolding parses_def
proof (intro allI impI)
  fix n d r assume len: "length (layout nl sp d v) \<le> n" and "delim r"
  moreover obtain m where "n = Suc m" using len layout_length [OF assms(1), of nl sp d] by (cases n) auto
  ultimately show "parse_value n (layout nl sp d v @ r) = Some (clean v, r)" using assms(2) by blast
qed

lemma layout_parses:
  assumes "blank nl sp"
  shows "no_frac v \<Longrightarrow> parses nl sp v"
proof (induction v)
  case (JArr xs)
  show ?case
  proof (cases xs)
    case Nil
    then show ?thesis by (intro parsesI) (simp_all add: is_ws_def)
  next
    case (Cons x ys)
    then have all: "\<forall>x \<in> set xs. no_frac x \<and> parses nl sp x" using JArr by (auto simp: list_all_iff)
    have "parse_value (Suc m) (layout nl sp d (JArr xs) @ r) = Some (clean (JArr xs), r)"
      if "length (layout nl sp d (JArr xs)) \<le> Suc m" for m d r
    proof -
      let ?q = "layout_elems nl sp (Suc d) xs @ nl d @ CHR '']'' # r"
      have "parse_elems m ?q = Some (map clean xs, r)"
        using parse_elems_layout [OF assms, of "nl d" xs "Suc d" m r] all assms that Cons by (simp add: blank_def)
      moreover have "take 1 (skip_ws ?q) \<noteq> '']''"
        using layout_first [of x nl sp "Suc d"] assms all Cons
          skip_ws_append [of "nl (Suc d)" "layout nl sp (Suc d) x @ (if ys = [] then [] else '','' @ layout_elems nl sp (Suc d) ys) @ nl d @ CHR '']'' # r"]
        by (cases "layout nl sp (Suc d) x") (simp_all add: blank_def)
      ultimately show ?thesis by (simp add: Cons is_ws_def del: layout_elems.simps)
    qed
    then show ?thesis using parsesI [OF JArr.prems] by blast
  qed
next
  case (JObj kvs)
  show ?case
  proof (cases kvs)
    case Nil
    then show ?thesis by (intro parsesI) (simp_all add: is_ws_def)
  next
    case (Cons kv ys)
    then have all: "\<forall>(k, v) \<in> set kvs. no_frac v \<and> parses nl sp v"
      using JObj by (fastforce simp: list_all_iff snds.simps)
    obtain k v where kv: "kv = (k, v)" by fastforce
    have "parse_value (Suc m) (layout nl sp d (JObj kvs) @ r) = Some (clean (JObj kvs), r)"
      if "length (layout nl sp d (JObj kvs)) \<le> Suc m" for m d r
    proof -
      let ?q = "layout_members nl sp (Suc d) kvs @ nl d @ CHR ''}'' # r"
      have "parse_members m ?q = Some (map (\<lambda>(k, v). (ToValidUTF8 k, clean v)) kvs, r)"
        using parse_members_layout [OF assms, of "nl d" kvs "Suc d" m r] all assms that Cons by (simp add: blank_def)
      moreover have "take 1 (skip_ws ?q) \<noteq> ''}''"
        using assms Cons skip_ws_append [of "nl (Suc d)" "quote k @ '':'' @ sp @ layout nl sp (Suc d) v @
            (if ys = [] then [] else '','' @ layout_members nl sp (Suc d) ys) @ nl d @ CHR ''}'' # r"]
        by (simp add: blank_def kv quote_def is_ws_def)
      ultimately show ?thesis by (simp add: Cons is_ws_def del: layout_members.simps)
    qed
    then show ?thesis using parsesI [OF JObj.prems] by blast
  qed
qed (simp_all add: parsesI parse_scalars del: layout.simps parse_value.simps)

text \<open>
  What \<open>Marshal\<close> and \<open>MarshalIndent\<close> write, \<open>Unmarshal\<close> reads, with invalid UTF-8 replaced.
\<close>

lemma json_parse_layout: "blank nl sp \<Longrightarrow> no_frac v \<Longrightarrow> json_parse (layout nl sp 0 v) = Some (clean v)"
  using layout_parses [of nl sp v] by (simp add: parses_def json_parse_def delim_def skip_ws_def del: parse_value.simps)

lemma json_text_roundtrip:
  assumes "no_frac v"
  shows "json_parse (Marshal_text v) = Some (clean v)" "json_parse (MarshalIndent_text v) = Some (clean v)"
proof -
  have "blank (\<lambda>_. []) []" "blank (\<lambda>d. CHR 0x0A # replicate (2 * d) (CHR '' '')) '' ''"
    by (simp_all add: blank_def is_ws_def list_all_iff)
  with assms show "json_parse (Marshal_text v) = Some (clean v)" "json_parse (MarshalIndent_text v) = Some (clean v)"
    by (simp_all only: Marshal_text_def MarshalIndent_text_def json_parse_layout)
qed

subsection \<open>The fuel is enough\<close>

lemma unquote_consumes: "unquote s = Some (x, r) \<Longrightarrow> length r < length s"
proof (induction s arbitrary: x rule: measure_induct_rule [of length])
  case (less s)
  have tail: "length r \<le> length t" if "prepend y (unquote (drop k t)) = Some (x, r)" "length t < length s" for y k t
  proof -
    from that(1) obtain a where "unquote (drop k t) = Some (a, r)" by (auto simp: prepend_def)
    moreover have "length (drop k t) < length s" using that(2) by simp
    ultimately have "length r < length (drop k t)" using less.IH by blast
    then show ?thesis by simp
  qed
  show ?case
  proof (cases s)
    case (Cons c t)
    have "r = t \<or> (\<exists>y k. prepend y (unquote (drop k t)) = Some (x, r)) \<or>
        (\<exists>e q y k. t = e # q \<and> prepend y (unquote (drop k q)) = Some (x, r))"
      using less.prems Cons
      by (simp add: Let_def split: if_splits list.splits option.splits) (metis drop0)+
    then show ?thesis using tail [of _ _ t] tail [of _ _ "tl t"] Cons by fastforce
  qed (use less.prems in simp)
qed

lemma skip_ws_length: "length (skip_ws s) \<le> length s"
  by (simp add: skip_ws_def length_dropWhile_le)

lemma number_consumes: "parse_number s = Some (v, r) \<Longrightarrow> length r < length s"
proof -
  have uint: "parse_uint t = Some (n, q) \<Longrightarrow> length q < length t" for t n q
    by (auto simp: parse_uint_def le_imp_less_Suc length_dropWhile_le split: list.splits if_splits)
  have digs: "parse_digits t = Some (ds, q) \<Longrightarrow> length q \<le> length t" for t ds q
    by (auto simp: parse_digits_def length_dropWhile_le split: list.splits)
  then have frac: "parse_fraction t = Some (ds, q) \<Longrightarrow> length q \<le> length t" for t ds q
    by (fastforce simp: parse_fraction_def split: list.splits if_splits)
  have exp: "parse_exponent t = Some (e, q) \<Longrightarrow> length q \<le> length t" for t e q
    by (fastforce simp: parse_exponent_def Let_def dest: digs split: list.splits if_splits)
  show "parse_number s = Some (v, r) \<Longrightarrow> length r < length s"
    by (fastforce simp: parse_number_def Let_def dest!: uint frac exp split: bind_splits if_splits)
qed

lemma literal_consumes: "parse_literal l v s = Some (x, r) \<Longrightarrow> l \<noteq> [] \<Longrightarrow> length r < length s"
  by (auto simp: parse_literal_def split: if_splits) (metis length_greater_0_conv diff_less take_eq_Nil)

lemma parse_consumes:
  "parse_value n s = Some (v, r) \<Longrightarrow> length r < length s"
  "parse_elems n s = Some (vs, r) \<Longrightarrow> length r < length s"
  "parse_members n s = Some (kvs, r) \<Longrightarrow> length r < length s"
proof (induction n arbitrary: s v vs kvs r)
  case (Suc n)
  {
    case 1
    show ?case
    proof (cases "skip_ws s")
      case (Cons c q)
      then have "length q < length s" using skip_ws_length [of s] by simp
      moreover have "length r \<le> length q" 
        using Suc.IH(2,3) [of q] 1 Cons skip_ws_length [of q] literal_consumes [of _ _ "c # q"] number_consumes [of "c # q"] unquote_consumes [of q]
        by (fastforce split: if_splits)
      ultimately show ?thesis by simp
    qed (use 1 in simp)
  next
    case 2
    then obtain v q where q: "parse_value n s = Some (v, q)" by (auto split: option.splits)
    with Suc.IH(1) have "length q < length s" by blast
    with 2 q Suc.IH(2) skip_ws_length [of q] show ?case
      by (fastforce split: list.splits if_splits)
  next
    case 3
    then obtain q where q: "skip_ws s = CHR 0x22 # q" by (auto split: list.splits if_splits)
    with 3 obtain k q1 where q1: "unquote q = Some (k, q1)" by (auto split: option.splits)
    with 3 q obtain q2 where q2: "skip_ws q1 = CHR '':'' # q2" by (auto split: list.splits if_splits)
    with 3 q q1 obtain v q3 where q3: "parse_value n q2 = Some (v, q3)" by (auto split: option.splits)
    have len: "length q3 < length s"
      using skip_ws_length [of s] unquote_consumes [OF q1] skip_ws_length [of q1] Suc.IH(1) [OF q3] q q2 by simp
    with 3 q q1 q2 q3 Suc.IH(3) skip_ws_length [of q3] show ?case
      by (fastforce split: list.splits if_splits)
  }
qed simp_all

lemma parse_fuel:
  "2 * length s < n \<Longrightarrow> 2 * length s < m \<Longrightarrow> parse_value n s = parse_value m s"
  "2 * length s + 1 < n \<Longrightarrow> 2 * length s + 1 < m \<Longrightarrow> parse_elems n s = parse_elems m s"
  "2 * length s < n \<Longrightarrow> 2 * length s < m \<Longrightarrow> parse_members n s = parse_members m s"
proof (induction n arbitrary: s m)
  case (Suc n)
  {
    case 1
    then obtain k where m: "m = Suc k" by (cases m) auto
    show ?case
    proof (cases "skip_ws s")
      case (Cons c q)
      then have "length q < length s" using skip_ws_length [of s] by simp
      then have "parse_elems n q = parse_elems k q" "parse_members n q = parse_members k q"
        using Suc.IH(2,3) [of q k] 1 m by simp_all
      with Cons show ?thesis by (simp add: m)
    qed (simp add: m)
  next
    case 2
    then obtain k where m: "m = Suc k" by (cases m) auto
    have v: "parse_value n s = parse_value k s" using Suc.IH(1) [of s k] 2 m by simp
    have "parse_elems n q' = parse_elems k q'" if "parse_value k s = Some (v, q)" "skip_ws q = c # q'" for v q c q'
    proof -
      have "length q' + 1 < length s" using parse_consumes(1) [OF that(1)] skip_ws_length [of q] that(2) by simp
      then show ?thesis using Suc.IH(2) [of q' k] 2 m by simp
    qed
    with v show ?case by (simp add: m split: option.splits list.splits)
  next
    case 3
    then obtain k where m: "m = Suc k" by (cases m) auto
    have v: "parse_value n q2 = parse_value k q2" if "skip_ws s = c # q" "unquote q = Some (x, q1)" "skip_ws q1 = c1 # q2" for c q x q1 c1 q2
      using Suc.IH(1) [of q2 k] 3 m that skip_ws_length [of s] skip_ws_length [of q1] unquote_consumes [OF that(2)] by simp
    have "parse_members n q4 = parse_members k q4"
      if "skip_ws s = c # q" "unquote q = Some (x, q1)" "skip_ws q1 = c1 # q2" "parse_value k q2 = Some (y, q3)" "skip_ws q3 = c3 # q4"
      for c q x q1 c1 q2 y q3 c3 q4
      using Suc.IH(3) [of q4 k] 3 m that skip_ws_length [of s] skip_ws_length [of q1] skip_ws_length [of q3] unquote_consumes [OF that(2)]
        parse_consumes(1) [OF that(4)] by simp
    with v show ?case by (simp add: m split: option.splits list.splits)
  }
qed simp_all

end
