(* ===== verification/Stored_Json.thy ===== *)
theory Stored_Json
  imports Json_Text Family Queue_Event
begin

text \<open>
  The documents the Redis and the file store keep: queued events (\<open>serializeEvent\<close> and
  \<open>deserializeEvent\<close> of \<open>lib/store/queue.go\<close>), family groups, group members, and cached
  scrobble bodies.  Decoding follows \<open>encoding/json\<close> to the letter where its errors are
  ignored: a field that does not fit is skipped and remembered as an error, and decoding goes
  on.  A decoder returns the struct and whether all went well; \<^const>\<open>None\<close> is the panic of
  \<open>ScrobbleBody.UnmarshalJSON\<close> on null.  The messages of the decoder are not modelled.
\<close>

declare ToValidUTF8.simps(2) [simp del] escape.simps(2) [simp del] unquote.simps(2) [simp del]

section \<open>Decoders that collect errors\<close>

type_synonym 'a lfield = "string \<times> (json \<Rightarrow> 'a \<Rightarrow> ('a \<times> bool) option)"

fun lset_fields :: "'a lfield list \<Rightarrow> (string \<times> json) list \<Rightarrow> 'a \<Rightarrow> ('a \<times> bool) option" where
  "lset_fields fs [] a = Some (a, True)"
| "lset_fields fs ((k, v) # kvs) a =
     (case find (\<lambda>(n, _). EqualFold n k) fs of
        None \<Rightarrow> lset_fields fs kvs a
      | Some (_, f) \<Rightarrow> (case f v a of
          None \<Rightarrow> None
        | Some (a', ok) \<Rightarrow> map_option (apsnd ((\<and>) ok)) (lset_fields fs kvs a')))"

fun ldec_struct :: "'a lfield list \<Rightarrow> json \<Rightarrow> 'a \<Rightarrow> ('a \<times> bool) option" where
  "ldec_struct fs (JObj kvs) a = lset_fields fs kvs a"
| "ldec_struct fs JNull a = Some (a, True)"
| "ldec_struct fs _ a = Some (a, False)"

text \<open>A value that is not a pointer: null leaves it as it is.\<close>

fun lint :: "json \<Rightarrow> int \<Rightarrow> (int \<times> bool) option" where
  "lint JNull cur = Some (cur, True)"
| "lint (JInt n) cur = Some (if in_int64 n then (n, True) else (cur, False))"
| "lint _ cur = Some (cur, False)"

fun lstr :: "json \<Rightarrow> string \<Rightarrow> (string \<times> bool) option" where
  "lstr JNull cur = Some (cur, True)"
| "lstr (JStr s) cur = Some (s, True)"
| "lstr _ cur = Some (cur, False)"

text \<open>A string that is no time sets the zero time.\<close>

fun ltime :: "json \<Rightarrow> gotime \<Rightarrow> (gotime \<times> bool) option" where
  "ltime JNull cur = Some (cur, True)"
| "ltime (JStr s) cur = Some (case Time_UnmarshalText s of Some t \<Rightarrow> (t, True) | None \<Rightarrow> (0, False))"
| "ltime _ cur = Some (cur, False)"

text \<open>A pointer: null makes it nil, anything else is decoded into what it points to, a new value if it was nil.\<close>

definition lptr :: "'a \<Rightarrow> (json \<Rightarrow> 'a \<Rightarrow> ('a \<times> bool) option) \<Rightarrow> json \<Rightarrow> 'a option \<Rightarrow> ('a option \<times> bool) option" where
  "lptr z dec v cur = (if v = JNull then Some (None, True)
     else map_option (apfst Some) (dec v (case cur of None \<Rightarrow> z | Some x \<Rightarrow> x)))"

text \<open>A field of a struct: where it is read and written.\<close>

definition lfld :: "string \<Rightarrow> (json \<Rightarrow> 'b \<Rightarrow> ('b \<times> bool) option) \<Rightarrow> ('a \<Rightarrow> 'b) \<Rightarrow> ('b \<Rightarrow> 'a \<Rightarrow> 'a) \<Rightarrow> 'a lfield" where
  "lfld name dec get put = (name, \<lambda>v a. map_option (apfst (\<lambda>x. put x a)) (dec v (get a)))"

section \<open>Scrobble bodies\<close>

definition ldec_Ids :: "json \<Rightarrow> Ids \<Rightarrow> (Ids \<times> bool) option" where
  "ldec_Ids = ldec_struct
     [lfld ''trakt'' (lptr 0 lint) Trakt (\<lambda>x a. a\<lparr>Trakt := x\<rparr>), lfld ''tvdb'' (lptr 0 lint) Tvdb (\<lambda>x a. a\<lparr>Tvdb := x\<rparr>),
      lfld ''imdb'' (lptr [] lstr) Imdb (\<lambda>x a. a\<lparr>Imdb := x\<rparr>), lfld ''tmdb'' (lptr 0 lint) Tmdb (\<lambda>x a. a\<lparr>Tmdb := x\<rparr>),
      lfld ''slug'' (lptr [] lstr) Slug (\<lambda>x a. a\<lparr>Slug := x\<rparr>)]"

definition ldec_Show :: "json \<Rightarrow> Show \<Rightarrow> (Show \<times> bool) option" where
  "ldec_Show = ldec_struct
     [lfld ''title'' (lptr [] lstr) ShowTitle (\<lambda>x a. a\<lparr>ShowTitle := x\<rparr>), lfld ''year'' (lptr 0 lint) ShowYear (\<lambda>x a. a\<lparr>ShowYear := x\<rparr>),
      lfld ''ids'' ldec_Ids ShowIds (\<lambda>x a. a\<lparr>ShowIds := x\<rparr>)]"

definition ldec_Episode :: "json \<Rightarrow> Episode \<Rightarrow> (Episode \<times> bool) option" where
  "ldec_Episode = ldec_struct
     [lfld ''season'' (lptr 0 lint) Season (\<lambda>x a. a\<lparr>Season := x\<rparr>), lfld ''number'' (lptr 0 lint) Number (\<lambda>x a. a\<lparr>Number := x\<rparr>),
      lfld ''title'' (lptr [] lstr) EpTitle (\<lambda>x a. a\<lparr>EpTitle := x\<rparr>), lfld ''ids'' (lptr zero_Ids ldec_Ids) EpIds (\<lambda>x a. a\<lparr>EpIds := x\<rparr>)]"

definition ldec_Movie :: "json \<Rightarrow> Movie \<Rightarrow> (Movie \<times> bool) option" where
  "ldec_Movie = ldec_struct
     [lfld ''title'' (lptr [] lstr) MovieTitle (\<lambda>x a. a\<lparr>MovieTitle := x\<rparr>), lfld ''year'' (lptr 0 lint) MovieYear (\<lambda>x a. a\<lparr>MovieYear := x\<rparr>),
      lfld ''ids'' ldec_Ids MovieIds (\<lambda>x a. a\<lparr>MovieIds := x\<rparr>)]"

definition ldec_aux :: "json \<Rightarrow> json \<times> ScrobbleBody \<Rightarrow> ((json \<times> ScrobbleBody) \<times> bool) option" where
  "ldec_aux = ldec_struct
     [(''progress'', \<lambda>v (p, b). Some ((v, b), True)),
      lfld ''movie'' (lptr zero_Movie ldec_Movie) (BMovie \<circ> snd) (\<lambda>x (p, b). (p, b\<lparr>BMovie := x\<rparr>)),
      lfld ''show'' (lptr zero_Show ldec_Show) (BShow \<circ> snd) (\<lambda>x (p, b). (p, b\<lparr>BShow := x\<rparr>)),
      lfld ''episode'' (lptr zero_Episode ldec_Episode) (BEpisode \<circ> snd) (\<lambda>x (p, b). (p, b\<lparr>BEpisode := x\<rparr>))]"

text \<open>
  \<open>UnmarshalJSON\<close> with the body it leaves behind: after an error the progress is the old one.
\<close>

definition lbody :: "json \<Rightarrow> ScrobbleBody \<Rightarrow> (ScrobbleBody \<times> bool) option" where
  "lbody data s =
     (if data = JNull then None
      else case ldec_aux data (JNull, s) of
        None \<Rightarrow> None
      | Some ((p, b), False) \<Rightarrow> Some (b, False)
      | Some ((p, b), True) \<Rightarrow> Some (case p of
            JInt n \<Rightarrow> b\<lparr>Progress := f64_int (f64 n)\<rparr>
          | JFrac r \<Rightarrow> b\<lparr>Progress := f64_int (rnd r)\<rparr>
          | JNull \<Rightarrow> b\<lparr>Progress := 0\<rparr>
          | _ \<Rightarrow> b, True))"

text \<open>The decoder that stops at the first error is this one with the leftovers forgotten.\<close>

definition agree :: "(json \<Rightarrow> 'a \<Rightarrow> 'a option) \<Rightarrow> (json \<Rightarrow> 'a \<Rightarrow> ('a \<times> bool) option) \<Rightarrow> bool" where
  "agree d l \<longleftrightarrow> (\<forall>v a. \<exists>x ok. l v a = Some (x, ok) \<and> d v a = (if ok then Some x else None))"

definition agree_fields :: "'a field list \<Rightarrow> 'a lfield list \<Rightarrow> bool" where
  "agree_fields fs ls \<longleftrightarrow> list_all2 (\<lambda>(n, f) (m, g). n = m \<and> agree f g) fs ls"

lemma agree_find:
  "agree_fields fs ls \<Longrightarrow> (case find (\<lambda>(n, _). P n) ls of
     None \<Rightarrow> find (\<lambda>(n, _). P n) fs = None
   | Some (n, g) \<Rightarrow> \<exists>f. find (\<lambda>(n, _). P n) fs = Some (n, f) \<and> agree f g)"
  unfolding agree_fields_def by (induction rule: list_all2_induct) (auto split: option.splits)

lemma agree_struct:
  assumes "agree_fields fs ls"
  shows "agree (dec_struct fs) (ldec_struct ls)"
proof -
  have kvs: "\<exists>x ok. lset_fields ls kvs a = Some (x, ok) \<and> set_fields fs kvs a = (if ok then Some x else None)" for kvs a
  proof (induction kvs arbitrary: a)
    case (Cons kv kvs)
    obtain k v where kv: "kv = (k, v)" by fastforce
    show ?case
    proof (cases "find (\<lambda>(n, _). EqualFold n k) ls")
      case None
      then show ?thesis using agree_find [OF assms, of "\<lambda>n. EqualFold n k"] Cons.IH [of a] by (simp add: kv)
    next
      case (Some ng)
      then obtain n g where ng: "find (\<lambda>(n, _). EqualFold n k) ls = Some (n, g)" by fastforce
      then obtain f where f: "find (\<lambda>(n, _). EqualFold n k) fs = Some (n, f)" "agree f g"
        using agree_find [OF assms, of "\<lambda>n. EqualFold n k"] by auto
      then obtain x ok where "g v a = Some (x, ok)" "f v a = (if ok then Some x else None)" unfolding agree_def by blast
      with ng f(1) Cons.IH [of x] show ?thesis by (auto simp: kv)
    qed
  qed (simp add: exI [of "\<lambda>x. x" True])
  have "\<exists>x ok. ldec_struct ls v a = Some (x, ok) \<and> dec_struct fs v a = (if ok then Some x else None)" for v a
    using kvs by (cases v) auto
  then show ?thesis by (simp add: agree_def)
qed

lemma agree_fieldsI:
  "agree_fields [] []"
  "agree f g \<Longrightarrow> agree_fields fs ls \<Longrightarrow> agree_fields ((n, f) # fs) ((n, g) # ls)"
  by (simp_all add: agree_fields_def)

lemma agree_lptr: "agree d l \<Longrightarrow> agree (dec_ptr z d) (lptr z l)"
  unfolding agree_def dec_ptr_def lptr_def by (fastforce split: if_splits)

text \<open>A field that agrees, for any way of reading and writing it.\<close>

lemma agree_lfld: "agree d l \<Longrightarrow> agree (\<lambda>v a. map_option (\<lambda>x. put x a) (d v (get a))) (snd (lfld n l get put))"
  unfolding agree_def lfld_def by (fastforce split: if_splits)

lemma agree_leaf:
  "agree (\<lambda>v a. dec_int v) (lptr 0 lint)" "agree (\<lambda>v a. dec_str v) (lptr [] lstr)"
proof -
  have "\<exists>x ok. lptr 0 lint v a = Some (x, ok) \<and> dec_int v = (if ok then Some x else None)" for v a
    by (cases v) (auto simp: lptr_def)
  moreover have "\<exists>x ok. lptr [] lstr v a = Some (x, ok) \<and> dec_str v = (if ok then Some x else None)" for v a
    by (cases v) (auto simp: lptr_def intro: exI [of "\<lambda>x. x" True])
  ultimately show "agree (\<lambda>v a. dec_int v) (lptr 0 lint)" "agree (\<lambda>v a. dec_str v) (lptr [] lstr)"
    by (simp_all add: agree_def)
qed

lemmas agree_intros = agree_struct agree_fieldsI agree_lptr agree_leaf
lemmas agree_at = agree_lfld [unfolded lfld_def snd_conv]

lemma agree_Ids: "agree dec_Ids ldec_Ids"
  unfolding dec_Ids_def ldec_Ids_def lfld_def by (intro agree_intros agree_at)

lemma agree_Show: "agree dec_Show ldec_Show"
  unfolding dec_Show_def ldec_Show_def lfld_def by (intro agree_intros agree_at agree_Ids)

lemma agree_Movie: "agree dec_Movie ldec_Movie"
  unfolding dec_Movie_def ldec_Movie_def lfld_def by (intro agree_intros agree_at agree_Ids)

lemma agree_Episode: "agree dec_Episode ldec_Episode"
  unfolding dec_Episode_def ldec_Episode_def lfld_def by (intro agree_intros agree_at agree_Ids)

lemma agree_aux: "agree dec_aux ldec_aux"
proof -
  have "agree (\<lambda>v (p, b). Some (v, b)) (\<lambda>v (p, b). Some ((v, b), True))"
    by (auto simp: agree_def intro: exI [of "\<lambda>x. x" True])
  moreover have pair: "agree (\<lambda>v (p, b). map_option (\<lambda>x. (p, put x b)) (d v (get b)))
      (\<lambda>v a. map_option (apfst (\<lambda>x. case a of (p, b) \<Rightarrow> (p, put x b))) (l v ((get \<circ> snd) a)))" if "agree d l" for d l get put
    using that unfolding agree_def by (fastforce split: if_splits)
  ultimately show ?thesis
    unfolding dec_aux_def ldec_aux_def lfld_def by (intro agree_intros pair agree_Movie agree_Show agree_Episode)
qed

lemma lbody_spec:
  "ScrobbleBody_UnmarshalJSON data s = (case lbody data s of
     None \<Rightarrow> DecPanic
   | Some (b, True) \<Rightarrow> DecOk b
   | Some (b, False) \<Rightarrow> DecErr)"
proof (cases "data = JNull")
  case False
  obtain p b ok where "ldec_aux data (JNull, s) = Some ((p, b), ok)" "dec_aux data (JNull, s) = (if ok then Some (p, b) else None)"
    using agree_aux unfolding agree_def by (metis surj_pair)
  with False show ?thesis by (cases ok) (simp_all add: ScrobbleBody_UnmarshalJSON_def lbody_def)
qed (simp add: ScrobbleBody_UnmarshalJSON_def lbody_def)

section \<open>Stored documents\<close>

text \<open>\<open>json.Unmarshal\<close> into a struct: a text that is no JSON document changes nothing.\<close>

definition Unmarshal :: "(json \<Rightarrow> 'a \<Rightarrow> ('a \<times> bool) option) \<Rightarrow> string \<Rightarrow> 'a \<Rightarrow> ('a \<times> bool) option" where
  "Unmarshal dec data a = (case json_parse data of None \<Rightarrow> Some (a, False) | Some v \<Rightarrow> dec v a)"

definition marshal_err :: err where
  "marshal_err = Err ''json: error calling MarshalJSON for type time.Time: Time.MarshalJSON: year outside of range [0,9999]''"

subsection \<open>Queued events (lib/store/queue.go)\<close>

definition zero_event :: QueuedScrobbleEvent where
  "zero_event = \<lparr>ev_ID = [], ev_UserID = [], ev_ScrobbleBody = zero_Body, Action = [], ev_Progress = 0, ev_CreatedAt = 0,
     RetryCount = 0, LastAttempt = 0, PlayerUUID = [], ev_RatingKey = []\<rparr>"

definition enc_event :: "QueuedScrobbleEvent \<Rightarrow> json option" where
  "enc_event ev = do {
     created \<leftarrow> Time_MarshalText (ev_CreatedAt ev);
     last \<leftarrow> Time_MarshalText (LastAttempt ev);
     Some (JObj [(''id'', JStr (ev_ID ev)), (''user_id'', JStr (ev_UserID ev)),
       (''scrobble_body'', ScrobbleBody_MarshalJSON (ev_ScrobbleBody ev)), (''action'', JStr (Action ev)),
       (''progress'', JInt (ev_Progress ev)), (''created_at'', JStr created), (''retry_count'', JInt (RetryCount ev)),
       (''last_attempt'', JStr last), (''player_uuid'', JStr (PlayerUUID ev)), (''rating_key'', JStr (ev_RatingKey ev))]) }"

definition serializeEvent :: "QueuedScrobbleEvent \<Rightarrow> string result" where
  "serializeEvent event = (case enc_event event of
     None \<Rightarrow> Inl (Wrap ''failed to serialize event'' marshal_err)
   | Some d \<Rightarrow> Inr (Marshal_text d))"

definition dec_event :: "json \<Rightarrow> QueuedScrobbleEvent \<Rightarrow> (QueuedScrobbleEvent \<times> bool) option" where
  "dec_event = ldec_struct
     [lfld ''id'' lstr ev_ID (\<lambda>x a. a\<lparr>ev_ID := x\<rparr>), lfld ''user_id'' lstr ev_UserID (\<lambda>x a. a\<lparr>ev_UserID := x\<rparr>),
      lfld ''scrobble_body'' lbody ev_ScrobbleBody (\<lambda>x a. a\<lparr>ev_ScrobbleBody := x\<rparr>), lfld ''action'' lstr Action (\<lambda>x a. a\<lparr>Action := x\<rparr>),
      lfld ''progress'' lint ev_Progress (\<lambda>x a. a\<lparr>ev_Progress := x\<rparr>), lfld ''created_at'' ltime ev_CreatedAt (\<lambda>x a. a\<lparr>ev_CreatedAt := x\<rparr>),
      lfld ''retry_count'' lint RetryCount (\<lambda>x a. a\<lparr>RetryCount := x\<rparr>), lfld ''last_attempt'' ltime LastAttempt (\<lambda>x a. a\<lparr>LastAttempt := x\<rparr>),
      lfld ''player_uuid'' lstr PlayerUUID (\<lambda>x a. a\<lparr>PlayerUUID := x\<rparr>), lfld ''rating_key'' lstr ev_RatingKey (\<lambda>x a. a\<lparr>ev_RatingKey := x\<rparr>)]"

definition deserializeEvent :: "string \<Rightarrow> QueuedScrobbleEvent decoded" where
  "deserializeEvent data = (case Unmarshal dec_event data zero_event of
     None \<Rightarrow> DecPanic
   | Some (event, True) \<Rightarrow> DecOk event
   | Some (_, False) \<Rightarrow> DecErr)"

subsection \<open>Family groups and members\<close>

definition zero_group :: FamilyGroup where
  "zero_group = \<lparr>fg_ID = [], PlexUsername = [], fg_CreatedAt = 0, fg_UpdatedAt = 0\<rparr>"

definition enc_group :: "FamilyGroup \<Rightarrow> json option" where
  "enc_group g = do {
     created \<leftarrow> Time_MarshalText (fg_CreatedAt g);
     updated \<leftarrow> Time_MarshalText (fg_UpdatedAt g);
     Some (JObj [(''id'', JStr (fg_ID g)), (''plex_username'', JStr (PlexUsername g)), (''created_at'', JStr created),
       (''updated_at'', JStr updated)]) }"

definition dec_group :: "json \<Rightarrow> FamilyGroup \<Rightarrow> (FamilyGroup \<times> bool) option" where
  "dec_group = ldec_struct
     [lfld ''id'' lstr fg_ID (\<lambda>x a. a\<lparr>fg_ID := x\<rparr>), lfld ''plex_username'' lstr PlexUsername (\<lambda>x a. a\<lparr>PlexUsername := x\<rparr>),
      lfld ''created_at'' ltime fg_CreatedAt (\<lambda>x a. a\<lparr>fg_CreatedAt := x\<rparr>), lfld ''updated_at'' ltime fg_UpdatedAt (\<lambda>x a. a\<lparr>fg_UpdatedAt := x\<rparr>)]"

definition zero_member :: GroupMember where
  "zero_member = \<lparr>gm_ID = [], gm_FamilyGroupID = [], TempLabel = [], TraktUsername = [], gm_AccessToken = [], gm_RefreshToken = [],
     gm_TokenExpiry = None, AuthorizationStatus = [], gm_CreatedAt = 0\<rparr>"

text \<open>The tokens are tagged \<open>json:"-"\<close>: they are not part of the document.\<close>

definition enc_member :: "GroupMember \<Rightarrow> json option" where
  "enc_member m = do {
     expiry \<leftarrow> (case gm_TokenExpiry m of None \<Rightarrow> Some None | Some t \<Rightarrow> map_option Some (Time_MarshalText t));
     created \<leftarrow> Time_MarshalText (gm_CreatedAt m);
     Some (JObj ([(''id'', JStr (gm_ID m)), (''family_group_id'', JStr (gm_FamilyGroupID m)), (''temp_label'', JStr (TempLabel m))] @
       (if TraktUsername m = [] then [] else [(''trakt_username'', JStr (TraktUsername m))]) @
       omitempty ''token_expiry'' JStr expiry @
       [(''authorization_status'', JStr (AuthorizationStatus m)), (''created_at'', JStr created)])) }"

definition dec_member :: "json \<Rightarrow> GroupMember \<Rightarrow> (GroupMember \<times> bool) option" where
  "dec_member = ldec_struct
     [lfld ''id'' lstr gm_ID (\<lambda>x a. a\<lparr>gm_ID := x\<rparr>), lfld ''family_group_id'' lstr gm_FamilyGroupID (\<lambda>x a. a\<lparr>gm_FamilyGroupID := x\<rparr>),
      lfld ''temp_label'' lstr TempLabel (\<lambda>x a. a\<lparr>TempLabel := x\<rparr>), lfld ''trakt_username'' lstr TraktUsername (\<lambda>x a. a\<lparr>TraktUsername := x\<rparr>),
      lfld ''token_expiry'' (lptr 0 ltime) gm_TokenExpiry (\<lambda>x a. a\<lparr>gm_TokenExpiry := x\<rparr>),
      lfld ''authorization_status'' lstr AuthorizationStatus (\<lambda>x a. a\<lparr>AuthorizationStatus := x\<rparr>),
      lfld ''created_at'' ltime gm_CreatedAt (\<lambda>x a. a\<lparr>gm_CreatedAt := x\<rparr>)]"

subsection \<open>Cached bodies\<close>

definition enc_CacheItem :: "CacheItem \<Rightarrow> json" where
  "enc_CacheItem i = JObj [(''player_uuid'', JStr (PlayerUuid i)), (''server_uuid'', JStr (ServerUuid i)), (''rating_key'', JStr (CRatingKey i)),
     (''trigger'', JStr (Trigger i)), (''body'', ScrobbleBody_MarshalJSON (Body i)), (''last_action'', JStr (LastAction i))]"

definition dec_CacheItem :: "json \<Rightarrow> CacheItem \<Rightarrow> (CacheItem \<times> bool) option" where
  "dec_CacheItem = ldec_struct
     [lfld ''player_uuid'' lstr PlayerUuid (\<lambda>x a. a\<lparr>PlayerUuid := x\<rparr>), lfld ''server_uuid'' lstr ServerUuid (\<lambda>x a. a\<lparr>ServerUuid := x\<rparr>),
      lfld ''rating_key'' lstr CRatingKey (\<lambda>x a. a\<lparr>CRatingKey := x\<rparr>), lfld ''trigger'' lstr Trigger (\<lambda>x a. a\<lparr>Trigger := x\<rparr>),
      lfld ''body'' lbody Body (\<lambda>x a. a\<lparr>Body := x\<rparr>), lfld ''last_action'' lstr LastAction (\<lambda>x a. a\<lparr>LastAction := x\<rparr>)]"

section \<open>Round trips\<close>

lemma no_frac_omitempty: "(\<And>x. no_frac (f x)) \<Longrightarrow> list_all (\<lambda>(_, v). no_frac v) (omitempty k f v)"
  by (simp add: omitempty_def split: option.splits)

lemma no_frac_enc [simp]:
  "no_frac (enc_Ids i)" "no_frac (enc_Show s)" "no_frac (enc_Movie m)" "no_frac (enc_Episode e)" "no_frac (ScrobbleBody_MarshalJSON b)"
proof -
  show i: "no_frac (enc_Ids i)" for i by (simp add: enc_Ids_def no_frac_omitempty)
  then show s: "no_frac (enc_Show s)" for s by (simp add: enc_Show_def no_frac_omitempty)
  from i show m: "no_frac (enc_Movie m)" for m by (simp add: enc_Movie_def no_frac_omitempty)
  from i show e: "no_frac (enc_Episode e)" for e by (simp add: enc_Episode_def no_frac_omitempty)
  from s m e show "no_frac (ScrobbleBody_MarshalJSON b)" by (simp add: ScrobbleBody_MarshalJSON_def no_frac_omitempty)
qed

text \<open>A document all of whose strings are UTF-8 is read as it was written.\<close>

definition utf8_doc :: "json \<Rightarrow> bool" where
  "utf8_doc v \<longleftrightarrow> clean v = v"

lemma Unmarshal_written:
  assumes "no_frac v" "utf8_doc v"
  shows "Unmarshal dec (Marshal_text v) a = dec v a" "Unmarshal dec (MarshalIndent_text v) a = dec v a"
  using assms by (simp_all add: Unmarshal_def json_text_roundtrip utf8_doc_def)

lemma lbody_roundtrip: "Body_ok b \<Longrightarrow> lbody (ScrobbleBody_MarshalJSON b) zero_Body = Some (b, True)"
  using body_roundtrip [of b] lbody_spec [of "ScrobbleBody_MarshalJSON b" zero_Body]
  by (auto split: option.splits bool.splits)

lemma Time_text [simp]: "Time_MarshalText t = Some s \<Longrightarrow> Time_UnmarshalText s = Some t"
  by (rule Time_text_roundtrip)

definition event_storable :: "QueuedScrobbleEvent \<Rightarrow> bool" where
  "event_storable ev \<longleftrightarrow> Body_ok (ev_ScrobbleBody ev) \<and> in_int64 (ev_Progress ev) \<and> in_int64 (RetryCount ev) \<and>
     (case enc_event ev of None \<Rightarrow> False | Some d \<Rightarrow> utf8_doc d)"

lemma dec_enc_event:
  assumes "enc_event ev = Some d" "event_storable ev"
  shows "dec_event d zero_event = Some (ev, True)"
  using assms lbody_roundtrip [of "ev_ScrobbleBody ev"]
  by (cases ev) (auto simp: enc_event_def dec_event_def lfld_def fold_simps zero_event_def event_storable_def split: bind_splits)

lemma event_roundtrip:
  assumes "event_storable ev"
  shows "\<exists>data. serializeEvent ev = Inr data \<and> deserializeEvent data = DecOk ev"
proof -
  from assms obtain d where d: "enc_event ev = Some d" "utf8_doc d" by (auto simp: event_storable_def split: option.splits)
  then have "no_frac d" by (auto simp: enc_event_def split: bind_splits)
  with d show ?thesis
    by (simp add: serializeEvent_def deserializeEvent_def Unmarshal_written dec_enc_event [OF d(1) assms])
qed

lemma event_text_inject:
  "event_storable a \<Longrightarrow> event_storable b \<Longrightarrow> serializeEvent a = Inr d \<Longrightarrow> serializeEvent b = Inr d \<Longrightarrow> a = b"
  using event_roundtrip [of a] event_roundtrip [of b] by simp

text \<open>What makes an event storable, field by field.\<close>

lemma Time_text_clean: "Time_MarshalText t = Some s \<Longrightarrow> ToValidUTF8 s = s"
  using ascii_utf8 [OF Time_text_ascii] by (simp add: valid_utf8_def)

lemma Time_text_year: "(\<exists>s. Time_MarshalText t = Some s) \<longleftrightarrow> four_digit_year t"
  by (simp add: Time_MarshalText_def four_digit_year_def Let_def)

lemma ToValidUTF8_lit: "ascii s \<Longrightarrow> ToValidUTF8 s = s"
  using ascii_utf8 by (simp add: valid_utf8_def)

lemma event_storable_iff:
  "event_storable ev \<longleftrightarrow> Body_ok (ev_ScrobbleBody ev) \<and> in_int64 (ev_Progress ev) \<and> in_int64 (RetryCount ev) \<and>
     four_digit_year (ev_CreatedAt ev) \<and> four_digit_year (LastAttempt ev) \<and>
     utf8_doc (ScrobbleBody_MarshalJSON (ev_ScrobbleBody ev)) \<and> valid_utf8 (ev_ID ev) \<and> valid_utf8 (ev_UserID ev) \<and>
     valid_utf8 (Action ev) \<and> valid_utf8 (PlayerUUID ev) \<and> valid_utf8 (ev_RatingKey ev)"
proof (cases "four_digit_year (ev_CreatedAt ev) \<and> four_digit_year (LastAttempt ev)")
  case True
  then obtain c l where "Time_MarshalText (ev_CreatedAt ev) = Some c" "Time_MarshalText (LastAttempt ev) = Some l"
    using Time_text_year by metis
  with True show ?thesis
    by (auto simp: event_storable_def enc_event_def utf8_doc_def valid_utf8_def Time_text_clean ToValidUTF8_lit ascii_def)
next
  case False
  then have "enc_event ev = None" using Time_text_year unfolding enc_event_def by (fastforce split: bind_splits)
  with False show ?thesis by (auto simp: event_storable_def)
qed

text \<open>Groups, and members: of a member everything is kept but the tokens.\<close>

definition group_storable :: "FamilyGroup \<Rightarrow> bool" where
  "group_storable g \<longleftrightarrow> (case enc_group g of None \<Rightarrow> False | Some d \<Rightarrow> utf8_doc d)"

definition member_storable :: "GroupMember \<Rightarrow> bool" where
  "member_storable m \<longleftrightarrow> (case enc_member m of None \<Rightarrow> False | Some d \<Rightarrow> utf8_doc d)"

definition without_tokens :: "GroupMember \<Rightarrow> GroupMember" where
  "without_tokens m = m\<lparr>gm_AccessToken := [], gm_RefreshToken := []\<rparr>"

lemma group_roundtrip:
  assumes "group_storable g" "enc_group g = Some d"
  shows "Unmarshal dec_group (Marshal_text d) zero_group = Some (g, True)"
    "Unmarshal dec_group (MarshalIndent_text d) zero_group = Some (g, True)"
proof -
  have "no_frac d" "utf8_doc d" using assms by (auto simp: enc_group_def group_storable_def split: bind_splits)
  moreover have "dec_group d zero_group = Some (g, True)"
    using assms(2) by (cases g) (auto simp: enc_group_def dec_group_def lfld_def fold_simps zero_group_def split: bind_splits)
  ultimately show "Unmarshal dec_group (Marshal_text d) zero_group = Some (g, True)"
    "Unmarshal dec_group (MarshalIndent_text d) zero_group = Some (g, True)" by (simp_all add: Unmarshal_written)
qed

lemma member_roundtrip:
  assumes "member_storable m" "enc_member m = Some d"
  shows "Unmarshal dec_member (Marshal_text d) zero_member = Some (without_tokens m, True)"
    "Unmarshal dec_member (MarshalIndent_text d) zero_member = Some (without_tokens m, True)"
proof -
  have "utf8_doc d" "no_frac d"
    using assms by (auto simp: enc_member_def member_storable_def omitempty_def split: bind_splits option.splits)
  moreover have "dec_member d zero_member = Some (without_tokens m, True)"
    using assms(2) by (cases m) (auto simp: enc_member_def dec_member_def lfld_def fold_simps zero_member_def without_tokens_def
        omitempty_def lptr_def split: bind_splits option.splits if_splits)
  ultimately show "Unmarshal dec_member (Marshal_text d) zero_member = Some (without_tokens m, True)"
    "Unmarshal dec_member (MarshalIndent_text d) zero_member = Some (without_tokens m, True)" by (simp_all add: Unmarshal_written)
qed

definition item_storable :: "CacheItem \<Rightarrow> bool" where
  "item_storable i \<longleftrightarrow> Body_ok (Body i) \<and> utf8_doc (enc_CacheItem i)"

lemma item_roundtrip:
  assumes "item_storable i"
  shows "Unmarshal dec_CacheItem (Marshal_text (enc_CacheItem i)) zero_CacheItem = Some (i, True)"
proof -
  have "no_frac (enc_CacheItem i)" by (simp add: enc_CacheItem_def)
  moreover have "dec_CacheItem (enc_CacheItem i) zero_CacheItem = Some (i, True)"
    using assms lbody_roundtrip [of "Body i"]
    by (cases i) (simp add: enc_CacheItem_def dec_CacheItem_def lfld_def fold_simps zero_CacheItem_def item_storable_def)
  ultimately show ?thesis using assms by (simp add: Unmarshal_written item_storable_def)
qed

text \<open>
  C22. An event that was serialised reads back as it was, from its text: for every event whose
  times have years of four digits, whose strings are UTF-8, whose body has a progress of at most
  2 to the 53 in absolute value (it is read through \<open>float64\<close>) and whose other numbers fit 64 bits,
  \<open>serializeEvent\<close> succeeds and \<open>deserializeEvent\<close> inverts it, through the printing and the
  parsing of JSON with all its escapes and of times down to the nanosecond.
\<close>

theorem stored_event_roundtrip:
  "event_storable ev \<Longrightarrow> \<exists>data. serializeEvent ev = Inr data \<and> deserializeEvent data = DecOk ev"
  by (rule event_roundtrip)

definition sample_event :: QueuedScrobbleEvent where
  "sample_event = \<lparr>ev_ID = ''e1'', ev_UserID = ''u'', ev_ScrobbleBody = zero_Body\<lparr>Progress := 90,
       BMovie := Some (zero_Movie\<lparr>MovieTitle := Some ''Q & A'', MovieYear := Some 1990\<rparr>)\<rparr>,
     Action = ''stop'', ev_Progress = 90, ev_CreatedAt = 63844778096789000000, RetryCount = 0, LastAttempt = 0,
     PlayerUUID = ''p'', ev_RatingKey = ''r''\<rparr>"

lemma year_bounds: "0 \<le> t \<Longrightarrow> t < 315537897600000000000 \<Longrightarrow> four_digit_year t"
proof -
  assume t: "0 \<le> t" "t < 315537897600000000000"
  then have "0 \<le> day_no t" "day_no t < 3652059" by (simp_all add: day_no_def Day_def time_defs)
  moreover have "days_before_year 1 = 0" "days_before_year 10000 = 3652059" by (simp_all add: days_before_year_def)
  moreover note year_of_day [of "day_no t"]
  ultimately have "\<not> year_of_day (day_no t) + 1 \<le> 1" "\<not> 10000 \<le> year_of_day (day_no t)"
    using days_before_year_less [of "year_of_day (day_no t) + 1" 1] days_before_year_less [of 10000 "year_of_day (day_no t)"]
    by force+
  then show ?thesis by (simp add: four_digit_year_def)
qed

lemma sample_event_storable: "event_storable sample_event"
  by (simp add: event_storable_iff sample_event_def year_bounds Body_ok_def Movie_ok_def Ids_ok_def zero_defs in_int64_def
      utf8_doc_def ScrobbleBody_MarshalJSON_def enc_Movie_def enc_Ids_def omitempty_def ToValidUTF8_lit valid_utf8_def ascii_def)

theorem stored_event_roundtrip_witness:
  "\<exists>data. serializeEvent sample_event = Inr data \<and> deserializeEvent data = DecOk sample_event"
  by (rule stored_event_roundtrip [OF sample_event_storable])

end
