(* ===== verification/Redis_Server.thy ===== *)
theory Redis_Server
  imports Stored_Json "HOL-Library.Char_ord" "HOL-Library.List_Lexorder" "HOL-Library.Product_Lexorder"
begin

text \<open>
  The Redis server and the go-redis client, as \<open>lib/store/redis.go\<close> sees them.  Neither is part of
  the repository: the operations of the store take them as a record of functions on a state of
  any type, and what the commands are documented to do is the locale \<open>redis_server\<close>, stated over
  a view of that state as a key space.  The locale says nothing of commands while the server is
  not \<open>up\<close>: they may fail, with or without effect.  An in-memory server with a schedule of
  failures interprets it.
\<close>

section \<open>Commands\<close>

text \<open>
  Values: strings, hashes, sets, and sorted sets, which are kept in the order Redis documents:
  by score, and members of equal score by their bytes.
\<close>

datatype rvalue =
    is_RStr: RStr string
  | is_RHash: RHash "(string \<times> string) list"
  | is_RSet: RSet "string list"
  | is_RZSet: RZSet "(rat \<times> string) list"

text \<open>The key space: the value under a key and the time it has left to live, if it has been limited.\<close>

type_synonym keyspace = "string \<rightharpoonup> rvalue \<times> duration option"

text \<open>The commands of the store; the patterns of \<open>KEYS\<close> and \<open>SCAN\<close> are a prefix and a star.\<close>

datatype redis_cmd =
    PING
  | GET string
  | SET string string "duration option"
  | DEL "string list"
  | EXISTS string
  | EXPIRE string duration
  | HSET string string string
  | HGETALL string
  | SADD string string
  | SREM string string
  | SMEMBERS string
  | ZADD string rat string
  | ZREM string string
  | ZRANGE string int int
  | ZCARD string
  | ZPOPMIN string
  | KEYS string
  | SCAN nat string

datatype redis_reply =
    Nil_reply
  | Status
  | Bulk string
  | Count nat
  | Fields "(string \<times> string) list"
  | Names "string list"
  | Scored "(rat \<times> string) list"
  | Page "string list" nat

record 's RedisClient =
  rc_do :: "redis_cmd \<Rightarrow> 's \<Rightarrow> redis_reply result \<times> 's"
  rc_pipe :: "redis_cmd list \<Rightarrow> 's \<Rightarrow> err option \<times> 's"
  rc_now :: "'s \<Rightarrow> gotime"
  rc_rand :: "'s \<Rightarrow> err + bytes"

section \<open>Documented effect\<close>

definition hash_at :: "keyspace \<Rightarrow> string \<Rightarrow> (string \<times> string) list" where
  "hash_at m k = (case m k of Some (RHash h, _) \<Rightarrow> h | _ \<Rightarrow> [])"

definition set_at :: "keyspace \<Rightarrow> string \<Rightarrow> string list" where
  "set_at m k = (case m k of Some (RSet xs, _) \<Rightarrow> xs | _ \<Rightarrow> [])"

definition zset_at :: "keyspace \<Rightarrow> string \<Rightarrow> (rat \<times> string) list" where
  "zset_at m k = (case m k of Some (RZSet z, _) \<Rightarrow> z | _ \<Rightarrow> [])"

definition ttl_at :: "keyspace \<Rightarrow> string \<Rightarrow> duration option" where
  "ttl_at m k = (case m k of Some (_, t) \<Rightarrow> t | None \<Rightarrow> None)"

text \<open>Writing a collection: an empty one is no key at all, and the time to live stays.\<close>

definition put_set :: "string \<Rightarrow> string list \<Rightarrow> keyspace \<Rightarrow> keyspace" where
  "put_set k xs m = m(k := if xs = [] then None else Some (RSet xs, ttl_at m k))"

definition put_zset :: "string \<Rightarrow> (rat \<times> string) list \<Rightarrow> keyspace \<Rightarrow> keyspace" where
  "put_zset k z m = m(k := if z = [] then None else Some (RZSet z, ttl_at m k))"

definition zremove :: "string \<Rightarrow> (rat \<times> string) list \<Rightarrow> (rat \<times> string) list" where
  "zremove x z = filter (\<lambda>(_, y). y \<noteq> x) z"

definition zinsert :: "rat \<Rightarrow> string \<Rightarrow> (rat \<times> string) list \<Rightarrow> (rat \<times> string) list" where
  "zinsert sc x z = insort (sc, x) (zremove x z)"

text \<open>\<open>ZRANGE\<close> from the first member to an index; a negative one counts from the end.\<close>

definition zrange :: "int \<Rightarrow> int \<Rightarrow> 'a list \<Rightarrow> 'a list" where
  "zrange start stop z = (let n = int (length z); i = (if start < 0 then max 0 (n + start) else start);
     j = (if stop < 0 then n + stop else stop) in take (nat (j - i + 1)) (drop (nat i) z))"

fun redis_effect :: "redis_cmd \<Rightarrow> keyspace \<Rightarrow> keyspace" where
  "redis_effect (SET k v t) m = m(k \<mapsto> (RStr v, t))"
| "redis_effect (DEL ks) m = (\<lambda>k. if k \<in> set ks then None else m k)"
| "redis_effect (EXPIRE k d) m = m(k := map_option (\<lambda>(v, _). (v, Some d)) (m k))"
| "redis_effect (HSET k f v) m = m(k \<mapsto> (RHash ((f, v) # filter (\<lambda>(g, _). g \<noteq> f) (hash_at m k)), ttl_at m k))"
| "redis_effect (SADD k x) m = put_set k (if x \<in> set (set_at m k) then set_at m k else x # set_at m k) m"
| "redis_effect (SREM k x) m = put_set k (filter (\<lambda>y. y \<noteq> x) (set_at m k)) m"
| "redis_effect (ZADD k sc x) m = put_zset k (zinsert sc x (zset_at m k)) m"
| "redis_effect (ZREM k x) m = put_zset k (zremove x (zset_at m k)) m"
| "redis_effect (ZPOPMIN k) m = put_zset k (drop 1 (zset_at m k)) m"
| "redis_effect _ m = m"

definition keys_with :: "string \<Rightarrow> keyspace \<Rightarrow> string set" where
  "keys_with p m = {k. HasPrefix k p \<and> m k \<noteq> None}"

text \<open>
  What a command may reply.  The order of the names in a set or of the keys is not
  specified; a page of \<open>SCAN\<close> holds keys that match.
\<close>

fun reply_ok :: "redis_cmd \<Rightarrow> keyspace \<Rightarrow> redis_reply \<Rightarrow> bool" where
  "reply_ok (GET k) m r = (r = (case m k of Some (RStr v, _) \<Rightarrow> Bulk v | _ \<Rightarrow> Nil_reply))"
| "reply_ok (EXISTS k) m r = (r = Count (if m k = None then 0 else 1))"
| "reply_ok (HGETALL k) m r = (\<exists>h. r = Fields h \<and> map_of h = map_of (hash_at m k))"
| "reply_ok (SMEMBERS k) m r = (\<exists>xs. r = Names xs \<and> distinct xs \<and> set xs = set (set_at m k))"
| "reply_ok (ZRANGE k i j) m r = (r = Scored (zrange i j (zset_at m k)))"
| "reply_ok (ZCARD k) m r = (r = Count (length (zset_at m k)))"
| "reply_ok (KEYS p) m r = (\<exists>ks. r = Names ks \<and> distinct ks \<and> set ks = keys_with p m)"
| "reply_ok (SCAN c p) m r = (\<exists>ks c'. r = Page ks c' \<and> set ks \<subseteq> keys_with p m)"
| "reply_ok _ m r = True"

text \<open>A command meets only values of its type; others are an error.\<close>

definition at_type :: "(rvalue \<Rightarrow> bool) \<Rightarrow> keyspace \<Rightarrow> string \<Rightarrow> bool" where
  "at_type P m k \<longleftrightarrow> (case m k of Some (v, _) \<Rightarrow> P v | None \<Rightarrow> True)"

fun well_typed :: "redis_cmd \<Rightarrow> keyspace \<Rightarrow> bool" where
  "well_typed (GET k) m = at_type is_RStr m k"
| "well_typed (HSET k f v) m = at_type is_RHash m k"
| "well_typed (HGETALL k) m = at_type is_RHash m k"
| "well_typed (SADD k x) m = at_type is_RSet m k"
| "well_typed (SREM k x) m = at_type is_RSet m k"
| "well_typed (SMEMBERS k) m = at_type is_RSet m k"
| "well_typed (ZADD k sc x) m = at_type is_RZSet m k"
| "well_typed (ZREM k x) m = at_type is_RZSet m k"
| "well_typed (ZRANGE k i j) m = at_type is_RZSet m k"
| "well_typed (ZCARD k) m = at_type is_RZSet m k"
| "well_typed (ZPOPMIN k) m = at_type is_RZSet m k"
| "well_typed _ m = True"

fun pipe_typed :: "redis_cmd list \<Rightarrow> keyspace \<Rightarrow> bool" where
  "pipe_typed [] m = True"
| "pipe_typed (x # xs) m = (well_typed x m \<and> pipe_typed xs (redis_effect x m))"

text \<open>A key whose time is over is gone.\<close>

definition age :: "duration \<Rightarrow> keyspace \<Rightarrow> keyspace" where
  "age d m = (\<lambda>k. case m k of
     Some (v, Some t) \<Rightarrow> if t \<le> d then None else Some (v, Some (t - d))
   | r \<Rightarrow> r)"

section \<open>The contract\<close>

text \<open>
  \<open>todo\<close> and \<open>rank\<close> express what the documentation says of a full iteration with \<open>SCAN\<close>: it
  starts and ends with cursor 0, and every key that is there all the time is returned, perhaps more
  than once.  \<open>elapse\<close> lets time pass.
\<close>

locale redis_server =
  fixes c :: "'s RedisClient"
    and up :: "'s \<Rightarrow> bool"
    and view :: "'s \<Rightarrow> keyspace"
    and todo :: "'s \<Rightarrow> string \<Rightarrow> nat \<Rightarrow> string set"
    and rank :: "'s \<Rightarrow> string \<Rightarrow> nat \<Rightarrow> nat"
    and elapse :: "duration \<Rightarrow> 's \<Rightarrow> 's"
  assumes do_law: "up s \<Longrightarrow> well_typed cmd (view s) \<Longrightarrow>
      \<exists>r s'. rc_do c cmd s = (Inr r, s') \<and> up s' \<and> view s' = redis_effect cmd (view s) \<and> reply_ok cmd (view s) r"
    and pipe_law: "up s \<Longrightarrow> pipe_typed cmds (view s) \<Longrightarrow>
      \<exists>s'. rc_pipe c cmds s = (None, s') \<and> up s' \<and> view s' = fold redis_effect cmds (view s)"
    and scan_start: "up s \<Longrightarrow> todo s p 0 = keys_with p (view s)"
    and scan_law: "up s \<Longrightarrow> rc_do c (SCAN cur p) s = (Inr (Page ks cur'), s') \<Longrightarrow>
      (if cur' = 0 then todo s p cur \<subseteq> set ks
       else todo s p cur \<subseteq> set ks \<union> todo s' p cur' \<and> rank s' p cur' < rank s p cur)"
    and time_law: "up s \<Longrightarrow> 0 \<le> d \<Longrightarrow> up (elapse d s) \<and> view (elapse d s) = age d (view s)"

section \<open>A server in memory\<close>

record mem =
  mem_map :: keyspace
  mem_keys :: "string list"
  mem_no :: nat
  mem_fault :: "nat \<Rightarrow> err option"

fun touched :: "redis_cmd \<Rightarrow> string list" where
  "touched (SET k _ _) = [k]"
| "touched (HSET k _ _) = [k]"
| "touched (SADD k _) = [k]"
| "touched (ZADD k _ _) = [k]"
| "touched _ = []"

definition mem_run :: "redis_cmd \<Rightarrow> mem \<Rightarrow> mem" where
  "mem_run cmd s = (let m = redis_effect cmd (mem_map s) in
     s\<lparr>mem_map := m, mem_keys := filter (\<lambda>k. m k \<noteq> None) (remdups (touched cmd @ mem_keys s))\<rparr>)"

definition mem_page :: nat where
  "mem_page = 100"

fun mem_reply :: "redis_cmd \<Rightarrow> mem \<Rightarrow> redis_reply" where
  "mem_reply (GET k) s = (case mem_map s k of Some (RStr v, _) \<Rightarrow> Bulk v | _ \<Rightarrow> Nil_reply)"
| "mem_reply (EXISTS k) s = Count (if mem_map s k = None then 0 else 1)"
| "mem_reply (HGETALL k) s = Fields (hash_at (mem_map s) k)"
| "mem_reply (SMEMBERS k) s = Names (remdups (set_at (mem_map s) k))"
| "mem_reply (ZRANGE k i j) s = Scored (zrange i j (zset_at (mem_map s) k))"
| "mem_reply (ZCARD k) s = Count (length (zset_at (mem_map s) k))"
| "mem_reply (KEYS p) s = Names (filter (\<lambda>k. HasPrefix k p) (mem_keys s))"
| "mem_reply (SCAN cur p) s = Page (filter (\<lambda>k. HasPrefix k p) (take mem_page (drop cur (mem_keys s))))
     (if cur + mem_page < length (mem_keys s) then cur + mem_page else 0)"
| "mem_reply _ s = Status"

text \<open>Each round trip to the server, a command or a pipeline, may fail as the schedule says.\<close>

definition mem_do :: "redis_cmd \<Rightarrow> mem \<Rightarrow> redis_reply result \<times> mem" where
  "mem_do cmd s = (let s' = s\<lparr>mem_no := Suc (mem_no s)\<rparr> in case mem_fault s (mem_no s) of
     Some e \<Rightarrow> (Inl e, s')
   | None \<Rightarrow> if well_typed cmd (mem_map s) then (Inr (mem_reply cmd s), mem_run cmd s')
       else (Inl (Err ''WRONGTYPE Operation against a key holding the wrong kind of value''), s'))"

definition mem_pipe :: "redis_cmd list \<Rightarrow> mem \<Rightarrow> err option \<times> mem" where
  "mem_pipe cmds s = (let s' = s\<lparr>mem_no := Suc (mem_no s)\<rparr> in case mem_fault s (mem_no s) of
     Some e \<Rightarrow> (Some e, s')
   | None \<Rightarrow> if pipe_typed cmds (mem_map s) then (None, fold mem_run cmds s')
       else (Some (Err ''WRONGTYPE Operation against a key holding the wrong kind of value''), s'))"

definition mem_client :: "(nat \<Rightarrow> gotime) \<Rightarrow> (nat \<Rightarrow> err + bytes) \<Rightarrow> mem RedisClient" where
  "mem_client now rand = \<lparr>rc_do = mem_do, rc_pipe = mem_pipe, rc_now = (\<lambda>s. now (mem_no s)), rc_rand = (\<lambda>s. rand (mem_no s))\<rparr>"

definition mem_empty :: mem where
  "mem_empty = \<lparr>mem_map = Map.empty, mem_keys = [], mem_no = 0, mem_fault = (\<lambda>_. None)\<rparr>"

definition mem_up :: "mem \<Rightarrow> bool" where
  "mem_up s \<longleftrightarrow> (\<forall>n \<ge> mem_no s. mem_fault s n = None) \<and> distinct (mem_keys s) \<and> set (mem_keys s) = dom (mem_map s)"

definition mem_elapse :: "duration \<Rightarrow> mem \<Rightarrow> mem" where
  "mem_elapse d s = (let m = age d (mem_map s) in s\<lparr>mem_map := m, mem_keys := filter (\<lambda>k. m k \<noteq> None) (mem_keys s)\<rparr>)"

definition mem_todo :: "mem \<Rightarrow> string \<Rightarrow> nat \<Rightarrow> string set" where
  "mem_todo s p cur = {k \<in> set (drop cur (mem_keys s)). HasPrefix k p}"

definition mem_rank :: "mem \<Rightarrow> string \<Rightarrow> nat \<Rightarrow> nat" where
  "mem_rank s p cur = length (mem_keys s) - cur"

lemma dom_effect: "dom (redis_effect cmd m) \<subseteq> set (touched cmd) \<union> dom m"
proof (cases cmd)
  case (SREM k x)
  then show ?thesis by (auto simp: put_set_def set_at_def split: if_splits option.splits)
next
  case (ZREM k x)
  then show ?thesis by (auto simp: put_zset_def zset_at_def zremove_def split: if_splits option.splits)
next
  case (ZPOPMIN k)
  then show ?thesis by (auto simp: put_zset_def zset_at_def split: if_splits option.splits)
qed (auto simp: put_set_def put_zset_def split: if_splits)

lemma mem_run_up: "mem_up s \<Longrightarrow> mem_up (mem_run cmd s) \<and> mem_map (mem_run cmd s) = redis_effect cmd (mem_map s) \<and>
    mem_no (mem_run cmd s) = mem_no s \<and> mem_fault (mem_run cmd s) = mem_fault s"
  using dom_effect [of cmd "mem_map s"] by (auto simp: mem_run_def mem_up_def Let_def)

lemma mem_runs_up: "mem_up s \<Longrightarrow> mem_up (fold mem_run cmds s) \<and> mem_map (fold mem_run cmds s) = fold redis_effect cmds (mem_map s)"
  by (induction cmds arbitrary: s) (auto simp: mem_run_up)

lemma mem_reply_ok: "mem_up s \<Longrightarrow> reply_ok cmd (mem_map s) (mem_reply cmd s)"
  by (cases cmd) (auto simp: keys_with_def mem_up_def dest!: in_set_takeD in_set_dropD)

interpretation mem_server: redis_server "mem_client now rand" mem_up mem_map mem_todo mem_rank mem_elapse
proof (unfold_locales, goal_cases)
  case (1 s cmd)
  then have "mem_fault s (mem_no s) = None" "mem_up (s\<lparr>mem_no := Suc (mem_no s)\<rparr>)" by (simp_all add: mem_up_def)
  with 1 show ?case
    using mem_run_up [of "s\<lparr>mem_no := Suc (mem_no s)\<rparr>" cmd] mem_reply_ok [OF 1(1)] by (simp add: mem_client_def mem_do_def)
next
  case (2 s cmds)
  then have "mem_fault s (mem_no s) = None" "mem_up (s\<lparr>mem_no := Suc (mem_no s)\<rparr>)" by (simp_all add: mem_up_def)
  with 2 show ?case
    using mem_runs_up [of "s\<lparr>mem_no := Suc (mem_no s)\<rparr>" cmds] by (simp add: mem_client_def mem_pipe_def)
next
  case (3 s p)
  then show ?case by (auto simp: mem_todo_def mem_up_def keys_with_def)
next
  case (4 s cur p ks cur' s')
  then have f: "mem_fault s (mem_no s) = None" by (simp add: mem_up_def)
  have run: "mem_run (SCAN cur p) (s\<lparr>mem_no := Suc (mem_no s)\<rparr>) = s\<lparr>mem_no := Suc (mem_no s)\<rparr>"
  proof -
    have "filter (\<lambda>k. mem_map s k \<noteq> None) (remdups (mem_keys s)) = mem_keys s"
      using 4(1) by (auto simp: mem_up_def filter_id_conv distinct_remdups_id)
    then show ?thesis by (simp add: mem_run_def Let_def)
  qed
  have s': "s' = s\<lparr>mem_no := Suc (mem_no s)\<rparr>" and ks: "ks = filter (\<lambda>k. HasPrefix k p) (take mem_page (drop cur (mem_keys s)))"
    and cur': "cur' = (if cur + mem_page < length (mem_keys s) then cur + mem_page else 0)"
    using 4(2) f run by (simp_all add: mem_client_def mem_do_def)
  have "drop cur (mem_keys s) = take mem_page (drop cur (mem_keys s)) @ drop (cur + mem_page) (mem_keys s)"
    by (metis add.commute append_take_drop_id drop_drop)
  then have "mem_todo s p cur = set ks \<union> mem_todo s p (cur + mem_page)" 
    unfolding mem_todo_def ks by (metis (mono_tags, lifting) Collect_cong filter_append mem_Collect_eq set_append set_filter)
  then show ?case by (auto simp: s' cur' mem_todo_def mem_rank_def mem_page_def)
next
  case (5 s d)
  then show ?case by (auto simp: mem_elapse_def mem_up_def age_def Let_def split: option.splits if_splits)
qed

end
