(* ===== verification/Redis_Store.thy ===== *)
theory Redis_Store
  imports Redis_Server Postgres_Store
begin

text \<open>
  \<open>lib/store/redis.go\<close>: the store that keeps users, queue, groups and the playback cache in
  Redis.  Every operation takes the client (\<^typ>\<open>'s RedisClient\<close>) and the state behind it;
  the queue operations also see the fallback buffers.  \<^const>\<open>None\<close> as a result is a panic, or a
  loop that does not end.  Pipelines are one round trip.  Log output is not modelled.
\<close>

section \<open>Fallback buffers\<close>

text \<open>
  \<open>addToFallbackBuffer\<close> and the loop of \<open>flushFallbackBuffer\<close>, which are the same code in this
  store and in the file store.
\<close>

type_synonym buffers = "string \<rightharpoonup> InMemoryBuffer"

definition buffer_add :: "string \<Rightarrow> QueuedScrobbleEvent \<Rightarrow> buffers \<Rightarrow> buffers option" where
  "buffer_add uid event m =
     (let buffer = (case m uid of Some b \<Rightarrow> b | None \<Rightarrow> NewInMemoryBuffer fallbackBufferSize) in
      map_option (\<lambda>b. m(uid \<mapsto> b)) (InMemoryBuffer_Push event buffer))"

primrec flush_all :: "(QueuedScrobbleEvent \<Rightarrow> 's \<Rightarrow> (err option \<times> 's) option) \<Rightarrow>
    QueuedScrobbleEvent list \<Rightarrow> 's \<Rightarrow> (bool \<times> 's) option" where
  "flush_all enqueue [] s = Some (True, s)"
| "flush_all enqueue (ev # evs) s = (case enqueue ev s of
     None \<Rightarrow> None
   | Some (Some _, s') \<Rightarrow> Some (False, s')
   | Some (None, s') \<Rightarrow> flush_all enqueue evs s')"

section \<open>Replies\<close>

definition unexpected :: err where
  "unexpected = Err ''redis: unexpected reply''"

text \<open>\<open>Inr None\<close> is the error value \<open>redis.Nil\<close>: there is no such key.\<close>

fun as_bulk :: "redis_reply result \<Rightarrow> string option result" where
  "as_bulk (Inr (Bulk v)) = Inr (Some v)"
| "as_bulk (Inr Nil_reply) = Inr None"
| "as_bulk (Inl e) = Inl e"
| "as_bulk _ = Inl unexpected"

fun as_count :: "redis_reply result \<Rightarrow> nat result" where
  "as_count (Inr (Count n)) = Inr n"
| "as_count (Inl e) = Inl e"
| "as_count _ = Inl unexpected"

fun as_fields :: "redis_reply result \<Rightarrow> (string \<times> string) list result" where
  "as_fields (Inr (Fields h)) = Inr h"
| "as_fields (Inl e) = Inl e"
| "as_fields _ = Inl unexpected"

fun as_names :: "redis_reply result \<Rightarrow> string list result" where
  "as_names (Inr (Names xs)) = Inr xs"
| "as_names (Inl e) = Inl e"
| "as_names _ = Inl unexpected"

fun as_scored :: "redis_reply result \<Rightarrow> (rat \<times> string) list result" where
  "as_scored (Inr (Scored z)) = Inr z"
| "as_scored (Inl e) = Inl e"
| "as_scored _ = Inl unexpected"

fun as_page :: "redis_reply result \<Rightarrow> (string list \<times> nat) result" where
  "as_page (Inr (Page ks cur)) = Inr (ks, cur)"
| "as_page (Inl e) = Inl e"
| "as_page _ = Inl unexpected"

text \<open>One command and the projection of its reply.\<close>

definition ask :: "(redis_reply result \<Rightarrow> 'a result) \<Rightarrow> 's RedisClient \<Rightarrow> redis_cmd \<Rightarrow> 's \<Rightarrow> 'a result \<times> 's" where
  "ask f c cmd s = apfst f (rc_do c cmd s)"

definition Redis_Ping :: "'s RedisClient \<Rightarrow> 's \<Rightarrow> err option \<times> 's" where
  "Redis_Ping c s = (case rc_do c PING s of (Inl e, s') \<Rightarrow> (Some e, s') | (Inr _, s') \<Rightarrow> (None, s'))"

section \<open>Users\<close>

definition userPrefix :: string where
  "userPrefix = ''goplaxt:user:''"

definition userMapPrefix :: string where
  "userMapPrefix = ''goplaxt:usermap:''"

definition accessTokenTimeout :: duration where
  "accessTokenTimeout = 75 * 24 * Hour"

definition field :: "(string \<times> string) list \<Rightarrow> string \<Rightarrow> string" where
  "field data f = (case map_of data f of Some v \<Rightarrow> v | None \<Rightarrow> [])"

text \<open>A user from its hash; without a date of update there is none.\<close>

definition user_of_hash :: "string \<Rightarrow> (string \<times> string) list \<Rightarrow> User option" where
  "user_of_hash uid data = (case Parse_date (field data ''updated'') of
     None \<Rightarrow> None
   | Some updated \<Rightarrow>
       (let tokenExpiry = updated + 90 * 24 * Hour;
            expiryStr = field data ''token_expiry'';
            tokenExpiry = (if expiryStr \<noteq> [] then (case Parse_RFC3339 expiryStr of Some t \<Rightarrow> t | None \<Rightarrow> tokenExpiry) else tokenExpiry)
        in Some \<lparr>usr_ID = uid, Username = ToLower (field data ''username''), AccessToken = field data ''access'',
            RefreshToken = field data ''refresh'', TraktDisplayName = field data ''trakt_display_name'',
            Updated = updated, TokenExpiry = tokenExpiry, has_store = True\<rparr>))"

definition Redis_GetUser :: "'s RedisClient \<Rightarrow> string \<Rightarrow> 's \<Rightarrow> User option \<times> 's" where
  "Redis_GetUser c uid s = (case ask as_fields c (HGETALL (userPrefix @ uid)) s of
     (Inl _, s') \<Rightarrow> (None, s')
   | (Inr data, s') \<Rightarrow> (user_of_hash uid data, s'))"

definition Redis_GetUserByName :: "'s RedisClient \<Rightarrow> string \<Rightarrow> 's \<Rightarrow> User option \<times> 's" where
  "Redis_GetUserByName c username s = (case ask as_bulk c (GET (userMapPrefix @ username)) s of
     (Inr (Some uid), s') \<Rightarrow> Redis_GetUser c uid s'
   | (_, s') \<Rightarrow> (None, s'))"

definition Redis_WriteUser :: "'s RedisClient \<Rightarrow> User \<Rightarrow> 's \<Rightarrow> 's option" where
  "Redis_WriteUser c user s =
     (let (currentUser, s1) = Redis_GetUserByName c (Username user) s;
          key = userPrefix @ usr_ID user; mapKey = userMapPrefix @ Username user;
          cmds = [HSET key ''username'' (Username user), HSET key ''access'' (AccessToken user),
                  HSET key ''refresh'' (RefreshToken user), HSET key ''updated'' (Format_date (Updated user)),
                  HSET key ''trakt_display_name'' (TraktDisplayName user),
                  HSET key ''token_expiry'' (Format_RFC3339 (TokenExpiry user)), EXPIRE key accessTokenTimeout] @
            (case currentUser of
               None \<Rightarrow> [SET mapKey (usr_ID user) (Some accessTokenTimeout)]
             | Some u \<Rightarrow> if usr_ID u = usr_ID user then [EXPIRE mapKey accessTokenTimeout] else [])
      in case rc_pipe c cmds s1 of (None, s2) \<Rightarrow> Some s2 | (Some _, _) \<Rightarrow> None)"

definition Redis_DeleteUser :: "'s RedisClient \<Rightarrow> string \<Rightarrow> string \<Rightarrow> 's \<Rightarrow> bool \<times> 's" where
  "Redis_DeleteUser c uid username s =
     (case rc_pipe c [DEL [userPrefix @ uid], DEL [userMapPrefix @ username]] s of (e, s') \<Rightarrow> (e = None, s'))"

definition TrimPrefix :: "string \<Rightarrow> string \<Rightarrow> string" where
  "TrimPrefix s p = (if HasPrefix s p then drop (length p) s else s)"

primrec load_users :: "'s RedisClient \<Rightarrow> string list \<Rightarrow> 's \<Rightarrow> User list \<times> 's" where
  "load_users c [] s = ([], s)"
| "load_users c (key # ks) s = (let uid = TrimPrefix key userPrefix in
     if uid = [] then load_users c ks s
     else case Redis_GetUser c uid s of
       (None, s') \<Rightarrow> load_users c ks s'
     | (Some u, s') \<Rightarrow> apfst (Cons u) (load_users c ks s'))"

text \<open>
  Users updated last come first.  \<open>sort.Slice\<close> may order users of the same day in any way; here
  they keep the order of the keys, which Redis does not specify.
\<close>

definition Redis_ListUsers :: "'s RedisClient \<Rightarrow> 's \<Rightarrow> (User list \<times> 's) option" where
  "Redis_ListUsers c s = (case ask as_names c (KEYS userPrefix) s of
     (Inl _, _) \<Rightarrow> None
   | (Inr ks, s') \<Rightarrow> Some (apfst (sort_key (\<lambda>u. - Updated u)) (load_users c ks s')))"

section \<open>Playback cache\<close>

definition scrobbleTimeout :: duration where
  "scrobbleTimeout = 3 * Hour"

definition scrobble_key :: "string \<Rightarrow> string \<Rightarrow> string" where
  "scrobble_key player rating = ''goplaxt:scrobble:'' @ player @ '':'' @ rating"

definition Redis_GetScrobbleBody :: "'s RedisClient \<Rightarrow> string \<Rightarrow> string \<Rightarrow> 's \<Rightarrow> (CacheItem \<times> 's) option" where
  "Redis_GetScrobbleBody c playerUuid ratingKey s = (case ask as_bulk c (GET (scrobble_key playerUuid ratingKey)) s of
     (Inr (Some cache), s') \<Rightarrow> map_option (\<lambda>(item, _). (item, s')) (Unmarshal dec_CacheItem cache zero_CacheItem)
   | (_, s') \<Rightarrow> Some (zero_CacheItem, s'))"

definition Redis_WriteScrobbleBody :: "'s RedisClient \<Rightarrow> CacheItem \<Rightarrow> 's \<Rightarrow> 's" where
  "Redis_WriteScrobbleBody c item s =
     snd (rc_do c (SET (scrobble_key (PlayerUuid item) (CRatingKey item)) (Marshal_text (enc_CacheItem item)) (Some scrobbleTimeout)) s)"

section \<open>The scrobble queue\<close>

record 's rstore =
  rd :: 's
  rd_buffers :: buffers

definition queueKeyPrefix :: string where
  "queueKeyPrefix = ''goplaxt:queue:''"

definition Redis_GetQueueSize :: "'s RedisClient \<Rightarrow> string \<Rightarrow> 's \<Rightarrow> int result \<times> 's" where
  "Redis_GetQueueSize c userID s = (case rc_do c (ZCARD (queueKeyPrefix @ userID)) s of
     (Inr Nil_reply, s') \<Rightarrow> (Inr 0, s')
   | (r, s') \<Rightarrow> (case as_count r of
        Inl e \<Rightarrow> (Inl (Wrap ''failed to get queue size from redis'' e), s')
      | Inr n \<Rightarrow> (Inr (int n), s')))"

text \<open>The part of \<open>EnqueueScrobble\<close> after the event has its identifier and time, up to the flush.\<close>

definition redis_enqueue_checked :: "'s RedisClient \<Rightarrow> QueuedScrobbleEvent \<Rightarrow> 's rstore \<Rightarrow> (err option \<times> 's rstore) option" where
  "redis_enqueue_checked c event st = (case serializeEvent event of
     Inl x \<Rightarrow> Some (Some (Wrap ''failed to serialize event'' x), st)
   | Inr data \<Rightarrow>
       (let queueKey = queueKeyPrefix @ ev_UserID event;
            (size, s1) = Redis_GetQueueSize c (ev_UserID event) (rd st);
            queueSize = (case size of Inr n \<Rightarrow> n | Inl _ \<Rightarrow> 0);
            s2 = (if queueSize \<ge> maxQueuePerUser then snd (rc_do c (ZPOPMIN queueKey) s1) else s1)
        in case rc_do c (ZADD queueKey (f64 (Unix (ev_CreatedAt event))) data) s2 of
          (Inl x, s3) \<Rightarrow> map_option (\<lambda>b. (Some (Wrap ''failed to add event to redis queue'' x), \<lparr>rd = s3, rd_buffers = b\<rparr>))
            (buffer_add (ev_UserID event) event (rd_buffers st))
        | (Inr _, s3) \<Rightarrow> Some (None, st\<lparr>rd := s3\<rparr>)))"

definition redis_flush :: "(QueuedScrobbleEvent \<Rightarrow> 's rstore \<Rightarrow> (err option \<times> 's rstore) option) \<Rightarrow>
    string \<Rightarrow> 's rstore \<Rightarrow> 's rstore option" where
  "redis_flush enqueue uid st = (case rd_buffers st uid of
     None \<Rightarrow> Some st
   | Some buffer \<Rightarrow> (let events = InMemoryBuffer_GetAll buffer in
       if events = [] then Some st
       else (case flush_all enqueue events st of
           None \<Rightarrow> None
         | Some (False, st') \<Rightarrow> Some st'
         | Some (True, st') \<Rightarrow> Some (st'\<lparr>rd_buffers := (rd_buffers st')(uid := None)\<rparr>))))"

primrec Redis_EnqueueScrobble :: "nat \<Rightarrow> 's RedisClient \<Rightarrow> QueuedScrobbleEvent \<Rightarrow> 's rstore \<Rightarrow> (err option \<times> 's rstore) option" where
  "Redis_EnqueueScrobble 0 c event st = None"
| "Redis_EnqueueScrobble (Suc fuel) c event st =
     (case (if ev_ID event = [] then generateEventID (rc_rand c (rd st)) else Inr (ev_ID event)) of
        Inl x \<Rightarrow> Some (Some (Wrap ''failed to generate event ID'' x), st)
      | Inr eid \<Rightarrow>
          (let event = event\<lparr>ev_ID := eid\<rparr> in
           case validateEvent event of
             Some x \<Rightarrow> Some (Some (Wrap ''invalid event'' x), st)
           | None \<Rightarrow>
               (let event = (if IsZero (ev_CreatedAt event) then event\<lparr>ev_CreatedAt := rc_now c (rd st)\<rparr> else event) in
                case redis_enqueue_checked c event st of
                  None \<Rightarrow> None
                | Some (Some x, st') \<Rightarrow> Some (Some x, st')
                | Some (None, st') \<Rightarrow> map_option (Pair None) (redis_flush (Redis_EnqueueScrobble fuel c) (ev_UserID event) st'))))"

text \<open>Members that do not decode are skipped; a null body makes the decoder panic.\<close>

fun decode_events :: "string list \<Rightarrow> QueuedScrobbleEvent list option" where
  "decode_events [] = Some []"
| "decode_events (m # ms) = (case deserializeEvent m of
     DecPanic \<Rightarrow> None
   | DecErr \<Rightarrow> decode_events ms
   | DecOk event \<Rightarrow> map_option (Cons event) (decode_events ms))"

definition Redis_DequeueScrobbles :: "'s RedisClient \<Rightarrow> string \<Rightarrow> int \<Rightarrow> 's \<Rightarrow> (QueuedScrobbleEvent list result \<times> 's) option" where
  "Redis_DequeueScrobbles c userID limit s = (case rc_do c (ZRANGE (queueKeyPrefix @ userID) 0 (limit - 1)) s of
     (Inr Nil_reply, s') \<Rightarrow> Some (Inr [], s')
   | (r, s') \<Rightarrow> (case as_scored r of
        Inl e \<Rightarrow> Some (Inl (Wrap ''failed to read from redis queue'' e), s')
      | Inr results \<Rightarrow> map_option (\<lambda>events. (Inr events, s')) (decode_events (map snd results))))"

text \<open>The loop over the pages of \<open>SCAN\<close>.\<close>

partial_function (option) scan_keys :: "'s RedisClient \<Rightarrow> string \<Rightarrow> nat \<Rightarrow> string list \<Rightarrow> 's \<Rightarrow> (string list result \<times> 's) option" where
  "scan_keys c p cursor ks s = (case ask as_page c (SCAN cursor p) s of
     (Inl e, s') \<Rightarrow> Some (Inl (Wrap ''failed to scan redis keys'' e), s')
   | (Inr (page, cursor'), s') \<Rightarrow>
       (if cursor' = 0 then Some (Inr (ks @ page), s') else scan_keys c p cursor' (ks @ page) s'))"

text \<open>The first member with the given identifier, with its score and event.\<close>

fun find_member :: "string \<Rightarrow> (rat \<times> string) list \<Rightarrow> (rat \<times> string \<times> QueuedScrobbleEvent) option option" where
  "find_member i [] = Some None"
| "find_member i ((sc, m) # z) = (case deserializeEvent m of
     DecPanic \<Rightarrow> None
   | DecErr \<Rightarrow> find_member i z
   | DecOk event \<Rightarrow> if ev_ID event = i then Some (Some (sc, m, event)) else find_member i z)"

primrec find_queued :: "'s RedisClient \<Rightarrow> string \<Rightarrow> string list \<Rightarrow> 's \<Rightarrow>
    ((string \<times> rat \<times> string \<times> QueuedScrobbleEvent) option \<times> 's) option" where
  "find_queued c i [] s = Some (None, s)"
| "find_queued c i (key # ks) s = (case ask as_scored c (ZRANGE key 0 (-1)) s of
     (Inl _, s') \<Rightarrow> find_queued c i ks s'
   | (Inr z, s') \<Rightarrow> (case find_member i z of
        None \<Rightarrow> None
      | Some None \<Rightarrow> find_queued c i ks s'
      | Some (Some found) \<Rightarrow> Some (Some (key, found), s')))"

definition Redis_DeleteQueuedScrobble :: "'s RedisClient \<Rightarrow> string \<Rightarrow> 's \<Rightarrow> (err option \<times> 's) option" where
  "Redis_DeleteQueuedScrobble c eventID s = (case scan_keys c queueKeyPrefix 0 [] s of
     None \<Rightarrow> None
   | Some (Inl e, s') \<Rightarrow> Some (Some e, s')
   | Some (Inr ks, s') \<Rightarrow> (case find_queued c eventID ks s' of
        None \<Rightarrow> None
      | Some (None, s'') \<Rightarrow> Some (None, s'')
      | Some (Some (key, _, member, _), s'') \<Rightarrow> (case rc_do c (ZREM key member) s'' of
            (Inl e, t) \<Rightarrow> Some (Some (Wrap ''failed to delete event from redis'' e), t)
          | (Inr _, t) \<Rightarrow> Some (None, t))))"

definition Redis_UpdateQueuedScrobbleRetry :: "'s RedisClient \<Rightarrow> string \<Rightarrow> int \<Rightarrow> 's \<Rightarrow> (err option \<times> 's) option" where
  "Redis_UpdateQueuedScrobbleRetry c eventID retryCount s = (case scan_keys c queueKeyPrefix 0 [] s of
     None \<Rightarrow> None
   | Some (Inl e, s') \<Rightarrow> Some (Some e, s')
   | Some (Inr ks, s') \<Rightarrow> (case find_queued c eventID ks s' of
        None \<Rightarrow> None
      | Some (None, s'') \<Rightarrow> Some (Some (Err (''event not found: '' @ eventID)), s'')
      | Some (Some (key, score, member, event), s'') \<Rightarrow>
          (case serializeEvent (event\<lparr>RetryCount := retryCount, LastAttempt := rc_now c s''\<rparr>) of
             Inl e \<Rightarrow> Some (Some (Wrap ''failed to serialize updated event'' e), s'')
           | Inr updated \<Rightarrow> (case rc_pipe c [ZREM key member, ZADD key score updated] s'' of
                (Some e, t) \<Rightarrow> Some (Some (Wrap ''failed to update event in redis'' e), t)
              | (None, t) \<Rightarrow> Some (None, t)))))"

definition Redis_GetQueueStatus :: "'s RedisClient \<Rightarrow> string \<Rightarrow> 's \<Rightarrow> ((QueueStatus \<times> err option) \<times> 's) option" where
  "Redis_GetQueueStatus c userID s =
     (let status = \<lparr>QSUserID = userID, QSQueueSize = 0, OldestEventAge = 0, Mode = ''live'', LastHealthCheck = 0,
                    LastSuccessfulSync = 0, DrainActive = False, EventsProcessed = 0, EventsFailed = 0\<rparr>
      in case Redis_GetQueueSize c userID s of
        (Inl e, s') \<Rightarrow> Some ((status, Some e), s')
      | (Inr queueSize, s') \<Rightarrow>
          (let status = status\<lparr>QSQueueSize := queueSize\<rparr> in
           if queueSize > 0
           then (case Redis_DequeueScrobbles c userID 1 s' of
               None \<Rightarrow> None
             | Some (Inr (ev # _), s'') \<Rightarrow> Some ((status\<lparr>OldestEventAge := rc_now c s'' - ev_CreatedAt ev\<rparr>, None), s'')
             | Some (_, s'') \<Rightarrow> Some ((status, None), s''))
           else Some ((status, None), s')))"

primrec queued_users :: "'s RedisClient \<Rightarrow> string list \<Rightarrow> 's \<Rightarrow> string list \<times> 's" where
  "queued_users c [] s = ([], s)"
| "queued_users c (key # ks) s = (let userID = TrimPrefix key queueKeyPrefix in
     if userID = [] then queued_users c ks s
     else case Redis_GetQueueSize c userID s of
       (Inl _, s') \<Rightarrow> queued_users c ks s'
     | (Inr n, s') \<Rightarrow> apfst (\<lambda>us. if n > 0 then userID # us else us) (queued_users c ks s'))"

definition Redis_ListUsersWithQueuedEvents :: "'s RedisClient \<Rightarrow> 's \<Rightarrow> (string list result \<times> 's) option" where
  "Redis_ListUsersWithQueuedEvents c s = (case scan_keys c queueKeyPrefix 0 [] s of
     None \<Rightarrow> None
   | Some (Inl e, s') \<Rightarrow> Some (Inl e, s')
   | Some (Inr ks, s') \<Rightarrow> Some (apfst Inr (queued_users c ks s')))"

definition Redis_PurgeQueueForUser :: "'s RedisClient \<Rightarrow> string \<Rightarrow> 's \<Rightarrow> int result \<times> 's" where
  "Redis_PurgeQueueForUser c userID s = (case Redis_GetQueueSize c userID s of
     (Inl e, s') \<Rightarrow> (Inl e, s')
   | (Inr queueSize, s') \<Rightarrow> (case rc_do c (DEL [queueKeyPrefix @ userID]) s' of
        (Inl e, s'') \<Rightarrow> (Inl (Wrap ''failed to purge redis queue'' e), s'')
      | (Inr _, s'') \<Rightarrow> (Inr queueSize, s'')))"

end
