(* ===== verification/Redis_Family.thy ===== *)
theory Redis_Family
  imports Redis_Store
begin

text \<open>
  The family groups and members of \<open>lib/store/redis.go\<close>.  A pointer result is an option; a
  lookup that finds nothing is nil without an error.  Unlike the PostgreSQL store this one
  neither validates nor normalises what it writes.  Retry items and notifications are not
  supported: those operations only return \<^const>\<open>ErrNotSupported\<close>.
\<close>

definition familyGroupPrefix :: string where
  "familyGroupPrefix = ''goplaxt:family_group:''"

definition familyGroupPlexPrefix :: string where
  "familyGroupPlexPrefix = ''goplaxt:family_group:plex:''"

definition groupMemberPrefix :: string where
  "groupMemberPrefix = ''goplaxt:group_member:''"

definition groupMembersSetPrefix :: string where
  "groupMembersSetPrefix = ''goplaxt:group_members:''"

text \<open>The message of a decoding error is the decoder's.\<close>

definition json_err :: err where
  "json_err = Err ''json''"

section \<open>Groups\<close>

definition Redis_CreateFamilyGroup :: "'s RedisClient \<Rightarrow> FamilyGroup \<Rightarrow> 's \<Rightarrow> err option \<times> 's" where
  "Redis_CreateFamilyGroup c fg s =
     (let groupKey = familyGroupPrefix @ fg_ID fg; plexKey = familyGroupPlexPrefix @ PlexUsername fg in
      case ask as_count c (EXISTS plexKey) s of
        (Inl e, s') \<Rightarrow> (Some (Wrap ''failed to check plex username uniqueness'' e), s')
      | (Inr n, s') \<Rightarrow>
          (if n > 0 then (Some (Err (''plex username '' @ PlexUsername fg @ '' already exists'')), s')
           else case enc_group fg of
             None \<Rightarrow> (Some (Wrap ''failed to marshal family group'' marshal_err), s')
           | Some doc \<Rightarrow> (case rc_pipe c [SET groupKey (Marshal_text doc) None, SET plexKey (fg_ID fg) None] s' of
                (Some e, t) \<Rightarrow> (Some (Wrap ''failed to create family group'' e), t)
              | (None, t) \<Rightarrow> (None, t))))"

definition Redis_GetFamilyGroup :: "'s RedisClient \<Rightarrow> string \<Rightarrow> 's \<Rightarrow> FamilyGroup option result \<times> 's" where
  "Redis_GetFamilyGroup c groupID s = (case ask as_bulk c (GET (familyGroupPrefix @ groupID)) s of
     (Inr None, s') \<Rightarrow> (Inr None, s')
   | (Inl e, s') \<Rightarrow> (Inl (Wrap ''failed to get family group'' e), s')
   | (Inr (Some data), s') \<Rightarrow> (case Unmarshal dec_group data zero_group of
        Some (g, True) \<Rightarrow> (Inr (Some g), s')
      | _ \<Rightarrow> (Inl (Wrap ''failed to unmarshal family group'' json_err), s')))"

definition Redis_GetFamilyGroupByPlex :: "'s RedisClient \<Rightarrow> string \<Rightarrow> 's \<Rightarrow> FamilyGroup option result \<times> 's" where
  "Redis_GetFamilyGroupByPlex c plexUsername s = (case ask as_bulk c (GET (familyGroupPlexPrefix @ plexUsername)) s of
     (Inr None, s') \<Rightarrow> (Inr None, s')
   | (Inl e, s') \<Rightarrow> (Inl (Wrap ''failed to get family group by plex username'' e), s')
   | (Inr (Some groupID), s') \<Rightarrow> Redis_GetFamilyGroup c groupID s')"

primrec load_groups :: "'s RedisClient \<Rightarrow> string list \<Rightarrow> 's \<Rightarrow> FamilyGroup list \<times> 's" where
  "load_groups c [] s = ([], s)"
| "load_groups c (key # ks) s =
     (if HasPrefix key familyGroupPlexPrefix then load_groups c ks s
      else case ask as_bulk c (GET key) s of
        (Inr (Some data), s') \<Rightarrow> (case Unmarshal dec_group data zero_group of
            Some (g, True) \<Rightarrow> apfst (Cons g) (load_groups c ks s')
          | _ \<Rightarrow> load_groups c ks s')
      | (_, s') \<Rightarrow> load_groups c ks s')"

definition Redis_ListFamilyGroups :: "'s RedisClient \<Rightarrow> 's \<Rightarrow> FamilyGroup list result \<times> 's" where
  "Redis_ListFamilyGroups c s = (case ask as_names c (KEYS familyGroupPrefix) s of
     (Inl e, s') \<Rightarrow> (Inl (Wrap ''failed to list family group keys'' e), s')
   | (Inr ks, s') \<Rightarrow> apfst Inr (load_groups c ks s'))"

section \<open>Members\<close>

definition Redis_GetGroupMember :: "'s RedisClient \<Rightarrow> string \<Rightarrow> 's \<Rightarrow> GroupMember option result \<times> 's" where
  "Redis_GetGroupMember c memberID s = (case ask as_bulk c (GET (groupMemberPrefix @ memberID)) s of
     (Inr None, s') \<Rightarrow> (Inr None, s')
   | (Inl e, s') \<Rightarrow> (Inl (Wrap ''failed to get group member'' e), s')
   | (Inr (Some data), s') \<Rightarrow> (case Unmarshal dec_member data zero_member of
        Some (m, True) \<Rightarrow> (Inr (Some m), s')
      | _ \<Rightarrow> (Inl (Wrap ''failed to unmarshal group member'' json_err), s')))"

primrec load_members :: "'s RedisClient \<Rightarrow> string list \<Rightarrow> 's \<Rightarrow> GroupMember list \<times> 's" where
  "load_members c [] s = ([], s)"
| "load_members c (memberID # is) s = (case Redis_GetGroupMember c memberID s of
     (Inr (Some m), s') \<Rightarrow> apfst (Cons m) (load_members c is s')
   | (_, s') \<Rightarrow> load_members c is s')"

definition Redis_ListGroupMembers :: "'s RedisClient \<Rightarrow> string \<Rightarrow> 's \<Rightarrow> GroupMember list result \<times> 's" where
  "Redis_ListGroupMembers c groupID s = (case ask as_names c (SMEMBERS (groupMembersSetPrefix @ groupID)) s of
     (Inl e, s') \<Rightarrow> (Inl (Wrap ''failed to get group member IDs'' e), s')
   | (Inr is, s') \<Rightarrow> apfst Inr (load_members c is s'))"

definition Redis_GetGroupMemberByTrakt :: "'s RedisClient \<Rightarrow> string \<Rightarrow> string \<Rightarrow> 's \<Rightarrow> GroupMember option result \<times> 's" where
  "Redis_GetGroupMemberByTrakt c groupID traktUsername s = (case Redis_ListGroupMembers c groupID s of
     (Inl e, s') \<Rightarrow> (Inl (Wrap ''failed to list group members'' e), s')
   | (Inr ms, s') \<Rightarrow> (Inr (find (\<lambda>m. TraktUsername m = traktUsername) ms), s'))"

definition Redis_AddGroupMember :: "'s RedisClient \<Rightarrow> GroupMember \<Rightarrow> 's \<Rightarrow> err option \<times> 's" where
  "Redis_AddGroupMember c member s =
     (let memberKey = groupMemberPrefix @ gm_ID member; membersSetKey = groupMembersSetPrefix @ gm_FamilyGroupID member;
          (dup, s1) = (if TraktUsername member \<noteq> []
            then (case Redis_GetGroupMemberByTrakt c (gm_FamilyGroupID member) (TraktUsername member) s of
                (Inl e, s') \<Rightarrow> (Some (Wrap ''failed to check for duplicate trakt username'' e), s')
              | (Inr (Some _), s') \<Rightarrow> (Some (Err (''trakt username '' @ TraktUsername member @ '' already exists in this group'')), s')
              | (Inr None, s') \<Rightarrow> (None, s'))
            else (None, s))
      in case dup of
        Some e \<Rightarrow> (Some e, s1)
      | None \<Rightarrow> (case enc_member member of
          None \<Rightarrow> (Some (Wrap ''failed to marshal group member'' marshal_err), s1)
        | Some doc \<Rightarrow> (case rc_pipe c [SET memberKey (Marshal_text doc) None, SADD membersSetKey (gm_ID member)] s1 of
            (Some e, t) \<Rightarrow> (Some (Wrap ''failed to add group member'' e), t)
          | (None, t) \<Rightarrow> (None, t))))"

definition Redis_UpdateGroupMember :: "'s RedisClient \<Rightarrow> GroupMember \<Rightarrow> 's \<Rightarrow> err option \<times> 's" where
  "Redis_UpdateGroupMember c member s = (case enc_member member of
     None \<Rightarrow> (Some (Wrap ''failed to marshal group member'' marshal_err), s)
   | Some doc \<Rightarrow> (case rc_do c (SET (groupMemberPrefix @ gm_ID member) (Marshal_text doc) None) s of
        (Inl e, s') \<Rightarrow> (Some (Wrap ''failed to update group member'' e), s')
      | (Inr _, s') \<Rightarrow> (None, s')))"

definition Redis_RemoveGroupMember :: "'s RedisClient \<Rightarrow> string \<Rightarrow> string \<Rightarrow> 's \<Rightarrow> err option \<times> 's" where
  "Redis_RemoveGroupMember c groupID memberID s =
     (case rc_pipe c [DEL [groupMemberPrefix @ memberID], SREM (groupMembersSetPrefix @ groupID) memberID] s of
        (Some e, s') \<Rightarrow> (Some (Wrap ''failed to remove group member'' e), s')
      | (None, s') \<Rightarrow> (None, s'))"

definition Redis_DeleteFamilyGroup :: "'s RedisClient \<Rightarrow> string \<Rightarrow> 's \<Rightarrow> err option \<times> 's" where
  "Redis_DeleteFamilyGroup c groupID s = (case Redis_GetFamilyGroup c groupID s of
     (Inl e, s') \<Rightarrow> (Some (Wrap ''failed to get family group for deletion'' e), s')
   | (Inr None, s') \<Rightarrow> (None, s')
   | (Inr (Some fg), s') \<Rightarrow> (case Redis_ListGroupMembers c groupID s' of
        (Inl e, s'') \<Rightarrow> (Some (Wrap ''failed to list group members for deletion'' e), s'')
      | (Inr ms, s'') \<Rightarrow>
          (case rc_pipe c ([DEL [familyGroupPrefix @ groupID, familyGroupPlexPrefix @ PlexUsername fg]] @
              map (\<lambda>m. DEL [groupMemberPrefix @ gm_ID m]) ms @ [DEL [groupMembersSetPrefix @ groupID]]) s'' of
             (Some e, t) \<Rightarrow> (Some (Wrap ''failed to delete family group'' e), t)
           | (None, t) \<Rightarrow> (None, t))))"

section \<open>Operations this store does not support\<close>

definition Redis_EnqueueRetryItem :: "'a \<Rightarrow> 's \<Rightarrow> err option \<times> 's" where
  "Redis_EnqueueRetryItem item s = (Some ErrNotSupported, s)"

definition Redis_ListDueRetryItems :: "gotime \<Rightarrow> int \<Rightarrow> 's \<Rightarrow> RetryQueueItem list result \<times> 's" where
  "Redis_ListDueRetryItems now limit s = (Inl ErrNotSupported, s)"

definition Redis_MarkRetrySuccess :: "string \<Rightarrow> 's \<Rightarrow> err option \<times> 's" where
  "Redis_MarkRetrySuccess i s = (Some ErrNotSupported, s)"

definition Redis_MarkRetryFailure :: "string \<Rightarrow> int \<Rightarrow> gotime \<Rightarrow> string \<Rightarrow> bool \<Rightarrow> 's \<Rightarrow> err option \<times> 's" where
  "Redis_MarkRetryFailure i attempt nextAttempt lastErr permanent s = (Some ErrNotSupported, s)"

definition Redis_CreateNotification :: "Notification \<Rightarrow> 's \<Rightarrow> err option \<times> 's" where
  "Redis_CreateNotification notification s = (Some ErrNotSupported, s)"

definition Redis_GetNotifications :: "string \<Rightarrow> bool \<Rightarrow> 's \<Rightarrow> Notification list result \<times> 's" where
  "Redis_GetNotifications familyGroupID includeDismissed s = (Inl ErrNotSupported, s)"

definition Redis_DismissNotification :: "string \<Rightarrow> 's \<Rightarrow> err option \<times> 's" where
  "Redis_DismissNotification i s = (Some ErrNotSupported, s)"

definition Redis_DeleteNotification :: "string \<Rightarrow> 's \<Rightarrow> err option \<times> 's" where
  "Redis_DeleteNotification i s = (Some ErrNotSupported, s)"

end
