(* ===== verification/Redis_Laws.thy ===== *)
theory Redis_Laws
  imports Redis_Family Store_Laws
begin

text \<open>
  What the Redis store promises on a server that behaves as documented: the kinds of values
  under its keys, the laws of the user table (an instance of \<open>user_store\<close>), who owns a user name,
  when users are forgotten, the playback cache, and the family groups.
\<close>

section \<open>Keys\<close>

text \<open>The store keeps one kind of value under each of its prefixes.\<close>

definition key_kinds :: "(string \<times> (rvalue \<Rightarrow> bool)) list" where
  "key_kinds = [(userPrefix, is_RHash), (userMapPrefix, is_RStr), (''goplaxt:scrobble:'', is_RStr), (queueKeyPrefix, is_RZSet),
     (familyGroupPrefix, is_RStr), (groupMemberPrefix, is_RStr), (groupMembersSetPrefix, is_RSet)]"

definition kinds_ok :: "string \<Rightarrow> rvalue \<Rightarrow> bool" where
  "kinds_ok k v \<longleftrightarrow> list_all (\<lambda>(p, P). HasPrefix k p \<longrightarrow> P v) key_kinds"

definition typed :: "keyspace \<Rightarrow> bool" where
  "typed m \<longleftrightarrow> (\<forall>k v t. m k = Some (v, t) \<longrightarrow> kinds_ok k v)"

lemmas prefix_defs = userPrefix_def userMapPrefix_def queueKeyPrefix_def familyGroupPrefix_def familyGroupPlexPrefix_def
  groupMemberPrefix_def groupMembersSetPrefix_def scrobble_key_def

lemma plex_prefix: "familyGroupPlexPrefix @ n = familyGroupPrefix @ ''plex:'' @ n"
  by (simp add: prefix_defs)

lemma kinds_simps [simp]:
  "kinds_ok (userPrefix @ i) v = is_RHash v" "kinds_ok (userMapPrefix @ i) v = is_RStr v"
  "kinds_ok (scrobble_key a b) v = is_RStr v" "kinds_ok (queueKeyPrefix @ i) v = is_RZSet v"
  "kinds_ok (familyGroupPrefix @ i) v = is_RStr v" "kinds_ok (groupMemberPrefix @ i) v = is_RStr v"
  "kinds_ok (groupMembersSetPrefix @ i) v = is_RSet v"
  by (auto simp: kinds_ok_def key_kinds_def HasPrefix_def prefix_defs)

lemma keys_apart [simp]:
  "userPrefix @ i \<noteq> userMapPrefix @ j" "userMapPrefix @ j \<noteq> userPrefix @ i"
  "groupMemberPrefix @ i \<noteq> groupMembersSetPrefix @ j" "groupMembersSetPrefix @ j \<noteq> groupMemberPrefix @ i"
  "familyGroupPrefix @ i \<noteq> groupMembersSetPrefix @ j" "familyGroupPrefix @ i \<noteq> groupMemberPrefix @ j"
  "groupMembersSetPrefix @ j \<noteq> familyGroupPrefix @ i" "groupMemberPrefix @ j \<noteq> familyGroupPrefix @ i"
  "queueKeyPrefix @ i \<noteq> userPrefix @ j" "userPrefix @ j \<noteq> queueKeyPrefix @ i"
  by (simp_all add: prefix_defs)

lemma typed_at: "typed m \<Longrightarrow> (\<And>v. kinds_ok k v = P v) \<Longrightarrow> at_type P m k"
  by (auto simp: typed_def at_type_def split: option.splits)

lemma typed_upd: "typed m \<Longrightarrow> (\<And>v t. r = Some (v, t) \<Longrightarrow> kinds_ok k v) \<Longrightarrow> typed (m(k := r))"
  by (auto simp: typed_def)

lemma typed_age: "typed m \<Longrightarrow> typed (age d m)"
  by (auto simp: typed_def age_def split: option.splits if_splits)

text \<open>A command that keeps to the kinds keeps the invariant.\<close>

fun kind_cmd :: "redis_cmd \<Rightarrow> bool" where
  "kind_cmd (SET k _ _) = kinds_ok k (RStr [])"
| "kind_cmd (HSET k _ _) = kinds_ok k (RHash [])"
| "kind_cmd (SADD k _) = kinds_ok k (RSet [])"
| "kind_cmd (SREM k _) = kinds_ok k (RSet [])"
| "kind_cmd (ZADD k _ _) = kinds_ok k (RZSet [])"
| "kind_cmd (ZREM k _) = kinds_ok k (RZSet [])"
| "kind_cmd (ZPOPMIN k) = kinds_ok k (RZSet [])"
| "kind_cmd _ = True"

lemma kinds_like: "kinds_ok k (RStr x) = kinds_ok k (RStr y)" "kinds_ok k (RHash h) = kinds_ok k (RHash h')"
  "kinds_ok k (RSet xs) = kinds_ok k (RSet ys)" "kinds_ok k (RZSet z) = kinds_ok k (RZSet z')"
  by (auto simp: kinds_ok_def key_kinds_def)

lemma typed_effect: "typed m \<Longrightarrow> kind_cmd cmd \<Longrightarrow> typed (redis_effect cmd m)"
  by (cases cmd) (auto simp: put_set_def put_zset_def typed_def split: if_splits
      intro: kinds_like [THEN iffD1])

lemma typed_keys:
  assumes "typed m"
  shows "at_type is_RHash m (userPrefix @ i)" "at_type is_RStr m (userMapPrefix @ i)" "at_type is_RStr m (scrobble_key a b)"
    "at_type is_RZSet m (queueKeyPrefix @ i)" "at_type is_RStr m (familyGroupPrefix @ i)" "at_type is_RStr m (groupMemberPrefix @ i)"
    "at_type is_RSet m (groupMembersSetPrefix @ i)" "at_type is_RStr m (familyGroupPlexPrefix @ i)"
  using assms by (simp_all add: plex_prefix typed_at)

section \<open>Replies of a working server\<close>

definition str_at :: "keyspace \<Rightarrow> string \<Rightarrow> string option" where
  "str_at m k = (case m k of Some (RStr v, _) \<Rightarrow> Some v | _ \<Rightarrow> None)"

text \<open>The state behind the client has only moved on: the server is up and its keys are as before.\<close>

context redis_server
begin

definition same :: "'s \<Rightarrow> 's \<Rightarrow> bool" where
  "same s s' \<longleftrightarrow> up s' \<and> view s' = view s"

definition ready :: "'s \<Rightarrow> bool" where
  "ready s \<longleftrightarrow> up s \<and> typed (view s)"

lemma ready_same: "ready s \<Longrightarrow> same s s' \<Longrightarrow> ready s'"
  by (simp add: ready_def same_def)

lemma same_trans: "same s s' \<Longrightarrow> same s' s'' \<Longrightarrow> same s s''"
  by (simp add: same_def)

lemma ask_bulk: "up s \<Longrightarrow> at_type is_RStr (view s) k \<Longrightarrow> \<exists>s'. ask as_bulk c (GET k) s = (Inr (str_at (view s) k), s') \<and> same s s'"
  using do_law [of s "GET k"]
  by (auto simp: ask_def same_def str_at_def at_type_def split: option.splits rvalue.splits)

lemma ask_fields: "up s \<Longrightarrow> at_type is_RHash (view s) k \<Longrightarrow>
    \<exists>h s'. ask as_fields c (HGETALL k) s = (Inr h, s') \<and> map_of h = map_of (hash_at (view s) k) \<and> same s s'"
  using do_law [of s "HGETALL k"] by (auto simp: ask_def same_def)

lemma ask_exists: "up s \<Longrightarrow> \<exists>s'. ask as_count c (EXISTS k) s = (Inr (if view s k = None then 0 else 1), s') \<and> same s s'"
  using do_law [of s "EXISTS k"] by (auto simp: ask_def same_def)

lemma ask_keys: "up s \<Longrightarrow> \<exists>ks s'. ask as_names c (KEYS p) s = (Inr ks, s') \<and> distinct ks \<and> set ks = keys_with p (view s) \<and> same s s'"
  using do_law [of s "KEYS p"] by (auto simp: ask_def same_def)

lemma ask_members: "up s \<Longrightarrow> at_type is_RSet (view s) k \<Longrightarrow>
    \<exists>xs s'. ask as_names c (SMEMBERS k) s = (Inr xs, s') \<and> distinct xs \<and> set xs = set (set_at (view s) k) \<and> same s s'"
  using do_law [of s "SMEMBERS k"] by (auto simp: ask_def same_def)

end

section \<open>Users\<close>

definition user_at :: "keyspace \<Rightarrow> string \<Rightarrow> User option" where
  "user_at m i = user_of_hash i (hash_at m (userPrefix @ i))"

definition user_named :: "keyspace \<Rightarrow> string \<Rightarrow> User option" where
  "user_named m n = (case str_at m (userMapPrefix @ n) of None \<Rightarrow> None | Some i \<Rightarrow> user_at m i)"

lemma user_of_hash_cong: "map_of h = map_of h' \<Longrightarrow> user_of_hash i h = user_of_hash i h'"
proof -
  assume "map_of h = map_of h'"
  then have "field h = field h'" by (simp add: field_def fun_eq_iff)
  then show ?thesis by (simp only: user_of_hash_def)
qed

text \<open>The fields of a user's hash.\<close>

definition user_fields :: "User \<Rightarrow> (string \<times> string) list" where
  "user_fields u = [(''username'', Username u), (''access'', AccessToken u), (''refresh'', RefreshToken u),
     (''updated'', Format_date (Updated u)), (''trakt_display_name'', TraktDisplayName u),
     (''token_expiry'', Format_RFC3339 (TokenExpiry u))]"

definition write_user_cmds :: "keyspace \<Rightarrow> User \<Rightarrow> redis_cmd list" where
  "write_user_cmds m u = map (\<lambda>(f, v). HSET (userPrefix @ usr_ID u) f v) (user_fields u) @ [EXPIRE (userPrefix @ usr_ID u) accessTokenTimeout] @
     (case user_named m (Username u) of
        None \<Rightarrow> [SET (userMapPrefix @ Username u) (usr_ID u) (Some accessTokenTimeout)]
      | Some v \<Rightarrow> if usr_ID v = usr_ID u then [EXPIRE (userMapPrefix @ Username u) accessTokenTimeout] else [])"

definition write_user :: "User \<Rightarrow> keyspace \<Rightarrow> keyspace" where
  "write_user u m = fold redis_effect (write_user_cmds m u) m"

lemma pipe_typed_append: "pipe_typed (xs @ ys) m \<longleftrightarrow> pipe_typed xs m \<and> pipe_typed ys (fold redis_effect xs m)"
  by (induction xs arbitrary: m) auto

text \<open>Setting fields of one hash.\<close>

lemma map_of_without: "map_of (filter (\<lambda>(g, _). g \<noteq> f) h) = (map_of h)(f := None)"
  by (induction h) (auto simp: fun_eq_iff)

lemma hsets_typed: "at_type is_RHash m k \<Longrightarrow> pipe_typed (map (\<lambda>(f, v). HSET k f v) fvs) m"
proof (induction fvs arbitrary: m)
  case (Cons fv fvs)
  then show ?case by (cases fv) (simp add: at_type_def)
qed simp

lemma hsets:
  "fvs \<noteq> [] \<Longrightarrow> \<exists>h. fold redis_effect (map (\<lambda>(f, v). HSET k f v) fvs) m = m(k \<mapsto> (RHash h, ttl_at m k)) \<and>
      map_of h = map_of (rev fvs @ hash_at m k)"
proof (induction fvs arbitrary: m)
  case (Cons fv fvs)
  obtain f v where fv: "fv = (f, v)" by fastforce
  define h where "h = (f, v) # filter (\<lambda>(g, _). g \<noteq> f) (hash_at m k)"
  let ?m = "m(k \<mapsto> (RHash h, ttl_at m k))"
  have at: "ttl_at ?m k = ttl_at m k" "hash_at ?m k = h" by (simp_all add: ttl_at_def hash_at_def)
  have h: "map_of h = (map_of (hash_at m k))(f \<mapsto> v)" by (simp add: h_def map_of_without)
  have step: "fold redis_effect (map (\<lambda>(f, v). HSET k f v) (fv # fvs)) m = fold redis_effect (map (\<lambda>(f, v). HSET k f v) fvs) ?m"
    by (simp add: fv h_def)
  show ?case
  proof (cases "fvs = []")
    case True
    then show ?thesis unfolding step by (intro exI [of _ h]) (simp add: fv h)
  next
    case False
    from Cons.IH [OF False, of ?m] obtain h' where h': "fold redis_effect (map (\<lambda>(f, v). HSET k f v) fvs) ?m = ?m(k \<mapsto> (RHash h', ttl_at ?m k))"
      "map_of h' = map_of (rev fvs @ hash_at ?m k)" by blast
    then have "map_of h' = map_of (rev (fv # fvs) @ hash_at m k)" by (simp add: at h fv)
    with step h'(1) at(1) show ?thesis by (metis fun_upd_upd)
  qed
qed simp

definition canon_redis :: "User \<Rightarrow> User" where
  "canon_redis u = u\<lparr>Username := ToLower (Username u), Updated := Updated u - Updated u mod Day,
     TokenExpiry := TokenExpiry u - TokenExpiry u mod Second, has_store := True\<rparr>"

lemma Format_RFC3339_nonempty: "Format_RFC3339 t \<noteq> []"
  by (simp add: Format_RFC3339_def)

lemma user_fields_nonempty: "user_fields u \<noteq> []"
  by (simp add: user_fields_def)

lemma user_of_fields:
  assumes "map_of h = map_of (rev (user_fields u) @ h')" "four_digit_year (Updated u)" "four_digit_year (TokenExpiry u)"
  shows "user_of_hash (usr_ID u) h = Some (canon_redis u)"
proof -
  have f: "field h ''username'' = Username u" "field h ''access'' = AccessToken u" "field h ''refresh'' = RefreshToken u"
    "field h ''updated'' = Format_date (Updated u)" "field h ''trakt_display_name'' = TraktDisplayName u"
    "field h ''token_expiry'' = Format_RFC3339 (TokenExpiry u)"
    using assms(1) by (simp_all add: field_def user_fields_def)
  show ?thesis
    using Parse_Format_date [OF assms(2)] Parse_Format_RFC3339 [OF assms(3)] Format_RFC3339_nonempty
    by (simp add: user_of_hash_def f canon_redis_def Let_def)
qed

text \<open>The effect of \<open>WriteUser\<close> on the key space.\<close>

definition bound :: "keyspace \<Rightarrow> User \<Rightarrow> bool" where
  "bound m u \<longleftrightarrow> (case user_named m (Username u) of None \<Rightarrow> True | Some v \<Rightarrow> usr_ID v = usr_ID u)"

lemma write_user_effect:
  assumes "typed m"
  obtains h where "map_of h = map_of (rev (user_fields u) @ hash_at m (userPrefix @ usr_ID u))"
    "write_user u m = (let m' = m(userPrefix @ usr_ID u \<mapsto> (RHash h, Some accessTokenTimeout)) in
       case user_named m (Username u) of
         None \<Rightarrow> m'(userMapPrefix @ Username u \<mapsto> (RStr (usr_ID u), Some accessTokenTimeout))
       | Some v \<Rightarrow> if usr_ID v = usr_ID u
           then m'(userMapPrefix @ Username u := map_option (\<lambda>(x, _). (x, Some accessTokenTimeout)) (m (userMapPrefix @ Username u)))
           else m')"
    "pipe_typed (write_user_cmds m u) m" "typed (write_user u m)"
proof -
  let ?k = "userPrefix @ usr_ID u" and ?hs = "map (\<lambda>(f, v). HSET (userPrefix @ usr_ID u) f v) (user_fields u)"
  obtain h where h: "fold redis_effect ?hs m = m(?k \<mapsto> (RHash h, ttl_at m ?k))"
    "map_of h = map_of (rev (user_fields u) @ hash_at m ?k)"
    using hsets [of "user_fields u" ?k m] user_fields_nonempty by blast
  have eff: "write_user u m = (let m' = m(?k \<mapsto> (RHash h, Some accessTokenTimeout)) in
       case user_named m (Username u) of
         None \<Rightarrow> m'(userMapPrefix @ Username u \<mapsto> (RStr (usr_ID u), Some accessTokenTimeout))
       | Some v \<Rightarrow> if usr_ID v = usr_ID u
           then m'(userMapPrefix @ Username u := map_option (\<lambda>(x, _). (x, Some accessTokenTimeout)) (m (userMapPrefix @ Username u)))
           else m')"
    unfolding write_user_def write_user_cmds_def fold_append comp_apply h(1)
    by (cases "user_named m (Username u)") (simp_all add: Let_def)
  have "pipe_typed (write_user_cmds m u) m"
    unfolding write_user_cmds_def pipe_typed_append
    using hsets_typed [OF typed_keys(1) [OF assms]] by (cases "user_named m (Username u)") simp_all
  moreover have "typed (m(?k \<mapsto> (RHash h, Some accessTokenTimeout)))" by (rule typed_upd [OF assms]) auto
  then have "typed (write_user u m)"
    unfolding eff Let_def using typed_keys(2) [OF assms, of "Username u"]
    by (auto split: option.split intro!: typed_upd simp: at_type_def)
  ultimately show thesis using that h(2) eff by blast
qed

lemma same_user: "hash_at m' (userPrefix @ i) = hash_at m (userPrefix @ i) \<Longrightarrow> user_at m' i = user_at m i"
  by (simp add: user_at_def)

lemma write_user_reads:
  assumes "typed m"
  shows "four_digit_year (Updated u) \<Longrightarrow> four_digit_year (TokenExpiry u) \<Longrightarrow> user_at (write_user u m) (usr_ID u) = Some (canon_redis u)"
    and "i \<noteq> usr_ID u \<Longrightarrow> user_at (write_user u m) i = user_at m i"
    and "str_at (write_user u m) (userMapPrefix @ n) =
      (if n = Username u \<and> user_named m n = None then Some (usr_ID u) else str_at m (userMapPrefix @ n))"
proof -
  obtain h where h: "map_of h = map_of (rev (user_fields u) @ hash_at m (userPrefix @ usr_ID u))"
    and eff: "write_user u m = (let m' = m(userPrefix @ usr_ID u \<mapsto> (RHash h, Some accessTokenTimeout)) in
       case user_named m (Username u) of
         None \<Rightarrow> m'(userMapPrefix @ Username u \<mapsto> (RStr (usr_ID u), Some accessTokenTimeout))
       | Some v \<Rightarrow> if usr_ID v = usr_ID u
           then m'(userMapPrefix @ Username u := map_option (\<lambda>(x, _). (x, Some accessTokenTimeout)) (m (userMapPrefix @ Username u)))
           else m')"
    using write_user_effect [OF assms, of u] by blast
  have "hash_at (write_user u m) (userPrefix @ usr_ID u) = h"
    "i \<noteq> usr_ID u \<Longrightarrow> hash_at (write_user u m) (userPrefix @ i) = hash_at m (userPrefix @ i)" for i
    by (cases "user_named m (Username u)"; simp add: hash_at_def eff Let_def)+
  then show "four_digit_year (Updated u) \<Longrightarrow> four_digit_year (TokenExpiry u) \<Longrightarrow> user_at (write_user u m) (usr_ID u) = Some (canon_redis u)"
    "i \<noteq> usr_ID u \<Longrightarrow> user_at (write_user u m) i = user_at m i"
    using h by (simp_all add: user_at_def user_of_fields)
  show "str_at (write_user u m) (userMapPrefix @ n) =
      (if n = Username u \<and> user_named m n = None then Some (usr_ID u) else str_at m (userMapPrefix @ n))"
    by (auto simp: str_at_def eff Let_def split: option.split rvalue.split)
qed

context redis_server
begin

lemma GetUser_ready: "ready s \<Longrightarrow> \<exists>s'. Redis_GetUser c i s = (user_at (view s) i, s') \<and> same s s'"
proof -
  assume "ready s"
  then obtain h s' where "ask as_fields c (HGETALL (userPrefix @ i)) s = (Inr h, s')"
    "map_of h = map_of (hash_at (view s) (userPrefix @ i))" "same s s'"
    using ask_fields [of s "userPrefix @ i"] typed_keys(1) [of "view s" i] unfolding ready_def by blast
  then show ?thesis using user_of_hash_cong [of h "hash_at (view s) (userPrefix @ i)" i] by (simp add: Redis_GetUser_def user_at_def)
qed

lemma GetUserByName_ready:
  assumes "ready s"
  shows "\<exists>s'. Redis_GetUserByName c n s = (user_named (view s) n, s') \<and> same s s'"
proof -
  obtain t where t: "ask as_bulk c (GET (userMapPrefix @ n)) s = (Inr (str_at (view s) (userMapPrefix @ n)), t)" "same s t"
    using ask_bulk [of s "userMapPrefix @ n"] typed_keys(2) assms unfolding ready_def by blast
  then show ?thesis
    using GetUser_ready [OF ready_same [OF assms t(2)]]
    by (cases "str_at (view s) (userMapPrefix @ n)") (fastforce simp: Redis_GetUserByName_def user_named_def same_def)+
qed

lemma WriteUser_ready:
  assumes "ready s"
  shows "\<exists>s'. Redis_WriteUser c u s = Some s' \<and> ready s' \<and> view s' = write_user u (view s)"
proof -
  obtain t where t: "Redis_GetUserByName c (Username u) s = (user_named (view s) (Username u), t)" "same s t"
    using GetUserByName_ready [OF assms] by blast
  then have v: "up t" "view t = view s" "typed (view s)" using assms by (simp_all add: same_def ready_def)
  have ty: "pipe_typed (write_user_cmds (view s) u) (view s)" "typed (write_user u (view s))"
    using write_user_effect [OF v(3), of u] by blast+
  then obtain s' where s': "rc_pipe c (write_user_cmds (view s) u) t = (None, s')" "up s'" "view s' = write_user u (view s)"
    using pipe_law [of t "write_user_cmds (view s) u"] v unfolding write_user_def by auto
  have "Redis_WriteUser c u s = Some s'"
    using s'(1) t(1) by (simp add: Redis_WriteUser_def write_user_cmds_def user_fields_def)
  with s' ty(2) show ?thesis by (simp add: ready_def)
qed

sublocale rd_users: user_store "Redis_WriteUser c" "\<lambda>i s. Some (Redis_GetUser c i s)" ready canon_redis four_digit_year "\<lambda>_. True"
proof (unfold_locales, goal_cases)
  case (1 s u)
  then show ?case using WriteUser_ready by blast
next
  case (2 s u s')
  then have "ready s'" "view s' = write_user u (view s)" using WriteUser_ready [of s u] by auto
  with 2 show ?case using GetUser_ready [of s' "usr_ID u"] write_user_reads(1) [of "view s" u] by (auto simp: ready_def)
next
  case (3 s u i s')
  then have "ready s'" "view s' = write_user u (view s)" using WriteUser_ready [of s u] by auto
  with 3 show ?case
    using GetUser_ready [of s' i] GetUser_ready [of s i] write_user_reads(2) [of "view s" i u] by (auto simp: ready_def)
qed

end

context redis_server
begin

lemma UpdateUser_ready:
  assumes "up s" "typed (view s)" "has_store u" "four_digit_year now" "four_digit_year ex"
  shows "\<exists>u' s' v. UpdateUser (Redis_WriteUser c) now acc ref dn ex u s = Some (u', s') \<and>
     fst (Redis_GetUser c (usr_ID u) s') = Some v \<and> AccessToken v = acc \<and> RefreshToken v = ref \<and>
     Updated v = now - now mod Day \<and> TokenExpiry v = ex - ex mod Second \<and> Username v = ToLower (Username u) \<and> has_store v \<and>
     (\<forall>i. i \<noteq> usr_ID u \<longrightarrow> fst (Redis_GetUser c i s') = fst (Redis_GetUser c i s))"
proof -
  have r: "ready s" using assms(1,2) by (simp add: ready_def)
  obtain u' s' s'' where up: "UpdateUser (Redis_WriteUser c) now acc ref dn ex u s = Some (u', s')"
    "Some (Redis_GetUser c (usr_ID u) s') = Some (Some (canon_redis u'), s'')"
    "Username u' = Username u" "AccessToken u' = acc" "RefreshToken u' = ref" "TokenExpiry u' = ex" "Updated u' = now"
    using rd_users.UpdateUser_get [OF r assms(3-5) TrueI, of acc ref dn] by blast
  then show ?thesis
    using rd_users.UpdateUser_other [OF r up(1)]
    by (intro exI [of _ u'] exI [of _ s'] exI [of _ "canon_redis u'"]) (simp add: canon_redis_def)
qed

text \<open>A user that was just written under a free name, and time passing.\<close>

lemma lease_view:
  assumes "ready s" "user_named (view s) (Username u) = None" "four_digit_year (Updated u)" "four_digit_year (TokenExpiry u)"
  shows "\<exists>s1. Redis_WriteUser c u s = Some s1 \<and> ready s1 \<and>
    (\<forall>d. 0 \<le> d \<longrightarrow> ready (elapse d s1) \<and>
      user_at (view (elapse d s1)) (usr_ID u) = (if d < accessTokenTimeout then Some (canon_redis u) else None) \<and>
      str_at (view (elapse d s1)) (userMapPrefix @ Username u) = (if d < accessTokenTimeout then Some (usr_ID u) else None))"
proof -
  have ty: "typed (view s)" using assms(1) by (simp add: ready_def)
  obtain s1 where s1: "Redis_WriteUser c u s = Some s1" "ready s1" "view s1 = write_user u (view s)"
    using WriteUser_ready [OF assms(1)] by blast
  obtain h where h: "map_of h = map_of (rev (user_fields u) @ hash_at (view s) (userPrefix @ usr_ID u))"
    and v: "view s1 = (view s)(userPrefix @ usr_ID u \<mapsto> (RHash h, Some accessTokenTimeout),
       userMapPrefix @ Username u \<mapsto> (RStr (usr_ID u), Some accessTokenTimeout))"
    using write_user_effect [OF ty, of u] assms(2) s1(3) by (metis (no_types, lifting) option.simps(4))
  have "user_of_hash (usr_ID u) [] = None" by (simp add: user_of_hash_def field_def Parse_date_def within_def)
  moreover have "user_of_hash (usr_ID u) h = Some (canon_redis u)" by (rule user_of_fields [OF h assms(3,4)])
  moreover have "ready (elapse d s1) \<and> view (elapse d s1) = age d (view s1)" if "0 \<le> d" for d
    using s1(2) time_law [OF _ that, of s1] typed_age by (simp add: ready_def)
  ultimately show ?thesis
    using s1(1,2) by (auto simp: v age_def user_at_def hash_at_def str_at_def)
qed

lemma lease:
  assumes "up s" "typed (view s)" "fst (Redis_GetUserByName c (Username u) s) = None"
    "four_digit_year (Updated u)" "four_digit_year (TokenExpiry u)" "0 \<le> d"
    "Username v = Username u" "usr_ID v \<noteq> usr_ID u" "four_digit_year (Updated v)" "four_digit_year (TokenExpiry v)"
  shows "\<exists>s1 s2. Redis_WriteUser c u s = Some s1 \<and> Redis_WriteUser c v (elapse d s1) = Some s2 \<and>
    fst (Redis_GetUser c (usr_ID u) (elapse d s1)) = (if d < accessTokenTimeout then Some (canon_redis u) else None) \<and>
    fst (Redis_GetUserByName c (Username u) s2) = Some (if d < accessTokenTimeout then canon_redis u else canon_redis v)"
proof -
  have r: "ready s" using assms(1,2) by (simp add: ready_def)
  with assms(3) have "user_named (view s) (Username u) = None" using GetUserByName_ready by (metis fst_conv)
  from lease_view [OF r this assms(4,5)] obtain s1 where s1: "Redis_WriteUser c u s = Some s1" "ready (elapse d s1)"
    "user_at (view (elapse d s1)) (usr_ID u) = (if d < accessTokenTimeout then Some (canon_redis u) else None)"
    "str_at (view (elapse d s1)) (userMapPrefix @ Username u) = (if d < accessTokenTimeout then Some (usr_ID u) else None)"
    using assms(6) by blast
  let ?e = "elapse d s1"
  obtain s2 where s2: "Redis_WriteUser c v ?e = Some s2" "ready s2" "view s2 = write_user v (view ?e)"
    using WriteUser_ready [OF s1(2)] by blast
  have ty: "typed (view ?e)" using s1(2) by (simp add: ready_def)
  have "user_named (view s2) (Username u) = Some (if d < accessTokenTimeout then canon_redis u else canon_redis v)"
    using s1(3,4) write_user_reads [OF ty, where u = v] assms(7-10) by (auto simp: s2(3) user_named_def)
  then have "fst (Redis_GetUserByName c (Username u) s2) = Some (if d < accessTokenTimeout then canon_redis u else canon_redis v)"
    using GetUserByName_ready [OF s2(2)] by (metis fst_conv)
  moreover have "fst (Redis_GetUser c (usr_ID u) ?e) = (if d < accessTokenTimeout then Some (canon_redis u) else None)"
    using GetUser_ready [OF s1(2)] s1(3) by (metis fst_conv)
  ultimately show ?thesis using s1(1) s2(1) by blast
qed

end

text \<open>
  Renewing a user's tokens takes effect in Redis too, at the precision of its text fields:
  \<open>UpdateUser\<close> returns, and reading the user back gives the new tokens, the day of the update
  and the expiry to the second; every other user reads as before.
\<close>

theorem redis_UpdateUser_persists:
  assumes "redis_server c up view todo rank elapse" "up s" "typed (view s)" "has_store u" "four_digit_year now" "four_digit_year ex"
  shows "\<exists>u' s' v. UpdateUser (Redis_WriteUser c) now acc ref dn ex u s = Some (u', s') \<and>
     fst (Redis_GetUser c (usr_ID u) s') = Some v \<and> AccessToken v = acc \<and> RefreshToken v = ref \<and>
     Updated v = now - now mod Day \<and> TokenExpiry v = ex - ex mod Second \<and> Username v = ToLower (Username u) \<and> has_store v \<and>
     (\<forall>i. i \<noteq> usr_ID u \<longrightarrow> fst (Redis_GetUser c i s') = fst (Redis_GetUser c i s))"
  using redis_server.UpdateUser_ready [OF assms] .

theorem redis_UpdateUser_persists_witness:
  "\<exists>u' s' v. UpdateUser (Redis_WriteUser (mem_client (\<lambda>_. 0) (\<lambda>_. Inr []))) Day ''a2'' ''r2'' None (Day + 1)
      \<lparr>usr_ID = ''i'', Username = ''Bob'', AccessToken = ''a1'', RefreshToken = ''r1'', TraktDisplayName = [],
       Updated = 1, TokenExpiry = 2, has_store = True\<rparr> mem_empty = Some (u', s') \<and>
     fst (Redis_GetUser (mem_client (\<lambda>_. 0) (\<lambda>_. Inr [])) ''i'' s') = Some v \<and> AccessToken v = ''a2'' \<and> Updated v = Day"
proof -
  have "mem_up mem_empty" "typed (mem_map mem_empty)" by (simp_all add: mem_up_def mem_empty_def typed_def)
  from redis_UpdateUser_persists [OF mem_server.redis_server_axioms this, of "\<lparr>usr_ID = ''i'', Username = ''Bob'', AccessToken = ''a1'',
      RefreshToken = ''r1'', TraktDisplayName = [], Updated = 1, TokenExpiry = 2, has_store = True\<rparr>" Day "Day + 1"
      "\<lambda>_. 0" "\<lambda>_. Inr []" "''a2''" "''r2''" None]
  show ?thesis by (auto simp: year_bounds Day_def time_defs)
qed

text \<open>
  A user name is leased, not owned: the first user written under a free name has it until 75
  days pass without another write.  Within that time a second user with the same name is stored
  but the name still leads to the first; after it the first user is forgotten and the name is
  the second user's.
\<close>

theorem redis_user_lease:
  assumes "redis_server c up view todo rank elapse" "up s" "typed (view s)" "fst (Redis_GetUserByName c (Username u) s) = None"
    "four_digit_year (Updated u)" "four_digit_year (TokenExpiry u)" "0 \<le> d"
    "Username v = Username u" "usr_ID v \<noteq> usr_ID u" "four_digit_year (Updated v)" "four_digit_year (TokenExpiry v)"
  shows "\<exists>s1 s2. Redis_WriteUser c u s = Some s1 \<and> Redis_WriteUser c v (elapse d s1) = Some s2 \<and>
    fst (Redis_GetUser c (usr_ID u) (elapse d s1)) = (if d < accessTokenTimeout then Some (canon_redis u) else None) \<and>
    fst (Redis_GetUserByName c (Username u) s2) = Some (if d < accessTokenTimeout then canon_redis u else canon_redis v)"
  by (rule redis_server.lease [OF assms])

theorem redis_user_lease_witness:
  "\<exists>s1 s2. let c = mem_client (\<lambda>_. 0) (\<lambda>_. Inr []); u = \<lparr>usr_ID = ''1'', Username = ''bob'', AccessToken = ''a'', RefreshToken = ''r'',
       TraktDisplayName = [], Updated = 10, TokenExpiry = 20, has_store = True\<rparr>; v = u\<lparr>usr_ID := ''2''\<rparr> in
     Redis_WriteUser c u mem_empty = Some s1 \<and> Redis_WriteUser c v (mem_elapse accessTokenTimeout s1) = Some s2 \<and>
     fst (Redis_GetUserByName c ''bob'' s2) = Some (canon_redis v)"
proof -
  let ?u = "\<lparr>usr_ID = ''1'', Username = ''bob'', AccessToken = ''a'', RefreshToken = ''r'',
       TraktDisplayName = [], Updated = 10, TokenExpiry = 20, has_store = True\<rparr>"
  have "mem_up mem_empty" "typed (mem_map mem_empty)" by (simp_all add: mem_up_def mem_empty_def typed_def)
  moreover have "fst (Redis_GetUserByName (mem_client (\<lambda>_. 0) (\<lambda>_. Inr [])) ''bob'' mem_empty) = None"
    by (simp add: Redis_GetUserByName_def ask_def mem_client_def mem_do_def mem_empty_def at_type_def)
  ultimately show ?thesis
    using redis_user_lease [OF mem_server.redis_server_axioms, of mem_empty "\<lambda>_. 0" "\<lambda>_. Inr []" ?u accessTokenTimeout "?u\<lparr>usr_ID := ''2''\<rparr>"]
    by (auto simp: year_bounds accessTokenTimeout_def time_defs Let_def)
qed

section \<open>Playback cache\<close>

context redis_server
begin

lemma cache:
  assumes "up s" "typed (view s)" "item_storable item" "0 \<le> d"
  shows "map_option fst (Redis_GetScrobbleBody c (PlayerUuid item) (CRatingKey item) (elapse d (Redis_WriteScrobbleBody c item s))) =
    Some (if d < scrobbleTimeout then item else zero_CacheItem)"
proof -
  let ?k = "scrobble_key (PlayerUuid item) (CRatingKey item)" and ?t = "Redis_WriteScrobbleBody c item s"
  have t: "up ?t" "view ?t = (view s)(?k \<mapsto> (RStr (Marshal_text (enc_CacheItem item)), Some scrobbleTimeout))"
    using do_law [of s "SET ?k (Marshal_text (enc_CacheItem item)) (Some scrobbleTimeout)"] assms(1)
    by (auto simp: Redis_WriteScrobbleBody_def)
  then have "typed (view ?t)" unfolding t(2) using typed_upd [OF assms(2), of "Some (RStr (Marshal_text (enc_CacheItem item)), Some scrobbleTimeout)" ?k] by simp
  moreover have e: "up (elapse d ?t)" "view (elapse d ?t) = age d (view ?t)" using time_law [OF t(1) assms(4)] by auto
  ultimately have "at_type is_RStr (view (elapse d ?t)) ?k" using typed_keys(3) typed_age by simp
  from ask_bulk [OF e(1) this] obtain s' where
    "ask as_bulk c (GET ?k) (elapse d ?t) = (Inr (str_at (view (elapse d ?t)) ?k), s')" by blast
  moreover have "str_at (view (elapse d ?t)) ?k = (if d < scrobbleTimeout then Some (Marshal_text (enc_CacheItem item)) else None)"
    by (simp add: e(2) t(2) str_at_def age_def)
  ultimately show ?thesis using item_roundtrip [OF assms(3)] by (simp add: Redis_GetScrobbleBody_def)
qed

end

text \<open>
  The playback cache remembers a scrobble body for three hours: what \<open>WriteScrobbleBody\<close>
  stored is read back unchanged, for every player and item, until that time has passed; then
  the answer is an empty item.
\<close>

theorem redis_playback_cache:
  assumes "redis_server c up view todo rank elapse" "up s" "typed (view s)" "item_storable item" "0 \<le> d"
  shows "map_option fst (Redis_GetScrobbleBody c (PlayerUuid item) (CRatingKey item) (elapse d (Redis_WriteScrobbleBody c item s))) =
    Some (if d < scrobbleTimeout then item else zero_CacheItem)"
  by (rule redis_server.cache [OF assms])

theorem redis_playback_cache_witness:
  "let c = mem_client (\<lambda>_. 0) (\<lambda>_. Inr []); item = zero_CacheItem\<lparr>PlayerUuid := ''p'', CRatingKey := ''r'', LastAction := ''pause''\<rparr> in
   map_option fst (Redis_GetScrobbleBody c ''p'' ''r'' (mem_elapse Hour (Redis_WriteScrobbleBody c item mem_empty))) = Some item"
proof -
  have st: "item_storable (zero_CacheItem\<lparr>PlayerUuid := ''p'', CRatingKey := ''r'', LastAction := ''pause''\<rparr>)"
    by (simp add: item_storable_def Body_ok_def zero_defs utf8_doc_def enc_CacheItem_def ScrobbleBody_MarshalJSON_def omitempty_def
        ToValidUTF8_lit ascii_def)
  have "mem_up mem_empty" "typed (mem_map mem_empty)" by (simp_all add: mem_up_def mem_empty_def typed_def)
  from redis_playback_cache [OF mem_server.redis_server_axioms [of "\<lambda>_. 0" "\<lambda>_. Inr []"] this st, of Hour] show ?thesis
    by (simp add: Let_def scrobbleTimeout_def time_defs)
qed

section \<open>Groups and members\<close>

lemma set_at_put: "set_at (put_set k xs m) k' = (if k' = k then xs else set_at m k')"
  by (simp add: set_at_def put_set_def)

lemma dels: "fold redis_effect (map DEL kss) m = (\<lambda>k. if k \<in> (\<Union>ks \<in> set kss. set ks) then None else m k)"
  by (induction kss arbitrary: m) (auto simp: fun_eq_iff)

lemma dels_typed: "pipe_typed (map DEL kss) m"
  by (induction kss arbitrary: m) simp_all

lemma typed_del: "typed m \<Longrightarrow> typed (\<lambda>k. if P k then None else m k)"
  by (simp add: typed_def)

definition group_at :: "keyspace \<Rightarrow> string \<Rightarrow> FamilyGroup option result" where
  "group_at m i = (case str_at m (familyGroupPrefix @ i) of
     None \<Rightarrow> Inr None
   | Some data \<Rightarrow> (case Unmarshal dec_group data zero_group of
        Some (g, True) \<Rightarrow> Inr (Some g)
      | _ \<Rightarrow> Inl (Wrap ''failed to unmarshal family group'' json_err)))"

definition member_at :: "keyspace \<Rightarrow> string \<Rightarrow> GroupMember option result" where
  "member_at m i = (case str_at m (groupMemberPrefix @ i) of
     None \<Rightarrow> Inr None
   | Some data \<Rightarrow> (case Unmarshal dec_member data zero_member of
        Some (g, True) \<Rightarrow> Inr (Some g)
      | _ \<Rightarrow> Inl (Wrap ''failed to unmarshal group member'' json_err)))"

definition plex_at :: "keyspace \<Rightarrow> string \<Rightarrow> FamilyGroup option result" where
  "plex_at m n = (case str_at m (familyGroupPlexPrefix @ n) of None \<Rightarrow> Inr None | Some i \<Rightarrow> group_at m i)"

context redis_server
begin

lemma GetFamilyGroup_ready:
  assumes "ready s"
  shows "\<exists>s'. Redis_GetFamilyGroup c i s = (group_at (view s) i, s') \<and> same s s'"
proof -
  obtain s' where "ask as_bulk c (GET (familyGroupPrefix @ i)) s = (Inr (str_at (view s) (familyGroupPrefix @ i)), s')" "same s s'"
    using ask_bulk [of s "familyGroupPrefix @ i"] typed_keys(5) assms unfolding ready_def by blast
  then show ?thesis by (auto simp: Redis_GetFamilyGroup_def group_at_def split: option.split bool.split)
qed

lemma GetFamilyGroupByPlex_ready:
  assumes "ready s"
  shows "\<exists>s'. Redis_GetFamilyGroupByPlex c n s = (plex_at (view s) n, s') \<and> same s s'"
proof -
  obtain t where t: "ask as_bulk c (GET (familyGroupPlexPrefix @ n)) s = (Inr (str_at (view s) (familyGroupPlexPrefix @ n)), t)" "same s t"
    using ask_bulk [of s "familyGroupPlexPrefix @ n"] typed_keys(8) assms unfolding ready_def by blast
  show ?thesis
  proof (cases "str_at (view s) (familyGroupPlexPrefix @ n)")
    case (Some i)
    with t GetFamilyGroup_ready [OF ready_same [OF assms t(2)], of i] show ?thesis
      by (auto simp: Redis_GetFamilyGroupByPlex_def plex_at_def same_def)
  qed (use t in \<open>simp add: Redis_GetFamilyGroupByPlex_def plex_at_def\<close>)
qed

lemma GetGroupMember_ready:
  assumes "ready s"
  shows "\<exists>s'. Redis_GetGroupMember c i s = (member_at (view s) i, s') \<and> same s s'"
proof -
  obtain s' where "ask as_bulk c (GET (groupMemberPrefix @ i)) s = (Inr (str_at (view s) (groupMemberPrefix @ i)), s')" "same s s'"
    using ask_bulk [of s "groupMemberPrefix @ i"] typed_keys(6) assms unfolding ready_def by blast
  then show ?thesis by (auto simp: Redis_GetGroupMember_def member_at_def split: option.split bool.split)
qed

lemma load_members_ready:
  "ready s \<Longrightarrow> \<exists>s'. load_members c is s = (concat (map (\<lambda>i. case member_at (view s) i of Inr (Some m) \<Rightarrow> [m] | _ \<Rightarrow> []) is), s') \<and> same s s'"
proof (induction "is" arbitrary: s)
  case Nil
  then show ?case by (simp add: same_def ready_def)
next
  case (Cons i "is")
  obtain t where t: "Redis_GetGroupMember c i s = (member_at (view s) i, t)" "same s t"
    using GetGroupMember_ready [OF Cons.prems] by blast
  have v: "view t = view s" using t(2) by (simp add: same_def)
  obtain s' where "load_members c is t = (concat (map (\<lambda>i. case member_at (view s) i of Inr (Some m) \<Rightarrow> [m] | _ \<Rightarrow> []) is), s')" "same t s'"
    using Cons.IH [OF ready_same [OF Cons.prems t(2)]] v by auto
  with t show ?case by (auto simp: same_def split: sum.split option.split)
qed

lemma ListGroupMembers_ready:
  assumes "ready s"
  shows "\<exists>is s'. Redis_ListGroupMembers c g s =
      (Inr (concat (map (\<lambda>i. case member_at (view s) i of Inr (Some m) \<Rightarrow> [m] | _ \<Rightarrow> []) is)), s') \<and>
    distinct is \<and> set is = set (set_at (view s) (groupMembersSetPrefix @ g)) \<and> same s s'"
proof -
  obtain "is" t where t: "ask as_names c (SMEMBERS (groupMembersSetPrefix @ g)) s = (Inr is, t)" "distinct is"
    "set is = set (set_at (view s) (groupMembersSetPrefix @ g))" "same s t"
    using ask_members [of s "groupMembersSetPrefix @ g"] typed_keys(7) assms unfolding ready_def by blast
  have v: "view t = view s" using t(4) by (simp add: same_def)
  obtain s' where "load_members c is t = (concat (map (\<lambda>i. case member_at (view s) i of Inr (Some m) \<Rightarrow> [m] | _ \<Rightarrow> []) is), s')" "same t s'"
    using load_members_ready [OF ready_same [OF assms t(4)], of "is"] v by auto
  with t show ?thesis by (auto simp: Redis_ListGroupMembers_def intro: same_trans)
qed

lemma AddGroupMember_ready:
  assumes "ready s" "member_storable m" "Redis_AddGroupMember c m s = (None, s')"
  shows "ready s' \<and> member_at (view s') (gm_ID m) = Inr (Some (without_tokens m)) \<and>
    gm_ID m \<in> set (set_at (view s') (groupMembersSetPrefix @ gm_FamilyGroupID m))"
proof -
  obtain doc where doc: "enc_member m = Some doc" using assms(2) by (auto simp: member_storable_def split: option.splits)
  let ?cmds = "[SET (groupMemberPrefix @ gm_ID m) (Marshal_text doc) None, SADD (groupMembersSetPrefix @ gm_FamilyGroupID m) (gm_ID m)]"
  obtain t where t: "same s t" "rc_pipe c ?cmds t = (None, s')"
  proof (cases "TraktUsername m = []")
    case True
    with assms doc that [of s] show ?thesis
      by (auto simp: Redis_AddGroupMember_def same_def ready_def split: prod.splits option.splits)
  next
    case False
    obtain ms t where "Redis_ListGroupMembers c (gm_FamilyGroupID m) s = (Inr ms, t)" "same s t"
      using ListGroupMembers_ready [OF assms(1)] by blast
    with False assms(3) doc that [of t] show ?thesis
      by (auto simp: Redis_AddGroupMember_def Redis_GetGroupMemberByTrakt_def split: prod.splits option.splits)
  qed
  have r: "ready t" by (rule ready_same [OF assms(1) t(1)])
  then have ty: "typed (view t)" "up t" by (simp_all add: ready_def)
  have "pipe_typed ?cmds (view t)" using typed_keys(7) [OF ty(1), of "gm_FamilyGroupID m"] by (simp add: at_type_def)
  from pipe_law [OF ty(2) this] t(2) have s': "up s'" "view s' = fold redis_effect ?cmds (view t)" by auto
  moreover have "typed (fold redis_effect ?cmds (view t))" by (simp add: typed_effect ty(1) del: redis_effect.simps)
  ultimately have "ready s'" by (simp add: ready_def)
  moreover have "member_at (view s') (gm_ID m) = Inr (Some (without_tokens m))"
    using member_roundtrip(1) [OF assms(2) doc] by (simp add: s' member_at_def str_at_def put_set_def)
  moreover have "gm_ID m \<in> set (set_at (view s') (groupMembersSetPrefix @ gm_FamilyGroupID m))"
    by (simp add: s' set_at_put)
  ultimately show ?thesis by blast
qed

lemma UpdateGroupMember_ready:
  assumes "ready s" "member_storable m"
  shows "\<exists>s'. Redis_UpdateGroupMember c m s = (None, s') \<and> ready s' \<and> member_at (view s') (gm_ID m) = Inr (Some (without_tokens m))"
proof -
  obtain doc where doc: "enc_member m = Some doc" using assms(2) by (auto simp: member_storable_def split: option.splits)
  let ?cmd = "SET (groupMemberPrefix @ gm_ID m) (Marshal_text doc) None"
  obtain r s' where s': "rc_do c ?cmd s = (Inr r, s')" "up s'" "view s' = redis_effect ?cmd (view s)"
    using do_law [of s ?cmd] assms(1) by (auto simp: ready_def)
  moreover have "typed (redis_effect ?cmd (view s))" using assms(1) by (simp add: typed_effect ready_def del: redis_effect.simps)
  moreover have "member_at (view s') (gm_ID m) = Inr (Some (without_tokens m))"
    using member_roundtrip(1) [OF assms(2) doc] by (simp add: s' member_at_def str_at_def)
  ultimately show ?thesis using doc by (auto simp: Redis_UpdateGroupMember_def ready_def)
qed

lemma tokens_lost:
  assumes "up s" "typed (view s)" "member_storable m"
  shows "\<exists>s'. Redis_UpdateGroupMember c m s = (None, s') \<and>
      fst (Redis_GetGroupMember c (gm_ID m) s') = Inr (Some (without_tokens m)) \<and>
      (Redis_AddGroupMember c m s = (None, s'') \<longrightarrow> fst (Redis_GetGroupMember c (gm_ID m) s'') = Inr (Some (without_tokens m)))"
proof -
  have r: "ready s" using assms by (simp add: ready_def)
  have get: "fst (Redis_GetGroupMember c (gm_ID m) t) = member_at (view t) (gm_ID m)" if "ready t" for t
    using GetGroupMember_ready [OF that, of "gm_ID m"] by auto
  from UpdateGroupMember_ready [OF r assms(3)] AddGroupMember_ready [OF r assms(3), of s''] get show ?thesis by metis
qed

end

text \<open>
  C24. The Redis store forgets the tokens of group members: after a member was added or updated
  successfully, reading it back gives the member with empty access and refresh tokens, because
  these fields are excluded from its JSON document.
\<close>

theorem redis_member_tokens_lost:
  assumes "redis_server c up view todo rank elapse" "up s" "typed (view s)" "member_storable m"
  shows "\<exists>s'. Redis_UpdateGroupMember c m s = (None, s') \<and>
      fst (Redis_GetGroupMember c (gm_ID m) s') = Inr (Some (m\<lparr>gm_AccessToken := [], gm_RefreshToken := []\<rparr>)) \<and>
      (Redis_AddGroupMember c m s = (None, s'') \<longrightarrow>
        fst (Redis_GetGroupMember c (gm_ID m) s'') = Inr (Some (m\<lparr>gm_AccessToken := [], gm_RefreshToken := []\<rparr>)))"
  using redis_server.tokens_lost [OF assms] by (simp only: without_tokens_def)

theorem redis_member_tokens_lost_witness:
  "let m = \<lparr>gm_ID = ''m'', gm_FamilyGroupID = ''g'', TempLabel = ''Kid'', TraktUsername = ''kid'', gm_AccessToken = ''tok'',
       gm_RefreshToken = ''ref'', gm_TokenExpiry = None, AuthorizationStatus = ''authorized'', gm_CreatedAt = 0\<rparr>;
     c = mem_client (\<lambda>_. 0) (\<lambda>_. Inr []) in
   \<exists>s'. Redis_UpdateGroupMember c m mem_empty = (None, s') \<and>
     fst (Redis_GetGroupMember c ''m'' s') = Inr (Some (m\<lparr>gm_AccessToken := [], gm_RefreshToken := []\<rparr>))"
proof -
  let ?m = "\<lparr>gm_ID = ''m'', gm_FamilyGroupID = ''g'', TempLabel = ''Kid'', TraktUsername = ''kid'', gm_AccessToken = ''tok'',
       gm_RefreshToken = ''ref'', gm_TokenExpiry = None, AuthorizationStatus = ''authorized'', gm_CreatedAt = 0\<rparr>"
  obtain t where t: "Time_MarshalText 0 = Some t" using Time_text_year [of 0] year_bounds [of 0] by auto
  have st: "member_storable ?m"
    by (simp add: member_storable_def enc_member_def t utf8_doc_def omitempty_def Time_text_clean [OF t] ToValidUTF8_lit ascii_def)
  have "mem_up mem_empty" "typed (mem_map mem_empty)" by (simp_all add: mem_up_def mem_empty_def typed_def)
  from redis_member_tokens_lost [OF mem_server.redis_server_axioms [of "\<lambda>_. 0" "\<lambda>_. Inr []"] this st] show ?thesis by (auto simp: Let_def)
qed

section \<open>Deleting a group\<close>

context redis_server
begin

lemma DeleteFamilyGroup_ready:
  assumes "ready s" "group_at (view s) g = Inr (Some fg)"
  shows "\<exists>is s'. Redis_DeleteFamilyGroup c g s = (None, s') \<and> ready s' \<and> set is = set (set_at (view s) (groupMembersSetPrefix @ g)) \<and>
    view s' = (\<lambda>k. if k \<in> {familyGroupPrefix @ g, familyGroupPlexPrefix @ PlexUsername fg, groupMembersSetPrefix @ g} \<union>
        {groupMemberPrefix @ gm_ID m | m i. i \<in> set is \<and> member_at (view s) i = Inr (Some m)} then None else view s k)"
proof -
  obtain t where t: "Redis_GetFamilyGroup c g s = (Inr (Some fg), t)" "same s t"
    using GetFamilyGroup_ready [OF assms(1), of g] assms(2) by auto
  have rt: "ready t" by (rule ready_same [OF assms(1) t(2)])
  have vt: "view t = view s" using t(2) by (simp add: same_def)
  let ?load = "\<lambda>is. concat (map (\<lambda>i. case member_at (view s) i of Inr (Some m) \<Rightarrow> [m] | _ \<Rightarrow> []) is)"
  obtain "is" u where u: "Redis_ListGroupMembers c g t = (Inr (?load is), u)" "same t u"
    "set is = set (set_at (view s) (groupMembersSetPrefix @ g))"
    using ListGroupMembers_ready [OF rt, of g] unfolding vt by blast
  have ru: "ready u" "view u = view s" using ready_same [OF rt u(2)] u(2) vt by (simp_all add: same_def)
  let ?dels = "[[familyGroupPrefix @ g, familyGroupPlexPrefix @ PlexUsername fg]] @ map (\<lambda>m. [groupMemberPrefix @ gm_ID m]) (?load is) @
      [[groupMembersSetPrefix @ g]]"
  have cmds: "[DEL [familyGroupPrefix @ g, familyGroupPlexPrefix @ PlexUsername fg]] @
      map (\<lambda>m. DEL [groupMemberPrefix @ gm_ID m]) (?load is) @ [DEL [groupMembersSetPrefix @ g]] = map DEL ?dels" by simp
  obtain s' where s': "rc_pipe c (map DEL ?dels) u = (None, s')" "up s'" "view s' = fold redis_effect (map DEL ?dels) (view u)"
    using pipe_law [OF _ dels_typed, of u ?dels] ru(1) unfolding ready_def by blast
  have load: "m \<in> set (?load is) \<longleftrightarrow> (\<exists>i \<in> set is. member_at (view s) i = Inr (Some m))" for m
    by (auto split: sum.splits option.splits) force
  have v: "view s' = (\<lambda>k. if k \<in> {familyGroupPrefix @ g, familyGroupPlexPrefix @ PlexUsername fg, groupMembersSetPrefix @ g} \<union>
        {groupMemberPrefix @ gm_ID m | m i. i \<in> set is \<and> member_at (view s) i = Inr (Some m)} then None else view s k)"
    unfolding s'(3) dels ru(2) using load by (fastforce simp: fun_eq_iff simp del: set_concat)
  have "typed (view s')" unfolding v using assms(1) typed_del by (simp add: ready_def)
  then have "ready s'" using s'(2) by (simp add: ready_def)
  moreover have "Redis_DeleteFamilyGroup c g s = (None, s')"
    unfolding Redis_DeleteFamilyGroup_def t(1) by (simp only: prod.case sum.case option.case u(1) cmds s'(1))
  ultimately show ?thesis using u(3) v by blast
qed

lemma delete_group:
  assumes "up s" "typed (view s)" "fst (Redis_GetFamilyGroup c g s) = Inr (Some fg)"
    "fst (Redis_GetGroupMember c i s) = Inr (Some m)" "gm_ID m = i" "i \<in> set (set_at (view s) (groupMembersSetPrefix @ g))"
  shows "\<exists>s'. Redis_DeleteFamilyGroup c g s = (None, s') \<and> fst (Redis_GetFamilyGroup c g s') = Inr None \<and>
    fst (Redis_GetFamilyGroupByPlex c (PlexUsername fg) s') = Inr None \<and> fst (Redis_GetGroupMember c i s') = Inr None \<and>
    fst (Redis_ListGroupMembers c g s') = Inr []"
proof -
  have r: "ready s" using assms(1,2) by (simp add: ready_def)
  have g: "group_at (view s) g = Inr (Some fg)" using GetFamilyGroup_ready [OF r, of g] assms(3) by auto
  have m: "member_at (view s) i = Inr (Some m)" using GetGroupMember_ready [OF r, of i] assms(4) by auto
  obtain "is" s' where s': "Redis_DeleteFamilyGroup c g s = (None, s')" "ready s'" "set is = set (set_at (view s) (groupMembersSetPrefix @ g))"
    "view s' = (\<lambda>k. if k \<in> {familyGroupPrefix @ g, familyGroupPlexPrefix @ PlexUsername fg, groupMembersSetPrefix @ g} \<union>
        {groupMemberPrefix @ gm_ID m | m i. i \<in> set is \<and> member_at (view s) i = Inr (Some m)} then None else view s k)"
    using DeleteFamilyGroup_ready [OF r g] by blast
  have gone: "view s' (familyGroupPrefix @ g) = None" "view s' (familyGroupPlexPrefix @ PlexUsername fg) = None"
    "view s' (groupMembersSetPrefix @ g) = None" "view s' (groupMemberPrefix @ i) = None"
    using m assms(5,6) s'(3) by (auto simp: s'(4))
  then have "group_at (view s') g = Inr None" "plex_at (view s') (PlexUsername fg) = Inr None" "member_at (view s') i = Inr None"
    "set_at (view s') (groupMembersSetPrefix @ g) = []"
    by (simp_all add: group_at_def plex_at_def member_at_def str_at_def set_at_def)
  with s'(1) show ?thesis
    using GetFamilyGroup_ready [OF s'(2), of g] GetFamilyGroupByPlex_ready [OF s'(2), of "PlexUsername fg"]
      GetGroupMember_ready [OF s'(2), of i] ListGroupMembers_ready [OF s'(2), of g] by auto
qed

end

end
