(* ===== verification/Queue_Spec.thy ===== *)
theory Queue_Spec
  imports Stored_Json Postgres_Store "HOL-Library.Multiset"
begin

text \<open>
  What a scrobble queue is, without a store: for each user a list of events in the order of a
  key.  The specification of its operations is a relation, because the time of an attempt is
  the store's; a locale states that a store simulates it, and shows once that every sequence
  of operations then gives the results of the specification.  The Redis and the file store
  interpret it, each with its own key.
\<close>

type_synonym squeue = "string \<Rightarrow> QueuedScrobbleEvent list"

datatype qop =
    QEnqueue QueuedScrobbleEvent
  | QDequeue string nat
  | QDelete string
  | QRetry string int
  | QSize string
  | QPurge string
  | QUsers

datatype qres =
    QDone
  | QNotFound
  | QFailed err
  | QEvents "QueuedScrobbleEvent list"
  | QCount int
  | QNames "string list"

fun outcome :: "err option \<Rightarrow> qres" where
  "outcome None = QDone"
| "outcome (Some e) = QFailed e"

section \<open>Specification\<close>

definition ids :: "squeue \<Rightarrow> string set" where
  "ids q = (\<Union>u. ev_ID ` set (q u))"

text \<open>A full queue loses its first event to make room; an event is inserted in the order of the key.\<close>

definition spec_enqueue :: "(QueuedScrobbleEvent \<Rightarrow> 'k::linorder) \<Rightarrow> QueuedScrobbleEvent \<Rightarrow> squeue \<Rightarrow> squeue" where
  "spec_enqueue key ev q = (let u = ev_UserID ev in
     q(u := insort_key key ev (if int (length (q u)) \<ge> maxQueuePerUser then tl (q u) else q u)))"

definition spec_delete :: "string \<Rightarrow> squeue \<Rightarrow> squeue" where
  "spec_delete i q = (\<lambda>u. filter (\<lambda>ev. ev_ID ev \<noteq> i) (q u))"

definition spec_retry :: "(QueuedScrobbleEvent \<Rightarrow> 'k::linorder) \<Rightarrow> string \<Rightarrow> int \<Rightarrow> gotime \<Rightarrow> squeue \<Rightarrow> squeue" where
  "spec_retry key i n t q = (\<lambda>u. sort_key key (map (\<lambda>ev. if ev_ID ev = i then ev\<lparr>RetryCount := n, LastAttempt := t\<rparr> else ev) (q u)))"

inductive qspec :: "(QueuedScrobbleEvent \<Rightarrow> 'k::linorder) \<Rightarrow> qop \<Rightarrow> squeue \<Rightarrow> qres \<Rightarrow> squeue \<Rightarrow> bool" for key where
  enqueue: "qspec key (QEnqueue ev) q QDone (spec_enqueue key ev q)"
| dequeue: "qspec key (QDequeue u n) q (QEvents (take n (q u))) q"
| delete: "qspec key (QDelete i) q QDone (spec_delete i q)"
| retry: "i \<in> ids q \<Longrightarrow> qspec key (QRetry i n) q QDone (spec_retry key i n t q)"
| missing: "i \<notin> ids q \<Longrightarrow> qspec key (QRetry i n) q QNotFound q"
| size: "qspec key (QSize u) q (QCount (int (length (q u)))) q"
| purge: "qspec key (QPurge u) q (QCount (int (length (q u)))) (q(u := []))"
| users: "set us = {u. q u \<noteq> []} \<Longrightarrow> qspec key QUsers q (QNames us) q"

inductive_cases qspec_elims: "qspec key (QDequeue u n) q r q'" "qspec key (QSize u) q r q'" "qspec key (QEnqueue ev) q r q'"

text \<open>
  What is asked of the caller: events are complete and can be stored, identifiers are new, at
  least one event is asked for, and retry counts fit their type.  A store may ask more of names
  and identifiers (\<open>fits\<close>).
\<close>

fun op_ok :: "(qop \<Rightarrow> bool) \<Rightarrow> qop \<Rightarrow> squeue \<Rightarrow> bool" where
  "op_ok fits (QEnqueue ev) q = (fits (QEnqueue ev) \<and> event_wf ev \<and> event_storable ev \<and> ev_ID ev \<noteq> [] \<and> \<not> IsZero (ev_CreatedAt ev) \<and> ev_ID ev \<notin> ids q)"
| "op_ok fits (QDequeue u n) q = (fits (QDequeue u n) \<and> 0 < n)"
| "op_ok fits (QRetry i n) q = (fits (QRetry i n) \<and> in_int64 n)"
| "op_ok fits x q = fits x"

text \<open>Sequences: new identifiers are new to the queue and to each other.\<close>

fun new_id :: "qop \<Rightarrow> string set" where
  "new_id (QEnqueue ev) = {ev_ID ev}"
| "new_id _ = {}"

fun ops_ok :: "(qop \<Rightarrow> bool) \<Rightarrow> string set \<Rightarrow> qop list \<Rightarrow> bool" where
  "ops_ok fits used [] = True"
| "ops_ok fits used (x # xs) = (op_ok fits x (\<lambda>_. []) \<and> new_id x \<inter> used = {} \<and> ops_ok fits (used \<union> new_id x) xs)"

inductive qspec_run :: "(QueuedScrobbleEvent \<Rightarrow> 'k::linorder) \<Rightarrow> qop list \<Rightarrow> squeue \<Rightarrow> qres list \<Rightarrow> squeue \<Rightarrow> bool" for key where
  run_nil: "qspec_run key [] q [] q"
| run_cons: "qspec key x q r q1 \<Longrightarrow> qspec_run key xs q1 rs q2 \<Longrightarrow> qspec_run key (x # xs) q (r # rs) q2"

lemma qspec_ids: "qspec key x q r q' \<Longrightarrow> ids q' \<subseteq> ids q \<union> new_id x"
proof (induction rule: qspec.induct)
  case (enqueue ev q)
  have "set (tl (q u)) \<subseteq> set (q u)" for u by (cases "q u") auto
  then have "set (spec_enqueue key ev q u) \<subseteq> insert ev (set (q u))" for u
    by (auto simp: spec_enqueue_def Let_def set_insort_key split: if_splits)
  then show ?case unfolding ids_def by (simp add: UN_subset_iff) blast
next
  case (retry i q n t)
  show ?case by (auto simp: ids_def spec_retry_def split: if_splits)
qed (auto simp: ids_def spec_delete_def split: if_splits)

lemma op_ok_used: "op_ok fits x (\<lambda>_. []) \<Longrightarrow> new_id x \<inter> used = {} \<Longrightarrow> ids q \<subseteq> used \<Longrightarrow> op_ok fits x q"
  by (cases x) auto

section \<open>Well-formed queues\<close>

text \<open>The document of an event that can be stored, and the event of the document.\<close>

definition event_text :: "QueuedScrobbleEvent \<Rightarrow> string" where
  "event_text ev = (case serializeEvent ev of Inr d \<Rightarrow> d | Inl _ \<Rightarrow> [])"

lemma event_text_storable: "event_storable ev \<Longrightarrow> serializeEvent ev = Inr (event_text ev) \<and> deserializeEvent (event_text ev) = DecOk ev"
  using event_roundtrip [of ev] by (auto simp: event_text_def)

lemma event_text_inj: "event_storable a \<Longrightarrow> event_storable b \<Longrightarrow> event_text a = event_text b \<longleftrightarrow> a = b"
  using event_text_storable by (metis decoded.inject)

text \<open>Every event can be stored and lies in the queue of its user, and identifiers are unique.\<close>

definition events_ok :: "squeue \<Rightarrow> bool" where
  "events_ok q \<longleftrightarrow> (\<forall>u. \<forall>ev \<in> set (q u). event_storable ev \<and> ev_UserID ev = u \<and> u \<noteq> []) \<and>
     (\<forall>u. distinct (map ev_ID (q u))) \<and> (\<forall>u v. u \<noteq> v \<longrightarrow> ev_ID ` set (q u) \<inter> ev_ID ` set (q v) = {})"

lemma events_ok_sub: "events_ok q \<Longrightarrow> (\<And>u. set (p u) \<subseteq> set (q u)) \<Longrightarrow> (\<And>u. distinct (map ev_ID (p u))) \<Longrightarrow> events_ok p"
  unfolding events_ok_def by (meson disjoint_iff image_mono in_mono)

lemma events_ok_fields:
  assumes "events_ok q" "ev \<in> set (q u)"
  shows "event_storable ev" "ev_UserID ev = u" "u \<noteq> []"
  using assms by (auto simp: events_ok_def)

lemma ids_mono: "(\<And>u. set (p u) \<subseteq> set (q u)) \<Longrightarrow> ids p \<subseteq> ids q"
  unfolding ids_def by (intro UN_mono image_mono) auto

lemma ids_unique:
  assumes "events_ok q" "a \<in> set (q u)" "b \<in> set (q v)" "ev_ID a = ev_ID b"
  shows "u = v \<and> a = b"
proof -
  have "ev_ID ` set (q u) \<inter> ev_ID ` set (q v) \<noteq> {}" using assms(2-4) by auto
  then have "u = v" using assms(1) unfolding events_ok_def by blast
  moreover have "inj_on ev_ID (set (q u))" using assms(1) by (simp add: events_ok_def distinct_map)
  ultimately show ?thesis using assms(2-4) by (auto dest: inj_onD)
qed

lemma distinct_map_insort: "distinct (map f (insort_key k x xs)) \<longleftrightarrow> f x \<notin> f ` set xs \<and> distinct (map f xs)"
  by (induction xs) (auto simp: set_insort_key)

lemma events_ok_insort:
  assumes "events_ok q" "event_storable ev" "ev_UserID ev \<noteq> []" "ev_ID ev \<notin> ids q"
  shows "events_ok (q(ev_UserID ev := insort_key key ev (q (ev_UserID ev))))"
  unfolding events_ok_def
proof (intro conjI allI)
  fix u v
  have new: "ev_ID ev \<notin> ev_ID ` set (q w)" for w using assms(4) by (auto simp: ids_def)
  show "\<forall>e \<in> set ((q(ev_UserID ev := insort_key key ev (q (ev_UserID ev)))) u). event_storable e \<and> ev_UserID e = u \<and> u \<noteq> []"
    using assms(1-3) by (auto simp: events_ok_def set_insort_key)
  show "distinct (map ev_ID ((q(ev_UserID ev := insort_key key ev (q (ev_UserID ev)))) u))"
    using assms(1) new by (simp add: events_ok_def distinct_map_insort)
  show "u \<noteq> v \<longrightarrow> ev_ID ` set ((q(ev_UserID ev := insort_key key ev (q (ev_UserID ev)))) u) \<inter>
      ev_ID ` set ((q(ev_UserID ev := insort_key key ev (q (ev_UserID ev)))) v) = {}"
    using assms(1) new by (simp add: events_ok_def set_insort_key)
qed

lemma events_ok_filter: "events_ok q \<Longrightarrow> events_ok (q(u := filter P (q u)))"
  by (rule events_ok_sub) (auto simp: events_ok_def distinct_map_filter)

lemma spec_delete_none: "i \<notin> ids q \<Longrightarrow> spec_delete i q = q"
  by (force simp: spec_delete_def ids_def fun_eq_iff filter_id_conv)

lemma spec_delete_one:
  assumes "events_ok q" "ev \<in> set (q u)" "ev_ID ev = i"
  shows "spec_delete i q = q(u := filter (\<lambda>e. e \<noteq> ev) (q u))"
proof
  fix v
  have "ev_ID e = i \<longleftrightarrow> v = u \<and> e = ev" if "e \<in> set (q v)" for e
    using ids_unique [OF assms(1) that assms(2)] assms(3) by auto
  then show "spec_delete i q v = (q(u := filter (\<lambda>e. e \<noteq> ev) (q u))) v"
    by (auto simp: spec_delete_def filter_id_conv intro: filter_cong)
qed

text \<open>Replacing one event in an ordered list is removing it and inserting the new one.\<close>

lemma replace_sorted:
  assumes "sorted (map key xs)" "distinct xs" "x \<in> set xs" "inj_on key (insert y (set xs - {x}))"
  shows "sort_key key (map (\<lambda>e. if e = x then y else e) xs) = insort_key key y (filter (\<lambda>e. e \<noteq> x) xs)"
proof (rule sort_key_inj_key_eq)
  let ?f = "\<lambda>e. if e = x then y else e"
  have "mset (map ?f xs) = image_mset ?f (mset (x # remove1 x xs))" using assms(3) by (simp flip: image_mset_add_mset)
  also have "\<dots> = mset (map ?f (x # remove1 x xs))" by simp
  also have "map ?f (remove1 x xs) = remove1 x xs" using assms(2) by (intro map_idI) auto
  then have "map ?f (x # remove1 x xs) = y # remove1 x xs" by simp
  finally show "mset (map (\<lambda>e. if e = x then y else e) xs) = mset (insort_key key y (filter (\<lambda>e. e \<noteq> x) xs))"
    using distinct_remove1_removeAll [OF assms(2), of x] by (simp add: removeAll_filter_not_eq neq_commute)
  show "inj_on key (set (map (\<lambda>e. if e = x then y else e) xs))"
    using assms(4) by (rule inj_on_subset) auto
  show "sorted (map key (insort_key key y (filter (\<lambda>e. e \<noteq> x) xs)))"
    using sorted_filter [OF assms(1)] by (simp add: sorted_insort_key)
qed

lemma spec_retry_one:
  assumes "events_ok q" "ev \<in> set (q u)" "ev_ID ev = i" "\<And>v. sorted (map key (q v))"
    "inj_on key (insert (ev\<lparr>RetryCount := n, LastAttempt := t\<rparr>) (set (q u) - {ev}))"
  shows "spec_retry key i n t q = q(u := insort_key key (ev\<lparr>RetryCount := n, LastAttempt := t\<rparr>) (filter (\<lambda>e. e \<noteq> ev) (q u)))"
proof
  fix v
  let ?ev = "ev\<lparr>RetryCount := n, LastAttempt := t\<rparr>"
  have one: "ev_ID e = i \<longleftrightarrow> v = u \<and> e = ev" if "e \<in> set (q v)" for e
    using ids_unique [OF assms(1) that assms(2)] assms(3) by auto
  show "spec_retry key i n t q v = (q(u := insort_key key ?ev (filter (\<lambda>e. e \<noteq> ev) (q u)))) v"
  proof (cases "v = u")
    case True
    have "distinct (q u)" using assms(1) by (simp add: events_ok_def distinct_map)
    moreover have "map (\<lambda>e. if ev_ID e = i then e\<lparr>RetryCount := n, LastAttempt := t\<rparr> else e) (q v) =
        map (\<lambda>e. if e = ev then ?ev else e) (q v)"
      using one True by (intro map_cong) auto
    ultimately show ?thesis unfolding spec_retry_def using replace_sorted [OF assms(4) _ assms(2,5)] True by (simp only: fun_upd_same)
  next
    case False
    then have "map (\<lambda>e. if ev_ID e = i then e\<lparr>RetryCount := n, LastAttempt := t\<rparr> else e) (q v) = q v"
      using one by (intro map_idI) auto
    then show ?thesis using False assms(4) by (simp add: spec_retry_def sort_key_id_if_sorted)
  qed
qed

section \<open>Stores that simulate it\<close>

locale queue_store =
  fixes run :: "qop \<Rightarrow> 's \<Rightarrow> (qres \<times> 's) option"
    and sim :: "'s \<Rightarrow> squeue \<Rightarrow> bool"
    and key :: "QueuedScrobbleEvent \<Rightarrow> 'k::linorder"
    and fits :: "qop \<Rightarrow> bool"
  assumes step: "sim s q \<Longrightarrow> op_ok fits x q \<Longrightarrow> \<exists>r s' q'. run x s = Some (r, s') \<and> qspec key x q r q' \<and> sim s' q'"

text \<open>A sequence of operations and its results.\<close>

fun run_ops :: "(qop \<Rightarrow> 's \<Rightarrow> (qres \<times> 's) option) \<Rightarrow> qop list \<Rightarrow> 's \<Rightarrow> (qres list \<times> 's) option" where
  "run_ops run [] s = Some ([], s)"
| "run_ops run (x # xs) s = (case run x s of
     None \<Rightarrow> None
   | Some (r, s') \<Rightarrow> map_option (apfst (Cons r)) (run_ops run xs s'))"

context queue_store
begin

lemma run_ops_refines:
  "sim s q \<Longrightarrow> ids q \<subseteq> used \<Longrightarrow> ops_ok fits used xs \<Longrightarrow>
    \<exists>rs s' q'. run_ops run xs s = Some (rs, s') \<and> qspec_run key xs q rs q' \<and> sim s' q'"
proof (induction xs arbitrary: s q used)
  case Nil
  then show ?case by (auto intro: run_nil)
next
  case (Cons x xs)
  then obtain r s1 q1 where one: "run x s = Some (r, s1)" "qspec key x q r q1" "sim s1 q1"
    using step [of s q x] op_ok_used by fastforce
  have "ids q1 \<subseteq> used \<union> new_id x" using qspec_ids [OF one(2)] Cons.prems(2) by blast
  with Cons.IH [OF one(3), of "used \<union> new_id x"] Cons.prems(3) obtain rs s' q' where
    "run_ops run xs s1 = Some (rs, s')" "qspec_run key xs q1 rs q'" "sim s' q'" by auto
  with one show ?case by (auto intro: run_cons)
qed

end

end
