(* ===== verification/Redis_Queue.thy ===== *)
theory Redis_Queue
  imports Redis_Laws Queue_Spec
begin

text \<open>
  The scrobble queue of the Redis store: on a working server every operation behaves as the
  specification of \<open>Queue_Spec\<close> says, with the events of a user ordered by the second they were
  created in and, within a second, by the bytes of their document.
\<close>

section \<open>Order and representation\<close>

definition rkey :: "QueuedScrobbleEvent \<Rightarrow> rat \<times> string" where
  "rkey ev = (f64 (Unix (ev_CreatedAt ev)), event_text ev)"

text \<open>The key space holds a queue: each user's events, in order, under the user's key.\<close>

definition holds :: "keyspace \<Rightarrow> squeue \<Rightarrow> bool" where
  "holds m q \<longleftrightarrow> typed m \<and> (\<forall>u. zset_at m (queueKeyPrefix @ u) = map rkey (q u)) \<and> (\<forall>u. sorted (map rkey (q u))) \<and>
     (\<forall>k t. m k \<noteq> Some (RZSet [], t)) \<and> events_ok q"

lemma rkey_inj: "event_storable a \<Longrightarrow> event_storable b \<Longrightarrow> rkey a = rkey b \<Longrightarrow> a = b"
  by (simp add: rkey_def event_text_inj)

lemma decode_events_stored: "\<forall>ev \<in> set evs. event_storable ev \<Longrightarrow> decode_events (map (snd \<circ> rkey) evs) = Some evs"
  by (induction evs) (simp_all add: rkey_def event_text_storable)

lemma find_member_stored:
  "\<forall>ev \<in> set evs. event_storable ev \<Longrightarrow> find_member i (map rkey evs) =
     Some (map_option (\<lambda>ev. (fst (rkey ev), event_text ev, ev)) (find (\<lambda>ev. ev_ID ev = i) evs))"
  by (induction evs) (auto simp: rkey_def event_text_storable)

lemma zset_at_put: "zset_at (put_zset k z m) k' = (if k' = k then z else zset_at m k')"
  by (simp add: zset_at_def put_zset_def)

lemma put_zset_clean: "\<forall>k t. m k \<noteq> Some (RZSet [], t) \<Longrightarrow> put_zset k z m k' \<noteq> Some (RZSet [], t)"
  by (auto simp: put_zset_def)

lemma typed_put_zset: "typed m \<Longrightarrow> typed (put_zset (queueKeyPrefix @ u) z m)"
  unfolding put_zset_def by (rule typed_upd) (auto split: if_splits)

text \<open>Writing one user's sorted set.\<close>

lemma holds_put:
  assumes "holds m q" "z = map rkey evs" "sorted (map rkey evs)" "events_ok (q(u := evs))"
  shows "holds (put_zset (queueKeyPrefix @ u) z m) (q(u := evs))"
  using assms by (simp add: holds_def zset_at_put put_zset_clean typed_put_zset)

lemma zremove_stored:
  assumes "\<forall>e \<in> set evs. event_storable e" "event_storable ev"
  shows "zremove (event_text ev) (map rkey evs) = map rkey (filter (\<lambda>e. e \<noteq> ev) evs)"
proof -
  have "filter (\<lambda>e. event_text e \<noteq> event_text ev) evs = filter (\<lambda>e. e \<noteq> ev) evs"
    using assms by (intro filter_cong) (auto simp: event_text_inj)
  then show ?thesis by (simp add: zremove_def filter_map rkey_def comp_def split_def)
qed

lemma insort_rkey: "insort (rkey ev) (map rkey evs) = map rkey (insort_key rkey ev evs)"
  by (induction evs) auto

section \<open>Reading\<close>

context redis_server
begin

lemma GetQueueSize_holds:
  assumes "up s" "holds (view s) q"
  shows "\<exists>s'. Redis_GetQueueSize c u s = (Inr (int (length (q u))), s') \<and> same s s'"
proof -
  have "at_type is_RZSet (view s) (queueKeyPrefix @ u)" using assms(2) typed_keys(4) by (simp add: holds_def)
  with do_law [OF assms(1), of "ZCARD (queueKeyPrefix @ u)"] assms(2) show ?thesis
    by (auto simp: Redis_GetQueueSize_def same_def holds_def)
qed

lemma zrange_first: "0 < n \<Longrightarrow> zrange 0 (int n - 1) z = take n z" "zrange 0 (- 1) z = z"
  by (auto simp: zrange_def Let_def)

lemma DequeueScrobbles_holds:
  assumes "up s" "holds (view s) q" "0 < n"
  shows "\<exists>s'. Redis_DequeueScrobbles c u (int n) s = Some (Inr (take n (q u)), s') \<and> same s s'"
proof -
  have ty: "at_type is_RZSet (view s) (queueKeyPrefix @ u)" using assms(2) typed_keys(4) by (simp add: holds_def)
  obtain s' where s': "rc_do c (ZRANGE (queueKeyPrefix @ u) 0 (int n - 1)) s = (Inr (Scored (take n (map rkey (q u)))), s')" "same s s'"
    using do_law [OF assms(1), of "ZRANGE (queueKeyPrefix @ u) 0 (int n - 1)"] ty assms(2,3)
    by (auto simp: zrange_first same_def holds_def)
  have "decode_events (map snd (take n (map rkey (q u)))) = Some (take n (q u))"
  proof -
    have "\<forall>ev \<in> set (take n (q u)). event_storable ev"
      using assms(2) unfolding holds_def events_ok_def by (meson in_set_takeD)
    from decode_events_stored [OF this] show ?thesis by (simp add: take_map)
  qed
  with s' show ?thesis by (simp add: Redis_DequeueScrobbles_def)
qed

lemma scan_keys_all:
  "up s \<Longrightarrow> \<exists>ks' s'. scan_keys c p cur ks s = Some (Inr ks', s') \<and> same s s' \<and> set ks \<union> todo s p cur \<subseteq> set ks' \<and>
    set ks' \<subseteq> set ks \<union> keys_with p (view s)"
proof (induction "rank s p cur" arbitrary: s cur ks rule: less_induct)
  case less
  obtain page cur' t where t: "rc_do c (SCAN cur p) s = (Inr (Page page cur'), t)" "same s t" "set page \<subseteq> keys_with p (view s)"
    using do_law [OF less.prems, of "SCAN cur p"] by (auto simp: same_def)
  note law = scan_law [OF less.prems t(1)]
  show ?case
  proof (cases "cur' = 0")
    case True
    then show ?thesis using t law by (subst scan_keys.simps) (auto simp: ask_def)
  next
    case False
    have v: "up t" "view t = view s" using t(2) by (simp_all add: same_def)
    have todo: "todo s p cur \<subseteq> set page \<union> todo t p cur'" using law False by simp
    from less.hyps [of t cur' "ks @ page"] law False v obtain ks' s' where
      ks': "scan_keys c p cur' (ks @ page) t = Some (Inr ks', s')" "same t s'" "set (ks @ page) \<union> todo t p cur' \<subseteq> set ks'"
      "set ks' \<subseteq> set (ks @ page) \<union> keys_with p (view t)" by auto
    have "scan_keys c p cur ks s = Some (Inr ks', s')"
      using t(1) ks'(1) False by (subst scan_keys.simps) (simp add: ask_def)
    moreover have "set ks \<union> todo s p cur \<subseteq> set ks'" using todo ks'(3) by auto
    moreover have "set ks' \<subseteq> set ks \<union> keys_with p (view s)" using ks'(4) t(3) v by auto
    ultimately show ?thesis using same_trans [OF t(2) ks'(2)] by blast
  qed
qed

lemma queue_keys:
  assumes "holds m q"
  shows "keys_with queueKeyPrefix m = (\<lambda>u. queueKeyPrefix @ u) ` {u. q u \<noteq> []}"
proof -
  have "m (queueKeyPrefix @ u) \<noteq> None \<longleftrightarrow> q u \<noteq> []" for u
  proof -
    have z: "zset_at m (queueKeyPrefix @ u) = map rkey (q u)" using assms by (simp add: holds_def)
    have "at_type is_RZSet m (queueKeyPrefix @ u)" using assms typed_keys(4) by (simp add: holds_def)
    moreover have "m (queueKeyPrefix @ u) \<noteq> Some (RZSet [], t)" for t using assms by (simp add: holds_def)
    ultimately show ?thesis using z by (cases "m (queueKeyPrefix @ u)") (fastforce simp: at_type_def zset_at_def is_RZSet_def)+
  qed
  then show ?thesis by (auto simp: keys_with_def HasPrefix_iff)
qed

lemma scan_queues:
  assumes "up s" "holds (view s) q"
  shows "\<exists>us s'. scan_keys c queueKeyPrefix 0 [] s = Some (Inr (map (\<lambda>u. queueKeyPrefix @ u) us), s') \<and> same s s' \<and> set us = {u. q u \<noteq> []}"
proof -
  obtain ks s' where ks: "scan_keys c queueKeyPrefix 0 [] s = Some (Inr ks, s')" "same s s'" "set ks = (\<lambda>u. queueKeyPrefix @ u) ` {u. q u \<noteq> []}"
    using scan_keys_all [OF assms(1), of queueKeyPrefix 0 "[]"] scan_start [OF assms(1)] queue_keys [OF assms(2)] by auto
  have "map (\<lambda>u. queueKeyPrefix @ u) (map (drop (length queueKeyPrefix)) ks) = ks"
    unfolding map_map using ks(3) by (intro map_idI) auto
  moreover have "set (map (drop (length queueKeyPrefix)) ks) = {u. q u \<noteq> []}" using ks(3) by (auto simp: image_image)
  ultimately show ?thesis using ks(1,2) by metis
qed

end

section \<open>Writing\<close>

lemma holds_fields:
  assumes "holds m q"
  shows "zset_at m (queueKeyPrefix @ u) = map rkey (q u)" "at_type is_RZSet m (queueKeyPrefix @ u)" "typed m" "events_ok q"
    "sorted (map rkey (q u))"
  using assms typed_keys(4) by (simp_all add: holds_def)

lemma holds_add:
  assumes "holds m q" "event_storable ev" "ev_UserID ev \<noteq> []" "ev_ID ev \<notin> ids q"
  shows "holds (redis_effect (ZADD (queueKeyPrefix @ ev_UserID ev) (fst (rkey ev)) (event_text ev)) m)
    (q(ev_UserID ev := insort_key rkey ev (q (ev_UserID ev))))"
proof -
  let ?u = "ev_UserID ev"
  have "ev \<notin> set (q ?u)" using assms(4) by (auto simp: ids_def)
  then have "filter (\<lambda>e. e \<noteq> ev) (q ?u) = q ?u" by (auto simp: filter_id_conv)
  moreover have "\<forall>e \<in> set (q ?u). event_storable e" using holds_fields(4) [OF assms(1)] by (auto simp: events_ok_def)
  ultimately have "zinsert (fst (rkey ev)) (event_text ev) (zset_at m (queueKeyPrefix @ ?u)) = map rkey (insort_key rkey ev (q ?u))"
    using insort_rkey [of ev "q ?u"] assms(2)
    by (simp add: zinsert_def holds_fields(1) [OF assms(1)] zremove_stored) (simp add: rkey_def)
  moreover have "sorted (map rkey (insort_key rkey ev (q ?u)))" using holds_fields(5) [OF assms(1)] by (simp add: sorted_insort_key)
  ultimately show ?thesis
    using holds_put [OF assms(1)] events_ok_insort [where key = rkey, OF holds_fields(4) [OF assms(1)] assms(2-4)] by simp
qed

lemma holds_pop:
  assumes "holds m q"
  shows "holds (redis_effect (ZPOPMIN (queueKeyPrefix @ u)) m) (q(u := tl (q u)))"
proof -
  have d: "distinct (map ev_ID (q v))" for v using holds_fields(4) [OF assms] by (simp add: events_ok_def)
  have "distinct (map ev_ID (tl (q u)))" "set (tl (q u)) \<subseteq> set (q u)" using d [of u] by (cases "q u"; auto)+
  then have "events_ok (q(u := tl (q u)))" using events_ok_sub [OF holds_fields(4) [OF assms], of "q(u := tl (q u))"] d by simp
  moreover have "sorted (map rkey (tl (q u)))" using holds_fields(5) [OF assms, of u] by (cases "q u") auto
  ultimately show ?thesis
    using holds_put [OF assms, of "drop 1 (map rkey (q u))" "tl (q u)" u] holds_fields(1) [OF assms]
    by (simp add: drop_map drop_Suc)
qed

lemma event_storable_all: "events_ok q \<Longrightarrow> \<forall>e \<in> set (q u). event_storable e"
  by (auto simp: events_ok_def)

lemma holds_remove:
  assumes "holds m q" "ev \<in> set (q u)"
  shows "holds (redis_effect (ZREM (queueKeyPrefix @ u) (event_text ev)) m) (q(u := filter (\<lambda>e. e \<noteq> ev) (q u)))"
proof -
  note ok = holds_fields(4) [OF assms(1)]
  have "zremove (event_text ev) (zset_at m (queueKeyPrefix @ u)) = map rkey (filter (\<lambda>e. e \<noteq> ev) (q u))"
    using zremove_stored [OF event_storable_all [OF ok] events_ok_fields(1) [OF ok assms(2)]] holds_fields(1) [OF assms(1)] by simp
  moreover have "sorted (map rkey (filter (\<lambda>e. e \<noteq> ev) (q u)))" using holds_fields(5) [OF assms(1)] by (rule sorted_filter)
  ultimately show ?thesis using holds_put [OF assms(1)] events_ok_filter [OF ok] by simp
qed

lemma holds_replace:
  fixes n t
  defines "new ev \<equiv> ev\<lparr>RetryCount := n, LastAttempt := t\<rparr>"
  assumes "holds m q" "ev \<in> set (q u)" "event_storable (new ev)"
  shows "holds (redis_effect (ZADD (queueKeyPrefix @ u) (fst (rkey ev)) (event_text (new ev)))
      (redis_effect (ZREM (queueKeyPrefix @ u) (event_text ev)) m)) (spec_retry rkey (ev_ID ev) n t q)"
proof -
  note ok = holds_fields(4) [OF assms(2)]
  let ?q = "q(u := filter (\<lambda>e. e \<noteq> ev) (q u))"
  note uid = events_ok_fields(2,3) [OF ok assms(3)]
  have "ev_ID (new ev) \<notin> ids ?q"
    using ids_unique [OF ok _ assms(3)] by (auto simp: ids_def new_def split: if_splits)
  from holds_add [OF holds_remove [OF assms(2,3)] assms(4) _ this] uid
  have "holds (redis_effect (ZADD (queueKeyPrefix @ u) (fst (rkey ev)) (event_text (new ev)))
      (redis_effect (ZREM (queueKeyPrefix @ u) (event_text ev)) m)) (q(u := insort_key rkey (new ev) (filter (\<lambda>e. e \<noteq> ev) (q u))))"
    by (simp add: new_def rkey_def del: redis_effect.simps)
  moreover have "inj_on rkey (insert (new ev) (set (q u) - {ev}))"
    using event_storable_all [OF ok, of u] assms(4) by (intro inj_onI rkey_inj) auto
  ultimately show ?thesis
    using spec_retry_one [where n = n and t = t, OF ok assms(3) refl holds_fields(5) [OF assms(2)]] by (simp add: new_def del: redis_effect.simps)
qed

context redis_server
begin

lemma enqueue_checked_holds:
  assumes "up (rd st)" "holds (view (rd st)) q" "event_storable ev" "ev_UserID ev \<noteq> []" "ev_ID ev \<notin> ids q"
  shows "\<exists>s'. redis_enqueue_checked c ev st = Some (None, st\<lparr>rd := s'\<rparr>) \<and> up s' \<and> holds (view s') (spec_enqueue rkey ev q)"
proof -
  let ?u = "ev_UserID ev" and ?full = "int (length (q (ev_UserID ev))) \<ge> maxQueuePerUser"
  let ?q = "q(?u := if ?full then tl (q ?u) else q ?u)"
  obtain t where t: "Redis_GetQueueSize c ?u (rd st) = (Inr (int (length (q ?u))), t)" "same (rd st) t"
    using GetQueueSize_holds [OF assms(1,2)] by blast
  then have ut: "up t" "holds (view t) q" using assms(2) by (simp_all add: same_def)
  define v where "v = (if ?full then snd (rc_do c (ZPOPMIN (queueKeyPrefix @ ?u)) t) else t)"
  have v: "up v" "holds (view v) ?q"
    using do_law [OF ut(1), of "ZPOPMIN (queueKeyPrefix @ ?u)"] holds_fields(2) [OF ut(2)] holds_pop [OF ut(2), of ?u] ut
    by (auto simp: v_def simp del: redis_effect.simps)
  have "ids ?q \<subseteq> ids q" by (rule ids_mono) (cases "q ?u"; auto)
  then have new: "ev_ID ev \<notin> ids ?q" using assms(5) by blast
  let ?cmd = "ZADD (queueKeyPrefix @ ?u) (fst (rkey ev)) (event_text ev)"
  obtain r s' where s': "rc_do c ?cmd v = (Inr r, s')" "up s'" "view s' = redis_effect ?cmd (view v)"
    using do_law [OF v(1), of ?cmd] holds_fields(2) [OF v(2)] by auto
  have "holds (view s') (spec_enqueue rkey ev q)"
    using holds_add [OF v(2) assms(3,4) new] unfolding s'(3) by (simp add: spec_enqueue_def Let_def del: redis_effect.simps)
  moreover have "redis_enqueue_checked c ev st = Some (None, st\<lparr>rd := s'\<rparr>)"
    using event_text_storable [OF assms(3)] t(1) s'(1)
    by (simp add: redis_enqueue_checked_def Let_def rkey_def flip: v_def)
  ultimately show ?thesis using s'(2) by blast
qed

lemma Enqueue_holds:
  assumes "up (rd st)" "holds (view (rd st)) q" "op_ok fits (QEnqueue ev) q" "rd_buffers st (ev_UserID ev) = None"
  shows "\<exists>s'. Redis_EnqueueScrobble (Suc n) c ev st = Some (None, st\<lparr>rd := s'\<rparr>) \<and> up s' \<and> holds (view s') (spec_enqueue rkey ev q)"
proof -
  have ev: "event_wf ev" "event_storable ev" "ev_ID ev \<noteq> []" "ev_CreatedAt ev \<noteq> 0" "ev_ID ev \<notin> ids q" "ev_UserID ev \<noteq> []"
    using assms(3) by (simp_all add: event_wf_def)
  obtain s' where "redis_enqueue_checked c ev st = Some (None, st\<lparr>rd := s'\<rparr>)" "up s'" "holds (view s') (spec_enqueue rkey ev q)"
    using enqueue_checked_holds [OF assms(1,2) ev(2,6,5)] by blast
  moreover have "validateEvent ev = None" using ev(1) by (simp add: validateEvent_ok)
  ultimately show ?thesis using ev(3,4) assms(4) by (auto simp: redis_flush_def)
qed

lemma find_queued_holds:
  assumes "holds m q"
  shows "up s \<Longrightarrow> view s = m \<Longrightarrow> \<exists>s'. same s s' \<and>
    (i \<notin> ids q \<longrightarrow> find_queued c i (map (\<lambda>u. queueKeyPrefix @ u) us) s = Some (None, s')) \<and>
    (\<forall>u ev. u \<in> set us \<longrightarrow> ev \<in> set (q u) \<longrightarrow> ev_ID ev = i \<longrightarrow>
      find_queued c i (map (\<lambda>u. queueKeyPrefix @ u) us) s = Some (Some (queueKeyPrefix @ u, fst (rkey ev), event_text ev, ev), s'))"
proof (induction us arbitrary: s)
  case Nil
  then show ?case by (auto simp: same_def)
next
  case (Cons v us)
  note ok = holds_fields(4) [OF assms]
  have st: "\<forall>ev \<in> set (q v). event_storable ev" using events_ok_fields(1) [OF ok] by blast
  obtain t where t: "ask as_scored c (ZRANGE (queueKeyPrefix @ v) 0 (-1)) s = (Inr (map rkey (q v)), t)" "same s t"
    using do_law [OF Cons.prems(1), of "ZRANGE (queueKeyPrefix @ v) 0 (-1)"] holds_fields(1,2) [OF assms] Cons.prems(2)
    by (auto simp: ask_def same_def zrange_first)
  obtain s' where s': "same t s'" "i \<notin> ids q \<longrightarrow> find_queued c i (map (\<lambda>u. queueKeyPrefix @ u) us) t = Some (None, s')"
    "\<forall>u ev. u \<in> set us \<longrightarrow> ev \<in> set (q u) \<longrightarrow> ev_ID ev = i \<longrightarrow>
      find_queued c i (map (\<lambda>u. queueKeyPrefix @ u) us) t = Some (Some (queueKeyPrefix @ u, fst (rkey ev), event_text ev, ev), s')"
    using Cons.IH [of t] t(2) Cons.prems(2) by (auto simp: same_def)
  show ?case
  proof (cases "find (\<lambda>ev. ev_ID ev = i) (q v)")
    case None
    then have "find_queued c i (map (\<lambda>u. queueKeyPrefix @ u) (v # us)) s = find_queued c i (map (\<lambda>u. queueKeyPrefix @ u) us) t"
      using t(1) find_member_stored [OF st, of i] by simp
    moreover have "\<not> (ev \<in> set (q v) \<and> ev_ID ev = i)" for ev using None by (auto simp: find_None_iff)
    ultimately show ?thesis using s' same_trans [OF t(2) s'(1)] by (intro exI [of _ s']) auto
  next
    case (Some e)
    then have e: "e \<in> set (q v)" "ev_ID e = i" by (auto dest: find_SomeD)
    have unique: "u = v" "ev = e" if "ev \<in> set (q u)" "ev_ID ev = i" for u ev
      using ids_unique [OF ok that(1) e(1)] that(2) e(2) by simp_all
    have found: "find_queued c i (map (\<lambda>u. queueKeyPrefix @ u) (v # us)) s = Some (Some (queueKeyPrefix @ v, fst (rkey e), event_text e, e), t)"
      using t(1) find_member_stored [OF st, of i] Some by simp
    have "i \<in> ids q" using e by (auto simp: ids_def)
    show ?thesis
    proof (intro exI [of _ t] conjI impI allI)
      fix u ev
      assume "ev \<in> set (q u)" "ev_ID ev = i"
      with unique [OF this] found
      show "find_queued c i (map (\<lambda>u. queueKeyPrefix @ u) (v # us)) s = Some (Some (queueKeyPrefix @ u, fst (rkey ev), event_text ev, ev), t)"
        by simp
    qed (use t(2) \<open>i \<in> ids q\<close> in simp_all)
  qed
qed

lemma scan_find:
  assumes "up s" "holds (view s) q"
  shows "\<exists>ks s' s''. scan_keys c queueKeyPrefix 0 [] s = Some (Inr ks, s') \<and> same s s'' \<and>
    (i \<notin> ids q \<longrightarrow> find_queued c i ks s' = Some (None, s'')) \<and>
    (\<forall>u ev. ev \<in> set (q u) \<longrightarrow> ev_ID ev = i \<longrightarrow>
      find_queued c i ks s' = Some (Some (queueKeyPrefix @ u, fst (rkey ev), event_text ev, ev), s''))"
proof -
  obtain us s' where s': "scan_keys c queueKeyPrefix 0 [] s = Some (Inr (map (\<lambda>u. queueKeyPrefix @ u) us), s')" "same s s'"
    "set us = {u. q u \<noteq> []}"
    using scan_queues [OF assms] by blast
  have v: "up s'" "view s' = view s" using s'(2) by (simp_all add: same_def)
  have "u \<in> set us" if "ev \<in> set (q u)" for u ev unfolding s'(3) using length_pos_if_in_set [OF that] by simp
  with find_queued_holds [OF assms(2) v, of i us] obtain s'' where "same s' s''"
    "i \<notin> ids q \<longrightarrow> find_queued c i (map (\<lambda>u. queueKeyPrefix @ u) us) s' = Some (None, s'')"
    "\<forall>u ev. ev \<in> set (q u) \<longrightarrow> ev_ID ev = i \<longrightarrow>
      find_queued c i (map (\<lambda>u. queueKeyPrefix @ u) us) s' = Some (Some (queueKeyPrefix @ u, fst (rkey ev), event_text ev, ev), s'')" by metis
  with s'(1) same_trans [OF s'(2)] show ?thesis by (intro exI conjI) auto
qed

lemma Delete_holds:
  assumes "up s" "holds (view s) q"
  shows "\<exists>s'. Redis_DeleteQueuedScrobble c i s = Some (None, s') \<and> up s' \<and> holds (view s') (spec_delete i q)"
proof -
  obtain ks s' s'' where s: "scan_keys c queueKeyPrefix 0 [] s = Some (Inr ks, s')" "same s s''"
    "i \<notin> ids q \<longrightarrow> find_queued c i ks s' = Some (None, s'')"
    "\<forall>u ev. ev \<in> set (q u) \<longrightarrow> ev_ID ev = i \<longrightarrow>
      find_queued c i ks s' = Some (Some (queueKeyPrefix @ u, fst (rkey ev), event_text ev, ev), s'')"
    using scan_find [OF assms] by blast
  then have v: "up s''" "holds (view s'') q" using assms(2) by (simp_all add: same_def)
  show ?thesis
  proof (cases "i \<in> ids q")
    case True
    then obtain u ev where ev: "ev \<in> set (q u)" "ev_ID ev = i" by (auto simp: ids_def)
    let ?cmd = "ZREM (queueKeyPrefix @ u) (event_text ev)"
    obtain r t where t: "rc_do c ?cmd s'' = (Inr r, t)" "up t" "view t = redis_effect ?cmd (view s'')"
      using do_law [OF v(1), of ?cmd] holds_fields(2) [OF v(2)] by auto
    have "holds (view t) (spec_delete i q)"
      using holds_remove [OF v(2) ev(1)] spec_delete_one [OF holds_fields(4) [OF v(2)] ev] by (simp only: t(3))
    with s ev t show ?thesis by (simp add: Redis_DeleteQueuedScrobble_def)
  next
    case False
    with s v show ?thesis by (simp add: Redis_DeleteQueuedScrobble_def spec_delete_none)
  qed
qed

lemma Retry_holds:
  assumes "up s" "holds (view s) q" "in_int64 n" "\<And>s. four_digit_year (rc_now c s)"
  shows "(i \<notin> ids q \<longrightarrow> (\<exists>s'. Redis_UpdateQueuedScrobbleRetry c i n s = Some (Some (Err (''event not found: '' @ i)), s') \<and> same s s')) \<and>
    (i \<in> ids q \<longrightarrow> (\<exists>now s'. Redis_UpdateQueuedScrobbleRetry c i n s = Some (None, s') \<and> up s' \<and>
      holds (view s') (spec_retry rkey i n now q)))"
proof -
  obtain ks s' s'' where s: "scan_keys c queueKeyPrefix 0 [] s = Some (Inr ks, s')" "same s s''"
    "i \<notin> ids q \<longrightarrow> find_queued c i ks s' = Some (None, s'')"
    "\<forall>u ev. ev \<in> set (q u) \<longrightarrow> ev_ID ev = i \<longrightarrow>
      find_queued c i ks s' = Some (Some (queueKeyPrefix @ u, fst (rkey ev), event_text ev, ev), s'')"
    using scan_find [OF assms(1,2)] by blast
  then have v: "up s''" "holds (view s'') q" using assms(2) by (simp_all add: same_def)
  show ?thesis
  proof (cases "i \<in> ids q")
    case True
    then obtain u ev where ev: "ev \<in> set (q u)" "ev_ID ev = i" by (auto simp: ids_def)
    let ?ev = "ev\<lparr>RetryCount := n, LastAttempt := rc_now c s''\<rparr>"
    let ?cmds = "[ZREM (queueKeyPrefix @ u) (event_text ev), ZADD (queueKeyPrefix @ u) (fst (rkey ev)) (event_text ?ev)]"
    have ok: "event_storable ev" "ev_UserID ev = u" "u \<noteq> []" using events_ok_fields [OF holds_fields(4) [OF v(2)] ev(1)] by blast+
    then have st: "event_storable ?ev" using assms(3,4) by (simp add: event_storable_iff)
    have "pipe_typed ?cmds (view s'')" using holds_fields(2) [OF v(2), of u] by (auto simp: put_zset_def at_type_def)
    from pipe_law [OF v(1) this] obtain t where t: "rc_pipe c ?cmds s'' = (None, t)" "up t" "view t = fold redis_effect ?cmds (view s'')" by blast
    have "holds (view t) (spec_retry rkey i n (rc_now c s'') q)"
      using holds_replace [OF v(2) ev(1) st] ev(2) unfolding t(3) by (simp del: redis_effect.simps)
    with s ev t st event_text_storable [OF st] True show ?thesis by (auto simp: Redis_UpdateQueuedScrobbleRetry_def)
  next
    case False
    with s show ?thesis by (auto simp: Redis_UpdateQueuedScrobbleRetry_def)
  qed
qed

lemma Purge_holds:
  assumes "up s" "holds (view s) q"
  shows "\<exists>s'. Redis_PurgeQueueForUser c u s = (Inr (int (length (q u))), s') \<and> up s' \<and> holds (view s') (q(u := []))"
proof -
  obtain t where t: "Redis_GetQueueSize c u s = (Inr (int (length (q u))), t)" "same s t"
    using GetQueueSize_holds [OF assms] by blast
  then have v: "up t" "holds (view t) q" using assms(2) by (simp_all add: same_def)
  let ?cmd = "DEL [queueKeyPrefix @ u]"
  obtain r s' where s': "rc_do c ?cmd t = (Inr r, s')" "up s'" "view s' = redis_effect ?cmd (view t)"
    using do_law [OF v(1), of ?cmd] by auto
  have "redis_effect ?cmd (view t) = put_zset (queueKeyPrefix @ u) [] (view t)" by (auto simp: put_zset_def)
  moreover have "events_ok (q(u := []))" by (rule events_ok_sub [OF holds_fields(4) [OF v(2)]]) (use holds_fields(4) [OF v(2)] in \<open>auto simp: events_ok_def\<close>)
  ultimately have "holds (view s') (q(u := []))" using holds_put [OF v(2), of "[]" "[]" u] s'(3) by simp
  with t(1) s' show ?thesis by (simp add: Redis_PurgeQueueForUser_def)
qed

lemma queued_users_holds:
  "up s \<Longrightarrow> holds (view s) q \<Longrightarrow> \<forall>u \<in> set us. q u \<noteq> [] \<Longrightarrow>
    \<exists>s'. queued_users c (map (\<lambda>u. queueKeyPrefix @ u) us) s = (us, s') \<and> same s s'"
proof (induction us arbitrary: s)
  case Nil
  then show ?case by (simp add: same_def)
next
  case (Cons u us)
  obtain t where t: "Redis_GetQueueSize c u s = (Inr (int (length (q u))), t)" "same s t"
    using GetQueueSize_holds [OF Cons.prems(1,2)] by blast
  have "q u \<noteq> []" using Cons.prems(3) by simp
  moreover from this have "u \<noteq> []" using events_ok_fields(3) [OF holds_fields(4) [OF Cons.prems(2)]] hd_in_set by blast
  moreover obtain s' where "queued_users c (map (\<lambda>u. queueKeyPrefix @ u) us) t = (us, s')" "same t s'"
    using Cons.IH [of t] Cons.prems t(2) by (auto simp: same_def)
  ultimately show ?case using t by (auto simp: TrimPrefix_def HasPrefix_iff intro: same_trans)
qed

lemma Users_holds:
  assumes "up s" "holds (view s) q"
  shows "\<exists>us s'. Redis_ListUsersWithQueuedEvents c s = Some (Inr us, s') \<and> same s s' \<and> set us = {u. q u \<noteq> []}"
proof -
  obtain us t where t: "scan_keys c queueKeyPrefix 0 [] s = Some (Inr (map (\<lambda>u. queueKeyPrefix @ u) us), t)" "same s t" "set us = {u. q u \<noteq> []}"
    using scan_queues [OF assms] by blast
  then obtain s' where "queued_users c (map (\<lambda>u. queueKeyPrefix @ u) us) t = (us, s')" "same t s'"
    using queued_users_holds [of t q us] assms(2) by (auto simp: same_def)
  with t show ?thesis by (auto simp: Redis_ListUsersWithQueuedEvents_def intro: same_trans)
qed

end

section \<open>Refinement\<close>

text \<open>The operations of the store under one name; an operation that does not return has no result.\<close>

fun redis_qop :: "'s RedisClient \<Rightarrow> qop \<Rightarrow> 's rstore \<Rightarrow> (qres \<times> 's rstore) option" where
  "redis_qop c (QEnqueue ev) st = map_option (apfst outcome) (Redis_EnqueueScrobble 2 c ev st)"
| "redis_qop c (QDequeue u n) st = map_option (\<lambda>(r, s). (case r of Inr evs \<Rightarrow> QEvents evs | Inl e \<Rightarrow> QFailed e, st\<lparr>rd := s\<rparr>))
     (Redis_DequeueScrobbles c u (int n) (rd st))"
| "redis_qop c (QDelete i) st = map_option (\<lambda>(r, s). (outcome r, st\<lparr>rd := s\<rparr>)) (Redis_DeleteQueuedScrobble c i (rd st))"
| "redis_qop c (QRetry i n) st = map_option (\<lambda>(r, s). (if r = Some (Err (''event not found: '' @ i)) then QNotFound else outcome r, st\<lparr>rd := s\<rparr>))
     (Redis_UpdateQueuedScrobbleRetry c i n (rd st))"
| "redis_qop c (QSize u) st = (case Redis_GetQueueSize c u (rd st) of (r, s) \<Rightarrow> Some (case r of Inr n \<Rightarrow> QCount n | Inl e \<Rightarrow> QFailed e, st\<lparr>rd := s\<rparr>))"
| "redis_qop c (QPurge u) st = (case Redis_PurgeQueueForUser c u (rd st) of (r, s) \<Rightarrow> Some (case r of Inr n \<Rightarrow> QCount n | Inl e \<Rightarrow> QFailed e, st\<lparr>rd := s\<rparr>))"
| "redis_qop c QUsers st = map_option (\<lambda>(r, s). (case r of Inr us \<Rightarrow> QNames us | Inl e \<Rightarrow> QFailed e, st\<lparr>rd := s\<rparr>))
     (Redis_ListUsersWithQueuedEvents c (rd st))"

text \<open>A server, and a clock whose years have four digits: other times have no text form.\<close>

locale redis_queue = redis_server +
  assumes clock: "four_digit_year (rc_now c s)"

context redis_queue
begin

definition sim :: "'a rstore \<Rightarrow> squeue \<Rightarrow> bool" where
  "sim st q \<longleftrightarrow> up (rd st) \<and> holds (view (rd st)) q \<and> rd_buffers st = Map.empty"

lemma redis_step:
  assumes "sim st q" "op_ok (\<lambda>_. True) x q"
  shows "\<exists>r st' q'. redis_qop c x st = Some (r, st') \<and> qspec rkey x q r q' \<and> sim st' q'"
proof -
  have st: "up (rd st)" "holds (view (rd st)) q" "rd_buffers st = Map.empty" using assms(1) by (simp_all add: sim_def)
  have keep: "sim (st\<lparr>rd := s'\<rparr>) q" if "same (rd st) s'" for s' using st that by (simp add: sim_def same_def)
  have put: "sim (st\<lparr>rd := s'\<rparr>) q'" if "up s'" "holds (view s') q'" for s' q' using st(3) that by (simp add: sim_def)
  show ?thesis
  proof (cases x)
    case (QEnqueue ev)
    with Enqueue_holds [OF st(1,2), of "\<lambda>_. True" ev 1] assms(2) st(3) obtain s' where
      "Redis_EnqueueScrobble 2 c ev st = Some (None, st\<lparr>rd := s'\<rparr>)" "up s'" "holds (view s') (spec_enqueue rkey ev q)"
      by (auto simp: numeral_2_eq_2)
    with put QEnqueue show ?thesis using qspec.enqueue [of rkey ev q] by (auto intro!: exI [of _ "spec_enqueue rkey ev q"])
  next
    case (QDequeue u n)
    with DequeueScrobbles_holds [OF st(1,2), of n u] assms(2) keep show ?thesis using qspec.dequeue [of rkey u n q] by (auto intro!: exI [of _ q])
  next
    case (QDelete i)
    with Delete_holds [OF st(1,2), of i] put show ?thesis using qspec.delete [of rkey i q] by (auto intro!: exI [of _ "spec_delete i q"])
  next
    case (QRetry i n)
    show ?thesis
    proof (cases "i \<in> ids q")
      case True
      with QRetry assms(2) Retry_holds [OF st(1,2), of n i] clock obtain now s' where
        "Redis_UpdateQueuedScrobbleRetry c i n (rd st) = Some (None, s')" "up s'" "holds (view s') (spec_retry rkey i n now q)" by auto
      with QRetry put qspec.retry [OF True, of rkey n now] show ?thesis by auto
    next
      case False
      with QRetry assms(2) Retry_holds [OF st(1,2), of n i] clock obtain s' where
        "Redis_UpdateQueuedScrobbleRetry c i n (rd st) = Some (Some (Err (''event not found: '' @ i)), s')" "same (rd st) s'" by auto
      with QRetry keep qspec.missing [OF False, of rkey n] show ?thesis by auto
    qed
  next
    case (QSize u)
    with GetQueueSize_holds [OF st(1,2), of u] keep show ?thesis using qspec.size [of rkey u q] by (auto intro!: exI [of _ q])
  next
    case (QPurge u)
    with Purge_holds [OF st(1,2), of u] put show ?thesis using qspec.purge [of rkey u q] by (auto intro!: exI [of _ "q(u := [])"])
  next
    case QUsers
    with Users_holds [OF st(1,2)] keep show ?thesis using qspec.users [of _ q rkey] by (auto intro!: exI [of _ q])
  qed
qed

end

sublocale redis_queue \<subseteq> rd_queue: queue_store "redis_qop c" sim rkey "\<lambda>_. True"
  by unfold_locales (rule redis_step)

context redis_queue
begin

lemma queue_refines:
  assumes "up (rd st)" "holds (view (rd st)) q" "rd_buffers st = Map.empty" "ops_ok (\<lambda>_. True) (ids q) xs"
  shows "\<exists>rs st' q'. run_ops (redis_qop c) xs st = Some (rs, st') \<and> qspec_run rkey xs q rs q' \<and> holds (view (rd st')) q'"
  using rd_queue.run_ops_refines [of st q "ids q" xs] assms by (auto simp: sim_def)

end

interpretation mem_queue: redis_queue "mem_client (\<lambda>_. 0) rand" mem_up mem_map mem_todo mem_rank mem_elapse
  by unfold_locales (simp add: mem_client_def year_bounds)

text \<open>
  C5. On a Redis server that works, any sequence of queue operations (enqueue, dequeue, delete,
  retry, size, purge, list of users) with new identifiers returns, and its results and the
  contents of the server are those of the abstract queue: per user a list of events, ordered
  by the second of creation and then by document, that loses its first event when an event
  arrives and a thousand are waiting.
\<close>

theorem redis_queue_refines:
  assumes "redis_queue c up view todo rank elapse" "up (rd st)" "holds (view (rd st)) q" "rd_buffers st = Map.empty"
    "ops_ok (\<lambda>_. True) (ids q) xs"
  shows "\<exists>rs st' q'. run_ops (redis_qop c) xs st = Some (rs, st') \<and> qspec_run rkey xs q rs q' \<and> holds (view (rd st')) q'"
  by (rule redis_queue.queue_refines [OF assms])

lemma holds_empty: "holds Map.empty (\<lambda>_. [])"
  by (simp add: holds_def typed_def events_ok_def zset_at_def)

theorem redis_queue_refines_witness:
  "\<exists>rs st' q'. run_ops (redis_qop (mem_client (\<lambda>_. 0) (\<lambda>_. Inr []))) [QEnqueue sample_event, QDequeue ''u'' 1, QRetry ''e1'' 3, QDelete ''e1'']
      \<lparr>rd = mem_empty, rd_buffers = Map.empty\<rparr> = Some (rs, st') \<and>
    qspec_run rkey [QEnqueue sample_event, QDequeue ''u'' 1, QRetry ''e1'' 3, QDelete ''e1''] (\<lambda>_. []) rs q' \<and> holds (mem_map (rd st')) q'"
proof (rule redis_queue_refines [OF mem_queue.redis_queue_axioms])
  show "ops_ok (\<lambda>_. True) (ids (\<lambda>_. [])) [QEnqueue sample_event, QDequeue ''u'' 1, QRetry ''e1'' 3, QDelete ''e1'']"
    by (simp add: sample_event_storable ids_def in_int64_def) (simp add: sample_event_def event_wf_def)
qed (simp_all add: mem_up_def mem_empty_def holds_empty)

end
