(* ===== verification/Disk_Files.thy ===== *)
theory Disk_Files
  imports Stored_Json "HOL-Library.Char_ord" "HOL-Library.List_Lexorder" "HOL-Library.Sublist"
begin

text \<open>
  The file system as \<open>lib/store/disk.go\<close> uses it: cleaned relative paths, files and directories,
  and the calls of Go's \<open>os\<close> and \<open>path/filepath\<close> packages.  Any call may fail: the host says which,
  by the number of the call and the path, and a write or a recursive removal that fails may have
  been done in part.  Names are case-sensitive and there are no symbolic links.  \<open>diskv\<close>, the
  key-value library that keeps the users, is not part of the repository: it is a record of
  functions, with a locale that states what it documents.
\<close>

section \<open>Paths\<close>

type_synonym path = "string list"

fun split_slash :: "string \<Rightarrow> string \<Rightarrow> string list" where
  "split_slash acc [] = [acc]"
| "split_slash acc (c # s) = (if c = CHR ''/'' then acc # split_slash [] s else split_slash (acc @ [c]) s)"

text \<open>\<open>filepath.Clean\<close> of a relative path; the empty list is the working directory.\<close>

definition clean_step :: "path \<Rightarrow> string \<Rightarrow> path" where
  "clean_step p c = (if c = [] \<or> c = ''.'' then p
     else if c = ''..'' \<and> p \<noteq> [] \<and> last p \<noteq> ''..'' then butlast p
     else p @ [c])"

definition Join :: "string list \<Rightarrow> path" where
  "Join elems = foldl clean_step [] (concat (map (split_slash []) elems))"

fun path_text :: "path \<Rightarrow> string" where
  "path_text [] = ''.''"
| "path_text [c] = c"
| "path_text (c # d # p) = c @ ''/'' @ path_text (d # p)"

text \<open>A name of one path component that means itself and that file systems accept.\<close>

definition name_ok :: "string \<Rightarrow> bool" where
  "name_ok c \<longleftrightarrow> c \<noteq> [] \<and> c \<noteq> ''.'' \<and> c \<noteq> ''..'' \<and> CHR ''/'' \<notin> set c \<and> CHR 0x00 \<notin> set c \<and> length c \<le> 255"

lemma split_slash_plain: "CHR ''/'' \<notin> set s \<Longrightarrow> split_slash acc s = [acc @ s]"
  by (induction s arbitrary: acc) auto

lemma clean_names: "\<forall>c \<in> set cs. name_ok c \<Longrightarrow> foldl clean_step p cs = p @ cs"
  by (induction cs arbitrary: p) (simp_all add: clean_step_def name_ok_def)

lemma split_names: "\<forall>c \<in> set cs. name_ok c \<Longrightarrow> concat (map (split_slash []) cs) = cs"
  by (induction cs) (simp_all add: split_slash_plain name_ok_def)

lemma Join_names: "\<forall>c \<in> set cs. name_ok c \<Longrightarrow> foldl clean_step [] (split_slash [] base) = p \<Longrightarrow> Join (base # cs) = p @ cs"
  by (simp add: Join_def split_names clean_names)

section \<open>Files and directories\<close>

datatype node = Dir | File string

datatype fault = Refused err | Torn err nat

record disk =
  nodes :: "(path \<times> node) list"
  calls :: nat

text \<open>The host: failing calls, the clock and the random source, by the number of the call.\<close>

record Host =
  h_fault :: "nat \<Rightarrow> path \<Rightarrow> fault option"
  h_now :: "nat \<Rightarrow> gotime"
  h_rand :: "nat \<Rightarrow> err + bytes"

type_synonym 'a os = "Host \<Rightarrow> disk \<Rightarrow> 'a result \<times> disk"

definition node_at :: "(path \<times> node) list \<Rightarrow> path \<Rightarrow> node option" where
  "node_at m p = (if p = [] then Some Dir else map_of m p)"

definition put_node :: "path \<Rightarrow> node \<Rightarrow> (path \<times> node) list \<Rightarrow> (path \<times> node) list" where
  "put_node p x m = (p, x) # filter (\<lambda>(q, _). q \<noteq> p) m"

definition drop_nodes :: "(path \<Rightarrow> bool) \<Rightarrow> (path \<times> node) list \<Rightarrow> (path \<times> node) list" where
  "drop_nodes P m = filter (\<lambda>(q, _). \<not> P q) m"

definition under :: "path \<Rightarrow> path \<Rightarrow> bool" where
  "under p q \<longleftrightarrow> take (length p) q = p"

text \<open>All paths at or below a directory, in the order \<open>filepath.WalkDir\<close> visits them.\<close>

definition paths_under :: "path \<Rightarrow> (path \<times> node) list \<Rightarrow> path list" where
  "paths_under p m = sort (remdups (filter (under p) (map fst m)))"

text \<open>A \<open>*PathError\<close>, and the test for the error that there is no such file.\<close>

definition PathError :: "string \<Rightarrow> path \<Rightarrow> err \<Rightarrow> err" where
  "PathError call p e = Wrap (call @ '' '' @ path_text p) e"

definition ENOENT :: err where "ENOENT = Err ''no such file or directory''"
definition ENOTDIR :: err where "ENOTDIR = Err ''not a directory''"
definition EISDIR :: err where "EISDIR = Err ''is a directory''"
definition EINVAL :: err where "EINVAL = Err ''invalid argument''"
definition ENOTEMPTY :: err where "ENOTEMPTY = Err ''directory not empty''"

fun IsNotExist :: "err \<Rightarrow> bool" where
  "IsNotExist (Wrap _ e) = (e = ENOENT)"
| "IsNotExist _ = False"

fun fault_err :: "fault \<Rightarrow> err" where
  "fault_err (Refused e) = e"
| "fault_err (Torn e _) = e"

text \<open>The error of a call on a path with no node: a file on the way to it is no directory.\<close>

definition missing :: "(path \<times> node) list \<Rightarrow> path \<Rightarrow> err" where
  "missing m p = (if list_ex (\<lambda>k. node_at m (take k p) \<noteq> None \<and> node_at m (take k p) \<noteq> Some Dir) [0..<length p] then ENOTDIR else ENOENT)"

section \<open>Calls\<close>

definition tick :: "disk \<Rightarrow> disk" where
  "tick s = s\<lparr>calls := Suc (calls s)\<rparr>"

definition os_call :: "string \<Rightarrow> path \<Rightarrow> ((path \<times> node) list \<Rightarrow> 'a result \<times> (path \<times> node) list) \<Rightarrow>
    (nat \<Rightarrow> (path \<times> node) list \<Rightarrow> (path \<times> node) list) \<Rightarrow> 'a os" where
  "os_call call p f torn h s = (case h_fault h (calls s) p of
     Some (Refused e) \<Rightarrow> (Inl (PathError call p e), tick s)
   | Some (Torn e k) \<Rightarrow> (Inl (PathError call p e), (tick s)\<lparr>nodes := torn k (nodes s)\<rparr>)
   | None \<Rightarrow> (case f (nodes s) of
        (Inl e, m) \<Rightarrow> (Inl (PathError call p e), (tick s)\<lparr>nodes := m\<rparr>)
      | (Inr x, m) \<Rightarrow> (Inr x, (tick s)\<lparr>nodes := m\<rparr>)))"

definition os_Stat :: "path \<Rightarrow> unit os" where
  "os_Stat p = os_call ''stat'' p (\<lambda>m. (if node_at m p = None then Inl (missing m p) else Inr (), m)) (\<lambda>_ m. m)"

definition os_ReadFile :: "path \<Rightarrow> string os" where
  "os_ReadFile p = os_call ''open'' p (\<lambda>m. (case node_at m p of
     None \<Rightarrow> Inl (missing m p) | Some Dir \<Rightarrow> Inl EISDIR | Some (File d) \<Rightarrow> Inr d, m)) (\<lambda>_ m. m)"

text \<open>\<open>os.ReadDir\<close>: the entries in the order of their names, and whether they are directories.\<close>

definition children :: "path \<Rightarrow> (path \<times> node) list \<Rightarrow> string list" where
  "children p m = sort (remdups (map last (filter (\<lambda>q. q \<noteq> [] \<and> butlast q = p) (map fst m))))"

definition os_ReadDir :: "path \<Rightarrow> (string \<times> bool) list os" where
  "os_ReadDir p = os_call ''open'' p (\<lambda>m. (case node_at m p of
     None \<Rightarrow> Inl (missing m p) | Some (File _) \<Rightarrow> Inl ENOTDIR
   | Some Dir \<Rightarrow> Inr (map (\<lambda>n. (n, node_at m (p @ [n]) = Some Dir)) (children p m)), m)) (\<lambda>_ m. m)"

definition can_open :: "path \<Rightarrow> (path \<times> node) list \<Rightarrow> err option" where
  "can_open p m = (case node_at m p of
     Some Dir \<Rightarrow> Some EISDIR | Some (File _) \<Rightarrow> None
   | None \<Rightarrow> if node_at m (butlast p) = Some Dir then None else Some (missing m p))"

definition os_WriteFile :: "path \<Rightarrow> string \<Rightarrow> unit os" where
  "os_WriteFile p d = os_call ''open'' p
     (\<lambda>m. case can_open p m of Some e \<Rightarrow> (Inl e, m) | None \<Rightarrow> (Inr (), put_node p (File d) m))
     (\<lambda>k m. if can_open p m = None then put_node p (File (take k d)) m else m)"

definition os_Remove :: "path \<Rightarrow> unit os" where
  "os_Remove p = os_call ''remove'' p (\<lambda>m. case node_at m p of
     None \<Rightarrow> (Inl (missing m p), m)
   | Some Dir \<Rightarrow> if children p m = [] then (Inr (), drop_nodes (\<lambda>q. q = p) m) else (Inl ENOTEMPTY, m)
   | Some (File _) \<Rightarrow> (Inr (), drop_nodes (\<lambda>q. q = p) m)) (\<lambda>_ m. m)"

text \<open>\<open>os.RemoveAll\<close>: what is below goes first; a failure leaves the rest.  The working directory is refused.\<close>

definition os_RemoveAll :: "path \<Rightarrow> unit os" where
  "os_RemoveAll p = os_call ''unlinkat'' p
     (\<lambda>m. if p = [] then (Inl EINVAL, m)
          else if node_at m p = None \<and> missing m p = ENOTDIR then (Inl ENOTDIR, m)
          else (Inr (), drop_nodes (under p) m))
     (\<lambda>k m. drop_nodes (\<lambda>q. q \<in> set (take k (rev (paths_under p m)))) m)"

text \<open>\<open>os.MkdirAll\<close>: missing directories are made from the top; each can fail.\<close>

primrec mkdirs :: "(path \<Rightarrow> fault option) \<Rightarrow> path \<Rightarrow> path \<Rightarrow> (path \<times> node) list \<Rightarrow> err option \<times> (path \<times> node) list" where
  "mkdirs fault base [] m = (None, m)"
| "mkdirs fault base (c # cs) m = (let p = base @ [c] in case node_at m p of
     Some Dir \<Rightarrow> mkdirs fault p cs m
   | Some (File _) \<Rightarrow> (Some (PathError ''mkdir'' p ENOTDIR), m)
   | None \<Rightarrow> (case fault p of
        Some f \<Rightarrow> (Some (PathError ''mkdir'' p (fault_err f)), m)
      | None \<Rightarrow> mkdirs fault p cs (put_node p Dir m)))"

definition os_MkdirAll :: "path \<Rightarrow> Host \<Rightarrow> disk \<Rightarrow> err option \<times> disk" where
  "os_MkdirAll p h s = (case mkdirs (h_fault h (calls s)) [] p (nodes s) of (r, m) \<Rightarrow> (r, (tick s)\<lparr>nodes := m\<rparr>))"

text \<open>
  \<open>filepath.WalkDir\<close> with a callback that ignores errors and stops at the first file whose name
  satisfies a test.  A directory that cannot be read is passed over.
\<close>

definition walk_sees :: "(path \<Rightarrow> fault option) \<Rightarrow> path \<Rightarrow> path \<Rightarrow> bool" where
  "walk_sees fault base p \<longleftrightarrow> list_all (\<lambda>k. fault (take k p) = None) [length base..<length p]"

definition walk_find :: "path \<Rightarrow> (string \<Rightarrow> bool) \<Rightarrow> Host \<Rightarrow> disk \<Rightarrow> path option \<times> disk" where
  "walk_find base test h s =
     (find (\<lambda>p. node_at (nodes s) p \<noteq> Some Dir \<and> test (last p) \<and> walk_sees (h_fault h (calls s)) base p) (paths_under base (nodes s)), tick s)"

section \<open>Laws\<close>

text \<open>Every node but those at the top lie in a directory, and paths occur once.\<close>

definition tree :: "(path \<times> node) list \<Rightarrow> bool" where
  "tree m \<longleftrightarrow> distinct (map fst m) \<and> (\<forall>p x. map_of m p = Some x \<longrightarrow> p \<noteq> [] \<and> node_at m (butlast p) = Some Dir)"

text \<open>A calm host fails on no path whose components are proper names.\<close>

definition calm :: "Host \<Rightarrow> bool" where
  "calm h \<longleftrightarrow> (\<forall>n p. (\<forall>c \<in> set p. name_ok c) \<longrightarrow> h_fault h n p = None)"

lemma map_of_filter_key: "map_of (filter (\<lambda>(q, _). P q) m) q = (if P q then map_of m q else None)"
  by (induction m) auto

lemma node_at_put: "p \<noteq> [] \<Longrightarrow> node_at (put_node p x m) q = (if q = p then Some x else node_at m q)"
  by (simp add: node_at_def put_node_def map_of_filter_key)

lemma node_at_drop: "node_at (drop_nodes P m) q = (if q \<noteq> [] \<and> P q then None else node_at m q)"
  by (simp add: node_at_def drop_nodes_def map_of_filter_key)

lemma node_at_Nil [simp]: "node_at m [] = Some Dir"
  by (simp add: node_at_def)

lemma tree_parent: "tree m \<Longrightarrow> node_at m p = Some x \<Longrightarrow> node_at m (butlast p) = Some Dir"
  by (auto simp: tree_def node_at_def split: if_splits)

lemma tree_above:
  assumes "tree m" "node_at m p \<noteq> None" "k < length p"
  shows "node_at m (take k p) = Some Dir"
  using assms(2,3)
proof (induction "length p - k" arbitrary: k)
  case (Suc n)
  show ?case
  proof (cases "Suc k = length p")
    case True
    then have "take k p = butlast p" by (metis butlast_conv_take diff_Suc_1)
    with assms(1) Suc.prems(1) show ?thesis using tree_parent by fastforce
  next
    case False
    with Suc have "node_at m (take (Suc k) p) = Some Dir" by auto
    then have "node_at m (butlast (take (Suc k) p)) = Some Dir" using assms(1) tree_parent by blast
    moreover have "butlast (take (Suc k) p) = take k p" using Suc.prems(2) by (simp add: butlast_take)
    ultimately show ?thesis by simp
  qed
qed simp

lemma butlast_neq: "p \<noteq> [] \<Longrightarrow> butlast p \<noteq> p"
  by (metis length_butlast length_0_conv diff_less less_numeral_extra(1) length_greater_0_conv nat_neq_iff)

lemma tree_put:
  assumes "tree m" "p \<noteq> []" "node_at m (butlast p) = Some Dir" "x = Dir \<or> node_at m p \<noteq> Some Dir"
  shows "tree (put_node p x m)"
proof -
  have "distinct (map fst (put_node p x m))"
    using assms(1) by (auto simp: tree_def put_node_def distinct_map_filter)
  moreover have "q \<noteq> [] \<and> node_at (put_node p x m) (butlast q) = Some Dir" if "map_of (put_node p x m) q = Some y" for q y
  proof (cases "q = p")
    case True
    then show ?thesis using assms butlast_neq [of p] by (simp add: node_at_put)
  next
    case False
    with that have q: "map_of m q = Some y" by (simp add: put_node_def map_of_filter_key)
    then have "q \<noteq> []" "node_at m (butlast q) = Some Dir" using assms(1) by (auto simp: tree_def)
    then show ?thesis using assms(2,4) by (auto simp: node_at_put)
  qed
  ultimately show ?thesis by (auto simp: tree_def)
qed

lemma tree_drop:
  assumes "tree m" "\<And>q. q \<noteq> [] \<Longrightarrow> P (butlast q) \<Longrightarrow> node_at m q \<noteq> None \<Longrightarrow> P q"
  shows "tree (drop_nodes P m)"
proof -
  have "q \<noteq> [] \<and> node_at (drop_nodes P m) (butlast q) = Some Dir" if "map_of (drop_nodes P m) q = Some y" for q y
  proof -
    have q: "map_of m q = Some y" "\<not> P q" using that by (auto simp: drop_nodes_def map_of_filter_key split: if_splits)
    then have "q \<noteq> []" "node_at m (butlast q) = Some Dir" using assms(1) by (auto simp: tree_def)
    moreover have "node_at m q \<noteq> None" using q \<open>q \<noteq> []\<close> by (simp add: node_at_def)
    ultimately show ?thesis using q(2) assms(2) [of q] by (auto simp: node_at_drop)
  qed
  then show ?thesis using assms(1) by (auto simp: tree_def drop_nodes_def distinct_map_filter)
qed

lemma children_set: "set (children p m) = {n. map_of m (p @ [n]) \<noteq> None}"
  by (force simp: children_def map_of_eq_None_iff image_iff snoc_eq_iff_butlast)

lemma children_sorted: "sorted (children p m)" "distinct (children p m)"
  by (simp_all add: children_def)

lemma paths_under_set: "set (paths_under p m) = {q. under p q \<and> map_of m q \<noteq> None}"
  by (force simp: paths_under_def map_of_eq_None_iff)

lemma under_iff: "under p q \<longleftrightarrow> (\<exists>r. q = p @ r)"
  by (auto simp: under_def) (metis append_take_drop_id)

subsection \<open>Calls on a calm host\<close>

definition names :: "path \<Rightarrow> bool" where
  "names p \<longleftrightarrow> (\<forall>c \<in> set p. name_ok c)"

lemma names_simps [simp]: "names []" "names (c # p) \<longleftrightarrow> name_ok c \<and> names p" "names (p @ q) \<longleftrightarrow> names p \<and> names q"
  by (auto simp: names_def)

lemma names_take: "names p \<Longrightarrow> names (take k p)"
  by (auto simp: names_def dest: in_set_takeD)

lemma calm_fault: "calm h \<Longrightarrow> names p \<Longrightarrow> h_fault h n p = None"
  by (simp add: calm_def names_def)

lemma os_call_calm:
  "calm h \<Longrightarrow> names p \<Longrightarrow> os_call call p f torn h s = (case f (nodes s) of
     (Inl e, m) \<Rightarrow> (Inl (PathError call p e), (tick s)\<lparr>nodes := m\<rparr>) | (Inr x, m) \<Rightarrow> (Inr x, (tick s)\<lparr>nodes := m\<rparr>))"
  by (simp add: os_call_def calm_fault)

lemma tick_simps [simp]: "nodes (tick s) = nodes s" "calls (tick s) = Suc (calls s)" "(tick s)\<lparr>nodes := nodes s\<rparr> = tick s"
  by (simp_all add: tick_def)

lemma IsNotExist_PathError [simp]: "IsNotExist (PathError c p e) \<longleftrightarrow> e = ENOENT"
  by (simp add: PathError_def)

lemma errno_distinct [simp]: "ENOTDIR \<noteq> ENOENT" "EISDIR \<noteq> ENOENT" "ENOTEMPTY \<noteq> ENOENT"
  by (simp_all add: ENOENT_def ENOTDIR_def EISDIR_def ENOTEMPTY_def)

text \<open>No file lies above the path.\<close>

definition clear_to :: "(path \<times> node) list \<Rightarrow> path \<Rightarrow> bool" where
  "clear_to m p \<longleftrightarrow> (\<forall>k < length p. node_at m (take k p) \<in> {None, Some Dir})"

lemma missing_clear: "clear_to m p \<Longrightarrow> missing m p = ENOENT"
  by (auto simp: missing_def clear_to_def list_ex_iff)

lemma clear_to_present: "tree m \<Longrightarrow> node_at m p \<noteq> None \<Longrightarrow> clear_to m p"
  using tree_above by (auto simp: clear_to_def)

lemma Stat_calm:
  "calm h \<Longrightarrow> names p \<Longrightarrow> os_Stat p h s = (if node_at (nodes s) p = None then Inl (PathError ''stat'' p (missing (nodes s) p)) else Inr (), tick s)"
  by (simp add: os_Stat_def os_call_calm)

lemma ReadFile_calm:
  "calm h \<Longrightarrow> names p \<Longrightarrow> os_ReadFile p h s = (case node_at (nodes s) p of
     None \<Rightarrow> Inl (PathError ''open'' p (missing (nodes s) p)) | Some Dir \<Rightarrow> Inl (PathError ''open'' p EISDIR) | Some (File d) \<Rightarrow> Inr d, tick s)"
  by (simp add: os_ReadFile_def os_call_calm split: option.split node.split)

lemma ReadDir_calm:
  "calm h \<Longrightarrow> names p \<Longrightarrow> node_at (nodes s) p = Some Dir \<Longrightarrow>
    os_ReadDir p h s = (Inr (map (\<lambda>n. (n, node_at (nodes s) (p @ [n]) = Some Dir)) (children p (nodes s))), tick s)"
  by (simp add: os_ReadDir_def os_call_calm)

lemma WriteFile_calm:
  "calm h \<Longrightarrow> names p \<Longrightarrow> can_open p (nodes s) = None \<Longrightarrow> os_WriteFile p d h s = (Inr (), (tick s)\<lparr>nodes := put_node p (File d) (nodes s)\<rparr>)"
  by (simp add: os_WriteFile_def os_call_calm)

lemma Remove_calm:
  "calm h \<Longrightarrow> names p \<Longrightarrow> node_at (nodes s) p = Some (File d) \<Longrightarrow>
    os_Remove p h s = (Inr (), (tick s)\<lparr>nodes := drop_nodes (\<lambda>q. q = p) (nodes s)\<rparr>)"
  by (simp add: os_Remove_def os_call_calm)

lemma RemoveAll_calm:
  "calm h \<Longrightarrow> names p \<Longrightarrow> p \<noteq> [] \<Longrightarrow> clear_to (nodes s) p \<Longrightarrow>
    os_RemoveAll p h s = (Inr (), (tick s)\<lparr>nodes := drop_nodes (under p) (nodes s)\<rparr>)"
  by (simp add: os_RemoveAll_def os_call_calm missing_clear errno_distinct(1) [symmetric])

lemma mkdirs_clear:
  assumes "\<And>q. names q \<Longrightarrow> fault q = None"
  shows "tree m \<Longrightarrow> names (base @ cs) \<Longrightarrow> node_at m base = Some Dir \<Longrightarrow> \<forall>r. prefix r cs \<longrightarrow> node_at m (base @ r) \<in> {None, Some Dir} \<Longrightarrow>
    \<exists>m'. mkdirs fault base cs m = (None, m') \<and> tree m' \<and>
      (\<forall>q. node_at m' q = (if \<exists>r. q = base @ r \<and> prefix r cs then Some Dir else node_at m q))"
proof (induction cs arbitrary: base m)
  case Nil
  then show ?case by auto
next
  case (Cons c cs)
  let ?p = "base @ [c]"
  have split: "(\<exists>r. q = base @ r \<and> prefix r (c # cs)) \<longleftrightarrow> q = base \<or> (\<exists>r. q = ?p @ r \<and> prefix r cs)" for q
    by (auto simp: prefix_Cons)
  have free: "node_at m (?p @ r) \<in> {None, Some Dir}" if "prefix r cs" for r
    using Cons.prems(4) that by (auto dest!: spec [of _ "c # r"])
  define m1 where "m1 = (if node_at m ?p = None then put_node ?p Dir m else m)"
  have at: "node_at m1 q = (if q = ?p then Some Dir else node_at m q)" for q
    using free [of "[]"] by (auto simp: m1_def node_at_put)
  have "tree m1" using Cons.prems(1,3) tree_put [of m ?p Dir] by (simp add: m1_def)
  moreover have "\<forall>r. prefix r cs \<longrightarrow> node_at m1 (?p @ r) \<in> {None, Some Dir}" using free by (simp add: at)
  ultimately obtain m' where m': "mkdirs fault ?p cs m1 = (None, m')" "tree m'"
    "\<And>q. node_at m' q = (if \<exists>r. q = ?p @ r \<and> prefix r cs then Some Dir else node_at m1 q)"
    using Cons.IH [of m1 ?p] Cons.prems(2) at by auto
  have "mkdirs fault base (c # cs) m = (None, m')"
    using m'(1) assms [of ?p] Cons.prems(2) free [of "[]"] by (auto simp: m1_def Let_def)
  moreover have "node_at m' q = (if \<exists>r. q = base @ r \<and> prefix r (c # cs) then Some Dir else node_at m q)" for q
    unfolding split m'(3) at using Cons.prems(3) by auto
  ultimately show ?case using m'(2) by blast
qed

lemma MkdirAll_calm:
  assumes "calm h" "names p" "tree (nodes s)" "\<And>q. prefix q p \<Longrightarrow> node_at (nodes s) q \<in> {None, Some Dir}"
  shows "\<exists>s'. os_MkdirAll p h s = (None, s') \<and> tree (nodes s') \<and>
    (\<forall>q. node_at (nodes s') q = (if prefix q p then Some Dir else node_at (nodes s) q))"
  using mkdirs_clear [of "h_fault h (calls s)" "nodes s" "[]" p] calm_fault [OF assms(1)] assms(2-4)
  by (auto simp: os_MkdirAll_def)

text \<open>A host on which nothing fails.\<close>

definition quiet_host :: Host where
  "quiet_host = \<lparr>h_fault = (\<lambda>_ _. None), h_now = (\<lambda>_. 0), h_rand = (\<lambda>_. Inr (replicate 16 0))\<rparr>"

lemma quiet_calm: "calm quiet_host"
  by (simp add: quiet_host_def calm_def)

section \<open>The key-value library\<close>

text \<open>
  \<open>diskv\<close> with a flat layout: one file for each key.  Every call of the store opens it anew, so its
  cache plays no part.  \<open>Keys\<close> lists the names of all files below its directory, which may be more than
  the keys that were written.
\<close>

record 'k Diskv =
  dv_Read :: "string \<Rightarrow> 'k \<Rightarrow> string result \<times> 'k"
  dv_Write :: "string \<Rightarrow> string \<Rightarrow> 'k \<Rightarrow> err option \<times> 'k"
  dv_Erase :: "string \<Rightarrow> 'k \<Rightarrow> err option \<times> 'k"
  dv_Keys :: "'k \<Rightarrow> string list \<times> 'k"

locale keystore =
  fixes d :: "'k Diskv"
    and ok :: "'k \<Rightarrow> bool"
    and view :: "'k \<Rightarrow> string \<rightharpoonup> string"
  assumes read_law: "ok s \<Longrightarrow> name_ok k \<Longrightarrow> \<exists>r s'. dv_Read d k s = (r, s') \<and> ok s' \<and> view s' = view s \<and>
      (case view s k of Some v \<Rightarrow> r = Inr v | None \<Rightarrow> \<not> is_ok r)"
    and write_law: "ok s \<Longrightarrow> name_ok k \<Longrightarrow> \<exists>s'. dv_Write d k v s = (None, s') \<and> ok s' \<and> view s' = (view s)(k \<mapsto> v)"
    and erase_law: "ok s \<Longrightarrow> name_ok k \<Longrightarrow> \<exists>e s'. dv_Erase d k s = (e, s') \<and> ok s' \<and> view s' = (view s)(k := None)"
    and keys_law: "ok s \<Longrightarrow> \<exists>ks s'. dv_Keys d s = (ks, s') \<and> ok s' \<and> view s' = view s \<and> dom (view s) \<subseteq> set ks"

text \<open>A key-value store in memory.\<close>

definition list_kv :: "(string \<times> string) list Diskv" where
  "list_kv = \<lparr>dv_Read = (\<lambda>k s. (case map_of s k of Some v \<Rightarrow> Inr v | None \<Rightarrow> Inl ENOENT, s)),
     dv_Write = (\<lambda>k v s. (None, (k, v) # s)), dv_Erase = (\<lambda>k s. (None, filter (\<lambda>(k', _). k' \<noteq> k) s)), dv_Keys = (\<lambda>s. (map fst s, s))\<rparr>"

interpretation list_keystore: keystore list_kv "\<lambda>_. True" map_of
  by unfold_locales (auto simp: list_kv_def map_of_filter_key fun_eq_iff dom_map_of_conv_image_fst split: option.split)

end
