(* ===== verification/Disk_Store.thy ===== *)
theory Disk_Store
  imports Disk_Files Redis_Store
begin

text \<open>
  \<open>lib/store/disk.go\<close>: the store that keeps users in a \<open>diskv\<close> key-value store and the scrobble queue
  and the family groups in files.  The operations take the host and the key-value library; their
  state is the key-value store, the files and the fallback buffers.  \<^const>\<open>None\<close> as a result is a
  panic, or an enqueue that does not return.  Log output is not modelled.
\<close>

section \<open>Users\<close>

definition field_key :: "string \<Rightarrow> string \<Rightarrow> string" where
  "field_key i f = i @ ''.'' @ f"

definition readField :: "'k Diskv \<Rightarrow> string \<Rightarrow> string \<Rightarrow> 'k \<Rightarrow> string result \<times> 'k" where
  "readField d i f s = dv_Read d (field_key i f) s"

definition writeField :: "'k Diskv \<Rightarrow> string \<Rightarrow> string \<Rightarrow> string \<Rightarrow> 'k \<Rightarrow> 'k option" where
  "writeField d i f v s = (case dv_Write d (field_key i f) v s of (None, s') \<Rightarrow> Some s' | (Some _, _) \<Rightarrow> None)"

definition eraseField :: "'k Diskv \<Rightarrow> string \<Rightarrow> string \<Rightarrow> 'k \<Rightarrow> 'k" where
  "eraseField d i f s = snd (dv_Erase d (field_key i f) s)"

primrec write_fields :: "'k Diskv \<Rightarrow> string \<Rightarrow> (string \<times> string) list \<Rightarrow> 'k \<Rightarrow> 'k option" where
  "write_fields d i [] s = Some s"
| "write_fields d i (x # xs) s = (case writeField d i (fst x) (snd x) s of None \<Rightarrow> None | Some s' \<Rightarrow> write_fields d i xs s')"

definition Disk_WriteUser :: "'k Diskv \<Rightarrow> User \<Rightarrow> 'k \<Rightarrow> 'k option" where
  "Disk_WriteUser d user s = write_fields d (usr_ID user)
     [(''username'', Username user), (''access'', AccessToken user), (''refresh'', RefreshToken user),
      (''updated'', Format_date (Updated user)), (''trakt_display_name'', TraktDisplayName user),
      (''token_expiry'', Format_RFC3339 (TokenExpiry user))] s"

text \<open>
  A date that does not parse is the zero time.  The store of the user is not set: its interface
  value is nil.
\<close>

definition user_of_fields :: "string \<Rightarrow> string \<Rightarrow> string \<Rightarrow> string \<Rightarrow> string \<Rightarrow> string result \<Rightarrow> string result \<Rightarrow> User" where
  "user_of_fields i un ud ac re displayName expiry =
     (let updated = (case Parse_date ud of Some t \<Rightarrow> t | None \<Rightarrow> 0);
          tokenExpiry = updated + 90 * 24 * Hour;
          tokenExpiry = (case expiry of
              Inr expiryStr \<Rightarrow> if expiryStr \<noteq> [] then (case Parse_RFC3339 expiryStr of Some t \<Rightarrow> t | None \<Rightarrow> tokenExpiry) else tokenExpiry
            | Inl _ \<Rightarrow> tokenExpiry)
      in \<lparr>usr_ID = i, Username = ToLower un, AccessToken = ac, RefreshToken = re,
          TraktDisplayName = (case displayName of Inr n \<Rightarrow> n | Inl _ \<Rightarrow> []), Updated = updated, TokenExpiry = tokenExpiry, has_store = False\<rparr>)"

definition Disk_GetUser :: "'k Diskv \<Rightarrow> string \<Rightarrow> 'k \<Rightarrow> User option \<times> 'k" where
  "Disk_GetUser d i s = (case readField d i ''username'' s of
     (Inl _, s1) \<Rightarrow> (None, s1)
   | (Inr un, s1) \<Rightarrow> (case readField d i ''updated'' s1 of
       (Inl _, s2) \<Rightarrow> (None, s2)
     | (Inr ud, s2) \<Rightarrow> (case readField d i ''access'' s2 of
         (Inl _, s3) \<Rightarrow> (None, s3)
       | (Inr ac, s3) \<Rightarrow> (case readField d i ''refresh'' s3 of
           (Inl _, s4) \<Rightarrow> (None, s4)
         | (Inr re, s4) \<Rightarrow>
             (let (displayName, s5) = readField d i ''trakt_display_name'' s4;
                  (expiry, s6) = readField d i ''token_expiry'' s5
              in (Some (user_of_fields i un ud ac re displayName expiry), s6))))))"

definition TrimSuffix :: "string \<Rightarrow> string \<Rightarrow> string" where
  "TrimSuffix s p = (if HasSuffix s p then take (length s - length p) s else s)"

primrec disk_load_users :: "'k Diskv \<Rightarrow> string list \<Rightarrow> 'k \<Rightarrow> User list \<times> 'k" where
  "disk_load_users d [] s = ([], s)"
| "disk_load_users d (i # is) s = (case Disk_GetUser d i s of
     (None, s') \<Rightarrow> disk_load_users d is s'
   | (Some u, s') \<Rightarrow> apfst (Cons u) (disk_load_users d is s'))"

text \<open>
  Users updated last come first.  The order of users of the same day is the order of a Go map,
  which is random; here it is the order of the keys.
\<close>

definition Disk_ListUsers :: "'k Diskv \<Rightarrow> 'k \<Rightarrow> User list \<times> 'k" where
  "Disk_ListUsers d s = (case dv_Keys d s of (ks, s') \<Rightarrow>
     apfst (sort_key (\<lambda>u. - Updated u))
       (disk_load_users d (remdups (map (\<lambda>k. TrimSuffix k ''.username'') (filter (\<lambda>k. HasSuffix k ''.username'') ks))) s'))"

definition Disk_GetUserByName :: "'k Diskv \<Rightarrow> string \<Rightarrow> 'k \<Rightarrow> User option \<times> 'k" where
  "Disk_GetUserByName d username s =
     (let username = ToLower (TrimSpace username) in
      if username = [] then (None, s)
      else case Disk_ListUsers d s of (us, s') \<Rightarrow> (case find (\<lambda>u. ToLower (Username u) = username) us of
          None \<Rightarrow> (None, s')
        | Some u \<Rightarrow> Disk_GetUser d (usr_ID u) s'))"

definition Disk_DeleteUser :: "'k Diskv \<Rightarrow> string \<Rightarrow> string \<Rightarrow> 'k \<Rightarrow> bool \<times> 'k" where
  "Disk_DeleteUser d i username s = (True,
     fold (\<lambda>f. eraseField d i f) [''username'', ''updated'', ''access'', ''refresh'', ''trakt_display_name'', ''token_expiry''] s)"

definition Disk_GetScrobbleBody :: "string \<Rightarrow> string \<Rightarrow> CacheItem" where
  "Disk_GetScrobbleBody playerUuid ratingKey = zero_CacheItem"

section \<open>The scrobble queue\<close>

record dstore =
  files :: disk
  fallbackBuffers :: buffers

definition queueBasePath :: string where
  "queueBasePath = ''keystore/queue''"

definition json_files :: "(string \<times> bool) list \<Rightarrow> string list" where
  "json_files es = map fst (filter (\<lambda>(n, isdir). \<not> isdir \<and> HasSuffix n ''.json'') es)"

definition Disk_GetQueueSize :: "Host \<Rightarrow> string \<Rightarrow> disk \<Rightarrow> int result \<times> disk" where
  "Disk_GetQueueSize h userID s =
     (let userQueueDir = Join [queueBasePath, userID]; (st, s1) = os_Stat userQueueDir h s in
      if (case st of Inl e \<Rightarrow> IsNotExist e | Inr _ \<Rightarrow> False) then (Inr 0, s1)
      else case os_ReadDir userQueueDir h s1 of
        (Inl e, s2) \<Rightarrow> (Inl (Wrap ''failed to read queue directory'' e), s2)
      | (Inr es, s2) \<Rightarrow> (Inr (int (length (json_files es))), s2))"

text \<open>Reading the chosen files: those that cannot be read or decoded are skipped.\<close>

primrec read_events :: "Host \<Rightarrow> path \<Rightarrow> string list \<Rightarrow> disk \<Rightarrow> (QueuedScrobbleEvent list \<times> disk) option" where
  "read_events h dir [] s = Some ([], s)"
| "read_events h dir (n # ns) s = (case os_ReadFile (dir @ [n]) h s of
     (Inl _, s') \<Rightarrow> read_events h dir ns s'
   | (Inr data, s') \<Rightarrow> (case deserializeEvent data of
        DecPanic \<Rightarrow> None
      | DecErr \<Rightarrow> read_events h dir ns s'
      | DecOk event \<Rightarrow> map_option (apfst (Cons event)) (read_events h dir ns s')))"

definition Disk_DequeueScrobbles :: "Host \<Rightarrow> string \<Rightarrow> int \<Rightarrow> disk \<Rightarrow> (QueuedScrobbleEvent list result \<times> disk) option" where
  "Disk_DequeueScrobbles h userID limit s =
     (let userQueueDir = Join [queueBasePath, userID]; (st, s1) = os_Stat userQueueDir h s in
      if (case st of Inl e \<Rightarrow> IsNotExist e | Inr _ \<Rightarrow> False) then Some (Inr [], s1)
      else case os_ReadDir userQueueDir h s1 of
        (Inl e, s2) \<Rightarrow> Some (Inl (Wrap ''failed to read queue directory'' e), s2)
      | (Inr es, s2) \<Rightarrow> map_option (apfst Inr) (read_events h userQueueDir (take (nat limit) (sort (json_files es))) s2))"

text \<open>A file belongs to an event when its name contains the identifier.\<close>

definition find_event :: "Host \<Rightarrow> string \<Rightarrow> disk \<Rightarrow> path option \<times> disk" where
  "find_event h eventID s = walk_find (Join [queueBasePath]) (\<lambda>n. Contains n eventID) h s"

definition Disk_DeleteQueuedScrobble :: "Host \<Rightarrow> string \<Rightarrow> disk \<Rightarrow> err option \<times> disk" where
  "Disk_DeleteQueuedScrobble h eventID s = (case find_event h eventID s of
     (None, s1) \<Rightarrow> (None, s1)
   | (Some foundPath, s1) \<Rightarrow> (case os_Remove foundPath h s1 of
        (Inl e, s2) \<Rightarrow> (Some (Wrap ''failed to delete event file'' e), s2)
      | (Inr _, s2) \<Rightarrow> (None, s2)))"

definition Disk_UpdateQueuedScrobbleRetry :: "Host \<Rightarrow> string \<Rightarrow> int \<Rightarrow> disk \<Rightarrow> (err option \<times> disk) option" where
  "Disk_UpdateQueuedScrobbleRetry h eventID retryCount s = (case find_event h eventID s of
     (None, s1) \<Rightarrow> Some (Some (Err (''event not found: '' @ eventID)), s1)
   | (Some foundPath, s1) \<Rightarrow> (case os_ReadFile foundPath h s1 of
        (Inl e, s2) \<Rightarrow> Some (Some (Wrap ''failed to read event file'' e), s2)
      | (Inr data, s2) \<Rightarrow> (case deserializeEvent data of
          DecPanic \<Rightarrow> None
        | DecErr \<Rightarrow> Some (Some (Wrap ''failed to deserialize event'' (Err ''json'')), s2)
        | DecOk event \<Rightarrow> (case serializeEvent (event\<lparr>RetryCount := retryCount, LastAttempt := h_now h (calls s2)\<rparr>) of
            Inl e \<Rightarrow> Some (Some (Wrap ''failed to serialize event'' e), s2)
          | Inr data' \<Rightarrow> (case os_WriteFile foundPath data' h s2 of
              (Inl e, s3) \<Rightarrow> Some (Some (Wrap ''failed to write event file'' e), s3)
            | (Inr _, s3) \<Rightarrow> Some (None, s3))))))"

definition evictOldestEvent :: "Host \<Rightarrow> string \<Rightarrow> disk \<Rightarrow> (err option \<times> disk) option" where
  "evictOldestEvent h userID s = (case Disk_DequeueScrobbles h userID 1 s of
     None \<Rightarrow> None
   | Some (Inl e, s1) \<Rightarrow> Some (Some e, s1)
   | Some (Inr [], s1) \<Rightarrow> Some (None, s1)
   | Some (Inr (ev # _), s1) \<Rightarrow> Some (Disk_DeleteQueuedScrobble h (ev_ID ev) s1))"

definition event_file :: "QueuedScrobbleEvent \<Rightarrow> string" where
  "event_file event = itoa (Unix (ev_CreatedAt event)) @ ''-'' @ ev_ID event @ ''.json''"

definition disk_fallback :: "string \<Rightarrow> err \<Rightarrow> QueuedScrobbleEvent \<Rightarrow> disk \<Rightarrow> buffers \<Rightarrow> (err option \<times> dstore) option" where
  "disk_fallback m e event s b = map_option (\<lambda>b'. (Some (Wrap m e), \<lparr>files = s, fallbackBuffers = b'\<rparr>)) (buffer_add (ev_UserID event) event b)"

text \<open>\<open>EnqueueScrobble\<close> for an event with identifier and time, up to the flush.\<close>

definition disk_enqueue_checked :: "Host \<Rightarrow> QueuedScrobbleEvent \<Rightarrow> dstore \<Rightarrow> (err option \<times> dstore) option" where
  "disk_enqueue_checked h event st = (case serializeEvent event of
     Inl e \<Rightarrow> Some (Some (Wrap ''failed to serialize event'' e), st)
   | Inr data \<Rightarrow> (let userQueueDir = Join [queueBasePath, ev_UserID event] in
       case os_MkdirAll userQueueDir h (files st) of
         (Some e, s1) \<Rightarrow> disk_fallback ''storage unavailable'' e event s1 (fallbackBuffers st)
       | (None, s1) \<Rightarrow>
           (let (size, s2) = Disk_GetQueueSize h (ev_UserID event) s1;
                queueSize = (case size of Inr n \<Rightarrow> n | Inl _ \<Rightarrow> 0)
            in case (if queueSize \<ge> maxQueuePerUser then map_option snd (evictOldestEvent h (ev_UserID event) s2) else Some s2) of
                 None \<Rightarrow> None
               | Some s3 \<Rightarrow> (case os_WriteFile (Join [path_text userQueueDir, event_file event]) data h s3 of
                   (Inl e, s4) \<Rightarrow> disk_fallback ''failed to write event'' e event s4 (fallbackBuffers st)
                 | (Inr _, s4) \<Rightarrow> Some (None, st\<lparr>files := s4\<rparr>)))))"

definition disk_flush :: "(QueuedScrobbleEvent \<Rightarrow> dstore \<Rightarrow> (err option \<times> dstore) option) \<Rightarrow> string \<Rightarrow> dstore \<Rightarrow> dstore option" where
  "disk_flush enqueue uid st = (case fallbackBuffers st uid of
     None \<Rightarrow> Some st
   | Some buffer \<Rightarrow> (let events = InMemoryBuffer_GetAll buffer in
       if events = [] then Some st
       else (case flush_all enqueue events st of
           None \<Rightarrow> None
         | Some (False, st') \<Rightarrow> Some st'
         | Some (True, st') \<Rightarrow> Some (st'\<lparr>fallbackBuffers := (fallbackBuffers st')(uid := None)\<rparr>))))"

primrec Disk_EnqueueScrobble :: "nat \<Rightarrow> Host \<Rightarrow> QueuedScrobbleEvent \<Rightarrow> dstore \<Rightarrow> (err option \<times> dstore) option" where
  "Disk_EnqueueScrobble 0 h event st = None"
| "Disk_EnqueueScrobble (Suc fuel) h event st =
     (case (if ev_ID event = [] then generateEventID (h_rand h (calls (files st))) else Inr (ev_ID event)) of
        Inl e \<Rightarrow> Some (Some (Wrap ''failed to generate event ID'' e), st)
      | Inr eid \<Rightarrow>
          (let event = event\<lparr>ev_ID := eid\<rparr> in
           case validateEvent event of
             Some e \<Rightarrow> Some (Some (Wrap ''invalid event'' e), st)
           | None \<Rightarrow>
               (let event = (if IsZero (ev_CreatedAt event) then event\<lparr>ev_CreatedAt := h_now h (calls (files st))\<rparr> else event) in
                case disk_enqueue_checked h event st of
                  None \<Rightarrow> None
                | Some (Some e, st') \<Rightarrow> Some (Some e, st')
                | Some (None, st') \<Rightarrow> map_option (Pair None) (disk_flush (Disk_EnqueueScrobble fuel h) (ev_UserID event) st'))))"

definition Disk_GetQueueStatus :: "Host \<Rightarrow> string \<Rightarrow> disk \<Rightarrow> ((QueueStatus \<times> err option) \<times> disk) option" where
  "Disk_GetQueueStatus h userID s =
     (let status = \<lparr>QSUserID = userID, QSQueueSize = 0, OldestEventAge = 0, Mode = ''live'', LastHealthCheck = 0,
                    LastSuccessfulSync = 0, DrainActive = False, EventsProcessed = 0, EventsFailed = 0\<rparr>
      in case Disk_GetQueueSize h userID s of
        (Inl e, s1) \<Rightarrow> Some ((status, Some e), s1)
      | (Inr queueSize, s1) \<Rightarrow>
          (let status = status\<lparr>QSQueueSize := queueSize\<rparr> in
           if queueSize > 0
           then (case Disk_DequeueScrobbles h userID 1 s1 of
               None \<Rightarrow> None
             | Some (Inr (ev # _), s2) \<Rightarrow> Some ((status\<lparr>OldestEventAge := h_now h (calls s2) - ev_CreatedAt ev\<rparr>, None), s2)
             | Some (_, s2) \<Rightarrow> Some ((status, None), s2))
           else Some ((status, None), s1)))"

primrec nonempty_queues :: "Host \<Rightarrow> (string \<times> bool) list \<Rightarrow> disk \<Rightarrow> string list \<times> disk" where
  "nonempty_queues h [] s = ([], s)"
| "nonempty_queues h (e # es) s =
     (if snd e \<and> fst e \<noteq> ''.gitkeep''
      then (case Disk_GetQueueSize h (fst e) s of
          (Inr n, s') \<Rightarrow> apfst (\<lambda>us. if n > 0 then fst e # us else us) (nonempty_queues h es s')
        | (Inl _, s') \<Rightarrow> nonempty_queues h es s')
      else nonempty_queues h es s)"

definition Disk_ListUsersWithQueuedEvents :: "Host \<Rightarrow> disk \<Rightarrow> string list result \<times> disk" where
  "Disk_ListUsersWithQueuedEvents h s =
     (let (st, s1) = os_Stat (Join [queueBasePath]) h s in
      if (case st of Inl e \<Rightarrow> IsNotExist e | Inr _ \<Rightarrow> False) then (Inr [], s1)
      else case os_ReadDir (Join [queueBasePath]) h s1 of
        (Inl e, s2) \<Rightarrow> (Inl (Wrap ''failed to read queue base directory'' e), s2)
      | (Inr es, s2) \<Rightarrow> apfst Inr (nonempty_queues h es s2))"

definition Disk_PurgeQueueForUser :: "Host \<Rightarrow> string \<Rightarrow> disk \<Rightarrow> int result \<times> disk" where
  "Disk_PurgeQueueForUser h userID s =
     (let userQueueDir = Join [queueBasePath, userID]; (st, s1) = os_Stat userQueueDir h s in
      if (case st of Inl e \<Rightarrow> IsNotExist e | Inr _ \<Rightarrow> False) then (Inr 0, s1)
      else case Disk_GetQueueSize h userID s1 of
        (Inl e, s2) \<Rightarrow> (Inl e, s2)
      | (Inr queueSize, s2) \<Rightarrow> (case os_RemoveAll userQueueDir h s2 of
          (Inl e, s3) \<Rightarrow> (Inl (Wrap ''failed to purge queue directory'' e), s3)
        | (Inr _, s3) \<Rightarrow> (Inr queueSize, s3)))"

end
