(* ===== verification/Disk_Queue.thy ===== *)
theory Disk_Queue
  imports Disk_Store Queue_Spec
begin

text \<open>
  The scrobble queue of the file store refines the abstract queue of \<open>Queue_Spec\<close> with the file
  name as key, provided identifiers have the form \<open>generateEventID\<close> gives them and user names are
  proper directory names.  What happens otherwise is shown by examples.
\<close>

section \<open>File names\<close>

definition hexdigits :: string where
  "hexdigits = ''0123456789abcdef''"

lemma hexdigits_no: "CHR ''-'' \<notin> set hexdigits" "CHR ''/'' \<notin> set hexdigits" "CHR 0x00 \<notin> set hexdigits"
  by (simp_all add: hexdigits_def)

text \<open>The form of a generated identifier: 36 bytes with dashes in four places.\<close>

definition uuid_shape :: "string \<Rightarrow> bool" where
  "uuid_shape i \<longleftrightarrow> length i = 36 \<and> list_all (\<lambda>k. (i ! k = CHR ''-'') = (k \<in> set [8, 13, 18, 23])) [0..<36] \<and>
     list_all (\<lambda>c. c = CHR ''-'' \<or> c \<in> set hexdigits) i"

lemma uuid_shape_dash: "uuid_shape i \<Longrightarrow> k < 36 \<Longrightarrow> i ! k = CHR ''-'' \<longleftrightarrow> k \<in> {8, 13, 18, 23}"
  by (simp add: uuid_shape_def list_all_iff)

definition file_ok :: "QueuedScrobbleEvent \<Rightarrow> bool" where
  "file_ok ev \<longleftrightarrow> uuid_shape (ev_ID ev) \<and> 0 \<le> Unix (ev_CreatedAt ev) \<and> Unix (ev_CreatedAt ev) < 10 ^ 12"

definition user_ok :: "string \<Rightarrow> bool" where
  "user_ok u \<longleftrightarrow> name_ok u \<and> u \<noteq> ''.gitkeep''"

lemma length_digits: "n < 10 ^ k \<Longrightarrow> 0 < k \<Longrightarrow> length (digits n) \<le> k"
proof (induction n arbitrary: k rule: digits.induct)
  case (1 n)
  show ?case
  proof (cases "n < 10")
    case False
    then have "k \<noteq> 1" using "1.prems"(1) by auto
    then obtain j where j: "k = Suc j" "0 < j" using "1.prems"(2) by (cases k) auto
    then have "n div 10 < 10 ^ j" using "1.prems"(1) by (simp add: less_mult_imp_div_less mult.commute)
    then show ?thesis using "1.IH" [OF False, of j] j False by (subst digits.simps) simp
  qed (use "1.prems" in \<open>subst digits.simps, simp\<close>)
qed

lemma digits_no: "(of_char c :: nat) < 48 \<Longrightarrow> c \<notin> set (digits n)"
  using digits_bytes [of c n] by auto

lemma event_file_digits:
  assumes "file_ok ev"
  shows "event_file ev = digits (nat (Unix (ev_CreatedAt ev))) @ ''-'' @ ev_ID ev @ ''.json''"
    and "length (digits (nat (Unix (ev_CreatedAt ev)))) \<le> 12"
proof -
  show "event_file ev = digits (nat (Unix (ev_CreatedAt ev))) @ ''-'' @ ev_ID ev @ ''.json''"
    using assms by (simp add: event_file_def file_ok_def itoa_def)
  have "nat (Unix (ev_CreatedAt ev)) < 10 ^ 12" using assms by (simp add: file_ok_def nat_less_iff)
  then show "length (digits (nat (Unix (ev_CreatedAt ev)))) \<le> 12" by (rule length_digits) simp
qed

lemma name_ok_event_file:
  assumes "file_ok ev"
  shows "name_ok (event_file ev)"
proof -
  have id: "length (ev_ID ev) = 36" "\<And>c. c \<noteq> CHR ''-'' \<Longrightarrow> c \<notin> set hexdigits \<Longrightarrow> c \<notin> set (ev_ID ev)"
    using assms unfolding file_ok_def uuid_shape_def list_all_iff by blast+
  have "CHR ''/'' \<notin> set (ev_ID ev)" "CHR 0x00 \<notin> set (ev_ID ev)" by (rule id(2), simp, rule hexdigits_no)+
  then have "CHR ''/'' \<notin> set (event_file ev)" "CHR 0x00 \<notin> set (event_file ev)"
    using digits_no [of "CHR ''/''"] digits_no [of "CHR 0x00"] by (simp_all add: event_file_digits(1) [OF assms])
  moreover have "length (event_file ev) \<le> 255" "3 \<le> length (event_file ev)"
    using event_file_digits(2) [OF assms] id(1) by (simp_all add: event_file_digits(1) [OF assms])
  ultimately show ?thesis by (auto simp: name_ok_def)
qed

lemma event_file_inject:
  assumes "file_ok a" "file_ok b" "event_file a = event_file b"
  shows "ev_ID a = ev_ID b"
proof -
  have len: "length (''-'' @ ev_ID a @ ''.json'') = length (''-'' @ ev_ID b @ ''.json'')"
    using assms(1,2) by (simp add: file_ok_def uuid_shape_def)
  have "digits (nat (Unix (ev_CreatedAt a))) @ (''-'' @ ev_ID a @ ''.json'') = digits (nat (Unix (ev_CreatedAt b))) @ (''-'' @ ev_ID b @ ''.json'')"
    using assms(3) unfolding event_file_digits(1) [OF assms(1)] event_file_digits(1) [OF assms(2)] .
  with len have "''-'' @ ev_ID a @ ''.json'' = ''-'' @ ev_ID b @ ''.json''" using append_eq_append_conv by blast
  then show ?thesis by simp
qed

text \<open>
  Searching for a generated identifier finds exactly its file, although only the name is searched: the
  dashes fix the position.
\<close>

lemma nth_event_file_dash:
  assumes "uuid_shape j" "CHR ''-'' \<notin> set d" "k < length d + 42"
  shows "(d @ ''-'' @ j @ ''.json'') ! k = CHR ''-'' \<longleftrightarrow> k \<in> {length d, length d + 9, length d + 14, length d + 19, length d + 24}"
proof -
  have l: "length j = 36" using assms(1) by (simp add: uuid_shape_def)
  consider "k < length d" | "k = length d" | n where "k = length d + 1 + n" "n < 36" | n where "k = length d + 37 + n" "n < 5"
  proof -
    have "k < length d \<or> k = length d \<or> (\<exists>n < 36. k = length d + 1 + n) \<or> (\<exists>n < 5. k = length d + 37 + n)" using assms(3) by presburger
    with that show thesis by blast
  qed
  then show ?thesis
  proof cases
    case 1
    then have "d ! k \<noteq> CHR ''-''" using assms(2) nth_mem by metis
    with 1 show ?thesis by (auto simp: nth_append)
  next
    case (3 n)
    with uuid_shape_dash [OF assms(1), of n] l show ?thesis by (simp add: nth_append)
  next
    case (4 n)
    then have "(d @ ''-'' @ j @ ''.json'') ! k = ''.json'' ! n" using l by (simp add: nth_append)
    moreover have "n = 0 \<or> n = 1 \<or> n = 2 \<or> n = 3 \<or> n = 4" using 4(2) by linarith
    then have "''.json'' ! n \<noteq> CHR ''-''" by (elim disjE) simp_all
    ultimately show ?thesis using 4 by simp
  qed (simp add: nth_append)
qed

lemma Contains_event_file:
  assumes "file_ok ev" "uuid_shape i"
  shows "Contains (event_file ev) i \<longleftrightarrow> ev_ID ev = i"
proof
  define d where "d = digits (nat (Unix (ev_CreatedAt ev)))"
  have fname: "event_file ev = d @ ''-'' @ ev_ID ev @ ''.json''" using event_file_digits(1) [OF assms(1)] by (simp add: d_def)
  have id: "uuid_shape (ev_ID ev)" "length (ev_ID ev) = 36" using assms(1) by (simp_all add: file_ok_def uuid_shape_def)
  have d: "CHR ''-'' \<notin> set d" by (simp add: d_def digits_no)
  assume "Contains (event_file ev) i"
  then obtain u v where uv: "event_file ev = u @ i @ v" by (auto simp: Contains_iff)
  have i: "length i = 36" using assms(2) by (simp add: uuid_shape_def)
  have "length (event_file ev) = length d + 42" using fname id(2) by simp
  then have len: "length u + 36 \<le> length d + 42" using uv i by simp
  have at: "length u + k \<in> {length d, length d + 9, length d + 14, length d + 19, length d + 24}" if "k \<in> {8, 13, 18, 23}" for k
  proof -
    have "k < 36" using that by auto
    then have "event_file ev ! (length u + k) = CHR ''-''"
      using uuid_shape_dash [OF assms(2), of k] that i by (simp add: uv nth_append)
    moreover have "length u + k < length d + 42" using \<open>k < 36\<close> len by linarith
    ultimately show ?thesis using nth_event_file_dash [OF id(1) d, of "length u + k"] unfolding fname by blast
  qed
  have "length u = length d + 1" using at [of 8] at [of 13] at [of 18] at [of 23] by simp linarith
  moreover have "(d @ ''-'') @ (ev_ID ev @ ''.json'') = u @ (i @ v)" using uv unfolding fname by simp
  ultimately have "ev_ID ev @ ''.json'' = i @ v" using append_eq_append_conv [of "d @ ''-''" u "ev_ID ev @ ''.json''" "i @ v"] by simp
  then show "ev_ID ev = i" using append_eq_append_conv [of "ev_ID ev" i] i id(2) by simp
next
  show "ev_ID ev = i \<Longrightarrow> Contains (event_file ev) i" unfolding Contains_iff event_file_def by (metis append_assoc)
qed

text \<open>Generated identifiers have the form.\<close>

lemma hex_encode_chars: "c \<in> set (hex_encode x) \<Longrightarrow> c \<in> set hexdigits"
proof -
  have "hexdigit n \<in> set hexdigits" if "n < 16" for n
    unfolding hexdigit_def hexdigits_def using that by (intro nth_mem) simp
  moreover have "unat b div 16 < 16" "unat b mod 16 < 16" for b :: "8 word" using unat_byte_less [of b] by simp_all
  ultimately show "c \<in> set (hex_encode x) \<Longrightarrow> ?thesis" by (auto simp: hex_encode_def hex_byte_def)
qed

lemma nth_dashed:
  assumes "length a = 8" "length b = 4" "length c = 4" "length d = 4" "length e = 12" "CHR ''-'' \<notin> set (a @ b @ c @ d @ e)" "k < 36"
  shows "(a @ ''-'' @ b @ ''-'' @ c @ ''-'' @ d @ ''-'' @ e) ! k = CHR ''-'' \<longleftrightarrow> k \<in> {8, 13, 18, 23}"
proof -
  have no: "n < length x \<Longrightarrow> x \<in> {a, b, c, d, e} \<Longrightarrow> x ! n \<noteq> CHR ''-''" for x n
    using assms(6) nth_mem [of n x] by force
  consider "k < 8" | "k = 8" | "8 < k \<and> k < 13" | "k = 13" | "13 < k \<and> k < 18" | "k = 18" | "18 < k \<and> k < 23" | "k = 23" | "23 < k"
    by linarith
  then show ?thesis
    by cases (use assms(1-5,7) no in \<open>auto simp: nth_append nth_Cons'\<close>)
qed

lemma generated_id_shape:
  assumes "length b = 16" "generateEventID (Inr b) = Inr i"
  shows "uuid_shape i"
proof -
  let ?h = "\<lambda>m n. hex_encode (slice m n (v4_bits b))"
  have i: "i = ?h 0 4 @ ''-'' @ ?h 4 6 @ ''-'' @ ?h 6 8 @ ''-'' @ ?h 8 10 @ ''-'' @ ?h 10 16"
    using assms(2) by (simp add: generateEventID_def Let_def)
  have "CHR ''-'' \<notin> set (hex_encode x)" for x using hex_encode_chars [of "CHR ''-''" x] hexdigits_no(1) by blast
  then have dash: "i ! k = CHR ''-'' \<longleftrightarrow> k \<in> {8, 13, 18, 23}" if "k < 36" for k
    unfolding i using that assms(1) by (intro nth_dashed) (simp_all add: slice_def)
  have "length i = 36" using generateEventID_length [OF assms] .
  moreover have "c = CHR ''-'' \<or> c \<in> set hexdigits" if "c \<in> set i" for c
    using that hex_encode_chars [of c] unfolding i set_append by (elim UnE) simp_all
  ultimately show ?thesis using dash by (simp add: uuid_shape_def list_all_iff)
qed

section \<open>Representation\<close>

definition queueDir :: path where
  "queueDir = [''keystore'', ''queue'']"

definition disk_holds :: "(path \<times> node) list \<Rightarrow> squeue \<Rightarrow> bool" where
  "disk_holds m q \<longleftrightarrow> tree m \<and> node_at m [''keystore''] \<in> {None, Some Dir} \<and> node_at m queueDir \<in> {None, Some Dir} \<and>
     (\<forall>u. node_at m (queueDir @ [u]) \<in> (if user_ok u then {None, Some Dir} else {None})) \<and>
     (\<forall>u n. node_at m (queueDir @ [u, n]) = map_option (\<lambda>ev. File (event_text ev)) (find (\<lambda>ev. event_file ev = n) (q u))) \<and>
     (\<forall>u. sorted (map event_file (q u)) \<and> list_all file_ok (q u)) \<and> events_ok q"

lemma Join_queue: "Join [queueBasePath] = queueDir" "name_ok u \<Longrightarrow> Join [queueBasePath, u] = queueDir @ [u]"
  "name_ok u \<Longrightarrow> name_ok n \<Longrightarrow> Join [path_text (queueDir @ [u]), n] = queueDir @ [u, n]"
  by (simp_all add: Join_def queueBasePath_def queueDir_def clean_step_def name_ok_def split_slash_plain)

lemma queueDir_names [simp]: "names queueDir" "queueDir \<noteq> []"
  by (simp_all add: queueDir_def name_ok_def)

lemma disk_holds_fields:
  assumes "disk_holds m q"
  shows "tree m" "node_at m queueDir \<in> {None, Some Dir}" "node_at m (queueDir @ [u]) \<in> {None, Some Dir}"
    "node_at m (queueDir @ [u]) \<noteq> None \<Longrightarrow> user_ok u" "sorted (map event_file (q u))" "events_ok q"
    "\<And>ev. ev \<in> set (q u) \<Longrightarrow> file_ok ev"
  using assms by (auto simp: disk_holds_def list_all_iff split: if_splits)

lemma find_file:
  assumes "disk_holds m q" "ev \<in> set (q u)"
  shows "find (\<lambda>e. event_file e = event_file ev) (q u) = Some ev"
proof -
  have "e = ev" if "e \<in> set (q u)" "event_file e = event_file ev" for e
    using ids_unique [OF disk_holds_fields(6) [OF assms(1)] that(1) assms(2)] disk_holds_fields(7) [OF assms(1)]
      event_file_inject [of e ev] that assms(2) by blast
  then show ?thesis using assms(2) by (intro find_unique) auto
qed

lemma disk_holds_file:
  assumes "disk_holds m q" "ev \<in> set (q u)"
  shows "node_at m (queueDir @ [u, event_file ev]) = Some (File (event_text ev))" "node_at m (queueDir @ [u]) = Some Dir" "user_ok u"
proof -
  show f: "node_at m (queueDir @ [u, event_file ev]) = Some (File (event_text ev))"
    using assms find_file [OF assms] by (simp add: disk_holds_def)
  from tree_parent [OF disk_holds_fields(1) [OF assms(1)] f] show d: "node_at m (queueDir @ [u]) = Some Dir" by (simp add: butlast_append)
  then show "user_ok u" using disk_holds_fields(4) [OF assms(1)] by simp
qed

lemma disk_holds_find:
  "disk_holds m q \<Longrightarrow> node_at m (queueDir @ [u, n]) = map_option (\<lambda>ev. File (event_text ev)) (find (\<lambda>ev. event_file ev = n) (q u))"
  by (simp add: disk_holds_def)

lemma file_of_event: "node_at m (queueDir @ [u, n]) = Some x \<Longrightarrow> disk_holds m q \<Longrightarrow>
    \<exists>ev \<in> set (q u). event_file ev = n \<and> x = File (event_text ev)"
  by (auto simp: disk_holds_def dest: find_SomeD)

text \<open>What lies below the queue directory.\<close>

lemma below_queue:
  assumes "disk_holds m q" "node_at m (queueDir @ r) = Some x"
  shows "x = Dir \<and> length r \<le> 1 \<or> (\<exists>u ev. ev \<in> set (q u) \<and> r = [u, event_file ev] \<and> x = File (event_text ev))"
proof -
  consider "r = []" | u where "r = [u]" | u n where "r = [u, n]" | u n c r' where "r = u # n # c # r'"
    by (metis list.exhaust)
  then show ?thesis
  proof cases
    case 1
    then show ?thesis using assms disk_holds_fields(2) by force
  next
    case (2 u)
    then show ?thesis using assms disk_holds_fields(3) [OF assms(1), of u] by auto
  next
    case (3 u n)
    then show ?thesis using assms file_of_event by blast
  next
    case (4 u n c r')
    then have "take (length queueDir + 2) (queueDir @ r) = queueDir @ [u, n]" by simp
    then have "node_at m (queueDir @ [u, n]) = Some Dir"
      using tree_above [OF disk_holds_fields(1) [OF assms(1)], of "queueDir @ r" "length queueDir + 2"] assms(2) 4 by simp
    then show ?thesis using file_of_event [OF _ assms(1)] by fastforce
  qed
qed

lemma queue_children:
  assumes "disk_holds m q"
  shows "children (queueDir @ [u]) m = map event_file (q u)"
proof -
  have sorted: "sorted (map event_file (q u))" by (rule disk_holds_fields(5) [OF assms])
  have "inj_on event_file (set (q u))"
  proof (rule inj_onI)
    fix a b
    assume ab: "a \<in> set (q u)" "b \<in> set (q u)" "event_file a = event_file b"
    from find_file [OF assms ab(1)] have "find (\<lambda>e. event_file e = event_file b) (q u) = Some a" unfolding ab(3) .
    with find_file [OF assms ab(2)] show "a = b" by (simp only: option.inject)
  qed
  moreover have "distinct (q u)" using disk_holds_fields(6) [OF assms] by (simp add: events_ok_def distinct_map)
  ultimately have dist: "distinct (map event_file (q u))" by (simp add: distinct_map)
  have "map_of m (queueDir @ [u, n]) \<noteq> None \<longleftrightarrow> n \<in> event_file ` set (q u)" for n
  proof -
    have "map_of m (queueDir @ [u, n]) = node_at m (queueDir @ [u, n])" by (simp add: node_at_def)
    moreover have "\<exists>ev \<in> set (q u). event_file ev = n" if "node_at m (queueDir @ [u, n]) = Some x" for x
      using file_of_event [OF that assms] by blast
    moreover have "node_at m (queueDir @ [u, n]) \<noteq> None" if "ev \<in> set (q u)" "n = event_file ev" for ev
      using disk_holds_file(1) [OF assms that(1)] that(2) by simp
    ultimately show ?thesis by (metis imageE image_eqI not_None_eq)
  qed
  then have "set (children (queueDir @ [u]) m) = set (map event_file (q u))" by (auto simp: children_set)
  then show ?thesis using sorted dist children_sorted sorted_distinct_set_unique by blast
qed

lemma HasSuffix_append: "HasSuffix (s @ p) p"
  by (simp add: HasSuffix_def)

lemma json_event_files:
  assumes "disk_holds m q"
  shows "json_files (map (\<lambda>n. (n, node_at m ((queueDir @ [u]) @ [n]) = Some Dir)) (children (queueDir @ [u]) m)) = map event_file (q u)"
proof -
  have "\<not> node_at m (queueDir @ [u, event_file ev]) = Some Dir" if "ev \<in> set (q u)" for ev using disk_holds_file(1) [OF assms that] by simp
  moreover have "HasSuffix (event_file ev) ''.json''" for ev
    using HasSuffix_append [of "itoa (Unix (ev_CreatedAt ev)) @ ''-'' @ ev_ID ev" "''.json''"] by (simp add: event_file_def)
  ultimately show ?thesis unfolding queue_children [OF assms] json_files_def by (simp add: filter_map comp_def cong: filter_cong)
qed

section \<open>Reading\<close>

definition keeps :: "disk \<Rightarrow> disk \<Rightarrow> bool" where
  "keeps s s' \<longleftrightarrow> nodes s' = nodes s"

lemma keeps_simps [simp]: "keeps s (tick s)" "keeps s s" "keeps s t \<Longrightarrow> keeps t t' \<Longrightarrow> keeps s t'"
  by (simp_all add: keeps_def)

lemma absent_queue:
  assumes "disk_holds m q" "node_at m (queueDir @ [u]) = None"
  shows "q u = []" "missing m (queueDir @ [u]) = ENOENT"
proof -
  show "q u = []"
  proof (rule ccontr)
    assume "q u \<noteq> []"
    from disk_holds_file(2) [OF assms(1) hd_in_set [OF this]] assms(2) show False by simp
  qed
  have "clear_to m (queueDir @ [u])"
    using assms(1) by (auto simp: clear_to_def disk_holds_def queueDir_def less_Suc_eq)
  then show "missing m (queueDir @ [u]) = ENOENT" by (rule missing_clear)
qed

lemma user_ok_name: "user_ok u \<Longrightarrow> name_ok u"
  by (simp add: user_ok_def)

lemma GetQueueSize_files:
  assumes "calm h" "disk_holds (nodes s) q" "user_ok u"
  shows "\<exists>s'. Disk_GetQueueSize h u s = (Inr (int (length (q u))), s') \<and> keeps s s'"
proof -
  note n = user_ok_name [OF assms(3)]
  show ?thesis
  proof (cases "node_at (nodes s) (queueDir @ [u])")
    case None
    with absent_queue [OF assms(2) None] show ?thesis
      by (auto simp: Disk_GetQueueSize_def Join_queue n Stat_calm [OF assms(1)])
  next
    case (Some x)
    then have "x = Dir" using disk_holds_fields(3) [OF assms(2), of u] by auto
    with Some show ?thesis
      using json_event_files [OF assms(2), of u]
      by (auto simp: Disk_GetQueueSize_def Join_queue n Stat_calm [OF assms(1)] ReadDir_calm [OF assms(1)] keeps_def)
  qed
qed

lemma read_events_files:
  assumes "calm h" "name_ok u"
  shows "disk_holds (nodes s) q \<Longrightarrow> set evs \<subseteq> set (q u) \<Longrightarrow>
    \<exists>s'. read_events h (queueDir @ [u]) (map event_file evs) s = Some (evs, s') \<and> keeps s s'"
proof (induction evs arbitrary: s)
  case (Cons ev evs)
  have ev: "ev \<in> set (q u)" using Cons.prems(2) by simp
  have "name_ok (event_file ev)" by (rule name_ok_event_file [OF disk_holds_fields(7) [OF Cons.prems(1) ev]])
  then have "os_ReadFile (queueDir @ [u, event_file ev]) h s = (Inr (event_text ev), tick s)"
    using disk_holds_file(1) [OF Cons.prems(1) ev] assms by (simp add: ReadFile_calm)
  moreover have "deserializeEvent (event_text ev) = DecOk ev"
    using event_text_storable events_ok_fields(1) [OF disk_holds_fields(6) [OF Cons.prems(1)] ev] by blast
  moreover obtain s' where "read_events h (queueDir @ [u]) (map event_file evs) (tick s) = Some (evs, s')" "keeps (tick s) s'"
    using Cons.IH [of "tick s"] Cons.prems by auto
  ultimately show ?case by (auto simp: keeps_def)
qed simp

lemma DequeueScrobbles_files:
  assumes "calm h" "disk_holds (nodes s) q" "user_ok u"
  shows "\<exists>s'. Disk_DequeueScrobbles h u (int n) s = Some (Inr (take n (q u)), s') \<and> keeps s s'"
proof -
  note nm = user_ok_name [OF assms(3)]
  show ?thesis
  proof (cases "node_at (nodes s) (queueDir @ [u])")
    case None
    with absent_queue [OF assms(2) None] show ?thesis
      by (auto simp: Disk_DequeueScrobbles_def Join_queue nm Stat_calm [OF assms(1)])
  next
    case (Some x)
    then have x: "x = Dir" using disk_holds_fields(3) [OF assms(2), of u] by auto
    have "sort (map event_file (q u)) = map event_file (q u)" using disk_holds_fields(5) [OF assms(2)] by (simp add: sorted_sort_id)
    moreover obtain s' where "read_events h (queueDir @ [u]) (map event_file (take n (q u))) (tick (tick s)) = Some (take n (q u), s')"
        "keeps (tick (tick s)) s'"
      using read_events_files [OF assms(1) nm, of "tick (tick s)" q "take n (q u)"] assms(2) by (auto dest: in_set_takeD)
    ultimately show ?thesis
      using json_event_files [OF assms(2), of u] Some x
      by (auto simp: Disk_DequeueScrobbles_def Join_queue nm Stat_calm [OF assms(1)] ReadDir_calm [OF assms(1)] take_map keeps_def)
  qed
qed

section \<open>Changing files\<close>

lemma under_queue: "under (queueDir @ [u]) (queueDir @ v # r) \<longleftrightarrow> v = u" "\<not> under (queueDir @ [u]) queueDir" "\<not> under (queueDir @ [u]) [''keystore'']"
  by (auto simp: under_def queueDir_def)

lemma disk_holds_change:
  assumes "disk_holds m q" "tree m'" "\<And>p. \<not> under (queueDir @ [u]) p \<Longrightarrow> node_at m' p = node_at m p"
    "node_at m' (queueDir @ [u]) \<in> {None, Some Dir}" "user_ok u"
    "\<And>n. node_at m' (queueDir @ [u, n]) = map_option (\<lambda>ev. File (event_text ev)) (find (\<lambda>ev. event_file ev = n) evs)"
    "sorted (map event_file evs)" "list_all file_ok evs" "events_ok (q(u := evs))"
  shows "disk_holds m' (q(u := evs))"
  unfolding disk_holds_def
proof (intro conjI allI)
  fix v n
  show "node_at m' (queueDir @ [v]) \<in> (if user_ok v then {None, Some Dir} else {None})"
    using assms(1,3-5) under_queue(1) [of u v "[]"] by (cases "v = u") (auto simp: disk_holds_def)
  show "node_at m' (queueDir @ [v, n]) = map_option (\<lambda>ev. File (event_text ev)) (find (\<lambda>ev. event_file ev = n) ((q(u := evs)) v))"
    using assms(1,3,6) under_queue(1) [of u v "[n]"] by (cases "v = u") (auto simp: disk_holds_def)
  show "sorted (map event_file ((q(u := evs)) v))" "list_all file_ok ((q(u := evs)) v)"
    using assms(1,7,8) by (auto simp: disk_holds_def)
qed (use assms(1-3,9) under_queue(2,3) in \<open>auto simp: disk_holds_def\<close>)

lemma find_insort_key:
  "k ev \<notin> k ` set evs \<Longrightarrow> find (\<lambda>e. k e = n) (insort_key k ev evs) = (if n = k ev then Some ev else find (\<lambda>e. k e = n) evs)"
  by (induction evs) auto

lemma find_filter_neq:
  "inj_on k (set evs) \<Longrightarrow> ev \<in> set evs \<Longrightarrow> find (\<lambda>e. k e = n) (filter (\<lambda>e. e \<noteq> ev) evs) = (if n = k ev then None else find (\<lambda>e. k e = n) evs)"
proof -
  assume inj: "inj_on k (set evs)" "ev \<in> set evs"
  have "find (\<lambda>e. k e = n) (filter (\<lambda>e. e \<noteq> ev) xs) = find (\<lambda>e. k e = n) xs" if "n \<noteq> k ev" for xs
    using that by (induction xs) auto
  moreover have "find (\<lambda>e. k e = k ev) (filter (\<lambda>e. e \<noteq> ev) evs) = None"
    using inj by (auto simp: find_None_iff inj_on_def)
  ultimately show ?thesis by simp
qed

lemma event_file_inj_on: "disk_holds m q \<Longrightarrow> inj_on event_file (set (q u))"
  by (rule inj_onI) (metis find_file option.inject)

lemma event_file_new:
  assumes "disk_holds m q" "file_ok ev" "ev_ID ev \<notin> ev_ID ` set (q u)"
  shows "event_file ev \<notin> event_file ` set (q u)"
  using event_file_inject [OF assms(2)] disk_holds_fields(7) [OF assms(1)] assms(3) by (metis imageE image_eqI)

lemma node_at_file_put:
  "node_at (put_node (queueDir @ [u, f]) x m) (queueDir @ [u, n]) = (if n = f then Some x else node_at m (queueDir @ [u, n]))"
  "node_at (put_node (queueDir @ [u, f]) x m) (queueDir @ [u]) = node_at m (queueDir @ [u])"
  "\<not> under (queueDir @ [u]) p \<Longrightarrow> node_at (put_node (queueDir @ [u, f]) x m) p = node_at m p"
  using under_queue(1) [of u u "[f]"] by (auto simp: node_at_put)

lemma disk_holds_insert:
  assumes "disk_holds m q" "node_at m (queueDir @ [u]) = Some Dir" "file_ok ev" "event_storable ev" "ev_UserID ev = u" "ev_ID ev \<notin> ids q"
  shows "disk_holds (put_node (queueDir @ [u, event_file ev]) (File (event_text ev)) m) (q(u := insort_key event_file ev (q u)))"
proof -
  let ?p = "queueDir @ [u, event_file ev]"
  have new: "event_file ev \<notin> event_file ` set (q u)" using event_file_new [OF assms(1,3)] assms(6) by (auto simp: ids_def)
  have u: "user_ok u" using disk_holds_fields(4) [OF assms(1)] assms(2) by simp
  have "node_at m ?p \<noteq> Some Dir" using file_of_event [OF _ assms(1)] by blast
  then have "tree (put_node ?p (File (event_text ev)) m)"
    using tree_put [OF disk_holds_fields(1) [OF assms(1)], of ?p] assms(2) by (simp add: butlast_append)
  moreover have "events_ok (q(u := insort_key event_file ev (q u)))"
    using events_ok_insort [OF disk_holds_fields(6) [OF assms(1)] assms(4), of event_file] assms(5,6) u by (simp add: user_ok_def name_ok_def)
  moreover have "list_all file_ok (insort_key event_file ev (q u))"
    using disk_holds_fields(7) [OF assms(1)] assms(3) by (auto simp: list_all_iff set_insort_key)
  moreover have "sorted (map event_file (insort_key event_file ev (q u)))"
    using disk_holds_fields(5) [OF assms(1)] by (simp add: sorted_insort_key)
  ultimately show ?thesis
    using disk_holds_change [OF assms(1), where u = u and evs = "insort_key event_file ev (q u)"] assms(1,2) u
    by (simp add: node_at_file_put find_insort_key [OF new] disk_holds_def)
qed

lemma disk_holds_remove:
  assumes "disk_holds m q" "ev \<in> set (q u)"
  shows "disk_holds (drop_nodes (\<lambda>p. p = queueDir @ [u, event_file ev]) m) (q(u := filter (\<lambda>e. e \<noteq> ev) (q u)))"
proof -
  let ?p = "queueDir @ [u, event_file ev]"
  have no: "node_at m q' = None" if "q' \<noteq> []" "butlast q' = ?p" for q'
  proof (rule ccontr)
    assume "node_at m q' \<noteq> None"
    then have "node_at m ?p = Some Dir" using tree_parent [OF disk_holds_fields(1) [OF assms(1)]] that(2) by fastforce
    then show False using disk_holds_file(1) [OF assms] by simp
  qed
  have tr: "tree (drop_nodes (\<lambda>p. p = ?p) m)"
    by (rule tree_drop [OF disk_holds_fields(1) [OF assms(1)]]) (simp add: no)
  have ok: "events_ok (q(u := filter (\<lambda>e. e \<noteq> ev) (q u)))" by (rule events_ok_filter [OF disk_holds_fields(6) [OF assms(1)]])
  have fs: "list_all file_ok (filter (\<lambda>e. e \<noteq> ev) (q u))"
    using disk_holds_fields(7) [OF assms(1)] by (auto simp: list_all_iff)
  have so: "sorted (map event_file (filter (\<lambda>e. e \<noteq> ev) (q u)))"
    using disk_holds_fields(5) [OF assms(1)] by (rule sorted_filter)
  have other: "node_at (drop_nodes (\<lambda>p. p = ?p) m) p = node_at m p" if "\<not> under (queueDir @ [u]) p" for p
    using that under_queue(1) [of u u "[event_file ev]"] by (auto simp: node_at_drop)
  have dir: "node_at (drop_nodes (\<lambda>p. p = ?p) m) (queueDir @ [u]) \<in> {None, Some Dir}"
    using disk_holds_file(2) [OF assms] by (simp add: node_at_drop)
  have at: "node_at (drop_nodes (\<lambda>p. p = ?p) m) (queueDir @ [u, n]) =
      map_option (\<lambda>e. File (event_text e)) (find (\<lambda>e. event_file e = n) (filter (\<lambda>e. e \<noteq> ev) (q u)))" for n
    unfolding find_filter_neq [OF event_file_inj_on [OF assms(1)] assms(2)] node_at_drop disk_holds_find [OF assms(1)] by simp
  show ?thesis by (rule disk_holds_change [OF assms(1) tr other dir disk_holds_file(3) [OF assms] at so fs ok])
qed

lemma disk_holds_retry:
  assumes "disk_holds m q" "ev \<in> set (q u)" "event_storable (ev\<lparr>RetryCount := k, LastAttempt := t\<rparr>)"
  shows "disk_holds (put_node (queueDir @ [u, event_file ev]) (File (event_text (ev\<lparr>RetryCount := k, LastAttempt := t\<rparr>))) m)
    (spec_retry event_file (ev_ID ev) k t q)"
proof -
  let ?ev = "ev\<lparr>RetryCount := k, LastAttempt := t\<rparr>" and ?q = "q(u := filter (\<lambda>e. e \<noteq> ev) (q u))"
  let ?p = "queueDir @ [u, event_file ev]"
  note ok = disk_holds_fields(6) [OF assms(1)]
  have f: "event_file ?ev = event_file ev" "file_ok ?ev" "ev_UserID ?ev = u"
    using disk_holds_fields(7) [OF assms(1,2)] events_ok_fields(2) [OF ok assms(2)] by (simp_all add: event_file_def file_ok_def)
  have new: "ev_ID ?ev \<notin> ids ?q" using ids_unique [OF ok _ assms(2)] by (auto simp: ids_def split: if_splits)
  let ?m = "drop_nodes (\<lambda>p. p = ?p) m"
  have dir: "node_at ?m (queueDir @ [u]) = Some Dir" using disk_holds_file(2) [OF assms(1,2)] by (simp add: node_at_drop)
  have "put_node ?p x ?m = put_node ?p x m" for x
    by (simp add: put_node_def drop_nodes_def)
  with disk_holds_insert [OF disk_holds_remove [OF assms(1,2)] dir f(2) assms(3) f(3) new] f(1)
  have "disk_holds (put_node ?p (File (event_text ?ev)) m) (q(u := insort_key event_file ?ev (filter (\<lambda>e. e \<noteq> ev) (q u))))" by simp
  moreover have "spec_retry event_file (ev_ID ev) k t q = q(u := insort_key event_file ?ev (filter (\<lambda>e. e \<noteq> ev) (q u)))"
  proof (rule spec_retry_one [OF ok assms(2) refl disk_holds_fields(5) [OF assms(1)]])
    have "event_file ?ev \<notin> event_file ` (set (q u) - {ev})"
      using event_file_inj_on [OF assms(1), of u] assms(2) unfolding f(1) by (auto simp: inj_on_def)
    then show "inj_on event_file (insert ?ev (set (q u) - {ev}))"
      using inj_on_subset [OF event_file_inj_on [OF assms(1), of u]] by (auto simp: inj_on_insert)
  qed
  ultimately show ?thesis by simp
qed

lemma under_butlast: "q \<noteq> [] \<Longrightarrow> under p (butlast q) \<Longrightarrow> under p q"
  unfolding under_iff by (metis append_assoc append_butlast_last_id)

lemma disk_holds_purge:
  assumes "disk_holds m q" "user_ok u"
  shows "disk_holds (drop_nodes (under (queueDir @ [u])) m) (q(u := []))"
proof (rule disk_holds_change [OF assms(1) _ _ _ assms(2)])
  show "tree (drop_nodes (under (queueDir @ [u])) m)"
    by (rule tree_drop [OF disk_holds_fields(1) [OF assms(1)]]) (rule under_butlast)
  show "events_ok (q(u := []))"
    by (rule events_ok_sub [OF disk_holds_fields(6) [OF assms(1)]]) (use disk_holds_fields(6) [OF assms(1)] in \<open>auto simp: events_ok_def\<close>)
qed (auto simp: node_at_drop under_def)

text \<open>Making the directory of a user.\<close>

lemma disk_holds_mkdir:
  assumes "disk_holds m q" "user_ok u" "tree m'" "\<And>p. node_at m' p = (if prefix p (queueDir @ [u]) then Some Dir else node_at m p)"
  shows "disk_holds m' q"
proof -
  have p: "prefix (queueDir @ v # r) (queueDir @ [u]) \<longleftrightarrow> v = u \<and> r = []" "prefix queueDir (queueDir @ [u])" "prefix [''keystore''] (queueDir @ [u])" for v r
    by (auto simp: queueDir_def)
  have "node_at m' (queueDir @ [v]) \<in> (if user_ok v then {None, Some Dir} else {None})" for v
  proof (cases "v = u")
    case False
    then have "node_at m' (queueDir @ [v]) = node_at m (queueDir @ [v])" by (simp add: assms(4) p)
    then show ?thesis using assms(1) unfolding disk_holds_def by metis
  qed (use assms(2) in \<open>simp add: assms(4)\<close>)
  then show ?thesis using assms(1,3) by (simp add: assms(4) p disk_holds_def)
qed

section \<open>The operations\<close>

lemma find_event_files:
  assumes "calm h" "disk_holds (nodes s) q" "uuid_shape i"
  shows "i \<notin> ids q \<Longrightarrow> find_event h i s = (None, tick s)"
    "ev \<in> set (q u) \<Longrightarrow> ev_ID ev = i \<Longrightarrow> find_event h i s = (Some (queueDir @ [u, event_file ev]), tick s)"
proof -
  let ?P = "\<lambda>p. node_at (nodes s) p \<noteq> Some Dir \<and> Contains (last p) i \<and> walk_sees (h_fault h (calls s)) queueDir p"
  have hit: "\<exists>v e. e \<in> set (q v) \<and> ev_ID e = i \<and> p = queueDir @ [v, event_file e]" if p: "p \<in> set (paths_under queueDir (nodes s))" "?P p" for p
  proof -
    obtain r x where r: "p = queueDir @ r" "node_at (nodes s) p = Some x"
      using p(1) by (auto simp: paths_under_set under_iff node_at_def)
    then obtain v e where e: "e \<in> set (q v)" "r = [v, event_file e]"
      using below_queue [OF assms(2), of r x] p(2) by auto
    then have "ev_ID e = i" using p(2) Contains_event_file [OF disk_holds_fields(7) [OF assms(2) e(1)] assms(3)] r(1) by simp
    then show ?thesis using e r(1) by blast
  qed
  have walk: "find_event h i s = (find ?P (paths_under queueDir (nodes s)), tick s)"
    by (simp add: find_event_def walk_find_def Join_queue(1))
  show "i \<notin> ids q \<Longrightarrow> find_event h i s = (None, tick s)"
  proof -
    assume "i \<notin> ids q"
    then have "\<not> ?P p" if "p \<in> set (paths_under queueDir (nodes s))" for p
      using hit [OF that] unfolding ids_def by blast
    then show ?thesis unfolding walk by (auto simp: find_None_iff)
  qed
  assume ev: "ev \<in> set (q u)" "ev_ID ev = i"
  let ?p = "queueDir @ [u, event_file ev]"
  have at: "node_at (nodes s) ?p = Some (File (event_text ev))" by (rule disk_holds_file(1) [OF assms(2) ev(1)])
  have "names ?p" using name_ok_event_file [OF disk_holds_fields(7) [OF assms(2) ev(1)]] user_ok_name [OF disk_holds_file(3) [OF assms(2) ev(1)]] by simp
  then have "walk_sees (h_fault h (calls s)) queueDir ?p"
    using calm_fault [OF assms(1) names_take] by (simp add: walk_sees_def list_all_iff del: take_append)
  then have P: "?P ?p" using at Contains_event_file [OF disk_holds_fields(7) [OF assms(2) ev(1)] assms(3)] ev(2) by simp
  have "?p \<in> set (paths_under queueDir (nodes s))" using at by (auto simp: paths_under_set under_def node_at_def)
  moreover have "y = ?p" if "y \<in> set (paths_under queueDir (nodes s))" "?P y" for y
    using hit [OF that] ids_unique [OF disk_holds_fields(6) [OF assms(2)] ev(1)] ev(2) by metis
  ultimately have "find ?P (paths_under queueDir (nodes s)) = Some ?p" using P by (intro find_unique)
  then show "find_event h i s = (Some ?p, tick s)" unfolding walk by simp
qed

lemma Delete_files:
  assumes "calm h" "disk_holds (nodes s) q" "uuid_shape i"
  shows "\<exists>s'. Disk_DeleteQueuedScrobble h i s = (None, s') \<and> disk_holds (nodes s') (spec_delete i q) \<and>
    (\<forall>v. node_at (nodes s') (queueDir @ [v]) = node_at (nodes s) (queueDir @ [v]))"
proof (cases "i \<in> ids q")
  case True
  then obtain u ev where ev: "ev \<in> set (q u)" "ev_ID ev = i" by (auto simp: ids_def)
  let ?p = "queueDir @ [u, event_file ev]"
  have "names ?p" using name_ok_event_file [OF disk_holds_fields(7) [OF assms(2) ev(1)]] user_ok_name [OF disk_holds_file(3) [OF assms(2) ev(1)]] by simp
  with Remove_calm [OF assms(1), of ?p "tick s"] disk_holds_file(1) [OF assms(2) ev(1)]
  have "os_Remove ?p h (tick s) = (Inr (), (tick (tick s))\<lparr>nodes := drop_nodes (\<lambda>p. p = ?p) (nodes s)\<rparr>)" by simp
  with find_event_files(2) [OF assms ev] disk_holds_remove [OF assms(2) ev(1)] spec_delete_one [OF disk_holds_fields(6) [OF assms(2)] ev]
  show ?thesis by (simp add: Disk_DeleteQueuedScrobble_def node_at_drop)
next
  case False
  with find_event_files(1) [OF assms False] assms(2) show ?thesis by (simp add: Disk_DeleteQueuedScrobble_def spec_delete_none)
qed

lemma Retry_files:
  assumes "calm h" "disk_holds (nodes s) q" "uuid_shape i" "in_int64 k" "\<And>n. four_digit_year (h_now h n)"
  shows "(i \<notin> ids q \<longrightarrow> Disk_UpdateQueuedScrobbleRetry h i k s = Some (Some (Err (''event not found: '' @ i)), tick s)) \<and>
    (i \<in> ids q \<longrightarrow> (\<exists>t s'. Disk_UpdateQueuedScrobbleRetry h i k s = Some (None, s') \<and> disk_holds (nodes s') (spec_retry event_file i k t q)))"
proof (cases "i \<in> ids q")
  case True
  then obtain u ev where ev: "ev \<in> set (q u)" "ev_ID ev = i" by (auto simp: ids_def)
  let ?p = "queueDir @ [u, event_file ev]" and ?t = "h_now h (calls (tick (tick s)))"
  let ?ev = "ev\<lparr>RetryCount := k, LastAttempt := ?t\<rparr>"
  have n: "names ?p" using name_ok_event_file [OF disk_holds_fields(7) [OF assms(2) ev(1)]] user_ok_name [OF disk_holds_file(3) [OF assms(2) ev(1)]] by simp
  note at = disk_holds_file(1) [OF assms(2) ev(1)]
  have st: "event_storable ev" using events_ok_fields(1) [OF disk_holds_fields(6) [OF assms(2)] ev(1)] .
  then have st': "event_storable ?ev" using assms(4,5) by (simp add: event_storable_iff)
  have r: "os_ReadFile ?p h (tick s) = (Inr (event_text ev), tick (tick s))" using ReadFile_calm [OF assms(1) n, of "tick s"] at by simp
  have "can_open ?p (nodes s) = None" using at by (simp add: can_open_def)
  then have w: "os_WriteFile ?p d h (tick (tick s)) = (Inr (), (tick (tick (tick s)))\<lparr>nodes := put_node ?p (File d) (nodes s)\<rparr>)" for d
    using WriteFile_calm [OF assms(1) n, of "tick (tick s)" d] by simp
  have "Disk_UpdateQueuedScrobbleRetry h i k s = Some (None, (tick (tick (tick s)))\<lparr>nodes := put_node ?p (File (event_text ?ev)) (nodes s)\<rparr>)"
    using find_event_files(2) [OF assms(1-3) ev] r w event_text_storable [OF st] event_text_storable [OF st']
    by (simp add: Disk_UpdateQueuedScrobbleRetry_def)
  with disk_holds_retry [OF assms(2) ev(1) st'] ev(2) True show ?thesis by auto
next
  case False
  with find_event_files(1) [OF assms(1-3)] show ?thesis by (simp add: Disk_UpdateQueuedScrobbleRetry_def)
qed

lemma Purge_files:
  assumes "calm h" "disk_holds (nodes s) q" "user_ok u"
  shows "\<exists>s'. Disk_PurgeQueueForUser h u s = (Inr (int (length (q u))), s') \<and> disk_holds (nodes s') (q(u := []))"
proof -
  note n = user_ok_name [OF assms(3)]
  show ?thesis
  proof (cases "node_at (nodes s) (queueDir @ [u])")
    case None
    with absent_queue [OF assms(2) None] assms(2) show ?thesis
      by (auto simp: Disk_PurgeQueueForUser_def Join_queue n Stat_calm [OF assms(1)] fun_upd_idem)
  next
    case (Some x)
    obtain t where t: "Disk_GetQueueSize h u (tick s) = (Inr (int (length (q u))), t)" "nodes t = nodes s"
      using GetQueueSize_files [OF assms(1) _ assms(3), of "tick s" q] assms(2) by (auto simp: keeps_def)
    have "clear_to (nodes t) (queueDir @ [u])" using clear_to_present [OF disk_holds_fields(1) [OF assms(2)]] Some t(2) by simp
    then have "os_RemoveAll (queueDir @ [u]) h t = (Inr (), (tick t)\<lparr>nodes := drop_nodes (under (queueDir @ [u])) (nodes s)\<rparr>)"
      using RemoveAll_calm [OF assms(1), of "queueDir @ [u]" t] n t(2) by simp
    with t(1) Some disk_holds_purge [OF assms(2,3)] show ?thesis
      by (simp add: Disk_PurgeQueueForUser_def Join_queue n Stat_calm [OF assms(1)])
  qed
qed

lemma nonempty_queues_files:
  assumes "calm h" "disk_holds m q"
  shows "nodes s = m \<Longrightarrow> \<forall>e \<in> set es. snd e \<longrightarrow> user_ok (fst e) \<Longrightarrow>
    \<exists>s'. nonempty_queues h es s = (filter (\<lambda>u. q u \<noteq> []) (map fst (filter snd es)), s') \<and> nodes s' = m"
proof (induction es arbitrary: s)
  case (Cons e es)
  show ?case
  proof (cases "snd e")
    case True
    then have u: "user_ok (fst e)" using Cons.prems(2) by simp
    obtain t where t: "Disk_GetQueueSize h (fst e) s = (Inr (int (length (q (fst e)))), t)" "nodes t = m"
      using GetQueueSize_files [OF assms(1) _ u, of s q] assms(2) Cons.prems(1) by (auto simp: keeps_def)
    from Cons.IH [OF t(2)] Cons.prems(2) obtain s' where
      "nonempty_queues h es t = (filter (\<lambda>u. q u \<noteq> []) (map fst (filter snd es)), s')" "nodes s' = m" by auto
    then show ?thesis using t(1) True u by (simp add: user_ok_def)
  qed (use Cons in simp)
qed simp

lemma Users_files:
  assumes "calm h" "disk_holds (nodes s) q"
  shows "\<exists>us s'. Disk_ListUsersWithQueuedEvents h s = (Inr us, s') \<and> keeps s s' \<and> set us = {u. q u \<noteq> []}"
proof (cases "node_at (nodes s) queueDir")
  case None
  have "clear_to (nodes s) queueDir" using assms(2) by (auto simp: clear_to_def disk_holds_def queueDir_def less_Suc_eq)
  moreover have "q u = []" for u
  proof (rule ccontr)
    assume "q u \<noteq> []"
    from tree_parent [OF disk_holds_fields(1) [OF assms(2)] disk_holds_file(2) [OF assms(2) hd_in_set [OF this]]] None show False
      by (simp add: butlast_append)
  qed
  ultimately show ?thesis using None by (simp add: Disk_ListUsersWithQueuedEvents_def Join_queue Stat_calm [OF assms(1)] missing_clear)
next
  case (Some x)
  then have dir: "node_at (nodes s) queueDir = Some Dir" using disk_holds_fields(2) [OF assms(2)] by auto
  let ?es = "map (\<lambda>n. (n, node_at (nodes s) (queueDir @ [n]) = Some Dir)) (children queueDir (nodes s))"
  have "user_ok u" if "node_at (nodes s) (queueDir @ [u]) = Some Dir" for u using disk_holds_fields(4) [OF assms(2)] that by simp
  then obtain s' where s': "nonempty_queues h ?es (tick (tick s)) = (filter (\<lambda>u. q u \<noteq> []) (map fst (filter snd ?es)), s')" "nodes s' = nodes s"
    using nonempty_queues_files [OF assms, of "tick (tick s)" ?es] by auto
  have "u \<in> set (map fst (filter snd ?es))" if "q u \<noteq> []" for u
  proof -
    have "node_at (nodes s) (queueDir @ [u]) = Some Dir" using disk_holds_file(2) [OF assms(2) hd_in_set [OF that]] .
    then show ?thesis by (auto simp: children_set node_at_def image_iff)
  qed
  then have "set (filter (\<lambda>u. q u \<noteq> []) (map fst (filter snd ?es))) = {u. q u \<noteq> []}" by auto
  with s' dir show ?thesis
    by (auto simp: Disk_ListUsersWithQueuedEvents_def Join_queue Stat_calm [OF assms(1)] ReadDir_calm [OF assms(1)] keeps_def)
qed

lemma evict_files:
  assumes "calm h" "disk_holds (nodes s) q" "q u \<noteq> []"
  shows "\<exists>r s'. evictOldestEvent h u s = Some (r, s') \<and> disk_holds (nodes s') (q(u := tl (q u))) \<and>
    node_at (nodes s') (queueDir @ [u]) = Some Dir"
proof -
  note hd = hd_in_set [OF assms(3)]
  have d: "node_at (nodes s) (queueDir @ [u]) = Some Dir" "user_ok u" using disk_holds_file(2,3) [OF assms(2) hd] by simp_all
  obtain t where t: "Disk_DequeueScrobbles h u 1 s = Some (Inr [hd (q u)], t)" "nodes t = nodes s"
    using DequeueScrobbles_files [OF assms(1,2) d(2), of 1] assms(3) by (cases "q u") (auto simp: keeps_def)
  have "uuid_shape (ev_ID (hd (q u)))" using disk_holds_fields(7) [OF assms(2) hd] by (simp add: file_ok_def)
  from Delete_files [OF assms(1) _ this, of t q] assms(2) t(2) d(1) obtain s' where
    s': "Disk_DeleteQueuedScrobble h (ev_ID (hd (q u))) t = (None, s')" "disk_holds (nodes s') (spec_delete (ev_ID (hd (q u))) q)"
    "node_at (nodes s') (queueDir @ [u]) = Some Dir" by auto
  have "distinct (q u)" using disk_holds_fields(6) [OF assms(2)] by (simp add: events_ok_def distinct_map)
  then have "filter (\<lambda>e. e \<noteq> hd (q u)) (q u) = tl (q u)" using assms(3) by (cases "q u") (auto simp: filter_id_conv)
  then have "spec_delete (ev_ID (hd (q u))) q = q(u := tl (q u))"
    using spec_delete_one [OF disk_holds_fields(6) [OF assms(2)] hd refl] by simp
  with s' t(1) show ?thesis by (simp add: evictOldestEvent_def)
qed

lemma enqueue_checked_files:
  assumes "calm h" "disk_holds (nodes (files st)) q" "user_ok (ev_UserID ev)" "file_ok ev" "event_storable ev" "ev_ID ev \<notin> ids q"
  shows "\<exists>s'. disk_enqueue_checked h ev st = Some (None, st\<lparr>files := s'\<rparr>) \<and> disk_holds (nodes s') (spec_enqueue event_file ev q)"
proof -
  let ?u = "ev_UserID ev" and ?full = "int (length (q (ev_UserID ev))) \<ge> maxQueuePerUser"
  let ?dir = "queueDir @ [?u]" and ?q = "q(?u := if ?full then tl (q ?u) else q ?u)"
  note n = user_ok_name [OF assms(3)]
  have "node_at (nodes (files st)) p \<in> {None, Some Dir}" if "prefix p ?dir" for p
    using that assms(2) by (auto simp: queueDir_def prefix_Cons disk_holds_def split: if_splits)
  then obtain s1 where s1: "os_MkdirAll ?dir h (files st) = (None, s1)" "tree (nodes s1)"
    "\<And>p. node_at (nodes s1) p = (if prefix p ?dir then Some Dir else node_at (nodes (files st)) p)"
    using MkdirAll_calm [OF assms(1), of ?dir "files st"] n disk_holds_fields(1) [OF assms(2)] by auto
  have h1: "disk_holds (nodes s1) q" by (rule disk_holds_mkdir [OF assms(2,3) s1(2,3)])
  obtain s2 where s2: "Disk_GetQueueSize h ?u s1 = (Inr (int (length (q ?u))), s2)" "nodes s2 = nodes s1"
    using GetQueueSize_files [OF assms(1) h1 assms(3)] by (auto simp: keeps_def)
  have d2: "node_at (nodes s2) ?dir = Some Dir" "disk_holds (nodes s2) q" using s1(3) h1 s2(2) by simp_all
  obtain s3 where s3: "(if ?full then map_option snd (evictOldestEvent h ?u s2) else Some s2) = Some s3"
    "disk_holds (nodes s3) ?q" "node_at (nodes s3) ?dir = Some Dir"
  proof (cases ?full)
    case True
    then have "q ?u \<noteq> []" by (auto simp: maxQueuePerUser_def)
    with evict_files [OF assms(1) d2(2)] True that show ?thesis by force
  qed (use d2 that in auto)
  have "ids ?q \<subseteq> ids q" by (rule ids_mono) (cases "q ?u"; auto)
  then have new: "ev_ID ev \<notin> ids ?q" using assms(6) by blast
  let ?p = "queueDir @ [?u, event_file ev]"
  have nf: "name_ok (event_file ev)" by (rule name_ok_event_file [OF assms(4)])
  have "node_at (nodes s3) ?p \<noteq> Some Dir" using file_of_event [OF _ s3(2)] by blast
  then have "can_open ?p (nodes s3) = None" using s3(3) by (auto simp: can_open_def butlast_append split: option.split node.split)
  then have w: "os_WriteFile ?p d h s3 = (Inr (), (tick s3)\<lparr>nodes := put_node ?p (File d) (nodes s3)\<rparr>)" for d
    using WriteFile_calm [OF assms(1), of ?p s3 d] n nf by simp
  have "disk_enqueue_checked h ev st = Some (None, st\<lparr>files := (tick s3)\<lparr>nodes := put_node ?p (File (event_text ev)) (nodes s3)\<rparr>\<rparr>)"
    using event_text_storable [OF assms(5)] s1(1) s2(1) s3(1) w
    by (simp add: disk_enqueue_checked_def Join_queue n nf Let_def)
  moreover have "disk_holds (put_node ?p (File (event_text ev)) (nodes s3)) (spec_enqueue event_file ev q)"
    using disk_holds_insert [OF s3(2,3) assms(4,5) refl new] by (simp add: spec_enqueue_def Let_def)
  ultimately show ?thesis by auto
qed

section \<open>Refinement\<close>

fun disk_fits :: "qop \<Rightarrow> bool" where
  "disk_fits (QEnqueue ev) = (user_ok (ev_UserID ev) \<and> file_ok ev)"
| "disk_fits (QDequeue u _) = user_ok u"
| "disk_fits (QDelete i) = uuid_shape i"
| "disk_fits (QRetry i _) = uuid_shape i"
| "disk_fits (QSize u) = user_ok u"
| "disk_fits (QPurge u) = user_ok u"
| "disk_fits QUsers = True"

fun disk_qop :: "Host \<Rightarrow> qop \<Rightarrow> dstore \<Rightarrow> (qres \<times> dstore) option" where
  "disk_qop h (QEnqueue ev) st = map_option (apfst outcome) (Disk_EnqueueScrobble 2 h ev st)"
| "disk_qop h (QDequeue u n) st = map_option (\<lambda>(r, s). (case r of Inr evs \<Rightarrow> QEvents evs | Inl e \<Rightarrow> QFailed e, st\<lparr>files := s\<rparr>))
     (Disk_DequeueScrobbles h u (int n) (files st))"
| "disk_qop h (QDelete i) st = (case Disk_DeleteQueuedScrobble h i (files st) of (r, s) \<Rightarrow> Some (outcome r, st\<lparr>files := s\<rparr>))"
| "disk_qop h (QRetry i n) st = map_option (\<lambda>(r, s). (if r = Some (Err (''event not found: '' @ i)) then QNotFound else outcome r, st\<lparr>files := s\<rparr>))
     (Disk_UpdateQueuedScrobbleRetry h i n (files st))"
| "disk_qop h (QSize u) st = (case Disk_GetQueueSize h u (files st) of (r, s) \<Rightarrow> Some (case r of Inr n \<Rightarrow> QCount n | Inl e \<Rightarrow> QFailed e, st\<lparr>files := s\<rparr>))"
| "disk_qop h (QPurge u) st = (case Disk_PurgeQueueForUser h u (files st) of (r, s) \<Rightarrow> Some (case r of Inr n \<Rightarrow> QCount n | Inl e \<Rightarrow> QFailed e, st\<lparr>files := s\<rparr>))"
| "disk_qop h QUsers st = (case Disk_ListUsersWithQueuedEvents h (files st) of (r, s) \<Rightarrow> Some (case r of Inr us \<Rightarrow> QNames us | Inl e \<Rightarrow> QFailed e, st\<lparr>files := s\<rparr>))"

definition disk_sim :: "dstore \<Rightarrow> squeue \<Rightarrow> bool" where
  "disk_sim st q \<longleftrightarrow> disk_holds (nodes (files st)) q \<and> fallbackBuffers st = Map.empty"

lemma Enqueue_files:
  assumes "calm h" "disk_sim st q" "op_ok disk_fits (QEnqueue ev) q"
  shows "\<exists>s'. Disk_EnqueueScrobble (Suc n) h ev st = Some (None, st\<lparr>files := s'\<rparr>) \<and> disk_sim (st\<lparr>files := s'\<rparr>) (spec_enqueue event_file ev q)"
proof -
  have ev: "event_wf ev" "event_storable ev" "ev_ID ev \<noteq> []" "ev_CreatedAt ev \<noteq> 0" "ev_ID ev \<notin> ids q" "user_ok (ev_UserID ev)" "file_ok ev"
    using assms(3) by (simp_all add: event_wf_def)
  have st: "disk_holds (nodes (files st)) q" "fallbackBuffers st = Map.empty" using assms(2) by (simp_all add: disk_sim_def)
  obtain s' where "disk_enqueue_checked h ev st = Some (None, st\<lparr>files := s'\<rparr>)" "disk_holds (nodes s') (spec_enqueue event_file ev q)"
    using enqueue_checked_files [OF assms(1) st(1) ev(6,7,2,5)] by blast
  moreover have "validateEvent ev = None" using ev(1) by (simp add: validateEvent_ok)
  ultimately show ?thesis using ev(3,4) st(2) by (auto simp: disk_flush_def disk_sim_def)
qed

text \<open>A host whose calls succeed on proper names, with a clock of four-digit years.\<close>

locale disk_host =
  fixes h :: Host
  assumes calm: "calm h"
    and clock: "four_digit_year (h_now h n)"

context disk_host
begin

lemma disk_step:
  assumes "disk_sim st q" "op_ok disk_fits x q"
  shows "\<exists>r st' q'. disk_qop h x st = Some (r, st') \<and> qspec event_file x q r q' \<and> disk_sim st' q'"
proof -
  have st: "disk_holds (nodes (files st)) q" "fallbackBuffers st = Map.empty" using assms(1) by (simp_all add: disk_sim_def)
  have keep: "disk_sim (st\<lparr>files := s'\<rparr>) q" if "keeps (files st) s'" for s' using st that by (simp add: disk_sim_def keeps_def)
  have put: "disk_sim (st\<lparr>files := s'\<rparr>) q'" if "disk_holds (nodes s') q'" for s' q' using st(2) that by (simp add: disk_sim_def)
  show ?thesis
  proof (cases x)
    case (QEnqueue ev)
    with Enqueue_files [OF calm assms(1), of ev 1] assms(2) obtain s' where
      "Disk_EnqueueScrobble 2 h ev st = Some (None, st\<lparr>files := s'\<rparr>)" "disk_sim (st\<lparr>files := s'\<rparr>) (spec_enqueue event_file ev q)"
      by (auto simp only: numeral_2_eq_2 One_nat_def)
    with QEnqueue show ?thesis using qspec.enqueue [of event_file ev q] by (auto intro!: exI [of _ "spec_enqueue event_file ev q"])
  next
    case (QDequeue u n)
    with DequeueScrobbles_files [OF calm st(1), of u n] assms(2) keep show ?thesis
      using qspec.dequeue [of event_file u n q] by (auto intro!: exI [of _ q])
  next
    case (QDelete i)
    with Delete_files [OF calm st(1), of i] assms(2) put show ?thesis
      using qspec.delete [of event_file i q] by (auto intro!: exI [of _ "spec_delete i q"])
  next
    case (QRetry i k)
    with assms(2) have i: "uuid_shape i" "in_int64 k" by simp_all
    show ?thesis
    proof (cases "i \<in> ids q")
      case True
      with Retry_files [OF calm st(1) i clock] obtain t s' where
        "Disk_UpdateQueuedScrobbleRetry h i k (files st) = Some (None, s')" "disk_holds (nodes s') (spec_retry event_file i k t q)" by auto
      with QRetry put qspec.retry [OF True, of event_file k t] show ?thesis by auto
    next
      case False
      with Retry_files [OF calm st(1) i clock] QRetry keep [of "tick (files st)"] qspec.missing [OF False, of event_file k] show ?thesis by auto
    qed
  next
    case (QSize u)
    with GetQueueSize_files [OF calm st(1), of u] assms(2) keep show ?thesis
      using qspec.size [of event_file u q] by (auto intro!: exI [of _ q])
  next
    case (QPurge u)
    with Purge_files [OF calm st(1), of u] assms(2) put show ?thesis
      using qspec.purge [of event_file u q] by (auto intro!: exI [of _ "q(u := [])"])
  next
    case QUsers
    with Users_files [OF calm st(1)] keep show ?thesis using qspec.users [of _ q event_file] by (auto intro!: exI [of _ q])
  qed
qed

end

sublocale disk_host \<subseteq> dk_queue: queue_store "disk_qop h" disk_sim event_file disk_fits
  by unfold_locales (rule disk_step)

context disk_host
begin

lemma queue_refines:
  assumes "disk_holds (nodes (files st)) q" "fallbackBuffers st = Map.empty" "ops_ok disk_fits (ids q) xs"
  shows "\<exists>rs st' q'. run_ops (disk_qop h) xs st = Some (rs, st') \<and> qspec_run event_file xs q rs q' \<and> disk_holds (nodes (files st')) q'"
  using dk_queue.run_ops_refines [of st q "ids q" xs] assms by (auto simp: disk_sim_def)

end

interpretation quiet: disk_host quiet_host
  by unfold_locales (simp_all add: quiet_host_def calm_def year_bounds)

text \<open>
  C6. On a file system that works, any sequence of queue operations of the file store returns, and
  its results and files are those of the abstract queue ordered by file name, provided users have
  proper directory names, identifiers have the form of generated ones and are new, and events were created
  after 1970.  In particular searching an event by a part of the file name then finds the right one.
\<close>

theorem disk_queue_refines:
  assumes "calm h" "\<And>n. four_digit_year (h_now h n)" "disk_holds (nodes (files st)) q" "fallbackBuffers st = Map.empty"
    "ops_ok disk_fits (ids q) xs"
  shows "\<exists>rs st' q'. run_ops (disk_qop h) xs st = Some (rs, st') \<and> qspec_run event_file xs q rs q' \<and> disk_holds (nodes (files st')) q'"
  using disk_host.queue_refines [of h st q xs] assms by (simp add: disk_host_def)

lemma disk_holds_empty: "disk_holds [] (\<lambda>_. [])"
  by (simp add: disk_holds_def tree_def node_at_def queueDir_def events_ok_def)

definition disk_event :: QueuedScrobbleEvent where
  "disk_event = sample_event\<lparr>ev_ID := ''00000000-0000-4000-8000-000000000000'', ev_CreatedAt := 63838368000 * Second\<rparr>"

lemma uuid_shape_demo: "uuid_shape ''00000000-0000-4000-8000-000000000000''"
  by (simp add: uuid_shape_def hexdigits_def upt_rec)

theorem disk_queue_refines_witness:
  "\<exists>rs st' q'. run_ops (disk_qop quiet_host) [QEnqueue disk_event, QDequeue ''u'' 1, QDelete (ev_ID disk_event), QUsers]
      \<lparr>files = \<lparr>nodes = [], calls = 0\<rparr>, fallbackBuffers = Map.empty\<rparr> = Some (rs, st') \<and>
    qspec_run event_file [QEnqueue disk_event, QDequeue ''u'' 1, QDelete (ev_ID disk_event), QUsers] (\<lambda>_. []) rs q' \<and>
    disk_holds (nodes (files st')) q'"
proof (rule disk_queue_refines)
  have "event_storable disk_event"
    using sample_event_storable by (simp add: event_storable_iff disk_event_def year_bounds valid_utf8_def ToValidUTF8_lit ascii_def Second_def)
  then show "ops_ok disk_fits (ids (\<lambda>_. [])) [QEnqueue disk_event, QDequeue ''u'' 1, QDelete (ev_ID disk_event), QUsers]"
    using uuid_shape_demo
    by (simp add: ids_def file_ok_def user_ok_def name_ok_def)
      (simp add: disk_event_def sample_event_def event_wf_def Unix_def Second_def)
qed (simp_all add: disk_holds_empty quiet.calm quiet.clock)

end
