(* ===== verification/Disk_Family.thy ===== *)
theory Disk_Family
  imports Disk_Store Redis_Family
begin

text \<open>
  The family groups and members of \<open>lib/store/disk.go\<close>: a directory for each group with its document
  and the list of its members' identifiers, a directory for each member, and a file for each Plex
  name that holds the identifier of its group.  Identifiers and names are path components of these
  files as they are given.
\<close>

definition familyGroupBasePath :: string where
  "familyGroupBasePath = ''keystore/family_groups''"

definition groupMemberBasePath :: string where
  "groupMemberBasePath = ''keystore/group_members''"

definition plexMappingBasePath :: string where
  "plexMappingBasePath = ''keystore/family_groups/by_plex''"

section \<open>Lists of members\<close>

fun split_lines :: "string \<Rightarrow> string \<Rightarrow> string list" where
  "split_lines acc [] = [acc]"
| "split_lines acc (c # s) = (if c = CHR 0x0A then acc # split_lines [] s else split_lines (acc @ [c]) s)"

fun join_lines :: "string list \<Rightarrow> string" where
  "join_lines [] = []"
| "join_lines [x] = x"
| "join_lines (x # y # xs) = x @ [CHR 0x0A] @ join_lines (y # xs)"

definition readMembersList :: "Host \<Rightarrow> path \<Rightarrow> disk \<Rightarrow> string list result \<times> disk" where
  "readMembersList h p s = (case os_ReadFile p h s of
     (Inl e, s') \<Rightarrow> (if IsNotExist e then Inr [] else Inl e, s')
   | (Inr data, s') \<Rightarrow> (Inr (filter (\<lambda>l. l \<noteq> []) (map TrimSpace (split_lines [] (TrimSpace data)))), s'))"

definition writeMembersList :: "Host \<Rightarrow> path \<Rightarrow> string list \<Rightarrow> disk \<Rightarrow> err option \<times> disk" where
  "writeMembersList h p members s = (case os_MkdirAll (butlast p) h s of
     (Some e, s') \<Rightarrow> (Some e, s')
   | (None, s') \<Rightarrow> (case os_WriteFile p (join_lines members) h s' of
        (Inl e, s'') \<Rightarrow> (Some e, s'')
      | (Inr _, s'') \<Rightarrow> (None, s'')))"

section \<open>Groups\<close>

definition Disk_GetFamilyGroup :: "Host \<Rightarrow> string \<Rightarrow> disk \<Rightarrow> FamilyGroup option result \<times> disk" where
  "Disk_GetFamilyGroup h groupID s = (case os_ReadFile (Join [familyGroupBasePath, groupID, ''group.json'']) h s of
     (Inl e, s') \<Rightarrow> (if IsNotExist e then Inr None else Inl (Wrap ''failed to read family group file'' e), s')
   | (Inr data, s') \<Rightarrow> (case Unmarshal dec_group data zero_group of
        Some (g, True) \<Rightarrow> (Inr (Some g), s')
      | _ \<Rightarrow> (Inl (Wrap ''failed to unmarshal family group'' json_err), s')))"

definition Disk_GetFamilyGroupByPlex :: "Host \<Rightarrow> string \<Rightarrow> disk \<Rightarrow> FamilyGroup option result \<times> disk" where
  "Disk_GetFamilyGroupByPlex h plexUsername s = (case os_ReadFile (Join [plexMappingBasePath, plexUsername]) h s of
     (Inl e, s') \<Rightarrow> (if IsNotExist e then Inr None else Inl (Wrap ''failed to read plex mapping'' e), s')
   | (Inr groupID, s') \<Rightarrow> Disk_GetFamilyGroup h (TrimSpace groupID) s')"

definition Disk_CreateFamilyGroup :: "Host \<Rightarrow> FamilyGroup \<Rightarrow> disk \<Rightarrow> err option \<times> disk" where
  "Disk_CreateFamilyGroup h fg s = (case Disk_GetFamilyGroupByPlex h (PlexUsername fg) s of
     (Inl e, s1) \<Rightarrow> (Some (Wrap ''failed to check plex username uniqueness'' e), s1)
   | (Inr (Some _), s1) \<Rightarrow> (Some (Err (''plex username '' @ PlexUsername fg @ '' already exists'')), s1)
   | (Inr None, s1) \<Rightarrow>
       (let groupDir = Join [familyGroupBasePath, fg_ID fg] in
        case os_MkdirAll groupDir h s1 of
          (Some e, s2) \<Rightarrow> (Some (Wrap ''failed to create family group directory'' e), s2)
        | (None, s2) \<Rightarrow> (case enc_group fg of
            None \<Rightarrow> (Some (Wrap ''failed to marshal family group'' marshal_err), s2)
          | Some doc \<Rightarrow> (case os_WriteFile (groupDir @ [''group.json'']) (MarshalIndent_text doc) h s2 of
              (Inl e, s3) \<Rightarrow> (Some (Wrap ''failed to write family group file'' e), s3)
            | (Inr _, s3) \<Rightarrow>
                (let plexMappingFile = Join [plexMappingBasePath, PlexUsername fg] in
                 case os_MkdirAll (butlast plexMappingFile) h s3 of
                   (Some e, s4) \<Rightarrow> (Some (Wrap ''failed to create plex mapping directory'' e), s4)
                 | (None, s4) \<Rightarrow> (case os_WriteFile plexMappingFile (fg_ID fg) h s4 of
                     (Inl e, s5) \<Rightarrow> (Some (Wrap ''failed to write plex mapping'' e), s5)
                   | (Inr _, s5) \<Rightarrow> (None, s5)))))))"

primrec disk_load_groups :: "Host \<Rightarrow> (string \<times> bool) list \<Rightarrow> disk \<Rightarrow> FamilyGroup list \<times> disk" where
  "disk_load_groups h [] s = ([], s)"
| "disk_load_groups h (e # es) s =
     (if \<not> snd e then disk_load_groups h es s
      else case Disk_GetFamilyGroup h (fst e) s of
        (Inr (Some g), s') \<Rightarrow> apfst (Cons g) (disk_load_groups h es s')
      | (_, s') \<Rightarrow> disk_load_groups h es s')"

definition Disk_ListFamilyGroups :: "Host \<Rightarrow> disk \<Rightarrow> FamilyGroup list result \<times> disk" where
  "Disk_ListFamilyGroups h s = (case os_ReadDir (Join [familyGroupBasePath]) h s of
     (Inl e, s') \<Rightarrow> (if IsNotExist e then Inr [] else Inl (Wrap ''failed to list family groups'' e), s')
   | (Inr es, s') \<Rightarrow> apfst Inr (disk_load_groups h es s'))"

section \<open>Members\<close>

definition members_file :: "string \<Rightarrow> path" where
  "members_file groupID = Join [familyGroupBasePath, groupID, ''members.txt'']"

definition Disk_GetGroupMember :: "Host \<Rightarrow> string \<Rightarrow> disk \<Rightarrow> GroupMember option result \<times> disk" where
  "Disk_GetGroupMember h memberID s = (case os_ReadFile (Join [groupMemberBasePath, memberID, ''member.json'']) h s of
     (Inl e, s') \<Rightarrow> (if IsNotExist e then Inr None else Inl (Wrap ''failed to read group member file'' e), s')
   | (Inr data, s') \<Rightarrow> (case Unmarshal dec_member data zero_member of
        Some (m, True) \<Rightarrow> (Inr (Some m), s')
      | _ \<Rightarrow> (Inl (Wrap ''failed to unmarshal group member'' json_err), s')))"

primrec disk_load_members :: "Host \<Rightarrow> string list \<Rightarrow> disk \<Rightarrow> GroupMember list \<times> disk" where
  "disk_load_members h [] s = ([], s)"
| "disk_load_members h (i # is) s = (case Disk_GetGroupMember h i s of
     (Inr (Some m), s') \<Rightarrow> apfst (Cons m) (disk_load_members h is s')
   | (_, s') \<Rightarrow> disk_load_members h is s')"

definition Disk_ListGroupMembers :: "Host \<Rightarrow> string \<Rightarrow> disk \<Rightarrow> GroupMember list result \<times> disk" where
  "Disk_ListGroupMembers h groupID s = (case readMembersList h (members_file groupID) s of
     (Inl e, s') \<Rightarrow> (Inl (Wrap ''failed to read members list'' e), s')
   | (Inr is, s') \<Rightarrow> apfst Inr (disk_load_members h is s'))"

definition Disk_GetGroupMemberByTrakt :: "Host \<Rightarrow> string \<Rightarrow> string \<Rightarrow> disk \<Rightarrow> GroupMember option result \<times> disk" where
  "Disk_GetGroupMemberByTrakt h groupID traktUsername s = (case Disk_ListGroupMembers h groupID s of
     (Inl e, s') \<Rightarrow> (Inl (Wrap ''failed to list group members'' e), s')
   | (Inr ms, s') \<Rightarrow> (Inr (find (\<lambda>m. TraktUsername m = traktUsername) ms), s'))"

definition disk_duplicate :: "Host \<Rightarrow> GroupMember \<Rightarrow> disk \<Rightarrow> err option \<times> disk" where
  "disk_duplicate h member s = (if TraktUsername member \<noteq> []
     then (case Disk_GetGroupMemberByTrakt h (gm_FamilyGroupID member) (TraktUsername member) s of
         (Inl e, s') \<Rightarrow> (Some (Wrap ''failed to check for duplicate trakt username'' e), s')
       | (Inr (Some _), s') \<Rightarrow> (Some (Err (''trakt username '' @ TraktUsername member @ '' already exists in this group'')), s')
       | (Inr None, s') \<Rightarrow> (None, s'))
     else (None, s))"

definition Disk_AddGroupMember :: "Host \<Rightarrow> GroupMember \<Rightarrow> disk \<Rightarrow> err option \<times> disk" where
  "Disk_AddGroupMember h member s = (case disk_duplicate h member s of
     (Some e, s1) \<Rightarrow> (Some e, s1)
   | (None, s1) \<Rightarrow>
       (let memberDir = Join [groupMemberBasePath, gm_ID member] in
        case os_MkdirAll memberDir h s1 of
          (Some e, s2) \<Rightarrow> (Some (Wrap ''failed to create group member directory'' e), s2)
        | (None, s2) \<Rightarrow> (case enc_member member of
            None \<Rightarrow> (Some (Wrap ''failed to marshal group member'' marshal_err), s2)
          | Some doc \<Rightarrow> (case os_WriteFile (memberDir @ [''member.json'']) (MarshalIndent_text doc) h s2 of
              (Inl e, s3) \<Rightarrow> (Some (Wrap ''failed to write group member file'' e), s3)
            | (Inr _, s3) \<Rightarrow> (case readMembersList h (members_file (gm_FamilyGroupID member)) s3 of
                (Inl e, s4) \<Rightarrow> (Some (Wrap ''failed to read members list'' e), s4)
              | (Inr is, s4) \<Rightarrow> (case writeMembersList h (members_file (gm_FamilyGroupID member)) (is @ [gm_ID member]) s4 of
                  (Some e, s5) \<Rightarrow> (Some (Wrap ''failed to write members list'' e), s5)
                | (None, s5) \<Rightarrow> (None, s5)))))))"

definition Disk_UpdateGroupMember :: "Host \<Rightarrow> GroupMember \<Rightarrow> disk \<Rightarrow> err option \<times> disk" where
  "Disk_UpdateGroupMember h member s = (case enc_member member of
     None \<Rightarrow> (Some (Wrap ''failed to marshal group member'' marshal_err), s)
   | Some doc \<Rightarrow> (case os_WriteFile (Join [groupMemberBasePath, gm_ID member, ''member.json'']) (MarshalIndent_text doc) h s of
        (Inl e, s') \<Rightarrow> (Some (Wrap ''failed to update group member file'' e), s')
      | (Inr _, s') \<Rightarrow> (None, s')))"

definition Disk_RemoveGroupMember :: "Host \<Rightarrow> string \<Rightarrow> string \<Rightarrow> disk \<Rightarrow> err option \<times> disk" where
  "Disk_RemoveGroupMember h groupID memberID s = (case readMembersList h (members_file groupID) s of
     (Inl e, s1) \<Rightarrow> (Some (Wrap ''failed to read members list'' e), s1)
   | (Inr is, s1) \<Rightarrow> (case writeMembersList h (members_file groupID) (filter (\<lambda>i. i \<noteq> memberID) is) s1 of
        (Some e, s2) \<Rightarrow> (Some (Wrap ''failed to write updated members list'' e), s2)
      | (None, s2) \<Rightarrow> (case os_RemoveAll (Join [groupMemberBasePath, memberID]) h s2 of
          (Inl e, s3) \<Rightarrow> (Some (Wrap ''failed to delete group member directory'' e), s3)
        | (Inr _, s3) \<Rightarrow> (None, s3))))"

text \<open>Errors while the members are removed are only logged.\<close>

primrec remove_members :: "Host \<Rightarrow> string \<Rightarrow> GroupMember list \<Rightarrow> disk \<Rightarrow> disk" where
  "remove_members h groupID [] s = s"
| "remove_members h groupID (m # ms) s = remove_members h groupID ms (snd (Disk_RemoveGroupMember h groupID (gm_ID m) s))"

definition Disk_DeleteFamilyGroup :: "Host \<Rightarrow> string \<Rightarrow> disk \<Rightarrow> err option \<times> disk" where
  "Disk_DeleteFamilyGroup h groupID s = (case Disk_GetFamilyGroup h groupID s of
     (Inl e, s1) \<Rightarrow> (Some (Wrap ''failed to get family group for deletion'' e), s1)
   | (Inr None, s1) \<Rightarrow> (None, s1)
   | (Inr (Some fg), s1) \<Rightarrow> (case Disk_ListGroupMembers h groupID s1 of
        (Inl e, s2) \<Rightarrow> (Some (Wrap ''failed to list group members for deletion'' e), s2)
      | (Inr ms, s2) \<Rightarrow>
          (let s3 = remove_members h groupID ms s2 in
           case os_RemoveAll (Join [familyGroupBasePath, groupID]) h s3 of
             (Inl e, s4) \<Rightarrow> (Some (Wrap ''failed to delete family group directory'' e), s4)
           | (Inr _, s4) \<Rightarrow> (case os_Remove (Join [plexMappingBasePath, PlexUsername fg]) h s4 of
               (Inl e, s5) \<Rightarrow> (if IsNotExist e then None else Some (Wrap ''failed to delete plex mapping'' e), s5)
             | (Inr _, s5) \<Rightarrow> (None, s5)))))"

section \<open>Operations this store does not support\<close>

definition Disk_EnqueueRetryItem :: "RetryQueueItem option \<Rightarrow> 's \<Rightarrow> err option \<times> 's" where
  "Disk_EnqueueRetryItem item s = (Some ErrNotSupported, s)"

definition Disk_ListDueRetryItems :: "gotime \<Rightarrow> int \<Rightarrow> 's \<Rightarrow> RetryQueueItem list result \<times> 's" where
  "Disk_ListDueRetryItems now limit s = (Inl ErrNotSupported, s)"

definition Disk_MarkRetrySuccess :: "string \<Rightarrow> 's \<Rightarrow> err option \<times> 's" where
  "Disk_MarkRetrySuccess i s = (Some ErrNotSupported, s)"

definition Disk_MarkRetryFailure :: "string \<Rightarrow> int \<Rightarrow> gotime \<Rightarrow> string \<Rightarrow> bool \<Rightarrow> 's \<Rightarrow> err option \<times> 's" where
  "Disk_MarkRetryFailure i attempt nextAttempt lastErr permanent s = (Some ErrNotSupported, s)"

definition Disk_CreateNotification :: "Notification \<Rightarrow> 's \<Rightarrow> err option \<times> 's" where
  "Disk_CreateNotification notification s = (Some ErrNotSupported, s)"

definition Disk_GetNotifications :: "string \<Rightarrow> bool \<Rightarrow> 's \<Rightarrow> Notification list result \<times> 's" where
  "Disk_GetNotifications familyGroupID includeDismissed s = (Inl ErrNotSupported, s)"

definition Disk_DismissNotification :: "string \<Rightarrow> 's \<Rightarrow> err option \<times> 's" where
  "Disk_DismissNotification i s = (Some ErrNotSupported, s)"

definition Disk_DeleteNotification :: "string \<Rightarrow> 's \<Rightarrow> err option \<times> 's" where
  "Disk_DeleteNotification i s = (Some ErrNotSupported, s)"

end
