(* ===== verification/Disk_Laws.thy ===== *)
theory Disk_Laws
  imports Disk_Queue Disk_Family Redis_Laws
begin

text \<open>
  Users and family groups of the file store: what is written can be read, a user that was read cannot
  be updated, a group and its members come and go together, and a name can escape its directory.
\<close>

section \<open>Users\<close>

definition id_ok :: "string \<Rightarrow> bool" where
  "id_ok i \<longleftrightarrow> CHR ''/'' \<notin> set i \<and> CHR 0x00 \<notin> set i \<and> length i \<le> 200"

definition user_field_names :: "string list" where
  "user_field_names = [''username'', ''updated'', ''access'', ''refresh'', ''trakt_display_name'', ''token_expiry'']"

lemma name_ok_field: "id_ok i \<Longrightarrow> f \<in> set user_field_names \<Longrightarrow> name_ok (field_key i f)"
  by (auto simp: id_ok_def name_ok_def field_key_def user_field_names_def append_eq_Cons_conv)

lemma field_key_inject:
  assumes "CHR ''.'' \<notin> set f" "CHR ''.'' \<notin> set g"
  shows "field_key i f = field_key j g \<longleftrightarrow> i = j \<and> f = g"
proof -
  have tw: "takeWhile (\<lambda>c. c \<noteq> CHR ''.'') (rev (field_key i f)) = rev f" if "CHR ''.'' \<notin> set f" for i f
  proof -
    have "rev (field_key i f) = rev f @ CHR ''.'' # rev i" by (simp add: field_key_def)
    moreover have "takeWhile (\<lambda>c. c \<noteq> CHR ''.'') (rev f @ CHR ''.'' # rev i) = rev f @ takeWhile (\<lambda>c. c \<noteq> CHR ''.'') (CHR ''.'' # rev i)"
      using that by (intro takeWhile_append2) auto
    ultimately show ?thesis by simp
  qed
  have "f = g" if "field_key i f = field_key j g" using tw [of f i] tw [of g j] assms that by simp
  then show ?thesis by (auto simp: field_key_def)
qed

definition found :: "string option \<Rightarrow> string result" where
  "found r = (case r of Some v \<Rightarrow> Inr v | None \<Rightarrow> Inl ENOENT)"

definition disk_user_at :: "(string \<rightharpoonup> string) \<Rightarrow> string \<Rightarrow> User option" where
  "disk_user_at m i = (case (m (field_key i ''username''), m (field_key i ''updated''), m (field_key i ''access''), m (field_key i ''refresh'')) of
     (Some un, Some ud, Some ac, Some re) \<Rightarrow>
       Some (user_of_fields i un ud ac re (found (m (field_key i ''trakt_display_name''))) (found (m (field_key i ''token_expiry''))))
   | _ \<Rightarrow> None)"

definition canon_disk :: "User \<Rightarrow> User" where
  "canon_disk u = u\<lparr>Username := ToLower (Username u), Updated := Updated u - Updated u mod Day,
     TokenExpiry := TokenExpiry u - TokenExpiry u mod Second, has_store := False\<rparr>"

definition write_user_fields :: "User \<Rightarrow> (string \<rightharpoonup> string) \<Rightarrow> (string \<rightharpoonup> string)" where
  "write_user_fields u m = foldl (\<lambda>m (f, v). m(field_key (usr_ID u) f \<mapsto> v)) m
     [(''username'', Username u), (''access'', AccessToken u), (''refresh'', RefreshToken u),
      (''updated'', Format_date (Updated u)), (''trakt_display_name'', TraktDisplayName u),
      (''token_expiry'', Format_RFC3339 (TokenExpiry u))]"

lemma write_user_fields_other: "i \<noteq> usr_ID u \<Longrightarrow> CHR ''.'' \<notin> set f \<Longrightarrow> write_user_fields u m (field_key i f) = m (field_key i f)"
  by (simp add: write_user_fields_def field_key_inject)

lemma write_user_fields_reads:
  assumes "four_digit_year (Updated u)" "four_digit_year (TokenExpiry u)"
  shows "disk_user_at (write_user_fields u m) (usr_ID u) = Some (canon_disk u)"
  using Parse_Format_date [OF assms(1)] Parse_Format_RFC3339 [OF assms(2)] Format_RFC3339_nonempty
  by (simp add: disk_user_at_def write_user_fields_def field_key_inject user_of_fields_def found_def canon_disk_def Let_def)

context keystore
begin

definition reads :: "string option \<Rightarrow> string result \<Rightarrow> bool" where
  "reads v r \<longleftrightarrow> (case v of Some x \<Rightarrow> r = Inr x | None \<Rightarrow> (\<exists>e. r = Inl e))"

lemma readField_ok:
  assumes "ok s" "id_ok i" "f \<in> set user_field_names"
  shows "\<exists>r s'. readField d i f s = (r, s') \<and> ok s' \<and> view s' = view s \<and> reads (view s (field_key i f)) r"
proof -
  obtain r s' where "dv_Read d (field_key i f) s = (r, s')" "ok s'" "view s' = view s"
    "case view s (field_key i f) of Some v \<Rightarrow> r = Inr v | None \<Rightarrow> \<not> is_ok r"
    using read_law [OF assms(1) name_ok_field [OF assms(2,3)]] by blast
  then show ?thesis by (cases r) (auto simp: readField_def reads_def split: option.splits)
qed

lemma user_of_fields_reads:
  "reads a r \<Longrightarrow> reads b r' \<Longrightarrow> user_of_fields i un ud ac re r r' = user_of_fields i un ud ac re (found a) (found b)"
  by (auto simp: user_of_fields_def found_def reads_def Let_def split: option.splits)

lemma GetUser_ok:
  assumes "ok s" "id_ok i"
  shows "\<exists>s'. Disk_GetUser d i s = (disk_user_at (view s) i, s') \<and> ok s' \<and> view s' = view s"
proof -
  let ?r = "\<lambda>f. view s (field_key i f)"
  have read: "\<exists>r t'. readField d i f t = (r, t') \<and> (ok t' \<and> view t' = view s) \<and> reads (?r f) r"
    if "ok t \<and> view t = view s" "f \<in> set user_field_names" for t f
    using readField_ok [of t i f] that assms(2) by auto
  note fields = user_field_names_def
  obtain r1 s1 where 1: "readField d i ''username'' s = (r1, s1)" "ok s1 \<and> view s1 = view s" "reads (?r ''username'') r1"
    using read [of s "''username''"] assms(1) by (auto simp: fields)
  obtain r2 s2 where 2: "readField d i ''updated'' s1 = (r2, s2)" "ok s2 \<and> view s2 = view s" "reads (?r ''updated'') r2"
    using read [OF 1(2), of "''updated''"] by (auto simp: fields)
  obtain r3 s3 where 3: "readField d i ''access'' s2 = (r3, s3)" "ok s3 \<and> view s3 = view s" "reads (?r ''access'') r3"
    using read [OF 2(2), of "''access''"] by (auto simp: fields)
  obtain r4 s4 where 4: "readField d i ''refresh'' s3 = (r4, s4)" "ok s4 \<and> view s4 = view s" "reads (?r ''refresh'') r4"
    using read [OF 3(2), of "''refresh''"] by (auto simp: fields)
  obtain r5 s5 where 5: "readField d i ''trakt_display_name'' s4 = (r5, s5)" "ok s5 \<and> view s5 = view s" "reads (?r ''trakt_display_name'') r5"
    using read [OF 4(2), of "''trakt_display_name''"] by (auto simp: fields)
  obtain r6 s6 where 6: "readField d i ''token_expiry'' s5 = (r6, s6)" "ok s6 \<and> view s6 = view s" "reads (?r ''token_expiry'') r6"
    using read [OF 5(2), of "''token_expiry''"] by (auto simp: fields)
  show ?thesis
    using 1 2 3 4 5(1,2) 6(1,2)
    by (cases "?r ''username''"; cases "?r ''updated''"; cases "?r ''access''"; cases "?r ''refresh''")
      (auto simp: Disk_GetUser_def disk_user_at_def reads_def user_of_fields_reads [OF 5(3) 6(3)])
qed

lemma write_fields_ok:
  "ok s \<Longrightarrow> id_ok i \<Longrightarrow> fst ` set xs \<subseteq> set user_field_names \<Longrightarrow>
    \<exists>s'. write_fields d i xs s = Some s' \<and> ok s' \<and> view s' = foldl (\<lambda>m (f, v). m(field_key i f \<mapsto> v)) (view s) xs"
proof (induction xs arbitrary: s)
  case (Cons x xs)
  have "name_ok (field_key i (fst x))" using Cons.prems name_ok_field by simp
  then obtain t where "dv_Write d (field_key i (fst x)) (snd x) s = (None, t)" "ok t" "view t = (view s)(field_key i (fst x) \<mapsto> snd x)"
    using write_law [OF Cons.prems(1)] by blast
  with Cons.IH [of t] Cons.prems show ?case by (auto simp: writeField_def split_def)
qed simp

lemma WriteUser_ok:
  assumes "ok s" "id_ok (usr_ID u)"
  shows "\<exists>s'. Disk_WriteUser d u s = Some s' \<and> ok s' \<and> view s' = write_user_fields u (view s)"
  using write_fields_ok [OF assms, of "[(''username'', Username u), (''access'', AccessToken u), (''refresh'', RefreshToken u),
      (''updated'', Format_date (Updated u)), (''trakt_display_name'', TraktDisplayName u), (''token_expiry'', Format_RFC3339 (TokenExpiry u))]"]
  by (simp add: Disk_WriteUser_def write_user_fields_def user_field_names_def)

end

sublocale keystore \<subseteq> dk_users: user_store "Disk_WriteUser d" "\<lambda>i s. Some (Disk_GetUser d i s)" ok canon_disk four_digit_year id_ok
proof (unfold_locales, goal_cases)
  case (1 s u)
  then show ?case using WriteUser_ok by blast
next
  case (2 s u s')
  then have "ok s'" "view s' = write_user_fields u (view s)" using WriteUser_ok [of s u] by auto
  with 2 show ?case using GetUser_ok [of s' "usr_ID u"] write_user_fields_reads by auto
next
  case (3 s u i s')
  then have "ok s'" "view s' = write_user_fields u (view s)" using WriteUser_ok [of s u] by auto
  moreover have "disk_user_at (write_user_fields u (view s)) i = disk_user_at (view s) i"
    using 3(5) by (simp add: disk_user_at_def write_user_fields_other split: option.split)
  ultimately show ?case using GetUser_ok [of s' i] GetUser_ok [OF 3(1), of i] 3(3) by auto
qed

context keystore
begin

lemma user_read_back:
  assumes "ok s" "id_ok i" "four_digit_year now" "four_digit_year ex"
  shows "\<exists>u s' v. NewUser (Disk_WriteUser d) i now n a r dn ex True s = Some (u, s') \<and> fst (Disk_GetUser d i s') = Some v \<and>
    usr_ID v = i \<and> Username v = ToLower n \<and> AccessToken v = a \<and> RefreshToken v = r \<and> Updated v = now - now mod Day \<and>
    TokenExpiry v = ex - ex mod Second \<and> \<not> has_store v"
  using dk_users.NewUser_get [OF assms(1,3,4,2), of n a r dn] NewUser_Some [of "Disk_WriteUser d" i now n a r dn ex True s]
  by (fastforce simp: canon_disk_def)

end

text \<open>
  C20. The file store hands out users that cannot be updated: a new user reads back with name, tokens and,
  to the day and second, times; but the user read from the store has no store to save itself in, so that
  the next update of its tokens panics.
\<close>

theorem disk_user_cannot_be_updated:
  assumes "keystore d ok view" "ok s" "id_ok i" "four_digit_year now" "four_digit_year ex"
  shows "\<exists>u s' v. NewUser (Disk_WriteUser d) i now n a r dn ex True s = Some (u, s') \<and> fst (Disk_GetUser d i s') = Some v \<and>
    usr_ID v = i \<and> Username v = ToLower n \<and> AccessToken v = a \<and> RefreshToken v = r \<and> Updated v = now - now mod Day \<and>
    TokenExpiry v = ex - ex mod Second \<and> (\<forall>now' a' r' dn' ex' t. UpdateUser (Disk_WriteUser d) now' a' r' dn' ex' v t = None)"
proof -
  have panic: "UpdateUser W now' a' r' dn' ex' v t = None" if "\<not> has_store v" for W :: "User \<Rightarrow> 'a \<Rightarrow> 'a option" and now' a' r' dn' ex' v t
    using that by (cases dn') (auto simp: UpdateUser_def save_def Let_def)
  show ?thesis using keystore.user_read_back [OF assms, of n a r dn] panic by blast
qed

theorem disk_user_cannot_be_updated_witness:
  "\<exists>u s' v. NewUser (Disk_WriteUser list_kv) ''i'' Day ''Bob'' ''a'' ''r'' None Day True [] = Some (u, s') \<and>
    fst (Disk_GetUser list_kv ''i'' s') = Some v \<and> Username v = ''bob'' \<and> UpdateUser (Disk_WriteUser list_kv) Day ''a2'' ''r2'' None Day v s' = None"
proof -
  have "id_ok ''i''" "four_digit_year Day" by (simp_all add: id_ok_def year_bounds Day_def time_defs)
  from disk_user_cannot_be_updated [OF list_keystore.keystore_axioms TrueI this(1,2,2), where s = "[]" and n = "''Bob''" and a = "''a''" and r = "''r''" and dn = None]
  obtain u s' v where "NewUser (Disk_WriteUser list_kv) ''i'' Day ''Bob'' ''a'' ''r'' None Day True [] = Some (u, s')"
    "fst (Disk_GetUser list_kv ''i'' s') = Some v" "Username v = ToLower ''Bob''" "UpdateUser (Disk_WriteUser list_kv) Day ''a2'' ''r2'' None Day v s' = None"
    by blast
  moreover have "ToLower ''Bob'' = ''bob''" by code_simp
  ultimately show ?thesis by auto
qed

section \<open>Groups\<close>

definition groupsDir :: path where
  "groupsDir = [''keystore'', ''family_groups'']"

lemma groupsDir_names [simp]: "names groupsDir" "groupsDir \<noteq> []"
  by (simp_all add: groupsDir_def name_ok_def)

lemma fixed_names [simp]: "name_ok ''group.json''" "name_ok ''members.txt''" "name_ok ''by_plex''" "name_ok ''member.json''"
  by (simp_all add: name_ok_def)

lemma Join_groups:
  "Join [familyGroupBasePath] = groupsDir"
  "name_ok i \<Longrightarrow> Join [familyGroupBasePath, i] = groupsDir @ [i]"
  "name_ok i \<Longrightarrow> Join [familyGroupBasePath, i, ''group.json''] = groupsDir @ [i, ''group.json'']"
  "name_ok i \<Longrightarrow> members_file i = groupsDir @ [i, ''members.txt'']"
  "name_ok n \<Longrightarrow> Join [plexMappingBasePath, n] = groupsDir @ [''by_plex'', n]"
  by (simp_all add: Join_def familyGroupBasePath_def plexMappingBasePath_def members_file_def groupsDir_def clean_step_def name_ok_def split_slash_plain)

lemma WriteFile_into:
  assumes "calm h" "names p" "p \<noteq> []" "tree (nodes s)" "node_at (nodes s) (butlast p) = Some Dir" "node_at (nodes s) p \<noteq> Some Dir"
  shows "\<exists>s'. os_WriteFile p d h s = (Inr (), s') \<and> tree (nodes s') \<and>
    (\<forall>q. node_at (nodes s') q = (if q = p then Some (File d) else node_at (nodes s) q))"
proof -
  have "can_open p (nodes s) = None" using assms(5,6) by (auto simp: can_open_def split: option.split node.split)
  with WriteFile_calm [OF assms(1,2)] tree_put [OF assms(4,3,5), of "File d"] assms(3,6) show ?thesis by (simp add: node_at_put)
qed

lemma prefix_butlastD: "prefix q (butlast p) \<Longrightarrow> prefix q p"
  by (rule prefix_order.trans [OF _ prefixeq_butlast])

text \<open>
  Creating a group whose Plex name leads to the path \<open>pp\<close>: the document and the mapping are written, and nothing
  else changes but for new directories.
\<close>

lemma CreateFamilyGroup_files:
  fixes fg
  defines "i \<equiv> fg_ID fg" and "pp \<equiv> Join [plexMappingBasePath, PlexUsername fg]"
  assumes "calm h" "tree (nodes s)" "name_ok i" "names pp" "pp \<noteq> []" "enc_group fg = Some doc"
    and new: "Disk_GetFamilyGroupByPlex h (PlexUsername fg) s = (Inr None, s1)" "keeps s s1"
    and dirs: "\<And>q. prefix q (groupsDir @ [i]) \<Longrightarrow> node_at (nodes s) q \<in> {None, Some Dir}"
      "\<And>q. prefix q (butlast pp) \<Longrightarrow> node_at (nodes s) q \<in> {None, Some Dir}"
    and doc: "node_at (nodes s) (groupsDir @ [i, ''group.json'']) \<noteq> Some Dir" "node_at (nodes s) pp \<noteq> Some Dir"
      "\<not> prefix pp (groupsDir @ [i])" "\<not> prefix (groupsDir @ [i, ''group.json'']) pp"
  shows "\<exists>s'. Disk_CreateFamilyGroup h fg s = (None, s') \<and> tree (nodes s') \<and> node_at (nodes s') pp = Some (File i) \<and>
    node_at (nodes s') (groupsDir @ [i, ''group.json'']) = Some (File (MarshalIndent_text doc)) \<and>
    (\<forall>q. q \<noteq> pp \<longrightarrow> q \<noteq> groupsDir @ [i, ''group.json''] \<longrightarrow> \<not> prefix q (groupsDir @ [i]) \<longrightarrow> \<not> prefix q (butlast pp) \<longrightarrow>
      node_at (nodes s') q = node_at (nodes s) q)"
proof -
  let ?f = "groupsDir @ [i, ''group.json'']"
  have s1: "nodes s1 = nodes s" using new(2) by (simp add: keeps_def)
  obtain s2 where s2: "os_MkdirAll (groupsDir @ [i]) h s1 = (None, s2)" "tree (nodes s2)"
    "\<And>q. node_at (nodes s2) q = (if prefix q (groupsDir @ [i]) then Some Dir else node_at (nodes s) q)"
    using MkdirAll_calm [OF assms(3), of "groupsDir @ [i]" s1] assms(4,5) dirs(1) s1 by auto
  have nf: "\<not> prefix ?f (groupsDir @ [i])" by simp
  obtain s3 where s3: "os_WriteFile ?f (MarshalIndent_text doc) h s2 = (Inr (), s3)" "tree (nodes s3)"
    "\<And>q. node_at (nodes s3) q = (if q = ?f then Some (File (MarshalIndent_text doc)) else node_at (nodes s2) q)"
    using WriteFile_into [OF assms(3), of ?f s2 "MarshalIndent_text doc"] s2(2,3) nf assms(5) doc(1) by (auto simp: butlast_append)
  have "node_at (nodes s3) q \<in> {None, Some Dir}" if "prefix q (butlast pp)" for q
  proof -
    have "q \<noteq> ?f" using prefix_butlastD [OF that] doc(4) by auto
    then show ?thesis using dirs(2) [OF that] s2(3) s3(3) by auto
  qed
  moreover have "names (butlast pp)" using assms(6) by (auto simp: names_def dest: in_set_butlastD)
  ultimately obtain s4 where s4: "os_MkdirAll (butlast pp) h s3 = (None, s4)" "tree (nodes s4)"
    "\<And>q. node_at (nodes s4) q = (if prefix q (butlast pp) then Some Dir else node_at (nodes s3) q)"
    using MkdirAll_calm [OF assms(3), of "butlast pp" s3] s3(2) by auto
  have np: "\<not> prefix pp (butlast pp)" using butlast_neq [OF assms(7)] by (metis prefix_order.antisym prefixeq_butlast)
  have "node_at (nodes s4) pp \<noteq> Some Dir" using np doc(2,3) s2(3) s3(3) s4(3) by auto
  then obtain s5 where s5: "os_WriteFile pp i h s4 = (Inr (), s5)" "tree (nodes s5)"
    "\<And>q. node_at (nodes s5) q = (if q = pp then Some (File i) else node_at (nodes s4) q)"
    using WriteFile_into [OF assms(3,6,7) s4(2), of i] s4(3) by auto
  have "Disk_CreateFamilyGroup h fg s = (None, s5)"
    unfolding Disk_CreateFamilyGroup_def i_def [symmetric] pp_def [symmetric] new(1) Join_groups(2) [OF assms(5)]
    by (simp add: s2(1) s3(1) s4(1) s5(1) assms(8))
  moreover have "\<not> prefix ?f (butlast pp)" using doc(4) prefix_butlastD by blast
  moreover have "?f \<noteq> pp" using doc(4) by auto
  ultimately show ?thesis using s2(3) s3(3) s4(3) s5(2,3) by auto
qed

lemma GetFamilyGroup_file:
  assumes "calm h" "name_ok i" "node_at (nodes s) (groupsDir @ [i, ''group.json'']) = Some (File d)" "Unmarshal dec_group d zero_group = Some (g, True)"
  shows "Disk_GetFamilyGroup h i s = (Inr (Some g), tick s)"
  using assms ReadFile_calm [OF assms(1), of "groupsDir @ [i, ''group.json'']" s] by (simp add: Disk_GetFamilyGroup_def Join_groups)

lemma GetFamilyGroup_none:
  assumes "calm h" "name_ok i" "node_at (nodes s) (groupsDir @ [i, ''group.json'']) = None" "clear_to (nodes s) (groupsDir @ [i, ''group.json''])"
  shows "Disk_GetFamilyGroup h i s = (Inr None, tick s)"
  using assms ReadFile_calm [OF assms(1), of "groupsDir @ [i, ''group.json'']" s] by (simp add: Disk_GetFamilyGroup_def Join_groups missing_clear)

text \<open>The directories of the groups: no files where directories should be.\<close>

definition groups_clear :: "(path \<times> node) list \<Rightarrow> string \<Rightarrow> bool" where
  "groups_clear m i \<longleftrightarrow> tree m \<and> node_at m [''keystore''] \<in> {None, Some Dir} \<and> node_at m groupsDir \<in> {None, Some Dir} \<and>
     node_at m (groupsDir @ [''by_plex'']) \<in> {None, Some Dir} \<and> node_at m (groupsDir @ [i]) \<in> {None, Some Dir} \<and>
     node_at m (groupsDir @ [i, ''group.json'']) \<noteq> Some Dir"

lemma groups_clear_prefix:
  "groups_clear m i \<Longrightarrow> c \<in> {i, ''by_plex''} \<Longrightarrow> prefix q (groupsDir @ [c]) \<Longrightarrow> node_at m q \<in> {None, Some Dir}"
  by (auto simp: groups_clear_def groupsDir_def prefix_Cons)

lemma group_roundtrip_files:
  assumes "calm h" "groups_clear (nodes s) (fg_ID g)" "name_ok (fg_ID g)" "fg_ID g \<noteq> ''by_plex''" "TrimSpace (fg_ID g) = fg_ID g"
    "name_ok (PlexUsername g)" "group_storable g" "node_at (nodes s) (groupsDir @ [''by_plex'', PlexUsername g]) = None"
  shows "\<exists>s'. Disk_CreateFamilyGroup h g s = (None, s') \<and> fst (Disk_GetFamilyGroup h (fg_ID g) s') = Inr (Some g) \<and>
    fst (Disk_GetFamilyGroupByPlex h (PlexUsername g) s') = Inr (Some g) \<and>
    fst (Disk_CreateFamilyGroup h (g\<lparr>fg_ID := j\<rparr>) s') = Some (Err (''plex username '' @ PlexUsername g @ '' already exists''))"
proof -
  let ?i = "fg_ID g" and ?pp = "groupsDir @ [''by_plex'', PlexUsername g]"
  obtain d where d: "enc_group g = Some d" using assms(7) by (auto simp: group_storable_def split: option.splits)
  have tr: "tree (nodes s)" using assms(2) by (simp add: groups_clear_def)
  have pj: "Join [plexMappingBasePath, PlexUsername g] = ?pp" by (rule Join_groups(5) [OF assms(6)])
  have np: "names ?pp" using assms(6) by simp
  have "clear_to (nodes s) ?pp"
    using assms(2) by (auto simp: clear_to_def groups_clear_def groupsDir_def less_Suc_eq)
  then have new: "Disk_GetFamilyGroupByPlex h (PlexUsername g) s = (Inr None, tick s)"
    using ReadFile_calm [OF assms(1) np, of s] assms(8) by (simp add: Disk_GetFamilyGroupByPlex_def pj missing_clear)
  obtain s' where s': "Disk_CreateFamilyGroup h g s = (None, s')" "node_at (nodes s') ?pp = Some (File ?i)"
    "node_at (nodes s') (groupsDir @ [?i, ''group.json'']) = Some (File (MarshalIndent_text d))"
    using CreateFamilyGroup_files [OF assms(1) tr assms(3) _ _ d new, unfolded pj] np assms(2,4,8) groups_clear_prefix [OF assms(2)]
    by (auto simp: groups_clear_def butlast_append)
  have get: "Disk_GetFamilyGroup h ?i t = (Inr (Some g), tick t)" if "nodes t = nodes s'" for t
    using GetFamilyGroup_file [OF assms(1,3)] s'(3) that group_roundtrip(2) [OF assms(7) d] by simp
  then have "Disk_GetFamilyGroupByPlex h (PlexUsername g) s' = (Inr (Some g), tick (tick s'))"
    using ReadFile_calm [OF assms(1) np, of s'] s'(2) get [of "tick s'"] assms(5) by (simp add: Disk_GetFamilyGroupByPlex_def pj)
  with s'(1) get [of s'] show ?thesis by (simp add: Disk_CreateFamilyGroup_def)
qed

text \<open>
  A family group that was created in the file store is found by its identifier and by its Plex name
  with every field intact, and no second group can be created under the same Plex name, provided the
  identifier and the name are proper file names.
\<close>

theorem disk_group_roundtrip:
  assumes "calm h" "groups_clear (nodes s) (fg_ID g)" "name_ok (fg_ID g)" "fg_ID g \<noteq> ''by_plex''" "TrimSpace (fg_ID g) = fg_ID g"
    "name_ok (PlexUsername g)" "group_storable g" "node_at (nodes s) (groupsDir @ [''by_plex'', PlexUsername g]) = None"
  shows "\<exists>s'. Disk_CreateFamilyGroup h g s = (None, s') \<and> fst (Disk_GetFamilyGroup h (fg_ID g) s') = Inr (Some g) \<and>
    fst (Disk_GetFamilyGroupByPlex h (PlexUsername g) s') = Inr (Some g) \<and>
    fst (Disk_CreateFamilyGroup h (g\<lparr>fg_ID := j\<rparr>) s') = Some (Err (''plex username '' @ PlexUsername g @ '' already exists''))"
  by (rule group_roundtrip_files [OF assms])

definition home_group :: FamilyGroup where
  "home_group = \<lparr>fg_ID = ''g1'', PlexUsername = ''home'', fg_CreatedAt = 0, fg_UpdatedAt = 0\<rparr>"

lemma group_storable_iff:
  "group_storable g \<longleftrightarrow> four_digit_year (fg_CreatedAt g) \<and> four_digit_year (fg_UpdatedAt g) \<and> valid_utf8 (fg_ID g) \<and> valid_utf8 (PlexUsername g)"
proof (cases "four_digit_year (fg_CreatedAt g) \<and> four_digit_year (fg_UpdatedAt g)")
  case True
  then obtain c u where "Time_MarshalText (fg_CreatedAt g) = Some c" "Time_MarshalText (fg_UpdatedAt g) = Some u" using Time_text_year by blast
  with True show ?thesis
    by (auto simp: group_storable_def enc_group_def utf8_doc_def valid_utf8_def Time_text_clean ToValidUTF8_lit ascii_def)
next
  case False
  then have "enc_group g = None" using Time_text_year unfolding enc_group_def by (fastforce split: bind_splits)
  with False show ?thesis by (auto simp: group_storable_def)
qed

lemma home_group_storable: "ascii i \<Longrightarrow> ascii n \<Longrightarrow> group_storable (home_group\<lparr>fg_ID := i, PlexUsername := n\<rparr>)"
  by (simp add: group_storable_iff home_group_def year_bounds ascii_utf8)

theorem disk_group_roundtrip_witness:
  "\<exists>s'. Disk_CreateFamilyGroup quiet_host home_group \<lparr>nodes = [], calls = 0\<rparr> = (None, s') \<and>
    fst (Disk_GetFamilyGroupByPlex quiet_host ''home'' s') = Inr (Some home_group)"
proof -
  have "group_storable home_group" using home_group_storable [of "''g1''" "''home''"] by (simp add: home_group_def ascii_def)
  moreover have "TrimSpace (fg_ID home_group) = fg_ID home_group" by (simp add: home_group_def TrimSpace_plain plain_def)
  moreover have "groups_clear [] i" for i by (simp add: groups_clear_def tree_def node_at_def groupsDir_def)
  ultimately show ?thesis
    using disk_group_roundtrip [OF quiet_calm, of "\<lparr>nodes = [], calls = 0\<rparr>" home_group "''g2''"]
    by (auto simp: home_group_def name_ok_def node_at_def)
qed

section \<open>A name that leaves its directory\<close>

lemma split_slash_append: "CHR ''/'' \<notin> set a \<Longrightarrow> split_slash acc (a @ CHR ''/'' # s) = (acc @ a) # split_slash [] s"
  by (induction a arbitrary: acc) auto

lemma Join_escape: "name_ok i \<Longrightarrow> Join [plexMappingBasePath, ''../'' @ i @ ''/members.txt''] = groupsDir @ [i, ''members.txt'']"
  by (simp add: Join_def plexMappingBasePath_def groupsDir_def clean_step_def name_ok_def split_slash_append)

lemma Join_member: "name_ok i \<Longrightarrow> Join [groupMemberBasePath, i, ''member.json''] = [''keystore'', ''group_members'', i, ''member.json'']"
  by (simp add: Join_def groupMemberBasePath_def clean_step_def name_ok_def split_slash_plain)

lemma split_lines_plain: "CHR 0x0A \<notin> set s \<Longrightarrow> split_lines acc s = [acc @ s]"
  by (induction s arbitrary: acc) auto

lemma escape_files:
  assumes "calm h" "groups_clear (nodes s) (fg_ID g)" "name_ok (fg_ID g)" "TrimSpace (fg_ID g) = fg_ID g" "CHR 0x0A \<notin> set (fg_ID g)"
    "group_storable g" "name_ok i" "fg_ID g \<noteq> i" "PlexUsername g = ''../'' @ i @ ''/members.txt''"
    "node_at (nodes s) (groupsDir @ [i, ''members.txt'']) = Some (File m)" "name_ok (TrimSpace m)" "node_at (nodes s) (groupsDir @ [TrimSpace m]) = None"
    "node_at (nodes s) [''keystore'', ''group_members''] = Some Dir" "node_at (nodes s) [''keystore'', ''group_members'', fg_ID g] = None"
  shows "\<exists>s'. Disk_CreateFamilyGroup h g s = (None, s') \<and> fst (Disk_ListGroupMembers h i s') = Inr []"
proof -
  let ?i = "fg_ID g" and ?pp = "groupsDir @ [i, ''members.txt'']"
  obtain d where d: "enc_group g = Some d" using assms(6) by (auto simp: group_storable_def split: option.splits)
  have tr: "tree (nodes s)" using assms(2) by (simp add: groups_clear_def)
  have pj: "Join [plexMappingBasePath, PlexUsername g] = ?pp" using Join_escape [OF assms(7)] assms(9) by simp
  have np: "names ?pp" using assms(7) by simp
  have no: "node_at (nodes s) (groupsDir @ [TrimSpace m, ''group.json'']) = None"
    using tree_parent [OF tr, of "groupsDir @ [TrimSpace m, ''group.json'']"] assms(12) by (cases "node_at (nodes s) (groupsDir @ [TrimSpace m, ''group.json''])") (auto simp: butlast_append)
  have "clear_to (nodes s) (groupsDir @ [TrimSpace m, ''group.json''])"
    using assms(2,12) by (auto simp: clear_to_def groups_clear_def groupsDir_def less_Suc_eq)
  with GetFamilyGroup_none [OF assms(1,11), of "tick s"] no
  have new: "Disk_GetFamilyGroupByPlex h (PlexUsername g) s = (Inr None, tick (tick s))"
    using ReadFile_calm [OF assms(1) np, of s] assms(10) by (simp add: Disk_GetFamilyGroupByPlex_def pj)
  have up: "node_at (nodes s) q = Some Dir" if "prefix q (groupsDir @ [i])" for q
  proof -
    have "prefix q ?pp" using that prefix_butlastD [of q ?pp] by (simp add: butlast_append)
    then have "take (length q) ?pp = q" by (metis append_eq_conv_conj prefix_def)
    moreover have "length q < length ?pp" using prefix_length_le [OF that] by simp
    ultimately show ?thesis using tree_above [OF tr, of ?pp "length q"] assms(10) by simp
  qed
  obtain s' where s': "Disk_CreateFamilyGroup h g s = (None, s')" "node_at (nodes s') ?pp = Some (File ?i)" "tree (nodes s')"
    "\<And>q. q \<noteq> ?pp \<Longrightarrow> q \<noteq> groupsDir @ [?i, ''group.json''] \<Longrightarrow> \<not> prefix q (groupsDir @ [?i]) \<Longrightarrow> \<not> prefix q (groupsDir @ [i]) \<Longrightarrow> node_at (nodes s') q = node_at (nodes s) q"
    using CreateFamilyGroup_files [OF assms(1) tr assms(3) _ _ d new, unfolded pj] np assms(2,8,10) groups_clear_prefix [OF assms(2)] up
    by (auto simp: groups_clear_def butlast_append keeps_def)
  have keep: "node_at (nodes s') (''keystore'' # ''group_members'' # r) = node_at (nodes s) (''keystore'' # ''group_members'' # r)" for r
    by (rule s'(4)) (simp_all add: groupsDir_def)
  let ?mp = "[''keystore'', ''group_members'', ?i, ''member.json'']"
  have at: "node_at (nodes s') [''keystore'', ''group_members''] = Some Dir" "node_at (nodes s') [''keystore'', ''group_members'', ?i] = None"
    using keep [of "[]"] keep [of "[?i]"] assms(13,14) by simp_all
  then have "node_at (nodes s') ?mp = None" using tree_parent [OF s'(3), of ?mp] by (cases "node_at (nodes s') ?mp") auto
  moreover have "node_at (nodes s') [''keystore''] = Some Dir" using tree_parent [OF s'(3) at(1)] by simp
  then have "clear_to (nodes s') ?mp" using at by (auto simp: clear_to_def less_Suc_eq)
  ultimately have mem: "Disk_GetGroupMember h ?i (tick s') = (Inr None, tick (tick s'))"
    using ReadFile_calm [OF assms(1), of ?mp "tick s'"] assms(3)
    by (simp add: Disk_GetGroupMember_def Join_member missing_clear name_ok_def)
  have "readMembersList h ?pp s' = (Inr [?i], tick s')"
    using ReadFile_calm [OF assms(1) np, of s'] s'(2) assms(3-5) split_lines_plain [OF assms(5), of "[]"]
    by (simp add: readMembersList_def name_ok_def)
  with mem s'(1) show ?thesis by (simp add: Disk_ListGroupMembers_def Join_groups(4) [OF assms(7)])
qed

text \<open>
  C21. A Plex name can leave the directory of the name mappings: whoever creates a family group named
  \<open>../i/members.txt\<close> overwrites the list of members of the group \<open>i\<close>.  Creating it succeeds, and
  afterwards the other group has no members, although a group with members existed and neither the host
  nor the server has failed.
\<close>

theorem disk_plex_name_escapes:
  assumes "calm h" "groups_clear (nodes s) (fg_ID g)" "name_ok (fg_ID g)" "TrimSpace (fg_ID g) = fg_ID g" "CHR 0x0A \<notin> set (fg_ID g)"
    "group_storable g" "name_ok i" "fg_ID g \<noteq> i" "PlexUsername g = ''../'' @ i @ ''/members.txt''"
    "node_at (nodes s) (groupsDir @ [i, ''members.txt'']) = Some (File m)" "name_ok (TrimSpace m)" "node_at (nodes s) (groupsDir @ [TrimSpace m]) = None"
    "node_at (nodes s) [''keystore'', ''group_members''] = Some Dir" "node_at (nodes s) [''keystore'', ''group_members'', fg_ID g] = None"
  shows "\<exists>s'. Disk_CreateFamilyGroup h g s = (None, s') \<and> fst (Disk_ListGroupMembers h i s') = Inr []"
  by (rule escape_files [OF assms])

theorem disk_plex_name_escapes_witness:
  "\<exists>s'. Disk_CreateFamilyGroup quiet_host (home_group\<lparr>fg_ID := ''g2'', PlexUsername := ''../g1/members.txt''\<rparr>)
      \<lparr>nodes = [([''keystore''], Dir), (groupsDir, Dir), (groupsDir @ [''g1''], Dir), (groupsDir @ [''g1'', ''members.txt''], File ''m1''),
         ([''keystore'', ''group_members''], Dir)], calls = 0\<rparr> = (None, s') \<and>
    fst (Disk_ListGroupMembers quiet_host ''g1'' s') = Inr []"
proof (rule disk_plex_name_escapes [OF quiet_calm])
  have "TrimSpace ''m1'' = ''m1''" by (simp add: TrimSpace_plain plain_def)
  then show "name_ok (TrimSpace ''m1'')" by (simp add: name_ok_def)
qed (simp_all add: home_group_storable ascii_def TrimSpace_plain plain_def name_ok_def groups_clear_def groupsDir_def node_at_def tree_def)

end
