(* ===== verification/Float_Text.thy ===== *)
theory Float_Text
  imports Json_Text Float64
begin

text \<open>
  Floating-point numbers with their range and as text (packages \<open>strconv\<close> and \<open>encoding/json\<close>): rounding to \<open>float64\<close> and
  \<open>float32\<close> with subnormal numbers and overflow, the shortest decimal that reads back as a
  given number, and \<open>ParseFloat\<close>.  A negative zero is not told from zero; no code of the
  program can see the difference.
\<close>

section \<open>Rounding with a range\<close>

definition round_to :: "int \<Rightarrow> int \<Rightarrow> int \<Rightarrow> rat \<Rightarrow> rat option" where
  "round_to p emin emax x = (let r = rnd_at (max (expo \<bar>x\<bar> - p) emin) x in
     if \<bar>r\<bar> < 2 powi emax then Some r else None)"

definition to_f64 :: "rat \<Rightarrow> rat option" where
  "to_f64 = round_to 52 (- 1074) 1024"

definition to_f32 :: "rat \<Rightarrow> rat option" where
  "to_f32 = round_to 23 (- 149) 128"

section \<open>The shortest decimal\<close>

text \<open>
  From the left: the first place at which a decimal ends that reads back as the number; of the two neighbours
  at that place the nearer one.  Seventeen digits are always enough, and the search
  starts at most two places above the first digit.
\<close>

fun shortest_from :: "nat \<Rightarrow> int \<Rightarrow> rat \<Rightarrow> rat" where
  "shortest_from 0 j a = a"
| "shortest_from (Suc n) j a =
     (let u = 10 powi j; m = \<lfloor>a / u\<rfloor>; lo = of_int m * u; hi = lo + u in
      if to_f64 lo = Some a \<and> (to_f64 hi \<noteq> Some a \<or> a - lo < hi - a \<or> a - lo = hi - a \<and> even m) then lo
      else if to_f64 hi = Some a then hi
      else shortest_from n (j - 1) a)"

definition shortest :: "rat \<Rightarrow> rat" where
  "shortest v = (if v = 0 then 0 else sgn v * shortest_from 20 ((expo \<bar>v\<bar> + 1) * 30103 div 100000 + 1) \<bar>v\<bar>)"

section \<open>Reading a number\<close>

datatype flt = Finite rat | NotFinite

definition underscore :: char where
  "underscore = CHR ''_''"

text \<open>
  Underscores stand between digits, or between a base prefix and a digit.  The state is what was
  seen last: the start, a digit, an underscore or something else.
\<close>

fun underscores_ok :: "bool \<Rightarrow> char \<Rightarrow> string \<Rightarrow> bool" where
  "underscores_ok hex saw [] \<longleftrightarrow> saw \<noteq> underscore"
| "underscores_ok hex saw (c # s) \<longleftrightarrow>
     (if isDigit c \<or> hex \<and> between 97 102 (lower_byte c) then underscores_ok hex (CHR ''0'') s
      else if c = underscore then saw = CHR ''0'' \<and> underscores_ok hex underscore s
      else saw \<noteq> underscore \<and> underscores_ok hex (CHR ''!'') s)"

definition unsigned :: "string \<Rightarrow> string" where
  "unsigned s = (case s of c # r \<Rightarrow> (if c = CHR ''+'' \<or> c = CHR ''-'' then r else s) | [] \<Rightarrow> [])"

definition underscoreOK :: "string \<Rightarrow> bool" where
  "underscoreOK s = (let r = unsigned s in
     if 2 \<le> length r \<and> hd r = CHR ''0'' \<and> lower_byte (r ! 1) \<in> {CHR ''b'', CHR ''o'', CHR ''x''}
     then underscores_ok (lower_byte (r ! 1) = CHR ''x'') (CHR ''0'') (drop 2 r)
     else underscores_ok False (CHR ''^'') r)"

definition mantissa_char :: "bool \<Rightarrow> char \<Rightarrow> bool" where
  "mantissa_char hex c \<longleftrightarrow> c = underscore \<or> isDigit c \<or> hex \<and> between 97 102 (lower_byte c)"

definition numeral_value :: "nat \<Rightarrow> string \<Rightarrow> nat" where
  "numeral_value base s = foldl (\<lambda>a c. base * a + (case hexval c of Some d \<Rightarrow> d | None \<Rightarrow> 0)) 0 s"

text \<open>The digits of an exponent no longer count once it has reached ten thousand.\<close>

definition exponent_value :: "string \<Rightarrow> nat" where
  "exponent_value s = foldl (\<lambda>e c. if e < 10000 then 10 * e + (of_char c - 48) else e) 0 s"

text \<open>What follows the mantissa: nothing, or an exponent to the end of the text.\<close>

definition read_exponent :: "bool \<Rightarrow> string \<Rightarrow> int option" where
  "read_exponent hex s = (case s of
     [] \<Rightarrow> if hex then None else Some 0
   | c # r \<Rightarrow> (let ds = unsigned r in
       if lower_byte c = (if hex then CHR ''p'' else CHR ''e'') \<and> ds \<noteq> [] \<and> isDigit (hd ds)
         \<and> list_all (\<lambda>c. isDigit c \<or> c = underscore) ds
       then Some ((if hd r = CHR ''-'' then -1 else 1) * int (exponent_value (filter isDigit ds)))
       else None))"

definition readFloat :: "string \<Rightarrow> rat option" where
  "readFloat s =
     (let s1 = unsigned s; hex = (2 < length s1 \<and> hd s1 = CHR ''0'' \<and> lower_byte (s1 ! 1) = CHR ''x'');
          base = (if hex then 16 else 10); s2 = (if hex then drop 2 s1 else s1);
          ip = takeWhile (mantissa_char hex) s2; r = dropWhile (mantissa_char hex) s2;
          (fp, r') = (if take 1 r = ''.'' then (takeWhile (mantissa_char hex) (tl r), dropWhile (mantissa_char hex) (tl r)) else ([], r));
          ds = filter (\<lambda>c. c \<noteq> underscore) ip; fs = filter (\<lambda>c. c \<noteq> underscore) fp in
      if ds @ fs = [] then None
      else case read_exponent hex r' of
        None \<Rightarrow> None
      | Some e \<Rightarrow> (if underscore \<in> set s \<and> \<not> underscoreOK s then None
          else Some ((if take 1 s = ''-'' then -1 else 1) * of_nat (numeral_value base (ds @ fs)) / of_nat base ^ length fs *
            (if hex then 2 else 10) powi e)))"

text \<open>A number out of range is an error, a spelled-out infinity or \<open>NaN\<close> is not.\<close>

definition ParseFloat :: "string \<Rightarrow> flt option" where
  "ParseFloat s =
     (if ToLower s = ''nan'' \<or> ToLower (unsigned s) = ''inf'' \<or> ToLower (unsigned s) = ''infinity'' then Some NotFinite
      else case readFloat s of None \<Rightarrow> None | Some x \<Rightarrow> map_option Finite (to_f64 x))"

section \<open>Integers\<close>

lemma round_to_int:
  assumes "\<bar>n\<bar> < 2 ^ Suc p" "emin \<le> 0" "int (Suc p) \<le> emax"
  shows "round_to (int p) emin emax (of_int n) = Some (of_int n)"
proof (cases "n = 0")
  case True
  then show ?thesis using round_even_of_int [of 0] by (simp add: round_to_def rnd_at_def)
next
  case False
  let ?e = "max (expo \<bar>of_int n :: rat\<bar> - int p) emin"
  have abs: "(0::rat) < \<bar>of_int n\<bar>" using False by simp
  have lt: "\<bar>of_int n :: rat\<bar> < 2 powi int (Suc p)"
    using assms(1) unfolding power_int_of_nat by (metis of_int_abs of_int_less_iff of_int_numeral of_int_power)
  then have "(2::rat) powi expo \<bar>of_int n :: rat\<bar> < 2 powi int (Suc p)" using expo_bounds(1) [OF abs] by linarith
  then have "expo \<bar>of_int n :: rat\<bar> < int (Suc p)" by (rule powi2_lessD)
  then have e: "?e \<le> 0" using assms(2) by simp
  have "(of_int n :: rat) / 2 powi ?e = of_int (n * 2 ^ nat (- ?e))"
    using e by (simp add: power_int_def field_simps)
  then have "rnd_at ?e (of_int n) = of_int n" by (rule rnd_at_exact)
  moreover have "(2::rat) powi int (Suc p) \<le> 2 powi emax" using assms(3) by (intro power_int_increasing) auto
  ultimately show ?thesis using lt by (simp add: round_to_def Let_def)
qed

lemma to_f64_int: "\<bar>n\<bar> < 2 ^ 53 \<Longrightarrow> to_f64 (of_int n) = Some (of_int n)"
  using round_to_int [of n 52] by (simp add: to_f64_def)

lemma to_f32_int: "\<bar>n\<bar> < 2 ^ 24 \<Longrightarrow> to_f32 (of_int n) = Some (of_int n)"
  using round_to_int [of n 23] by (simp add: to_f32_def)

lemma rnd_big: "2 ^ 53 \<le> x \<Longrightarrow> to_f64 (of_int x) = Some r \<Longrightarrow> 2 ^ 53 \<le> r"
proof -
  assume x: "2 ^ 53 \<le> x" and r: "to_f64 (of_int x) = Some r"
  have pos: "(0::rat) < of_int x" using x by simp
  have le: "(2::rat) ^ 53 \<le> of_int x" using x by (metis of_int_le_iff of_int_numeral of_int_power)
  then have "(2::rat) powi 53 < 2 powi (expo (of_int x) + 1)" using expo_bounds(2) [OF pos] by (simp add: power_int_def)
  then have "53 < expo (of_int x) + 1" by (rule powi2_lessD)
  then have "r = rnd (of_int x)" using r pos x
    by (auto simp: to_f64_def round_to_def rnd_def Let_def max_def split: if_splits)
  moreover have "rnd (of_int (2 ^ 53)) \<le> rnd (of_int x)" using le by (intro rnd_mono) simp
  ultimately show ?thesis using rnd_of_int [of "2 ^ 53"] by simp
qed

lemma to_f64_int_inject:
  assumes "0 \<le> x" "n < 2 ^ 53" "0 \<le> n" "to_f64 (of_int x) = Some (of_int n)"
  shows "x = n"
proof (cases "x < 2 ^ 53")
  case True
  with assms show ?thesis by (simp add: to_f64_int)
next
  case False
  then have "(2 ^ 53 :: rat) \<le> of_int n" using rnd_big [OF _ assms(4)] by simp
  then have "(2 ^ 53 :: int) \<le> n" by (metis of_int_le_iff of_int_numeral of_int_power)
  with assms(2) show ?thesis by simp
qed

lemma shortest_from_int:
  "0 \<le> j \<Longrightarrow> j < int k \<Longrightarrow> 0 < n \<Longrightarrow> n < 2 ^ 53 \<Longrightarrow> shortest_from k j (of_int n) = of_int n"
proof (induction k arbitrary: j)
  case (Suc k)
  let ?U = "10 ^ nat j :: int" and ?a = "of_int n :: rat"
  have u: "(10::rat) powi j = of_int ?U" using Suc.prems(1) by (simp add: power_int_def)
  have m: "\<lfloor>?a / of_int ?U\<rfloor> = n div ?U" by (rule floor_divide_of_int_eq)
  have lo: "of_int (n div ?U) * (of_int ?U :: rat) = of_int (n div ?U * ?U)" by simp
  have hi: "(of_int (n div ?U * ?U) :: rat) + of_int ?U = of_int (n div ?U * ?U + ?U)" by simp
  have nn: "0 \<le> n div ?U * ?U" using Suc.prems(3) by (simp add: pos_imp_zdiv_nonneg_iff)
  have inj: "to_f64 (of_int x) = Some ?a \<Longrightarrow> x = n" if "0 \<le> x" for x
    using to_f64_int_inject [OF that Suc.prems(4)] Suc.prems(3) by simp
  have rest: "shortest_from k (j - 1) ?a = ?a" if "j \<noteq> 0" using Suc that by simp
  have zero: "to_f64 ?a = Some ?a" using Suc.prems(3,4) by (intro to_f64_int) simp
  have "to_f64 (of_int (n div ?U * ?U)) = Some ?a \<Longrightarrow> n div ?U * ?U = n"
    "to_f64 (of_int (n div ?U * ?U + ?U)) = Some ?a \<Longrightarrow> n div ?U * ?U + ?U = n"
    using inj nn by simp_all
  moreover have "j = 0 \<Longrightarrow> n div ?U * ?U = n" by simp
  ultimately show ?case
    unfolding shortest_from.simps u Let_def m lo hi using rest zero
    by (cases "j = 0") (auto simp del: of_int_add of_int_mult)
qed simp

lemma shortest_int: "\<bar>n\<bar> < 2 ^ 53 \<Longrightarrow> shortest (of_int n) = of_int n"
proof (cases "n = 0")
  case False
  assume n: "\<bar>n\<bar> < 2 ^ 53"
  let ?e = "expo (of_int \<bar>n\<bar>)"
  have pos: "(0::rat) < of_int \<bar>n\<bar>" using False by simp
  have "(2::rat) powi 0 < 2 powi (?e + 1)" using expo_bounds(2) [OF pos] False by simp
  then have "0 < ?e + 1" by (rule powi2_lessD)
  moreover have "(of_int \<bar>n\<bar> :: rat) < 2 powi 53" using n by (simp add: power_int_def)
  then have "(2::rat) powi ?e < 2 powi 53" using expo_bounds(1) [OF pos] by linarith
  then have "?e < 53" by (rule powi2_lessD)
  ultimately have "shortest_from 20 ((?e + 1) * 30103 div 100000 + 1) (of_int \<bar>n\<bar>) = of_int \<bar>n\<bar>"
    using False n by (intro shortest_from_int) auto
  then show ?thesis by (simp add: shortest_def abs_mult_sgn mult.commute [of "sgn _"] False del: shortest_from.simps)
qed (simp add: shortest_def)

end
