(* ===== verification/Plex_Json.thy ===== *)
theory Plex_Json
  imports Plex Float_Text "HOL-Library.AList" "HOL-Library.Multiset" "HOL-Library.List_Lexorder" "HOL-Library.Char_ord"
begin

text \<open>
  The decoder behind \<open>plexhooks.ParseWebhook\<close>: \<open>encoding/json\<close> on the structs of \<open>plexhooks/structs.go\<close>, with
  \<open>Metadata.UnmarshalJSON\<close>, which reads the metadata as a map, repairs the audience rating, writes the map as
  text again and reads that text into the struct.  The text between is not spelled out: the tree of what it says is, with
  the keys sorted and every number turned into the shortest decimal of its \<open>float64\<close>.  An
  error anywhere makes the parser return no webhook, so a decoder stops at the first one; the
  messages are not modelled, nor is the limit of 10000 nested documents.
\<close>

section \<open>Structs with names that differ in case only\<close>

text \<open>
  A key belongs to the field of exactly that name, and otherwise to the first one that differs in case only.
\<close>

definition pick :: "'a field list \<Rightarrow> string \<Rightarrow> 'a field option" where
  "pick fs k = (case find (\<lambda>(n, _). n = k) fs of Some f \<Rightarrow> Some f | None \<Rightarrow> find (\<lambda>(n, _). EqualFold n k) fs)"

fun assign :: "'a field list \<Rightarrow> (string \<times> json) list \<Rightarrow> 'a \<Rightarrow> 'a option" where
  "assign fs [] a = Some a"
| "assign fs ((k, v) # kvs) a = (case pick fs k of
     None \<Rightarrow> assign fs kvs a
   | Some (_, f) \<Rightarrow> (case f v a of None \<Rightarrow> None | Some a' \<Rightarrow> assign fs kvs a'))"

definition fld :: "string \<Rightarrow> (json \<Rightarrow> 'b \<Rightarrow> 'b option) \<Rightarrow> ('a \<Rightarrow> 'b) \<Rightarrow> ('b \<Rightarrow> 'a \<Rightarrow> 'a) \<Rightarrow> 'a field" where
  "fld name dec get put = (name, \<lambda>v a. map_option (\<lambda>x. put x a) (dec v (get a)))"

fun set_int :: "json \<Rightarrow> int \<Rightarrow> int option" where
  "set_int (JInt n) old = (if in_int64 n then Some n else None)"
| "set_int JNull old = Some old"
| "set_int _ old = None"

fun set_bool :: "json \<Rightarrow> bool \<Rightarrow> bool option" where
  "set_bool (JBool b) old = Some b"
| "set_bool JNull old = Some old"
| "set_bool _ old = None"

fun set_f32 :: "json \<Rightarrow> rat \<Rightarrow> rat option" where
  "set_f32 (JInt n) old = to_f32 (of_int n)"
| "set_f32 (JFrac r) old = to_f32 r"
| "set_f32 JNull old = Some old"
| "set_f32 _ old = None"

section \<open>The structs\<close>

record Tag =
  tag_ID :: int
  tag_Filter :: string
  tag_Tag :: string
  tag_Role :: string
  tag_Thumb :: string
  tag_Count :: int

definition zero_Tag :: Tag where
  "zero_Tag = \<lparr>tag_ID = 0, tag_Filter = [], tag_Tag = [], tag_Role = [], tag_Thumb = [], tag_Count = 0\<rparr>"

definition dec_Tag :: "json \<Rightarrow> Tag \<Rightarrow> Tag option" where
  "dec_Tag = dec_struct
     [fld ''id'' set_int tag_ID (\<lambda>x a. a\<lparr>tag_ID := x\<rparr>), fld ''filter'' set_string tag_Filter (\<lambda>x a. a\<lparr>tag_Filter := x\<rparr>),
      fld ''tag'' set_string tag_Tag (\<lambda>x a. a\<lparr>tag_Tag := x\<rparr>), fld ''role'' set_string tag_Role (\<lambda>x a. a\<lparr>tag_Role := x\<rparr>),
      fld ''thumb'' set_string tag_Thumb (\<lambda>x a. a\<lparr>tag_Thumb := x\<rparr>), fld ''count'' set_int tag_Count (\<lambda>x a. a\<lparr>tag_Count := x\<rparr>)]"

text \<open>The whole struct: the fields the server reads (the record of theory \<open>Plex\<close>) and the others.\<close>

record AllMetadata = Metadata +
  md_Key :: string
  ParentRatingKey :: string
  GrandparentRatingKey :: string
  LibrarySectionTitle :: string
  LibrarySectionID :: int
  LibrarySectionKey :: string
  Studio :: string
  TitleSort :: string
  GrandparentKey :: string
  ParentKey :: string
  ParentTitle :: string
  ContentRating :: string
  Summary :: string
  Tagline :: string
  RatingCount :: int
  AudienceRating :: rat
  ViewCount :: int
  LastViewedAt :: int
  md_Thumb :: string
  Art :: string
  ParentThumb :: string
  GrandparentThumb :: string
  GrandparentArt :: string
  GrandparentTheme :: string
  OriginallyAvailableAt :: string
  AddedAt :: int
  UpdatedAt :: int
  AudienceRatingImage :: string
  PrimaryExtraKey :: string
  RatingImage :: string
  Genres :: "Tag list"
  Directors :: "Tag list"
  Writers :: "Tag list"
  Producers :: "Tag list"
  Countries :: "Tag list"
  Similar :: "Tag list"
  Roles :: "Tag list"

definition zero_AllMetadata :: AllMetadata where
  "zero_AllMetadata =
    \<lparr>LibrarySectionType = [], md_RatingKey = [], ExternalGUIDs = [], GUID = [], md_Type = [], md_Title = [],
     GrandparentTitle = [], Index = 0, ParentIndex = 0, ViewOffset = 0, Year = 0, Duration = 0, md_Key = [],
     ParentRatingKey = [], GrandparentRatingKey = [], LibrarySectionTitle = [], LibrarySectionID = 0,
     LibrarySectionKey = [], Studio = [], TitleSort = [], GrandparentKey = [], ParentKey = [], ParentTitle = [],
     ContentRating = [], Summary = [], Tagline = [], RatingCount = 0, AudienceRating = 0, ViewCount = 0,
     LastViewedAt = 0, md_Thumb = [], Art = [], ParentThumb = [], GrandparentThumb = [], GrandparentArt = [],
     GrandparentTheme = [], OriginallyAvailableAt = [], AddedAt = 0, UpdatedAt = 0, AudienceRatingImage = [],
     PrimaryExtraKey = [], RatingImage = [], Genres = [], Directors = [], Writers = [], Producers = [],
     Countries = [], Similar = [], Roles = []\<rparr>"

definition metadata_fields :: "AllMetadata field list" where
  "metadata_fields =
     [fld ''librarySectionType'' set_string LibrarySectionType (\<lambda>x a. a\<lparr>LibrarySectionType := x\<rparr>),
      fld ''ratingKey'' set_string md_RatingKey (\<lambda>x a. a\<lparr>md_RatingKey := x\<rparr>),
      fld ''key'' set_string md_Key (\<lambda>x a. a\<lparr>md_Key := x\<rparr>),
      fld ''parentRatingKey'' set_string ParentRatingKey (\<lambda>x a. a\<lparr>ParentRatingKey := x\<rparr>),
      fld ''grandparentRatingKey'' set_string GrandparentRatingKey (\<lambda>x a. a\<lparr>GrandparentRatingKey := x\<rparr>),
      fld ''Guid'' (dec_slice [] (dec_struct [(''id'', set_string)])) ExternalGUIDs (\<lambda>x a. a\<lparr>ExternalGUIDs := x\<rparr>),
      fld ''guid'' set_string GUID (\<lambda>x a. a\<lparr>GUID := x\<rparr>),
      fld ''librarySectionTitle'' set_string LibrarySectionTitle (\<lambda>x a. a\<lparr>LibrarySectionTitle := x\<rparr>),
      fld ''librarySectionID'' set_int LibrarySectionID (\<lambda>x a. a\<lparr>LibrarySectionID := x\<rparr>),
      fld ''librarySectionKey'' set_string LibrarySectionKey (\<lambda>x a. a\<lparr>LibrarySectionKey := x\<rparr>),
      fld ''studio'' set_string Studio (\<lambda>x a. a\<lparr>Studio := x\<rparr>),
      fld ''type'' set_string md_Type (\<lambda>x a. a\<lparr>md_Type := x\<rparr>),
      fld ''title'' set_string md_Title (\<lambda>x a. a\<lparr>md_Title := x\<rparr>),
      fld ''titleSort'' set_string TitleSort (\<lambda>x a. a\<lparr>TitleSort := x\<rparr>),
      fld ''grandparentKey'' set_string GrandparentKey (\<lambda>x a. a\<lparr>GrandparentKey := x\<rparr>),
      fld ''parentKey'' set_string ParentKey (\<lambda>x a. a\<lparr>ParentKey := x\<rparr>),
      fld ''grandparentTitle'' set_string GrandparentTitle (\<lambda>x a. a\<lparr>GrandparentTitle := x\<rparr>),
      fld ''parentTitle'' set_string ParentTitle (\<lambda>x a. a\<lparr>ParentTitle := x\<rparr>),
      fld ''contentRating'' set_string ContentRating (\<lambda>x a. a\<lparr>ContentRating := x\<rparr>),
      fld ''summary'' set_string Summary (\<lambda>x a. a\<lparr>Summary := x\<rparr>),
      fld ''tagline'' set_string Tagline (\<lambda>x a. a\<lparr>Tagline := x\<rparr>),
      fld ''index'' set_int Index (\<lambda>x a. a\<lparr>Index := x\<rparr>),
      fld ''parentIndex'' set_int ParentIndex (\<lambda>x a. a\<lparr>ParentIndex := x\<rparr>),
      fld ''ratingCount'' set_int RatingCount (\<lambda>x a. a\<lparr>RatingCount := x\<rparr>),
      fld ''audienceRating'' set_f32 AudienceRating (\<lambda>x a. a\<lparr>AudienceRating := x\<rparr>),
      fld ''viewOffset'' set_int ViewOffset (\<lambda>x a. a\<lparr>ViewOffset := x\<rparr>),
      fld ''viewCount'' set_int ViewCount (\<lambda>x a. a\<lparr>ViewCount := x\<rparr>),
      fld ''lastViewedAt'' set_int LastViewedAt (\<lambda>x a. a\<lparr>LastViewedAt := x\<rparr>),
      fld ''year'' set_int Year (\<lambda>x a. a\<lparr>Year := x\<rparr>),
      fld ''duration'' set_int Duration (\<lambda>x a. a\<lparr>Duration := x\<rparr>),
      fld ''thumb'' set_string md_Thumb (\<lambda>x a. a\<lparr>md_Thumb := x\<rparr>),
      fld ''art'' set_string Art (\<lambda>x a. a\<lparr>Art := x\<rparr>),
      fld ''parentThumb'' set_string ParentThumb (\<lambda>x a. a\<lparr>ParentThumb := x\<rparr>),
      fld ''grandparentThumb'' set_string GrandparentThumb (\<lambda>x a. a\<lparr>GrandparentThumb := x\<rparr>),
      fld ''grandparentArt'' set_string GrandparentArt (\<lambda>x a. a\<lparr>GrandparentArt := x\<rparr>),
      fld ''grandparentTheme'' set_string GrandparentTheme (\<lambda>x a. a\<lparr>GrandparentTheme := x\<rparr>),
      fld ''originallyAvailableAt'' set_string OriginallyAvailableAt (\<lambda>x a. a\<lparr>OriginallyAvailableAt := x\<rparr>),
      fld ''addedAt'' set_int AddedAt (\<lambda>x a. a\<lparr>AddedAt := x\<rparr>),
      fld ''updatedAt'' set_int UpdatedAt (\<lambda>x a. a\<lparr>UpdatedAt := x\<rparr>),
      fld ''audienceRatingImage'' set_string AudienceRatingImage (\<lambda>x a. a\<lparr>AudienceRatingImage := x\<rparr>),
      fld ''primaryExtraKey'' set_string PrimaryExtraKey (\<lambda>x a. a\<lparr>PrimaryExtraKey := x\<rparr>),
      fld ''ratingImage'' set_string RatingImage (\<lambda>x a. a\<lparr>RatingImage := x\<rparr>),
      fld ''Genre'' (dec_slice zero_Tag dec_Tag) Genres (\<lambda>x a. a\<lparr>Genres := x\<rparr>),
      fld ''Director'' (dec_slice zero_Tag dec_Tag) Directors (\<lambda>x a. a\<lparr>Directors := x\<rparr>),
      fld ''Writer'' (dec_slice zero_Tag dec_Tag) Writers (\<lambda>x a. a\<lparr>Writers := x\<rparr>),
      fld ''Producer'' (dec_slice zero_Tag dec_Tag) Producers (\<lambda>x a. a\<lparr>Producers := x\<rparr>),
      fld ''Country'' (dec_slice zero_Tag dec_Tag) Countries (\<lambda>x a. a\<lparr>Countries := x\<rparr>),
      fld ''Similar'' (dec_slice zero_Tag dec_Tag) Similar (\<lambda>x a. a\<lparr>Similar := x\<rparr>),
      fld ''Role'' (dec_slice zero_Tag dec_Tag) Roles (\<lambda>x a. a\<lparr>Roles := x\<rparr>)]"

definition dec_alias :: "json \<Rightarrow> AllMetadata option" where
  "dec_alias v = (case v of
     JObj kvs \<Rightarrow> assign metadata_fields kvs zero_AllMetadata
   | JNull \<Rightarrow> Some zero_AllMetadata
   | _ \<Rightarrow> None)"

section \<open>Values of any type\<close>

text \<open>
  Decoding into an \<open>any\<close>: every number becomes a \<open>float64\<close>, which fails out of range, and an object becomes a map, in which
  the last of several members with the same key wins.
\<close>

definition map_from :: "(string \<times> json) list \<Rightarrow> (string \<times> json) list" where
  "map_from kvs = fold (\<lambda>(k, v). AList.update k v) kvs []"

fun to_any :: "json \<Rightarrow> json option" where
  "to_any (JInt n) = map_option JFrac (to_f64 (of_int n))"
| "to_any (JFrac r) = map_option JFrac (to_f64 r)"
| "to_any (JArr vs) = map_option JArr (those (map to_any vs))"
| "to_any (JObj kvs) = map_option (\<lambda>m. JObj (map_from m)) (those (map (\<lambda>(k, v). map_option (Pair k) (to_any v)) kvs))"
| "to_any v = Some v"

text \<open>Encoding it again: a number that is written without exponent and has no fraction is an integer to the next reader.\<close>

definition marshal_number :: "rat \<Rightarrow> json" where
  "marshal_number v = (let d = shortest v in if of_int \<lfloor>d\<rfloor> = d \<and> \<bar>d\<bar> < 10 ^ 21 then JInt \<lfloor>d\<rfloor> else JFrac d)"

fun marshal_any :: "json \<Rightarrow> json" where
  "marshal_any (JFrac v) = marshal_number v"
| "marshal_any (JArr vs) = JArr (map marshal_any vs)"
| "marshal_any (JObj kvs) = JObj (sort_key fst (map (\<lambda>(k, v). (k, marshal_any v)) kvs))"
| "marshal_any v = v"

section \<open>Metadata.UnmarshalJSON\<close>

function coerce :: "json \<Rightarrow> flt" where
  "coerce (JFrac v) = Finite v"
| "coerce (JStr s) = (case ParseFloat s of Some f \<Rightarrow> f | None \<Rightarrow> Finite 0)"
| "coerce (JObj kvs) = (case map_of kvs ''value'' of Some v \<Rightarrow> coerce v | None \<Rightarrow> Finite 0)"
| "coerce (JArr vs) = (case vs of v # _ \<Rightarrow> coerce v | [] \<Rightarrow> Finite 0)"
| "coerce JNull = Finite 0"
| "coerce (JBool b) = Finite 0"
| "coerce (JInt n) = Finite 0"
  by pat_completeness auto
termination
proof (relation "measure size")
  fix kvs :: "(string \<times> json) list" and v
  assume "map_of kvs ''value'' = Some v"
  then have "(''value'', v) \<in> set kvs" by (rule map_of_SomeD)
  then have "size v < size (JObj kvs)" by (induction kvs) auto
  then show "(v, JObj kvs) \<in> measure size" by simp
qed auto

text \<open>
  The rating is coerced under its own name and then, if the map has it, under the capitalised name; both results go to the former,
  and the capitalised member stays.  A value that is not finite cannot be written.
\<close>

definition repair_rating :: "(string \<times> json) list \<Rightarrow> (string \<times> json) list option" where
  "repair_rating gen = (case (map_of gen ''AudienceRating'', map_of gen ''audienceRating'') of
     (None, None) \<Rightarrow> Some gen
   | (Some v, _) \<Rightarrow> (case coerce v of Finite x \<Rightarrow> Some (AList.update ''audienceRating'' (JFrac x) gen) | NotFinite \<Rightarrow> None)
   | (None, Some v) \<Rightarrow> (case coerce v of Finite x \<Rightarrow> Some (AList.update ''audienceRating'' (JFrac x) gen) | NotFinite \<Rightarrow> None))"

definition Metadata_UnmarshalJSON :: "json \<Rightarrow> AllMetadata option" where
  "Metadata_UnmarshalJSON b = (case to_any b of
     Some (JObj gen) \<Rightarrow> (case repair_rating (AList.delete ''Rating'' gen) of
         None \<Rightarrow> None
       | Some gen' \<Rightarrow> dec_alias (marshal_any (JObj gen')))
   | Some JNull \<Rightarrow> dec_alias JNull
   | _ \<Rightarrow> None)"

section \<open>The webhook\<close>

definition dec_Account :: "json \<Rightarrow> Account \<Rightarrow> Account option" where
  "dec_Account = dec_struct
     [fld ''id'' set_int acc_ID (\<lambda>x a. a\<lparr>acc_ID := x\<rparr>), fld ''thumb'' set_string acc_Thumb (\<lambda>x a. a\<lparr>acc_Thumb := x\<rparr>),
      fld ''title'' set_string acc_Title (\<lambda>x a. a\<lparr>acc_Title := x\<rparr>)]"

definition dec_Server :: "json \<Rightarrow> Server \<Rightarrow> Server option" where
  "dec_Server = dec_struct
     [fld ''title'' set_string srv_Title (\<lambda>x a. a\<lparr>srv_Title := x\<rparr>), fld ''uuid'' set_string srv_UUID (\<lambda>x a. a\<lparr>srv_UUID := x\<rparr>)]"

definition dec_Player :: "json \<Rightarrow> Player \<Rightarrow> Player option" where
  "dec_Player = dec_struct
     [fld ''local'' set_bool Local (\<lambda>x a. a\<lparr>Local := x\<rparr>), fld ''publicAddress'' set_string PublicAddress (\<lambda>x a. a\<lparr>PublicAddress := x\<rparr>),
      fld ''title'' set_string pl_Title (\<lambda>x a. a\<lparr>pl_Title := x\<rparr>), fld ''uuid'' set_string pl_UUID (\<lambda>x a. a\<lparr>pl_UUID := x\<rparr>)]"

definition dec_Webhook :: "json \<Rightarrow> Webhook \<Rightarrow> Webhook option" where
  "dec_Webhook = dec_struct
     [fld ''event'' set_string Event (\<lambda>x a. a\<lparr>Event := x\<rparr>), fld ''user'' set_bool wh_User (\<lambda>x a. a\<lparr>wh_User := x\<rparr>),
      fld ''owner'' set_bool Owner (\<lambda>x a. a\<lparr>Owner := x\<rparr>), fld ''Account'' dec_Account wh_Account (\<lambda>x a. a\<lparr>wh_Account := x\<rparr>),
      fld ''Metadata'' (\<lambda>v _. map_option Metadata.truncate (Metadata_UnmarshalJSON v)) wh_Metadata (\<lambda>x a. a\<lparr>wh_Metadata := x\<rparr>),
      fld ''Server'' dec_Server wh_Server (\<lambda>x a. a\<lparr>wh_Server := x\<rparr>), fld ''Player'' dec_Player wh_Player (\<lambda>x a. a\<lparr>wh_Player := x\<rparr>)]"

definition zero_Webhook :: Webhook where
  "zero_Webhook = \<lparr>Event = [], wh_User = False, Owner = False, wh_Account = \<lparr>acc_ID = 0, acc_Thumb = [], acc_Title = []\<rparr>,
     wh_Metadata = Metadata.truncate zero_AllMetadata, wh_Server = \<lparr>srv_Title = [], srv_UUID = []\<rparr>,
     wh_Player = \<lparr>Local = False, PublicAddress = [], pl_Title = [], pl_UUID = []\<rparr>\<rparr>"

definition Unmarshal_Webhook :: "string \<Rightarrow> Webhook result" where
  "Unmarshal_Webhook data = (case Option.bind (json_parse data) (\<lambda>v. dec_Webhook v zero_Webhook) of
     Some hook \<Rightarrow> Inr hook
   | None \<Rightarrow> Inl (Err ''json''))"

definition ParseWebhook :: "string \<Rightarrow> Webhook result" where
  "ParseWebhook payload = Parser_Parse Unmarshal_Webhook payload"

section \<open>FlexFloat\<close>

text \<open>
  A type no struct uses: a number from a number, a text, or the first element of an array that has only numbers or only
  texts; it never fails, and what it cannot read leaves the old value.
\<close>

fun set_f64 :: "json \<Rightarrow> rat option" where
  "set_f64 (JInt n) = to_f64 (of_int n)"
| "set_f64 (JFrac r) = to_f64 r"
| "set_f64 JNull = Some 0"
| "set_f64 _ = None"

definition flex_text :: "string \<Rightarrow> flt \<Rightarrow> flt" where
  "flex_text s f = (case ParseFloat s of Some v \<Rightarrow> v | None \<Rightarrow> f)"

definition FlexFloat_UnmarshalJSON :: "json \<Rightarrow> flt \<Rightarrow> flt" where
  "FlexFloat_UnmarshalJSON b f = (case b of
     JNull \<Rightarrow> Finite 0
   | JArr vs \<Rightarrow> (case those (map set_f64 vs) of
       Some xs \<Rightarrow> (case xs of x # _ \<Rightarrow> Finite x | [] \<Rightarrow> f)
     | None \<Rightarrow> (case those (map (\<lambda>v. set_string v []) vs) of
         Some (s # _) \<Rightarrow> flex_text s f
       | _ \<Rightarrow> f))
   | JStr s \<Rightarrow> flex_text s f
   | v \<Rightarrow> (case set_f64 v of Some x \<Rightarrow> Finite x | None \<Rightarrow> f))"

section \<open>What the server reads\<close>

definition read_names :: "string list" where
  "read_names = [''Guid'', ''duration'', ''grandparentTitle'', ''guid'', ''index'', ''librarySectionType'', ''parentIndex'', ''ratingKey'',
     ''title'', ''type'', ''viewOffset'', ''year'']"

abbreviation is_read :: "string \<times> json \<Rightarrow> bool" where
  "is_read kv \<equiv> fst kv \<in> set read_names"

text \<open>The members of a metadata object that say what the server reads.\<close>

definition plex_members :: "Metadata \<Rightarrow> (string \<times> json) list" where
  "plex_members m = [(''Guid'', JArr (map (\<lambda>g. JObj [(''id'', JStr g)]) (ExternalGUIDs m))), (''duration'', JInt (Duration m)),
     (''grandparentTitle'', JStr (GrandparentTitle m)), (''guid'', JStr (GUID m)), (''index'', JInt (Index m)),
     (''librarySectionType'', JStr (LibrarySectionType m)), (''parentIndex'', JInt (ParentIndex m)), (''ratingKey'', JStr (md_RatingKey m)),
     (''title'', JStr (md_Title m)), (''type'', JStr (md_Type m)), (''viewOffset'', JInt (ViewOffset m)), (''year'', JInt (Year m))]"

definition metadata_exact :: "Metadata \<Rightarrow> bool" where
  "metadata_exact m \<longleftrightarrow> list_all (\<lambda>n. \<bar>n\<bar> < 2 ^ 53) [Duration m, Index m, ParentIndex m, ViewOffset m, Year m]"

subsection \<open>Fields\<close>

lemma pick_read:
  "pick metadata_fields ''Guid'' = Some (fld ''Guid'' (dec_slice [] (dec_struct [(''id'', set_string)])) ExternalGUIDs (\<lambda>x a. a\<lparr>ExternalGUIDs := x\<rparr>))"
  "pick metadata_fields ''duration'' = Some (fld ''duration'' set_int Duration (\<lambda>x a. a\<lparr>Duration := x\<rparr>))"
  "pick metadata_fields ''grandparentTitle'' = Some (fld ''grandparentTitle'' set_string GrandparentTitle (\<lambda>x a. a\<lparr>GrandparentTitle := x\<rparr>))"
  "pick metadata_fields ''guid'' = Some (fld ''guid'' set_string GUID (\<lambda>x a. a\<lparr>GUID := x\<rparr>))"
  "pick metadata_fields ''index'' = Some (fld ''index'' set_int Index (\<lambda>x a. a\<lparr>Index := x\<rparr>))"
  "pick metadata_fields ''librarySectionType'' = Some (fld ''librarySectionType'' set_string LibrarySectionType (\<lambda>x a. a\<lparr>LibrarySectionType := x\<rparr>))"
  "pick metadata_fields ''parentIndex'' = Some (fld ''parentIndex'' set_int ParentIndex (\<lambda>x a. a\<lparr>ParentIndex := x\<rparr>))"
  "pick metadata_fields ''ratingKey'' = Some (fld ''ratingKey'' set_string md_RatingKey (\<lambda>x a. a\<lparr>md_RatingKey := x\<rparr>))"
  "pick metadata_fields ''title'' = Some (fld ''title'' set_string md_Title (\<lambda>x a. a\<lparr>md_Title := x\<rparr>))"
  "pick metadata_fields ''type'' = Some (fld ''type'' set_string md_Type (\<lambda>x a. a\<lparr>md_Type := x\<rparr>))"
  "pick metadata_fields ''viewOffset'' = Some (fld ''viewOffset'' set_int ViewOffset (\<lambda>x a. a\<lparr>ViewOffset := x\<rparr>))"
  "pick metadata_fields ''year'' = Some (fld ''year'' set_int Year (\<lambda>x a. a\<lparr>Year := x\<rparr>))"
  by (simp_all add: pick_def metadata_fields_def fld_def)

lemma pick_rating:
  "pick metadata_fields ''audienceRating'' = Some (fld ''audienceRating'' set_f32 AudienceRating (\<lambda>x a. a\<lparr>AudienceRating := x\<rparr>))"
  by (simp add: pick_def metadata_fields_def fld_def)

lemma pick_member: "pick fs k = Some f \<Longrightarrow> f \<in> set fs"
  by (auto simp: pick_def dest: find_SomeD split: option.splits)

text \<open>A field the server does not read leaves the ones it reads alone.\<close>

lemma other_field:
  assumes "(n, f) \<in> set metadata_fields" "n \<notin> set read_names" "f v a = Some a'"
  shows "Metadata.truncate a' = Metadata.truncate a"
proof -
  have "list_all (\<lambda>(n, f). n \<in> set read_names \<or> (\<forall>v a a'. f v a = Some a' \<longrightarrow> Metadata.truncate a' = Metadata.truncate a)) metadata_fields"
    by (simp add: metadata_fields_def read_names_def fld_def Metadata.defs) auto
  with assms show ?thesis by (fastforce simp: list_all_iff)
qed

text \<open>Metadata in which the server sees no difference.\<close>

abbreviation same_read :: "AllMetadata \<Rightarrow> AllMetadata \<Rightarrow> bool" where
  "same_read a b \<equiv> Metadata.truncate a = Metadata.truncate b"

lemma same_read_iff:
  "same_read a b \<longleftrightarrow> LibrarySectionType a = LibrarySectionType b \<and> md_RatingKey a = md_RatingKey b \<and> ExternalGUIDs a = ExternalGUIDs b \<and>
     GUID a = GUID b \<and> md_Type a = md_Type b \<and> md_Title a = md_Title b \<and> GrandparentTitle a = GrandparentTitle b \<and> Index a = Index b \<and>
     ParentIndex a = ParentIndex b \<and> ViewOffset a = ViewOffset b \<and> Year a = Year b \<and> Duration a = Duration b"
  by (auto simp: Metadata.defs)

lemma read_field:
  assumes "same_read a b" "k \<in> set read_names"
  shows "\<exists>f. pick metadata_fields k = Some (k, f) \<and> rel_option same_read (f v a) (f v b)"
  using assms unfolding read_names_def same_read_iff
  by (simp, elim disjE) (simp_all add: pick_read fld_def option.rel_map option.rel_refl_strong)

definition harmless :: "string \<times> json \<Rightarrow> bool" where
  "harmless kv \<longleftrightarrow> (case pick metadata_fields (fst kv) of
     None \<Rightarrow> True
   | Some (_, f) \<Rightarrow> (\<forall>a. \<exists>a'. f (snd kv) a = Some a' \<and> same_read a' a))"

lemma assign_read:
  "\<forall>kv \<in> set kvs. is_read kv \<or> harmless kv \<Longrightarrow> same_read a b \<Longrightarrow>
   rel_option same_read (assign metadata_fields kvs a) (assign metadata_fields (filter is_read kvs) b)"
proof (induction kvs arbitrary: a b)
  case (Cons kv kvs)
  obtain k v where kv: "kv = (k, v)" by fastforce
  show ?case
  proof (cases "is_read kv")
    case True
    with kv read_field [OF Cons.prems(2), of k v] obtain f
      where f: "pick metadata_fields k = Some (k, f)" "rel_option same_read (f v a) (f v b)" by auto
    from f(2) show ?thesis using True f(1) kv Cons by (cases rule: option.rel_cases) (auto simp: kv)
  next
    case False
    with Cons.prems(1) have h: "harmless kv" by auto
    show ?thesis
    proof (cases "pick metadata_fields k")
      case None
      then show ?thesis using False kv Cons by simp
    next
      case (Some nf)
      obtain n f where nf: "nf = (n, f)" by fastforce
      with h kv Some have "\<forall>x. \<exists>x'. f v x = Some x' \<and> same_read x' x" by (simp add: harmless_def)
      then obtain a' where f: "f v a = Some a'" "same_read a' a" by blast
      then have "same_read a' b" using Cons.prems(2) by simp
      then show ?thesis using Some nf f(1) False kv Cons by simp
    qed
  qed
qed simp

subsection \<open>Documents\<close>

lemma those_map: "those (map f xs) = Some ys \<longleftrightarrow> list_all2 (\<lambda>x y. f x = Some y) xs ys"
  by (induction xs arbitrary: ys) (auto simp: list_all2_Cons1 split: option.splits)

lemma update_new: "k \<notin> fst ` set al \<Longrightarrow> AList.update k v al = al @ [(k, v)]"
  by (induction al) auto

lemma map_from_distinct: "distinct (map fst kvs) \<Longrightarrow> map_from kvs = kvs"
proof -
  have "distinct (map fst (al @ kvs)) \<Longrightarrow> fold (\<lambda>(k, v). AList.update k v) kvs al = al @ kvs" for al
    by (induction kvs arbitrary: al) (auto simp: update_new)
  from this [of "[]"] show "distinct (map fst kvs) \<Longrightarrow> map_from kvs = kvs" by (simp add: map_from_def)
qed

text \<open>An object whose members can be read is the map of what they say.\<close>

lemma to_any_object:
  assumes "distinct (map fst kvs)" "\<forall>(k, v) \<in> set kvs. to_any v = Some (g v)"
  shows "to_any (JObj kvs) = Some (JObj (map (apsnd g) kvs))"
proof -
  have "those (map (\<lambda>(k, v). map_option (Pair k) (to_any v)) kvs) = Some (map (apsnd g) kvs)"
    using assms(2) by (auto simp: those_map list_all2_map2 intro!: list.rel_refl_strong)
  moreover have "map fst (map (apsnd g) kvs) = map fst kvs" by simp
  ultimately show ?thesis using assms(1) by (simp add: map_from_distinct)
qed

lemma set_update: "set (AList.update k v al) \<subseteq> insert (k, v) (set al)"
  by (induction al) auto

lemma filter_update: "k \<notin> K \<Longrightarrow> filter (\<lambda>kv. fst kv \<in> K) (AList.update k v al) = filter (\<lambda>kv. fst kv \<in> K) al"
  by (induction al) auto

lemma marshal_int: "\<bar>n\<bar> < 2 ^ 53 \<Longrightarrow> marshal_number (of_int n) = JInt n"
  by (simp add: marshal_number_def shortest_int Let_def)

text \<open>Values that come back as they were written.\<close>

definition exact :: "json \<Rightarrow> bool" where
  "exact v \<longleftrightarrow> map_option marshal_any (to_any v) = Some v"

lemma exact_simps [simp]:
  "exact (JStr s)" "\<bar>n\<bar> < 2 ^ 53 \<Longrightarrow> exact (JInt n)" "exact (JArr (map (\<lambda>g. JObj [(''id'', JStr g)]) gs))"
proof -
  have "those (map (\<lambda>g. Some (JObj [(''id'', JStr g)])) gs) = Some (map (\<lambda>g. JObj [(''id'', JStr g)]) gs)"
    by (induction gs) auto
  then show "exact (JArr (map (\<lambda>g. JObj [(''id'', JStr g)]) gs))" by (simp add: exact_def comp_def map_from_def)
qed (simp_all add: exact_def to_f64_int marshal_int)

lemma members_exact: "metadata_exact m \<Longrightarrow> kv \<in> set (plex_members m) \<Longrightarrow> exact (snd kv)"
  by (auto simp: metadata_exact_def plex_members_def)

lemma members_names: "map fst (plex_members m) = read_names" "sorted read_names" "distinct read_names"
proof -
  show "map fst (plex_members m) = read_names" by (simp add: plex_members_def read_names_def)
  show "sorted read_names" "distinct read_names" by code_simp+
qed

lemma dec_guids: "dec_slice [] (dec_struct [(''id'', set_string)]) (JArr (map (\<lambda>g. JObj [(''id'', JStr g)]) gs)) [] = Some gs"
  by (induction gs) (simp_all add: EqualFold_def)

lemma assign_members:
  assumes "metadata_exact m"
  shows "rel_option (\<lambda>a b. Metadata.truncate a = b) (assign metadata_fields (plex_members m) zero_AllMetadata) (Some m)"
proof -
  have "in_int64 n" if "\<bar>n\<bar> < 2 ^ 53" for n :: int using that by (auto simp: in_int64_def)
  with assms show ?thesis
    by (simp add: plex_members_def pick_read fld_def dec_guids zero_AllMetadata_def metadata_exact_def Metadata.defs del: dec_slice.simps)
qed

text \<open>
  What else may be in the object: anything as a \<open>Rating\<close>, an audience rating that can be coerced, members of no field, and
  members of other fields that these accept, as long as every number is in the range of \<open>float64\<close>.
\<close>

definition tolerated :: "string \<times> json \<Rightarrow> bool" where
  "tolerated kv \<longleftrightarrow> (case to_any (snd kv) of
     None \<Rightarrow> False
   | Some v \<Rightarrow>
      (if fst kv = ''Rating'' then True
       else if fst kv = ''audienceRating'' then (\<exists>x. coerce v = Finite x \<and> to_f32 (shortest x) \<noteq> None)
       else case pick metadata_fields (fst kv) of
         None \<Rightarrow> True
       | Some (n, f) \<Rightarrow> n \<notin> set read_names \<and> n \<noteq> ''audienceRating'' \<and> (\<forall>a. f (marshal_any v) a \<noteq> None)))"

lemma pick_capitalised: "pick metadata_fields ''AudienceRating'' = pick metadata_fields ''audienceRating''"
proof -
  have "list_all (\<lambda>n. \<not> EqualFold n ''AudienceRating'')
    [''librarySectionType'', ''ratingKey'', ''key'', ''parentRatingKey'', ''grandparentRatingKey'', ''Guid'', ''guid'', ''librarySectionTitle'', ''librarySectionID'', ''librarySectionKey'', ''studio'', ''type'', ''title'', ''titleSort'', ''grandparentKey'', ''parentKey'', ''grandparentTitle'', ''parentTitle'', ''contentRating'', ''summary'', ''tagline'', ''index'', ''parentIndex'', ''ratingCount'']" "EqualFold ''audienceRating'' ''AudienceRating''"
    by code_simp+
  then show ?thesis by (simp add: pick_def metadata_fields_def fld_def)
qed

lemma not_capitalised: "tolerated kv \<Longrightarrow> fst kv \<noteq> ''AudienceRating''"
  by (auto simp: tolerated_def pick_capitalised pick_rating fld_def split: option.splits)

lemma rating_harmless: "to_f32 (shortest x) \<noteq> None \<Longrightarrow> harmless (''audienceRating'', marshal_any (JFrac x))"
  by (auto simp: harmless_def pick_rating fld_def marshal_number_def Let_def Metadata.defs)

lemma tolerated_harmless:
  assumes "tolerated (k, v)" "to_any v = Some w" "k \<noteq> ''Rating''" "k \<noteq> ''audienceRating''"
  shows "harmless (k, marshal_any w)"
proof (cases "pick metadata_fields k")
  case (Some nf)
  obtain n f where nf: "nf = (n, f)" by fastforce
  with assms Some have "n \<notin> set read_names" "\<forall>a. f (marshal_any w) a \<noteq> None" by (simp_all add: tolerated_def)
  then show ?thesis using Some nf other_field [OF pick_member [OF Some [unfolded nf]]] by (fastforce simp: harmless_def)
qed (simp add: harmless_def)

lemma repaired:
  assumes kvs: "\<forall>kv \<in> set kvs. is_read kv \<or> tolerated kv" and g: "\<forall>(k, v) \<in> set kvs. to_any v = Some (g v)"
    and dk: "distinct (map fst kvs)"
  shows "\<exists>gen. repair_rating (AList.delete ''Rating'' (map (apsnd g) kvs)) = Some gen \<and> filter is_read gen = map (apsnd g) (filter is_read kvs) \<and>
    (\<forall>kv \<in> set gen. is_read kv \<or> harmless (apsnd marshal_any kv))"
proof -
  let ?gen = "AList.delete ''Rating'' (map (apsnd g) kvs)"
  have cap: "map_of ?gen ''AudienceRating'' = None"
    using kvs not_capitalised by (fastforce simp: map_of_eq_None_iff AList.delete_eq read_names_def)
  have reads: "filter is_read ?gen = map (apsnd g) (filter is_read kvs)"
    by (induction kvs) (auto simp: AList.delete_eq read_names_def)
  have harm: "is_read kv \<or> harmless (apsnd marshal_any kv)" if "kv \<in> set ?gen" "fst kv \<noteq> ''audienceRating''" for kv
  proof -
    from that obtain k v where kv: "kv = (k, g v)" "(k, v) \<in> set kvs" "k \<noteq> ''Rating''" by (auto simp: AList.delete_eq)
    with that kvs g show ?thesis by (fastforce intro: tolerated_harmless)
  qed
  show ?thesis
  proof (cases "map_of ?gen ''audienceRating''")
    case None
    then have "\<forall>kv \<in> set ?gen. fst kv \<noteq> ''audienceRating''" unfolding map_of_eq_None_iff by (metis imageI)
    with harm reads cap None show ?thesis by (auto simp: repair_rating_def)
  next
    case (Some w)
    then have "(''audienceRating'', w) \<in> set ?gen" by (rule map_of_SomeD)
    then obtain v where v: "(''audienceRating'', v) \<in> set kvs" "w = g v" by (auto simp: AList.delete_eq)
    then have "tolerated (''audienceRating'', v)" using kvs by (auto simp: read_names_def)
    moreover have "to_any v = Some w" using v g by auto
    ultimately obtain x where x: "coerce w = Finite x" "to_f32 (shortest x) \<noteq> None" by (auto simp: tolerated_def)
    have "is_read kv \<or> harmless (apsnd marshal_any kv)" if "kv \<in> set (AList.update ''audienceRating'' (JFrac x) ?gen)" for kv
    proof (cases "fst kv = ''audienceRating''")
      case True
      have "distinct (map fst (AList.update ''audienceRating'' (JFrac x) ?gen))"
        using dk by (intro AList.distinct_update AList.distinct_delete) simp
      then have "snd kv = JFrac x" using that True by (metis AList.update_conv' fun_upd_same map_of_eq_Some_iff option.inject prod.collapse)
      with True rating_harmless [OF x(2)] show ?thesis by (cases kv) simp
    next
      case False
      then have "kv \<in> set ?gen" using that set_update by fastforce
      with False harm show ?thesis by blast
    qed
    moreover have "filter is_read (AList.update ''audienceRating'' (JFrac x) ?gen) = filter is_read ?gen"
      by (rule filter_update) (simp add: read_names_def)
    ultimately show ?thesis using cap Some x(1) reads by (auto simp: repair_rating_def)
  qed
qed

lemma metadata_read:
  assumes kvs: "distinct (map fst kvs)" "mset (filter is_read kvs) = mset (plex_members m)" "\<forall>kv \<in> set kvs. is_read kv \<or> tolerated kv"
    and m: "metadata_exact m"
  shows "map_option Metadata.truncate (Metadata_UnmarshalJSON (JObj kvs)) = Some m"
proof -
  define g where "g v = the (to_any v)" for v
  have members: "exact (snd kv)" if "kv \<in> set kvs" "is_read kv" for kv
    using members_exact [OF m] mset_eq_setD [OF kvs(2)] that by (metis (mono_tags, lifting) mem_Collect_eq set_filter)
  then have any: "\<forall>(k, v) \<in> set kvs. to_any v = Some (g v)"
    using kvs(3) by (fastforce simp: g_def exact_def tolerated_def split: option.splits)
  obtain gen where gen: "repair_rating (AList.delete ''Rating'' (map (apsnd g) kvs)) = Some gen"
    "filter is_read gen = map (apsnd g) (filter is_read kvs)" "\<forall>kv \<in> set gen. is_read kv \<or> harmless (apsnd marshal_any kv)"
    using repaired [OF kvs(3) any kvs(1)] by blast
  let ?L = "sort_key fst (map (apsnd marshal_any) gen)"
  have "filter is_read (map (apsnd marshal_any) gen) = map (apsnd marshal_any) (filter is_read gen)" by (simp add: filter_map comp_def)
  also have "\<dots> = map (\<lambda>kv. kv) (filter is_read kvs)"
    unfolding gen(2) map_map using members by (intro map_cong) (fastforce simp: g_def exact_def)+
  finally have "filter is_read ?L = sort_key fst (filter is_read kvs)" by (simp add: filter_sort)
  moreover have "sort_key fst (filter is_read kvs) = plex_members m"
    using kvs(1,2) members_names by (intro sort_key_inj_key_eq) (auto simp: distinct_map intro: inj_on_subset)
  ultimately have L: "filter is_read ?L = plex_members m" by simp
  have "\<forall>kv \<in> set ?L. is_read kv \<or> harmless kv" using gen(3) by auto
  from assign_read [OF this refl, of zero_AllMetadata] assign_members [OF m]
  have "map_option Metadata.truncate (assign metadata_fields ?L zero_AllMetadata) = Some m"
    unfolding L by (auto elim!: option.rel_cases)
  moreover have "marshal_any (JObj gen) = JObj ?L" by (simp add: apsnd_def map_prod_def)
  ultimately show ?thesis using to_any_object [OF kvs(1) any] gen(1)
    by (simp add: Metadata_UnmarshalJSON_def dec_alias_def del: to_any.simps marshal_any.simps)
qed

subsection \<open>Webhooks\<close>

definition plex_document :: "Webhook \<Rightarrow> (string \<times> json) list \<Rightarrow> json" where
  "plex_document h kvs = JObj [(''event'', JStr (Event h)), (''user'', JBool (wh_User h)), (''owner'', JBool (Owner h)),
     (''Account'', JObj [(''id'', JInt (acc_ID (wh_Account h))), (''thumb'', JStr (acc_Thumb (wh_Account h))),
        (''title'', JStr (acc_Title (wh_Account h)))]),
     (''Server'', JObj [(''title'', JStr (srv_Title (wh_Server h))), (''uuid'', JStr (srv_UUID (wh_Server h)))]),
     (''Player'', JObj [(''local'', JBool (Local (wh_Player h))), (''publicAddress'', JStr (PublicAddress (wh_Player h))),
        (''title'', JStr (pl_Title (wh_Player h))), (''uuid'', JStr (pl_UUID (wh_Player h)))]),
     (''Metadata'', JObj kvs)]"

lemma dec_parts:
  "in_int64 (acc_ID x) \<Longrightarrow> dec_Account (JObj [(''id'', JInt (acc_ID x)), (''thumb'', JStr (acc_Thumb x)), (''title'', JStr (acc_Title x))]) a = Some x"
  "dec_Server (JObj [(''title'', JStr (srv_Title y)), (''uuid'', JStr (srv_UUID y))]) b = Some y"
  "dec_Player (JObj [(''local'', JBool (Local z)), (''publicAddress'', JStr (PublicAddress z)), (''title'', JStr (pl_Title z)), (''uuid'', JStr (pl_UUID z))]) c = Some z"
  by (simp_all add: dec_Account_def dec_Server_def dec_Player_def fld_def EqualFold_def fold_simps)

lemma dec_document:
  assumes "map_option Metadata.truncate (Metadata_UnmarshalJSON (JObj kvs)) = r" "in_int64 (acc_ID (wh_Account h))"
  shows "dec_Webhook (plex_document h kvs) zero_Webhook = map_option (\<lambda>m. h\<lparr>wh_Metadata := m\<rparr>) r"
  using assms
  by (cases r) (auto simp: dec_Webhook_def plex_document_def zero_Webhook_def fld_def fold_simps dec_parts)

lemma strip_keeps: "\<forall>p \<in> set ps. c \<notin> set p \<Longrightarrow> c \<in> set s \<Longrightarrow> c \<in> set (strip ps s)"
proof (induction ps s rule: strip.induct)
  case (1 ps s)
  show ?case
  proof (cases "find (\<lambda>p. starts p s) ps")
    case None
    with 1 show ?thesis by (simp add: strip_None)
  next
    case (Some p)
    then have "p \<in> set ps" "take (length p) s = p" using find_SomeD [OF Some] by (simp_all add: starts_def)
    with "1.prems" have "c \<in> set (drop (length p) s)" by (metis Un_iff append_take_drop_id set_append)
    with 1 Some show ?thesis by (simp add: strip_Some)
  qed
qed

lemma object_text:
  assumes "json_parse s = Some (JObj kvs)"
  shows "TrimSpace s \<noteq> []"
proof -
  obtain c r where c: "skip_ws s = c # r" "c = CHR ''{''"
    using assms by (auto simp: json_parse_def parse_number_def parse_literal_def Let_def split: option.splits list.splits if_splits prod.splits bind_splits)
  then have "CHR ''{'' \<in> set s" by (metis list.set_intros(1) set_dropWhileD skip_ws_def)
  moreover have "\<forall>p \<in> set space_runes. CHR ''{'' \<notin> set p" by code_simp
  ultimately have "CHR ''{'' \<in> set (TrimSpace s)"
    by (simp add: TrimSpace_def TrimLeftSpace_def TrimRightSpace_def strip_keeps)
  then show ?thesis by auto
qed

text \<open>
  C7. The parser reads what Plex sends: if the text of a payload is the document of a webhook with numbers below 2 to the 53,
  and its metadata has, in any order, the members the server reads and beside them only tolerated ones (any \<open>Rating\<close>, an
  audience rating that is a number, a text, an array or an object with a value, members of other fields with values of their
  types, unknown members), then parsing returns exactly this webhook.
\<close>

theorem webhook_is_read_exactly:
  assumes "json_parse payload = Some (plex_document h kvs)" "in_int64 (acc_ID (wh_Account h))" "metadata_exact (wh_Metadata h)"
    and "distinct (map fst kvs)" "mset (filter is_read kvs) = mset (plex_members (wh_Metadata h))"
    and "\<forall>kv \<in> set kvs. is_read kv \<or> tolerated kv"
  shows "ParseWebhook payload = Inr h"
proof -
  have "map_option Metadata.truncate (Metadata_UnmarshalJSON (JObj kvs)) = Some (wh_Metadata h)"
    using assms(3-6) by (intro metadata_read)
  from dec_document [OF this assms(2)] have "dec_Webhook (plex_document h kvs) zero_Webhook = Some h" by simp
  moreover have "TrimSpace payload \<noteq> []" using assms(1) object_text by (simp add: plex_document_def)
  ultimately show ?thesis using assms(1) by (simp add: ParseWebhook_def Parser_Parse_def Unmarshal_Webhook_def)
qed

definition sample_hook :: Webhook where
  "sample_hook = \<lparr>Event = ''media.stop'', wh_User = True, Owner = True, wh_Account = \<lparr>acc_ID = 1, acc_Thumb = [], acc_Title = ''bob''\<rparr>,
     wh_Metadata = \<lparr>LibrarySectionType = ''show'', md_RatingKey = ''799'', ExternalGUIDs = [''tvdb://1''], GUID = ''plex://episode/1'',
       md_Type = ''episode'', md_Title = ''Pilot'', GrandparentTitle = ''Lost'', Index = 1, ParentIndex = 1, ViewOffset = 660000,
       Year = 2004, Duration = 1320000\<rparr>,
     wh_Server = \<lparr>srv_Title = ''ZEUS'', srv_UUID = ''s''\<rparr>, wh_Player = \<lparr>Local = True, PublicAddress = [], pl_Title = ''tv'', pl_UUID = ''p''\<rparr>\<rparr>"

definition sample_members :: "(string \<times> json) list" where
  "sample_members = [(''audienceRating'', JArr [JInt 8]), (''summary'', JStr ''A plane crashes.''),
     (''Rating'', JArr [JObj [(''value'', JInt 8), (''type'', JStr ''audience'')]])] @ rev (plex_members (wh_Metadata sample_hook))"

lemma eight: "to_f64 8 = Some 8" "shortest 8 = 8" "to_f32 8 = Some 8"
  using to_f64_int [of 8] shortest_int [of 8] to_f32_int [of 8] by simp_all

lemma sample_tolerated: "\<forall>kv \<in> set sample_members. is_read kv \<or> tolerated kv"
proof -
  have "pick metadata_fields ''summary'' = Some (fld ''summary'' set_string Summary (\<lambda>x a. a\<lparr>Summary := x\<rparr>))"
    by (simp add: pick_def metadata_fields_def fld_def)
  then have "tolerated (''summary'', JStr ''A plane crashes.'')" by (simp add: tolerated_def fld_def read_names_def)
  moreover have "tolerated (''audienceRating'', JArr [JInt 8])" "tolerated (''Rating'', JArr [JObj [(''value'', JInt 8), (''type'', JStr ''audience'')]])"
    by (simp_all add: tolerated_def eight)
  moreover have "is_read kv" if "kv \<in> set (plex_members m)" for kv m
    using that members_names(1) [of m] by (metis image_eqI set_map)
  ultimately show ?thesis by (auto simp: sample_members_def)
qed

theorem webhook_is_read_exactly_witness:
  "ParseWebhook (Marshal_text (plex_document sample_hook sample_members)) = Inr sample_hook"
proof (rule webhook_is_read_exactly [of _ sample_hook sample_members])
  have "clean (plex_document sample_hook sample_members) = plex_document sample_hook sample_members"
    "no_frac (plex_document sample_hook sample_members)" by code_simp+
  then show "json_parse (Marshal_text (plex_document sample_hook sample_members)) = Some (plex_document sample_hook sample_members)"
    using json_text_roundtrip(1) by metis
  show "distinct (map fst sample_members)" by code_simp
  show "in_int64 (acc_ID (wh_Account sample_hook))" "metadata_exact (wh_Metadata sample_hook)"
    by (simp_all add: sample_hook_def in_int64_def metadata_exact_def)
  have "filter is_read sample_members = rev (plex_members (wh_Metadata sample_hook))" by code_simp
  then show "mset (filter is_read sample_members) = mset (plex_members (wh_Metadata sample_hook))" by simp
qed (rule sample_tolerated)

subsection \<open>The capitalised rating\<close>

lemma assign_fails: "(k, v) \<in> set kvs \<Longrightarrow> pick fs k = Some (n, f) \<Longrightarrow> (\<forall>a. f v a = None) \<Longrightarrow> assign fs kvs a = None"
  by (induction kvs arbitrary: a) (auto split: option.splits)

lemma update_other: "(k, v) \<in> set al \<Longrightarrow> k \<noteq> k' \<Longrightarrow> (k, v) \<in> set (AList.update k' w al)"
  by (induction al) auto

lemma capitalised_stays:
  assumes "distinct (map fst kvs)" "(''AudienceRating'', v) \<in> set kvs" "\<exists>vs t kws. v = JArr vs \<or> v = JStr t \<or> v = JObj kws"
  shows "Metadata_UnmarshalJSON (JObj kvs) = None"
proof (cases "to_any (JObj kvs)")
  case (Some any)
  then obtain gen where gen: "list_all2 (\<lambda>x y. map_option (Pair (fst x)) (to_any (snd x)) = Some y) kvs gen" "any = JObj (map_from gen)"
    by (auto simp: those_map split_beta)
  from gen(1) have keys: "map fst gen = map fst kvs" by (induction rule: list_all2_induct) auto
  from gen(1) assms(2) obtain w where w: "(''AudienceRating'', w) \<in> set gen" "to_any v = Some w"
    by (induction rule: list_all2_induct) auto
  have no: "set_f32 (marshal_any w) a = None" for a using assms(3) w(2) by auto
  have "Metadata_UnmarshalJSON (JObj kvs) = None" if "repair_rating (AList.delete ''Rating'' gen) = Some gen'" for gen'
  proof -
    have "(''AudienceRating'', w) \<in> set (AList.delete ''Rating'' gen)" using w(1) by (simp add: AList.delete_eq)
    then have "(''AudienceRating'', w) \<in> set gen'"
      using that by (auto simp: repair_rating_def update_other split: option.splits flt.splits)
    then have "(''AudienceRating'', marshal_any w) \<in> set (sort_key fst (map (\<lambda>(k, v). (k, marshal_any v)) gen'))" by force
    from assign_fails [OF this, of metadata_fields] no show ?thesis
      using that Some gen(2) keys assms(1)
      by (simp add: pick_capitalised pick_rating fld_def Metadata_UnmarshalJSON_def dec_alias_def map_from_distinct del: to_any.simps)
  qed
  then show ?thesis using Some gen(2) keys assms(1)
    by (cases "repair_rating (AList.delete ''Rating'' gen)") (simp_all add: Metadata_UnmarshalJSON_def map_from_distinct del: to_any.simps)
qed (simp add: Metadata_UnmarshalJSON_def)

text \<open>
  C9. The capitalised audience rating is not repaired: \<open>UnmarshalJSON\<close> coerces it into the member of the proper name but leaves the
  original in the map, and the decoder, which matches names without regard to case, stumbles over it.  A webhook with an array,
  a text or an object there is refused, whatever else it says.
\<close>

theorem capitalised_rating_is_refused:
  assumes "json_parse payload = Some (plex_document h kvs)" "in_int64 (acc_ID (wh_Account h))" "distinct (map fst kvs)"
    and "(''AudienceRating'', v) \<in> set kvs" "\<exists>vs t kws. v = JArr vs \<or> v = JStr t \<or> v = JObj kws"
  shows "\<exists>e. ParseWebhook payload = Inl e"
proof -
  have "dec_Webhook (plex_document h kvs) zero_Webhook = None"
    using capitalised_stays [OF assms(3-5)] dec_document [OF _ assms(2), of kvs None] by simp
  moreover have "TrimSpace payload \<noteq> []" using assms(1) object_text by (simp add: plex_document_def)
  ultimately show ?thesis using assms(1) by (simp add: ParseWebhook_def Parser_Parse_def Unmarshal_Webhook_def)
qed

theorem capitalised_rating_is_refused_witness:
  "\<exists>e. ParseWebhook (Marshal_text (plex_document sample_hook ((''AudienceRating'', JArr [JInt 8]) # plex_members (wh_Metadata sample_hook)))) = Inl e"
proof (rule capitalised_rating_is_refused)
  let ?kvs = "(''AudienceRating'', JArr [JInt 8]) # plex_members (wh_Metadata sample_hook)"
  have "clean (plex_document sample_hook ?kvs) = plex_document sample_hook ?kvs" "no_frac (plex_document sample_hook ?kvs)" by code_simp+
  then show "json_parse (Marshal_text (plex_document sample_hook ?kvs)) = Some (plex_document sample_hook ?kvs)"
    using json_text_roundtrip(1) by metis
  show "distinct (map fst ?kvs)" by code_simp
  show "in_int64 (acc_ID (wh_Account sample_hook))" by (simp add: sample_hook_def in_int64_def)
qed auto

subsection \<open>FlexFloat\<close>

text \<open>Where \<open>FlexFloat\<close> and the coercion of the audience rating read the same: numbers, texts and arrays of texts.\<close>

lemma flex_coerce:
  "to_any (JInt n) = Some v \<Longrightarrow> FlexFloat_UnmarshalJSON (JInt n) f = coerce v"
  "to_any (JFrac r) = Some v \<Longrightarrow> FlexFloat_UnmarshalJSON (JFrac r) f = coerce v"
  "FlexFloat_UnmarshalJSON (JStr s) (Finite 0) = coerce (JStr s)"
  "FlexFloat_UnmarshalJSON (JArr (map JStr ss)) (Finite 0) = coerce (JArr (map JStr ss))"
proof -
  have texts: "those (map Some ss) = Some ss" by (induction ss) auto
  have "those (map (\<lambda>_. None) ss) = (if ss = [] then Some [] else None)" by (induction ss) auto
  with texts show "FlexFloat_UnmarshalJSON (JArr (map JStr ss)) (Finite 0) = coerce (JArr (map JStr ss))"
    by (cases ss) (simp_all add: FlexFloat_UnmarshalJSON_def flex_text_def comp_def)
qed (auto simp: FlexFloat_UnmarshalJSON_def flex_text_def split: option.splits)

end
