(* ===== verification/Json_Utf8.thy ===== *)
theory Json_Utf8
  imports Json_Text
begin

text \<open>
  Every string in a document that was read from text is valid UTF-8, whatever bytes the text has:
  what is no rune is replaced on the way.
\<close>

declare ToValidUTF8.simps(2) [simp del] unquote.simps(2) [simp del]

lemma valid_rune: "rune_width s = Suc k \<Longrightarrow> valid_utf8 y \<Longrightarrow> valid_utf8 (take (Suc k) s @ y)"
proof -
  assume w: "rune_width s = Suc k" and y: "valid_utf8 y"
  then obtain c r where s: "s = c # r" by (cases s) auto
  have len: "length (take k r) = k" using rune_width_le [of s] w s by simp
  have "rune_width (c # take k r @ y) = Suc k" using rune_width_take [OF w, of y] s by simp
  with len y s show ?thesis by (simp add: valid_utf8_def ToValidUTF8.simps(2))
qed

lemma valid_prepend: "rune_width x = length x \<Longrightarrow> valid_utf8 y \<Longrightarrow> valid_utf8 (x @ y)"
  using valid_rune [of x "length x - 1" y] by (cases x) simp_all

lemma EncodeRune_width:
  assumes "n < 0xD800 \<or> 0xE000 \<le> n" "n < 0x110000"
  shows "rune_width (EncodeRune n) = length (EncodeRune n)"
proof -
  consider (1) "n < 0x80" | (2) "0x80 \<le> n" "n < 0x800" | (3) "0x800 \<le> n" "n < 0x10000" | (4) "0x10000 \<le> n" by linarith
  then show ?thesis
  proof cases
    case 1
    then show ?thesis by (simp add: EncodeRune_def rune_width_ascii)
  next
    case 2
    then have "2 \<le> n div 64" "n div 64 < 32" by simp_all
    then have "lead (0xC0 + n div 64) = Some (1, 0x80, 0xBF)" by (simp add: lead_def)
    with 2 show ?thesis by (simp add: EncodeRune_def rune_width.simps(2) conts_def between_def)
  next
    case 3
    have d: "n div 4096 < 16" "n div 64 mod 64 < 64" using 3 by simp_all
    have lo: "n div 4096 = 0 \<Longrightarrow> 32 \<le> n div 64 mod 64" using 3 by (simp add: div_less_iff_less_mult)
    have hi: "n div 4096 = 13 \<Longrightarrow> n div 64 mod 64 < 32"
    proof -
      assume e: "n div 4096 = 13"
      then have "n < 0xD800" using assms(1) by linarith
      moreover have "n div 64 = 64 * (n div 4096) + n div 64 mod 64" using mult_div_mod_eq [of 64 "n div 64"] div_mult2_eq [of n 64 64] by simp
      ultimately show "n div 64 mod 64 < 32" using e by linarith
    qed
    have "n mod 64 \<le> 63" "n div 64 mod 64 \<le> 63" "n div 4096 = 13 \<Longrightarrow> n div 64 mod 64 \<le> 31" "n div 4096 = 0 \<Longrightarrow> n div 64 \<le> 63"
      using d hi mod_less_divisor [of 64 n] mult_div_mod_eq [of 64 "n div 64"] div_mult2_eq [of n 64 64] by auto
    with 3 d lo show ?thesis
      by (simp add: EncodeRune_def rune_width.simps(2) conts_def between_def lead_def)
  next
    case 4
    have d: "n div 262144 \<le> 4" "n div 4096 mod 64 < 64" using assms(2) by simp_all
    have "n div 4096 = 64 * (n div 262144) + n div 4096 mod 64" using mult_div_mod_eq [of 64 "n div 4096"] div_mult2_eq [of n 4096 64] by simp
    moreover have "16 \<le> n div 4096" "n div 4096 < 272" using 4 assms(2) by simp_all
    ultimately have lo: "n div 262144 = 0 \<Longrightarrow> 16 \<le> n div 4096 mod 64" and hi: "n div 262144 = 4 \<Longrightarrow> n div 4096 mod 64 < 16" by linarith+
    have "n mod 64 \<le> 63" "n div 64 mod 64 \<le> 63" "n div 4096 mod 64 \<le> 63" "n div 262144 = 4 \<Longrightarrow> n div 4096 mod 64 \<le> 15"
      "n div 262144 = 0 \<Longrightarrow> n div 4096 \<le> 63"
      using d hi mod_less_divisor [of 64 n] mod_less_divisor [of 64 "n div 64"] mult_div_mod_eq [of 64 "n div 4096"] div_mult2_eq [of n 4096 64] by auto
    with 4 d lo show ?thesis
      by (simp add: EncodeRune_def rune_width.simps(2) conts_def between_def lead_def)
  qed
qed

lemma hexval_less: "hexval c = Some d \<Longrightarrow> d < 16"
  by (auto simp: hexval_def between_def split: if_splits)

lemma getu4_less: "getu4 s = Some n \<Longrightarrow> n < 0x10000"
  by (cases s rule: getu4.cases) (auto split: option.splits dest!: hexval_less)

lemma decode_u_width:
  assumes "getu4 r = Some rr"
  shows "rune_width (fst (decode_u rr r4)) = length (fst (decode_u rr r4))"
proof -
  have "rune_width replacement = length replacement" by code_simp
  moreover have "0x10000 + (rr - 0xD800) * 1024 + (lo - 0xDC00) < 0x110000" if "rr < 0xDC00" "lo < 0xE000" for lo :: nat
    using that by simp
  ultimately show ?thesis using getu4_less [OF assms]
    by (auto simp: decode_u_def EncodeRune_width split: option.splits)
qed

lemma prepend_valid:
  assumes "prepend p (unquote u) = Some (x, r)" "rune_width p = length p" "\<forall>z q. unquote u = Some (z, q) \<longrightarrow> valid_utf8 z"
  shows "valid_utf8 x"
  using assms by (auto simp: prepend_def intro: valid_prepend)

lemma piece_width:
  "simple_escape e = Some y \<Longrightarrow> rune_width [y] = length [y]"
  "rune_width replacement = length replacement"
  "rune_width s \<noteq> 0 \<Longrightarrow> rune_width (take (rune_width s) s) = length (take (rune_width s) s)"
proof -
  show "simple_escape e = Some y \<Longrightarrow> rune_width [y] = length [y]"
    by (auto simp: simple_escape_def rune_width_ascii split: if_splits)
  show "rune_width replacement = length replacement" by code_simp
  show "rune_width (take (rune_width s) s) = length (take (rune_width s) s)" if "rune_width s \<noteq> 0"
    using that rune_width_take [of s "rune_width s - 1" "[]"] rune_width_le [of s] by simp
qed

lemma unquote_valid: "unquote s = Some (x, r) \<Longrightarrow> valid_utf8 x"
proof (induction s arbitrary: x r rule: measure_induct_rule [of length])
  case (less s)
  have IH: "\<forall>z q. unquote u = Some (z, q) \<longrightarrow> valid_utf8 z" if "length u < length s" for u using less that by blast
  have empty: "valid_utf8 []" by (simp add: valid_utf8_def)
  note piece = prepend_valid [OF _ _ IH]
  show ?case
  proof (cases s)
    case (Cons c t)
    have w: "rune_width (c # t) \<noteq> 0 \<Longrightarrow> rune_width (take (rune_width (c # t)) (c # t)) = length (take (rune_width (c # t)) (c # t))"
      by (rule piece_width)
    from less.prems [unfolded Cons unquote.simps(2)] empty show ?thesis
      by (auto simp: Cons Let_def simp del: take_Cons split: if_splits list.splits option.splits
          intro: piece piece_width decode_u_width w)
  qed (use less.prems in simp)
qed

text \<open>Documents.\<close>

fun utf8_json :: "json \<Rightarrow> bool" where
  "utf8_json (JStr s) = valid_utf8 s"
| "utf8_json (JArr vs) = list_all utf8_json vs"
| "utf8_json (JObj kvs) = list_all (\<lambda>(k, v). valid_utf8 k \<and> utf8_json v) kvs"
| "utf8_json _ = True"

lemma parse_utf8:
  "parse_value n s = Some (v, r) \<Longrightarrow> utf8_json v"
  "parse_elems n s = Some (vs, r) \<Longrightarrow> list_all utf8_json vs"
  "parse_members n s = Some (kvs, r) \<Longrightarrow> list_all (\<lambda>(k, v). valid_utf8 k \<and> utf8_json v) kvs"
proof (induction n s and n s and n s arbitrary: v r and vs r and kvs r rule: parse_value_parse_elems_parse_members.induct)
  case (2 n s)
  then show ?case
    by (auto simp: unquote_valid parse_literal_def parse_number_def Let_def split: list.splits if_splits option.splits bind_splits)
next
  case (4 n s)
  then show ?case by (fastforce split: option.splits list.splits if_splits)
next
  case (6 n s)
  then show ?case by (fastforce dest: unquote_valid split: option.splits list.splits if_splits)
qed simp_all

lemma json_parse_utf8: "json_parse s = Some v \<Longrightarrow> utf8_json v"
  by (auto simp: json_parse_def simp del: parse_value.simps intro: parse_utf8 split: option.splits if_splits)

end
