(* ===== verification/Webhook_Types.thy ===== *)
theory Webhook_Types
  imports Plex_Json Json_Utf8
begin

text \<open>
  The types of a decoded webhook: whatever bytes are posted, an accepted webhook has 64-bit integers and
  valid UTF-8 in all the fields the server reads.
\<close>

section \<open>Values of any type\<close>

lemma fold_update_set: "set (fold (\<lambda>(k, v). AList.update k v) kvs al) \<subseteq> set al \<union> set kvs"
proof (induction kvs arbitrary: al)
  case (Cons kv kvs)
  obtain k v where kv: "kv = (k, v)" by fastforce
  have "set (fold (\<lambda>(k, v). AList.update k v) kvs (AList.update k v al)) \<subseteq> set (AList.update k v al) \<union> set kvs" by (rule Cons)
  also have "\<dots> \<subseteq> insert kv (set al) \<union> set kvs" using set_update kv by fastforce
  finally show ?case by (auto simp: kv)
qed simp

lemma map_from_set: "set (map_from kvs) \<subseteq> set kvs"
  using fold_update_set [of kvs "[]"] by (simp add: map_from_def)

lemma utf8_subset: "utf8_json (JObj kvs) \<Longrightarrow> set kvs' \<subseteq> set kvs \<Longrightarrow> utf8_json (JObj kvs')"
  by (auto simp: list_all_iff)

lemma to_any_utf8: "to_any v = Some w \<Longrightarrow> utf8_json v \<Longrightarrow> utf8_json w"
proof (induction v arbitrary: w rule: to_any.induct)
  case (3 vs)
  then obtain ws where ws: "w = JArr ws" "list_all2 (\<lambda>x y. to_any x = Some y) vs ws" by (auto simp: those_map)
  from 3 have "\<forall>v \<in> set vs. \<forall>w. to_any v = Some w \<longrightarrow> utf8_json w" by (auto simp: list_all_iff)
  with ws show ?case by (simp add: list_all_length list_all2_conv_all_nth) (metis nth_mem)
next
  case (4 kvs)
  then obtain ws where ws: "w = JObj (map_from ws)" "list_all2 (\<lambda>x y. map_option (Pair (fst x)) (to_any (snd x)) = Some y) kvs ws"
    by (auto simp: those_map split_beta)
  have "\<forall>kv \<in> set kvs. valid_utf8 (fst kv) \<and> (\<forall>z. to_any (snd kv) = Some z \<longrightarrow> utf8_json z)"
    using 4 by (auto simp: list_all_iff)
  moreover have "length kvs = length ws" "\<forall>i < length ws. \<exists>z. to_any (snd (kvs ! i)) = Some z \<and> ws ! i = (fst (kvs ! i), z)"
    using ws(2) by (auto simp: list_all2_conv_all_nth)
  ultimately have "utf8_json (JObj ws)" by (simp add: list_all_length split_beta) (metis fst_conv nth_mem snd_conv)
  with ws(1) show ?case using utf8_subset map_from_set by blast
qed auto

lemma marshal_utf8: "utf8_json v \<Longrightarrow> utf8_json (marshal_any v)"
  by (induction v rule: marshal_any.induct) (auto simp: list_all_iff marshal_number_def Let_def)

lemma repair_utf8: "repair_rating gen = Some gen' \<Longrightarrow> utf8_json (JObj gen) \<Longrightarrow> utf8_json (JObj gen')"
proof -
  have "utf8_json (JObj gen) \<Longrightarrow> utf8_json (JObj (AList.update ''audienceRating'' (JFrac x) gen))" for x
    using set_update [of "''audienceRating''" "JFrac x" gen] ascii_utf8 [of "''audienceRating''"]
    by (fastforce simp: list_all_iff ascii_def)
  then show "repair_rating gen = Some gen' \<Longrightarrow> utf8_json (JObj gen) \<Longrightarrow> utf8_json (JObj gen')"
    by (auto simp: repair_rating_def split: option.splits flt.splits)
qed

section \<open>Decoders\<close>

definition keeps :: "('a \<Rightarrow> bool) \<Rightarrow> 'a field list \<Rightarrow> bool" where
  "keeps P fs \<longleftrightarrow> list_all (\<lambda>(n, f). \<forall>v a a'. utf8_json v \<longrightarrow> P a \<longrightarrow> f v a = Some a' \<longrightarrow> P a') fs"

lemma set_fields_keeps:
  "keeps P fs \<Longrightarrow> utf8_json (JObj kvs) \<Longrightarrow> P a \<Longrightarrow> set_fields fs kvs a = Some a' \<Longrightarrow> P a'"
proof (induction fs kvs a rule: set_fields.induct)
  case (2 fs k v kvs a)
  show ?case
  proof (cases "find (\<lambda>(n, _). EqualFold n k) fs")
    case (Some nf)
    then have "nf \<in> set fs" by (auto dest: find_SomeD)
    with 2 Some show ?thesis by (fastforce simp: keeps_def list_all_iff split: option.splits)
  qed (use 2 in simp)
qed simp

lemma dec_struct_keeps: "keeps P fs \<Longrightarrow> utf8_json v \<Longrightarrow> P a \<Longrightarrow> dec_struct fs v a = Some a' \<Longrightarrow> P a'"
  by (cases v) (auto intro: set_fields_keeps)

lemma assign_keeps: "keeps P fs \<Longrightarrow> utf8_json (JObj kvs) \<Longrightarrow> P a \<Longrightarrow> assign fs kvs a = Some a' \<Longrightarrow> P a'"
proof (induction fs kvs a rule: assign.induct)
  case (2 fs k v kvs a)
  show ?case
  proof (cases "pick fs k")
    case (Some nf)
    then have "nf \<in> set fs" by (rule pick_member)
    with 2 Some show ?thesis by (fastforce simp: keeps_def list_all_iff split: option.splits)
  qed (use 2 in simp)
qed simp

lemma leaf_types:
  "utf8_json v \<Longrightarrow> valid_utf8 old \<Longrightarrow> set_string v old = Some s \<Longrightarrow> valid_utf8 s"
  "in_int64 n \<Longrightarrow> set_int v n = Some k \<Longrightarrow> in_int64 k"
  by (cases v; auto split: if_splits)+

lemma guid_types:
  "utf8_json v \<Longrightarrow> list_all valid_utf8 old \<Longrightarrow> dec_slice [] (dec_struct [(''id'', set_string)]) v old = Some gs \<Longrightarrow> list_all valid_utf8 gs"
proof -
  have id: "keeps valid_utf8 [(''id'', set_string)]" by (auto simp: keeps_def intro: leaf_types)
  have nil: "valid_utf8 []" by (simp add: valid_utf8_def)
  have "list_all utf8_json vs \<Longrightarrow> list_all valid_utf8 old \<Longrightarrow> dec_elems [] (dec_struct [(''id'', set_string)]) vs old = Some gs \<Longrightarrow> list_all valid_utf8 gs" for vs gs
  proof (induction vs arbitrary: old gs)
    case (Cons v vs)
    have "list_all valid_utf8 (tl old)" using Cons.prems(2) by (cases old) auto
    moreover have "valid_utf8 (case old of [] \<Rightarrow> [] | x # _ \<Rightarrow> x)" using Cons.prems(2) nil by (cases old) auto
    ultimately show ?case using Cons dec_struct_keeps [OF id] by (fastforce split: option.splits)
  qed simp
  then show "utf8_json v \<Longrightarrow> list_all valid_utf8 old \<Longrightarrow> dec_slice [] (dec_struct [(''id'', set_string)]) v old = Some gs \<Longrightarrow> list_all valid_utf8 gs"
    by (cases v) auto
qed

section \<open>Webhooks\<close>

definition metadata_typed :: "'m Metadata_scheme \<Rightarrow> bool" where
  "metadata_typed m \<longleftrightarrow> list_all valid_utf8 ([LibrarySectionType m, md_RatingKey m, GUID m, md_Type m, md_Title m, GrandparentTitle m] @ ExternalGUIDs m) \<and>
     list_all in_int64 [Index m, ParentIndex m, ViewOffset m, Year m, Duration m]"

definition webhook_typed :: "Webhook \<Rightarrow> bool" where
  "webhook_typed h \<longleftrightarrow> in_int64 (acc_ID (wh_Account h)) \<and> metadata_typed (wh_Metadata h) \<and>
     list_all valid_utf8 [Event h, acc_Thumb (wh_Account h), acc_Title (wh_Account h), srv_Title (wh_Server h), srv_UUID (wh_Server h),
       PublicAddress (wh_Player h), pl_Title (wh_Player h), pl_UUID (wh_Player h)]"

lemma metadata_typed_truncate: "metadata_typed (Metadata.truncate a) = metadata_typed a"
  by (simp add: metadata_typed_def Metadata.defs)

lemma metadata_keeps: "keeps metadata_typed metadata_fields"
proof -
  have "list_all (\<lambda>(n, f). n \<in> set read_names \<longrightarrow>
      (\<forall>v a a'. utf8_json v \<longrightarrow> metadata_typed a \<longrightarrow> f v a = Some a' \<longrightarrow> metadata_typed a')) metadata_fields"
    by (simp add: metadata_fields_def read_names_def fld_def metadata_typed_def) (auto intro: leaf_types guid_types)
  moreover have "metadata_typed a'" if "(n, f) \<in> set metadata_fields" "n \<notin> set read_names" "f v a = Some a'" "metadata_typed a" for n f v a a'
    using other_field [OF that(1-3)] that(4) by (metis metadata_typed_truncate)
  ultimately show ?thesis unfolding keeps_def list_all_iff by blast
qed

lemma metadata_types:
  assumes "utf8_json v" "Metadata_UnmarshalJSON v = Some a"
  shows "metadata_typed (Metadata.truncate a)"
proof -
  have zero: "metadata_typed zero_AllMetadata"
    by (simp add: metadata_typed_def zero_AllMetadata_def in_int64_def valid_utf8_def)
  obtain w where w: "to_any v = Some w" "utf8_json w" using assms to_any_utf8
    by (cases "to_any v") (auto simp: Metadata_UnmarshalJSON_def)
  show ?thesis
  proof (cases w)
    case (JObj gen)
    obtain gen' where gen': "repair_rating (AList.delete ''Rating'' gen) = Some gen'" "dec_alias (marshal_any (JObj gen')) = Some a"
      using w(1) assms(2) JObj
      by (cases "repair_rating (AList.delete ''Rating'' gen)") (simp_all add: Metadata_UnmarshalJSON_def del: marshal_any.simps)
    have "utf8_json (JObj (AList.delete ''Rating'' gen))" 
      using w(2) unfolding JObj AList.delete_eq by (rule utf8_subset) (rule filter_is_subset)
    then have "utf8_json (marshal_any (JObj gen'))" using repair_utf8 [OF gen'(1)] marshal_utf8 by blast
    moreover obtain kvs where kvs: "marshal_any (JObj gen') = JObj kvs" by simp
    ultimately have "utf8_json (JObj kvs)" "assign metadata_fields kvs zero_AllMetadata = Some a"
      using gen'(2) by (simp_all only: kvs dec_alias_def json.case)
    then show ?thesis unfolding metadata_typed_truncate by (rule assign_keeps [OF metadata_keeps _ zero])
  qed (use w assms(2) zero metadata_typed_truncate in \<open>auto simp: Metadata_UnmarshalJSON_def dec_alias_def\<close>)
qed

lemma Account_types:
  assumes "dec_Account v x = Some y" "utf8_json v" "in_int64 (acc_ID x) \<and> valid_utf8 (acc_Thumb x) \<and> valid_utf8 (acc_Title x)"
  shows "in_int64 (acc_ID y) \<and> valid_utf8 (acc_Thumb y) \<and> valid_utf8 (acc_Title y)"
  using assms(2,3,1) unfolding dec_Account_def
  by (rule dec_struct_keeps [rotated]) (auto simp: keeps_def fld_def intro: leaf_types)

lemma Server_types:
  assumes "dec_Server v x = Some y" "utf8_json v" "valid_utf8 (srv_Title x) \<and> valid_utf8 (srv_UUID x)"
  shows "valid_utf8 (srv_Title y) \<and> valid_utf8 (srv_UUID y)"
  using assms(2,3,1) unfolding dec_Server_def
  by (rule dec_struct_keeps [rotated]) (auto simp: keeps_def fld_def intro: leaf_types)

lemma Player_types:
  assumes "dec_Player v x = Some y" "utf8_json v" "valid_utf8 (PublicAddress x) \<and> valid_utf8 (pl_Title x) \<and> valid_utf8 (pl_UUID x)"
  shows "valid_utf8 (PublicAddress y) \<and> valid_utf8 (pl_Title y) \<and> valid_utf8 (pl_UUID y)"
  using assms(2,3,1) unfolding dec_Player_def
  by (rule dec_struct_keeps [rotated]) (auto simp: keeps_def fld_def intro: leaf_types)

lemma Webhook_types:
  assumes "dec_Webhook v x = Some y" "utf8_json v" "webhook_typed x"
  shows "webhook_typed y"
  using assms(2,3,1) unfolding dec_Webhook_def
proof (rule dec_struct_keeps [rotated], goal_cases)
  case 1
  show ?case
    by (simp add: keeps_def fld_def webhook_typed_def)
      (auto intro: leaf_types metadata_types dest: Account_types Server_types Player_types)
qed

text \<open>
  Whatever bytes are parsed, the result is well typed: every integer of an accepted webhook fits 64 bits, although the
  metadata goes through \<open>float64\<close>, and every text the server reads is valid UTF-8, although the bytes need not be.
\<close>

lemma parsed_webhook_is_typed:
  assumes "ParseWebhook payload = Inr h"
  shows "webhook_typed h"
proof -
  obtain v where v: "json_parse payload = Some v" "dec_Webhook v zero_Webhook = Some h"
    using assms by (auto simp: ParseWebhook_def Parser_Parse_def Unmarshal_Webhook_def bind_eq_Some_conv split: sum.splits option.splits if_splits)
  have "webhook_typed zero_Webhook"
    by (simp add: webhook_typed_def zero_Webhook_def metadata_typed_def zero_AllMetadata_def Metadata.defs in_int64_def valid_utf8_def)
  with Webhook_types [OF v(2) json_parse_utf8 [OF v(1)]] show ?thesis .
qed

end
