(* ===== verification/Webhook_Post.thy ===== *)
theory Webhook_Post
  imports Api Drain Webhook_Types Stored_Json
begin

text \<open>
  The webhook endpoint with the decoder of the program, from the posted bytes to the request to
  Trakt, and what becomes of a payload that arrives as a part of a multipart request.
\<close>

text \<open>No JSON document starts with two dashes, as a multipart body does.\<close>

lemma dashes_no_json: "json_parse (''--'' @ s) = None"
  by (simp add: json_parse_def skip_ws_def is_ws_def parse_number_def parse_uint_def isDigit_def)

lemma TrimSpace_first:
  assumes "HasPrefix (TrimSpace (c # s)) p" "p \<noteq> []" "plain c"
  shows "hd p = c"
proof -
  have "TrimLeftSpace (c # s) = c # s"
    unfolding TrimLeftSpace_def by (rule strip_fixed) (rule no_lead_plain, simp add: assms(3))
  then obtain suf where "c # s = TrimSpace (c # s) @ suf" using TrimRightSpace_prefix [of "c # s"] by (auto simp: TrimSpace_def)
  with assms obtain u where "c # s = p @ u" by (auto simp: HasPrefix_iff)
  with assms(2) show ?thesis by (cases p) auto
qed

text \<open>
  C39. An indented document in a multipart request is refused: the multipart reader comes after the body has been
  read and finds nothing, and the fallback wants an opening and a closing brace on one line.  Whatever webhook the document is
  and whatever surrounds it, if no line has both braces in this order, the reply is 400 and nothing changes, though the same
  document posted alone is parsed.
\<close>

theorem indented_multipart_is_refused:
  assumes "ParseWebhook doc = Inr hook" "body = ''--'' @ boundary @ doc @ rest" "find_braces body = None" "uid \<noteq> []"
  shows "api e te order ev Unmarshal_Webhook selfRoot \<lparr>rq_id = uid, rq_body = Inr body\<rparr> ((s, l, n), cache) =
      Some (\<lparr>rp_Status = 400, rp_Fields = []\<rparr>, (s, l, n), cache) \<and>
    parse_payload Unmarshal_Webhook doc = Some hook"
proof -
  have "\<not> HasPrefix (TrimSpace body) ''payload=''"
    using TrimSpace_first [of "CHR ''-''" "''-'' @ boundary @ doc @ rest" "''payload=''"] assms(2) by (auto simp: plain_def)
  then have payload: "api_payload body = body" by (simp add: api_payload_def)
  have "Unmarshal_Webhook body = Inl (Err ''json'')" unfolding Unmarshal_Webhook_def assms(2) dashes_no_json by simp
  then have "parse_payload Unmarshal_Webhook body = None" using assms(3) by (simp add: parse_payload_def Parser_Parse_def)
  then show ?thesis using payload assms(1,4) by (simp add: api_def parse_payload_def ParseWebhook_def)
qed

definition newline :: string where
  "newline = [CHR 0x0A]"

definition indented_doc :: string where
  "indented_doc = ''{'' @ newline @ [CHR 0x22] @ ''event'' @ [CHR 0x22] @ '':'' @ [CHR 0x22] @ ''media.play'' @ [CHR 0x22] @ newline @ ''}''"

theorem indented_multipart_is_refused_witness:
  "api demo_env (pg_trakt 1 demo_env granting_net (\<lambda>_. None) (\<lambda>_. None) ''id'' ''sec'') rev [] Unmarshal_Webhook ''http://h''
      \<lparr>rq_id = ''u'', rq_body = Inr (''--'' @ ''b'' @ newline @ newline @ indented_doc @ newline @ ''--b--'')\<rparr> ((demo_db, NewQueueEventLog 100, ()), newWebhookDedupeCache) =
      Some (\<lparr>rp_Status = 400, rp_Fields = []\<rparr>, (demo_db, NewQueueEventLog 100, ()), newWebhookDedupeCache) \<and>
   parse_payload Unmarshal_Webhook indented_doc = Some (zero_Webhook\<lparr>Event := ''media.play''\<rparr>)"
proof (rule indented_multipart_is_refused [of _ _ _ "''b'' @ newline @ newline" "newline @ ''--b--''"])
  have "json_parse indented_doc = Some (JObj [(''event'', JStr ''media.play'')])" "TrimSpace indented_doc \<noteq> []" by code_simp+
  then show "ParseWebhook indented_doc = Inr (zero_Webhook\<lparr>Event := ''media.play''\<rparr>)"
    by (simp add: ParseWebhook_def Parser_Parse_def Unmarshal_Webhook_def dec_Webhook_def fld_def fold_simps)
  show "find_braces (''--'' @ ''b'' @ newline @ newline @ indented_doc @ newline @ ''--b--'') = None" by code_simp
qed simp_all

section \<open>From the posted bytes to the scrobble\<close>

text \<open>No family has the name of the account, so the webhook is for the user alone.\<close>

lemma no_family:
  assumes "healthy e s" "\<forall>g \<in> set (family_groups s). PlexUsername g \<noteq> TrimSpace (ToLower name)"
  shows "\<exists>x s'. GetFamilyGroupByPlex e name s = (Inl x, s') \<and> (s' = s \<or> s' = sent s)"
proof -
  have "find (\<lambda>g. PlexUsername g = TrimSpace (ToLower name)) (family_groups s) = None"
    using assms(2) by (auto simp: find_None_iff)
  with assms(1) show ?thesis by (auto simp: GetFamilyGroupByPlex_def sql_eqs Let_def)
qed

text \<open>
  What the endpoint does with a readable webhook of a known user with a good token: it finds the user with reading
  statements only, and then it is up to the filter.
\<close>

lemma api_known_user:
  assumes te: "te = pg_trakt fuel e net parse url cid sec"
    and post: "ParseWebhook body = Inr hook" "\<not> HasPrefix (TrimSpace body) ''payload=''" "uid \<noteq> []"
    and db: "healthy e s" "find (\<lambda>r. u_id r = uid) (users s) = Some row" "user = user_of_row row" "Username user = ToLower (acc_Title (wh_Account hook))"
      "\<forall>g \<in> set (family_groups s). PlexUsername g \<noteq> TrimSpace (Username user)"
    and token: "\<forall>k \<ge> stmt_no s. 48 * Hour \<le> TokenExpiry user - env_now e k"
  shows "\<exists>s'. same_tables s s' \<and> healthy e s' \<and> stmt_no s \<le> stmt_no s' \<and>
    (let now = env_now e (stmt_no s');
         (fresh, cache1) = shouldProcess now now now uid (TraktDisplayName user) (Event hook)
           (md_RatingKey (wh_Metadata hook)) (ViewOffset (wh_Metadata hook)) cache
     in api e te order ev Unmarshal_Webhook selfRoot \<lparr>rq_id = uid, rq_body = Inr body\<rparr> ((s, l, n), cache) =
       (if \<not> fresh then Some (\<lparr>rp_Status = 200, rp_Fields = [(''result'', JStr ''duplicate_filtered'')]\<rparr>, (s', l, n), cache1)
        else map_option (\<lambda>w. (\<lparr>rp_Status = 200, rp_Fields = [(''result'', JStr ''success'')]\<rparr>, w, cache1)) (Handle te (Some hook) user (s', l, n))))"
proof -
  let ?name = "ToLower (acc_Title (wh_Account hook))"
  have groups: "\<forall>g \<in> set (family_groups s). PlexUsername g \<noteq> TrimSpace (ToLower ?name)" using db(4,5) by simp
  obtain x s1 where s1: "GetFamilyGroupByPlex e ?name s = (Inl x, s1)" "s1 = s \<or> s1 = sent s"
    using no_family [OF db(1) groups] by blast
  have h1: "healthy e s1" "users s1 = users s" "stmt_no s \<le> stmt_no s1"
    using s1(2) db(1) healthy_Suc [OF db(1), of "sent s"] by auto
  then have get: "GetUser e uid s1 = Some (Some user, sent s1)" using db(2,3) by (simp add: GetUser_healthy)
  have "stmt_no s \<le> stmt_no (sent s1)" using h1(3) by simp
  then have "\<not> TokenExpiry user - env_now e (stmt_no (sent s1)) < 48 * Hour" using token by (simp add: not_less)
  then have res: "resolve_user e te selfRoot uid ?name (Owner hook) (s1, l, n) = Some (Inr user, (sent s1, l, n))"
    using get db(4) by (simp add: resolve_user_def refresh_token_def te)
  have payload: "parse_payload Unmarshal_Webhook (api_payload body) = Some hook"
    using post(1,2) by (simp add: api_payload_def parse_payload_def ParseWebhook_def)
  have "same_tables s (sent s1)" using s1(2) same_tables_trans [of s "sent s" "sent (sent s)"] by auto
  moreover have "healthy e (sent s1)" using h1(1) by (rule healthy_Suc) simp
  ultimately show ?thesis
    using payload s1(1) res db(4) post(3) \<open>stmt_no s \<le> stmt_no (sent s1)\<close>
    by (intro exI [of _ "sent s1"]) (simp add: api_def te Let_def split: prod.split)
qed

lemma same_tables_rows: "same_tables s s' \<Longrightarrow> users s' = users s \<and> family_groups s' = family_groups s"
  unfolding same_tables_def by (metis pg.simps(1,2,3) pg.surjective pg.update_convs)

lemma getAction_world: "fst (getAction (pg_trakt f e net p ur c sec) hook (s', l', n')) = fst (getAction (pg_trakt f e net p ur c sec) hook (s, l, n))"
  by (simp add: getAction_def Let_def)

lemma Handle_accepted:
  assumes "te = pg_trakt f e (recorded net) p ur c sec" "actionable te hook media" "getAction te hook w0 = ((action, c0, progress), w)"
    "req = scrobble_req te action (media\<lparr>Progress := progress\<rparr>) (AccessToken user)"
    "net req m = (Inr r, m')" "success (StatusCode r)" "decode_into r (media\<lparr>Progress := progress\<rparr>) \<noteq> DecPanic"
  shows "Handle te (Some hook) user (s, l, d, m, h) = Some (s, l, d, m', h @ [(req, Inr r)])"
proof -
  obtain c1 w1 where act: "getAction te hook (s, l, d, m, h) = ((action, c1, progress), w1)"
    using getAction_world [of f e "recorded net" p ur c sec hook s l "(d, m, h)" "fst w0" "fst (snd w0)" "snd (snd w0)"] assms(1,3)
    by (cases "getAction te hook (s, l, d, m, h)") auto
  have "\<not> unavailable (StatusCode r)" using assms(6) by (auto simp: unavailable_def success_def)
  moreover have "Body (sent_item hook media progress) = media\<lparr>Progress := progress\<rparr>" by (simp add: sent_item_def)
  ultimately show ?thesis
    using Handle_sends [OF assms(2) [unfolded assms(1)] act [unfolded assms(1)], of user] assms(1,4-7)
    by (auto simp: scrobbleRequest_def recorded_def split: decoded.splits)
qed

text \<open>
  C2. A posted webhook becomes one scrobble: if the bytes posted for a known user, whose Plex name belongs to no family group, are a
  webhook the client acts on, the database works, the token is good, the filter has not seen the event and Trakt accepts, then the reply is 200, exactly one request goes to Trakt, with the user's
  token, the action and the media with the progress of the webhook, and no table changes.  The same bytes posted again within
  two seconds are answered as a duplicate and send nothing.
\<close>

theorem posted_webhook_is_scrobbled_once:
  assumes te: "te = pg_trakt fuel e (recorded net) parse url cid sec"
    and post: "ParseWebhook body = Inr hook" "\<not> HasPrefix (TrimSpace body) ''payload=''" "uid \<noteq> []"
    and db: "healthy e s" "find (\<lambda>r. u_id r = uid) (users s) = Some row" "user = user_of_row row" "Username user = ToLower (acc_Title (wh_Account hook))"
      "\<forall>g \<in> set (family_groups s). PlexUsername g \<noteq> TrimSpace (Username user)"
    and clock: "\<forall>k \<ge> stmt_no s. t \<le> env_now e k \<and> env_now e k < t + 2 * Second" "t + 2 * Second + 48 * Hour \<le> TokenExpiry user"
    and new: "entries cache (specificKey uid (Event hook) (md_RatingKey (wh_Metadata hook)) (ViewOffset (wh_Metadata hook))) = None"
      "traktScrobbles cache (traktKey (TraktDisplayName user) (Event hook) (md_RatingKey (wh_Metadata hook)) (ViewOffset (wh_Metadata hook))) = None"
    and hook: "actionable te hook media" "getAction te hook (s, l, d, m, h) = ((action, c0, progress), w)"
      "req = scrobble_req te action (media\<lparr>Progress := progress\<rparr>) (AccessToken user)"
    and trakt: "net req m = (Inr r, m')" "success (StatusCode r)" "decode_into r (media\<lparr>Progress := progress\<rparr>) \<noteq> DecPanic"
  shows "\<exists>s1 s2 cache1.
    api e te order ev Unmarshal_Webhook selfRoot \<lparr>rq_id = uid, rq_body = Inr body\<rparr> ((s, l, d, m, h), cache) =
      Some (\<lparr>rp_Status = 200, rp_Fields = [(''result'', JStr ''success'')]\<rparr>, (s1, l, d, m', h @ [(req, Inr r)]), cache1) \<and>
    api e te order ev Unmarshal_Webhook selfRoot \<lparr>rq_id = uid, rq_body = Inr body\<rparr> ((s1, l, d, m', h @ [(req, Inr r)]), cache1) =
      Some (\<lparr>rp_Status = 200, rp_Fields = [(''result'', JStr ''duplicate_filtered'')]\<rparr>, (s2, l, d, m', h @ [(req, Inr r)]), cache1) \<and>
    same_tables s s1 \<and> same_tables s1 s2"
proof -
  let ?key = "md_RatingKey (wh_Metadata hook)" and ?off = "ViewOffset (wh_Metadata hook)"
  have token: "\<forall>k \<ge> stmt_no s. 48 * Hour \<le> TokenExpiry user - env_now e k" using clock by fastforce
  obtain s1 where s1: "same_tables s s1" "healthy e s1" "stmt_no s \<le> stmt_no s1"
    and run: "let now = env_now e (stmt_no s1); (fresh, cache1) = shouldProcess now now now uid (TraktDisplayName user) (Event hook) ?key ?off cache
      in api e te order ev Unmarshal_Webhook selfRoot \<lparr>rq_id = uid, rq_body = Inr body\<rparr> ((s, l, d, m, h), cache) =
        (if \<not> fresh then Some (\<lparr>rp_Status = 200, rp_Fields = [(''result'', JStr ''duplicate_filtered'')]\<rparr>, (s1, l, d, m, h), cache1)
         else map_option (\<lambda>w. (\<lparr>rp_Status = 200, rp_Fields = [(''result'', JStr ''success'')]\<rparr>, w, cache1)) (Handle te (Some hook) user (s1, l, d, m, h)))"
    using api_known_user [OF te post db token, where cache = cache and n = "(d, m, h)" and l = l] by blast
  let ?now = "env_now e (stmt_no s1)"
  obtain cache1 where c1: "shouldProcess ?now ?now ?now uid (TraktDisplayName user) (Event hook) ?key ?off cache = (True, cache1)"
    using new by (auto simp: shouldProcess_def seen_within_def Let_def)
  have first: "api e te order ev Unmarshal_Webhook selfRoot \<lparr>rq_id = uid, rq_body = Inr body\<rparr> ((s, l, d, m, h), cache) =
      Some (\<lparr>rp_Status = 200, rp_Fields = [(''result'', JStr ''success'')]\<rparr>, (s1, l, d, m', h @ [(req, Inr r)]), cache1)"
    using run c1 Handle_accepted [OF te hook trakt, of s1 l d h] by (simp add: Let_def)
  have rows: "users s1 = users s" "family_groups s1 = family_groups s" using same_tables_rows [OF s1(1)] by simp_all
  have token1: "\<forall>k \<ge> stmt_no s1. 48 * Hour \<le> TokenExpiry user - env_now e k" using token s1(3) by simp
  obtain s2 where s2: "same_tables s1 s2" "stmt_no s1 \<le> stmt_no s2"
    and run2: "let now = env_now e (stmt_no s2); (fresh, cache2) = shouldProcess now now now uid (TraktDisplayName user) (Event hook) ?key ?off cache1
      in api e te order ev Unmarshal_Webhook selfRoot \<lparr>rq_id = uid, rq_body = Inr body\<rparr> ((s1, l, d, m', h @ [(req, Inr r)]), cache1) =
        (if \<not> fresh then Some (\<lparr>rp_Status = 200, rp_Fields = [(''result'', JStr ''duplicate_filtered'')]\<rparr>, (s2, l, d, m', h @ [(req, Inr r)]), cache2)
         else map_option (\<lambda>w. (\<lparr>rp_Status = 200, rp_Fields = [(''result'', JStr ''success'')]\<rparr>, w, cache2)) (Handle te (Some hook) user (s2, l, d, m', h @ [(req, Inr r)])))"
    using api_known_user [OF te post s1(2) _ db(3,4) _ token1, where cache = cache1 and n = "(d, m', h @ [(req, Inr r)])" and l = l] db(2,5) rows by force
  have "env_now e (stmt_no s2) - ?now < 2 * Second" 
  proof -
    have "t \<le> ?now" "env_now e (stmt_no s2) < t + 2 * Second" using clock(1) s1(3) s2(2) by auto
    then show ?thesis by simp
  qed
  then have "shouldProcess (env_now e (stmt_no s2)) (env_now e (stmt_no s2)) (env_now e (stmt_no s2)) uid (TraktDisplayName user) (Event hook) ?key ?off cache1 = (False, cache1)"
    using shouldProcess_True(1) [OF c1] by (simp add: shouldProcess_def seen_within_def Let_def)
  with run2 first s1(1) s2(1) show ?thesis by (auto simp: Let_def)
qed

definition posted_te :: "unit drain_world TraktEnv" where
  "posted_te = pg_trakt 1 demo_env (recorded (const_net accept)) (\<lambda>_. None) (\<lambda>_. None) ''cid'' ''secret''"

definition posted_body :: string where
  "posted_body = Marshal_text (plex_document demo_hook (plex_members (wh_Metadata demo_hook)))"

lemma posted_facts:
  "ParseWebhook posted_body = Inr demo_hook" "\<not> HasPrefix (TrimSpace posted_body) ''payload=''"
  "actionable posted_te demo_hook heat" "getAction posted_te demo_hook (s, l, n) = ((''pause'', zero_CacheItem, 50), (s, l, n))"
proof -
  let ?kvs = "plex_members (wh_Metadata demo_hook)"
  have "clean (plex_document demo_hook ?kvs) = plex_document demo_hook ?kvs" "no_frac (plex_document demo_hook ?kvs)" by code_simp+
  then have json: "json_parse posted_body = Some (plex_document demo_hook ?kvs)"
    using json_text_roundtrip(1) unfolding posted_body_def by metis
  have ok: "in_int64 (acc_ID (wh_Account demo_hook))" "metadata_exact (wh_Metadata demo_hook)"
    by (simp_all add: demo_hook_def in_int64_def metadata_exact_def)
  have "\<forall>kv \<in> set ?kvs. is_read kv" using members_names(1) by (metis image_eqI set_map)
  then have "map_option Metadata.truncate (Metadata_UnmarshalJSON (JObj ?kvs)) = Some (wh_Metadata demo_hook)"
    using ok(2) members_names(1,3) by (intro metadata_read) (simp_all add: filter_id_conv)
  from dec_document [OF this ok(1)] json show "ParseWebhook posted_body = Inr demo_hook"
    using object_text [of posted_body] by (simp add: ParseWebhook_def Parser_Parse_def Unmarshal_Webhook_def plex_document_def)
  obtain rest where "posted_body = CHR ''{'' # rest" by (simp add: posted_body_def plex_document_def Marshal_text_def)
  then show "\<not> HasPrefix (TrimSpace posted_body) ''payload=''"
    using TrimSpace_first [of "CHR ''{''" rest "''payload=''"] by (auto simp: plain_def)
  show "actionable posted_te demo_hook heat"
    by (simp add: actionable_def media_body_def handleMovie_def demo_hook_def heat_ids heat_def)
  have "math_Round (f64_mult (f64_div (f64 50) (f64 100)) 100) = 50" by code_simp
  then show "getAction posted_te demo_hook (s, l, n) = ((''pause'', zero_CacheItem, 50), (s, l, n))"
    by (simp add: getAction_def posted_te_def) (simp add: demo_hook_def action_defs ProgressThreshold_def)
qed

theorem posted_webhook_is_scrobbled_once_witness:
  "\<exists>s1 s2 cache1 x.
    api demo_env posted_te rev [] Unmarshal_Webhook ''http://h'' \<lparr>rq_id = ''u'', rq_body = Inr posted_body\<rparr>
      ((demo_db, NewQueueEventLog 100, NewDrainStateTracker, (), []), newWebhookDedupeCache) =
      Some (\<lparr>rp_Status = 200, rp_Fields = [(''result'', JStr ''success'')]\<rparr>, (s1, NewQueueEventLog 100, NewDrainStateTracker, (), [x]), cache1) \<and>
    api demo_env posted_te rev [] Unmarshal_Webhook ''http://h'' \<lparr>rq_id = ''u'', rq_body = Inr posted_body\<rparr>
      ((s1, NewQueueEventLog 100, NewDrainStateTracker, (), [x]), cache1) =
      Some (\<lparr>rp_Status = 200, rp_Fields = [(''result'', JStr ''duplicate_filtered'')]\<rparr>, (s2, NewQueueEventLog 100, NewDrainStateTracker, (), [x]), cache1)"
proof -
  have user: "find (\<lambda>r. u_id r = ''u'') (users demo_db) = Some demo_user_row" "family_groups demo_db = []"
    by (simp_all add: demo_db_def demo_user_row_def pg_empty_def)
  have name: "Username (user_of_row demo_user_row) = ToLower (acc_Title (wh_Account demo_hook))" by code_simp
  have clock: "\<forall>k \<ge> stmt_no demo_db. 7 \<le> env_now demo_env k \<and> env_now demo_env k < 7 + 2 * Second"
    "7 + 2 * Second + 48 * Hour \<le> TokenExpiry (user_of_row demo_user_row)"
    by (simp_all add: demo_env_def time_defs user_of_row_def demo_user_row_def)
  obtain r where r: "accept = Inr r" "success (StatusCode r)" "decode_into r b \<noteq> DecPanic" for b
    by (simp add: accept_def success_def decode_into_def)
  from posted_webhook_is_scrobbled_once [OF posted_te_def posted_facts(1,2) _ demo_healthy user(1) refl name _ clock _ _ posted_facts(3,4) refl,
      where m = "()" and d = NewDrainStateTracker and h = "[]" and cache = newWebhookDedupeCache and
        l = "NewQueueEventLog 100" and order = rev and ev = "[]" and selfRoot = "''http://h''", OF _ _ _ _ _ r(2,3)]
  show ?thesis using user(2) r(1) by (auto simp: newWebhookDedupeCache_def const_net_def)
qed

section \<open>From a webhook into a queue of texts and back\<close>

text \<open>What the queues of the file store and of Redis do to an event made from a webhook, whatever bytes were posted.\<close>

lemma Atoi_int64: "in_int64 (fst (Atoi s))"
  by (simp add: Atoi_def in_int64_def Let_def)

lemma ascii_prefix_utf8: "ascii p \<Longrightarrow> valid_utf8 (p @ s) \<Longrightarrow> valid_utf8 s"
  unfolding valid_utf8_def
  by (induction p) (simp_all add: ascii_def rune_width_ascii del: rune_width.simps)

text \<open>Identifiers, and bodies of scrobbles, whose documents are read back as they were.\<close>

definition ids_typed :: "Ids \<Rightarrow> bool" where
  "ids_typed i \<longleftrightarrow> Ids_ok i \<and> pred_option valid_utf8 (Imdb i) \<and> Slug i = None"

text \<open>The text of an IMDB identifier is what follows the first seven bytes; they should be the scheme.\<close>

definition guid_sound :: "string \<Rightarrow> bool" where
  "guid_sound g \<longleftrightarrow> (take 4 g = ''imdb'' \<longrightarrow> take 7 g = ''imdb://'')"

lemma guid_step_typed:
  assumes "ids_typed ids" "valid_utf8 g" "guid_sound g"
  shows "ids_typed (fst (guid_step g (ids, v)))"
proof -
  have "valid_utf8 (drop 7 g)" if "take 4 g = ''imdb''"
    using assms(2,3) that ascii_prefix_utf8 [of "''imdb://''" "drop 7 g"] append_take_drop_id [of 7 g] by (simp add: guid_sound_def ascii_def)
  moreover have "in_int64 n" if "Atoi x = (n, b)" for n b x using Atoi_int64 [of x] that by simp
  ultimately show ?thesis using assms(1)
    by (auto simp: guid_step_def service_defs ids_typed_def Ids_ok_def Let_def split: bool.splits prod.splits)
qed

lemma guid_ids_typed:
  assumes "list_all valid_utf8 gs" "list_all guid_sound gs"
  shows "ids_typed (fst (guid_ids gs))"
proof -
  have "ids_typed (fst (fold guid_step gs acc))" if "ids_typed (fst acc)" for acc
    using assms that
  proof (induction gs arbitrary: acc)
    case (Cons g gs)
    then show ?case using guid_step_typed [of "fst acc" g "snd acc"] by simp
  qed simp
  moreover have "ids_typed zero_Ids" by (simp add: ids_typed_def Ids_ok_def zero_Ids_def)
  ultimately show ?thesis by (simp add: guid_ids_def)
qed

definition body_typed :: "ScrobbleBody \<Rightarrow> bool" where
  "body_typed b \<longleftrightarrow> Body_ok b \<and> utf8_doc (ScrobbleBody_MarshalJSON b)"

lemma enc_Ids_utf8: "ids_typed i \<Longrightarrow> clean (enc_Ids i) = enc_Ids i"
  by (cases i) (auto simp: enc_Ids_def omitempty_def ids_typed_def valid_utf8_def ToValidUTF8_lit ascii_def
      simp del: ToValidUTF8.simps split: option.splits)

lemma media_body_typed:
  assumes "media_body te hook = Some body" "webhook_typed hook" "list_all guid_sound (ExternalGUIDs (wh_Metadata hook))"
    "0 \<le> p" "p \<le> 100"
  shows "body_typed (body\<lparr>Progress := p\<rparr>)"
proof -
  have ids: "ids_typed (fst (guid_ids (ExternalGUIDs (wh_Metadata hook))))"
    using guid_ids_typed assms(2,3) by (simp add: webhook_typed_def metadata_typed_def)
  have zero: "ids_typed zero_Ids" by (simp add: ids_typed_def Ids_ok_def zero_Ids_def)
  have texts: "valid_utf8 (md_Title (wh_Metadata hook))" "in_int64 (Year (wh_Metadata hook))"
    using assms(2) by (simp_all add: webhook_typed_def metadata_typed_def)
  have show_typed: "body_typed (zero_Body\<lparr>BEpisode := Some (zero_Episode\<lparr>EpIds := Some i\<rparr>), Progress := p\<rparr>)"
    and movie_typed: "body_typed (zero_Body\<lparr>BMovie := Some (zero_Movie\<lparr>MovieIds := i\<rparr>), Progress := p\<rparr>)" if "ids_typed i" for i
    using that assms(4,5) enc_Ids_utf8 [OF that]
    by (simp_all add: body_typed_def Body_ok_def Episode_ok_def Movie_ok_def ids_typed_def zero_defs utf8_doc_def ScrobbleBody_MarshalJSON_def
        enc_Episode_def enc_Movie_def omitempty_def ToValidUTF8_lit ascii_def del: ToValidUTF8.simps)
  have title_typed: "body_typed (zero_Body\<lparr>BMovie := Some (zero_Movie\<lparr>MovieTitle := Some (md_Title (wh_Metadata hook)),
      MovieYear := Some (Year (wh_Metadata hook))\<rparr>), Progress := p\<rparr>)"
    using texts assms(4,5) enc_Ids_utf8 [OF zero] zero
    by (simp add: body_typed_def Body_ok_def Movie_ok_def ids_typed_def zero_defs utf8_doc_def ScrobbleBody_MarshalJSON_def
        enc_Movie_def omitempty_def ToValidUTF8_lit ascii_def valid_utf8_def del: ToValidUTF8.simps)
  have number_typed: "body_typed (zero_Body\<lparr>BShow := Some (zero_Show\<lparr>ShowIds := i\<rparr>),
      BEpisode := Some (zero_Episode\<lparr>Season := Some a, Number := Some b\<rparr>), Progress := p\<rparr>)" if "ids_typed i" "in_int64 a" "in_int64 b" for i a b
    using that assms(4,5) enc_Ids_utf8 [OF that(1)]
    by (simp add: body_typed_def Body_ok_def Show_ok_def Episode_ok_def ids_typed_def zero_defs utf8_doc_def ScrobbleBody_MarshalJSON_def
        enc_Episode_def enc_Show_def omitempty_def ToValidUTF8_lit ascii_def del: ToValidUTF8.simps)
  have tv: "ids_typed (zero_Ids\<lparr>Tvdb := Some (fst (Atoi x))\<rparr>)" "ids_typed (zero_Ids\<lparr>Tmdb := Some (fst (Atoi x))\<rparr>)" for x
    using Atoi_int64 [of x] by (simp_all add: ids_typed_def Ids_ok_def zero_Ids_def)
  show ?thesis using assms(1) ids show_typed movie_typed title_typed number_typed [OF tv(1) Atoi_int64 Atoi_int64] number_typed [OF tv(2) Atoi_int64 Atoi_int64]
    by (auto simp: media_body_def handleShow_def handleMovie_def findMovie_def findEpisode_def Let_def split: if_splits prod.splits option.splits)
qed

lemma generated_id_ascii: "generateEventID (Inr b) = Inr i \<Longrightarrow> ascii i"
proof -
  have "list_all (\<lambda>c. (of_char c :: nat) < 128) ''0123456789abcdef''" by simp
  then have "(of_char (hexdigit n) :: nat) < 128" if "n < 16" for n
    using that nth_mem [of n "''0123456789abcdef''"] unfolding hexdigit_def list_all_iff by fastforce
  moreover have "unat b div 16 < 16" "unat b mod 16 < 16" for b :: "8 word" using unat_byte_less [of b] by simp_all
  ultimately have "ascii (hex_encode x)" for x by (auto simp: ascii_def list_all_iff hex_encode_def hex_byte_def)
  then show "generateEventID (Inr b) = Inr i \<Longrightarrow> ascii i" by (auto simp: generateEventID_def Let_def ascii_def)
qed

text \<open>
  C8. What a webhook puts into a queue survives it, whatever bytes were posted and whatever store is used.  When Trakt cannot
  be reached for a parsed webhook of a new item, \<open>Handle\<close> hands the store an event that the store accepts; once it
  has its identifier and time, its text can be written and reads back as the same event, every number and every
  string of the body included, and what the drain makes of it is the very request that failed.  The position lies within
  the media, IMDB identifiers have their scheme, the identifier of the user is UTF-8 and the year has four digits.
\<close>

theorem queued_webhook_survives_storage:
  assumes post: "ParseWebhook payload = Inr hook" "position_ok hook" "list_all guid_sound (ExternalGUIDs (wh_Metadata hook))"
    and item: "pl_UUID (wh_Player hook) \<noteq> []" "md_RatingKey (wh_Metadata hook) \<noteq> []" "media_body te hook = Some body"
      "getAction te hook w = ((action, cache, progress), w1)" "action \<noteq> []" "ServerUuid cache \<noteq> srv_UUID (wh_Server hook)"
    and down: "req = scrobble_req te action (body\<lparr>Progress := progress\<rparr>) (AccessToken user)" "te_http te req w1 = (ans, w2)" "retry_worthy ans"
    and store: "usr_ID user \<noteq> []" "valid_utf8 (usr_ID user)" "generateEventID (Inr b) = Inr eid" "four_digit_year now"
  shows "\<exists>item ev. Handle te (Some hook) user w = enqueueScrobbleEvent te user item action w2 \<and>
    ev = (queued_event user item action)\<lparr>ev_ID := eid, ev_CreatedAt := now\<rparr> \<and> validateEvent ev = None \<and>
    (\<exists>data. serializeEvent ev = Inr data \<and> deserializeEvent data = DecOk ev) \<and>
    scrobble_req te (Action ev) (Body (queued_item ev)) (AccessToken user) = req"
proof -
  let ?item = "cache\<lparr>PlayerUuid := pl_UUID (wh_Player hook), ServerUuid := srv_UUID (wh_Server hook),
    CRatingKey := md_RatingKey (wh_Metadata hook), Trigger := Event hook, Body := body\<lparr>Progress := progress\<rparr>\<rparr>"
  let ?ev = "(queued_event user ?item action)\<lparr>ev_ID := eid, ev_CreatedAt := now\<rparr>"
  have act: "0 \<le> progress" "progress \<le> 100" "action \<in> {''start'', ''pause'', ''stop''}"
    using getAction_spec [OF post(2) item(4)] item(5) by (auto simp: action_defs)
  have typed: "webhook_typed hook" by (rule parsed_webhook_is_typed [OF post(1)])
  have body: "Body_ok (body\<lparr>Progress := progress\<rparr>)" "utf8_doc (ScrobbleBody_MarshalJSON (body\<lparr>Progress := progress\<rparr>))"
    using media_body_typed [OF item(3) typed post(3) act(1,2)] by (simp_all add: body_typed_def)
  have "Handle te (Some hook) user w = enqueueScrobbleEvent te user ?item action w2"
    using item down by (auto simp: Handle_def is_duplicate_def scrobbleRequest_def retry_worthy_def split: sum.splits)
  moreover have "validateEvent ?ev = None"
    using act item(1,2) store(1) by (simp add: validateEvent_ok event_wf_def queued_event_def)
  moreover have "event_storable ?ev"
  proof -
    have "valid_utf8 action" using act(3) by (auto simp: ascii_utf8 ascii_def)
    moreover have "valid_utf8 eid" using generated_id_ascii [OF store(3)] by (rule ascii_utf8)
    moreover have "valid_utf8 (pl_UUID (wh_Player hook))" "valid_utf8 (md_RatingKey (wh_Metadata hook))"
      using typed by (simp_all add: webhook_typed_def metadata_typed_def)
    ultimately show ?thesis using body act(1,2) store(2,4)
      by (simp add: event_storable_iff queued_event_def in_int64_def year_bounds)
  qed
  ultimately show ?thesis using event_roundtrip [of ?ev] down(1)
    by (intro exI [of _ ?item] exI [of _ ?ev]) (simp add: queued_item_def queued_event_def)
qed

theorem queued_webhook_survives_storage_witness:
  "\<exists>item ev data. Handle (demo_te trakt_down) (Some demo_hook) demo_user [] =
      enqueueScrobbleEvent (demo_te trakt_down) demo_user item ''pause'' [scrobble_req (demo_te trakt_down) ''pause'' (heat\<lparr>Progress := 50\<rparr>) (AccessToken demo_user)] \<and>
    serializeEvent ev = Inr data \<and> deserializeEvent data = DecOk ev \<and>
    scrobble_req (demo_te trakt_down) (Action ev) (Body (queued_item ev)) (AccessToken demo_user) =
      scrobble_req (demo_te trakt_down) ''pause'' (heat\<lparr>Progress := 50\<rparr>) (AccessToken demo_user)"
proof -
  let ?te = "demo_te trakt_down" and ?req = "scrobble_req (demo_te trakt_down) ''pause'' (heat\<lparr>Progress := 50\<rparr>) (AccessToken demo_user)"
  obtain eid where eid: "generateEventID (Inr (replicate 16 0)) = Inr eid" by (simp add: generateEventID_def Let_def)
  have hook: "position_ok demo_hook" "list_all guid_sound (ExternalGUIDs (wh_Metadata demo_hook))" "pl_UUID (wh_Player demo_hook) \<noteq> []"
    "md_RatingKey (wh_Metadata demo_hook) \<noteq> []" by (simp_all add: position_ok_def demo_hook_def guid_sound_def)
  have body: "media_body ?te demo_hook = Some heat" by (simp add: media_body_def handleMovie_def demo_hook_def heat_ids heat_def)
  have "math_Round (f64_mult (f64_div (f64 50) (f64 100)) 100) = 50" by code_simp
  then have act: "getAction ?te demo_hook [] = ((''pause'', zero_CacheItem, 50), [])"
    by (simp add: getAction_def demo_te_def) (simp add: demo_hook_def action_defs ProgressThreshold_def)
  have srv: "ServerUuid zero_CacheItem \<noteq> srv_UUID (wh_Server demo_hook)" by (simp add: zero_CacheItem_def demo_hook_def)
  have net: "te_http ?te ?req [] = (trakt_down ?req, [?req])" "retry_worthy (trakt_down ?req)"
    by (simp_all add: demo_te_def retry_worthy_def unavailable_def)
  have user: "usr_ID demo_user \<noteq> []" "valid_utf8 (usr_ID demo_user)" by (simp_all add: demo_user_def ascii_utf8 ascii_def)
  have now: "four_digit_year 0" by (simp add: year_bounds)
  have "''pause'' \<noteq> []" by simp
  from queued_webhook_survives_storage [OF posted_facts(1) hook body act this srv refl net user eid now] show ?thesis by blast
qed

end
