(* ===== verification/Assets.thy ===== *)
theory Assets
  imports Json_Text
begin

text \<open>
  \<open>assets_manifest.go\<close>: the paths of the static files, looked up in a manifest that the build of
  the front end writes and that is read again whenever its file is newer.  What the file system answers (a
  modification time, the text, or an error) is an argument of each operation, one for each call.
\<close>

section \<open>The manifest\<close>

datatype 'a os_answer = NotExist | Failure | Ok 'a

record assetManifest =
  am_entries :: "string \<rightharpoonup> string"
  isLoaded :: bool
  modTime :: gotime

text \<open>Decoding into a map of strings: null as a value is the empty string, as a document the nil map.\<close>

fun string_map :: "(string \<times> json) list \<Rightarrow> (string \<rightharpoonup> string) option" where
  "string_map [] = Some Map.empty"
| "string_map ((k, v) # kvs) = (case (v, string_map kvs) of
     (JStr s, Some m) \<Rightarrow> Some (if k \<in> dom m then m else m(k \<mapsto> s))
   | (JNull, Some m) \<Rightarrow> Some (if k \<in> dom m then m else m(k \<mapsto> []))
   | _ \<Rightarrow> None)"

definition Unmarshal_entries :: "string \<Rightarrow> (string \<rightharpoonup> string) option" where
  "Unmarshal_entries data = (case json_parse data of
     Some (JObj kvs) \<Rightarrow> string_map kvs
   | Some JNull \<Rightarrow> Some Map.empty
   | _ \<Rightarrow> None)"

definition forget :: "assetManifest \<Rightarrow> assetManifest" where
  "forget m = m\<lparr>am_entries := Map.empty, isLoaded := False, modTime := 0\<rparr>"

text \<open>The result says whether there was no error.\<close>

definition reload :: "gotime os_answer \<Rightarrow> string os_answer \<Rightarrow> assetManifest \<Rightarrow> bool \<times> assetManifest" where
  "reload stat readFile m = (case stat of
     NotExist \<Rightarrow> (False, forget m)
   | Failure \<Rightarrow> (False, m)
   | Ok t \<Rightarrow> (case readFile of
       Ok data \<Rightarrow> (case Unmarshal_entries data of
           Some entries \<Rightarrow> (True, m\<lparr>am_entries := entries, isLoaded := True, modTime := t\<rparr>)
         | None \<Rightarrow> (False, m))
     | _ \<Rightarrow> (False, m)))"

definition newAssetManifest :: "gotime os_answer \<Rightarrow> string os_answer \<Rightarrow> assetManifest" where
  "newAssetManifest stat readFile = snd (reload stat readFile \<lparr>am_entries = Map.empty, isLoaded = False, modTime = 0\<rparr>)"

text \<open>\<open>ensureLatest\<close> asks for the time itself before \<open>reload\<close> asks again.\<close>

definition ensureLatest :: "gotime os_answer \<Rightarrow> gotime os_answer \<Rightarrow> string os_answer \<Rightarrow> assetManifest \<Rightarrow> assetManifest" where
  "ensureLatest stat1 stat2 readFile m = (case stat1 of
     NotExist \<Rightarrow> forget m
   | Failure \<Rightarrow> m
   | Ok t \<Rightarrow> (if \<not> isLoaded m \<or> modTime m < t then snd (reload stat2 readFile m) else m))"

definition normalizeAssetKey :: "string \<Rightarrow> string" where
  "normalizeAssetKey key = TrimPrefix (TrimPrefix key ''/'') ''static/''"

definition asset_lookup :: "assetManifest \<Rightarrow> string \<Rightarrow> string" where
  "asset_lookup m key = ''/static/'' @
     (if \<not> isLoaded m then normalizeAssetKey key
      else case am_entries m (normalizeAssetKey key) of
        Some rel \<Rightarrow> (if rel \<noteq> [] then rel else normalizeAssetKey key)
      | None \<Rightarrow> normalizeAssetKey key)"

definition pathFor :: "gotime os_answer \<Rightarrow> gotime os_answer \<Rightarrow> string os_answer \<Rightarrow> string \<Rightarrow> assetManifest \<Rightarrow> string \<times> assetManifest" where
  "pathFor stat1 stat2 readFile key m = (let m' = ensureLatest stat1 stat2 readFile m in (asset_lookup m' key, m'))"

section \<open>The manifest over time\<close>

text \<open>
  The file as the requests find it: absent, or a version with a time and a text, the same for all calls of one request.
\<close>

type_synonym manifest_file = "(gotime \<times> string) option"

definition request_path :: "manifest_file \<Rightarrow> string \<Rightarrow> assetManifest \<Rightarrow> string \<times> assetManifest" where
  "request_path f key m = (case f of
     None \<Rightarrow> pathFor NotExist NotExist NotExist key m
   | Some (t, data) \<Rightarrow> pathFor (Ok t) (Ok t) (Ok data) key m)"

definition requests :: "manifest_file list \<Rightarrow> assetManifest \<Rightarrow> assetManifest" where
  "requests fs m = fold (\<lambda>f m. snd (request_path f [] m)) fs m"

text \<open>What the newest version that can be decoded says, since the file was last missing.\<close>

fun current :: "manifest_file list \<Rightarrow> (string \<rightharpoonup> string) option" where
  "current [] = None"
| "current (None # fs) = None"
| "current (Some (t, data) # fs) = (case Unmarshal_entries data of Some es \<Rightarrow> Some es | None \<Rightarrow> current fs)"

text \<open>Versions do not go back in time, and a version that is no newer is the same.\<close>

fun times_grow :: "manifest_file list \<Rightarrow> bool" where
  "times_grow [] = True"
| "times_grow (None # fs) = times_grow fs"
| "times_grow (Some (t, data) # fs) =
     (list_all (\<lambda>f. case f of None \<Rightarrow> True | Some (u, d) \<Rightarrow> u < t \<or> u = t \<and> d = data) (takeWhile (\<lambda>f. f \<noteq> None) fs) \<and> times_grow fs)"

text \<open>The run of versions since the file was last missing, newest first, and what the manifest in memory has of it.\<close>

abbreviation run_of :: "manifest_file list \<Rightarrow> manifest_file list" where
  "run_of h \<equiv> takeWhile (\<lambda>f. f \<noteq> None) h"

definition in_step :: "manifest_file list \<Rightarrow> assetManifest \<Rightarrow> bool" where
  "in_step h m \<longleftrightarrow> (case current h of
     None \<Rightarrow> \<not> isLoaded m
   | Some es \<Rightarrow> isLoaded m \<and> am_entries m = es \<and> (\<exists>d. Some (modTime m, d) \<in> set (run_of h) \<and> Unmarshal_entries d = Some es))"

lemma in_step_version:
  assumes "in_step h m" "times_grow (Some (t, data) # h)"
  shows "in_step (Some (t, data) # h) (ensureLatest (Ok t) (Ok t) (Ok data) m)"
proof (cases "isLoaded m \<and> \<not> modTime m < t")
  case True
  then obtain es d where es: "current h = Some es" "am_entries m = es" "Some (modTime m, d) \<in> set (run_of h)" "Unmarshal_entries d = Some es"
    using assms(1) by (auto simp: in_step_def split: option.splits)
  then have "modTime m < t \<or> modTime m = t \<and> d = data" using assms(2) by (auto simp: list_all_iff)
  with True have "modTime m = t" "d = data" by auto
  with es True show ?thesis by (auto simp: in_step_def ensureLatest_def)
next
  case False
  then show ?thesis using assms(1)
    by (cases "Unmarshal_entries data") (auto simp: in_step_def ensureLatest_def reload_def split: option.splits)
qed

lemma requests_in_step:
  assumes "times_grow (rev fs)" "\<not> isLoaded m"
  shows "in_step (rev fs) (requests fs m)"
  using assms(1)
proof (induction fs rule: rev_induct)
  case Nil
  then show ?case using assms(2) by (simp add: in_step_def requests_def)
next
  case (snoc f fs)
  show ?case
  proof (cases f)
    case None
    then show ?thesis by (simp add: requests_def request_path_def pathFor_def ensureLatest_def forget_def in_step_def Let_def)
  next
    case (Some v)
    obtain t data where v: "v = (t, data)" by fastforce
    have "in_step (rev fs) (requests fs m)" using snoc Some v by simp
    from in_step_version [OF this] snoc.prems Some v show ?thesis
      by (simp add: requests_def request_path_def pathFor_def Let_def)
  qed
qed

text \<open>
  C40. Pages link to what the manifest says: over any sequence of requests, while versions of the file come, are replaced by newer ones, are
  unreadable for a while or vanish, a request links a key to the path of the newest version that could be decoded since the file was
  last missing, and to the plain file when there is none or it has no such key; the link always lies under \<open>/static/\<close>.
\<close>

theorem asset_paths_follow_manifest:
  assumes "times_grow (rev (fs @ [f]))"
  shows "fst (request_path f key (requests fs (newAssetManifest NotExist NotExist))) =
    ''/static/'' @ (case Option.bind (current (rev (fs @ [f]))) (\<lambda>es. es (normalizeAssetKey key)) of
       Some rel \<Rightarrow> if rel \<noteq> [] then rel else normalizeAssetKey key
     | None \<Rightarrow> normalizeAssetKey key)"
proof -
  let ?m = "requests (fs @ [f]) (newAssetManifest NotExist NotExist)"
  have "\<not> isLoaded (newAssetManifest NotExist NotExist)" by (simp add: newAssetManifest_def reload_def forget_def)
  from requests_in_step [OF assms this] have "in_step (rev (fs @ [f])) ?m" .
  then have "asset_lookup ?m key = ''/static/'' @ (case Option.bind (current (rev (fs @ [f]))) (\<lambda>es. es (normalizeAssetKey key)) of
       Some rel \<Rightarrow> if rel \<noteq> [] then rel else normalizeAssetKey key
     | None \<Rightarrow> normalizeAssetKey key)"
    by (cases "current (rev (fs @ [f]))") (auto simp: in_step_def asset_lookup_def)
  moreover have "fst (request_path f key (requests fs n)) = asset_lookup (requests (fs @ [f]) n) key" for n
    by (simp add: requests_def request_path_def pathFor_def Let_def split: option.split prod.split)
  ultimately show ?thesis by simp
qed

definition manifest_text :: "string \<Rightarrow> string" where
  "manifest_text rel = Marshal_text (JObj [(''app.js'', JStr rel)])"

theorem asset_paths_follow_manifest_witness:
  "fst (request_path (Some (3, ''{'')) ''/static/app.js''
     (requests [None, Some (1, manifest_text ''dist/app.1.js''), Some (2, manifest_text ''dist/app.2.js'')] (newAssetManifest NotExist NotExist))) =
   ''/static/dist/app.2.js''"
proof -
  have "Unmarshal_entries (manifest_text rel) = Some [''app.js'' \<mapsto> rel]" if "ToValidUTF8 rel = rel" for rel
    using that json_text_roundtrip(1) [of "JObj [(''app.js'', JStr rel)]"] ascii_utf8 [of "''app.js''"]
    by (simp add: Unmarshal_entries_def manifest_text_def valid_utf8_def ascii_def)
  moreover have "ToValidUTF8 ''dist/app.2.js'' = ''dist/app.2.js''" "normalizeAssetKey ''/static/app.js'' = ''app.js''"
    "Unmarshal_entries ''{'' = None" by code_simp+
  moreover have "times_grow (rev ([None, Some (1, manifest_text ''dist/app.1.js''), Some (2, manifest_text ''dist/app.2.js'')] @ [Some (3, ''{'')]))" by simp
  ultimately show ?thesis
    using asset_paths_follow_manifest [of "[None, Some (1, manifest_text ''dist/app.1.js''), Some (2, manifest_text ''dist/app.2.js'')]" "Some (3, ''{'')" "''/static/app.js''"]
    by simp
qed

end
