(* ===== verification/Startup.thy ===== *)
theory Startup
  imports Http
begin

text \<open>
  How \<open>main\<close> sets the server up: the settings it takes from the environment (\<open>lib/config\<close>, \<open>lib/logging\<close>), the
  choice of the store, the table of routes, and the middleware around every handler (recovery from panics, log of requests,
  filter of hosts).  The router (\<open>gorilla/mux\<close>) and its proxy headers are libraries; the former appears as the
  table it is given, the latter as an argument.
\<close>

section \<open>Settings\<close>

text \<open>\<open>os.Getenv\<close>: the empty text stands for a variable that is not set.\<close>

type_synonym getenv = "string \<Rightarrow> string"

text \<open>A setting, or the file that holds it; a file that cannot be read is a panic.\<close>

definition getConfig :: "getenv \<Rightarrow> (string \<Rightarrow> string result) \<Rightarrow> string \<Rightarrow> string option" where
  "getConfig env readFile name =
     (if env name \<noteq> [] then Some (env name)
      else if env (name @ ''_FILE'') \<noteq> []
      then (case readFile (env (name @ ''_FILE'')) of Inl _ \<Rightarrow> None | Inr content \<Rightarrow> Some (TrimSpace content))
      else Some [])"

datatype log_level = LevelDebug | LevelInfo | LevelWarn | LevelError

definition setting :: "getenv \<Rightarrow> string \<Rightarrow> string" where
  "setting env name = ToLower (TrimSpace (env name))"

text \<open>Whether the log is written as text, and its level.\<close>

definition logging_Init :: "getenv \<Rightarrow> bool \<times> log_level" where
  "logging_Init env =
     (let format = (if setting env ''LOG_FORMAT'' = [] then ''json'' else setting env ''LOG_FORMAT''); level = setting env ''LOG_LEVEL'' in
      (format = ''text'', if level = ''debug'' then LevelDebug else if level = ''warn'' then LevelWarn
         else if level = ''error'' then LevelError else LevelInfo))"

definition trust_proxy :: "getenv \<Rightarrow> bool" where
  "trust_proxy env = (let v = setting env ''TRUST_PROXY'' in if v \<noteq> [] then v = ''1'' \<or> v = ''true'' \<or> v = ''yes'' else True)"

datatype storage_choice = UsePostgres string | UseRedisUrl string | UseRedis string string | UseDisk

definition choose_storage :: "getenv \<Rightarrow> storage_choice" where
  "choose_storage env =
     (if env ''POSTGRESQL_URL'' \<noteq> [] then UsePostgres (env ''POSTGRESQL_URL'')
      else if env ''REDIS_URL'' \<noteq> [] then UseRedisUrl (env ''REDIS_URL'')
      else if env ''REDIS_URI'' \<noteq> [] then UseRedis (env ''REDIS_URI'') (env ''REDIS_PASSWORD'')
      else UseDisk)"

text \<open>The retry worker runs on PostgreSQL only.\<close>

definition retry_worker_runs :: "getenv \<Rightarrow> bool" where
  "retry_worker_runs env = (case choose_storage env of UsePostgres _ \<Rightarrow> True | _ \<Rightarrow> False)"

definition listen_address :: "getenv \<Rightarrow> string" where
  "listen_address env = (if env ''LISTEN'' = [] then ''0.0.0.0:8000'' else env ''LISTEN'')"

definition host_setting :: "getenv \<Rightarrow> string option" where
  "host_setting env =
     (if env ''REDIRECT_URI'' \<noteq> [] then Some (env ''REDIRECT_URI'')
      else if env ''ALLOWED_HOSTNAMES'' \<noteq> [] then Some (env ''ALLOWED_HOSTNAMES'') else None)"

section \<open>Middleware\<close>

type_synonym 'w handler = "web_request \<Rightarrow> 'w \<Rightarrow> (web_reply \<times> 'w) option"

text \<open>The status a reply is written with.\<close>

definition reply_status :: "web_reply \<Rightarrow> int" where
  "reply_status rep = (case rep of Redirect _ \<Rightarrow> 302 | Json c _ \<Rightarrow> c | Error c _ \<Rightarrow> c | Html _ \<Rightarrow> 200)"

definition interesting_paths :: "string list" where
  "interesting_paths = [''/api'', ''/authorize'', ''/manual/authorize'', ''/oauth/state'', ''/healthcheck'']"

definition should_log :: "string \<Rightarrow> string \<Rightarrow> int \<Rightarrow> bool" where
  "should_log mode path status =
     (if mode = ''off'' then False
      else if mode = ''all'' then True
      else if mode = ''important'' then path \<in> set interesting_paths \<or> 400 \<le> status
      else 400 \<le> status)"

text \<open>
  The line a request leaves in the log: none, or one of the level for errors or for information.  A handler that panics
  leaves none here, because the logger runs inside the recovery.
\<close>

definition requestLoggerMiddleware :: "string \<Rightarrow> 'w handler \<Rightarrow> web_request \<Rightarrow> 'w \<Rightarrow> (web_reply \<times> log_level option \<times> 'w) option" where
  "requestLoggerMiddleware mode h r w = map_option (\<lambda>(rep, w').
     (rep, (if should_log mode (wr_Path r) (reply_status rep)
        then Some (if 400 \<le> reply_status rep then LevelError else LevelInfo) else None), w')) (h r w)"

datatype 'w outcome = Answered web_reply "log_level option" 'w | Recovered web_reply

definition recoveryMiddleware :: "(web_request \<Rightarrow> 'w \<Rightarrow> (web_reply \<times> log_level option \<times> 'w) option) \<Rightarrow> web_request \<Rightarrow> 'w \<Rightarrow> 'w outcome" where
  "recoveryMiddleware h r w = (case h r w of
     Some (rep, line, w') \<Rightarrow> Answered rep line w'
   | None \<Rightarrow> Recovered (Error 500 ''internal server error''))"

text \<open>A matched route: recovery outside, then the log, the proxy headers and the filter of hosts.\<close>

definition served :: "getenv \<Rightarrow> (web_request \<Rightarrow> web_request) \<Rightarrow> 'w handler \<Rightarrow> web_request \<Rightarrow> 'w \<Rightarrow> 'w outcome" where
  "served env proxyHeaders h = recoveryMiddleware (requestLoggerMiddleware (setting env ''REQUEST_LOG'') (\<lambda>r.
     let r' = (if trust_proxy env then proxyHeaders r else r) in
     (case host_setting env of None \<Rightarrow> h r' | Some hosts \<Rightarrow> allowedHostsHandler hosts h r')))"

section \<open>Routes\<close>

definition routes :: "(string \<times> string) list" where
  "routes = [(''GET'', ''/authorize''), (''GET'', ''/authorize/family/member''), (''GET'', ''/manual/authorize''), (''POST'', ''/oauth/state''),
     (''POST'', ''/oauth/family/state''), (''POST'', ''/api''), (''POST'', ''/api/telemetry''), (''POST'', ''/users/{id}/trakt-display-name''),
     (''GET'', ''/healthcheck''), (''GET'', ''/admin''), (''GET'', ''/admin/family''), (''GET'', ''/admin/api/users''),
     (''GET'', ''/admin/api/users/{id}''), (''PUT'', ''/admin/api/users/{id}''), (''DELETE'', ''/admin/api/users/{id}''), (''GET'', ''/admin/queue''),
     (''GET'', ''/admin/api/queue/status''), (''GET'', ''/admin/api/queue/events''), (''GET'', ''/admin/api/queue/user/{id}''),
     (''GET'', ''/admin/api/family-groups''), (''GET'', ''/admin/api/family-groups/{id}''), (''POST'', ''/admin/api/family-groups/{id}/members''),
     (''DELETE'', ''/admin/api/family-groups/{group_id}/members/{member_id}''), (''DELETE'', ''/admin/api/family-groups/{id}''), (''GET'', ''/'')]"

text \<open>Two patterns that some path matches both: segment by segment the same, or one of them a variable.\<close>

definition patterns_meet :: "string \<Rightarrow> string \<Rightarrow> bool" where
  "patterns_meet p q \<longleftrightarrow> list_all2 (\<lambda>a b. a = b \<or> HasPrefix a ''{'' \<or> HasPrefix b ''{'') (Split (CHR ''/'') p) (Split (CHR ''/'') q)"

text \<open>No request has a choice between two routes, so that the order of their registration is of no importance.\<close>

fun no_choice :: "(string \<times> string) list \<Rightarrow> bool" where
  "no_choice [] = True"
| "no_choice ((m, p) # rs) \<longleftrightarrow> list_all (\<lambda>(n, q). m = n \<longrightarrow> \<not> patterns_meet p q) rs \<and> no_choice rs"

lemma routes_unambiguous: "no_choice routes"
  by code_simp

section \<open>What the middleware guarantees\<close>

text \<open>A host that is not allowed gets 401 and changes nothing, and unless the log is off it leaves an error there.\<close>

lemma refused_host:
  assumes "host_setting env = Some hosts" "r' = (if trust_proxy env then proxyHeaders r else r)"
    "allowedHostsHandler hosts (\<lambda>_ _. None) r' w \<noteq> None"
  shows "served env proxyHeaders h r w = Answered (Error 401 ''Oh no!'') (if setting env ''REQUEST_LOG'' = ''off'' then None else Some LevelError) w"
  using assms
  by (auto simp: served_def recoveryMiddleware_def requestLoggerMiddleware_def allowedHostsHandler_def should_log_def reply_status_def Let_def split: if_splits)

text \<open>A panic of a handler is an answer with status 500.\<close>

lemma panic_recovered:
  assumes "host_setting env = None" "h (if trust_proxy env then proxyHeaders r else r) w = None"
  shows "served env proxyHeaders h r w = Recovered (Error 500 ''internal server error'')"
  using assms by (simp add: served_def recoveryMiddleware_def requestLoggerMiddleware_def Let_def)

end
