(* ===== verification/Spec2Isabelle.thy ===== *)
theory Spec2Isabelle
  imports Background Admin Pages Lock Redis_Queue Disk_Laws Webhook_Post Assets Startup
begin

text \<open>
  \<^bold>\<open>Plaxt: from Plex webhooks to Trakt scrobbles.\<close>

  Plaxt is a Go server.  Plex sends it a webhook whenever somebody plays, pauses or stops a
  film or an episode; the server finds the user, refreshes that user's Trakt token when it is
  about to expire, filters repetitions, works out which media and what progress are meant and
  sends a scrobble to Trakt.  When Trakt cannot be reached the scrobble goes to a queue in the
  store, a health checker probes Trakt, and when it is live again a drain sends what was
  queued.  A Plex account can stand for a family: then the scrobble is broadcast to every
  authorised member, and a worker retries items of a retry queue.  Users and families give the
  server their tokens through the OAuth flow of Trakt, and an administrator can look at users,
  groups and queues.  Users, groups and queues are kept in one of three stores: PostgreSQL,
  Redis or files.  This development models the server and its stores and proves what they
  promise, and in some places what they fail to keep.

  \<^bold>\<open>Theories and sources.\<close>
  \<^item> \<open>Prelude\<close>: the parts of Go and its library the sources use (strings as bytes, trimming,
    number formatting, time in nanoseconds, errors as a datatype).  \<open>Float64\<close>: rounding to
    \<open>float64\<close> and its arithmetic on rationals, with monotonicity and exactness up to 2 to the 53.
    \<open>Time_Text\<close> and \<open>Json_Text\<close>: instants and JSON documents as text, with printers, parsers and
    their round trips; \<open>Json_Utf8\<close>: what is parsed is valid UTF-8.  \<open>Float_Text\<close>: floating-point
    numbers with their range, their shortest decimals and \<open>ParseFloat\<close>.
  \<^item> \<open>Common\<close> (\<open>lib/common\<close>): scrobble bodies, their JSON encoder and decoder on documents as
    trees, display names.  \<open>Users\<close> (\<open>lib/store/user.go\<close>), \<open>Family\<close> (\<open>family_group.go\<close>,
    \<open>group_member.go\<close>, \<open>notification.go\<close>), \<open>Retry_Item\<close> (\<open>retry_queue_item.go\<close>): the entities,
    one record each, their normalisation, validation and methods.  \<open>Lock\<close> (\<open>lib/common/lock.go\<close>):
    the lock per key with which the Trakt client serialises the webhooks of a player, as a step
    relation on threads that interleave.
  \<^item> \<open>Ring\<close>, \<open>Queue_Event\<close> (\<open>queue.go\<close>), \<open>Event_Log\<close> (\<open>queue_event_log.go\<close>): the ring of
    \<open>container/ring\<close> as a list rotated at its current element, the locale \<open>bounded_log\<close> for what
    both users of the ring rely on, the fallback buffer and the event log as its two
    interpretations.
  \<^item> \<open>Postgres_Db\<close>, \<open>Postgres_Store\<close>, \<open>Postgres_Family\<close> (\<open>postgresql.go\<close>,
    \<open>postgresql_family.go\<close>): the database as a record of tables with the constraints and the
    cascades of \<open>NewPostgresqlClient\<close>; each SQL statement is a function on it, numbered, so that an
    environment can let any statement fail and can answer every reading of the clock and of
    the random source.  The in-memory fallback buffers of the store are part of the same record.
  \<^item> \<open>Store_Laws\<close>: every operation that writes as a step relation, the invariant of the schema
    over its reachable states, and the locale \<open>user_store\<close>, interpreted on the store.
    \<open>Queue_Laws\<close>: the scrobble queue as its clients see it, with order, capacity,
    deduplication and the flush of the fallback buffer.
  \<^item> \<open>Stored_Json\<close>: the documents the other two stores keep (events, groups, members, cache entries).
    \<open>Redis_Server\<close>: the Redis commands, as the locale \<open>redis_server\<close> over a client that is a
    parameter, and a server in memory that satisfies it.  \<open>Redis_Store\<close>, \<open>Redis_Family\<close>
    (\<open>redis.go\<close>): every operation of the store on such a client; \<open>Redis_Laws\<close>: users (a second
    interpretation of \<open>user_store\<close>), names, groups and members.
  \<^item> \<open>Disk_Files\<close>: paths, files and directories with calls that may fail.  \<open>Disk_Store\<close>,
    \<open>Disk_Family\<close> (\<open>disk.go\<close>): every operation of the file store, with \<open>diskv\<close> a parameter;
    \<open>Disk_Laws\<close>: users, groups and names that leave their directory.
  \<^item> \<open>Queue_Spec\<close>: the abstract scrobble queue, and the locale of a store that simulates it.
    \<open>Redis_Queue\<close> and \<open>Disk_Queue\<close> interpret it on the two stores.
  \<^item> \<open>Worker\<close> (\<open>lib/queue\<close>, \<open>lib/notify\<close>): the retry worker over a record of operations; the
    locales \<open>retry_store\<close> and \<open>retry_worker\<close> state what it relies on and are interpreted on
    the store.  \<open>Health\<close> (\<open>lib/trakt/health.go\<close>): the health checker as a function of the
    sequence of its ticks.
  \<^item> \<open>Plex\<close>, \<open>Plex_Json\<close> and \<open>Webhook_Types\<close> (\<open>plexhooks\<close>): the webhook, its decoder with
    \<open>Metadata.UnmarshalJSON\<close>, and the types of what it accepts, on which the round trip of queued
    webhooks rests.  \<open>Trakt\<close> (\<open>lib/trakt\<close>): the Trakt
    client over a record of operations for the network, the store, the log and the clock.
    \<open>Webhook_Flow\<close>: the client on the PostgreSQL store.
  \<^item> \<open>Server_State\<close>, \<open>Drain\<close> and \<open>Api\<close> (\<open>main.go\<close>): the in-memory state of the server, the drain
    of the queue (locale \<open>drain_client\<close>, interpreted on the store with the Trakt client), and the
    webhook endpoint with token refresh, family broadcast and the storing of authorisations.
    \<open>Webhook_Post\<close>: the endpoint with the decoder, from the posted bytes to the request, and from the
    posted bytes into a stored event and back.
  \<^item> \<open>Background\<close> (\<open>main.go\<close>): the goroutine that drains the queues at start-up and after every
    recovery, fed by the health checker, and the metrics of the retry queue.
  \<^item> \<open>Http\<close> (\<open>main.go\<close>): requests, replies, query strings, \<open>SelfRoot\<close> and the filter of host
    names.  \<open>Authorize\<close> and \<open>Family_Flow\<close>: the sessions and callbacks of the authorisation of users
    and of family members.  \<open>Admin\<close>: the endpoints of the administration and of the queue
    monitor.  \<open>Pages\<close>: what the landing page shows.
  \<^item> \<open>Assets\<close> (\<open>assets_manifest.go\<close>): the manifest of static files and its reloading.  \<open>Startup\<close>
    (\<open>main\<close>, \<open>lib/config\<close>, \<open>lib/logging\<close>): settings, the choice of the store, the table of routes,
    and the middleware around the handlers.

  \<^bold>\<open>How code is represented.\<close>  Structs are records, fields renamed where two structs share a
  name; methods are functions that return the new state.  \<^const>\<open>None\<close> stands for a panic, and in
  the functions that take a number of nested calls or turns also for not having returned
  within it; \<open>err\<close> values are Go's errors, with a sum for a pair of result and error.  Methods
  that hold a mutex throughout are atomic.  Goroutines that only share such objects run one
  after the other in an order that is an argument and over which the theorems quantify; only
  \<open>Lock\<close> interleaves single steps.  What is not under \<open>src\<close> is an argument: the network, the
  clock, the random source, the rounding of timestamps by the columns, the Redis client, \<open>diskv\<close>
  and the library parser of URLs.  Rows with equal times of creation keep the order of their
  insertion, which PostgreSQL leaves open, and users of the file store with the same day of update that
  of their keys; dates are formatted in UTC.  The progress \<open>getAction\<close> computes is an unbounded
  integer: the conversion from \<open>float64\<close> can only overflow for a position outside the media, which the
  theorems about it exclude.  \<open>Plex_Json\<close> follows documents as trees between the two passes of
  the metadata decoder; a negative zero is not told from zero.  Log output, response headers and sleeping are left out.

  \<^bold>\<open>Fuel.\<close>  \<open>EnqueueScrobble\<close> takes the number of nested calls it may make, because the flush of
  the fallback buffer calls it again: with nothing buffered one call is enough for every
  result, and with something buffered no number is, which is a theorem about the code and not
  a limit of the model.  \<open>drainUserQueue\<close> takes the turns of its loop; one more than the number
  of the user's events is always enough on a working database; when the deletion of what was sent
  fails again and again no number is, which again is a theorem.  The scan over the keys of a
  Redis server is a partial function, whose value \<^const>\<open>None\<close> is a scan that never returns to
  cursor 0; the contract of the server excludes it, and the theorems conclude a result.

  \<^bold>\<open>What is shown.\<close>  For the PostgreSQL store the integrity of the database over all sequences of
  operations, and that writing a user, enqueuing an event and encoding a body can be read back,
  with the capacity and the order of the queue; for the Redis and the file store that their queues
  refine the same abstract queue, that stored documents are read back exactly, and what happens to
  users and groups.  For the server what every outcome of a retry, a refresh, a webhook, a
  broadcast and a drain does to the store, the log and the network; that a recovery of Trakt is
  followed by a drain that empties all queues; that authorisation states serve once and for fifteen minutes, a
  renewal session stores tokens for the chosen user only, and a family is set up completely or not
  at all; that the decoder reads what Plex sends exactly; that a
  posted webhook becomes one scrobble and its repetition none, and that what it puts into a queue reads back
  as the same request; that the landing page tells the truth about a renewal, hosts are filtered and the monitor's figures are
  those of the queues, and links follow the asset manifest; bounds of progress, delays, buffers and channels in spite of 64-bit and
  floating-point arithmetic.  The theorem below goes through the whole path: a webhook that meets
  an outage is sent again, once and unchanged, by the next drain.

  Where the code breaks its own intention the failure is a theorem too: the endless flush, the
  event lost to a duplicate at capacity, the queue lost to an outage during a drain, the endless
  repetition of an event that cannot be deleted, refused multipart requests and capitalised ratings, a renewal that needs
  no session, dead links for members added by an administrator, a wizard that starts again after a
  failure, a user of the file store that cannot be updated, names that overwrite another
  group's files, lost member tokens in Redis, and a lock that admits two writers.

  \<^bold>\<open>What is not modelled.\<close>  Templates and static files, the text of the JSON replies of the
  administration, the matching of routes by the router, the health check library and the opening
  of connections: they move bytes to and from libraries and keep no state of their own.  The state
  that a handler leaves behind when it panics half-way is not followed.  The client panics when Trakt accepts
  a scrobble with the document \<open>null\<close>: the theorems on drains, retries and webhooks either say so or exclude
  such answers (\<open>no_null\<close>, \<open>sane_net\<close>).
  The client of Trakt has a
  method (\<open>makeRequest\<close>) and the notifier another (\<open>NotifyAuthorizationExpired\<close>) that nothing calls.
  Case mapping is that of ASCII.  The drains of different users
  run one after the other, in any order, and are not interleaved within one user's drain, because
  each touches its own user's queue only.
\<close>

section \<open>From an outage to the drain\<close>

text \<open>The row of a queued event, read back by the drain.\<close>

lemma queued_event_read_back:
  assumes "ev = (queued_event user (sent_item hook media progress) action)\<lparr>ev_ID := eid, ev_CreatedAt := t\<rparr>"
    "Body_ok (media\<lparr>Progress := progress\<rparr>)"
  shows "decodes (row_of_event e ev)" "Action (row_event (row_of_event e ev)) = action"
    "Body (queued_item (row_event (row_of_event e ev))) = media\<lparr>Progress := progress\<rparr>"
proof -
  have body: "ev_ScrobbleBody ev = media\<lparr>Progress := progress\<rparr>" "Action ev = action"
    by (simp_all add: assms(1) queued_event_def sent_item_def)
  with assms(2) have "Body_ok (ev_ScrobbleBody ev)" by simp
  from row_of_event_decodes [OF this, of e] body
  show "decodes (row_of_event e ev)" "Action (row_event (row_of_event e ev)) = action"
    "Body (queued_item (row_event (row_of_event e ev))) = media\<lparr>Progress := progress\<rparr>"
    by (simp_all add: stored_event_def queued_item_def)
qed

text \<open>
  C1. An outage is bridged: a webhook arrives while Trakt fails or answers with an outage code;
  later Trakt accepts scrobbles and the user's queue is drained.  Then, on a working database
  and with nothing else queued for the user, exactly two requests have been made, the one that
  failed and, with the drain, the very same request again, which is accepted; the queue is
  empty and the drain reports one event sent and none failed.
\<close>

theorem outage_is_bridged:
  assumes te: "te = pg_trakt (Suc fuel) e (recorded neta) parse url cid sec"
    and hook: "actionable te hook media" "position_ok hook" "getAction te hook (s, l, d, m, h) = ((action, cache, progress), w)"
      "Body_ok (media\<lparr>Progress := progress\<rparr>)"
    and ev: "ev = (queued_event user (sent_item hook media progress) action)\<lparr>ev_ID := eid, ev_CreatedAt := env_now e (stmt_no s)\<rparr>"
    and req: "req = scrobble_req te action (media\<lparr>Progress := progress\<rparr>) (AccessToken user)"
    and down: "retry_worthy (fst (neta req m))"
    and db: "healthy e s" "schema_ok s" "list_all decodes (queued_scrobbles s)" "log_inv 100 l"
      "generateEventID (env_rand e (stmt_no s)) = Inr eid" "new_row (row_of_event e ev) s"
    and user: "usr_ID user \<noteq> []" "no_fallback (usr_ID user) s" "user_queue (usr_ID user) s = []"
      "find (\<lambda>r. u_id r = usr_ID user) (users s) = Some row" "u_access row = AccessToken user"
    and live: "no_null netb" "\<forall>r n. answer_err (fst (netb r n)) = None"
  shows "\<exists>s1 l1 m1 s2 l2 d2 m2 x y.
    Handle te (Some hook) user (s, l, d, m, h) = Some (s1, l1, d, m1, h @ [(req, x)]) \<and>
    drainUserQueue 2 (pg_drain_ops e netb cid) (usr_ID user) (s1, l1, d, m1, h @ [(req, x)]) =
      Returned (1, 0) (s2, l2, d2, m2, h @ [(req, x), (req, y)]) \<and>
    answer_err y = None \<and> user_queue (usr_ID user) s2 = []"
proof -
  let ?u = "usr_ID user" and ?body = "media\<lparr>Progress := progress\<rparr>"
  obtain x m1 where net: "neta req m = (x, m1)" by fastforce
  have "retry_worthy (fst (recorded neta req (d, m, h)))" using down net by (simp add: recorded_def)
  then obtain s1 l1 where s1: "Handle te (Some hook) user (s, l, d, m, h) = Some (s1, l1, snd (recorded neta req (d, m, h)))"
    "queued_scrobbles s1 = queued_scrobbles s @ [row_of_event e ev]" "users s1 = users s" "healthy e s1" "log_inv 100 l1" "schema_ok s1"
    using outage_queues [OF te hook(1-3) ev] db user(1-3) req by auto
  have w1: "snd (recorded neta req (d, m, h)) = (d, m1, h @ [(req, x)])" using net by (simp add: recorded_def)
  note rb = queued_event_read_back [OF ev hook(4), of e]
  have ok: "drain_ok e (s1, l1, d, m1, h @ [(req, x)])"
    using s1(2,4-6) db(3) rb(1) by (simp add: drain_ok_def)
  have "q_user_id (row_of_event e ev) = ?u" by (simp add: row_of_event_def ev queued_event_def)
  then have q: "user_queue ?u s1 = [row_of_event e ev]" using user(3) s1(2) by (simp add: user_queue_def)
  obtain k s2 l2 d2 m2 segs where run: "drainUserQueue 2 (pg_drain_ops e netb cid) ?u (s1, l1, d, m1, h @ [(req, x)]) =
      Returned (k, 1 - k) (s2, l2, d2, m2, (h @ [(req, x)]) @ concat segs)" "user_queue ?u s2 = []"
    "k = length (filter (delivered answer_err) segs)"
    "list_all2 (\<lambda>v. attempts (answers netb) answer_err (drain_req cid (Action v) (queued_item v) (u_access row))) [row_event (row_of_event e ev)] segs"
    using drain_run [OF ok, of ?u row 2 netb cid] user(4) s1(3) q live(1) by (auto simp: order_asc_def)
  have "drain_req cid action (queued_item (row_event (row_of_event e ev))) (u_access row) = req"
    using rb(3) user(5) by (simp add: req scrobble_req_def drain_req_def te)
  with run(4) rb(2) obtain seg where seg: "segs = [seg]" "attempts (answers netb) answer_err req seg" by (auto simp: list_all2_Cons1)
  have quiet: "answer_err a = None" if "answers netb a" for a using that live(2) by (auto simp: answers_def)
  then obtain y where y: "seg = [(req, y)]" "answer_err y = None"
    using attempts_once [OF seg(2)] by (auto simp: isTransientError_def)
  with run seg(1) have "drainUserQueue 2 (pg_drain_ops e netb cid) ?u (s1, l1, d, m1, h @ [(req, x)]) =
      Returned (1, 0) (s2, l2, d2, m2, h @ [(req, x), (req, y)])" by (simp add: delivered_def)
  with s1(1) w1 run(2) y(2) show ?thesis by auto
qed

definition bridged_user :: User where
  "bridged_user = demo_user\<lparr>AccessToken := ''a''\<rparr>"

definition bridged_te :: "unit drain_world TraktEnv" where
  "bridged_te = pg_trakt 1 demo_env (recorded (const_net (Inl (Err ''connection refused'')))) (\<lambda>_. None) (\<lambda>_. None) ''cid'' ''secret''"

lemma bridged_actionable: "actionable bridged_te demo_hook heat"
  by (simp add: actionable_def media_body_def handleMovie_def demo_hook_def heat_ids heat_def)

lemma bridged_action: "getAction bridged_te demo_hook (s, l, n) = ((''pause'', zero_CacheItem, 50), (s, l, n))"
proof -
  have "math_Round (f64_mult (f64_div (f64 50) (f64 100)) 100) = 50" by code_simp
  then show ?thesis
    by (simp add: getAction_def bridged_te_def) (simp add: demo_hook_def action_defs ProgressThreshold_def)
qed

theorem outage_is_bridged_witness:
  "\<exists>s1 l1 s2 l2 d2 x y.
    Handle bridged_te (Some demo_hook) bridged_user (demo_db, NewQueueEventLog 100, NewDrainStateTracker, (), []) =
      Some (s1, l1, NewDrainStateTracker, (), [x]) \<and>
    drainUserQueue 2 (pg_drain_ops demo_env (const_net accept) ''cid'') ''u'' (s1, l1, NewDrainStateTracker, (), [x]) =
      Returned (1, 0) (s2, l2, d2, (), [x, y]) \<and> fst x = fst y \<and> user_queue ''u'' s2 = []"
proof -
  obtain eid where eid: "generateEventID (env_rand demo_env (stmt_no demo_db)) = Inr eid"
    by (simp add: generateEventID_def demo_env_def Let_def)
  define ev where "ev = (queued_event bridged_user (sent_item demo_hook heat 50) ''pause'')
    \<lparr>ev_ID := eid, ev_CreatedAt := env_now demo_env (stmt_no demo_db)\<rparr>"
  have row: "new_row (row_of_event demo_env ev) demo_db"
    by (simp add: new_row_def) (simp add: row_of_event_def ev_def queued_event_def sent_item_def bridged_user_def demo_user_def queued_check_def)
  have hook: "position_ok demo_hook" "Body_ok (heat\<lparr>Progress := 50\<rparr>)"
    by (simp_all add: position_ok_def demo_hook_def heat_def Body_ok_def Movie_ok_def Ids_ok_def zero_defs in_int64_def)
  have user: "usr_ID bridged_user = ''u''" "AccessToken bridged_user = ''a''" "u_access demo_user_row = ''a''"
    "find (\<lambda>r. u_id r = ''u'') (users demo_db) = Some demo_user_row"
    by (simp_all add: bridged_user_def demo_user_def demo_user_row_def demo_db_def)
  have db: "schema_ok demo_db" "list_all decodes (queued_scrobbles demo_db)"
    by (simp_all add: schema_ok_def table_ok_defs demo_db_def pg_empty_def demo_user_row_def)
  from outage_is_bridged [where te = bridged_te and fuel = 0 and e = demo_env and neta = "const_net (Inl (Err ''connection refused''))" and
      parse = "\<lambda>_. None" and url = "\<lambda>_. None" and cid = "''cid''" and sec = "''secret''" and hook = demo_hook and media = heat and
      s = demo_db and l = "NewQueueEventLog 100" and d = NewDrainStateTracker and m = "()" and h = "[]" and user = bridged_user and
      netb = "const_net accept" and row = demo_user_row, OF _ bridged_actionable hook(1) bridged_action hook(2) ev_def refl]
  show ?thesis using eid row user db event_log.fresh_inv
    by (auto simp: bridged_te_def const_net_def retry_worthy_def)
qed

end
